(* ===== verification/Prelude.thy ===== *)
theory Prelude
  imports
    Main
    "HOL-Library.Multiset"
    "HOL-Library.Word"
    "HOL-Library.Char_ord"
    "HOL-Library.List_Lexorder"
    "HOL-Library.Product_Lexorder"
    "HOL-Library.Code_Target_Nat"
begin

text \<open>
  Shared vocabulary of the development: Rust's \<open>Result\<close> with panics made visible, the loop
  combinators the components are written with, the string operations of the standard library on
  UTF-8 byte strings, and checked 64-bit arithmetic. Nothing here is specific to one component.
\<close>

named_theorems outcome_simps \<open>inversion rules for fallible computations\<close>

section \<open>Fallible computations\<close>

text \<open>
  \<open>Ok\<close> and \<open>Err\<close> are Rust's \<open>Result\<close>. \<open>Panic\<close> is a failed \<open>expect\<close>, an \<open>unreachable!\<close> or an
  out-of-range index: a branch of its own, so that a theorem can say it is never taken.
\<close>

datatype ('e, 'a) outcome = Ok 'a | Err 'e | Panic

fun and_then :: "('e, 'a) outcome \<Rightarrow> ('a \<Rightarrow> ('e, 'b) outcome) \<Rightarrow> ('e, 'b) outcome" where
  "and_then (Ok x) f = f x"
| "and_then (Err e) f = Err e"
| "and_then Panic f = Panic"

fun map_err :: "('e \<Rightarrow> 'f) \<Rightarrow> ('e, 'a) outcome \<Rightarrow> ('f, 'a) outcome" where
  "map_err g (Ok x) = Ok x"
| "map_err g (Err e) = Err (g e)"
| "map_err g Panic = Panic"

definition ok_or :: "'e \<Rightarrow> 'a option \<Rightarrow> ('e, 'a) outcome" where
  "ok_or e x = (case x of None \<Rightarrow> Err e | Some v \<Rightarrow> Ok v)"

definition expect :: "'a option \<Rightarrow> ('e, 'a) outcome" where
  "expect x = (case x of None \<Rightarrow> Panic | Some v \<Rightarrow> Ok v)"

fun is_ok :: "('e, 'a) outcome \<Rightarrow> bool" where
  "is_ok (Ok _) = True"
| "is_ok (Err _) = False"
| "is_ok Panic = False"

lemma and_then_Ok_iff [outcome_simps]:
  "and_then m f = Ok y \<longleftrightarrow> (\<exists>x. m = Ok x \<and> f x = Ok y)"
  by (cases m) auto

lemma and_then_Err_iff [outcome_simps]:
  "and_then m f = Err e \<longleftrightarrow> m = Err e \<or> (\<exists>x. m = Ok x \<and> f x = Err e)"
  by (cases m) auto

lemma and_then_Panic_iff [outcome_simps]:
  "and_then m f = Panic \<longleftrightarrow> m = Panic \<or> (\<exists>x. m = Ok x \<and> f x = Panic)"
  by (cases m) auto

lemma map_err_Ok_iff [outcome_simps]: "map_err g m = Ok x \<longleftrightarrow> m = Ok x"
  by (cases m) auto

lemma map_err_Err_iff [outcome_simps]: "map_err g m = Err e \<longleftrightarrow> (\<exists>e'. m = Err e' \<and> e = g e')"
  by (cases m) auto

lemma map_err_Panic_iff [outcome_simps]: "map_err g m = Panic \<longleftrightarrow> m = Panic"
  by (cases m) auto

lemma ok_or_Ok_iff [outcome_simps]: "ok_or e x = Ok v \<longleftrightarrow> x = Some v"
  by (simp add: ok_or_def split: option.splits)

lemma ok_or_Err_iff [outcome_simps]: "ok_or e x = Err e' \<longleftrightarrow> x = None \<and> e' = e"
  by (auto simp: ok_or_def split: option.splits)

lemma ok_or_not_Panic [simp]: "ok_or e x \<noteq> Panic"
  by (simp add: ok_or_def split: option.splits)

lemma ok_or_simps [simp]: "ok_or e None = Err e" "ok_or e (Some v) = Ok v"
  by (simp_all add: ok_or_def)

lemma expect_Ok_iff [outcome_simps]: "expect x = Ok v \<longleftrightarrow> x = Some v"
  by (simp add: expect_def split: option.splits)

lemma expect_Panic_iff [outcome_simps]: "expect x = Panic \<longleftrightarrow> x = None"
  by (simp add: expect_def split: option.splits)

lemma expect_not_Err [simp]: "expect x \<noteq> Err e"
  by (simp add: expect_def split: option.splits)

lemma expect_simps [simp]: "expect None = Panic" "expect (Some v) = Ok v"
  by (simp_all add: expect_def)

lemma is_ok_iff [outcome_simps]: "is_ok m \<longleftrightarrow> (\<exists>x. m = Ok x)"
  by (cases m) auto

lemma if_Err_eq_Ok [outcome_simps]: "(if c then Err e else m) = Ok x \<longleftrightarrow> \<not> c \<and> m = Ok x"
  by simp

lemma if_Err_eq_Panic [outcome_simps]: "(if c then Err e else m) = Panic \<longleftrightarrow> \<not> c \<and> m = Panic"
  by simp

lemma if_Ok_Err_simps [simp]:
  "(if c then Ok x else Err e) \<noteq> Panic" "(if c then Err e else Ok x) \<noteq> Panic"
  "(if c then Ok x else Err e) = Ok y \<longleftrightarrow> c \<and> x = y"
  "(if c then Err e else Ok x) = Ok y \<longleftrightarrow> \<not> c \<and> x = y"
  by simp_all

lemma and_then_cong [fundef_cong]:
  "m = m' \<Longrightarrow> (\<And>x. m' = Ok x \<Longrightarrow> f x = g x) \<Longrightarrow> and_then m f = and_then m' g"
  by (cases m') auto

subsection \<open>Loops that may return early\<close>

text \<open>\<open>for x in xs { f(x)?; }\<close>, and the same loop with a mutable accumulator or a pushed result.\<close>

fun for_each :: "('a \<Rightarrow> ('e, unit) outcome) \<Rightarrow> 'a list \<Rightarrow> ('e, unit) outcome" where
  "for_each f [] = Ok ()"
| "for_each f (x # xs) = and_then (f x) (\<lambda>_. for_each f xs)"

fun fold_m :: "('s \<Rightarrow> 'a \<Rightarrow> ('e, 's) outcome) \<Rightarrow> 's \<Rightarrow> 'a list \<Rightarrow> ('e, 's) outcome" where
  "fold_m f s [] = Ok s"
| "fold_m f s (x # xs) = and_then (f s x) (\<lambda>s'. fold_m f s' xs)"

fun map_m :: "('a \<Rightarrow> ('e, 'b) outcome) \<Rightarrow> 'a list \<Rightarrow> ('e, 'b list) outcome" where
  "map_m f [] = Ok []"
| "map_m f (x # xs) = and_then (f x) (\<lambda>y. and_then (map_m f xs) (\<lambda>ys. Ok (y # ys)))"

lemma for_each_Ok_iff [outcome_simps]: "for_each f xs = Ok u \<longleftrightarrow> (\<forall>x\<in>set xs. f x = Ok ())"
  by (induction xs) (auto simp: and_then_Ok_iff)

lemma for_each_not_Panic: "(\<And>x. x \<in> set xs \<Longrightarrow> f x \<noteq> Panic) \<Longrightarrow> for_each f xs \<noteq> Panic"
  by (induction xs) (auto simp: and_then_Panic_iff)

lemma for_each_Err:
  "for_each f xs = Err e \<Longrightarrow> \<exists>x\<in>set xs. f x = Err e"
  by (induction xs) (auto simp: and_then_Err_iff)

lemma for_each_append:
  "for_each f (xs @ ys) = and_then (for_each f xs) (\<lambda>_. for_each f ys)"
proof (induction xs)
  case (Cons x xs)
  then show ?case by (cases "f x") auto
qed simp

lemma for_each_cong [fundef_cong]:
  "xs = ys \<Longrightarrow> (\<And>x. x \<in> set ys \<Longrightarrow> f x = g x) \<Longrightarrow> for_each f xs = for_each g ys"
proof (induction ys arbitrary: xs)
  case (Cons y ys)
  then show ?case by simp
qed simp

lemma fold_m_cong [fundef_cong]:
  "xs = ys \<Longrightarrow> s = t \<Longrightarrow> (\<And>s x. x \<in> set ys \<Longrightarrow> f s x = g s x) \<Longrightarrow> fold_m f s xs = fold_m g t ys"
proof (induction ys arbitrary: xs s t)
  case (Cons y ys)
  then show ?case by (auto intro!: and_then_cong)
qed simp

lemma fold_m_append:
  "fold_m f s (xs @ ys) = and_then (fold_m f s xs) (\<lambda>s'. fold_m f s' ys)"
proof (induction xs arbitrary: s)
  case (Cons x xs)
  then show ?case by (cases "f s x") auto
qed simp

lemma fold_m_invariant:
  assumes "fold_m f s xs = Ok t" and "P s"
    and "\<And>s x s'. x \<in> set xs \<Longrightarrow> P s \<Longrightarrow> f s x = Ok s' \<Longrightarrow> P s'"
  shows "P t"
  using assms
proof (induction xs arbitrary: s)
  case (Cons x xs)
  from Cons.prems(1) obtain s' where "f s x = Ok s'" and rest: "fold_m f s' xs = Ok t"
    by (auto simp: and_then_Ok_iff)
  with Cons.prems(2,3) have "P s'" by auto
  with rest Cons.prems(3) show ?case by (auto intro: Cons.IH)
qed simp

lemma fold_m_not_Panic:
  assumes "\<And>s x. x \<in> set xs \<Longrightarrow> f s x \<noteq> Panic"
  shows "fold_m f s xs \<noteq> Panic"
  using assms by (induction xs arbitrary: s) (auto simp: and_then_Panic_iff)

lemma map_m_Ok_iff [outcome_simps]: "map_m f xs = Ok ys \<longleftrightarrow> list_all2 (\<lambda>x y. f x = Ok y) xs ys"
proof (induction xs arbitrary: ys)
  case Nil
  then show ?case by auto
next
  case (Cons x xs)
  then show ?case by (cases ys) (auto simp: and_then_Ok_iff)
qed

lemma map_m_not_Panic: "(\<And>x. x \<in> set xs \<Longrightarrow> f x \<noteq> Panic) \<Longrightarrow> map_m f xs \<noteq> Panic"
  by (induction xs) (auto simp: and_then_Panic_iff)

lemma map_m_Ok_map: "(\<And>x. x \<in> set xs \<Longrightarrow> f x = Ok (g x)) \<Longrightarrow> map_m f xs = Ok (map g xs)"
  by (induction xs) auto

text \<open>A mapped step that succeeds under a condition, with a known result.\<close>

lemma map_m_Ok_pointwise:
  assumes "\<And>x y. x \<in> set xs \<Longrightarrow> f x = Ok y \<longleftrightarrow> P x \<and> y = g x"
  shows "map_m f xs = Ok ys \<longleftrightarrow> (\<forall>x\<in>set xs. P x) \<and> ys = map g xs"
  using assms
proof (induction xs arbitrary: ys)
  case (Cons x xs)
  then have "map_m f xs = Ok ys \<longleftrightarrow> (\<forall>x\<in>set xs. P x) \<and> ys = map g xs" for ys by simp
  with Cons.prems [of x] show ?case by (auto simp: and_then_Ok_iff)
qed auto

subsection \<open>Searching a list\<close>

lemma find_Some_mem: "List.find P xs = Some x \<Longrightarrow> x \<in> set xs \<and> P x"
  by (auto simp: find_Some_iff in_set_conv_nth)

lemma find_None_all: "List.find P xs = None \<longleftrightarrow> (\<forall>x\<in>set xs. \<not> P x)"
  by (auto simp: find_None_iff)

lemma find_distinct_key:
  assumes "distinct (map k xs)" and "x \<in> set xs"
  shows "List.find (\<lambda>y. k y = k x) xs = Some x"
  using assms by (induction xs) (auto simp: rev_image_eqI)

text \<open>Rust's \<open>[T]::windows(2)\<close> over a sorted list: is some neighbouring pair equal under \<open>k\<close>?\<close>

fun adjacent_dup :: "('a \<Rightarrow> 'b) \<Rightarrow> 'a list \<Rightarrow> bool" where
  "adjacent_dup k (x # y # zs) = (k x = k y \<or> adjacent_dup k (y # zs))"
| "adjacent_dup k _ = False"

lemma adjacent_dup_sorted:
  fixes k :: "'a \<Rightarrow> 'b::linorder"
  shows "sorted (map k xs) \<Longrightarrow> \<not> adjacent_dup k xs \<longleftrightarrow> distinct (map k xs)"
proof (induction k xs rule: adjacent_dup.induct)
  case (1 k x y zs)
  then show ?case by (auto simp: less_le_not_le dest: order_antisym)
qed auto

text \<open>
  \<open>for x in xs { if !seen.insert(k(x)) { return Err(e(x)); } g(x)?; }\<close>: the loop the checks of
  declarations are written with.
\<close>

fun unique_loop ::
  "'k set \<Rightarrow> ('a \<Rightarrow> 'k) \<Rightarrow> ('a \<Rightarrow> 'e) \<Rightarrow> ('a \<Rightarrow> ('e, unit) outcome) \<Rightarrow> 'a list \<Rightarrow> ('e, unit) outcome"
where
  "unique_loop seen k e g [] = Ok ()"
| "unique_loop seen k e g (x # xs) =
     (if k x \<in> seen then Err (e x)
      else and_then (g x) (\<lambda>_. unique_loop (insert (k x) seen) k e g xs))"

lemma unique_loop_Ok_iff [outcome_simps]:
  "unique_loop seen k e g xs = Ok u \<longleftrightarrow>
     distinct (map k xs) \<and> k ` set xs \<inter> seen = {} \<and> (\<forall>x\<in>set xs. g x = Ok ())"
  by (induction xs arbitrary: seen) (auto simp: and_then_Ok_iff)

lemma unique_loop_not_Panic:
  "(\<And>x. x \<in> set xs \<Longrightarrow> g x \<noteq> Panic) \<Longrightarrow> unique_loop seen k e g xs \<noteq> Panic"
  by (induction xs arbitrary: seen) (auto simp: and_then_Panic_iff)

text \<open>The same loop written as a fold that carries the set of keys seen so far.\<close>

lemma seen_fold_Ok_iff:
  assumes step: "\<And>seen x s'. x \<in> set xs \<Longrightarrow>
      step seen x = Ok s' \<longleftrightarrow> k x \<notin> seen \<and> P x \<and> s' = insert (k x) seen"
  shows "fold_m step seen xs = Ok s' \<longleftrightarrow>
      distinct (map k xs) \<and> k ` set xs \<inter> seen = {} \<and> (\<forall>x\<in>set xs. P x) \<and> s' = seen \<union> k ` set xs"
  using step by (induction xs arbitrary: seen) (auto simp: and_then_Ok_iff)

lemma list_all2_source: "list_all2 P xs ys \<Longrightarrow> y \<in> set ys \<Longrightarrow> \<exists>x\<in>set xs. P x y"
  by (induction rule: list_all2_induct) auto

end
