(* ===== verification/Rust_Std.thy ===== *)
theory Rust_Std
  imports Prelude
begin

text \<open>
  What the code uses of Rust's language and standard library: \<open>String\<close> as its UTF-8 bytes (one
  \<open>char\<close> per byte, so \<open>length\<close> is \<open>str::len\<close>), the byte and scalar predicates, \<open>trim\<close>, decimal
  parsing and printing, and checked arithmetic on \<open>i64\<close> and \<open>u64\<close>. The order on \<open>string\<close> is the
  bytewise lexicographic order of \<open>str::cmp\<close>. A Rust string is always well-formed UTF-8; on other
  byte lists the scalar functions still terminate but mean nothing.
\<close>

section \<open>Machine integers\<close>

type_synonym i64 = "64 word"
type_synonym u64 = "64 word"
type_synonym u32 = "32 word"

definition i64_range :: "int \<Rightarrow> bool" where
  "i64_range n \<longleftrightarrow> - (2 ^ 63) \<le> n \<and> n < 2 ^ 63"

text \<open>\<open>i64::checked_add\<close>, \<open>i64::checked_mul\<close>, \<open>u64::checked_add\<close> and \<open>i64::try_from(u64)\<close>.\<close>

definition checked_add :: "i64 \<Rightarrow> i64 \<Rightarrow> i64 option" where
  "checked_add a b = (if i64_range (sint a + sint b) then Some (a + b) else None)"

definition checked_mul :: "i64 \<Rightarrow> i64 \<Rightarrow> i64 option" where
  "checked_mul a b = (if i64_range (sint a * sint b) then Some (a * b) else None)"

definition checked_add_u64 :: "u64 \<Rightarrow> u64 \<Rightarrow> u64 option" where
  "checked_add_u64 a b = (if unat a + unat b < 2 ^ 64 then Some (a + b) else None)"

definition i64_of_u64 :: "u64 \<Rightarrow> i64 option" where
  "i64_of_u64 a = (if unat a < 2 ^ 63 then Some a else None)"

definition u64_of_i64 :: "i64 \<Rightarrow> u64 option" where
  "u64_of_i64 a = (if 0 \<le> sint a then Some a else None)"

lemma sint_i64_range: "i64_range (sint (a :: i64))"
  using sint_range_size [of a] by (simp add: i64_range_def word_size)

lemma sint_word_of_int_i64: "i64_range n \<Longrightarrow> sint (word_of_int n :: i64) = n"
  by (simp add: i64_range_def sint_sbintrunc' signed_take_bit_int_eq_self)

lemma checked_add_Some: "checked_add a b = Some c \<Longrightarrow> sint c = sint a + sint b"
  using sint_word_of_int_i64 [of "sint a + sint b"]
  by (auto simp: checked_add_def split: if_splits)

lemma checked_add_None: "checked_add a b = None \<longleftrightarrow> \<not> i64_range (sint a + sint b)"
  by (simp add: checked_add_def)

lemma checked_mul_Some: "checked_mul a b = Some c \<Longrightarrow> sint c = sint a * sint b"
  using sint_word_of_int_i64 [of "sint a * sint b"]
  by (auto simp: checked_mul_def split: if_splits)

lemma checked_add_u64_Some: "checked_add_u64 a b = Some c \<Longrightarrow> unat c = unat a + unat b"
  by (auto simp: checked_add_u64_def unat_word_ariths split: if_splits)

lemma checked_add_u64_one_Some: "checked_add_u64 a 1 = Some c \<Longrightarrow> unat c = Suc (unat a)"
  by (drule checked_add_u64_Some) simp

section \<open>Strings\<close>

definition is_ascii_digit :: "char \<Rightarrow> bool" where
  "is_ascii_digit c \<longleftrightarrow> CHR ''0'' \<le> c \<and> c \<le> CHR ''9''"

definition is_ascii_uppercase :: "char \<Rightarrow> bool" where
  "is_ascii_uppercase c \<longleftrightarrow> CHR ''A'' \<le> c \<and> c \<le> CHR ''Z''"

definition is_ascii_lowercase :: "char \<Rightarrow> bool" where
  "is_ascii_lowercase c \<longleftrightarrow> CHR ''a'' \<le> c \<and> c \<le> CHR ''z''"

definition is_ascii_alphanumeric :: "char \<Rightarrow> bool" where
  "is_ascii_alphanumeric c \<longleftrightarrow> is_ascii_digit c \<or> is_ascii_uppercase c \<or> is_ascii_lowercase c"

lemmas ascii_defs = is_ascii_alphanumeric_def is_ascii_digit_def is_ascii_uppercase_def
  is_ascii_lowercase_def

definition starts_with :: "string \<Rightarrow> string \<Rightarrow> bool" where
  "starts_with s p \<longleftrightarrow> take (length p) s = p"

definition ends_with :: "string \<Rightarrow> string \<Rightarrow> bool" where
  "ends_with s p \<longleftrightarrow> length p \<le> length s \<and> drop (length s - length p) s = p"

definition strip_prefix :: "string \<Rightarrow> string \<Rightarrow> string option" where
  "strip_prefix s p = (if starts_with s p then Some (drop (length p) s) else None)"

lemma starts_with_append [simp]: "starts_with (p @ s) p"
  by (simp add: starts_with_def)

lemma strip_prefix_append [simp]: "strip_prefix (p @ s) p = Some s"
  by (simp add: strip_prefix_def)

lemma strip_prefix_Some: "strip_prefix s p = Some r \<longleftrightarrow> s = p @ r"
  by (auto simp: strip_prefix_def starts_with_def) (metis append_take_drop_id)

subsection \<open>Unicode scalars\<close>

text \<open>\<open>str::chars\<close>: each scalar is kept as the bytes that encode it.\<close>

definition utf8_width :: "char \<Rightarrow> nat" where
  "utf8_width c = (let n = of_char c :: nat in
     if n < 192 then 1 else if n < 224 then 2 else if n < 240 then 3 else 4)"

lemma utf8_width_pos: "0 < utf8_width c"
  by (simp add: utf8_width_def Let_def)

function str_chars :: "string \<Rightarrow> string list" where
  "str_chars [] = []"
| "str_chars (c # cs) =
     (c # take (utf8_width c - 1) cs) # str_chars (drop (utf8_width c - 1) cs)"
  by pat_completeness auto
termination by (relation "measure length") auto

fun scalar :: "string \<Rightarrow> nat" where
  "scalar [a] = of_char a"
| "scalar [a, b] = (of_char a - 192) * 64 + (of_char b - 128)"
| "scalar [a, b, c] = ((of_char a - 224) * 64 + (of_char b - 128)) * 64 + (of_char c - 128)"
| "scalar [a, b, c, d] =
     (((of_char a - 240) * 64 + (of_char b - 128)) * 64 + (of_char c - 128)) * 64
       + (of_char d - 128)"
| "scalar _ = 0"

text \<open>\<open>char::is_control\<close> (general category Cc) and \<open>char::is_whitespace\<close> (White\_Space).\<close>

definition is_control :: "string \<Rightarrow> bool" where
  "is_control s \<longleftrightarrow> scalar s < 32 \<or> (127 \<le> scalar s \<and> scalar s < 160)"

definition is_whitespace :: "string \<Rightarrow> bool" where
  "is_whitespace s \<longleftrightarrow> (let n = scalar s in
     (9 \<le> n \<and> n \<le> 13) \<or> n = 32 \<or> n = 133 \<or> n = 160 \<or> n = 5760 \<or> (8192 \<le> n \<and> n \<le> 8202)
       \<or> n = 8232 \<or> n = 8233 \<or> n = 8239 \<or> n = 8287 \<or> n = 12288)"

definition trim :: "string \<Rightarrow> string" where
  "trim s = concat (rev (dropWhile is_whitespace (rev (dropWhile is_whitespace (str_chars s)))))"

lemma concat_str_chars: "concat (str_chars s) = s"
  by (induction s rule: str_chars.induct) auto

lemma length_trim_le: "length (trim s) \<le> length s"
proof -
  have drop_le: "length (concat (dropWhile P xs)) \<le> length (concat xs)"
    for P and xs :: "string list"
    by (induction xs) auto
  have rev_eq: "length (concat (rev xs)) = length (concat xs)" for xs :: "string list"
    by (induction xs) auto
  have "length (trim s) \<le> length (concat (str_chars s))"
    unfolding trim_def rev_eq
    by (rule order_trans [OF drop_le]) (simp only: rev_eq drop_le)
  then show ?thesis by (simp add: concat_str_chars)
qed

lemma length_str_chars_le: "length (str_chars s) \<le> length s"
  by (induction s rule: str_chars.induct) auto

subsection \<open>Decimal text\<close>

definition digit_value :: "char \<Rightarrow> nat" where
  "digit_value c = of_char c - 48"

definition digit_char :: "nat \<Rightarrow> char" where
  "digit_char d = char_of (48 + d)"

lemma digit_value_char [simp]: "d < 10 \<Longrightarrow> digit_value (digit_char d) = d"
  by (simp add: digit_value_def digit_char_def)

lemma is_ascii_digit_char [simp]: "d < 10 \<Longrightarrow> is_ascii_digit (digit_char d)"
  by (simp add: is_ascii_digit_def digit_char_def less_eq_char_def)

text \<open>\<open>u64::to_string\<close>.\<close>

fun show_nat :: "nat \<Rightarrow> string" where
  "show_nat n = (if n < 10 then [digit_char n] else show_nat (n div 10) @ [digit_char (n mod 10)])"

declare show_nat.simps [simp del]

definition digits_value :: "string \<Rightarrow> nat" where
  "digits_value s = foldl (\<lambda>n c. 10 * n + digit_value c) 0 s"

lemma digits_value_snoc: "digits_value (s @ [c]) = 10 * digits_value s + digit_value c"
  by (simp add: digits_value_def)

lemma digits_value_show_nat [simp]: "digits_value (show_nat n) = n"
proof (induction n rule: show_nat.induct)
  case (1 n)
  then show ?case
    by (subst show_nat.simps) (auto simp: digits_value_snoc digits_value_def)
qed

lemma show_nat_digits: "\<forall>c\<in>set (show_nat n). is_ascii_digit c"
proof (induction n rule: show_nat.induct)
  case (1 n)
  then show ?case by (subst show_nat.simps) auto
qed

lemma show_nat_nonempty [simp]: "show_nat n \<noteq> []"
  by (subst show_nat.simps) simp

lemma digit_char_eq_0_iff [simp]: "d < 10 \<Longrightarrow> digit_char d = CHR ''0'' \<longleftrightarrow> d = 0"
proof -
  assume d: "d < 10"
  have "digit_char d = CHR ''0'' \<Longrightarrow> d = digit_value (CHR ''0'')"
    using digit_value_char [OF d] by simp
  moreover have "digit_value (CHR ''0'') = 0" "digit_char 0 = CHR ''0''"
    by (simp_all add: digit_value_def digit_char_def char_of_eq_iff)
  ultimately show ?thesis by auto
qed

lemma hd_show_nat: "hd (show_nat n) = CHR ''0'' \<longleftrightarrow> n = 0"
proof (induction n rule: show_nat.induct)
  case (1 n)
  then show ?case by (subst show_nat.simps) (auto simp: hd_append)
qed

lemma length_show_nat_le: "n < 10 ^ Suc k \<Longrightarrow> length (show_nat n) \<le> Suc k"
proof (induction k arbitrary: n)
  case 0
  then show ?case by (subst show_nat.simps) simp
next
  case (Suc k)
  show ?case
  proof (cases "n < 10")
    case True
    then show ?thesis by (subst show_nat.simps) simp
  next
    case False
    from Suc.prems have "n div 10 < 10 ^ Suc k" by (simp add: less_mult_imp_div_less)
    with Suc.IH False show ?thesis by (subst show_nat.simps) simp
  qed
qed

text \<open>
  \<open>from_str_radix(_, 10)\<close>: each digit first multiplies the accumulator (checked), then adds or
  subtracts the digit (checked); the kinds of \<open>IntErrorKind\<close> the code tells apart.
\<close>

datatype int_error = IntEmpty | IntInvalidDigit | IntOverflow

fun parse_digits :: "(int \<Rightarrow> bool) \<Rightarrow> int \<Rightarrow> int \<Rightarrow> string \<Rightarrow> (int_error, int) outcome" where
  "parse_digits ok sign acc [] = Ok acc"
| "parse_digits ok sign acc (c # cs) =
     (if \<not> is_ascii_digit c then Err IntInvalidDigit
      else if \<not> ok (acc * 10) \<or> \<not> ok (acc * 10 + sign * int (digit_value c)) then Err IntOverflow
      else parse_digits ok sign (acc * 10 + sign * int (digit_value c)) cs)"

definition parse_i64 :: "string \<Rightarrow> (int_error, i64) outcome" where
  "parse_i64 s = and_then
     (case s of
        [] \<Rightarrow> Err IntEmpty
      | c # cs \<Rightarrow>
          if cs = [] \<and> (c = CHR ''+'' \<or> c = CHR ''-'') then Err IntInvalidDigit
          else if c = CHR ''+'' then parse_digits i64_range 1 0 cs
          else if c = CHR ''-'' then parse_digits i64_range (-1) 0 cs
          else parse_digits i64_range 1 0 s)
     (\<lambda>n. Ok (word_of_int n))"

definition u64_range :: "int \<Rightarrow> bool" where
  "u64_range n \<longleftrightarrow> 0 \<le> n \<and> n < 2 ^ 64"

definition parse_u64 :: "string \<Rightarrow> (int_error, u64) outcome" where
  "parse_u64 s = and_then
     (case s of
        [] \<Rightarrow> Err IntEmpty
      | c # cs \<Rightarrow>
          if cs = [] \<and> (c = CHR ''+'' \<or> c = CHR ''-'') then Err IntInvalidDigit
          else if c = CHR ''+'' then parse_digits u64_range 1 0 cs
          else parse_digits u64_range 1 0 s)
     (\<lambda>n. Ok (word_of_int n))"

lemma parse_digits_not_Panic [simp]: "parse_digits ok sign acc s \<noteq> Panic"
  by (induction s arbitrary: acc) auto

lemma parse_i64_not_Panic [simp]: "parse_i64 s \<noteq> Panic"
  by (auto simp: parse_i64_def and_then_Panic_iff split: list.splits)

lemma foldl_digits_ge: "n \<le> foldl (\<lambda>n c. 10 * n + digit_value c) n s"
proof (induction s arbitrary: n)
  case (Cons c s)
  have "n \<le> 10 * n + digit_value c" by simp
  also note Cons.IH
  finally show ?case by simp
qed simp

text \<open>Digits whose value is in range parse to that value: no step overflows.\<close>

lemma parse_digits_pos:
  assumes "\<forall>c\<in>set s. is_ascii_digit c" and "\<And>m. 0 \<le> m \<Longrightarrow> m \<le> int (foldl (\<lambda>n c. 10 * n + digit_value c) n s) \<Longrightarrow> ok m"
  shows "parse_digits ok 1 (int n) s = Ok (int (foldl (\<lambda>n c. 10 * n + digit_value c) n s))"
  using assms
proof (induction s arbitrary: n)
  case (Cons c s)
  let ?n = "10 * n + digit_value c"
  have "?n \<le> foldl (\<lambda>n c. 10 * n + digit_value c) ?n s" by (rule foldl_digits_ge)
  then have step: "ok (int n * 10)" "ok (int n * 10 + int (digit_value c))"
    using Cons.prems(2) by (auto intro!: Cons.prems(2))
  have eq: "int n * 10 + int (digit_value c) = int ?n" by simp
  have "parse_digits ok 1 (int ?n) s = Ok (int (foldl (\<lambda>n c. 10 * n + digit_value c) ?n s))"
    by (rule Cons.IH) (use Cons.prems in auto)
  then show ?case using Cons.prems(1) step by (simp add: eq)
qed simp

lemma parse_u64_show_nat: "n < 2 ^ 64 \<Longrightarrow> parse_u64 (show_nat n) = Ok (word_of_nat n)"
proof -
  assume n: "n < 2 ^ 64"
  obtain c cs where s: "show_nat n = c # cs" by (cases "show_nat n") auto
  have c: "is_ascii_digit c" using show_nat_digits [of n] by (simp add: s)
  then have "c \<noteq> CHR ''+''" "c \<noteq> CHR ''-''" by (auto simp: is_ascii_digit_def)
  moreover have "parse_digits u64_range 1 (int 0) (show_nat n) = Ok (int (digits_value (show_nat n)))"
    unfolding digits_value_def
  proof (rule parse_digits_pos [OF show_nat_digits])
    fix m :: int
    assume "0 \<le> m" "m \<le> int (foldl (\<lambda>n c. 10 * n + digit_value c) 0 (show_nat n))"
    then have "m \<le> int n" by (simp flip: digits_value_def)
    with n \<open>0 \<le> m\<close> show "u64_range m" by (simp add: u64_range_def)
  qed
  ultimately have "parse_digits u64_range 1 0 (c # cs) = Ok (int n)"
    by (simp flip: s)
  with \<open>c \<noteq> CHR ''+''\<close> \<open>c \<noteq> CHR ''-''\<close> show ?thesis
    by (simp only: parse_u64_def s list.case) simp
qed

text \<open>\<open>String::from_utf8\<close>: no overlong forms, no surrogates, nothing above U+10FFFF.\<close>

fun utf8_valid :: "string \<Rightarrow> bool" where
  "utf8_valid [] = True"
| "utf8_valid (c # cs) =
     (let n = of_char c :: nat; cont = (\<lambda>lo hi d. lo \<le> (of_char d :: nat) \<and> of_char d \<le> (hi :: nat)) in
      if n < 128 then utf8_valid cs
      else if 194 \<le> n \<and> n \<le> 223 then (case cs of a # r \<Rightarrow> cont 128 191 a \<and> utf8_valid r | _ \<Rightarrow> False)
      else if 224 \<le> n \<and> n \<le> 239 then
        (case cs of a # b # r \<Rightarrow>
           cont (if n = 224 then 160 else 128) (if n = 237 then 159 else 191) a \<and> cont 128 191 b \<and> utf8_valid r
         | _ \<Rightarrow> False)
      else if 240 \<le> n \<and> n \<le> 244 then
        (case cs of a # b # d # r \<Rightarrow>
           cont (if n = 240 then 144 else 128) (if n = 244 then 143 else 191) a \<and> cont 128 191 b \<and> cont 128 191 d
             \<and> utf8_valid r
         | _ \<Rightarrow> False)
      else False)"

subsection \<open>Splitting\<close>

text \<open>\<open>str::split\<close> on a character.\<close>

fun split_on :: "char \<Rightarrow> string \<Rightarrow> string list" where
  "split_on sep [] = [[]]"
| "split_on sep (c # cs) =
     (if c = sep then [] # split_on sep cs
      else case split_on sep cs of [] \<Rightarrow> [[c]] | p # ps \<Rightarrow> (c # p) # ps)"

text \<open>
  \<open>str::lines\<close>: a line ends at a line feed, with the carriage return before it if there is one; text
  after the last line feed is a line of its own unless it is empty, and keeps its carriage return.
\<close>

definition strip_cr :: "string \<Rightarrow> string" where
  "strip_cr line = (if line \<noteq> [] \<and> last line = CHR 0x0D then butlast line else line)"

definition str_lines :: "string \<Rightarrow> string list" where
  "str_lines s = (let pieces = split_on (CHR 0x0A) s in
     map strip_cr (butlast pieces) @ (if last pieces = [] then [] else [last pieces]))"

lemma split_on_nonempty [simp]: "split_on sep s \<noteq> []"
  by (induction s) (auto split: list.split)

lemma length_split_on: "length (split_on sep s) = Suc (count_list s sep)"
proof (induction s)
  case (Cons c s)
  then show ?case by (cases "split_on sep s") auto
qed simp

subsection \<open>Fresh suffixes\<close>

text \<open>
  \<open>let mut n = 1; while taken(n) { n += 1; }\<close>. The fuel bounds the iterations; a number that is not
  taken is found as soon as it exceeds how many are (\<open>next_free_fresh\<close>).
\<close>

fun next_free :: "nat \<Rightarrow> (nat \<Rightarrow> bool) \<Rightarrow> nat \<Rightarrow> nat" where
  "next_free 0 taken n = n"
| "next_free (Suc fuel) taken n = (if taken n then next_free fuel taken (Suc n) else n)"

lemma next_free_between: "n \<le> next_free fuel taken n \<and> next_free fuel taken n \<le> n + fuel"
proof (induction fuel arbitrary: n)
  case (Suc fuel)
  from Suc [of "Suc n"] show ?case by simp
qed simp

lemma next_free_passes: "n \<le> k \<Longrightarrow> k < next_free fuel taken n \<Longrightarrow> taken k"
proof (induction fuel arbitrary: n)
  case (Suc fuel)
  from Suc.IH [of "Suc n"] Suc.prems show ?case by (cases "k = n") (auto split: if_splits)
qed simp

lemma next_free_stops: "taken (next_free fuel taken n) \<Longrightarrow> next_free fuel taken n = n + fuel"
proof (induction fuel arbitrary: n)
  case (Suc fuel)
  from Suc.IH [of "Suc n"] Suc.prems show ?case by (auto split: if_splits)
qed simp

lemma next_free_fresh:
  assumes "finite {k. taken k}" and "card {k. taken k} \<le> fuel"
  shows "\<not> taken (next_free fuel taken n)"
proof
  assume taken: "taken (next_free fuel taken n)"
  have "{n..n + fuel} \<subseteq> {k. taken k}"
    using taken next_free_stops [of taken fuel n] next_free_passes [of n _ fuel taken]
    by (auto simp: le_less)
  from card_mono [OF assms(1) this] assms(2) show False by simp
qed

text \<open>Names that are a fixed prefix and a number: as many are taken as there are names.\<close>

lemma show_nat_inject [simp]: "show_nat m = show_nat n \<longleftrightarrow> m = n"
  by (metis digits_value_show_nat)

lemma next_free_name:
  fixes names :: "string list"
  assumes "length names \<le> fuel"
  shows "p @ show_nat (next_free fuel (\<lambda>k. p @ show_nat k \<in> set names) n) \<notin> set names"
proof -
  have eq: "{k. p @ show_nat k \<in> set names} = (\<lambda>k. p @ show_nat k) -` set names" by auto
  have inj: "inj (\<lambda>k. p @ show_nat k)" by (rule injI) simp
  have "finite {k. p @ show_nat k \<in> set names}"
    unfolding eq by (rule finite_vimageI [OF _ inj]) simp
  moreover have "card {k. p @ show_nat k \<in> set names} \<le> fuel"
    unfolding eq using card_vimage_inj_on_le [of "\<lambda>k. p @ show_nat k" UNIV "set names"] inj
      card_length [of names] assms by simp
  ultimately show ?thesis by (rule next_free_fresh)
qed

lemma show_nat_safe_name: "n < 10 ^ Suc k \<Longrightarrow> length (p @ show_nat n) \<le> length p + Suc k"
  using length_show_nat_le [of n k] by simp

end
