(* ===== verification/Ordered_Maps.thy ===== *)
theory Ordered_Maps
  imports Rust_Std
begin

text \<open>
  \<open>BTreeMap\<close> and \<open>BTreeSet\<close>: finite maps whose entries are listed in ascending key order. The type
  is the strictly sorted association lists, so equal maps are equal values and iteration order is
  part of the model. As in Rust's standard library, a set is a map to the unit type. The interface
  the components rely on is the locale \<open>ordered_map\<close>, interpreted at the end on this type.
\<close>

section \<open>Sorted association lists\<close>

fun ins_list :: "'k::linorder \<Rightarrow> 'v \<Rightarrow> ('k \<times> 'v) list \<Rightarrow> ('k \<times> 'v) list" where
  "ins_list k v [] = [(k, v)]"
| "ins_list k v ((a, b) # xs) =
     (if k < a then (k, v) # (a, b) # xs
      else if k = a then (k, v) # xs
      else (a, b) # ins_list k v xs)"

lemma fst_set_ins_list: "fst ` set (ins_list k v xs) = insert k (fst ` set xs)"
  by (induction k v xs rule: ins_list.induct) auto

lemma sorted_ins_list:
  "sorted_wrt (<) (map fst xs) \<Longrightarrow> sorted_wrt (<) (map fst (ins_list k v xs))"
proof (induction k v xs rule: ins_list.induct)
  case (2 k v a b xs)
  then have "\<forall>y\<in>set (map fst (ins_list k v xs)). y = k \<or> y \<in> fst ` set xs"
    using fst_set_ins_list [of k v xs] by auto
  with 2 show ?case by fastforce
qed simp

lemma map_of_ins_list:
  "sorted_wrt (<) (map fst xs) \<Longrightarrow> map_of (ins_list k v xs) = (map_of xs)(k \<mapsto> v)"
proof (induction k v xs rule: ins_list.induct)
  case (2 k v a b xs)
  then show ?case by (auto simp: fun_eq_iff)
qed simp

lemma sorted_map_filter:
  "sorted_wrt (<) (map fst xs) \<Longrightarrow> sorted_wrt (<) (map fst (filter P xs))"
  by (induction xs) auto

lemma map_of_remove_list: "map_of (filter (\<lambda>(k', _). k' \<noteq> k) xs) = (map_of xs)(k := None)"
  by (induction xs) (auto simp: fun_eq_iff)

lemma strict_sorted_distinct: "sorted_wrt (<) (xs :: 'k::linorder list) \<Longrightarrow> distinct xs"
  by (induction xs) auto

text \<open>A strictly sorted association list is determined by its lookups.\<close>

lemma sorted_entries_unique:
  fixes xs ys :: "('k::linorder \<times> 'v) list"
  assumes "sorted_wrt (<) (map fst xs)" and "sorted_wrt (<) (map fst ys)" and eq: "map_of xs = map_of ys"
  shows "xs = ys"
proof -
  have "fst ` set xs = fst ` set ys" using eq by (metis dom_map_of_conv_image_fst)
  then have keys: "map fst xs = map fst ys"
    using assms(1,2) by (intro strict_sorted_equal) auto
  have xs: "xs = map (\<lambda>k. (k, the (map_of xs k))) (map fst xs)"
    if "sorted_wrt (<) (map fst xs)" for xs :: "('k \<times> 'v) list"
    using strict_sorted_distinct [OF that]
    by (auto simp: comp_def intro!: map_idI [symmetric])
  show ?thesis
    by (subst xs [OF assms(1)], subst xs [OF assms(2)]) (simp only: keys eq)
qed

section \<open>The type\<close>

typedef (overloaded) ('v, 'k::linorder) btree =
  "{xs :: ('k \<times> 'v) list. sorted_wrt (<) (map fst xs)}"
  morphisms entries Abs_btree
  by (rule exI [of _ "[]"]) simp

setup_lifting type_definition_btree

type_synonym ('k, 'v) btree_map = "('v, 'k) btree"

lift_definition bt_empty :: "('k::linorder, 'v) btree_map" is "[]" by simp

lift_definition bt_insert :: "'k::linorder \<Rightarrow> 'v \<Rightarrow> ('k, 'v) btree_map \<Rightarrow> ('k, 'v) btree_map"
  is ins_list by (rule sorted_ins_list)

lift_definition bt_remove :: "'k::linorder \<Rightarrow> ('k, 'v) btree_map \<Rightarrow> ('k, 'v) btree_map"
  is "\<lambda>k xs. filter (\<lambda>(k', _). k' \<noteq> k) xs" by (rule sorted_map_filter)

lift_definition bt_filter ::
  "('k::linorder \<Rightarrow> 'v \<Rightarrow> bool) \<Rightarrow> ('k, 'v) btree_map \<Rightarrow> ('k, 'v) btree_map"
  is "\<lambda>P xs. filter (\<lambda>(k, v). P k v) xs" by (rule sorted_map_filter)

definition bt_get :: "('k::linorder, 'v) btree_map \<Rightarrow> 'k \<Rightarrow> 'v option" where
  "bt_get m k = map_of (entries m) k"

definition bt_contains_key :: "('k::linorder, 'v) btree_map \<Rightarrow> 'k \<Rightarrow> bool" where
  "bt_contains_key m k \<longleftrightarrow> bt_get m k \<noteq> None"

definition bt_keys :: "('k::linorder, 'v) btree_map \<Rightarrow> 'k list" where
  "bt_keys m = map fst (entries m)"

definition bt_values :: "('k::linorder, 'v) btree_map \<Rightarrow> 'v list" where
  "bt_values m = map snd (entries m)"

definition bt_len :: "('k::linorder, 'v) btree_map \<Rightarrow> nat" where
  "bt_len m = length (entries m)"

definition bt_extend_list :: "('k::linorder, 'v) btree_map \<Rightarrow> ('k \<times> 'v) list \<Rightarrow> ('k, 'v) btree_map" where
  "bt_extend_list m xs = fold (\<lambda>(k, v). bt_insert k v) xs m"

definition bt_extend :: "('k::linorder, 'v) btree_map \<Rightarrow> ('k, 'v) btree_map \<Rightarrow> ('k, 'v) btree_map" where
  "bt_extend m n = bt_extend_list m (entries n)"

definition bt_of_list :: "('k::linorder \<times> 'v) list \<Rightarrow> ('k, 'v) btree_map" where
  "bt_of_list xs = bt_extend_list bt_empty xs"

instantiation btree :: (equal, "{linorder, equal}") equal
begin

definition equal_btree :: "('a, 'b) btree \<Rightarrow> ('a, 'b) btree \<Rightarrow> bool" where
  "equal_btree m n \<longleftrightarrow> entries m = entries n"

instance by standard (simp add: equal_btree_def entries_inject)

end

lemma entries_empty [simp]: "entries bt_empty = []" by (rule bt_empty.rep_eq)
lemma entries_insert [simp]: "entries (bt_insert k v m) = ins_list k v (entries m)"
  by (rule bt_insert.rep_eq)
lemma entries_remove [simp]: "entries (bt_remove k m) = filter (\<lambda>(k', _). k' \<noteq> k) (entries m)"
  by (rule bt_remove.rep_eq)
lemma entries_filter [simp]: "entries (bt_filter P m) = filter (\<lambda>(k, v). P k v) (entries m)"
  by (rule bt_filter.rep_eq)
lemma entries_sorted [simp]: "sorted_wrt (<) (map fst (entries m))"
  using entries [of m] by simp
lemma entries_distinct [simp]: "distinct (map fst (entries m))"
  by (rule strict_sorted_distinct) simp

lemma bt_get_empty [simp]: "bt_get bt_empty k = None"
  by (simp add: bt_get_def)

lemma bt_get_insert [simp]: "bt_get (bt_insert k v m) k' = (if k' = k then Some v else bt_get m k')"
  by (simp add: bt_get_def map_of_ins_list)

lemma bt_get_remove [simp]: "bt_get (bt_remove k m) k' = (if k' = k then None else bt_get m k')"
  by (simp add: bt_get_def map_of_remove_list)

lemma bt_get_iff: "bt_get m k = Some v \<longleftrightarrow> (k, v) \<in> set (entries m)"
  by (simp add: bt_get_def)

lemma bt_get_filter [simp]:
  "bt_get (bt_filter P m) k = (case bt_get m k of None \<Rightarrow> None | Some v \<Rightarrow> if P k v then Some v else None)"
proof (cases "bt_get m k")
  case None
  then have "k \<notin> fst ` set (entries (bt_filter P m))"
    by (auto simp: bt_get_def map_of_eq_None_iff)
  then have "bt_get (bt_filter P m) k = None"
    by (simp only: bt_get_def map_of_eq_None_iff not_False_eq_True)
  with None show ?thesis by simp
next
  case (Some v)
  then have mem: "(k, w) \<in> set (entries m) \<longleftrightarrow> w = v" for w
    by (auto simp flip: bt_get_iff)
  have "bt_get (bt_filter P m) k = Some w \<longleftrightarrow> w = v \<and> P k v" for w
    unfolding bt_get_iff by (auto simp: mem)
  then have "bt_get (bt_filter P m) k = (if P k v then Some v else None)"
    by (metis not_None_eq)
  with Some show ?thesis by simp
qed

lemma bt_eqI: "(\<And>k. bt_get m k = bt_get n k) \<Longrightarrow> m = n"
  using sorted_entries_unique [of "entries m" "entries n"]
  by (auto simp: bt_get_def fun_eq_iff entries_inject)

lemma bt_eq_iff: "m = n \<longleftrightarrow> entries m = entries n"
  by (simp add: entries_inject)

lemma bt_contains_key_iff: "bt_contains_key m k \<longleftrightarrow> k \<in> set (bt_keys m)"
  by (auto simp: bt_contains_key_def bt_keys_def bt_get_def map_of_eq_None_iff)

lemma bt_keys_insert [simp]: "set (bt_keys (bt_insert k v m)) = insert k (set (bt_keys m))"
  by (auto simp: bt_keys_def fst_set_ins_list simp flip: set_map)
    (metis fst_set_ins_list imageI insert_iff list.set_map set_map)+

lemma bt_keys_empty [simp]: "bt_keys bt_empty = []"
  by (simp add: bt_keys_def)

lemma bt_keys_distinct [simp]: "distinct (bt_keys m)"
  by (simp add: bt_keys_def)

lemma bt_keys_sorted [simp]: "sorted_wrt (<) (bt_keys m)"
  by (simp add: bt_keys_def)

lemma bt_get_None_iff: "bt_get m k = None \<longleftrightarrow> k \<notin> set (bt_keys m)"
  by (auto simp: bt_get_def bt_keys_def map_of_eq_None_iff)

lemma map_of_rev_distinct: "distinct (map fst xs) \<Longrightarrow> map_of (rev xs) = map_of xs"
  by (rule map_of_inject_set [THEN iffD2]) (auto simp flip: rev_map)

lemma bt_get_extend_list:
  "bt_get (bt_extend_list m xs) k = (case map_of (rev xs) k of None \<Rightarrow> bt_get m k | Some v \<Rightarrow> Some v)"
  unfolding bt_extend_list_def
  by (induction xs arbitrary: m) (auto simp: map_add_def split: option.splits)

lemma bt_get_extend [simp]:
  "bt_get (bt_extend m n) k = (case bt_get n k of None \<Rightarrow> bt_get m k | Some v \<Rightarrow> Some v)"
proof -
  have "map_of (rev (entries n)) = map_of (entries n)"
    by (rule map_of_rev_distinct) simp
  then show ?thesis by (simp add: bt_extend_def bt_get_extend_list) (simp add: bt_get_def)
qed

lemma bt_get_of_list: "bt_get (bt_of_list xs) k = map_of (rev xs) k"
  by (simp add: bt_of_list_def bt_get_extend_list split: option.splits)

lemma bt_get_of_list_distinct:
  "distinct (map fst xs) \<Longrightarrow> bt_get (bt_of_list xs) k = map_of xs k"
  by (simp add: bt_get_of_list map_of_rev_distinct)

lemma bt_of_list_entries [simp]: "bt_of_list (entries m) = m"
  by (rule bt_eqI) (simp only: bt_get_of_list_distinct [OF entries_distinct], simp add: bt_get_def)

lemma bt_insert_idem [simp]: "bt_get m k = Some v \<Longrightarrow> bt_insert k v m = m"
  by (rule bt_eqI) simp

section \<open>The map interface and its clients' lemmas\<close>

text \<open>What the components use of an ordered map, as laws over its lookups.\<close>

locale ordered_map =
  fixes empty :: "'m"
    and get :: "'m \<Rightarrow> 'k::linorder \<Rightarrow> 'v option"
    and ins :: "'k \<Rightarrow> 'v \<Rightarrow> 'm \<Rightarrow> 'm"
    and del :: "'k \<Rightarrow> 'm \<Rightarrow> 'm"
    and ent :: "'m \<Rightarrow> ('k \<times> 'v) list"
  assumes get_empty: "get empty k = None"
    and get_ins: "get (ins k v m) k' = (if k' = k then Some v else get m k')"
    and get_del: "get (del k m) k' = (if k' = k then None else get m k')"
    and get_ent: "get m k = map_of (ent m) k"
    and sorted_ent: "sorted_wrt (<) (map fst (ent m))"
    and ent_inject: "ent m = ent n \<Longrightarrow> m = n"
begin

lemma ext: "(\<And>k. get m k = get n k) \<Longrightarrow> m = n"
  by (rule ent_inject, rule sorted_entries_unique) (auto simp: sorted_ent get_ent [symmetric] fun_eq_iff)

lemma ins_commute: "k \<noteq> k' \<Longrightarrow> ins k v (ins k' v' m) = ins k' v' (ins k v m)"
  by (rule ext) (simp add: get_ins)

lemma ins_ins: "ins k v (ins k v' m) = ins k v m"
  by (rule ext) (simp add: get_ins)

lemma del_ins: "del k (ins k v m) = del k m"
  by (rule ext) (simp add: get_ins get_del)

lemma ins_del: "ins k v (del k m) = ins k v m"
  by (rule ext) (simp add: get_ins get_del)

lemma get_Some_mem: "get m k = Some v \<longleftrightarrow> (k, v) \<in> set (ent m)"
  by (simp add: get_ent strict_sorted_distinct sorted_ent)

text \<open>A loop that stores one value per key, computed from the key.\<close>

lemma get_fold_ins:
  "get (fold (\<lambda>k. ins k (f k)) ks m) k' = (if k' \<in> set ks then Some (f k') else get m k')"
  by (induction ks arbitrary: m) (auto simp: get_ins)

end

interpretation btree: ordered_map bt_empty bt_get bt_insert bt_remove entries
  by unfold_locales (auto simp: bt_get_def map_of_ins_list map_of_remove_list entries_inject)

section \<open>Ordered sets\<close>

type_synonym 'k btree_set = "('k, unit) btree_map"

definition bs_of_list :: "'k::linorder list \<Rightarrow> 'k btree_set" where
  "bs_of_list ks = fold (\<lambda>k. bt_insert k ()) ks bt_empty"

definition bs_contains :: "'k::linorder btree_set \<Rightarrow> 'k \<Rightarrow> bool" where
  "bs_contains s k \<longleftrightarrow> bt_contains_key s k"

definition bs_list :: "'k::linorder btree_set \<Rightarrow> 'k list" where
  "bs_list s = bt_keys s"

definition bs_subset :: "'k::linorder btree_set \<Rightarrow> 'k btree_set \<Rightarrow> bool" where
  "bs_subset s t \<longleftrightarrow> list_all (bs_contains t) (bs_list s)"

lemma bs_contains_iff: "bs_contains s k \<longleftrightarrow> k \<in> set (bs_list s)"
  by (simp add: bs_contains_def bs_list_def bt_contains_key_iff)

lemma bs_subset_iff: "bs_subset s t \<longleftrightarrow> set (bs_list s) \<subseteq> set (bs_list t)"
  by (auto simp: bs_subset_def list_all_iff bs_contains_iff)

lemma set_bs_of_list [simp]: "set (bs_list (bs_of_list ks)) = set ks"
proof -
  have "set (bt_keys (fold (\<lambda>k. bt_insert k ()) ks m)) = set (bt_keys m) \<union> set ks" for m
    by (induction ks arbitrary: m) auto
  then show ?thesis by (simp add: bs_list_def bs_of_list_def)
qed

lemma bs_list_distinct [simp]: "distinct (bs_list s)"
  by (simp add: bs_list_def)

end
