(* ===== verification/Identity.thy ===== *)
theory Identity
  imports Ordered_Maps
begin

text \<open>
  Identities (\<open>crates/evobase-appspec/src/id.rs\<close>), the kernel's error values
  (\<open>src/error.rs\<close>), and the actor and role identities of \<open>src/policy.rs\<close>. The macro \<open>identity!\<close>
  makes one newtype per kind of identity; here they are one type with a phantom parameter, so an
  identity of one kind is no identity of another.
\<close>

datatype 'k ident = Ident (as_str: string)

datatype app_tag = AppTag
datatype table_tag = TableTag
datatype field_tag = FieldTag
datatype record_tag = RecordTag
datatype constraint_tag = ConstraintTag
datatype command_tag = CommandTag
datatype machine_tag = MachineTag
datatype event_tag = EventTag
datatype actor_tag = ActorTag
datatype role_tag = RoleTag

type_synonym app_id = "app_tag ident"
type_synonym table_id = "table_tag ident"
type_synonym field_id = "field_tag ident"
type_synonym record_id = "record_tag ident"
type_synonym constraint_id = "constraint_tag ident"
type_synonym command_id = "command_tag ident"
type_synonym state_machine_id = "machine_tag ident"
type_synonym event_id = "event_tag ident"
type_synonym actor_id = "actor_tag ident"
type_synonym role_id = "role_tag ident"

text \<open>\<open>derive(PartialOrd, Ord)\<close> of a newtype over a string.\<close>

instantiation ident :: (type) linorder
begin

definition less_eq_ident :: "'a ident \<Rightarrow> 'a ident \<Rightarrow> bool" where
  "less_eq_ident a b \<longleftrightarrow> as_str a \<le> as_str b"

definition less_ident :: "'a ident \<Rightarrow> 'a ident \<Rightarrow> bool" where
  "less_ident a b \<longleftrightarrow> as_str a < as_str b"

instance
  by standard (auto simp: less_eq_ident_def less_ident_def ident.expand)

end

lemma less_ident_code [simp, code]: "Ident a < Ident b \<longleftrightarrow> a < b"
  by (simp add: less_ident_def)

lemma less_eq_ident_code [simp, code]: "Ident a \<le> Ident b \<longleftrightarrow> a \<le> b"
  by (simp add: less_eq_ident_def)

section \<open>Errors of the kernel\<close>

datatype error =
    InvalidId string string
  | InvalidTenant
  | InvalidJson string
  | UnsupportedVersion u32 u32
  | UnsupportedDeclaration u32 string
  | LimitExceeded string nat
  | InvalidName string
  | DuplicateTable table_id
  | DuplicateField table_id field_id
  | UnknownTable table_id
  | UnknownField table_id field_id
  | InvalidCapture string
  | InvalidPolicy string
  | InvalidConstraint constraint_id string
  | ConstraintViolation record_id field_id constraint_id
  | InvalidStateMachine state_machine_id string
  | InvalidCommand command_id string
  | InvalidStateValue record_id field_id state_machine_id
  | WrongApp app_id app_id
  | CrossScope record_id
  | DuplicateRecord table_id record_id
  | Required record_id field_id
  | WrongType record_id field_id string
  | WrongReferenceTable record_id table_id table_id
  | MissingReference table_id record_id
  | AmbiguousReference table_id string
  | InvalidCell string string
  | Overflow string

section \<open>Constructing identities\<close>

text \<open>The bytes an identity, a tenant or a request key may hold.\<close>

definition id_byte :: "char \<Rightarrow> bool" where
  "id_byte c \<longleftrightarrow> is_ascii_alphanumeric c \<or> c = CHR ''_'' \<or> c = CHR ''-''"

definition ident_new :: "string \<Rightarrow> string \<Rightarrow> string \<Rightarrow> (error, 'k ident) outcome" where
  "ident_new prefix kind value =
     (if length value > 80 \<or> \<not> starts_with value prefix \<or> length value = length prefix
         \<or> \<not> list_all id_byte value
      then Err (InvalidId kind value)
      else Ok (Ident value))"

definition app_id_new :: "string \<Rightarrow> (error, app_id) outcome" where
  "app_id_new = ident_new ''app_'' ''app''"

definition table_id_new :: "string \<Rightarrow> (error, table_id) outcome" where
  "table_id_new = ident_new ''tbl_'' ''table''"

definition field_id_new :: "string \<Rightarrow> (error, field_id) outcome" where
  "field_id_new = ident_new ''fld_'' ''field''"

definition record_id_new :: "string \<Rightarrow> (error, record_id) outcome" where
  "record_id_new = ident_new ''rec_'' ''record''"

definition constraint_id_new :: "string \<Rightarrow> (error, constraint_id) outcome" where
  "constraint_id_new = ident_new ''constraint_'' ''constraint''"

definition command_id_new :: "string \<Rightarrow> (error, command_id) outcome" where
  "command_id_new = ident_new ''cmd_'' ''command''"

definition state_machine_id_new :: "string \<Rightarrow> (error, state_machine_id) outcome" where
  "state_machine_id_new = ident_new ''machine_'' ''state machine''"

definition event_id_new :: "string \<Rightarrow> (error, event_id) outcome" where
  "event_id_new = ident_new ''event_'' ''event''"

lemma ident_new_Ok_iff [outcome_simps]:
  "ident_new p k v = Ok i \<longleftrightarrow>
     i = Ident v \<and> length v \<le> 80 \<and> starts_with v p \<and> length v \<noteq> length p \<and> list_all id_byte v"
  by (auto simp: ident_new_def)

lemma ident_new_not_Panic [simp]: "ident_new p k v \<noteq> Panic"
  by (simp add: ident_new_def)

section \<open>Scopes\<close>

text \<open>A tenant and an application; the derived order compares the tenant first.\<close>

datatype scope = Scope (tenant_id: string) (app_id: app_id)

instantiation scope :: linorder
begin

definition less_eq_scope :: "scope \<Rightarrow> scope \<Rightarrow> bool" where
  "less_eq_scope a b \<longleftrightarrow> (tenant_id a, app_id a) \<le> (tenant_id b, app_id b)"

definition less_scope :: "scope \<Rightarrow> scope \<Rightarrow> bool" where
  "less_scope a b \<longleftrightarrow> (tenant_id a, app_id a) < (tenant_id b, app_id b)"

instance
proof
  fix a b c :: scope
  show "a < b \<longleftrightarrow> a \<le> b \<and> \<not> b \<le> a" by (simp only: less_eq_scope_def less_scope_def less_le_not_le)
  show "a \<le> a" by (simp only: less_eq_scope_def order_refl)
  show "a \<le> c" if "a \<le> b" "b \<le> c" using that unfolding less_eq_scope_def by (rule order_trans)
  show "a \<le> b \<or> b \<le> a" by (simp only: less_eq_scope_def linear)
  show "a = b" if "a \<le> b" "b \<le> a"
  proof -
    from that have "(tenant_id a, app_id a) = (tenant_id b, app_id b)"
      unfolding less_eq_scope_def by (rule order_antisym)
    then show ?thesis by (auto intro: scope.expand)
  qed
qed

end

definition scope_new :: "string \<Rightarrow> app_id \<Rightarrow> (error, scope) outcome" where
  "scope_new tenant app =
     (if tenant = [] \<or> length tenant > 80 \<or> \<not> list_all id_byte tenant then Err InvalidTenant
      else Ok (Scope tenant app))"

lemma scope_new_Ok_iff [outcome_simps]:
  "scope_new t a = Ok s \<longleftrightarrow> s = Scope t a \<and> t \<noteq> [] \<and> length t \<le> 80 \<and> list_all id_byte t"
  by (auto simp: scope_new_def)

section \<open>Actors and roles\<close>

datatype authority_error =
    MissingSession
  | Unverified
  | Expired
  | Revoked
  | InvalidIdentity
  | WrongScope
  | MissingGrant
  | OriginDenied
  | BindingUnavailable

definition bounded_id :: "string \<Rightarrow> string \<Rightarrow> (authority_error, string) outcome" where
  "bounded_id value prefix =
     (if length value > 96 \<or> length value \<le> length prefix \<or> \<not> starts_with value prefix
         \<or> \<not> list_all (\<lambda>b. is_ascii_alphanumeric b \<or> b = CHR ''_'') value
      then Err InvalidIdentity
      else Ok value)"

definition actor_id_new :: "string \<Rightarrow> (authority_error, actor_id) outcome" where
  "actor_id_new value = and_then (bounded_id value ''actor_'') (\<lambda>v. Ok (Ident v))"

definition role_id_new :: "string \<Rightarrow> (authority_error, role_id) outcome" where
  "role_id_new value = and_then (bounded_id value ''role_'') (\<lambda>v. Ok (Ident v))"

lemma bounded_id_not_Panic [simp]: "bounded_id v p \<noteq> Panic"
  by (simp add: bounded_id_def)

lemma bounded_id_Ok_iff [outcome_simps]:
  "bounded_id v p = Ok w \<longleftrightarrow>
     w = v \<and> length v \<le> 96 \<and> length p < length v \<and> starts_with v p
       \<and> list_all (\<lambda>b. is_ascii_alphanumeric b \<or> b = CHR ''_'') v"
  by (auto simp: bounded_id_def)

lemma actor_id_new_Ok_iff [outcome_simps]:
  "actor_id_new v = Ok a \<longleftrightarrow> a = Ident v \<and> is_ok (bounded_id v ''actor_'')"
  by (auto simp: actor_id_new_def and_then_Ok_iff bounded_id_Ok_iff is_ok_iff)

text \<open>
  The grammar of one kind of identity never accepts another kind: the prefixes are pairwise
  incomparable.
\<close>

lemma ident_kinds_disjoint:
  assumes "is_ok (ident_new p k v)" and "is_ok (ident_new q l v)"
    and "length p \<le> length q"
  shows "p = take (length p) q"
proof -
  from assms(1,2) have "take (length p) v = p" "take (length q) v = q"
    by (auto simp: is_ok_iff ident_new_Ok_iff starts_with_def)
  with assms(3) show ?thesis by (metis min.absorb1 take_take)
qed

end
