(* ===== verification/Spec_Types.thy ===== *)
theory Spec_Types
  imports Identity
begin

text \<open>
  The data of an AppSpec: values and records (\<open>src/value.rs\<close>), field constraints
  (\<open>src/constraints.rs\<close>), tables and fields (\<open>src/model.rs\<close>), policies and submit rules
  (\<open>src/policy.rs\<close>) and commands (\<open>src/commands.rs\<close>). Rust's modules refer to one another in a
  cycle, so all declarations stand here, ahead of the operations.
\<close>

section \<open>Limits\<close>

definition FORMAT_VERSION :: u32 where "FORMAT_VERSION = 2"
definition MAX_BYTES :: nat where "MAX_BYTES = 1048576"
definition MAX_DEPTH :: nat where "MAX_DEPTH = 16"
definition MAX_NODES :: nat where "MAX_NODES = 20000"
definition MAX_TABLES :: nat where "MAX_TABLES = 64"
definition MAX_FIELDS_PER_TABLE :: nat where "MAX_FIELDS_PER_TABLE = 256"
definition MAX_FIELDS :: nat where "MAX_FIELDS = 2048"
definition MAX_RECORDS :: nat where "MAX_RECORDS = 4096"
definition MAX_NAME_BYTES :: nat where "MAX_NAME_BYTES = 256"
definition MAX_TEXT_BYTES :: nat where "MAX_TEXT_BYTES = 16384"
definition MAX_CONSTRAINTS :: nat where "MAX_CONSTRAINTS = 256"

lemmas limit_defs = FORMAT_VERSION_def MAX_BYTES_def MAX_DEPTH_def MAX_NODES_def MAX_TABLES_def
  MAX_FIELDS_PER_TABLE_def MAX_FIELDS_def MAX_RECORDS_def MAX_NAME_BYTES_def MAX_TEXT_BYTES_def
  MAX_CONSTRAINTS_def

section \<open>Values and records\<close>

record record_ref =
  ref_scope :: scope
  ref_table_id :: table_id
  ref_record_id :: record_id

datatype cell_value =
    Blank
  | Null
  | Text string
  | Integer i64
  | Bool bool
  | Money i64
  | Ref record_ref

type_synonym "value" = cell_value

record raw_record =
  rec_scope :: scope
  rec_id :: record_id
  rec_table_id :: table_id
  rec_values :: "(field_id, value) btree_map"

datatype checked_record = CheckedRecord (as_raw: raw_record)

record checked_records =
  crs_scope :: scope
  crs_records :: "checked_record list"

definition absent :: "value \<Rightarrow> bool" where
  "absent v \<longleftrightarrow> (case v of Blank \<Rightarrow> True | Null \<Rightarrow> True | _ \<Rightarrow> False)"

text \<open>Case splits on values, under a name of their own.\<close>

lemma cell_split:
  "P (case_cell_value f1 f2 f3 f4 f5 f6 f7 v) \<longleftrightarrow>
     (v = Blank \<longrightarrow> P f1) \<and> (v = Null \<longrightarrow> P f2) \<and> (\<forall>s. v = Text s \<longrightarrow> P (f3 s))
     \<and> (\<forall>i. v = Integer i \<longrightarrow> P (f4 i)) \<and> (\<forall>b. v = Bool b \<longrightarrow> P (f5 b))
     \<and> (\<forall>m. v = Money m \<longrightarrow> P (f6 m)) \<and> (\<forall>r. v = Ref r \<longrightarrow> P (f7 r))"
  by (cases v) simp_all

lemma cell_split_asm:
  "P (case_cell_value f1 f2 f3 f4 f5 f6 f7 v) \<longleftrightarrow>
     \<not> ((v = Blank \<and> \<not> P f1) \<or> (v = Null \<and> \<not> P f2) \<or> (\<exists>s. v = Text s \<and> \<not> P (f3 s))
     \<or> (\<exists>i. v = Integer i \<and> \<not> P (f4 i)) \<or> (\<exists>b. v = Bool b \<and> \<not> P (f5 b))
     \<or> (\<exists>m. v = Money m \<and> \<not> P (f6 m)) \<or> (\<exists>r. v = Ref r \<and> \<not> P (f7 r)))"
  by (cases v) simp_all

lemmas cell_splits = cell_split cell_split_asm

lemma absent_simps [simp]:
  "absent Blank" "absent Null" "\<not> absent (Text s)" "\<not> absent (Integer i)" "\<not> absent (Bool b)"
  "\<not> absent (Money i)" "\<not> absent (Ref r)"
  by (simp_all add: absent_def)

lemma absent_iff: "absent v \<longleftrightarrow> v = Blank \<or> v = Null"
  by (cases v) auto

section \<open>Tables and fields\<close>

datatype field_type = FText | FInteger | FBool | FMoney | FRef table_id

fun field_type_name :: "field_type \<Rightarrow> string" where
  "field_type_name FText = ''text''"
| "field_type_name FInteger = ''integer''"
| "field_type_name FBool = ''bool''"
| "field_type_name FMoney = ''money''"
| "field_type_name (FRef _) = ''ref''"

record raw_field =
  fld_id :: field_id
  fld_name :: string
  fld_required :: bool
  fld_type :: field_type

record raw_table =
  tbl_id :: table_id
  tbl_name :: string
  tbl_fields :: "raw_field list"

record capture_rule =
  cap_line_table :: table_id
  cap_product_ref_field :: field_id
  cap_product_price_field :: field_id
  cap_captured_price_field :: field_id

section \<open>Constraints, policies, commands\<close>

datatype cell_constraint =
    NonEmpty
  | TextLength nat nat
  | NumericRange i64 i64

type_synonym "constraint" = cell_constraint

record raw_field_constraint =
  fc_constraint_id :: constraint_id
  fc_table_id :: table_id
  fc_field_id :: field_id
  fc_constraint :: "constraint"

record raw_owner_role_policy =
  pol_rule_id :: string
  pol_revision :: u64
  pol_table_id :: table_id
  pol_owner_field :: field_id
  pol_read_fields :: "field_id btree_set"
  pol_read_roles :: "role_id btree_set"
  pol_write_roles :: "role_id btree_set"
  pol_submit_roles :: "role_id btree_set"

record raw_submit_order_rule =
  sub_rule_id :: string
  sub_revision :: u64
  sub_policy_rule_id :: string
  sub_order_table :: table_id
  sub_state_field :: field_id
  sub_notes_field :: field_id
  sub_line_table :: table_id
  sub_line_order_field :: field_id
  sub_quantity_field :: field_id
  sub_captured_price_field :: field_id

record raw_state_machine =
  sm_machine_id :: state_machine_id
  sm_table_id :: table_id
  sm_state_field :: field_id
  sm_states :: "string btree_set"
  sm_terminal_states :: "string btree_set"

record command_input =
  inp_field_id :: field_id
  inp_required :: bool
  inp_constraints :: "constraint list"

record command_guard =
  grd_field_id :: field_id
  grd_equals :: "value"

record raw_event_intent =
  evt_event_id :: event_id
  evt_fields :: "field_id btree_set"

record raw_command =
  cmd_command_id :: command_id
  cmd_revision :: u64
  cmd_policy_rule_id :: string
  cmd_state_machine_id :: state_machine_id
  cmd_from_state :: string
  cmd_to_state :: string
  cmd_inputs :: "command_input list"
  cmd_guards :: "command_guard list"
  cmd_events :: "raw_event_intent list"

record raw_command_request =
  req_command_id :: command_id
  req_record_id :: record_id
  req_idempotency_key :: string
  req_inputs :: "(field_id, value) btree_map"

section \<open>The definition\<close>

record raw_app_spec =
  app_version :: u32
  app_app_id :: app_id
  app_name :: string
  app_tables :: "raw_table list"
  app_capture_rules :: "capture_rule list"
  app_policies :: "raw_owner_role_policy list"
  app_submit_rules :: "raw_submit_order_rule list"
  app_constraints :: "raw_field_constraint list"
  app_state_machines :: "raw_state_machine list"
  app_commands :: "raw_command list"

text \<open>What a command's idempotency is decided on: the struct \<open>Intent\<close> inside \<open>prepare_command\<close>.\<close>

record command_intent =
  int_definition :: raw_app_spec
  int_command_id :: command_id
  int_record_id :: record_id
  int_inputs :: "(field_id, value) btree_map"

text \<open>Only \<open>compile\<close> and \<open>decode\<close> construct a checked definition; it wraps the sorted raw one.\<close>

datatype checked_app_spec = CheckedAppSpec (spec_def: raw_app_spec)

definition spec_app_id :: "checked_app_spec \<Rightarrow> app_id" where
  "spec_app_id spec = app_app_id (spec_def spec)"

definition spec_table :: "checked_app_spec \<Rightarrow> table_id \<Rightarrow> raw_table option" where
  "spec_table spec i = List.find (\<lambda>table. tbl_id table = i) (app_tables (spec_def spec))"

definition spec_field :: "checked_app_spec \<Rightarrow> table_id \<Rightarrow> field_id \<Rightarrow> raw_field option" where
  "spec_field spec table i =
     Option.bind (spec_table spec table) (\<lambda>t. List.find (\<lambda>field. fld_id field = i) (tbl_fields t))"

definition spec_field_type :: "checked_app_spec \<Rightarrow> table_id \<Rightarrow> field_id \<Rightarrow> field_type option" where
  "spec_field_type spec table i = map_option fld_type (spec_field spec table i)"

lemma spec_table_Some: "spec_table spec i = Some t \<Longrightarrow> t \<in> set (app_tables (spec_def spec)) \<and> tbl_id t = i"
  by (auto simp: spec_table_def dest: find_Some_mem)

lemma spec_field_Some:
  "spec_field spec t i = Some f \<Longrightarrow>
     \<exists>table. spec_table spec t = Some table \<and> f \<in> set (tbl_fields table) \<and> fld_id f = i"
  by (auto simp: spec_field_def bind_eq_Some_conv dest: find_Some_mem)

lemma spec_field_None_iff:
  "spec_table spec t = Some table \<Longrightarrow>
     spec_field spec t i = None \<longleftrightarrow> i \<notin> fld_id ` set (tbl_fields table)"
  by (auto simp: spec_field_def find_None_iff)

section \<open>Accessors of checked facts\<close>

definition cr_id :: "checked_record \<Rightarrow> record_id" where "cr_id r = rec_id (as_raw r)"
definition cr_table_id :: "checked_record \<Rightarrow> table_id" where "cr_table_id r = rec_table_id (as_raw r)"
definition cr_scope :: "checked_record \<Rightarrow> scope" where "cr_scope r = rec_scope (as_raw r)"
definition cr_values :: "checked_record \<Rightarrow> (field_id, value) btree_map" where
  "cr_values r = rec_values (as_raw r)"

lemmas cr_defs = cr_id_def cr_table_id_def cr_scope_def cr_values_def

definition find_record :: "checked_records \<Rightarrow> table_id \<Rightarrow> record_id \<Rightarrow> checked_record option" where
  "find_record facts table record =
     List.find (\<lambda>r. cr_table_id r = table \<and> cr_id r = record) (crs_records facts)"

definition to_raw :: "checked_records \<Rightarrow> raw_record list" where
  "to_raw facts = map as_raw (crs_records facts)"

lemma find_record_Some:
  "find_record facts t r = Some row \<Longrightarrow> row \<in> set (crs_records facts) \<and> cr_table_id row = t \<and> cr_id row = r"
  by (auto simp: find_record_def dest: find_Some_mem)

lemma as_raw_inject [simp]: "as_raw a = as_raw b \<longleftrightarrow> a = b"
  by (cases a, cases b) simp

end
