(* ===== verification/Codec.thy ===== *)
theory Codec
  imports Spec_Types
begin

text \<open>
  The bounded codec (\<open>crates/evobase-appspec/src/codec.rs\<close>). JSON text itself is produced and read
  by the package \<open>serde_json\<close>, which is not part of the repository: the record \<open>serde\<close> holds its
  writers (the successive buffers handed to \<open>io::Write\<close>) and readers, one per wire type the core
  uses, and every operation that encodes or decodes takes it as an argument. What the repository
  adds is modelled: the byte-limited buffer, the lexical preflight and the duplicate-key visitor.
\<close>

record serde =
  ser_spec :: "raw_app_spec \<Rightarrow> string list"
  de_spec :: "string \<Rightarrow> (string, raw_app_spec) outcome"
  ser_records :: "raw_record list \<Rightarrow> string list"
  de_records :: "string \<Rightarrow> (string, raw_record list) outcome"
  ser_request :: "raw_command_request \<Rightarrow> string list"
  de_request :: "string \<Rightarrow> (string, raw_command_request) outcome"
  ser_intent :: "command_intent \<Rightarrow> string list"

definition json_error :: "string \<Rightarrow> error" where
  "json_error message = InvalidJson message"

section \<open>Preflight\<close>

record scan =
  sc_depth :: nat
  sc_nodes :: nat
  sc_string :: bool
  sc_escape :: bool
  sc_atom :: bool

definition scan_init :: scan where
  "scan_init = \<lparr>sc_depth = 0, sc_nodes = 0, sc_string = False, sc_escape = False, sc_atom = False\<rparr>"

definition is_open :: "char \<Rightarrow> bool" where "is_open c \<longleftrightarrow> c = CHR ''{'' \<or> c = CHR ''[''"
definition is_close :: "char \<Rightarrow> bool" where "is_close c \<longleftrightarrow> c = CHR ''}'' \<or> c = CHR '']''"
definition is_separator :: "char \<Rightarrow> bool" where
  "is_separator c \<longleftrightarrow> c = CHR '':'' \<or> c = CHR '','' \<or> c = CHR '' '' \<or> c = CHR 0x0A \<or> c = CHR 0x0D
     \<or> c = CHR 0x09"

lemmas byte_class_defs = is_open_def is_close_def is_separator_def

text \<open>One iteration of the loop, without the final node check.\<close>

definition scan_byte :: "scan \<Rightarrow> char \<Rightarrow> (error, scan) outcome" where
  "scan_byte s c =
     (if c = CHR 0x22 then Ok (s\<lparr>sc_string := True, sc_atom := False, sc_nodes := sc_nodes s + 1\<rparr>)
      else if is_open c then
        (let s' = s\<lparr>sc_depth := sc_depth s + 1, sc_nodes := sc_nodes s + 1, sc_atom := False\<rparr>
         in if sc_depth s' > MAX_DEPTH then Err (LimitExceeded ''depth'' MAX_DEPTH) else Ok s')
      else if is_close c then Ok (s\<lparr>sc_depth := sc_depth s - 1, sc_atom := False\<rparr>)
      else if is_separator c then Ok (s\<lparr>sc_atom := False\<rparr>)
      else if \<not> sc_atom s then Ok (s\<lparr>sc_nodes := sc_nodes s + 1, sc_atom := True\<rparr>)
      else Ok s)"

definition scan_step :: "scan \<Rightarrow> char \<Rightarrow> (error, scan) outcome" where
  "scan_step s c =
     (if sc_string s then
        Ok (if sc_escape s then s\<lparr>sc_escape := False\<rparr>
            else if c = CHR 0x5C then s\<lparr>sc_escape := True\<rparr>
            else if c = CHR 0x22 then s\<lparr>sc_string := False\<rparr>
            else s)
      else and_then (scan_byte s c) (\<lambda>s'.
        if sc_nodes s' > MAX_NODES then Err (LimitExceeded ''nodes'' MAX_NODES) else Ok s'))"

definition preflight :: "string \<Rightarrow> (error, unit) outcome" where
  "preflight bytes =
     (if length bytes > MAX_BYTES then Err (LimitExceeded ''bytes'' MAX_BYTES)
      else and_then (fold_m scan_step scan_init bytes) (\<lambda>_. Ok ()))"

section \<open>The byte-limited buffer\<close>

definition buffer_write :: "string \<Rightarrow> string \<Rightarrow> (error, string) outcome" where
  "buffer_write buffer bytes =
     (if length buffer + length bytes > MAX_BYTES then Err (LimitExceeded ''bytes'' MAX_BYTES)
      else Ok (buffer @ bytes))"

definition bounded_encode :: "('a \<Rightarrow> string list) \<Rightarrow> 'a \<Rightarrow> (error, string) outcome" where
  "bounded_encode to_writer v =
     and_then (fold_m buffer_write [] (to_writer v)) (\<lambda>buffer.
     and_then (preflight buffer) (\<lambda>_. Ok buffer))"

definition bounded_decode :: "(string \<Rightarrow> (string, 'a) outcome) \<Rightarrow> string \<Rightarrow> (error, 'a) outcome" where
  "bounded_decode from_slice bytes =
     and_then (preflight bytes) (\<lambda>_. map_err json_error (from_slice bytes))"

definition checked_records_encode :: "serde \<Rightarrow> checked_records \<Rightarrow> (error, string) outcome" where
  "checked_records_encode J facts = bounded_encode (ser_records J) (to_raw facts)"

definition spec_encode :: "serde \<Rightarrow> checked_app_spec \<Rightarrow> (error, string) outcome" where
  "spec_encode J spec = bounded_encode (ser_spec J) (spec_def spec)"

definition request_decode :: "serde \<Rightarrow> string \<Rightarrow> (error, raw_command_request) outcome" where
  "request_decode J bytes = bounded_decode (de_request J) bytes"

section \<open>Objects without duplicate keys\<close>

text \<open>
  The visitor \<open>unique_values\<close>: the entries of a JSON object in document order, already parsed one
  by one, become a map; a repeated key or too many keys is an error of the deserializer.
\<close>

definition unique_values :: "(field_id \<times> value) list \<Rightarrow> (string, (field_id, value) btree_map) outcome" where
  "unique_values = fold_m (\<lambda>values (field, value).
     if bt_contains_key values field then Err (''duplicate field value '' @ as_str field)
     else let values = bt_insert field value values in
       if bt_len values > MAX_FIELDS_PER_TABLE then Err ''too many field values'' else Ok values)
     bt_empty"

section \<open>What the buffer accepts\<close>

lemma fold_buffer_write:
  "fold_m buffer_write buf chunks = Ok out \<longleftrightarrow>
     out = buf @ concat chunks \<and> (chunks = [] \<or> length out \<le> MAX_BYTES)"
proof (induction chunks arbitrary: buf)
  case (Cons c cs)
  have step: "buffer_write buf c = Ok buf' \<longleftrightarrow> buf' = buf @ c \<and> length buf' \<le> MAX_BYTES" for buf'
    by (auto simp: buffer_write_def)
  show ?case
    by (auto simp: Cons.IH step and_then_Ok_iff)
qed auto

lemma fold_buffer_write_Err:
  "fold_m buffer_write buf chunks = Err e \<Longrightarrow> e = LimitExceeded ''bytes'' MAX_BYTES"
  by (induction chunks arbitrary: buf)
    (auto simp: buffer_write_def and_then_Err_iff split: if_splits)

lemma fold_buffer_write_not_Panic: "fold_m buffer_write buf chunks \<noteq> Panic"
  by (rule fold_m_not_Panic) (simp add: buffer_write_def)

lemma scan_step_not_Panic [simp]: "scan_step s c \<noteq> Panic"
  by (simp add: scan_step_def scan_byte_def Let_def and_then_Panic_iff)

lemma preflight_not_Panic [simp]: "preflight bytes \<noteq> Panic"
  by (simp add: preflight_def and_then_Panic_iff fold_m_not_Panic)

lemma preflight_length: "preflight bytes = Ok u \<Longrightarrow> length bytes \<le> MAX_BYTES"
  by (simp add: preflight_def split: if_splits)

text \<open>The chunks serde happens to write do not matter: only the whole text does.\<close>

lemma bounded_encode_Ok_iff:
  "bounded_encode w v = Ok out \<longleftrightarrow> out = concat (w v) \<and> preflight out = Ok ()"
  by (auto simp: bounded_encode_def and_then_Ok_iff fold_buffer_write dest: preflight_length)

lemma bounded_encode_not_Panic [simp]: "bounded_encode w v \<noteq> Panic"
  by (simp add: bounded_encode_def and_then_Panic_iff fold_buffer_write_not_Panic)

lemma bounded_decode_Ok_iff [outcome_simps]:
  "bounded_decode r bytes = Ok v \<longleftrightarrow> preflight bytes = Ok () \<and> r bytes = Ok v"
  by (auto simp: bounded_decode_def and_then_Ok_iff map_err_Ok_iff)

section \<open>What the preflight accepts\<close>

text \<open>
  The specification reads the text as whole tokens instead of byte by byte: a string literal is one
  token whatever it contains, a maximal run of other bytes is one atom. The text is accepted when
  its nesting never passes \<open>MAX_DEPTH\<close> and it has at most \<open>MAX_NODES\<close> strings, containers and atoms.
\<close>

datatype token = TString | TOpen | TClose | TAtom

fun skip_string :: "string \<Rightarrow> string" where
  "skip_string [] = []"
| "skip_string (c # cs) =
     (if c = CHR 0x5C then (case cs of [] \<Rightarrow> [] | _ # ds \<Rightarrow> skip_string ds)
      else if c = CHR 0x22 then cs
      else skip_string cs)"

definition is_atom_byte :: "char \<Rightarrow> bool" where
  "is_atom_byte c \<longleftrightarrow> c \<noteq> CHR 0x22 \<and> \<not> is_open c \<and> \<not> is_close c \<and> \<not> is_separator c"

lemma length_skip_string: "length (skip_string cs) \<le> length cs"
proof (induction cs rule: skip_string.induct)
  case (2 c cs)
  then show ?case by (cases cs) (simp_all add: le_SucI)
qed simp

function lex_tokens :: "string \<Rightarrow> token list" where
  "lex_tokens [] = []"
| "lex_tokens (c # cs) =
     (if c = CHR 0x22 then TString # lex_tokens (skip_string cs)
      else if is_open c then TOpen # lex_tokens cs
      else if is_close c then TClose # lex_tokens cs
      else if is_separator c then lex_tokens cs
      else TAtom # lex_tokens (dropWhile is_atom_byte cs))"
  by pat_completeness auto
termination
  by (relation "measure length")
    (auto simp: length_skip_string le_imp_less_Suc length_dropWhile_le)

fun depth_fits :: "nat \<Rightarrow> token list \<Rightarrow> bool" where
  "depth_fits d [] = True"
| "depth_fits d (TOpen # ts) = (d < MAX_DEPTH \<and> depth_fits (d + 1) ts)"
| "depth_fits d (TClose # ts) = depth_fits (d - 1) ts"
| "depth_fits d (_ # ts) = depth_fits d ts"

definition node_count :: "token list \<Rightarrow> nat" where
  "node_count ts = length (filter (\<lambda>t. t \<noteq> TClose) ts)"

lemma node_count_simps [simp]:
  "node_count [] = 0"
  "node_count (TString # ts) = Suc (node_count ts)" "node_count (TOpen # ts) = Suc (node_count ts)"
  "node_count (TAtom # ts) = Suc (node_count ts)" "node_count (TClose # ts) = node_count ts"
  by (simp_all add: node_count_def)

definition scan_ok :: "scan \<Rightarrow> string \<Rightarrow> bool" where
  "scan_ok s cs \<longleftrightarrow> is_ok (fold_m scan_step s cs)"

lemma scan_ok_Nil [simp]: "scan_ok s []"
  by (simp add: scan_ok_def)

lemma scan_ok_Cons: "scan_ok s (c # cs) \<longleftrightarrow> (\<exists>s'. scan_step s c = Ok s' \<and> scan_ok s' cs)"
  by (auto simp: scan_ok_def is_ok_iff and_then_Ok_iff)

text \<open>Inside a string literal the scanner only looks for its end.\<close>

lemma scan_no_escape [simp]: "\<not> sc_escape s \<Longrightarrow> s\<lparr>sc_escape := False\<rparr> = s"
  by (cases s) simp

lemma scan_ok_in_string:
  "sc_string s \<Longrightarrow> \<not> sc_escape s \<Longrightarrow> scan_ok s cs \<longleftrightarrow> scan_ok (s\<lparr>sc_string := False\<rparr>) (skip_string cs)"
proof (induction cs arbitrary: s rule: skip_string.induct)
  case (2 c cs)
  show ?case
  proof (cases "c = CHR 0x5C")
    case True
    then have step: "scan_ok s (c # cs) = scan_ok (s\<lparr>sc_escape := True\<rparr>) cs"
      using 2 by (simp add: scan_ok_Cons scan_step_def)
    show ?thesis
    proof (cases cs)
      case (Cons d ds)
      then have "scan_ok s (c # cs) = scan_ok s ds"
        using 2 unfolding step by (simp add: scan_ok_Cons scan_step_def)
      then show ?thesis using 2 True Cons by simp
    qed (use step True in simp)
  qed (use 2 in \<open>auto simp: scan_ok_Cons scan_step_def\<close>)
qed simp

text \<open>The rest of an atom is free.\<close>

lemma scan_ok_in_atom:
  assumes "\<not> sc_string s" and "sc_atom s" and "sc_nodes s \<le> MAX_NODES"
  shows "scan_ok s cs \<longleftrightarrow> scan_ok (s\<lparr>sc_atom := False\<rparr>) (dropWhile is_atom_byte cs)"
  using assms
proof (induction cs)
  case (Cons c cs)
  show ?case
  proof (cases "is_atom_byte c")
    case True
    with Cons show ?thesis
      by (simp add: scan_ok_Cons scan_step_def scan_byte_def is_atom_byte_def)
  next
    case False
    with Cons.prems show ?thesis
      by (auto simp: scan_ok_Cons scan_step_def scan_byte_def is_atom_byte_def)
  qed
qed simp

lemma scan_ok_lex:
  assumes "\<not> sc_string s" and "\<not> sc_escape s" and "\<not> sc_atom s" and "sc_nodes s \<le> MAX_NODES"
  shows "scan_ok s cs \<longleftrightarrow>
     depth_fits (sc_depth s) (lex_tokens cs) \<and> sc_nodes s + node_count (lex_tokens cs) \<le> MAX_NODES"
  using assms
proof (induction cs arbitrary: s rule: lex_tokens.induct)
  case (2 c cs)
  note IH = "2.IH" and s = "2.prems"
  consider (string) "c = CHR 0x22" | (opener) "c \<noteq> CHR 0x22" and "is_open c"
    | (closer) "c \<noteq> CHR 0x22" and "\<not> is_open c" and "is_close c"
    | (sep) "c \<noteq> CHR 0x22" and "\<not> is_open c" and "\<not> is_close c" and "is_separator c"
    | (atom) "c \<noteq> CHR 0x22" and "\<not> is_open c" and "\<not> is_close c" and "\<not> is_separator c" by blast
  then show ?case
  proof cases
    case string
    let ?s = "s\<lparr>sc_string := True, sc_atom := False, sc_nodes := sc_nodes s + 1\<rparr>"
    show ?thesis
    proof (cases "sc_nodes s + 1 \<le> MAX_NODES")
      case True
      then have "scan_ok s (c # cs) = scan_ok ?s cs"
        using s string by (simp add: scan_ok_Cons scan_step_def scan_byte_def)
      also have "\<dots> = scan_ok (?s\<lparr>sc_string := False\<rparr>) (skip_string cs)"
        using s by (intro scan_ok_in_string) auto
      finally show ?thesis using IH(1) [OF string, of "?s\<lparr>sc_string := False\<rparr>"] s string True by simp
    next
      case False
      with string s show ?thesis
        by (simp add: scan_ok_Cons scan_step_def scan_byte_def)
    qed
  next
    case opener
    let ?s = "s\<lparr>sc_depth := sc_depth s + 1, sc_nodes := sc_nodes s + 1, sc_atom := False\<rparr>"
    show ?thesis
    proof (cases "sc_depth s < MAX_DEPTH \<and> sc_nodes s + 1 \<le> MAX_NODES")
      case True
      then have "scan_ok s (c # cs) = scan_ok ?s cs"
        using s opener by (simp add: scan_ok_Cons scan_step_def scan_byte_def)
      then show ?thesis using IH(2) [OF opener, of ?s] s opener True by simp
    next
      case False
      with opener s show ?thesis
        by (auto simp: scan_ok_Cons scan_step_def scan_byte_def)
    qed
  next
    case closer
    then have "scan_ok s (c # cs) = scan_ok (s\<lparr>sc_depth := sc_depth s - 1, sc_atom := False\<rparr>) cs"
      using s by (simp add: scan_ok_Cons scan_step_def scan_byte_def)
    then show ?thesis using IH(3) [OF closer, of "s\<lparr>sc_depth := sc_depth s - 1, sc_atom := False\<rparr>"] s closer
      by simp
  next
    case sep
    then have "scan_ok s (c # cs) = scan_ok (s\<lparr>sc_atom := False\<rparr>) cs"
      using s by (simp add: scan_ok_Cons scan_step_def scan_byte_def)
    then show ?thesis using IH(4) [OF sep, of "s\<lparr>sc_atom := False\<rparr>"] s sep by simp
  next
    case atom
    let ?s = "s\<lparr>sc_nodes := sc_nodes s + 1, sc_atom := True\<rparr>"
    show ?thesis
    proof (cases "sc_nodes s + 1 \<le> MAX_NODES")
      case True
      then have "scan_ok s (c # cs) = scan_ok ?s cs"
        using s atom by (simp add: scan_ok_Cons scan_step_def scan_byte_def)
      also have "\<dots> = scan_ok (?s\<lparr>sc_atom := False\<rparr>) (dropWhile is_atom_byte cs)"
        using s True by (intro scan_ok_in_atom) auto
      finally show ?thesis using IH(5) [OF atom, of "?s\<lparr>sc_atom := False\<rparr>"] s atom True by simp
    next
      case False
      with atom s show ?thesis
        by (simp add: scan_ok_Cons scan_step_def scan_byte_def)
    qed
  qed
qed simp

text \<open>
  The one-pass lexical preflight accepts exactly the texts of at most \<open>MAX_BYTES\<close> bytes whose
  token sequence nests at most \<open>MAX_DEPTH\<close> deep and holds at most \<open>MAX_NODES\<close> strings, containers
  and atoms: brackets, braces and escapes inside string literals count for nothing.
\<close>

theorem preflight_accepts_iff:
  "preflight bytes = Ok () \<longleftrightarrow>
     length bytes \<le> MAX_BYTES \<and> depth_fits 0 (lex_tokens bytes)
       \<and> node_count (lex_tokens bytes) \<le> MAX_NODES"
proof -
  have "preflight bytes = Ok () \<longleftrightarrow> length bytes \<le> MAX_BYTES \<and> scan_ok scan_init bytes"
    by (auto simp: preflight_def scan_ok_def is_ok_iff and_then_Ok_iff)
  also have "scan_ok scan_init bytes \<longleftrightarrow>
      depth_fits 0 (lex_tokens bytes) \<and> node_count (lex_tokens bytes) \<le> MAX_NODES"
    using scan_ok_lex [of scan_init bytes] by (simp add: scan_init_def)
  finally show ?thesis .
qed

section \<open>Duplicate keys\<close>

lemma bt_len_insert_new: "\<not> bt_contains_key m k \<Longrightarrow> bt_len (bt_insert k v m) = Suc (bt_len m)"
proof -
  assume new: "\<not> bt_contains_key m k"
  have len: "bt_len n = card (set (bt_keys n))" for n :: "('k::linorder, 'w) btree_map"
    using distinct_card [OF bt_keys_distinct, of n] by (simp add: bt_len_def bt_keys_def)
  from new show ?thesis by (simp add: len bt_contains_key_iff)
qed

lemma unique_values_loop:
  "fold_m (\<lambda>values (field, value).
     if bt_contains_key values field then Err (''duplicate field value '' @ as_str field)
     else let values = bt_insert field value values in
       if bt_len values > MAX_FIELDS_PER_TABLE then Err ''too many field values'' else Ok values) m es
     = Ok r \<longleftrightarrow>
   distinct (map fst es) \<and> fst ` set es \<inter> set (bt_keys m) = {}
     \<and> (es = [] \<or> bt_len m + length es \<le> MAX_FIELDS_PER_TABLE) \<and> r = bt_extend_list m es"
proof (induction es arbitrary: m)
  case (Cons e es)
  obtain k v where e: "e = (k, v)" by (cases e)
  show ?case
  proof (cases "bt_contains_key m k")
    case True
    then show ?thesis by (auto simp: e bt_contains_key_iff)
  next
    case False
    then have "k \<notin> set (bt_keys m)" by (simp add: bt_contains_key_iff)
    with False show ?thesis
      by (auto simp: e Cons.IH Let_def and_then_Ok_iff bt_len_insert_new bt_extend_list_def
          split: if_splits)
  qed
qed (auto simp: bt_extend_list_def)

text \<open>
  Reading the values of a record: the result is the map of exactly the listed entries, and the
  reader refuses every object that names a field twice or lists more than \<open>MAX_FIELDS_PER_TABLE\<close>.
\<close>

theorem unique_values_Ok_iff:
  "unique_values es = Ok m \<longleftrightarrow>
     distinct (map fst es) \<and> length es \<le> MAX_FIELDS_PER_TABLE \<and> m = bt_of_list es"
  unfolding unique_values_def unique_values_loop
  by (auto simp: bt_of_list_def bt_len_def)

end
