(* ===== verification/Constraints.thy ===== *)
theory Constraints
  imports Codec
begin

text \<open>
  Field and command-input refinements (\<open>crates/evobase-appspec/src/constraints.rs\<close>): which field
  types a constraint may be declared on, which values it accepts, and the check of all declarations
  of a definition.
\<close>

fun check_type :: "constraint \<Rightarrow> field_type \<Rightarrow> (string, unit) outcome" where
  "check_type NonEmpty FText = Ok ()"
| "check_type (TextLength lo hi) FText =
     (if lo \<le> hi \<and> hi \<le> MAX_TEXT_BYTES then Ok () else Err ''invalid inclusive bounds'')"
| "check_type (NumericRange lo hi) FInteger =
     (if sint lo \<le> sint hi then Ok () else Err ''invalid inclusive bounds'')"
| "check_type (NumericRange lo hi) FMoney =
     (if sint lo \<le> sint hi then Ok () else Err ''invalid inclusive bounds'')"
| "check_type _ _ = Err ''constraint does not support the field type''"

text \<open>Requiredness has one owner: a missing value is accepted whatever the constraint.\<close>

fun accepts :: "constraint \<Rightarrow> value \<Rightarrow> bool" where
  "accepts _ Blank = True"
| "accepts _ Null = True"
| "accepts NonEmpty (Text text) = (trim text \<noteq> [])"
| "accepts (TextLength lo hi) (Text text) =
     (lo \<le> length (str_chars text) \<and> length (str_chars text) \<le> hi)"
| "accepts (NumericRange lo hi) (Integer v) = (sint lo \<le> sint v \<and> sint v \<le> sint hi)"
| "accepts (NumericRange lo hi) (Money v) = (sint lo \<le> sint v \<and> sint v \<le> sint hi)"
| "accepts _ _ = False"

definition check_constraint :: "checked_app_spec \<Rightarrow> raw_field_constraint \<Rightarrow> (error, unit) outcome" where
  "check_constraint spec rule =
     and_then (ok_or (UnknownField (fc_table_id rule) (fc_field_id rule))
                 (spec_field spec (fc_table_id rule) (fc_field_id rule)))
       (\<lambda>field. map_err (\<lambda>reason. InvalidConstraint (fc_constraint_id rule) reason)
                  (check_type (fc_constraint rule) (fld_type field)))"

definition check_constraints :: "checked_app_spec \<Rightarrow> (error, unit) outcome" where
  "check_constraints spec =
     (let constraints = app_constraints (spec_def spec) in
      if length constraints > MAX_CONSTRAINTS then Err (LimitExceeded ''constraints'' MAX_CONSTRAINTS)
      else unique_loop {} fc_constraint_id
        (\<lambda>rule. InvalidConstraint (fc_constraint_id rule) ''duplicate constraint identity'')
        (check_constraint spec) constraints)"

section \<open>Lemmas\<close>

lemma check_type_not_Panic [simp]: "check_type c t \<noteq> Panic"
  by (cases "(c, t)" rule: check_type.cases) auto

lemma accepts_absent [simp]: "absent v \<Longrightarrow> accepts c v"
  by (cases c) (auto simp: absent_iff)

lemma check_constraint_Ok_iff [outcome_simps]:
  "check_constraint spec rule = Ok () \<longleftrightarrow>
     (\<exists>field. spec_field spec (fc_table_id rule) (fc_field_id rule) = Some field
        \<and> check_type (fc_constraint rule) (fld_type field) = Ok ())"
  by (auto simp: check_constraint_def outcome_simps)

lemma check_constraint_not_Panic [simp]: "check_constraint spec rule \<noteq> Panic"
  by (auto simp: check_constraint_def outcome_simps)

lemma check_constraints_Ok_iff:
  "check_constraints spec = Ok () \<longleftrightarrow>
     length (app_constraints (spec_def spec)) \<le> MAX_CONSTRAINTS
       \<and> distinct (map fc_constraint_id (app_constraints (spec_def spec)))
       \<and> (\<forall>rule\<in>set (app_constraints (spec_def spec)). check_constraint spec rule = Ok ())"
  by (auto simp: check_constraints_def Let_def unique_loop_Ok_iff)

lemma check_constraints_not_Panic [simp]: "check_constraints spec \<noteq> Panic"
  by (simp add: check_constraints_def Let_def unique_loop_not_Panic)

text \<open>A value of each shape a checked constraint speaks about.\<close>

lemma str_chars_ascii: "(\<forall>c\<in>set s. utf8_width c = 1) \<Longrightarrow> length (str_chars s) = length s"
  by (induction s rule: str_chars.induct) auto

lemma trim_a: "trim ''a'' = ''a''"
  by (simp add: trim_def is_whitespace_def utf8_width_def Let_def)

text \<open>
  A declaration the check admits never makes a required field unfillable: some present value of
  the field's own type is within the text limit and is accepted.
\<close>

theorem checked_constraint_satisfiable:
  assumes "check_type c t = Ok ()"
  shows "\<exists>v. accepts c v \<and>
    ((\<exists>s. t = FText \<and> v = Text s \<and> length s \<le> MAX_TEXT_BYTES)
      \<or> (\<exists>n. t = FInteger \<and> v = Integer n) \<or> (\<exists>n. t = FMoney \<and> v = Money n))"
  using assms
proof (induction c t rule: check_type.induct)
  case 1
  show ?case by (rule exI [of _ "Text ''a''"]) (simp add: trim_a MAX_TEXT_BYTES_def)
next
  case (2 lo hi)
  let ?s = "replicate lo CHR ''a''"
  have "length (str_chars ?s) = lo"
    by (subst str_chars_ascii) (auto simp: utf8_width_def)
  with 2 show ?case
    by (intro exI [of _ "Text ?s"]) (auto split: if_splits)
next
  case (3 lo hi)
  then show ?case by (intro exI [of _ "Integer lo"]) (auto split: if_splits)
next
  case (4 lo hi)
  then show ?case by (intro exI [of _ "Money lo"]) (auto split: if_splits)
qed auto

theorem checked_constraint_satisfiable_witness:
  "check_type (TextLength 2 5) FText = Ok () \<and> (\<exists>v. accepts (TextLength 2 5) v)"
proof -
  have ok: "check_type (TextLength 2 5) FText = Ok ()" by (simp add: MAX_TEXT_BYTES_def)
  with checked_constraint_satisfiable [OF ok] show ?thesis by blast
qed

end
