(* ===== verification/Fixtures.thy ===== *)
theory Fixtures
  imports Codec
begin

text \<open>
  The synthetic applications of \<open>crates/evobase-appspec/src/fixtures.rs\<close>: the commerce example and
  the two workflow applications that share one definition. They are the concrete inputs the
  witnesses of this development evaluate. The code builds each identity with \<open>expect\<close>; here the
  identity is written down and \<open>fixture_identities\<close> shows that the constructors accept it.
\<close>

section \<open>Commerce\<close>

definition fixture_field :: "string \<Rightarrow> string \<Rightarrow> bool \<Rightarrow> field_type \<Rightarrow> raw_field" where
  "fixture_field i name required ft =
     \<lparr>fld_id = Ident i, fld_name = name, fld_required = required, fld_type = ft\<rparr>"

definition fixture_table :: "string \<Rightarrow> string \<Rightarrow> raw_field list \<Rightarrow> raw_table" where
  "fixture_table i name fs = \<lparr>tbl_id = Ident i, tbl_name = name, tbl_fields = fs\<rparr>"

definition fixture_reference :: "string \<Rightarrow> field_type" where
  "fixture_reference target = FRef (Ident target)"

definition example_spec :: raw_app_spec where
  "example_spec = \<lparr>
     app_version = 1,
     app_app_id = Ident ''app_commerce'',
     app_name = ''Commerce'',
     app_tables = [
       fixture_table ''tbl_customers'' ''Customer'' [
         fixture_field ''fld_customer_name'' ''Name'' True FText,
         fixture_field ''fld_customer_owner'' ''Owner'' True FText],
       fixture_table ''tbl_orders'' ''Order'' [
         fixture_field ''fld_order_customer'' ''Customer'' True (fixture_reference ''tbl_customers''),
         fixture_field ''fld_order_owner'' ''Owner'' True FText,
         fixture_field ''fld_order_state'' ''State'' True FText,
         fixture_field ''fld_order_notes'' ''Notes'' False FText],
       fixture_table ''tbl_order_lines'' ''OrderLine'' [
         fixture_field ''fld_line_order'' ''Order'' True (fixture_reference ''tbl_orders''),
         fixture_field ''fld_line_product'' ''Product'' True (fixture_reference ''tbl_products''),
         fixture_field ''fld_line_quantity'' ''Quantity'' True FInteger,
         fixture_field ''fld_line_price'' ''Captured price'' True FMoney],
       fixture_table ''tbl_products'' ''Product'' [
         fixture_field ''fld_product_name'' ''Name'' True FText,
         fixture_field ''fld_product_price'' ''Price'' True FMoney]],
     app_capture_rules = [
       \<lparr>cap_line_table = Ident ''tbl_order_lines'', cap_product_ref_field = Ident ''fld_line_product'',
        cap_product_price_field = Ident ''fld_product_price'',
        cap_captured_price_field = Ident ''fld_line_price''\<rparr>],
     app_policies = [],
     app_submit_rules = [],
     app_constraints = [],
     app_state_machines = [],
     app_commands = []\<rparr>"

definition example_policy_spec :: raw_app_spec where
  "example_policy_spec = example_spec\<lparr>
     app_policies := app_policies example_spec @ [
       \<lparr>pol_rule_id = ''rule_order_owner'', pol_revision = 1, pol_table_id = Ident ''tbl_orders'',
        pol_owner_field = Ident ''fld_order_owner'',
        pol_read_fields = bs_of_list [Ident ''fld_order_state'', Ident ''fld_order_notes''],
        pol_read_roles = bs_of_list [Ident ''role_auditor''],
        pol_write_roles = bs_of_list [Ident ''role_editor''],
        pol_submit_roles = bs_of_list [Ident ''role_operator'']\<rparr>],
     app_submit_rules := app_submit_rules example_spec @ [
       \<lparr>sub_rule_id = ''rule_submit_order'', sub_revision = 1,
        sub_policy_rule_id = ''rule_order_owner'', sub_order_table = Ident ''tbl_orders'',
        sub_state_field = Ident ''fld_order_state'', sub_notes_field = Ident ''fld_order_notes'',
        sub_line_table = Ident ''tbl_order_lines'', sub_line_order_field = Ident ''fld_line_order'',
        sub_quantity_field = Ident ''fld_line_quantity'',
        sub_captured_price_field = Ident ''fld_line_price''\<rparr>]\<rparr>"

definition fixture_record :: "scope \<Rightarrow> string \<Rightarrow> string \<Rightarrow> (string \<times> value) list \<Rightarrow> raw_record" where
  "fixture_record scope table i vals =
     \<lparr>rec_scope = scope, rec_id = Ident i, rec_table_id = Ident table,
      rec_values = bt_of_list (map (\<lambda>(f, v). (Ident f, v)) vals)\<rparr>"

definition fixture_link :: "scope \<Rightarrow> string \<Rightarrow> string \<Rightarrow> value" where
  "fixture_link scope table i = Ref \<lparr>ref_scope = scope, ref_table_id = Ident table, ref_record_id = Ident i\<rparr>"

definition example_records :: "scope \<Rightarrow> raw_record list" where
  "example_records scope = [
     fixture_record scope ''tbl_customers'' ''rec_customer_1''
       [(''fld_customer_name'', Text ''Ada''), (''fld_customer_owner'', Text ''actor_alice'')],
     fixture_record scope ''tbl_orders'' ''rec_order_1''
       [(''fld_order_customer'', fixture_link scope ''tbl_customers'' ''rec_customer_1''),
        (''fld_order_owner'', Text ''actor_alice''), (''fld_order_state'', Text ''draft'')],
     fixture_record scope ''tbl_products'' ''rec_product_1''
       [(''fld_product_name'', Text ''Widget''), (''fld_product_price'', Money 1250)],
     fixture_record scope ''tbl_order_lines'' ''rec_line_1''
       [(''fld_line_order'', fixture_link scope ''tbl_orders'' ''rec_order_1''),
        (''fld_line_product'', fixture_link scope ''tbl_products'' ''rec_product_1''),
        (''fld_line_quantity'', Integer 2), (''fld_line_price'', Money 1250)]]"

section \<open>Workflows\<close>

definition workflow_count_field :: "string \<Rightarrow> field_id" where
  "workflow_count_field prefix =
     Ident (if prefix = ''request'' then ''fld_request_priority'' else ''fld_loan_days'')"

definition workflow_spec ::
  "string \<Rightarrow> string \<Rightarrow> string \<Rightarrow> string \<Rightarrow> string \<times> string \<Rightarrow> string \<Rightarrow> i64 \<Rightarrow> raw_app_spec" where
  "workflow_spec app table_suffix prefix name states command cnt =
     (let frm = fst states; to = snd states;
          table = Ident (''tbl_'' @ table_suffix);
          owner = Ident (''fld_'' @ prefix @ ''_owner'');
          state = Ident (''fld_'' @ prefix @ ''_state'');
          note = Ident (''fld_'' @ prefix @ ''_note'');
          count_field = workflow_count_field prefix;
          machine = Ident (''machine_'' @ prefix);
          policy = ''rule_'' @ prefix @ ''_owner''
      in \<lparr>
        app_version = FORMAT_VERSION,
        app_app_id = Ident (''app_'' @ app),
        app_name = name,
        app_tables = [\<lparr>tbl_id = table, tbl_name = name, tbl_fields = [
          \<lparr>fld_id = owner, fld_name = ''Owner'', fld_required = True, fld_type = FText\<rparr>,
          \<lparr>fld_id = state, fld_name = ''State'', fld_required = True, fld_type = FText\<rparr>,
          \<lparr>fld_id = note, fld_name = ''Note'', fld_required = False, fld_type = FText\<rparr>,
          \<lparr>fld_id = count_field,
           fld_name = (if prefix = ''request'' then ''Priority'' else ''Days''),
           fld_required = True, fld_type = FInteger\<rparr>]\<rparr>],
        app_capture_rules = [],
        app_policies = [
          \<lparr>pol_rule_id = policy, pol_revision = 1, pol_table_id = table, pol_owner_field = owner,
           pol_read_fields = bs_of_list [state, note, count_field],
           pol_read_roles = bs_of_list [Ident ''role_auditor''],
           pol_write_roles = bs_of_list [Ident ''role_editor''],
           pol_submit_roles = bt_empty\<rparr>],
        app_submit_rules = [],
        app_constraints = [
          \<lparr>fc_constraint_id = Ident (''constraint_'' @ prefix @ ''_note''), fc_table_id = table,
           fc_field_id = note, fc_constraint = TextLength 0 200\<rparr>,
          \<lparr>fc_constraint_id = Ident (''constraint_'' @ prefix @ ''_count''), fc_table_id = table,
           fc_field_id = count_field, fc_constraint = NumericRange 1 30\<rparr>],
        app_state_machines = [
          \<lparr>sm_machine_id = machine, sm_table_id = table, sm_state_field = state,
           sm_states = bs_of_list [frm, to], sm_terminal_states = bs_of_list [to]\<rparr>],
        app_commands = [
          \<lparr>cmd_command_id = Ident command, cmd_revision = 1, cmd_policy_rule_id = policy,
           cmd_state_machine_id = machine, cmd_from_state = frm, cmd_to_state = to,
           cmd_inputs = [
             \<lparr>inp_field_id = note, inp_required = True, inp_constraints = [NonEmpty, TextLength 1 200]\<rparr>,
             \<lparr>inp_field_id = count_field, inp_required = False, inp_constraints = [NumericRange 1 30]\<rparr>],
           cmd_guards = [\<lparr>grd_field_id = count_field, grd_equals = Integer cnt\<rparr>],
           cmd_events = [
             \<lparr>evt_event_id = Ident (''event_'' @ prefix @ ''_completed''),
              evt_fields = bs_of_list [state, note]\<rparr>]\<rparr>]\<rparr>)"

definition support_workflow_spec :: raw_app_spec where
  "support_workflow_spec = workflow_spec ''support'' ''requests'' ''request'' ''Support requests''
     (''open'', ''resolved'') ''cmd_resolve_request'' 2"

definition library_workflow_spec :: raw_app_spec where
  "library_workflow_spec = workflow_spec ''library'' ''loans'' ''loan'' ''Library loans''
     (''borrowed'', ''returned'') ''cmd_return_loan'' 14"

definition support_workflow_records :: "scope \<Rightarrow> raw_record list" where
  "support_workflow_records scope =
     (let first = fixture_record scope ''tbl_requests'' ''rec_request_1''
            [(''fld_request_owner'', Text ''actor_alice''), (''fld_request_state'', Text ''open''),
             (''fld_request_priority'', Integer 2)]
      in [first, first\<lparr>rec_id := Ident ''rec_request_2''\<rparr>])"

definition library_workflow_records :: "scope \<Rightarrow> raw_record list" where
  "library_workflow_records scope = [
     fixture_record scope ''tbl_loans'' ''rec_loan_1''
       [(''fld_loan_owner'', Text ''actor_alice''), (''fld_loan_state'', Text ''borrowed''),
        (''fld_loan_days'', Integer 14)]]"

lemmas fixture_defs = example_spec_def example_policy_spec_def example_records_def
  fixture_field_def fixture_table_def fixture_reference_def fixture_record_def fixture_link_def
  workflow_spec_def workflow_count_field_def support_workflow_spec_def library_workflow_spec_def
  support_workflow_records_def library_workflow_records_def

text \<open>
  A concrete instance of the JSON parameter: writers that emit one fixed document and readers that
  refuse everything. It satisfies every hypothesis the theorems make of the parameter, because they
  only speak of the preflight of the written text.
\<close>

definition plain_serde :: serde where
  "plain_serde = \<lparr>ser_spec = (\<lambda>_. [''{}'']), de_spec = (\<lambda>_. Err ''unsupported''),
     ser_records = (\<lambda>_. [''[]'']), de_records = (\<lambda>_. Err ''unsupported''),
     ser_request = (\<lambda>_. [''{}'']), de_request = (\<lambda>_. Err ''unsupported''),
     ser_intent = (\<lambda>_. [''{}''])\<rparr>"

section \<open>Their identities\<close>

definition table_ids_ok :: "raw_app_spec \<Rightarrow> bool" where
  "table_ids_ok spec \<longleftrightarrow>
     list_all (\<lambda>t. is_ok (table_id_new (as_str (tbl_id t)))
       \<and> list_all (\<lambda>f. is_ok (field_id_new (as_str (fld_id f)))) (tbl_fields t)) (app_tables spec)"

lemma fixture_identities:
  "table_ids_ok example_spec" "table_ids_ok support_workflow_spec" "table_ids_ok library_workflow_spec"
  by code_simp+

end
