(* ===== verification/Facts.thy ===== *)
theory Facts
  imports Constraints Fixtures
begin

text \<open>
  Final-state validation of records (\<open>crates/evobase-appspec/src/value.rs\<close>): \<open>validate_records\<close> in
  the steps the code takes them, the declarative specification \<open>valid_facts\<close> of what it promises,
  and the theorem that the one implements the other. The second part is the authoring projection
  \<open>parse_cell\<close>.
\<close>

section \<open>validate\_records\<close>

definition record_key :: "raw_record \<Rightarrow> table_id \<times> record_id" where
  "record_key r = (rec_table_id r, rec_id r)"

type_synonym record_index = "(table_id \<times> record_id, raw_record) btree_map"
type_synonym constraint_index = "(table_id \<times> field_id, raw_field_constraint list) btree_map"

text \<open>The first pass over the sorted records: scope, table, unique identity.\<close>

definition index_record ::
  "checked_app_spec \<Rightarrow> scope \<Rightarrow> record_index \<Rightarrow> raw_record \<Rightarrow> (error, record_index) outcome" where
  "index_record spec scope identities r =
     (if rec_scope r \<noteq> scope then Err (CrossScope (rec_id r))
      else if spec_table spec (rec_table_id r) = None then Err (UnknownTable (rec_table_id r))
      else if bt_contains_key identities (record_key r)
      then Err (DuplicateRecord (rec_table_id r) (rec_id r))
      else Ok (bt_insert (record_key r) r identities))"

definition index_records ::
  "checked_app_spec \<Rightarrow> scope \<Rightarrow> raw_record list \<Rightarrow> (error, record_index) outcome" where
  "index_records spec scope = fold_m (index_record spec scope) bt_empty"

text \<open>A bounded index avoids scanning every declaration for every table field.\<close>

definition constraint_index :: "raw_field_constraint list \<Rightarrow> constraint_index" where
  "constraint_index rules = fold (\<lambda>rule m.
     let key = (fc_table_id rule, fc_field_id rule) in
     bt_insert key ((case bt_get m key of None \<Rightarrow> [] | Some rs \<Rightarrow> rs) @ [rule]) m) rules bt_empty"

fun value_correct :: "field_type \<Rightarrow> value \<Rightarrow> bool" where
  "value_correct FText (Text _) = True"
| "value_correct FInteger (Integer _) = True"
| "value_correct FBool (Bool _) = True"
| "value_correct FMoney (Money _) = True"
| "value_correct (FRef _) (Ref _) = True"
| "value_correct _ _ = False"

definition check_reference ::
  "scope \<Rightarrow> raw_record list \<Rightarrow> record_index \<Rightarrow> field_type \<Rightarrow> record_ref \<Rightarrow> (error, unit) outcome" where
  "check_reference scope records identities ft reference =
     (if ref_scope reference \<noteq> scope then Err (CrossScope (ref_record_id reference))
      else case ft of
        FRef target \<Rightarrow>
          if ref_table_id reference \<noteq> target
          then Err (WrongReferenceTable (ref_record_id reference) target (ref_table_id reference))
          else if \<not> bt_contains_key identities (ref_table_id reference, ref_record_id reference)
          then (case List.find (\<lambda>other. rec_id other = ref_record_id reference) records of
                  Some other \<Rightarrow>
                    Err (WrongReferenceTable (ref_record_id reference) target (rec_table_id other))
                | None \<Rightarrow> Err (MissingReference target (ref_record_id reference)))
          else Ok ()
      | _ \<Rightarrow> Panic)"

definition check_present ::
  "scope \<Rightarrow> raw_record list \<Rightarrow> record_index \<Rightarrow> record_id \<Rightarrow> raw_field \<Rightarrow> value \<Rightarrow> (error, unit) outcome"
where
  "check_present scope records identities rid field v =
     (if \<not> value_correct (fld_type field) v
      then Err (WrongType rid (fld_id field) (field_type_name (fld_type field)))
      else case v of
        Text text \<Rightarrow> if length text > MAX_TEXT_BYTES then Err (LimitExceeded ''text bytes'' MAX_TEXT_BYTES)
                     else Ok ()
      | Ref reference \<Rightarrow> check_reference scope records identities (fld_type field) reference
      | _ \<Rightarrow> Ok ())"

definition check_field_constraints ::
  "constraint_index \<Rightarrow> table_id \<Rightarrow> record_id \<Rightarrow> field_id \<Rightarrow> value \<Rightarrow> (error, unit) outcome" where
  "check_field_constraints index tid rid fid v =
     (case bt_get index (tid, fid) of
        None \<Rightarrow> Ok ()
      | Some rules \<Rightarrow> for_each (\<lambda>rule.
          if accepts (fc_constraint rule) v then Ok ()
          else Err (ConstraintViolation rid fid (fc_constraint_id rule))) rules)"

definition state_declared :: "raw_state_machine \<Rightarrow> value \<Rightarrow> bool" where
  "state_declared machine v =
     (case v of Text state \<Rightarrow> bs_contains (sm_states machine) state | _ \<Rightarrow> False)"

definition machine_rejecting ::
  "checked_app_spec \<Rightarrow> table_id \<Rightarrow> field_id \<Rightarrow> value \<Rightarrow> raw_state_machine option" where
  "machine_rejecting spec tid fid v =
     List.find (\<lambda>machine. sm_table_id machine = tid \<and> sm_state_field machine = fid
       \<and> \<not> state_declared machine v) (app_state_machines (spec_def spec))"

text \<open>The body of the loop over a table's fields; the value it stores is its argument \<open>v\<close>.\<close>

definition check_value ::
  "checked_app_spec \<Rightarrow> scope \<Rightarrow> raw_record list \<Rightarrow> record_index \<Rightarrow> constraint_index \<Rightarrow>
     raw_record \<Rightarrow> raw_field \<Rightarrow> value \<Rightarrow> (error, unit) outcome" where
  "check_value spec scope records identities index r field v =
     and_then
       (if absent v then
          (if fld_required field then Err (Required (rec_id r) (fld_id field)) else Ok ())
        else check_present scope records identities (rec_id r) field v) (\<lambda>_.
     and_then (check_field_constraints index (rec_table_id r) (rec_id r) (fld_id field) v) (\<lambda>_.
     case machine_rejecting spec (rec_table_id r) (fld_id field) v of
       Some machine \<Rightarrow> Err (InvalidStateValue (rec_id r) (fld_id field) (sm_machine_id machine))
     | None \<Rightarrow> Ok ()))"

definition row_value :: "raw_record \<Rightarrow> field_id \<Rightarrow> value" where
  "row_value r f = (case bt_get (rec_values r) f of None \<Rightarrow> Blank | Some v \<Rightarrow> v)"

definition check_record ::
  "checked_app_spec \<Rightarrow> scope \<Rightarrow> raw_record list \<Rightarrow> record_index \<Rightarrow> constraint_index \<Rightarrow>
     raw_record \<Rightarrow> (error, checked_record) outcome" where
  "check_record spec scope records identities index r =
     and_then (expect (spec_table spec (rec_table_id r))) (\<lambda>table.
     and_then (for_each (\<lambda>f. if spec_field spec (rec_table_id r) f = None
                             then Err (UnknownField (rec_table_id r) f) else Ok ())
                (bt_keys (rec_values r))) (\<lambda>_.
     and_then (fold_m (\<lambda>values field.
                 let v = row_value r (fld_id field) in
                 and_then (check_value spec scope records identities index r field v)
                   (\<lambda>_. Ok (bt_insert (fld_id field) v values)))
                bt_empty (tbl_fields table)) (\<lambda>values.
     Ok (CheckedRecord (r\<lparr>rec_values := values\<rparr>)))))"

definition validate_records ::
  "serde \<Rightarrow> checked_app_spec \<Rightarrow> scope \<Rightarrow> raw_record list \<Rightarrow> (error, checked_records) outcome" where
  "validate_records J spec scope records =
     (if app_id scope \<noteq> spec_app_id spec then Err (WrongApp (spec_app_id spec) (app_id scope))
      else if length records > MAX_RECORDS then Err (LimitExceeded ''records'' MAX_RECORDS)
      else and_then (bounded_encode (ser_records J) records) (\<lambda>_.
        let sorted = sort_key record_key records in
        and_then (index_records spec scope sorted) (\<lambda>identities.
        let index = constraint_index (app_constraints (spec_def spec)) in
        and_then (map_m (check_record spec scope records identities index) sorted) (\<lambda>checked.
        and_then (bounded_encode (ser_records J) (map as_raw checked)) (\<lambda>_.
        Ok \<lparr>crs_scope = scope, crs_records = checked\<rparr>)))))"

definition decode_records ::
  "serde \<Rightarrow> checked_app_spec \<Rightarrow> scope \<Rightarrow> string \<Rightarrow> (error, checked_records) outcome" where
  "decode_records J spec scope bytes =
     and_then (bounded_decode (de_records J) bytes) (\<lambda>raw. validate_records J spec scope raw)"

section \<open>What the facts of an application must satisfy\<close>

definition machines_at :: "checked_app_spec \<Rightarrow> table_id \<Rightarrow> field_id \<Rightarrow> raw_state_machine set" where
  "machines_at spec tid fid =
     {m \<in> set (app_state_machines (spec_def spec)). sm_table_id m = tid \<and> sm_state_field m = fid}"

definition constraints_at :: "checked_app_spec \<Rightarrow> table_id \<Rightarrow> field_id \<Rightarrow> raw_field_constraint set" where
  "constraints_at spec tid fid =
     {c \<in> set (app_constraints (spec_def spec)). fc_table_id c = tid \<and> fc_field_id c = fid}"

definition reference_ok :: "scope \<Rightarrow> (table_id \<times> record_id) set \<Rightarrow> field_type \<Rightarrow> value \<Rightarrow> bool" where
  "reference_ok scope keys ft v \<longleftrightarrow> (\<forall>r. v = Ref r \<longrightarrow>
     ref_scope r = scope \<and> ft = FRef (ref_table_id r) \<and> (ref_table_id r, ref_record_id r) \<in> keys)"

definition value_ok ::
  "checked_app_spec \<Rightarrow> scope \<Rightarrow> (table_id \<times> record_id) set \<Rightarrow> table_id \<Rightarrow> raw_field \<Rightarrow> value \<Rightarrow> bool" where
  "value_ok spec scope keys tid field v \<longleftrightarrow>
     (absent v \<longrightarrow> \<not> fld_required field)
     \<and> (\<not> absent v \<longrightarrow> value_correct (fld_type field) v)
     \<and> (\<forall>s. v = Text s \<longrightarrow> length s \<le> MAX_TEXT_BYTES)
     \<and> reference_ok scope keys (fld_type field) v
     \<and> (\<forall>c\<in>constraints_at spec tid (fld_id field). accepts (fc_constraint c) v)
     \<and> (\<forall>m\<in>machines_at spec tid (fld_id field). state_declared m v)"

definition record_ok ::
  "checked_app_spec \<Rightarrow> scope \<Rightarrow> (table_id \<times> record_id) set \<Rightarrow> raw_record \<Rightarrow> bool" where
  "record_ok spec scope keys r \<longleftrightarrow> rec_scope r = scope \<and>
     (\<exists>table. spec_table spec (rec_table_id r) = Some table
        \<and> set (bt_keys (rec_values r)) \<subseteq> fld_id ` set (tbl_fields table)
        \<and> (\<forall>field\<in>set (tbl_fields table).
             value_ok spec scope keys (rec_table_id r) field (row_value r (fld_id field))))"

definition valid_facts :: "checked_app_spec \<Rightarrow> scope \<Rightarrow> raw_record list \<Rightarrow> bool" where
  "valid_facts spec scope records \<longleftrightarrow>
     distinct (map record_key records)
     \<and> (\<forall>r\<in>set records. record_ok spec scope (record_key ` set records) r)"

text \<open>Every field of the record's table is stored, a missing one as \<open>Blank\<close>.\<close>

definition normalize_record :: "checked_app_spec \<Rightarrow> raw_record \<Rightarrow> raw_record" where
  "normalize_record spec r =
     (case spec_table spec (rec_table_id r) of
        None \<Rightarrow> r
      | Some table \<Rightarrow> r\<lparr>rec_values :=
          bt_of_list (map (\<lambda>field. (fld_id field, row_value r (fld_id field))) (tbl_fields table))\<rparr>)"

definition encodable :: "serde \<Rightarrow> raw_record list \<Rightarrow> bool" where
  "encodable J records \<longleftrightarrow> preflight (concat (ser_records J records)) = Ok ()"

section \<open>The steps meet their specifications\<close>

lemma bounded_encode_records_Ok_iff:
  "(\<exists>out. bounded_encode (ser_records J) records = Ok out) \<longleftrightarrow> encodable J records"
  by (auto simp: bounded_encode_Ok_iff encodable_def)

lemma record_key_normalize [simp]: "record_key (normalize_record spec r) = record_key r"
  by (simp add: record_key_def normalize_record_def split: option.split)

lemma normalize_record_simps [simp]:
  "rec_table_id (normalize_record spec r) = rec_table_id r"
  "rec_scope (normalize_record spec r) = rec_scope r"
  "rec_id (normalize_record spec r) = rec_id r"
  by (simp_all add: normalize_record_def split: option.splits)

lemma index_records_loop:
  "fold_m (index_record spec scope) m rs = Ok ix \<longleftrightarrow>
     distinct (map record_key rs) \<and> record_key ` set rs \<inter> set (bt_keys m) = {}
     \<and> (\<forall>r\<in>set rs. rec_scope r = scope \<and> spec_table spec (rec_table_id r) \<noteq> None)
     \<and> ix = bt_extend_list m (map (\<lambda>r. (record_key r, r)) rs)"
proof (induction rs arbitrary: m)
  case (Cons r rs)
  have step: "index_record spec scope m r = Ok m' \<longleftrightarrow>
      record_key r \<notin> set (bt_keys m) \<and> rec_scope r = scope \<and> spec_table spec (rec_table_id r) \<noteq> None
      \<and> m' = bt_insert (record_key r) r m" for m'
    by (auto simp: index_record_def bt_contains_key_iff)
  show ?case
    by (auto simp: and_then_Ok_iff step Cons.IH bt_extend_list_def)
qed (auto simp: bt_extend_list_def)

lemma keys_extend_list: "set (bt_keys (bt_extend_list m xs)) = set (bt_keys m) \<union> fst ` set xs"
  unfolding bt_extend_list_def by (induction xs arbitrary: m) auto

lemma index_records_Ok_iff:
  "index_records spec scope rs = Ok ix \<longleftrightarrow>
     distinct (map record_key rs)
     \<and> (\<forall>r\<in>set rs. rec_scope r = scope \<and> spec_table spec (rec_table_id r) \<noteq> None)
     \<and> ix = bt_of_list (map (\<lambda>r. (record_key r, r)) rs)"
  unfolding index_records_def index_records_loop by (auto simp: bt_of_list_def)

lemma index_contains_iff:
  "bt_contains_key (bt_of_list (map (\<lambda>r. (record_key r, r)) rs)) k \<longleftrightarrow> k \<in> record_key ` set rs"
  by (simp add: bt_contains_key_iff bt_of_list_def keys_extend_list image_image)

lemma index_records_not_Panic [simp]: "index_records spec scope rs \<noteq> Panic"
  unfolding index_records_def by (rule fold_m_not_Panic) (simp add: index_record_def)

text \<open>The index holds, per field, the declarations a scan would find, in declaration order.\<close>

lemma constraint_index_loop:
  "bt_get (fold (\<lambda>rule m.
       let key = (fc_table_id rule, fc_field_id rule) in
       bt_insert key ((case bt_get m key of None \<Rightarrow> [] | Some rs \<Rightarrow> rs) @ [rule]) m) rules m) key =
   (case (case bt_get m key of None \<Rightarrow> [] | Some rs \<Rightarrow> rs)
         @ filter (\<lambda>rule. (fc_table_id rule, fc_field_id rule) = key) rules of
      [] \<Rightarrow> bt_get m key | rs \<Rightarrow> Some rs)"
proof (induction rules arbitrary: m)
  case Nil
  then show ?case by (auto split: option.splits list.splits)
next
  case (Cons rule rules)
  then show ?case by (auto simp: Let_def split: option.splits list.splits)
qed

lemma constraint_index_get:
  "bt_get (constraint_index rules) key =
     (case filter (\<lambda>rule. (fc_table_id rule, fc_field_id rule) = key) rules of
        [] \<Rightarrow> None | rs \<Rightarrow> Some rs)"
  unfolding constraint_index_def constraint_index_loop by (simp split: list.split)

lemma check_field_constraints_Ok_iff:
  "check_field_constraints (constraint_index (app_constraints (spec_def spec))) tid rid fid v = Ok () \<longleftrightarrow>
     (\<forall>c\<in>constraints_at spec tid fid. accepts (fc_constraint c) v)"
proof -
  let ?rs = "filter (\<lambda>rule. (fc_table_id rule, fc_field_id rule) = (tid, fid)) (app_constraints (spec_def spec))"
  have rs: "constraints_at spec tid fid = set ?rs" by (auto simp: constraints_at_def)
  have "bt_get (constraint_index (app_constraints (spec_def spec))) (tid, fid)
      = (case ?rs of [] \<Rightarrow> None | rs \<Rightarrow> Some rs)" by (rule constraint_index_get)
  then show ?thesis
    unfolding rs by (cases ?rs) (simp_all add: check_field_constraints_def for_each_Ok_iff)
qed

lemma machine_rejecting_None_iff:
  "machine_rejecting spec tid fid v = None \<longleftrightarrow> (\<forall>m\<in>machines_at spec tid fid. state_declared m v)"
  by (auto simp: machine_rejecting_def machines_at_def find_None_iff)

lemma check_reference_Ok_iff:
  assumes "\<And>k. bt_contains_key identities k \<longleftrightarrow> k \<in> keys"
  shows "check_reference scope records identities ft r = Ok () \<longleftrightarrow> reference_ok scope keys ft (Ref r)"
  by (auto simp: check_reference_def reference_ok_def assms split: field_type.splits option.splits)

lemma check_value_Ok_iff:
  assumes keys: "\<And>k. bt_contains_key identities k \<longleftrightarrow> k \<in> keys"
  shows "check_value spec scope records identities (constraint_index (app_constraints (spec_def spec))) r field v = Ok ()
     \<longleftrightarrow> value_ok spec scope keys (rec_table_id r) field v"
proof (cases "absent v")
  case True
  then show ?thesis
    by (auto simp: check_value_def value_ok_def and_then_Ok_iff check_field_constraints_Ok_iff
        machine_rejecting_None_iff [symmetric] reference_ok_def absent_iff split: option.splits)
next
  case False
  then have "check_present scope records identities rid field v = Ok () \<longleftrightarrow>
      value_correct (fld_type field) v \<and> (\<forall>s. v = Text s \<longrightarrow> length s \<le> MAX_TEXT_BYTES)
      \<and> reference_ok scope keys (fld_type field) v" for rid
    by (cases v)
      (auto simp: check_present_def check_reference_Ok_iff [OF keys] reference_ok_def)
  with False show ?thesis
    by (auto simp: check_value_def value_ok_def and_then_Ok_iff check_field_constraints_Ok_iff
        machine_rejecting_None_iff [symmetric] split: option.splits)
qed

lemma check_fields_loop:
  assumes keys: "\<And>k. bt_contains_key identities k \<longleftrightarrow> k \<in> keys"
  shows "fold_m (\<lambda>values field.
      let v = row_value r (fld_id field) in
      and_then (check_value spec scope records identities (constraint_index (app_constraints (spec_def spec))) r field v)
        (\<lambda>_. Ok (bt_insert (fld_id field) v values))) m fs = Ok out \<longleftrightarrow>
    (\<forall>field\<in>set fs. value_ok spec scope keys (rec_table_id r) field (row_value r (fld_id field)))
    \<and> out = bt_extend_list m (map (\<lambda>field. (fld_id field, row_value r (fld_id field))) fs)"
  by (induction fs arbitrary: m)
    (auto simp: Let_def and_then_Ok_iff check_value_Ok_iff [OF keys] bt_extend_list_def)

lemma check_record_Ok_iff:
  assumes keys: "\<And>k. bt_contains_key identities k \<longleftrightarrow> k \<in> keys" and scope: "rec_scope r = scope"
  shows "check_record spec scope records identities (constraint_index (app_constraints (spec_def spec))) r = Ok c \<longleftrightarrow>
     record_ok spec scope keys r \<and> c = CheckedRecord (normalize_record spec r)"
proof (cases "spec_table spec (rec_table_id r)")
  case None
  then show ?thesis by (simp add: check_record_def record_ok_def)
next
  case (Some table)
  then show ?thesis
    by (auto simp: check_record_def record_ok_def scope and_then_Ok_iff for_each_Ok_iff
        check_fields_loop [OF keys] normalize_record_def bt_of_list_def
        spec_field_None_iff [OF Some] subset_iff)
qed

text \<open>The two unreachable branches of the code are unreachable.\<close>

lemma check_value_not_Panic: "check_value spec scope records identities index r field v \<noteq> Panic"
proof -
  have "check_present scope records identities rid field v \<noteq> Panic" for rid
    by (cases "(fld_type field, v)" rule: value_correct.cases)
      (auto simp: check_present_def check_reference_def split: option.splits)
  moreover have "check_field_constraints index tid rid fid v \<noteq> Panic" for tid rid fid
    by (auto simp: check_field_constraints_def intro!: for_each_not_Panic split: option.splits)
  ultimately show ?thesis
    by (auto simp: check_value_def and_then_Panic_iff split: option.splits if_splits)
qed

lemma check_record_not_Panic:
  "spec_table spec (rec_table_id r) \<noteq> None \<Longrightarrow> check_record spec scope records identities index r \<noteq> Panic"
  by (auto simp: check_record_def and_then_Panic_iff expect_Panic_iff Let_def check_value_not_Panic
      dest!: for_each_not_Panic [THEN notE, rotated] fold_m_not_Panic [THEN notE, rotated])


definition normalized :: "checked_app_spec \<Rightarrow> raw_record list \<Rightarrow> raw_record list" where
  "normalized spec records = map (normalize_record spec) (sort_key record_key records)"

lemma check_all_records:
  assumes ix: "index_records spec scope rs = Ok ix"
  shows "map_m (check_record spec scope records ix (constraint_index (app_constraints (spec_def spec)))) rs = Ok out
    \<longleftrightarrow> (\<forall>r\<in>set rs. record_ok spec scope (record_key ` set rs) r)
      \<and> out = map (CheckedRecord \<circ> normalize_record spec) rs"
proof -
  from ix have keys: "bt_contains_key ix k \<longleftrightarrow> k \<in> record_key ` set rs" for k
    by (auto simp: index_records_Ok_iff index_contains_iff)
  from ix have scope: "r \<in> set rs \<Longrightarrow> rec_scope r = scope" for r
    by (simp add: index_records_Ok_iff)
  have one: "check_record spec scope records ix (constraint_index (app_constraints (spec_def spec))) r = Ok c \<longleftrightarrow>
      record_ok spec scope (record_key ` set rs) r \<and> c = (CheckedRecord \<circ> normalize_record spec) r"
    if "r \<in> set rs" for r c
    using check_record_Ok_iff [OF keys scope [OF that]] by simp
  show ?thesis by (rule map_m_Ok_pointwise) (rule one)
qed

lemma record_ok_table: "record_ok spec scope keys r \<Longrightarrow> rec_scope r = scope \<and> spec_table spec (rec_table_id r) \<noteq> None"
  by (auto simp: record_ok_def)

lemma distinct_sort_key: "distinct (map k (sort_key k xs)) \<longleftrightarrow> distinct (map k xs)"
proof -
  have "mset (map k (sort_key k xs)) = mset (map k xs)" by simp
  then show ?thesis by (rule mset_eq_imp_distinct_iff)
qed

lemma as_raw_normalized: "map as_raw (map (CheckedRecord \<circ> normalize_record spec) xs) = map (normalize_record spec) xs"
  by simp

text \<open>The code's early returns, as one condition.\<close>

lemma validate_records_Ok_iff:
  "validate_records J spec scope records = Ok facts \<longleftrightarrow>
     app_id scope = spec_app_id spec \<and> length records \<le> MAX_RECORDS
     \<and> encodable J records \<and> valid_facts spec scope records \<and> encodable J (normalized spec records)
     \<and> facts = \<lparr>crs_scope = scope, crs_records = map CheckedRecord (normalized spec records)\<rparr>"
proof -
  let ?sorted = "sort_key record_key records"
  have keys: "record_key ` set ?sorted = record_key ` set records" by simp
  have "(\<exists>ix out. index_records spec scope ?sorted = Ok ix
      \<and> map_m (check_record spec scope records ix (constraint_index (app_constraints (spec_def spec)))) ?sorted = Ok out
      \<and> encodable J (map as_raw out) \<and> facts = \<lparr>crs_scope = scope, crs_records = out\<rparr>) \<longleftrightarrow>
    valid_facts spec scope records \<and> encodable J (normalized spec records)
      \<and> facts = \<lparr>crs_scope = scope, crs_records = map CheckedRecord (normalized spec records)\<rparr>"
    (is "?L \<longleftrightarrow> ?R")
  proof
    assume ?L
    then obtain ix out where ix: "index_records spec scope ?sorted = Ok ix"
      and out: "map_m (check_record spec scope records ix (constraint_index (app_constraints (spec_def spec)))) ?sorted = Ok out"
      and enc: "encodable J (map as_raw out)" "facts = \<lparr>crs_scope = scope, crs_records = out\<rparr>" by blast
    from ix have "distinct (map record_key records)"
      by (simp add: index_records_Ok_iff distinct_sort_key)
    with out [unfolded check_all_records [OF ix]] enc show ?R
      by (simp add: valid_facts_def normalized_def comp_def)
  next
    assume ?R
    then have dist: "distinct (map record_key ?sorted)"
      and rows: "\<forall>r\<in>set ?sorted. record_ok spec scope (record_key ` set ?sorted) r"
      by (simp_all add: valid_facts_def distinct_sort_key)
    let ?ix = "bt_of_list (map (\<lambda>r. (record_key r, r)) ?sorted)"
    have ix: "index_records spec scope ?sorted = Ok ?ix"
      unfolding index_records_Ok_iff using dist rows by (blast dest: record_ok_table)
    have "map_m (check_record spec scope records ?ix (constraint_index (app_constraints (spec_def spec)))) ?sorted
        = Ok (map (CheckedRecord \<circ> normalize_record spec) ?sorted)"
      unfolding check_all_records [OF ix] using rows by simp
    with ix \<open>?R\<close> show ?L by (auto simp: normalized_def comp_def)
  qed
  then show ?thesis
    unfolding validate_records_def
    by (auto simp: and_then_Ok_iff Let_def bounded_encode_records_Ok_iff [symmetric])
qed

text \<open>
  C28. Validation accepts exactly the valid final states: records of the selected application and
  scope, no more than the limit, whose identities are unique and whose every row satisfies its
  table's types, required fields, references, constraints and state machines; and both the input
  and the normalized rows must be encodable. The result lists the rows in key order, each with all
  fields of its table.
\<close>

theorem validate_records_accepts_exactly:
  "validate_records J spec scope records = Ok facts \<longleftrightarrow>
     app_id scope = spec_app_id spec \<and> length records \<le> MAX_RECORDS
     \<and> encodable J records \<and> valid_facts spec scope records \<and> encodable J (normalized spec records)
     \<and> facts = \<lparr>crs_scope = scope, crs_records = map CheckedRecord (normalized spec records)\<rparr>"
  by (rule validate_records_Ok_iff)

text \<open>None of the \<open>expect\<close> and \<open>unreachable!\<close> branches is reached.\<close>

lemma validate_records_not_Panic [simp]: "validate_records J spec scope records \<noteq> Panic"
proof -
  let ?sorted = "sort_key record_key records"
  have "map_m (check_record spec scope records ix index) ?sorted \<noteq> Panic"
    if "index_records spec scope ?sorted = Ok ix" for ix index
  proof (rule map_m_not_Panic)
    fix r assume "r \<in> set ?sorted"
    with that have "spec_table spec (rec_table_id r) \<noteq> None" by (simp add: index_records_Ok_iff)
    then show "check_record spec scope records ix index r \<noteq> Panic" by (rule check_record_not_Panic)
  qed
  then show ?thesis
    by (auto simp: validate_records_def and_then_Panic_iff Let_def)
qed

text \<open>
  Validation never reaches one of its \<open>expect\<close> or \<open>unreachable!\<close> branches.
\<close>

theorem validate_records_never_panics: "validate_records J spec scope records \<noteq> Panic"
  by (rule validate_records_not_Panic)

section \<open>Normalized facts\<close>

lemma bt_get_of_list_map:
  "bt_get (bt_of_list (map (\<lambda>f. (k f, g (k f))) fs)) x = (if x \<in> k ` set fs then Some (g x) else None)"
  unfolding bt_of_list_def bt_extend_list_def
  using btree.get_fold_ins [of g "map k fs" bt_empty x] by (simp add: fold_map comp_def)

lemma row_value_normalize:
  assumes "spec_table spec (rec_table_id r) = Some table"
  shows "row_value (normalize_record spec r) f = (if f \<in> fld_id ` set (tbl_fields table) then row_value r f else Blank)"
  using bt_get_of_list_map [of fld_id "row_value r" "tbl_fields table" f] assms
  by (simp add: row_value_def normalize_record_def)

lemma bt_get_normalize:
  assumes "spec_table spec (rec_table_id r) = Some table"
  shows "bt_get (rec_values (normalize_record spec r)) f =
    (if f \<in> fld_id ` set (tbl_fields table) then Some (row_value r f) else None)"
  using bt_get_of_list_map [of fld_id "row_value r" "tbl_fields table" f] assms
  by (simp add: normalize_record_def)

lemma keys_normalize:
  assumes "spec_table spec (rec_table_id r) = Some table"
  shows "set (bt_keys (rec_values (normalize_record spec r))) = fld_id ` set (tbl_fields table)"
  using bt_get_normalize [OF assms]
  by (auto simp: bt_contains_key_iff [symmetric] bt_contains_key_def split: if_splits)

lemma normalize_idem [simp]: "normalize_record spec (normalize_record spec r) = normalize_record spec r"
proof (cases "spec_table spec (rec_table_id r)")
  case (Some table)
  let ?n = "normalize_record spec r"
  have "rec_values (normalize_record spec ?n) = rec_values ?n"
    by (rule bt_eqI) (simp add: bt_get_normalize [of spec _ table] Some row_value_normalize)
  then show ?thesis by (simp add: normalize_record_def Some)
qed (simp add: normalize_record_def)

lemma record_ok_normalize: "record_ok spec scope keys r \<Longrightarrow> record_ok spec scope keys (normalize_record spec r)"
  by (auto simp: record_ok_def row_value_normalize keys_normalize)

lemma sorted_normalized: "sorted (map record_key (normalized spec records))"
  by (simp add: normalized_def comp_def)

lemma normalized_idem [simp]: "normalized spec (normalized spec records) = normalized spec records"
proof -
  have "sort_key record_key (normalized spec records) = normalized spec records"
    by (rule sort_key_id_if_sorted [OF sorted_normalized])
  then show ?thesis by (simp add: normalized_def comp_def)
qed

lemma keys_normalized: "record_key ` set (normalized spec records) = record_key ` set records"
  by (simp add: normalized_def image_image)

lemma valid_facts_normalized: "valid_facts spec scope records \<Longrightarrow> valid_facts spec scope (normalized spec records)"
proof -
  assume valid: "valid_facts spec scope records"
  have "map record_key (normalized spec records) = map record_key (sort_key record_key records)"
    by (simp add: normalized_def)
  with valid have "distinct (map record_key (normalized spec records))"
    by (simp only: valid_facts_def distinct_sort_key)
  moreover have "\<forall>r\<in>set (normalized spec records). record_ok spec scope (record_key ` set records) r"
    using valid by (auto simp: valid_facts_def normalized_def intro: record_ok_normalize)
  ultimately show ?thesis by (simp add: valid_facts_def keys_normalized)
qed

text \<open>The checked facts an application works on: what some successful validation returned.\<close>

definition facts_ok :: "serde \<Rightarrow> checked_app_spec \<Rightarrow> checked_records \<Rightarrow> bool" where
  "facts_ok J spec facts \<longleftrightarrow> validate_records J spec (crs_scope facts) (to_raw facts) = Ok facts"

lemma to_raw_checked [simp]: "to_raw \<lparr>crs_scope = s, crs_records = map CheckedRecord rs\<rparr> = rs"
  by (simp add: to_raw_def comp_def)

lemma facts_ok_iff:
  "facts_ok J spec facts \<longleftrightarrow>
     app_id (crs_scope facts) = spec_app_id spec \<and> length (crs_records facts) \<le> MAX_RECORDS
     \<and> encodable J (to_raw facts) \<and> valid_facts spec (crs_scope facts) (to_raw facts)
     \<and> normalized spec (to_raw facts) = to_raw facts"
proof -
  have eq: "map CheckedRecord (to_raw facts) = crs_records facts"
    by (simp add: to_raw_def comp_def)
  have "facts = \<lparr>crs_scope = crs_scope facts, crs_records = map CheckedRecord rs\<rparr> \<longleftrightarrow> rs = to_raw facts" for rs
    by (cases facts) (auto simp: to_raw_def comp_def)
  then show ?thesis
    unfolding facts_ok_def validate_records_Ok_iff by (auto simp: to_raw_def)
qed

lemma validate_records_facts_ok:
  assumes "validate_records J spec scope records = Ok facts"
  shows "facts_ok J spec facts"
proof -
  have "length (normalized spec records) = length records" by (simp add: normalized_def)
  with assms show ?thesis
    unfolding validate_records_Ok_iff facts_ok_iff by (auto simp: valid_facts_normalized)
qed

lemma validate_records_scope: "validate_records J spec scope records = Ok facts \<Longrightarrow> crs_scope facts = scope"
  by (auto simp: validate_records_Ok_iff)

text \<open>
  Validation is idempotent: its result, handed to it again, is accepted and returned unchanged.
  The re-validation before every policy decision and before every commit therefore never rejects
  facts that were valid when loaded.
\<close>

theorem validate_records_idempotent:
  assumes "validate_records J spec scope records = Ok facts"
  shows "validate_records J spec (crs_scope facts) (to_raw facts) = Ok facts"
  using validate_records_facts_ok [OF assms] by (simp only: facts_ok_def)

definition witness_scope :: scope where
  "witness_scope = Scope ''tenant_a'' (Ident ''app_commerce'')"

definition witness_facts :: checked_records where
  "witness_facts = \<lparr>crs_scope = witness_scope,
     crs_records = map CheckedRecord (normalized (CheckedAppSpec example_spec) (example_records witness_scope))\<rparr>"

lemma witness_facts_validate:
  "validate_records plain_serde (CheckedAppSpec example_spec) witness_scope (example_records witness_scope)
     = Ok witness_facts"
  by code_simp

theorem validate_records_idempotent_witness:
  "validate_records plain_serde (CheckedAppSpec example_spec) (crs_scope witness_facts) (to_raw witness_facts)
     = Ok witness_facts"
  by (rule validate_records_idempotent [OF witness_facts_validate])

text \<open>
  The order in which records arrive does not matter: a permutation of accepted records is
  accepted with the same result, as long as it can be encoded at all.
\<close>

theorem validate_records_order_irrelevant:
  assumes ok: "validate_records J spec scope records = Ok facts"
    and perm: "mset records' = mset records" and enc: "encodable J records'"
  shows "validate_records J spec scope records' = Ok facts"
proof -
  from ok have valid: "valid_facts spec scope records" by (simp add: validate_records_Ok_iff)
  have set_eq: "set records' = set records" by (rule mset_eq_setD [OF perm])
  have "mset (map record_key records') = mset (map record_key records)" by (simp add: perm)
  note mset_eq_imp_distinct_iff [OF this]
  then have dist: "distinct (map record_key records')"
    using valid by (simp add: valid_facts_def)
  have "sort_key record_key records' = sort_key record_key records"
  proof (rule map_sorted_distinct_set_unique [of record_key])
    show "inj_on record_key (set (sort_key record_key records') \<union> set (sort_key record_key records))"
      using valid by (simp add: set_eq valid_facts_def distinct_map)
  qed (use dist valid set_eq in \<open>simp_all only: distinct_sort_key sorted_sort_key valid_facts_def set_sort\<close>)
  then have "normalized spec records' = normalized spec records" by (simp add: normalized_def)
  moreover have "valid_facts spec scope records'"
    using valid dist by (simp add: valid_facts_def set_eq)
  moreover have "length records' = length records"
    using perm by (rule mset_eq_length)
  ultimately show ?thesis using ok enc by (simp add: validate_records_Ok_iff)
qed

theorem validate_records_order_irrelevant_witness:
  "validate_records plain_serde (CheckedAppSpec example_spec) witness_scope
     (rev (example_records witness_scope)) = Ok witness_facts"
proof (rule validate_records_order_irrelevant [OF witness_facts_validate])
  show "mset (rev (example_records witness_scope)) = mset (example_records witness_scope)" by simp
  show "encodable plain_serde (rev (example_records witness_scope))"
    unfolding encodable_def by code_simp
qed

section \<open>References of checked facts\<close>

lemma facts_ok_row:
  assumes "facts_ok J spec facts" and "row \<in> set (crs_records facts)"
  shows "record_ok spec (crs_scope facts) (record_key ` set (to_raw facts)) (as_raw row)"
    and "normalize_record spec (as_raw row) = as_raw row"
proof -
  have mem: "as_raw row \<in> set (to_raw facts)" using assms(2) by (simp add: to_raw_def)
  with assms(1) show "record_ok spec (crs_scope facts) (record_key ` set (to_raw facts)) (as_raw row)"
    by (simp add: facts_ok_iff valid_facts_def)
  from assms(1) have "set (normalized spec (to_raw facts)) = set (to_raw facts)" by (simp add: facts_ok_iff)
  with mem obtain r where "as_raw row = normalize_record spec r"
    by (auto simp: normalized_def)
  then show "normalize_record spec (as_raw row) = as_raw row" by simp
qed

lemma facts_ok_distinct:
  "facts_ok J spec facts \<Longrightarrow> distinct (map (\<lambda>r. (cr_table_id r, cr_id r)) (crs_records facts))"
  by (simp add: facts_ok_iff valid_facts_def to_raw_def record_key_def cr_defs comp_def)

lemma find_record_iff:
  assumes "facts_ok J spec facts"
  shows "find_record facts t r = Some row \<longleftrightarrow>
    row \<in> set (crs_records facts) \<and> cr_table_id row = t \<and> cr_id row = r"
proof
  assume row: "row \<in> set (crs_records facts) \<and> cr_table_id row = t \<and> cr_id row = r"
  with find_distinct_key [OF facts_ok_distinct [OF assms], of row]
  show "find_record facts t r = Some row" by (simp add: find_record_def)
qed (rule find_record_Some)

lemma find_record_exists:
  "(t, r) \<in> record_key ` set (to_raw facts) \<longleftrightarrow> find_record facts t r \<noteq> None"
  by (force simp: find_record_def find_None_iff to_raw_def record_key_def cr_defs)

lemma facts_ok_value:
  assumes ok: "facts_ok J spec facts" and row: "row \<in> set (crs_records facts)"
    and v: "bt_get (cr_values row) f = Some v"
  obtains field where "spec_field spec (cr_table_id row) f = Some field"
    and "value_ok spec (crs_scope facts) (record_key ` set (to_raw facts)) (cr_table_id row) field v"
proof -
  from facts_ok_row(1) [OF ok row] obtain table where
    table: "spec_table spec (cr_table_id row) = Some table"
    and keys: "set (bt_keys (cr_values row)) \<subseteq> fld_id ` set (tbl_fields table)"
    and vals: "\<forall>field\<in>set (tbl_fields table). value_ok spec (crs_scope facts)
        (record_key ` set (to_raw facts)) (cr_table_id row) field (row_value (as_raw row) (fld_id field))"
    by (auto simp: record_ok_def cr_defs)
  from v have "f \<in> fld_id ` set (tbl_fields table)"
    using keys by (auto simp: bt_contains_key_iff [symmetric] bt_contains_key_def)
  then obtain field where field: "List.find (\<lambda>x. fld_id x = f) (tbl_fields table) = Some field"
    using find_None_all [of "\<lambda>x. fld_id x = f" "tbl_fields table"] by fastforce
  then have "field \<in> set (tbl_fields table)" "fld_id field = f" by (auto dest: find_Some_mem)
  with vals v have "value_ok spec (crs_scope facts) (record_key ` set (to_raw facts)) (cr_table_id row) field v"
    by (force simp: row_value_def cr_defs)
  moreover have "spec_field spec (cr_table_id row) f = Some field"
    using field by (simp add: spec_field_def table)
  ultimately show ?thesis by (rule that [rotated])
qed

text \<open>
  Checked facts have no dangling reference: every reference stored in a row names a row of the
  table its field declares, in the same scope.
\<close>

theorem checked_facts_references_resolve:
  assumes "facts_ok J spec facts" and "row \<in> set (crs_records facts)"
    and "bt_get (cr_values row) f = Some (Ref r)"
  shows "ref_scope r = crs_scope facts
    \<and> spec_field_type spec (cr_table_id row) f = Some (FRef (ref_table_id r))
    \<and> find_record facts (ref_table_id r) (ref_record_id r) \<noteq> None"
proof -
  from facts_ok_value [OF assms] obtain field where "spec_field spec (cr_table_id row) f = Some field"
    and "value_ok spec (crs_scope facts) (record_key ` set (to_raw facts)) (cr_table_id row) field (Ref r)" .
  then show ?thesis
    by (auto simp: spec_field_type_def value_ok_def reference_ok_def find_record_exists)
qed

theorem checked_facts_references_resolve_witness:
  "\<exists>row\<in>set (crs_records witness_facts). \<exists>r.
     bt_get (cr_values row) (Ident ''fld_order_customer'') = Some (Ref r)
     \<and> ref_scope r = witness_scope \<and> find_record witness_facts (ref_table_id r) (ref_record_id r) \<noteq> None"
proof -
  let ?row = "CheckedRecord (normalize_record (CheckedAppSpec example_spec) (example_records witness_scope ! 1))"
  let ?ref = "\<lparr>ref_scope = witness_scope, ref_table_id = Ident ''tbl_customers'', ref_record_id = Ident ''rec_customer_1''\<rparr>"
  have ok: "facts_ok plain_serde (CheckedAppSpec example_spec) witness_facts"
    by (rule validate_records_facts_ok [OF witness_facts_validate])
  have row: "?row \<in> set (crs_records witness_facts)" by code_simp
  have get: "bt_get (cr_values ?row) (Ident ''fld_order_customer'') = Some (Ref ?ref)" by code_simp
  from checked_facts_references_resolve [OF ok row get] row get show ?thesis
    by (intro bexI [OF _ row] exI [of _ ?ref]) (auto simp: witness_facts_def)
qed

section \<open>Replacing rows\<close>

text \<open>\<open>iter_mut().find(...)\<close> over raw rows, then assignment through the found reference.\<close>

fun replace_row :: "raw_record list \<Rightarrow> raw_record \<Rightarrow> raw_record list option" where
  "replace_row [] w = None"
| "replace_row (row # rows) w =
     (if rec_table_id row = rec_table_id w \<and> rec_id row = rec_id w then Some (w # rows)
      else map_option ((#) row) (replace_row rows w))"

definition put_row :: "raw_record \<Rightarrow> raw_record list \<Rightarrow> raw_record list" where
  "put_row w rows = map (\<lambda>row. if record_key row = record_key w then w else row) rows"

lemma replace_row_Some_iff:
  assumes "distinct (map record_key rows)"
  shows "replace_row rows w = Some rows' \<longleftrightarrow> record_key w \<in> record_key ` set rows \<and> rows' = put_row w rows"
  using assms
proof (induction rows arbitrary: rows')
  case (Cons row rows)
  have key: "rec_table_id row = rec_table_id w \<and> rec_id row = rec_id w \<longleftrightarrow> record_key row = record_key w"
    by (auto simp: record_key_def)
  show ?case
  proof (cases "record_key row = record_key w")
    case True
    with Cons.prems have "map (\<lambda>row. if record_key row = record_key w then w else row) rows = rows"
      by (intro map_idI) (auto simp: rev_image_eqI)
    with True key show ?thesis by (auto simp: put_row_def)
  next
    case False
    with Cons key show ?thesis by (auto simp: put_row_def)
  qed
qed (simp add: put_row_def)

lemma keys_put_row: "map record_key (put_row w rows) = map record_key rows"
  by (simp add: put_row_def)

lemma set_put_row:
  "record_key w \<in> record_key ` set rows \<Longrightarrow>
     set (put_row w rows) = insert w {row \<in> set rows. record_key row \<noteq> record_key w}"
  by (auto simp: put_row_def image_iff)

text \<open>Replacing one row of checked facts and validating again changes that row and no other.\<close>

lemma validate_put_row:
  assumes ok: "facts_ok J spec facts" and key: "record_key w \<in> record_key ` set (to_raw facts)"
    and valid: "validate_records J spec (crs_scope facts) (put_row w (to_raw facts)) = Ok facts'"
  shows "find_record facts' t r =
    (if (t, r) = record_key w then Some (CheckedRecord (normalize_record spec w)) else find_record facts t r)"
proof -
  have ok': "facts_ok J spec facts'" by (rule validate_records_facts_ok [OF valid])
  have rows': "set (crs_records facts') = CheckedRecord ` normalize_record spec ` set (put_row w (to_raw facts))"
    using valid by (auto simp: validate_records_Ok_iff normalized_def)
  have keep: "CheckedRecord (normalize_record spec (as_raw row)) = row" if "row \<in> set (crs_records facts)" for row
    using facts_ok_row(2) [OF ok that] by simp
  have rows: "row \<in> set (crs_records facts') \<longleftrightarrow> row = CheckedRecord (normalize_record spec w)
      \<or> (row \<in> set (crs_records facts) \<and> record_key (as_raw row) \<noteq> record_key w)" for row
    unfolding rows' set_put_row [OF key] using keep by (force simp: to_raw_def image_iff)
  have "find_record facts' t r = Some row \<longleftrightarrow>
      (if (t, r) = record_key w then row = CheckedRecord (normalize_record spec w)
       else find_record facts t r = Some row)" for row
    unfolding find_record_iff [OF ok'] find_record_iff [OF ok] rows
    by (auto simp: cr_defs record_key_def)
  then show ?thesis by (metis not_None_eq)
qed

lemma to_raw_put_row:
  assumes ok: "facts_ok J spec facts"
    and valid: "validate_records J spec (crs_scope facts) (put_row w (to_raw facts)) = Ok facts'"
  shows "to_raw facts' = put_row (normalize_record spec w) (to_raw facts)"
proof -
  from ok have norm: "normalized spec (to_raw facts) = to_raw facts" by (simp add: facts_ok_iff)
  then have "sorted (map record_key (to_raw facts))" by (metis sorted_normalized)
  then have "sort_key record_key (put_row w (to_raw facts)) = put_row w (to_raw facts)"
    by (simp only: keys_put_row sort_key_id_if_sorted)
  moreover have "normalize_record spec row = row" if "row \<in> set (to_raw facts)" for row
    using facts_ok_row(2) [OF ok] that by (auto simp: to_raw_def)
  ultimately have "normalized spec (put_row w (to_raw facts)) = put_row (normalize_record spec w) (to_raw facts)"
    by (auto simp: normalized_def put_row_def)
  with valid show ?thesis by (auto simp: validate_records_Ok_iff)
qed

text \<open>Writing the normalized row instead makes no difference: it is what a store holds.\<close>

lemma validate_put_normalized:
  assumes "facts_ok J spec facts"
    and "validate_records J spec (crs_scope facts) (put_row w (to_raw facts)) = Ok facts'"
  shows "validate_records J spec (crs_scope facts) (put_row (normalize_record spec w) (to_raw facts)) = Ok facts'"
  using validate_records_facts_ok [OF assms(2)] to_raw_put_row [OF assms] validate_records_scope [OF assms(2)]
  by (simp add: facts_ok_def)

lemma normalized_row_get:
  assumes "normalize_record spec r = r" and "spec_table spec (rec_table_id r) = Some table"
  shows "bt_get (rec_values r) f = (if f \<in> fld_id ` set (tbl_fields table) then Some (row_value r f) else None)"
  using bt_get_normalize [OF assms(2), of f] by (simp add: assms(1))

lemma facts_ok_table:
  assumes "facts_ok J spec facts" and "row \<in> set (crs_records facts)"
  obtains table where "spec_table spec (cr_table_id row) = Some table"
  using facts_ok_row(1) [OF assms] by (auto simp: record_ok_def cr_defs)

lemma facts_ok_get:
  assumes "facts_ok J spec facts" and "row \<in> set (crs_records facts)"
    and "spec_table spec (cr_table_id row) = Some table"
  shows "bt_get (cr_values row) f = (if f \<in> fld_id ` set (tbl_fields table) then Some (row_value (as_raw row) f) else None)"
  using normalized_row_get [OF facts_ok_row(2) [OF assms(1,2)]] assms(3) by (simp add: cr_defs)

lemma spec_field_mem:
  "spec_field spec t f = Some field \<Longrightarrow> spec_table spec t = Some table \<Longrightarrow> f \<in> fld_id ` set (tbl_fields table)"
  using spec_field_Some [of spec t f field] by auto

end
