(* ===== verification/Cells.thy ===== *)
theory Cells
  imports Facts
begin

text \<open>
  The authoring projection \<open>parse_cell\<close> of \<open>crates/evobase-appspec/src/value.rs\<close>: the text a person
  types becomes a value of the field, or an error. It gives a value, never authority. Soundness: a
  parsed value has the field's type and its reference resolves. Completeness: every valid value has
  a spelling.
\<close>

section \<open>parse\_cell\<close>

text \<open>The closures \<open>invalid\<close> and \<open>integer\<close>.\<close>

definition invalid_cell :: "field_type \<Rightarrow> string \<Rightarrow> error" where
  "invalid_cell ft text = InvalidCell (field_type_name ft) text"

definition integer_text :: "string \<Rightarrow> bool" where
  "integer_text text \<longleftrightarrow>
     list_all (\<lambda>(i, c). is_ascii_digit c \<or> (i = 0 \<and> c = CHR ''-'')) (List.enumerate 0 text)"

definition parse_cell_integer :: "field_type \<Rightarrow> string \<Rightarrow> (error, i64) outcome" where
  "parse_cell_integer ft text =
     (if \<not> integer_text text then Err (invalid_cell ft text)
      else map_err (\<lambda>e. case e of IntOverflow \<Rightarrow> Overflow (field_type_name ft) | _ \<Rightarrow> invalid_cell ft text)
             (parse_i64 text))"

text \<open>A reference is typed as a record identity, or as the label of exactly one row.\<close>

definition parse_record_id :: "scope \<Rightarrow> table_id \<Rightarrow> string \<Rightarrow> raw_record list \<Rightarrow> (error, record_id) outcome" where
  "parse_record_id scope target text records =
     and_then (record_id_new text) (\<lambda>i.
       if list_ex (\<lambda>r. rec_scope r = scope \<and> rec_table_id r = target \<and> rec_id r = i) records then Ok i
       else case List.find (\<lambda>r. rec_id r = i) records of
         Some other \<Rightarrow>
           if rec_scope other \<noteq> scope then Err (CrossScope i)
           else Err (WrongReferenceTable i target (rec_table_id other))
       | None \<Rightarrow> Err (MissingReference target i))"

definition display_field :: "raw_table \<Rightarrow> raw_field option" where
  "display_field target =
     (case List.find (\<lambda>f. fld_type f = FText \<and> ends_with (as_str (fld_id f)) ''_name'') (tbl_fields target) of
        Some f \<Rightarrow> Some f
      | None \<Rightarrow> List.find (\<lambda>f. fld_type f = FText) (tbl_fields target))"

definition label_matches :: "scope \<Rightarrow> table_id \<Rightarrow> raw_field option \<Rightarrow> string \<Rightarrow> raw_record \<Rightarrow> bool" where
  "label_matches scope target display text r \<longleftrightarrow>
     rec_scope r = scope \<and> rec_table_id r = target
       \<and> (case display of None \<Rightarrow> False | Some field \<Rightarrow> bt_get (rec_values r) (fld_id field) = Some (Text text))"

definition parse_label ::
  "checked_app_spec \<Rightarrow> scope \<Rightarrow> field_type \<Rightarrow> table_id \<Rightarrow> string \<Rightarrow> raw_record list \<Rightarrow> (error, record_id) outcome"
where
  "parse_label spec scope ft target text records =
     and_then (expect (spec_table spec target)) (\<lambda>table.
       case filter (label_matches scope target (display_field table) text) records of
         [] \<Rightarrow> Err (invalid_cell ft text)
       | [first] \<Rightarrow> Ok (rec_id first)
       | _ \<Rightarrow> Err (AmbiguousReference target text))"

definition parse_reference ::
  "checked_app_spec \<Rightarrow> scope \<Rightarrow> field_type \<Rightarrow> table_id \<Rightarrow> string \<Rightarrow> raw_record list \<Rightarrow> (error, value) outcome"
where
  "parse_reference spec scope ft target text records =
     (if length records > MAX_RECORDS then Err (LimitExceeded ''records'' MAX_RECORDS)
      else and_then (if starts_with text ''rec_'' then parse_record_id scope target text records
                     else parse_label spec scope ft target text records)
        (\<lambda>i. Ok (Ref \<lparr>ref_scope = scope, ref_table_id = target, ref_record_id = i\<rparr>)))"

definition bounded_text :: "string \<Rightarrow> (error, value) outcome" where
  "bounded_text text =
     (if length text > MAX_TEXT_BYTES then Err (LimitExceeded ''text bytes'' MAX_TEXT_BYTES)
      else Ok (Text text))"

definition parse_present ::
  "checked_app_spec \<Rightarrow> scope \<Rightarrow> field_type \<Rightarrow> string \<Rightarrow> raw_record list \<Rightarrow> (error, value) outcome" where
  "parse_present spec scope ft text records =
     (case ft of
        FText \<Rightarrow> bounded_text text
      | FInteger \<Rightarrow> and_then (parse_cell_integer ft text) (\<lambda>n. Ok (Integer n))
      | FMoney \<Rightarrow> and_then (parse_cell_integer ft text) (\<lambda>n. Ok (Money n))
      | FBool \<Rightarrow> if text = ''true'' then Ok (Bool True) else if text = ''false'' then Ok (Bool False)
                 else Err (invalid_cell ft text)
      | FRef target \<Rightarrow> parse_reference spec scope ft target text records)"

definition parse_cell ::
  "checked_app_spec \<Rightarrow> scope \<Rightarrow> table_id \<Rightarrow> field_id \<Rightarrow> string \<Rightarrow> raw_record list \<Rightarrow> (error, value) outcome"
where
  "parse_cell spec scope table field text records =
     (if app_id scope \<noteq> spec_app_id spec then Err (WrongApp (spec_app_id spec) (app_id scope))
      else and_then (ok_or (UnknownField table field) (spec_field spec table field)) (\<lambda>def.
        case (if fld_type def = FText then strip_prefix text ''text:'' else None) of
          Some literal \<Rightarrow> bounded_text literal
        | None \<Rightarrow>
            if text = [] then Ok Blank
            else if text = ''null'' then Ok Null
            else parse_present spec scope (fld_type def) text records))"

section \<open>Soundness\<close>

text \<open>What a parsed value satisfies; requiredness and constraints are left to the final validation.\<close>

definition scoped_keys :: "scope \<Rightarrow> raw_record list \<Rightarrow> (table_id \<times> record_id) set" where
  "scoped_keys scope records = record_key ` {r \<in> set records. rec_scope r = scope}"

definition cell_ok :: "scope \<Rightarrow> raw_record list \<Rightarrow> field_type \<Rightarrow> value \<Rightarrow> bool" where
  "cell_ok scope records ft v \<longleftrightarrow>
     (absent v \<or> value_correct ft v)
     \<and> (\<forall>s. v = Text s \<longrightarrow> length s \<le> MAX_TEXT_BYTES)
     \<and> reference_ok scope (scoped_keys scope records) ft v"

lemma scoped_keysI:
  "r \<in> set records \<Longrightarrow> rec_scope r = scope \<Longrightarrow> (rec_table_id r, rec_id r) \<in> scoped_keys scope records"
  by (auto simp: scoped_keys_def record_key_def)

lemma parse_record_id_Ok:
  "parse_record_id scope target text records = Ok i \<Longrightarrow> (target, i) \<in> scoped_keys scope records"
  by (auto simp: parse_record_id_def and_then_Ok_iff list_ex_iff split: if_splits option.splits
      intro: scoped_keysI)

lemma parse_label_Ok:
  assumes "parse_label spec scope ft target text records = Ok i"
  shows "(target, i) \<in> scoped_keys scope records"
proof -
  from assms obtain table where
    "(case filter (label_matches scope target (display_field table) text) records of
        [] \<Rightarrow> Err (invalid_cell ft text) | [first] \<Rightarrow> Ok (rec_id first)
      | _ \<Rightarrow> Err (AmbiguousReference target text)) = Ok i"
    by (auto simp: parse_label_def and_then_Ok_iff)
  then obtain r where
    "filter (label_matches scope target (display_field table) text) records = [r]" and "i = rec_id r"
    by (cases "filter (label_matches scope target (display_field table) text) records" rule: remdups_adj.cases)
      auto
  then have "r \<in> set records" "rec_scope r = scope" "rec_table_id r = target"
    by (auto simp: label_matches_def filter_eq_Cons_iff)
  with \<open>i = rec_id r\<close> show ?thesis by (auto intro: scoped_keysI)
qed

lemma bounded_text_Ok: "bounded_text s = Ok v \<longleftrightarrow> v = Text s \<and> length s \<le> MAX_TEXT_BYTES"
  by (auto simp: bounded_text_def)

lemma parse_reference_Ok:
  "parse_reference spec scope ft target text records = Ok v \<Longrightarrow>
     \<exists>i. v = Ref \<lparr>ref_scope = scope, ref_table_id = target, ref_record_id = i\<rparr>
       \<and> (target, i) \<in> scoped_keys scope records"
  by (auto simp: parse_reference_def and_then_Ok_iff dest: parse_record_id_Ok parse_label_Ok
      split: if_splits)

text \<open>
  Whatever is typed, a parsed cell fits its field: it is blank, null or of the field's type, a
  text is within the limit, and a reference names an existing record of the selected scope in the
  table the field points to.
\<close>

theorem parse_cell_sound:
  assumes "parse_cell spec scope table field text records = Ok v"
  shows "\<exists>def. spec_field spec table field = Some def \<and> cell_ok scope records (fld_type def) v"
proof -
  from assms obtain def where field: "spec_field spec table field = Some def"
    by (auto simp: parse_cell_def outcome_simps)
  have "cell_ok scope records (fld_type def) v"
  proof (cases "absent v")
    case True
    then show ?thesis by (auto simp: cell_ok_def reference_ok_def absent_iff)
  next
    case False
    with assms field show ?thesis
      by (auto simp: parse_cell_def parse_present_def cell_ok_def reference_ok_def outcome_simps
          bounded_text_Ok split: if_splits option.splits field_type.splits dest!: parse_reference_Ok)
  qed
  with field show ?thesis by blast
qed

theorem parse_cell_sound_witness:
  "cell_ok witness_scope (example_records witness_scope) (FRef (Ident ''tbl_customers''))
     (Ref \<lparr>ref_scope = witness_scope, ref_table_id = Ident ''tbl_customers'', ref_record_id = Ident ''rec_customer_1''\<rparr>)"
proof -
  have parsed: "parse_cell (CheckedAppSpec example_spec) witness_scope (Ident ''tbl_orders'')
      (Ident ''fld_order_customer'') ''Ada'' (example_records witness_scope) =
    Ok (Ref \<lparr>ref_scope = witness_scope, ref_table_id = Ident ''tbl_customers'', ref_record_id = Ident ''rec_customer_1''\<rparr>)"
    by code_simp
  have ft: "spec_field_type (CheckedAppSpec example_spec) (Ident ''tbl_orders'') (Ident ''fld_order_customer'')
      = Some (FRef (Ident ''tbl_customers''))"
    by code_simp
  from parse_cell_sound [OF parsed] ft show ?thesis by (auto simp: spec_field_type_def)
qed

section \<open>Completeness\<close>

definition show_i64 :: "i64 \<Rightarrow> string" where
  "show_i64 n = (if sint n < 0 then CHR ''-'' # show_nat (nat (- sint n)) else show_nat (nat (sint n)))"

text \<open>A spelling of a value: texts are always escaped, references are typed as identities.\<close>

fun cell_text :: "value \<Rightarrow> string" where
  "cell_text Blank = []"
| "cell_text Null = ''null''"
| "cell_text (Text s) = ''text:'' @ s"
| "cell_text (Integer n) = show_i64 n"
| "cell_text (Money n) = show_i64 n"
| "cell_text (Bool b) = (if b then ''true'' else ''false'')"
| "cell_text (Ref r) = as_str (ref_record_id r)"

lemma show_nat_hd:
  obtains c cs where "show_nat n = c # cs" and "is_ascii_digit c" and "c \<noteq> CHR ''+''" and "c \<noteq> CHR ''-''"
proof -
  obtain c cs where s: "show_nat n = c # cs" by (cases "show_nat n") auto
  then have "is_ascii_digit c" using show_nat_digits [of n] by simp
  with s show ?thesis by (intro that) (auto simp: is_ascii_digit_def)
qed

lemma parse_digits_neg:
  assumes "\<forall>c\<in>set s. is_ascii_digit c"
    and "\<And>m. m \<le> 0 \<Longrightarrow> - int (foldl (\<lambda>n c. 10 * n + digit_value c) n s) \<le> m \<Longrightarrow> ok m"
  shows "parse_digits ok (-1) (- int n) s = Ok (- int (foldl (\<lambda>n c. 10 * n + digit_value c) n s))"
  using assms
proof (induction s arbitrary: n)
  case (Cons c s)
  let ?n = "10 * n + digit_value c"
  have le: "?n \<le> foldl (\<lambda>n c. 10 * n + digit_value c) ?n s" by (rule foldl_digits_ge)
  have "ok (- int n * 10)" "ok (- int ?n)"
    using le by (auto intro!: Cons.prems(2))
  moreover have eq: "- int n * 10 + -1 * int (digit_value c) = - int ?n" by simp
  moreover have "parse_digits ok (-1) (- int ?n) s = Ok (- int (foldl (\<lambda>n c. 10 * n + digit_value c) ?n s))"
    by (rule Cons.IH) (use Cons.prems in auto)
  ultimately show ?case using Cons.prems(1) by (simp only: parse_digits.simps eq) simp
qed simp

lemma parse_i64_show_i64: "parse_i64 (show_i64 n) = Ok n"
proof (cases "sint n < 0")
  case True
  let ?m = "nat (- sint n)"
  have "parse_digits i64_range (-1) (- int 0) (show_nat ?m) = Ok (- int (digits_value (show_nat ?m)))"
    unfolding digits_value_def
  proof (rule parse_digits_neg [OF show_nat_digits])
    fix m :: int
    assume "m \<le> 0" "- int (foldl (\<lambda>n c. 10 * n + digit_value c) 0 (show_nat ?m)) \<le> m"
    then have "sint n \<le> m" using True by (simp flip: digits_value_def)
    with \<open>m \<le> 0\<close> sint_i64_range [of n] show "i64_range m" by (simp add: i64_range_def)
  qed
  with True have "parse_digits i64_range (-1) 0 (show_nat ?m) = Ok (sint n)" by simp
  with True show ?thesis by (simp add: show_i64_def parse_i64_def)
next
  case False
  let ?m = "nat (sint n)"
  obtain c cs where s: "show_nat ?m = c # cs" and c: "c \<noteq> CHR ''+''" "c \<noteq> CHR ''-''"
    by (rule show_nat_hd)
  have "parse_digits i64_range 1 (int 0) (show_nat ?m) = Ok (int (digits_value (show_nat ?m)))"
    unfolding digits_value_def
  proof (rule parse_digits_pos [OF show_nat_digits])
    fix m :: int
    assume "0 \<le> m" "m \<le> int (foldl (\<lambda>n c. 10 * n + digit_value c) 0 (show_nat ?m))"
    then have "m \<le> sint n" using False by (simp flip: digits_value_def)
    with \<open>0 \<le> m\<close> sint_i64_range [of n] show "i64_range m" by (simp add: i64_range_def)
  qed
  with False have "parse_digits i64_range 1 0 (c # cs) = Ok (sint n)" by (simp flip: s)
  with False c show ?thesis by (simp add: show_i64_def parse_i64_def s)
qed

lemma show_i64_hd: "\<exists>c cs. show_i64 n = c # cs \<and> (is_ascii_digit c \<or> c = CHR ''-'')"
  unfolding show_i64_def using show_nat_hd by (metis (full_types))

lemma integer_text_show_i64: "integer_text (show_i64 n)"
proof -
  have digit: "(i, c) \<in> set (List.enumerate k (show_nat m)) \<Longrightarrow> is_ascii_digit c" for i c k m
    using show_nat_digits [of m] by (auto simp: in_set_enumerate_eq)
  show ?thesis
    by (auto simp: integer_text_def show_i64_def list_all_iff dest: digit)
qed

lemma parse_cell_integer_show: "parse_cell_integer ft (show_i64 n) = Ok n"
  by (simp add: parse_cell_integer_def integer_text_show_i64 parse_i64_show_i64)

lemma show_i64_plain: "show_i64 n \<noteq> []" "show_i64 n \<noteq> ''null''"
  using show_i64_hd [of n] by (auto simp: is_ascii_digit_def)

text \<open>
  Every value a field can hold can be typed: a value that fits its field, with a well-formed
  identity where it is a reference, has a spelling that \<open>parse_cell\<close> reads back as that value. In
  particular the reserved words are no obstacle, because \<open>text:\<close> escapes them.
\<close>

theorem parse_cell_complete:
  assumes "app_id scope = spec_app_id spec" and "spec_field spec table field = Some def"
    and "cell_ok scope records (fld_type def) v" and "length records \<le> MAX_RECORDS"
    and "\<forall>r. v = Ref r \<longrightarrow> record_id_new (as_str (ref_record_id r)) = Ok (ref_record_id r)"
  shows "parse_cell spec scope table field (cell_text v) records = Ok v"
proof (cases v)
  case (Ref r)
  from assms(3) Ref have ft: "fld_type def = FRef (ref_table_id r)" and sc: "ref_scope r = scope"
    and key: "(ref_table_id r, ref_record_id r) \<in> scoped_keys scope records"
    by (auto simp: cell_ok_def reference_ok_def)
  from assms(5) Ref have new: "record_id_new (as_str (ref_record_id r)) = Ok (ref_record_id r)" by blast
  then have pre: "starts_with (as_str (ref_record_id r)) ''rec_''"
    by (simp add: record_id_new_def ident_new_Ok_iff)
  from key have "list_ex (\<lambda>x. rec_scope x = scope \<and> rec_table_id x = ref_table_id r \<and> rec_id x = ref_record_id r) records"
    by (auto simp: scoped_keys_def record_key_def list_ex_iff)
  with new have "parse_record_id scope (ref_table_id r) (as_str (ref_record_id r)) records = Ok (ref_record_id r)"
    by (simp add: parse_record_id_def)
  moreover from pre have "as_str (ref_record_id r) \<noteq> []" "as_str (ref_record_id r) \<noteq> ''null''"
    by (auto simp: starts_with_def)
  ultimately show ?thesis
    using assms(1,2,4) pre ft sc Ref
    by (simp add: parse_cell_def parse_present_def parse_reference_def)
next
  case (Text s)
  with assms have "fld_type def = FText" "length s \<le> MAX_TEXT_BYTES"
    by (cases "fld_type def"; simp add: cell_ok_def)+
  with Text assms(1,2) show ?thesis
    using strip_prefix_append [of "''text:''" s] by (simp add: parse_cell_def bounded_text_def)
next
  case (Integer n)
  with assms have "fld_type def = FInteger" by (cases "fld_type def"; simp add: cell_ok_def)
  with Integer assms(1,2) show ?thesis
    by (simp add: parse_cell_def parse_present_def parse_cell_integer_show show_i64_plain)
next
  case (Money n)
  with assms have "fld_type def = FMoney" by (cases "fld_type def"; simp add: cell_ok_def)
  with Money assms(1,2) show ?thesis
    by (simp add: parse_cell_def parse_present_def parse_cell_integer_show show_i64_plain)
next
  case (Bool b)
  with assms have "fld_type def = FBool" by (cases "fld_type def"; simp add: cell_ok_def)
  with Bool assms(1,2) show ?thesis
    by (simp add: parse_cell_def parse_present_def)
qed (use assms(1,2) in \<open>auto simp: parse_cell_def strip_prefix_def starts_with_def\<close>)

theorem parse_cell_complete_witness:
  "parse_cell (CheckedAppSpec example_spec) witness_scope (Ident ''tbl_products'') (Ident ''fld_product_price'')
     (cell_text (Money (- 9223372036854775808))) (example_records witness_scope)
     = Ok (Money (- 9223372036854775808))"
proof (rule parse_cell_complete)
  show "app_id witness_scope = spec_app_id (CheckedAppSpec example_spec)" by code_simp
  show "spec_field (CheckedAppSpec example_spec) (Ident ''tbl_products'') (Ident ''fld_product_price'')
      = Some (fixture_field ''fld_product_price'' ''Price'' True FMoney)" by code_simp
  show "length (example_records witness_scope) \<le> MAX_RECORDS" by code_simp
qed (auto simp: cell_ok_def reference_ok_def fixture_field_def)

end
