(* ===== verification/Authority.thy ===== *)
theory Authority
  imports Facts
begin

text \<open>
  Host authority (\<open>crates/evobase-appspec/src/policy.rs\<close>): the trait \<open>SessionVerifier\<close>, a record of
  the adapter's answers at one instant, and \<open>HostAuthority::resolve\<close>. The adapter itself is outside
  the core: an operation that resolves twice takes one record per resolution, so nothing is assumed
  about two readings agreeing.
\<close>

section \<open>Facts of a trusted host\<close>

datatype grant = Design | Publish | Manage | Read | Write | Submit

fun grant_rank :: "grant \<Rightarrow> nat" where
  "grant_rank Design = 0"
| "grant_rank Publish = 1"
| "grant_rank Manage = 2"
| "grant_rank Read = 3"
| "grant_rank Write = 4"
| "grant_rank Submit = 5"

lemma grant_rank_inject: "grant_rank a = grant_rank b \<longleftrightarrow> a = b"
  by (cases a; cases b) auto

instantiation grant :: linorder
begin

definition less_eq_grant :: "grant \<Rightarrow> grant \<Rightarrow> bool" where
  "less_eq_grant a b \<longleftrightarrow> grant_rank a \<le> grant_rank b"

definition less_grant :: "grant \<Rightarrow> grant \<Rightarrow> bool" where
  "less_grant a b \<longleftrightarrow> grant_rank a < grant_rank b"

instance
  by standard (auto simp: less_eq_grant_def less_grant_def grant_rank_inject)

end

record session_facts =
  ses_actor :: actor_id
  ses_expires_at :: u64
  ses_revoked :: bool

record membership_facts =
  mem_actor :: actor_id
  mem_scope :: scope
  mem_active :: bool
  mem_revision :: u64
  mem_grants :: "grant btree_set"
  mem_roles :: "role_id btree_set"

record binding_facts =
  bnd_scope :: scope
  bnd_binding_id :: string
  bnd_allowed_mutation_origins :: "string btree_set"

record session_verifier =
  current_time :: "u64 \<Rightarrow> u64"
  verify_session :: "string \<Rightarrow> (authority_error, session_facts) outcome"
  current_membership :: "actor_id \<Rightarrow> scope \<Rightarrow> (authority_error, membership_facts) outcome"
  registry_binding :: "scope \<Rightarrow> (authority_error, binding_facts) outcome"
  access_snapshot ::
    "string \<Rightarrow> scope \<Rightarrow> (authority_error, session_facts \<times> membership_facts \<times> binding_facts) outcome"

text \<open>The trait's default methods.\<close>

definition default_current_time :: "u64 \<Rightarrow> u64" where
  "default_current_time provided_now = provided_now"

definition default_access_snapshot ::
  "(string \<Rightarrow> (authority_error, session_facts) outcome) \<Rightarrow>
   (actor_id \<Rightarrow> scope \<Rightarrow> (authority_error, membership_facts) outcome) \<Rightarrow>
   (scope \<Rightarrow> (authority_error, binding_facts) outcome) \<Rightarrow>
   string \<Rightarrow> scope \<Rightarrow> (authority_error, session_facts \<times> membership_facts \<times> binding_facts) outcome" where
  "default_access_snapshot verify membership binding credential scope =
     and_then (verify credential) (\<lambda>session.
     and_then (membership (ses_actor session) scope) (\<lambda>member.
     and_then (binding scope) (\<lambda>bound. Ok (session, member, bound))))"

datatype request_channel = NativeBearer | BrowserMutation "string option"

record trusted_context =
  ctx_actor :: actor_id
  ctx_scope :: scope
  ctx_roles :: "role_id btree_set"
  ctx_membership_revision :: u64
  ctx_binding_id :: string

section \<open>resolve\<close>

definition origin_allowed :: "binding_facts \<Rightarrow> request_channel \<Rightarrow> bool" where
  "origin_allowed binding channel =
     (case channel of
        NativeBearer \<Rightarrow> True
      | BrowserMutation origin \<Rightarrow>
          (case origin of None \<Rightarrow> False
           | Some v \<Rightarrow> bs_contains (bnd_allowed_mutation_origins binding) v))"

definition check_access ::
  "scope \<Rightarrow> request_channel \<Rightarrow> u64 \<Rightarrow> grant \<Rightarrow> session_facts \<Rightarrow> membership_facts \<Rightarrow> binding_facts \<Rightarrow>
     (authority_error, trusted_context) outcome" where
  "check_access scope channel now grant session membership binding =
     (if ses_revoked session then Err Revoked
      else if now \<ge> ses_expires_at session then Err Expired
      else if mem_actor membership \<noteq> ses_actor session \<or> mem_scope membership \<noteq> scope then Err WrongScope
      else if \<not> mem_active membership \<or> mem_revision membership = 0 then Err Revoked
      else if \<not> bs_contains (mem_grants membership) grant then Err MissingGrant
      else if bnd_scope binding \<noteq> scope then Err WrongScope
      else if bnd_binding_id binding = [] \<or> length (bnd_binding_id binding) > 96 then Err BindingUnavailable
      else if \<not> origin_allowed binding channel then Err OriginDenied
      else Ok \<lparr>ctx_actor = ses_actor session, ctx_scope = scope, ctx_roles = mem_roles membership,
               ctx_membership_revision = mem_revision membership,
               ctx_binding_id = bnd_binding_id binding\<rparr>)"

definition resolve ::
  "session_verifier \<Rightarrow> string \<Rightarrow> scope \<Rightarrow> request_channel \<Rightarrow> u64 \<Rightarrow> grant \<Rightarrow>
     (authority_error, trusted_context) outcome" where
  "resolve V credential scope channel now grant =
     (if credential = [] then Err MissingSession
      else let now = current_time V now in
        and_then (access_snapshot V credential scope) (\<lambda>(session, membership, binding).
        check_access scope channel now grant session membership binding))"

section \<open>What a trusted context attests\<close>

lemma check_access_not_Panic [simp]: "check_access s ch n g a b c \<noteq> Panic"
  by (simp add: check_access_def)

lemma check_access_Ok_iff:
  "check_access scope channel now grant session membership binding = Ok ctx \<longleftrightarrow>
     \<not> ses_revoked session \<and> now < ses_expires_at session
     \<and> mem_actor membership = ses_actor session \<and> mem_scope membership = scope
     \<and> mem_active membership \<and> mem_revision membership \<noteq> 0
     \<and> grant \<in> set (bs_list (mem_grants membership))
     \<and> bnd_scope binding = scope \<and> bnd_binding_id binding \<noteq> [] \<and> length (bnd_binding_id binding) \<le> 96
     \<and> origin_allowed binding channel
     \<and> ctx = \<lparr>ctx_actor = ses_actor session, ctx_scope = scope, ctx_roles = mem_roles membership,
             ctx_membership_revision = mem_revision membership, ctx_binding_id = bnd_binding_id binding\<rparr>"
  by (auto simp: check_access_def bs_contains_iff)

lemma resolve_Ok_iff:
  "resolve V credential scope channel now grant = Ok ctx \<longleftrightarrow> credential \<noteq> []
     \<and> (\<exists>session membership binding.
          access_snapshot V credential scope = Ok (session, membership, binding)
          \<and> check_access scope channel (current_time V now) grant session membership binding = Ok ctx)"
  by (auto simp: resolve_def and_then_Ok_iff split: prod.splits)

lemma resolve_scope: "resolve V credential scope channel now grant = Ok ctx \<Longrightarrow> ctx_scope ctx = scope"
  by (auto simp: resolve_Ok_iff check_access_Ok_iff)

text \<open>
  A context is issued for exactly one situation: a presented credential whose session is neither
  revoked nor expired at the host's own clock, an active membership of that very actor in that very
  scope holding the requested grant, and a usable binding of the scope; a browser mutation further
  needs an origin the binding lists. The context repeats those facts and adds nothing to them.
\<close>

theorem resolve_attests:
  "resolve V credential scope channel now grant = Ok ctx \<longleftrightarrow>
     credential \<noteq> [] \<and> (\<exists>session membership binding.
       access_snapshot V credential scope = Ok (session, membership, binding)
       \<and> \<not> ses_revoked session \<and> current_time V now < ses_expires_at session
       \<and> mem_actor membership = ses_actor session \<and> mem_scope membership = scope
       \<and> mem_active membership \<and> mem_revision membership \<noteq> 0
       \<and> grant \<in> set (bs_list (mem_grants membership))
       \<and> bnd_scope binding = scope \<and> bnd_binding_id binding \<noteq> [] \<and> length (bnd_binding_id binding) \<le> 96
       \<and> (case channel of NativeBearer \<Rightarrow> True
          | BrowserMutation origin \<Rightarrow> (\<exists>x. origin = Some x
              \<and> x \<in> set (bs_list (bnd_allowed_mutation_origins binding))))
       \<and> ctx = \<lparr>ctx_actor = ses_actor session, ctx_scope = scope, ctx_roles = mem_roles membership,
               ctx_membership_revision = mem_revision membership, ctx_binding_id = bnd_binding_id binding\<rparr>)"
proof -
  have origin: "origin_allowed binding channel \<longleftrightarrow> (case channel of NativeBearer \<Rightarrow> True
      | BrowserMutation origin \<Rightarrow> (\<exists>x. origin = Some x
          \<and> x \<in> set (bs_list (bnd_allowed_mutation_origins binding))))" for binding
    by (simp add: origin_allowed_def bs_contains_iff split: request_channel.split option.split)
  show ?thesis
    unfolding resolve_Ok_iff check_access_Ok_iff origin by blast
qed

section \<open>A fixture host\<close>

text \<open>One active member with every grant, used by the witnesses.\<close>

definition fixture_session :: "string \<Rightarrow> session_facts" where
  "fixture_session actor = \<lparr>ses_actor = Ident actor, ses_expires_at = 100, ses_revoked = False\<rparr>"

definition fixture_membership :: "scope \<Rightarrow> string \<Rightarrow> membership_facts" where
  "fixture_membership scope actor =
     \<lparr>mem_actor = Ident actor, mem_scope = scope, mem_active = True, mem_revision = 7,
      mem_grants = bs_of_list [Design, Publish, Manage, Read, Write, Submit], mem_roles = bt_empty\<rparr>"

definition fixture_binding :: "scope \<Rightarrow> binding_facts" where
  "fixture_binding scope = \<lparr>bnd_scope = scope, bnd_binding_id = ''binding_main'',
     bnd_allowed_mutation_origins = bs_of_list [''https://app.example'']\<rparr>"

definition fixture_host :: "scope \<Rightarrow> string \<Rightarrow> session_verifier" where
  "fixture_host scope actor =
     (let verify = (\<lambda>credential. if credential = ''secret'' then Ok (fixture_session actor) else Err Unverified);
          membership = (\<lambda>who where. Ok (fixture_membership scope actor));
          binding = (\<lambda>where. Ok (fixture_binding scope))
      in \<lparr>current_time = default_current_time, verify_session = verify, current_membership = membership,
          registry_binding = binding,
          access_snapshot = default_access_snapshot verify membership binding\<rparr>)"

end
