(* ===== verification/Policy.thy ===== *)
theory Policy
  imports Authority
begin

text \<open>
  Owner/role policies and projections (\<open>crates/evobase-appspec/src/policy.rs\<close>): the checked policy,
  the row and field predicates, the filtered read operations, and the functions behind
  \<open>CurrentOutputPolicy\<close> that the relation adapter calls.
\<close>

datatype policy_error =
    Authority authority_error
  | PolicyNotValid
  | ScopeMismatch
  | Denied
  | InvalidInput
  | ImmutableField
  | NotDraft
  | EmptyOrder
  | InvalidQuantity
  | IntentConflict
  | NumericOverflow

section \<open>The checked policy\<close>

record owner_role_policy =
  orp_definition :: checked_app_spec
  orp_app_id :: app_id
  orp_rule :: raw_owner_role_policy

definition policy_check ::
  "checked_app_spec \<Rightarrow> raw_owner_role_policy \<Rightarrow> (policy_error, owner_role_policy) outcome" where
  "policy_check spec rule =
     (if \<not> is_ok (bounded_id (pol_rule_id rule) ''rule_'')
         \<or> rule \<notin> set (app_policies (spec_def spec))
         \<or> pol_revision rule = 0
         \<or> bt_len (pol_read_fields rule) > 256
         \<or> bt_len (pol_read_roles rule) > 64
         \<or> bt_len (pol_write_roles rule) > 64
         \<or> bt_len (pol_submit_roles rule) > 64
         \<or> spec_field_type spec (pol_table_id rule) (pol_owner_field rule) \<noteq> Some FText
         \<or> list_ex (\<lambda>field. case spec_field_type spec (pol_table_id rule) field of
              None \<Rightarrow> True | Some (FRef _) \<Rightarrow> True | Some _ \<Rightarrow> False) (bs_list (pol_read_fields rule))
      then Err PolicyNotValid
      else Ok \<lparr>orp_definition = spec, orp_app_id = spec_app_id spec, orp_rule = rule\<rparr>)"

definition orp_rule_id :: "owner_role_policy \<Rightarrow> string" where
  "orp_rule_id policy = pol_rule_id (orp_rule policy)"
definition orp_revision :: "owner_role_policy \<Rightarrow> u64" where
  "orp_revision policy = pol_revision (orp_rule policy)"
definition orp_table_id :: "owner_role_policy \<Rightarrow> table_id" where
  "orp_table_id policy = pol_table_id (orp_rule policy)"
definition orp_owner_field :: "owner_role_policy \<Rightarrow> field_id" where
  "orp_owner_field policy = pol_owner_field (orp_rule policy)"

lemmas orp_defs = orp_rule_id_def orp_revision_def orp_table_id_def orp_owner_field_def

definition orp_roles :: "owner_role_policy \<Rightarrow> grant \<Rightarrow> role_id btree_set" where
  "orp_roles policy grant =
     (case grant of
        Read \<Rightarrow> pol_read_roles (orp_rule policy)
      | Submit \<Rightarrow> pol_submit_roles (orp_rule policy)
      | _ \<Rightarrow> pol_write_roles (orp_rule policy))"

text \<open>\<open>[String]::join\<close>.\<close>

fun join_with :: "string \<Rightarrow> string list \<Rightarrow> string" where
  "join_with sep [] = []"
| "join_with sep [x] = x"
| "join_with sep (x # xs) = x @ sep @ join_with sep xs"

definition orp_sentence :: "owner_role_policy \<Rightarrow> grant \<Rightarrow> string" where
  "orp_sentence policy grant =
     (let roles = join_with '', '' (map as_str (bs_list (orp_roles policy grant))) in
      orp_rule_id policy @ '': '' @ as_str (orp_owner_field policy) @
        '' equals the current verified actor or current role is one of ['' @ roles @ '']'')"

definition allows :: "owner_role_policy \<Rightarrow> trusted_context \<Rightarrow> checked_record \<Rightarrow> grant \<Rightarrow> bool" where
  "allows policy context row grant \<longleftrightarrow>
     cr_scope row = ctx_scope context
     \<and> cr_table_id row = orp_table_id policy
     \<and> ((case bt_get (cr_values row) (orp_owner_field policy) of
           Some (Text owner) \<Rightarrow> owner = as_str (ctx_actor context)
         | _ \<Rightarrow> False)
        \<or> list_ex (bs_contains (ctx_roles context)) (bs_list (orp_roles policy grant)))"

definition check_scope ::
  "serde \<Rightarrow> owner_role_policy \<Rightarrow> scope \<Rightarrow> checked_records \<Rightarrow> (policy_error, unit) outcome" where
  "check_scope J policy scope facts =
     (if app_id scope \<noteq> orp_app_id policy \<or> crs_scope facts \<noteq> scope then Err ScopeMismatch
      else and_then (map_err (\<lambda>_. ScopeMismatch)
                       (validate_records J (orp_definition policy) scope (to_raw facts)))
        (\<lambda>_. Ok ()))"

section \<open>Projections\<close>

datatype projection_purpose = Query | Picker | Lookup | Export

record visible_record =
  vis_id :: record_id
  vis_values :: "(field_id, value) btree_map"

record checked_projection =
  prj_rows :: "visible_record list"
  prj_purpose :: projection_purpose
  prj_membership_revision :: u64
  prj_policy_revision :: u64

definition visible_record :: "owner_role_policy \<Rightarrow> checked_record \<Rightarrow> visible_record" where
  "visible_record policy row =
     \<lparr>vis_id = cr_id row,
      vis_values = bt_filter (\<lambda>field _. bs_contains (pol_read_fields (orp_rule policy)) field) (cr_values row)\<rparr>"

definition project ::
  "serde \<Rightarrow> session_verifier \<Rightarrow> string \<Rightarrow> scope \<Rightarrow> request_channel \<Rightarrow> u64 \<Rightarrow> checked_records \<Rightarrow>
     owner_role_policy \<Rightarrow> projection_purpose \<Rightarrow> (policy_error, checked_projection) outcome" where
  "project J V credential scope channel now facts policy purpose =
     and_then (map_err Authority (resolve V credential scope channel now Read)) (\<lambda>context.
     and_then (check_scope J policy scope facts) (\<lambda>_.
     let rows = map (visible_record policy)
                  (filter (\<lambda>row. allows policy context row Read) (crs_records facts))
     in Ok \<lparr>prj_rows = rows, prj_purpose = purpose,
            prj_membership_revision = ctx_membership_revision context,
            prj_policy_revision = orp_revision policy\<rparr>))"

definition lookup_visible ::
  "serde \<Rightarrow> session_verifier \<Rightarrow> string \<Rightarrow> scope \<Rightarrow> request_channel \<Rightarrow> u64 \<Rightarrow> checked_records \<Rightarrow>
     owner_role_policy \<Rightarrow> record_id \<Rightarrow> (policy_error, visible_record option) outcome" where
  "lookup_visible J V credential scope channel now facts policy i =
     and_then (project J V credential scope channel now facts policy Lookup) (\<lambda>projection.
     Ok (List.find (\<lambda>row. vis_id row = i) (prj_rows projection)))"

definition visible_count ::
  "serde \<Rightarrow> session_verifier \<Rightarrow> string \<Rightarrow> scope \<Rightarrow> request_channel \<Rightarrow> u64 \<Rightarrow> checked_records \<Rightarrow>
     owner_role_policy \<Rightarrow> (policy_error, nat) outcome" where
  "visible_count J V credential scope channel now facts policy =
     and_then (project J V credential scope channel now facts policy Query) (\<lambda>projection.
     Ok (length (prj_rows projection)))"

definition add_visible :: "field_id \<Rightarrow> i64 \<Rightarrow> visible_record \<Rightarrow> (policy_error, i64) outcome" where
  "add_visible field acc row =
     (case bt_get (vis_values row) field of
        Some (Integer v) \<Rightarrow> ok_or NumericOverflow (checked_add acc v)
      | Some (Money v) \<Rightarrow> ok_or NumericOverflow (checked_add acc v)
      | Some Blank \<Rightarrow> Ok acc
      | Some Null \<Rightarrow> Ok acc
      | None \<Rightarrow> Ok acc
      | _ \<Rightarrow> Err InvalidInput)"

definition visible_sum ::
  "serde \<Rightarrow> session_verifier \<Rightarrow> string \<Rightarrow> scope \<Rightarrow> request_channel \<Rightarrow> u64 \<Rightarrow> checked_records \<Rightarrow>
     owner_role_policy \<Rightarrow> field_id \<Rightarrow> (policy_error, i64) outcome" where
  "visible_sum J V credential scope channel now facts policy field =
     and_then (project J V credential scope channel now facts policy Query) (\<lambda>projection.
     if \<not> bs_contains (pol_read_fields (orp_rule policy)) field then Err Denied
     else fold_m (add_visible field) 0 (prj_rows projection))"

section \<open>The current output policy\<close>

record current_output_policy =
  cop_serde :: serde
  cop_host :: session_verifier
  cop_credential :: string
  cop_scope :: scope
  cop_channel :: request_channel
  cop_now :: u64
  cop_facts :: checked_records
  cop_policies :: "owner_role_policy list"

definition cop_resolve :: "current_output_policy \<Rightarrow> scope \<Rightarrow> (authority_error, trusted_context) outcome" where
  "cop_resolve p scope =
     resolve (cop_host p) (cop_credential p) scope (cop_channel p) (cop_now p) Read"

definition cop_current ::
  "current_output_policy \<Rightarrow> scope \<Rightarrow> table_id \<Rightarrow> (trusted_context \<times> owner_role_policy) option" where
  "cop_current p scope table =
     (if scope \<noteq> cop_scope p then None
      else case cop_resolve p scope of
        Ok context \<Rightarrow>
          (case List.find (\<lambda>policy. orp_table_id policy = table) (cop_policies p) of
             None \<Rightarrow> None
           | Some policy \<Rightarrow>
               if is_ok (check_scope (cop_serde p) policy scope (cop_facts p))
               then Some (context, policy) else None)
      | _ \<Rightarrow> None)"

definition cop_allow_snapshot :: "current_output_policy \<Rightarrow> checked_app_spec \<Rightarrow> checked_records \<Rightarrow> bool" where
  "cop_allow_snapshot p spec facts \<longleftrightarrow>
     facts = cop_facts p \<and> cop_policies p \<noteq> []
     \<and> list_all (\<lambda>policy. orp_definition policy = spec) (cop_policies p)
     \<and> is_ok (cop_resolve p (cop_scope p))"

definition cop_allow_record :: "current_output_policy \<Rightarrow> scope \<Rightarrow> table_id \<Rightarrow> record_id \<Rightarrow> bool" where
  "cop_allow_record p scope table record =
     (case cop_current p scope table of
        None \<Rightarrow> False
      | Some (context, policy) \<Rightarrow>
          (case find_record (cop_facts p) table record of
             None \<Rightarrow> False
           | Some row \<Rightarrow> allows policy context row Read))"

definition cop_allow_field :: "current_output_policy \<Rightarrow> scope \<Rightarrow> table_id \<Rightarrow> field_id \<Rightarrow> bool" where
  "cop_allow_field p scope table field =
     (case cop_current p scope table of
        None \<Rightarrow> False
      | Some (context, policy) \<Rightarrow> bs_contains (pol_read_fields (orp_rule policy)) field)"

section \<open>Lemmas\<close>

definition permitted :: "owner_role_policy \<Rightarrow> trusted_context \<Rightarrow> grant \<Rightarrow> checked_record \<Rightarrow> bool" where
  "permitted policy context grant row \<longleftrightarrow>
     bt_get (cr_values row) (orp_owner_field policy) = Some (Text (as_str (ctx_actor context)))
     \<or> set (bs_list (orp_roles policy grant)) \<inter> set (bs_list (ctx_roles context)) \<noteq> {}"

lemma allows_iff:
  "allows policy context row grant \<longleftrightarrow>
     cr_scope row = ctx_scope context \<and> cr_table_id row = orp_table_id policy
     \<and> permitted policy context grant row"
  by (auto simp: allows_def permitted_def list_ex_iff bs_contains_iff split: option.splits cell_splits)

lemma check_scope_Ok_iff [outcome_simps]:
  "check_scope J policy scope facts = Ok u \<longleftrightarrow>
     app_id scope = orp_app_id policy \<and> crs_scope facts = scope
     \<and> (\<exists>c. validate_records J (orp_definition policy) scope (to_raw facts) = Ok c)"
  by (auto simp: check_scope_def outcome_simps)

lemma check_scope_not_Panic [simp]: "check_scope J policy scope facts \<noteq> Panic"
  by (simp add: check_scope_def outcome_simps)

lemma policy_check_Ok:
  "policy_check spec rule = Ok policy \<Longrightarrow>
     policy = \<lparr>orp_definition = spec, orp_app_id = spec_app_id spec, orp_rule = rule\<rparr>
     \<and> rule \<in> set (app_policies (spec_def spec))
     \<and> spec_field_type spec (pol_table_id rule) (pol_owner_field rule) = Some FText"
  by (simp add: policy_check_def split: if_splits)

lemma project_Ok_iff:
  "project J V credential scope channel now facts policy purpose = Ok p \<longleftrightarrow>
     (\<exists>context. resolve V credential scope channel now Read = Ok context
        \<and> check_scope J policy scope facts = Ok ()
        \<and> p = \<lparr>prj_rows = map (visible_record policy)
                  (filter (\<lambda>row. allows policy context row Read) (crs_records facts)),
              prj_purpose = purpose, prj_membership_revision = ctx_membership_revision context,
              prj_policy_revision = orp_revision policy\<rparr>)"
  by (auto simp: project_def and_then_Ok_iff map_err_Ok_iff Let_def)

lemma vis_values_get:
  "bt_get (vis_values (visible_record policy row)) f =
     (if f \<in> set (bs_list (pol_read_fields (orp_rule policy))) then bt_get (cr_values row) f else None)"
  by (simp add: visible_record_def bs_contains_iff split: option.split)

text \<open>
  C27. A projection discloses exactly what the policy permits: a row is listed exactly when it lies in
  the requested scope and in the policy's table and is owned by the verified actor or readable by
  one of the actor's current roles, and of such a row exactly the policy's read fields are shown,
  with the stored values.
\<close>

theorem project_discloses_exactly:
  assumes "project J V credential scope channel now facts policy purpose = Ok p"
  shows "\<exists>context. resolve V credential scope channel now Read = Ok context
    \<and> (\<forall>v. v \<in> set (prj_rows p) \<longleftrightarrow>
        (\<exists>row\<in>set (crs_records facts).
           cr_scope row = scope \<and> cr_table_id row = orp_table_id policy \<and> permitted policy context Read row
           \<and> vis_id v = cr_id row
           \<and> (\<forall>f. bt_get (vis_values v) f =
                (if f \<in> set (bs_list (pol_read_fields (orp_rule policy)))
                 then bt_get (cr_values row) f else None))))"
proof -
  from assms obtain "context" where ctx: "resolve V credential scope channel now Read = Ok context"
    and rows: "prj_rows p = map (visible_record policy)
                 (filter (\<lambda>row. allows policy context row Read) (crs_records facts))"
    by (auto simp: project_Ok_iff)
  have eq: "v = visible_record policy row \<longleftrightarrow> vis_id v = cr_id row
      \<and> (\<forall>f. bt_get (vis_values v) f = bt_get (vis_values (visible_record policy row)) f)" for v row
    by (cases v) (auto simp: visible_record_def intro: bt_eqI)
  have "v \<in> set (prj_rows p) \<longleftrightarrow> (\<exists>row\<in>set (crs_records facts). cr_scope row = scope
      \<and> cr_table_id row = orp_table_id policy \<and> permitted policy context Read row
      \<and> v = visible_record policy row)" for v
    unfolding rows using resolve_scope [OF ctx] by (auto simp: allows_iff)
  with ctx show ?thesis by (auto simp: eq vis_values_get)
qed

text \<open>
  Agreement on what an actor may read, stated on the stored rows: every row of the first facts that
  lies in the scope and in the policy's table and is permitted to the actor has a counterpart with
  the same identity in the second facts, permitted as well, with the same values in the read fields.
\<close>

definition covered_by ::
  "owner_role_policy \<Rightarrow> trusted_context \<Rightarrow> scope \<Rightarrow> checked_records \<Rightarrow> checked_records \<Rightarrow> bool" where
  "covered_by policy context scope facts facts' \<longleftrightarrow>
     (\<forall>row\<in>set (crs_records facts).
        cr_scope row = scope \<and> cr_table_id row = orp_table_id policy \<and> permitted policy context Read row \<longrightarrow>
        (\<exists>row'\<in>set (crs_records facts'). cr_id row' = cr_id row
           \<and> cr_scope row' = scope \<and> cr_table_id row' = orp_table_id policy \<and> permitted policy context Read row'
           \<and> (\<forall>f\<in>set (bs_list (pol_read_fields (orp_rule policy))).
                bt_get (cr_values row') f = bt_get (cr_values row) f)))"

definition readable_rows :: "owner_role_policy \<Rightarrow> trusted_context \<Rightarrow> checked_records \<Rightarrow> visible_record list" where
  "readable_rows policy context facts =
     map (visible_record policy) (filter (\<lambda>row. allows policy context row Read) (crs_records facts))"

lemma covered_rows:
  assumes "covered_by policy context scope facts facts'" and "ctx_scope context = scope"
  shows "set (readable_rows policy context facts) \<subseteq> set (readable_rows policy context facts')"
proof
  fix v assume "v \<in> set (readable_rows policy context facts)"
  then obtain row where row: "row \<in> set (crs_records facts)" "allows policy context row Read"
    and v: "v = visible_record policy row" by (auto simp: readable_rows_def)
  with assms obtain row' where row': "row' \<in> set (crs_records facts')" "cr_id row' = cr_id row"
      "allows policy context row' Read"
    and same: "\<forall>f\<in>set (bs_list (pol_read_fields (orp_rule policy))). bt_get (cr_values row') f = bt_get (cr_values row) f"
    by (auto simp: covered_by_def allows_iff)
  have "vis_values (visible_record policy row') = vis_values (visible_record policy row)"
    by (rule bt_eqI) (use same in \<open>auto simp: vis_values_get\<close>)
  with row'(2) v have "v = visible_record policy row'" by (simp add: visible_record_def)
  with row' show "v \<in> set (readable_rows policy context facts')" by (auto simp: readable_rows_def)
qed

lemma readable_rows_sorted:
  assumes "facts_ok J spec facts"
  shows "sorted (map vis_id (readable_rows policy context facts))"
    and "distinct (map vis_id (readable_rows policy context facts))"
proof -
  let ?key = "\<lambda>row. (cr_table_id row, cr_id row)"
  let ?rows = "filter (\<lambda>row. allows policy context row Read) (crs_records facts)"
  have "sorted (map record_key (normalized spec (to_raw facts)))"
    using sorted_sort_key [of record_key "to_raw facts"] by (simp add: normalized_def comp_def)
  then have "sorted (map record_key (to_raw facts))" using assms by (simp add: facts_ok_iff)
  then have "sorted (map ?key (crs_records facts))"
    by (simp add: to_raw_def record_key_def cr_defs comp_def)
  then have "sorted (map ?key ?rows)" by (rule sorted_filter)
  then have sorted: "sorted_wrt (\<lambda>x y. ?key x \<le> ?key y) ?rows" by (simp add: sorted_map)
  have ids: "map vis_id (readable_rows policy context facts) = map cr_id ?rows"
    by (simp add: readable_rows_def visible_record_def comp_def)
  have "sorted_wrt (\<lambda>x y. cr_id x \<le> cr_id y) ?rows"
    by (rule sorted_wrt_mono_rel [OF _ sorted]) (auto simp: allows_iff)
  then show "sorted (map vis_id (readable_rows policy context facts))" by (simp add: ids sorted_map)
  have "distinct (map ?key ?rows)" by (rule distinct_map_filter) (rule facts_ok_distinct [OF assms])
  then have "distinct (map cr_id ?rows)"
    by (auto simp: distinct_map allows_iff inj_on_def)
  then show "distinct (map vis_id (readable_rows policy context facts))" by (simp add: ids)
qed

lemma readable_rows_agree:
  assumes "facts_ok J spec facts" and "facts_ok J spec facts'"
    and "covered_by policy context scope facts facts'" and "covered_by policy context scope facts' facts"
    and "ctx_scope context = scope"
  shows "readable_rows policy context facts = readable_rows policy context facts'"
proof -
  have same: "set (readable_rows policy context facts) = set (readable_rows policy context facts')"
    using covered_rows [OF assms(3,5)] covered_rows [OF assms(4,5)] by blast
  show ?thesis
    by (rule map_sorted_distinct_set_unique [of vis_id])
      (use same readable_rows_sorted [OF assms(1)] readable_rows_sorted [OF assms(2)] in \<open>auto simp: distinct_map\<close>)
qed

text \<open>
  C37. Hidden rows have no influence. Take two validated sets of facts of one scope in which the rows
  the actor may read (in the scope, of the policy's table, owned by the actor or open to one of the
  actor's roles) are the same and carry the same values in the policy's read fields. Whatever else
  they hold, other rows, other tables and other fields, projection, lookup, count and sum answer the
  same on both, errors included.
\<close>

theorem hidden_rows_have_no_influence:
  assumes "facts_ok J (orp_definition policy) facts" and "facts_ok J (orp_definition policy) facts'"
    and "crs_scope facts = scope" and "crs_scope facts' = scope"
    and "\<And>context. resolve V credential scope channel now Read = Ok context \<Longrightarrow>
      covered_by policy context scope facts facts' \<and> covered_by policy context scope facts' facts"
  shows "project J V credential scope channel now facts policy purpose
      = project J V credential scope channel now facts' policy purpose
    \<and> lookup_visible J V credential scope channel now facts policy i
      = lookup_visible J V credential scope channel now facts' policy i
    \<and> visible_count J V credential scope channel now facts policy
      = visible_count J V credential scope channel now facts' policy
    \<and> visible_sum J V credential scope channel now facts policy field
      = visible_sum J V credential scope channel now facts' policy field"
proof -
  have scope: "check_scope J policy scope facts = check_scope J policy scope facts'"
    using assms(1-4) by (simp add: check_scope_def facts_ok_def)
  have "project J V credential scope channel now facts policy purpose
      = project J V credential scope channel now facts' policy purpose" for purpose
  proof (cases "resolve V credential scope channel now Read")
    case (Ok ctx)
    have "readable_rows policy ctx facts = readable_rows policy ctx facts'"
      using readable_rows_agree [OF assms(1,2)] assms(5) [OF Ok] resolve_scope [OF Ok] by blast
    with Ok scope show ?thesis by (simp add: project_def readable_rows_def)
  qed (simp_all add: project_def)
  then show ?thesis by (simp add: lookup_visible_def visible_count_def visible_sum_def)
qed

section \<open>Sums\<close>

definition number_of :: "value option \<Rightarrow> int" where
  "number_of v = (case v of Some (Integer n) \<Rightarrow> sint n | Some (Money n) \<Rightarrow> sint n | _ \<Rightarrow> 0)"

lemma add_visible_Ok: "add_visible field acc row = Ok s \<Longrightarrow> sint s = sint acc + number_of (bt_get (vis_values row) field)"
  by (auto simp: add_visible_def number_of_def ok_or_Ok_iff dest: checked_add_Some
      split: option.splits cell_splits)

lemma add_visible_loop:
  "fold_m (add_visible field) acc rows = Ok s \<Longrightarrow>
     sint s = sint acc + (\<Sum>row\<leftarrow>rows. number_of (bt_get (vis_values row) field))"
  by (induction rows arbitrary: acc) (auto simp: and_then_Ok_iff dest!: add_visible_Ok)

text \<open>
  A sum that is returned is exact: the integer sum of the stored numbers of the readable rows,
  never a wrapped one, and only of a readable field.
\<close>

theorem visible_sum_exact:
  assumes "visible_sum J V credential scope channel now facts policy field = Ok s"
  shows "\<exists>context. resolve V credential scope channel now Read = Ok context
    \<and> field \<in> set (bs_list (pol_read_fields (orp_rule policy)))
    \<and> sint s = (\<Sum>row \<leftarrow> filter (\<lambda>row. allows policy context row Read) (crs_records facts).
                 number_of (bt_get (cr_values row) field))"
proof -
  from assms obtain "context" where ctx: "resolve V credential scope channel now Read = Ok context"
    and field: "bs_contains (pol_read_fields (orp_rule policy)) field"
    and acc: "fold_m (add_visible field) 0 (map (visible_record policy)
                 (filter (\<lambda>row. allows policy context row Read) (crs_records facts))) = Ok s"
    by (auto simp: visible_sum_def and_then_Ok_iff project_Ok_iff split: if_splits)
  from field have "number_of (bt_get (vis_values (visible_record policy row)) field)
      = number_of (bt_get (cr_values row) field)" for row
    by (simp add: vis_values_get bs_contains_iff)
  with add_visible_loop [OF acc] ctx field show ?thesis
    by (auto simp: bs_contains_iff comp_def)
qed

section \<open>Witnesses\<close>

definition policy_spec :: checked_app_spec where
  "policy_spec = CheckedAppSpec example_policy_spec"

definition policy_facts :: checked_records where
  "policy_facts = \<lparr>crs_scope = witness_scope,
     crs_records = map CheckedRecord (normalized policy_spec (example_records witness_scope))\<rparr>"

definition order_policy :: owner_role_policy where
  "order_policy = \<lparr>orp_definition = policy_spec, orp_app_id = Ident ''app_commerce'',
     orp_rule = hd (app_policies example_policy_spec)\<rparr>"

lemma order_policy_checked: "policy_check policy_spec (hd (app_policies example_policy_spec)) = Ok order_policy"
  by code_simp

text \<open>The same application with a field to sum: the quantities of the order lines.\<close>

definition line_policy_rule :: raw_owner_role_policy where
  "line_policy_rule = \<lparr>pol_rule_id = ''rule_line'', pol_revision = 1, pol_table_id = Ident ''tbl_order_lines'',
     pol_owner_field = Ident ''fld_line_order'', pol_read_fields = bs_of_list [Ident ''fld_line_quantity''],
     pol_read_roles = bs_of_list [Ident ''role_auditor''], pol_write_roles = bt_empty, pol_submit_roles = bt_empty\<rparr>"

definition line_policy :: owner_role_policy where
  "line_policy = \<lparr>orp_definition = policy_spec, orp_app_id = Ident ''app_commerce'', orp_rule = line_policy_rule\<rparr>"

definition auditor_host :: session_verifier where
  "auditor_host = (let verify = (\<lambda>credential. Ok (fixture_session ''actor_alice''));
       membership = (\<lambda>who where. Ok (fixture_membership witness_scope ''actor_alice''
           \<lparr>mem_roles := bs_of_list [Ident ''role_auditor'']\<rparr>));
       binding = (\<lambda>where. Ok (fixture_binding witness_scope))
     in \<lparr>current_time = default_current_time, verify_session = verify, current_membership = membership,
         registry_binding = binding, access_snapshot = default_access_snapshot verify membership binding\<rparr>)"

lemma policy_facts_validate:
  "validate_records plain_serde policy_spec witness_scope (example_records witness_scope) = Ok policy_facts"
  by code_simp

lemma policy_facts_scope: "check_scope plain_serde order_policy witness_scope policy_facts = Ok ()"
  using validate_records_facts_ok [OF policy_facts_validate]
  by (simp add: check_scope_Ok_iff facts_ok_def policy_facts_def order_policy_def witness_scope_def)

lemma witness_project:
  "\<exists>p. project plain_serde (fixture_host witness_scope ''actor_alice'') ''secret'' witness_scope NativeBearer 1
     policy_facts order_policy Query = Ok p"
proof -
  have "is_ok (resolve (fixture_host witness_scope ''actor_alice'') ''secret'' witness_scope NativeBearer 1 Read)"
    by code_simp
  then show ?thesis by (auto simp: is_ok_iff project_Ok_iff policy_facts_scope)
qed

theorem project_discloses_exactly_witness:
  "\<exists>p context. project plain_serde (fixture_host witness_scope ''actor_alice'') ''secret'' witness_scope
      NativeBearer 1 policy_facts order_policy Query = Ok p
    \<and> (\<forall>v\<in>set (prj_rows p). \<exists>row\<in>set (crs_records policy_facts).
         permitted order_policy context Read row \<and> vis_id v = cr_id row)"
proof -
  from witness_project obtain p where p: "project plain_serde (fixture_host witness_scope ''actor_alice'')
      ''secret'' witness_scope NativeBearer 1 policy_facts order_policy Query = Ok p" by blast
  from project_discloses_exactly [OF p] p show ?thesis by blast
qed

definition fewer_policy_facts :: checked_records where
  "fewer_policy_facts = \<lparr>crs_scope = witness_scope,
     crs_records = filter (\<lambda>r. cr_table_id r \<noteq> Ident ''tbl_order_lines'') (crs_records policy_facts)\<rparr>"

lemma fewer_policy_facts_validate:
  "validate_records plain_serde policy_spec witness_scope (to_raw fewer_policy_facts) = Ok fewer_policy_facts"
  by code_simp

theorem hidden_rows_have_no_influence_witness:
  "visible_count plain_serde (fixture_host witness_scope ''actor_alice'') ''secret'' witness_scope NativeBearer 1
     policy_facts order_policy
   = visible_count plain_serde (fixture_host witness_scope ''actor_alice'') ''secret'' witness_scope NativeBearer 1
     fewer_policy_facts order_policy"
proof (rule hidden_rows_have_no_influence [THEN conjunct2, THEN conjunct2, THEN conjunct1])
  show "facts_ok plain_serde (orp_definition order_policy) policy_facts"
    using validate_records_facts_ok [OF policy_facts_validate] by (simp add: order_policy_def)
  show "facts_ok plain_serde (orp_definition order_policy) fewer_policy_facts"
    using validate_records_facts_ok [OF fewer_policy_facts_validate] by (simp add: order_policy_def)
  show "covered_by order_policy context witness_scope policy_facts fewer_policy_facts
      \<and> covered_by order_policy context witness_scope fewer_policy_facts policy_facts" for "context"
    by (auto simp: covered_by_def fewer_policy_facts_def orp_table_id_def order_policy_def example_policy_spec_def
        example_spec_def)
qed (simp_all add: policy_facts_def fewer_policy_facts_def)

theorem visible_sum_exact_witness:
  "visible_sum plain_serde auditor_host ''secret'' witness_scope NativeBearer 1 policy_facts line_policy
     (Ident ''fld_line_quantity'') = Ok 2
   \<and> (\<exists>context. sint (2 :: i64) = (\<Sum>row \<leftarrow> filter (\<lambda>row. allows line_policy context row Read) (crs_records policy_facts).
        number_of (bt_get (cr_values row) (Ident ''fld_line_quantity''))))"
proof -
  have acc: "visible_sum plain_serde auditor_host ''secret'' witness_scope NativeBearer 1 policy_facts line_policy
      (Ident ''fld_line_quantity'') = Ok 2"
    by code_simp
  from visible_sum_exact [OF acc] acc show ?thesis by blast
qed

end
