(* ===== verification/Submit.thy ===== *)
theory Submit
  imports Policy
begin

text \<open>
  The SubmitOrder decision (\<open>crates/evobase-appspec/src/policy.rs\<close>): the checked rule, the normalized
  intent, the receipt book and \<open>decide_submit_order\<close> in the order the code takes its steps. What an
  applied batch may write, and that a recorded batch is replayed instead of applied again.
\<close>

section \<open>The checked rule\<close>

record submit_order_rule =
  sor_definition :: checked_app_spec
  sor_app_id :: app_id
  sor_rule :: raw_submit_order_rule

definition submit_rule_valid :: "checked_app_spec \<Rightarrow> owner_role_policy \<Rightarrow> raw_submit_order_rule \<Rightarrow> bool" where
  "submit_rule_valid spec policy rule \<longleftrightarrow> \<not> (
     \<not> is_ok (bounded_id (sub_rule_id rule) ''rule_'')
     \<or> rule \<notin> set (app_submit_rules (spec_def spec))
     \<or> sub_revision rule = 0
     \<or> sub_policy_rule_id rule \<noteq> orp_rule_id policy
     \<or> sub_order_table rule \<noteq> orp_table_id policy
     \<or> sub_line_table rule = sub_order_table rule
     \<or> orp_app_id policy \<noteq> spec_app_id spec
     \<or> orp_definition policy \<noteq> spec
     \<or> spec_field_type spec (sub_order_table rule) (sub_state_field rule) \<noteq> Some FText
     \<or> spec_field_type spec (sub_order_table rule) (sub_notes_field rule) \<noteq> Some FText
     \<or> spec_field_type spec (sub_line_table rule) (sub_quantity_field rule) \<noteq> Some FInteger
     \<or> spec_field_type spec (sub_line_table rule) (sub_captured_price_field rule) \<noteq> Some FMoney
     \<or> spec_field_type spec (sub_line_table rule) (sub_line_order_field rule)
         \<noteq> Some (FRef (sub_order_table rule))
     \<or> \<not> list_ex (\<lambda>capture. cap_line_table capture = sub_line_table rule
           \<and> cap_captured_price_field capture = sub_captured_price_field rule)
         (app_capture_rules (spec_def spec))
     \<or> sub_state_field rule = sub_notes_field rule
     \<or> sub_notes_field rule = orp_owner_field policy
     \<or> sub_state_field rule = orp_owner_field policy
     \<or> sub_line_order_field rule = sub_quantity_field rule
     \<or> sub_captured_price_field rule = sub_quantity_field rule)"

definition submit_rule_check ::
  "checked_app_spec \<Rightarrow> owner_role_policy \<Rightarrow> raw_submit_order_rule \<Rightarrow> (policy_error, submit_order_rule) outcome"
where
  "submit_rule_check spec policy rule =
     (if \<not> submit_rule_valid spec policy rule then Err PolicyNotValid
      else Ok \<lparr>sor_definition = spec, sor_app_id = spec_app_id spec, sor_rule = rule\<rparr>)"

section \<open>Requests and intents\<close>

record line_patch =
  lp_line_id :: record_id
  lp_changes :: "(field_id, value) btree_map"

record raw_submit_order =
  rso_order_id :: record_id
  rso_idempotency_key :: string
  rso_changes :: "(field_id, value) btree_map"
  rso_line_patches :: "line_patch list"

record normalized_intent =
  nin_command :: raw_submit_order_rule
  nin_order_id :: record_id
  nin_changes :: "(field_id, value) btree_map"
  nin_line_patches :: "line_patch list"

definition idempotency_key_valid :: "string \<Rightarrow> bool" where
  "idempotency_key_valid key \<longleftrightarrow> key \<noteq> [] \<and> length key \<le> 96 \<and> list_all id_byte key"

definition check_note_change :: "raw_submit_order_rule \<Rightarrow> field_id \<times> value \<Rightarrow> (policy_error, unit) outcome" where
  "check_note_change rule = (\<lambda>(field, v).
     if field \<noteq> sub_notes_field rule then Err ImmutableField
     else case v of
       Text text \<Rightarrow> if length text \<le> 1000 then Ok () else Err InvalidInput
     | _ \<Rightarrow> Err InvalidInput)"

definition quantity_in_range :: "value \<Rightarrow> bool" where
  "quantity_in_range v = (case v of Integer n \<Rightarrow> 1 \<le> sint n \<and> sint n \<le> 10000 | _ \<Rightarrow> False)"

definition check_line_patch :: "raw_submit_order_rule \<Rightarrow> line_patch \<Rightarrow> (policy_error, unit) outcome" where
  "check_line_patch rule patch =
     (if bt_len (lp_changes patch) > 1 then Err InvalidInput
      else for_each (\<lambda>(field, v).
        if field \<noteq> sub_quantity_field rule then Err ImmutableField
        else if \<not> quantity_in_range v then Err InvalidQuantity
        else Ok ()) (entries (lp_changes patch)))"

definition trim_change :: "field_id \<times> value \<Rightarrow> (policy_error, field_id \<times> value) outcome" where
  "trim_change = (\<lambda>(field, v). case v of Text text \<Rightarrow> Ok (field, Text (trim text)) | _ \<Rightarrow> Panic)"

definition normalized_intent ::
  "raw_submit_order \<Rightarrow> raw_submit_order_rule \<Rightarrow> (policy_error, normalized_intent) outcome" where
  "normalized_intent request rule =
     (if \<not> idempotency_key_valid (rso_idempotency_key request)
         \<or> bt_len (rso_changes request) > 1
         \<or> length (rso_line_patches request) > 256
      then Err InvalidInput
      else and_then (for_each (check_note_change rule) (entries (rso_changes request))) (\<lambda>_.
        and_then (for_each (check_line_patch rule) (rso_line_patches request)) (\<lambda>_.
        and_then (map_m trim_change (entries (rso_changes request))) (\<lambda>changes.
        let line_patches = sort_key lp_line_id (rso_line_patches request) in
        if adjacent_dup lp_line_id line_patches then Err InvalidInput
        else Ok \<lparr>nin_command = rule, nin_order_id = rso_order_id request,
                 nin_changes = bt_of_list changes, nin_line_patches = line_patches\<rparr>))))"

section \<open>Receipts and batches\<close>

record submission_receipt =
  rcp_order_id :: record_id
  rcp_state :: string

type_synonym receipt_book = "(scope \<times> actor_id \<times> string, normalized_intent \<times> submission_receipt) btree_map"

record checked_command_batch =
  ccb_scope :: scope
  ccb_actor :: actor_id
  ccb_binding_id :: string
  ccb_expected_revision :: u64
  ccb_membership_revision :: u64
  ccb_policy_revision :: u64
  ccb_idempotency_key :: string
  ccb_intent :: normalized_intent
  ccb_writes :: "raw_record list"
  ccb_receipt :: submission_receipt

definition batch_key :: "checked_command_batch \<Rightarrow> scope \<times> actor_id \<times> string" where
  "batch_key batch = (ccb_scope batch, ccb_actor batch, ccb_idempotency_key batch)"

definition record_applied ::
  "receipt_book \<Rightarrow> checked_command_batch \<Rightarrow> (policy_error, receipt_book) outcome" where
  "record_applied book batch =
     (case bt_get book (batch_key batch) of
        Some (intent, _) \<Rightarrow> if intent \<noteq> ccb_intent batch then Err IntentConflict else Ok book
      | None \<Rightarrow> Ok (bt_insert (batch_key batch) (ccb_intent batch, ccb_receipt batch) book))"

datatype command_decision = Apply checked_command_batch | Replay submission_receipt

section \<open>The decision\<close>

definition raw_record_of :: "checked_record \<Rightarrow> raw_record" where
  "raw_record_of row = \<lparr>rec_scope = cr_scope row, rec_id = cr_id row, rec_table_id = cr_table_id row,
     rec_values = cr_values row\<rparr>"

definition order_line :: "raw_submit_order_rule \<Rightarrow> scope \<Rightarrow> record_id \<Rightarrow> checked_record \<Rightarrow> bool" where
  "order_line rule scope order_id row \<longleftrightarrow>
     cr_table_id row = sub_line_table rule
     \<and> (case bt_get (cr_values row) (sub_line_order_field rule) of
          Some (Ref r) \<Rightarrow> ref_scope r = scope \<and> ref_table_id r = sub_order_table rule \<and> ref_record_id r = order_id
        | _ \<Rightarrow> False)"

definition update_order :: "raw_submit_order_rule \<Rightarrow> normalized_intent \<Rightarrow> checked_record \<Rightarrow> raw_record" where
  "update_order rule intent order = (raw_record_of order)\<lparr>rec_values :=
     bt_insert (sub_state_field rule) (Text ''submitted'') (bt_extend (cr_values order) (nin_changes intent))\<rparr>"

definition patched_line :: "normalized_intent \<Rightarrow> checked_record \<Rightarrow> raw_record" where
  "patched_line intent line =
     (case List.find (\<lambda>patch. lp_line_id patch = cr_id line) (nin_line_patches intent) of
        None \<Rightarrow> raw_record_of line
      | Some patch \<Rightarrow> (raw_record_of line)\<lparr>rec_values := bt_extend (cr_values line) (lp_changes patch)\<rparr>)"

definition update_line ::
  "raw_submit_order_rule \<Rightarrow> normalized_intent \<Rightarrow> checked_record \<Rightarrow> (policy_error, raw_record) outcome" where
  "update_line rule intent line =
     (let updated = patched_line intent line in
      if \<not> (case bt_get (rec_values updated) (sub_quantity_field rule) of
              Some v \<Rightarrow> quantity_in_range v | None \<Rightarrow> False)
      then Err InvalidQuantity
      else if \<not> (case bt_get (rec_values updated) (sub_captured_price_field rule) of
                   Some (Money price) \<Rightarrow> 0 \<le> sint price | _ \<Rightarrow> False)
      then Err InvalidInput
      else Ok updated)"

definition submit_writes ::
  "raw_submit_order_rule \<Rightarrow> scope \<Rightarrow> checked_records \<Rightarrow> normalized_intent \<Rightarrow> checked_record \<Rightarrow>
     (policy_error, raw_record list) outcome" where
  "submit_writes rule scope facts intent order =
     (let lines = filter (order_line rule scope (nin_order_id intent)) (crs_records facts) in
      if lines = [] then Err EmptyOrder
      else if list_ex (\<lambda>patch. \<not> list_ex (\<lambda>row. cr_id row = lp_line_id patch) lines) (nin_line_patches intent)
      then Err InvalidInput
      else and_then (map_m (update_line rule intent) lines) (\<lambda>updated.
        Ok (update_order rule intent order # updated)))"

definition final_facts ::
  "serde \<Rightarrow> checked_app_spec \<Rightarrow> scope \<Rightarrow> checked_records \<Rightarrow> raw_record list \<Rightarrow> (policy_error, checked_records) outcome"
where
  "final_facts J spec scope facts writes =
     and_then (fold_m (\<lambda>rows w. ok_or InvalidInput (replace_row rows w)) (map raw_record_of (crs_records facts)) writes) (\<lambda>final_rows.
     map_err (\<lambda>_. InvalidInput) (validate_records J spec scope final_rows))"

text \<open>From the receipt lookup on: replay, conflict, or a fresh batch.\<close>

definition fresh_submission ::
  "serde \<Rightarrow> trusted_context \<Rightarrow> scope \<Rightarrow> checked_app_spec \<Rightarrow> checked_records \<Rightarrow> u64 \<Rightarrow> owner_role_policy \<Rightarrow>
     raw_submit_order_rule \<Rightarrow> raw_submit_order \<Rightarrow> normalized_intent \<Rightarrow> checked_record \<Rightarrow>
     (policy_error, command_decision) outcome" where
  "fresh_submission J context scope spec facts data_revision policy rule request intent order =
     (if bt_get (cr_values order) (sub_state_field rule) \<noteq> Some (Text ''draft'') then Err NotDraft
      else and_then (submit_writes rule scope facts intent order) (\<lambda>writes.
        and_then (final_facts J spec scope facts writes) (\<lambda>checked_final.
        and_then (ok_or InvalidInput (find_record checked_final (sub_order_table rule) (rso_order_id request)))
          (\<lambda>proposed_order.
        if \<not> allows policy context proposed_order Submit then Err Denied
        else Ok (Apply \<lparr>
          ccb_scope = scope, ccb_actor = ctx_actor context, ccb_binding_id = ctx_binding_id context,
          ccb_expected_revision = data_revision, ccb_membership_revision = ctx_membership_revision context,
          ccb_policy_revision = orp_revision policy, ccb_idempotency_key = rso_idempotency_key request,
          ccb_intent = intent, ccb_writes = writes,
          ccb_receipt = \<lparr>rcp_order_id = rso_order_id request, rcp_state = ''submitted''\<rparr>\<rparr>)))))"

definition decide_submit_order ::
  "serde \<Rightarrow> session_verifier \<Rightarrow> string \<Rightarrow> scope \<Rightarrow> request_channel \<Rightarrow> u64 \<Rightarrow> checked_app_spec \<Rightarrow>
     checked_records \<Rightarrow> u64 \<Rightarrow> owner_role_policy \<Rightarrow> submit_order_rule \<Rightarrow> receipt_book \<Rightarrow> raw_submit_order \<Rightarrow>
     (policy_error, command_decision) outcome" where
  "decide_submit_order J V credential scope channel now spec facts data_revision policy cmd receipts request =
     and_then (map_err Authority (resolve V credential scope channel now Submit)) (\<lambda>context.
     and_then (check_scope J policy scope facts) (\<lambda>_.
     if sor_app_id cmd \<noteq> app_id scope \<or> spec_app_id spec \<noteq> app_id scope
        \<or> sor_definition cmd \<noteq> spec \<or> orp_definition policy \<noteq> spec
        \<or> sub_policy_rule_id (sor_rule cmd) \<noteq> orp_rule_id policy \<or> data_revision = 0
     then Err ScopeMismatch
     else and_then (ok_or Denied (find_record facts (sub_order_table (sor_rule cmd)) (rso_order_id request)))
       (\<lambda>order.
     if \<not> allows policy context order Submit then Err Denied
     else and_then (normalized_intent request (sor_rule cmd)) (\<lambda>intent.
     case bt_get receipts (scope, ctx_actor context, rso_idempotency_key request) of
       Some (previous, receipt) \<Rightarrow> if previous = intent then Ok (Replay receipt) else Err IntentConflict
     | None \<Rightarrow> fresh_submission J context scope spec facts data_revision policy (sor_rule cmd) request intent order))))"

section \<open>Lemmas\<close>

lemma raw_record_of [simp]: "raw_record_of = as_raw"
  by (rule ext) (simp add: raw_record_of_def cr_defs)

lemma check_note_change_Ok [outcome_simps]:
  "check_note_change rule fv = Ok u \<longleftrightarrow>
     fst fv = sub_notes_field rule \<and> (\<exists>t. snd fv = Text t \<and> length t \<le> 1000)"
  by (auto simp: check_note_change_def split: prod.splits cell_splits)

lemma check_line_patch_Ok [outcome_simps]:
  "check_line_patch rule patch = Ok u \<longleftrightarrow> bt_len (lp_changes patch) \<le> 1
     \<and> (\<forall>(field, v)\<in>set (entries (lp_changes patch)). field = sub_quantity_field rule \<and> quantity_in_range v)"
  by (auto simp: check_line_patch_def for_each_Ok_iff split: if_splits)

lemma trim_change_Ok: "trim_change fv = Ok gw \<longleftrightarrow> (\<exists>t. fv = (fst gw, Text t) \<and> snd gw = Text (trim t))"
  by (cases fv; cases gw) (auto simp: trim_change_def split: cell_splits)

text \<open>The \<open>unreachable!\<close> of the note is unreachable: the loop before it admitted only texts.\<close>

lemma normalized_intent_not_Panic [simp]: "normalized_intent request rule \<noteq> Panic"
proof -
  have nt: "check_note_change rule fv \<noteq> Panic" for fv
    by (auto simp: check_note_change_def split: prod.splits cell_splits)
  have line: "check_line_patch rule p \<noteq> Panic" for p
    by (auto simp: check_line_patch_def intro!: for_each_not_Panic split: if_splits)
  have "map_m trim_change (entries (rso_changes request)) \<noteq> Panic"
    if "for_each (check_note_change rule) (entries (rso_changes request)) = Ok ()"
  proof (rule map_m_not_Panic)
    fix fv assume "fv \<in> set (entries (rso_changes request))"
    with that obtain t where "snd fv = Text t" by (auto simp: outcome_simps)
    then show "trim_change fv \<noteq> Panic" by (cases fv) (simp add: trim_change_def)
  qed
  then show ?thesis
    using for_each_not_Panic [of "entries (rso_changes request)" "check_note_change rule", OF nt]
      for_each_not_Panic [of "rso_line_patches request" "check_line_patch rule", OF line]
    by (auto simp: normalized_intent_def and_then_Panic_iff Let_def)
qed

lemma keys_bt_of_list: "set (bt_keys (bt_of_list xs)) = fst ` set xs"
proof -
  have "set (bt_keys (bt_extend_list m xs)) = set (bt_keys m) \<union> fst ` set xs" for m
    unfolding bt_extend_list_def by (induction xs arbitrary: m) auto
  then show ?thesis by (simp add: bt_of_list_def)
qed

text \<open>What a normalized intent may change.\<close>

lemma normalized_intent_Ok:
  assumes "normalized_intent request rule = Ok intent"
  shows "nin_command intent = rule" and "nin_order_id intent = rso_order_id request"
    and "set (bt_keys (nin_changes intent)) \<subseteq> {sub_notes_field rule}"
    and "distinct (map lp_line_id (nin_line_patches intent))"
    and "mset (nin_line_patches intent) = mset (rso_line_patches request)"
    and "\<And>patch. patch \<in> set (nin_line_patches intent) \<Longrightarrow>
      set (bt_keys (lp_changes patch)) \<subseteq> {sub_quantity_field rule}"
proof -
  from assms obtain changes where
    nts: "\<forall>fv\<in>set (entries (rso_changes request)). fst fv = sub_notes_field rule"
    and patches: "\<forall>p\<in>set (rso_line_patches request).
      \<forall>(field, v)\<in>set (entries (lp_changes p)). field = sub_quantity_field rule \<and> quantity_in_range v"
    and changes: "list_all2 (\<lambda>x y. trim_change x = Ok y) (entries (rso_changes request)) changes"
    and nodup: "\<not> adjacent_dup lp_line_id (sort_key lp_line_id (rso_line_patches request))"
    and intent: "intent = \<lparr>nin_command = rule, nin_order_id = rso_order_id request,
      nin_changes = bt_of_list changes, nin_line_patches = sort_key lp_line_id (rso_line_patches request)\<rparr>"
    by (auto simp: normalized_intent_def outcome_simps Let_def split: if_splits)
  show "nin_command intent = rule" "nin_order_id intent = rso_order_id request" by (simp_all add: intent)
  have "fst ` set changes \<subseteq> {sub_notes_field rule}"
    using changes nts by (induction rule: list_all2_induct) (auto simp: trim_change_Ok)
  then show "set (bt_keys (nin_changes intent)) \<subseteq> {sub_notes_field rule}"
    by (simp add: intent keys_bt_of_list)
  show "distinct (map lp_line_id (nin_line_patches intent))"
    using nodup adjacent_dup_sorted [OF sorted_sort_key, of lp_line_id "rso_line_patches request"]
    by (simp add: intent)
  show "mset (nin_line_patches intent) = mset (rso_line_patches request)" by (simp add: intent)
  show "set (bt_keys (lp_changes patch)) \<subseteq> {sub_quantity_field rule}"
    if "patch \<in> set (nin_line_patches intent)" for patch
    using patches that by (fastforce simp: intent bt_keys_def)
qed

subsection \<open>Replacing rows\<close>

lemma replace_rows_Ok:
  "fold_m (\<lambda>rows w. ok_or InvalidInput (replace_row rows w)) rows ws = Ok out \<Longrightarrow> distinct (map record_key rows) \<Longrightarrow>
     record_key ` set ws \<subseteq> record_key ` set rows \<and> out = fold put_row ws rows
     \<and> map record_key out = map record_key rows"
proof (induction ws arbitrary: rows)
  case (Cons w ws)
  from Cons.prems(1) obtain rows' where step: "replace_row rows w = Some rows'"
    and rest: "fold_m (\<lambda>rows w. ok_or InvalidInput (replace_row rows w)) rows' ws = Ok out"
    by (auto simp: outcome_simps)
  from step Cons.prems(2) have w: "record_key w \<in> record_key ` set rows" and rows': "rows' = put_row w rows"
    by (auto simp: replace_row_Some_iff)
  have keys: "map record_key rows' = map record_key rows" by (simp add: rows' keys_put_row)
  then have same: "record_key ` set rows' = record_key ` set rows" by (metis list.set_map)
  have "distinct (map record_key rows')" using Cons.prems(2) by (simp only: keys)
  note IH = Cons.IH [OF rest this]
  from IH w have "record_key ` set (w # ws) \<subseteq> record_key ` set rows" by (simp add: same)
  moreover from IH have "out = fold put_row (w # ws) rows" by (simp add: rows')
  moreover from IH have "map record_key out = map record_key rows" by (metis keys)
  ultimately show ?case by blast
qed simp

lemma final_facts_Ok:
  assumes "final_facts J spec scope facts writes = Ok final" and "distinct (map record_key (to_raw facts))"
  shows "validate_records J spec scope (fold put_row writes (to_raw facts)) = Ok final"
proof -
  from assms(1) obtain rows where "fold_m (\<lambda>rows w. ok_or InvalidInput (replace_row rows w)) (to_raw facts) writes = Ok rows"
    and valid: "validate_records J spec scope rows = Ok final"
    by (auto simp: final_facts_def to_raw_def outcome_simps)
  with replace_rows_Ok [OF _ assms(2)] show ?thesis by auto
qed

section \<open>Panics\<close>

text \<open>
  Deciding a submission never reaches a panic, on any request and any receipts, as long as the
  host adapter does not panic.
\<close>

theorem decide_submit_order_never_panics:
  assumes "\<And>c s. access_snapshot V c s \<noteq> Panic"
  shows "decide_submit_order J V credential scope channel now spec facts data_revision policy cmd receipts request \<noteq> Panic"
proof -
  have resolve: "resolve V credential scope channel now Submit \<noteq> Panic"
    using assms by (auto simp: resolve_def and_then_Panic_iff Let_def)
  have "update_line rule intent l \<noteq> Panic" for rule intent l
    by (simp add: update_line_def Let_def)
  then have writes: "submit_writes rule scope facts intent order \<noteq> Panic" for rule intent order
    by (auto simp: submit_writes_def Let_def and_then_Panic_iff dest: map_m_not_Panic [THEN notE, rotated])
  have final: "final_facts J spec scope facts writes \<noteq> Panic" for writes
    by (auto simp: final_facts_def and_then_Panic_iff map_err_Panic_iff
        dest: fold_m_not_Panic [THEN notE, rotated])
  have "fresh_submission J context scope spec facts data_revision policy rule request intent order \<noteq> Panic"
    for "context" rule intent order
    using writes final by (auto simp: fresh_submission_def and_then_Panic_iff split: if_splits)
  with resolve show ?thesis
    by (auto simp: decide_submit_order_def and_then_Panic_iff map_err_Panic_iff
        split: option.splits if_splits)
qed

section \<open>What a batch writes\<close>

lemma update_order_diff:
  assumes "set (bt_keys (nin_changes intent)) \<subseteq> {sub_notes_field rule}"
    and "bt_get (rec_values (update_order rule intent order)) f \<noteq> bt_get (cr_values order) f"
  shows "f = sub_state_field rule \<or> f = sub_notes_field rule"
proof (rule ccontr)
  assume "\<not> ?thesis"
  moreover from this assms(1) have "bt_get (nin_changes intent) f = None"
    by (auto simp: bt_get_None_iff)
  ultimately show False using assms(2) by (simp add: update_order_def)
qed

lemma patched_line_diff:
  assumes "\<And>patch. patch \<in> set (nin_line_patches intent) \<Longrightarrow>
      set (bt_keys (lp_changes patch)) \<subseteq> {sub_quantity_field rule}"
    and "bt_get (rec_values (patched_line intent line)) f \<noteq> bt_get (cr_values line) f"
  shows "f = sub_quantity_field rule"
proof (rule ccontr)
  assume f: "\<not> ?thesis"
  have none: "bt_get (lp_changes patch) f = None"
    if "List.find (\<lambda>patch. lp_line_id patch = cr_id line) (nin_line_patches intent) = Some patch" for patch
    using assms(1) f that by (auto simp: bt_get_None_iff dest!: find_Some_mem)
  with assms(2) show False
    by (cases "List.find (\<lambda>patch. lp_line_id patch = cr_id line) (nin_line_patches intent)")
      (auto simp: patched_line_def cr_defs)
qed

lemma update_keys [simp]:
  "record_key (update_order rule intent order) = record_key (as_raw order)"
  "rec_scope (update_order rule intent order) = cr_scope order"
  "record_key (patched_line intent line) = record_key (as_raw line)"
  "rec_scope (patched_line intent line) = cr_scope line"
  by (simp_all add: update_order_def patched_line_def record_key_def cr_defs split: option.splits)

lemma update_order_state [simp]:
  "bt_get (rec_values (update_order rule intent order)) (sub_state_field rule) = Some (Text ''submitted'')"
  by (simp add: update_order_def)

lemma update_line_Ok:
  "update_line rule intent line = Ok w \<Longrightarrow> w = patched_line intent line
     \<and> (\<exists>v. bt_get (rec_values w) (sub_quantity_field rule) = Some v \<and> quantity_in_range v)
     \<and> (\<exists>p. bt_get (rec_values w) (sub_captured_price_field rule) = Some (Money p) \<and> 0 \<le> sint p)"
  by (auto simp: update_line_def Let_def split: if_splits option.splits cell_splits)

lemma submit_writes_Ok:
  assumes "submit_writes rule scope facts intent order = Ok writes"
  obtains updated where "writes = update_order rule intent order # updated"
    and "filter (order_line rule scope (nin_order_id intent)) (crs_records facts) \<noteq> []"
    and "list_all2 (\<lambda>line w. update_line rule intent line = Ok w)
           (filter (order_line rule scope (nin_order_id intent)) (crs_records facts)) updated"
  using assms by (auto simp: submit_writes_def Let_def outcome_simps split: if_splits)

text \<open>The successful path of the decision, as one record of what was established on the way.\<close>

lemma decide_submit_order_Apply:
  assumes "decide_submit_order J V credential scope channel now spec facts data_revision policy cmd receipts request
      = Ok (Apply batch)"
  obtains ctx order intent final where
    "resolve V credential scope channel now Submit = Ok ctx"
    and "find_record facts (sub_order_table (sor_rule cmd)) (rso_order_id request) = Some order"
    and "allows policy ctx order Submit"
    and "normalized_intent request (sor_rule cmd) = Ok intent"
    and "bt_get receipts (scope, ctx_actor ctx, rso_idempotency_key request) = None"
    and "bt_get (cr_values order) (sub_state_field (sor_rule cmd)) = Some (Text ''draft'')"
    and "submit_writes (sor_rule cmd) scope facts intent order = Ok (ccb_writes batch)"
    and "validate_records J spec scope (fold put_row (ccb_writes batch) (to_raw facts)) = Ok final"
    and "\<exists>proposed. find_record final (sub_order_table (sor_rule cmd)) (rso_order_id request) = Some proposed
           \<and> allows policy ctx proposed Submit"
    and "batch_key batch = (scope, ctx_actor ctx, rso_idempotency_key request)"
    and "ccb_intent batch = intent"
    and "ccb_expected_revision batch = data_revision"
    and "ccb_receipt batch = \<lparr>rcp_order_id = rso_order_id request, rcp_state = ''submitted''\<rparr>"
proof -
  from assms obtain ctx order intent where ctx: "resolve V credential scope channel now Submit = Ok ctx"
    and valid: "check_scope J policy scope facts = Ok ()"
    and order: "find_record facts (sub_order_table (sor_rule cmd)) (rso_order_id request) = Some order"
    and allowed: "allows policy ctx order Submit"
    and intent: "normalized_intent request (sor_rule cmd) = Ok intent"
    and rest: "(case bt_get receipts (scope, ctx_actor ctx, rso_idempotency_key request) of
        Some (previous, receipt) \<Rightarrow> if previous = intent then Ok (Replay receipt) else Err IntentConflict
      | None \<Rightarrow> fresh_submission J ctx scope spec facts data_revision policy (sor_rule cmd) request intent order)
      = Ok (Apply batch)"
    by (auto simp: decide_submit_order_def outcome_simps simp del: check_scope_Ok_iff split: if_splits)
  from rest have new: "bt_get receipts (scope, ctx_actor ctx, rso_idempotency_key request) = None"
    and fresh: "fresh_submission J ctx scope spec facts data_revision policy (sor_rule cmd) request intent order
      = Ok (Apply batch)"
    by (auto split: option.splits if_splits)
  have dist: "distinct (map record_key (to_raw facts))"
    using valid by (auto simp: check_scope_Ok_iff validate_records_Ok_iff valid_facts_def)
  from fresh obtain final where draft: "bt_get (cr_values order) (sub_state_field (sor_rule cmd)) = Some (Text ''draft'')"
    and writes: "submit_writes (sor_rule cmd) scope facts intent order = Ok (ccb_writes batch)"
    and final: "final_facts J spec scope facts (ccb_writes batch) = Ok final"
    and proposed: "\<exists>proposed. find_record final (sub_order_table (sor_rule cmd)) (rso_order_id request) = Some proposed
           \<and> allows policy ctx proposed Submit"
    and batch: "batch_key batch = (scope, ctx_actor ctx, rso_idempotency_key request)"
      "ccb_intent batch = intent" "ccb_expected_revision batch = data_revision"
      "ccb_receipt batch = \<lparr>rcp_order_id = rso_order_id request, rcp_state = ''submitted''\<rparr>"
    by (auto simp: fresh_submission_def batch_key_def outcome_simps split: if_splits)
  show ?thesis
    by (rule that [OF ctx order allowed intent new draft writes final_facts_Ok [OF final dist] proposed batch])
qed

text \<open>What one write may do to the order's row, and to a line's row.\<close>

definition order_write_ok :: "raw_submit_order_rule \<Rightarrow> checked_record \<Rightarrow> raw_record \<Rightarrow> bool" where
  "order_write_ok rule order w \<longleftrightarrow>
     record_key w = record_key (as_raw order) \<and> rec_scope w = cr_scope order
     \<and> bt_get (rec_values w) (sub_state_field rule) = Some (Text ''submitted'')
     \<and> (\<forall>f. bt_get (rec_values w) f \<noteq> bt_get (cr_values order) f \<longrightarrow>
          f = sub_state_field rule \<or> f = sub_notes_field rule)"

definition line_write_ok :: "raw_submit_order_rule \<Rightarrow> checked_record \<Rightarrow> raw_record \<Rightarrow> bool" where
  "line_write_ok rule line w \<longleftrightarrow>
     record_key w = record_key (as_raw line) \<and> rec_scope w = cr_scope line
     \<and> (\<forall>f. bt_get (rec_values w) f \<noteq> bt_get (cr_values line) f \<longrightarrow> f = sub_quantity_field rule)
     \<and> (\<exists>v. bt_get (rec_values w) (sub_quantity_field rule) = Some v \<and> quantity_in_range v)
     \<and> (\<exists>p. bt_get (rec_values w) (sub_captured_price_field rule) = Some (Money p) \<and> 0 \<le> sint p)"

lemma submit_writes_ok:
  assumes intent: "normalized_intent request rule = Ok intent"
    and writes: "submit_writes rule scope facts intent order = Ok writes"
  shows "\<exists>w ws. writes = w # ws \<and> order_write_ok rule order w
    \<and> list_all2 (line_write_ok rule)
        (filter (order_line rule scope (rso_order_id request)) (crs_records facts)) ws"
proof -
  note nin = normalized_intent_Ok [OF intent]
  from writes obtain updated where ws: "writes = update_order rule intent order # updated"
    and upd: "list_all2 (\<lambda>line w. update_line rule intent line = Ok w)
           (filter (order_line rule scope (rso_order_id request)) (crs_records facts)) updated"
    by (rule submit_writes_Ok) (simp add: nin(2))
  have "line_write_ok rule line w" if "update_line rule intent line = Ok w" for line w
    using update_line_Ok [OF that] patched_line_diff [OF nin(6), of intent line]
    by (auto simp: line_write_ok_def)
  with upd have "list_all2 (line_write_ok rule)
      (filter (order_line rule scope (rso_order_id request)) (crs_records facts)) updated"
    by (rule list_all2_mono) 
  moreover have "order_write_ok rule order (update_order rule intent order)"
    using update_order_diff [OF nin(3)] by (auto simp: order_write_ok_def)
  ultimately show ?thesis using ws by blast
qed

text \<open>
  C34. An applied submission writes no more than it may. The order is in draft and the actor may submit
  it. The first write keeps the order's identity and scope and differs from the stored row at most
  in state, now submitted, and notes; the others are exactly the order's lines, each differing at
  most in quantity, with a quantity from 1 to 10000 and a non-negative captured price. The final
  facts are valid.
\<close>

theorem submit_order_writes_only:
  assumes "decide_submit_order J V credential scope channel now spec facts data_revision policy cmd receipts request
      = Ok (Apply batch)"
  shows "\<exists>ctx order final w ws.
    resolve V credential scope channel now Submit = Ok ctx
    \<and> find_record facts (sub_order_table (sor_rule cmd)) (rso_order_id request) = Some order
    \<and> allows policy ctx order Submit
    \<and> bt_get (cr_values order) (sub_state_field (sor_rule cmd)) = Some (Text ''draft'')
    \<and> ccb_writes batch = w # ws
    \<and> order_write_ok (sor_rule cmd) order w
    \<and> list_all2 (line_write_ok (sor_rule cmd))
        (filter (order_line (sor_rule cmd) scope (rso_order_id request)) (crs_records facts)) ws
    \<and> validate_records J spec scope (fold put_row (w # ws) (to_raw facts)) = Ok final"
  using assms
proof (rule decide_submit_order_Apply)
  fix ctx order intent final
  assume facts: "resolve V credential scope channel now Submit = Ok ctx"
    "find_record facts (sub_order_table (sor_rule cmd)) (rso_order_id request) = Some order"
    "allows policy ctx order Submit"
    "bt_get (cr_values order) (sub_state_field (sor_rule cmd)) = Some (Text ''draft'')"
    "validate_records J spec scope (fold put_row (ccb_writes batch) (to_raw facts)) = Ok final"
    and intent: "normalized_intent request (sor_rule cmd) = Ok intent"
    and writes: "submit_writes (sor_rule cmd) scope facts intent order = Ok (ccb_writes batch)"
  from submit_writes_ok [OF intent writes] facts show ?thesis by metis
qed

section \<open>Replay\<close>

lemma record_applied_get:
  "record_applied book batch = Ok book' \<Longrightarrow> bt_get book (batch_key batch) = None \<Longrightarrow>
     bt_get book' (batch_key batch) = Some (ccb_intent batch, ccb_receipt batch)"
  by (auto simp: record_applied_def split: if_splits)

text \<open>
  A submission is applied at most once. After its batch has been recorded, the same request of the
  same actor is answered with the recorded receipt, whatever the facts, the revision and the order's
  state have become meanwhile, as long as the actor still may submit the order; and a different
  intent under the same key is refused.
\<close>

theorem submit_order_applied_once:
  assumes first: "decide_submit_order J V credential scope channel now spec facts data_revision policy cmd receipts request
      = Ok (Apply batch)"
    and recorded: "record_applied receipts batch = Ok receipts'"
    and again: "resolve V' credential' scope channel' now' Submit = Ok ctx'" "ctx_actor ctx' = ccb_actor batch"
    and valid: "check_scope J policy scope facts' = Ok ()" "data_revision' \<noteq> 0"
    and order: "find_record facts' (sub_order_table (sor_rule cmd)) (rso_order_id request') = Some order'"
      "allows policy ctx' order' Submit"
    and intent: "normalized_intent request' (sor_rule cmd) = Ok intent'"
    and key: "rso_idempotency_key request' = rso_idempotency_key request"
  shows "decide_submit_order J V' credential' scope channel' now' spec facts' data_revision' policy cmd receipts' request'
    = (if intent' = ccb_intent batch then Ok (Replay (ccb_receipt batch)) else Err IntentConflict)"
  using first
proof (rule decide_submit_order_Apply)
  fix ctx
  assume "resolve V credential scope channel now Submit = Ok ctx"
    and none: "bt_get receipts (scope, ctx_actor ctx, rso_idempotency_key request) = None"
    and bkey: "batch_key batch = (scope, ctx_actor ctx, rso_idempotency_key request)"
  from bkey again(2) have key': "batch_key batch = (scope, ctx_actor ctx', rso_idempotency_key request')"
    by (simp add: batch_key_def key)
  have found: "bt_get receipts' (scope, ctx_actor ctx', rso_idempotency_key request')
      = Some (ccb_intent batch, ccb_receipt batch)"
    using record_applied_get [OF recorded] none bkey key' by simp
  have "\<not> (sor_app_id cmd \<noteq> app_id scope \<or> spec_app_id spec \<noteq> app_id scope
      \<or> sor_definition cmd \<noteq> spec \<or> orp_definition policy \<noteq> spec
      \<or> sub_policy_rule_id (sor_rule cmd) \<noteq> orp_rule_id policy)"
    using first by (auto simp: decide_submit_order_def outcome_simps split: if_splits)
  with again valid order intent found show ?thesis
    by (simp add: decide_submit_order_def)
qed

section \<open>Witnesses\<close>

definition submit_cmd :: submit_order_rule where
  "submit_cmd = \<lparr>sor_definition = policy_spec, sor_app_id = Ident ''app_commerce'',
     sor_rule = hd (app_submit_rules example_policy_spec)\<rparr>"

lemma submit_cmd_checked:
  "submit_rule_check policy_spec order_policy (hd (app_submit_rules example_policy_spec)) = Ok submit_cmd"
  by code_simp

definition submit_request :: raw_submit_order where
  "submit_request = \<lparr>rso_order_id = Ident ''rec_order_1'', rso_idempotency_key = ''key_1'',
     rso_changes = bt_of_list [(Ident ''fld_order_notes'', Text '' hello '')],
     rso_line_patches = [\<lparr>lp_line_id = Ident ''rec_line_1'',
       lp_changes = bt_of_list [(Ident ''fld_line_quantity'', Integer 3)]\<rparr>]\<rparr>"

abbreviation submit_now ::
  "receipt_book \<Rightarrow> checked_records \<Rightarrow> u64 \<Rightarrow> (policy_error, command_decision) outcome" where
  "submit_now receipts facts revision \<equiv> decide_submit_order plain_serde (fixture_host witness_scope ''actor_alice'')
     ''secret'' witness_scope NativeBearer 1 policy_spec facts revision order_policy submit_cmd receipts submit_request"

fun decided_batch :: "(policy_error, command_decision) outcome \<Rightarrow> checked_command_batch option" where
  "decided_batch (Ok (Apply b)) = Some b"
| "decided_batch _ = None"

lemma decided_batch_Some: "decided_batch m = Some b \<longleftrightarrow> m = Ok (Apply b)"
  by (cases m rule: decided_batch.cases) auto

lemma submit_applies: "decided_batch (submit_now bt_empty policy_facts 5) \<noteq> None"
  by code_simp

theorem decide_submit_order_never_panics_witness:
  "submit_now bt_empty policy_facts 5 \<noteq> Panic"
  by (rule decide_submit_order_never_panics)
    (simp add: fixture_host_def default_access_snapshot_def Let_def and_then_Panic_iff)

theorem submit_order_writes_only_witness:
  "\<exists>batch. submit_now bt_empty policy_facts 5 = Ok (Apply batch)
     \<and> (\<exists>final. validate_records plain_serde policy_spec witness_scope
           (fold put_row (ccb_writes batch) (to_raw policy_facts)) = Ok final)"
proof -
  from submit_applies obtain batch where batch: "submit_now bt_empty policy_facts 5 = Ok (Apply batch)"
    by (auto simp: decided_batch_Some)
  from submit_order_writes_only [OF batch] batch show ?thesis by metis
qed

theorem submit_order_applied_once_witness:
  "\<exists>batch receipts. submit_now bt_empty policy_facts 5 = Ok (Apply batch)
     \<and> record_applied bt_empty batch = Ok receipts
     \<and> submit_now receipts policy_facts 6 = Ok (Replay (ccb_receipt batch))"
proof -
  from submit_applies obtain batch where batch: "submit_now bt_empty policy_facts 5 = Ok (Apply batch)"
    by (auto simp: decided_batch_Some)
  let ?receipts = "bt_insert (batch_key batch) (ccb_intent batch, ccb_receipt batch) bt_empty"
  have recorded: "record_applied bt_empty batch = Ok ?receipts" by (simp add: record_applied_def)
  from batch have "submit_now ?receipts policy_facts 6 = Ok (Replay (ccb_receipt batch))"
  proof (rule decide_submit_order_Apply)
    fix ctx order intent
    assume ctx: "resolve (fixture_host witness_scope ''actor_alice'') ''secret'' witness_scope NativeBearer 1 Submit = Ok ctx"
      and order: "find_record policy_facts (sub_order_table (sor_rule submit_cmd)) (rso_order_id submit_request) = Some order"
      and allowed: "allows order_policy ctx order Submit"
      and intent: "normalized_intent submit_request (sor_rule submit_cmd) = Ok intent"
      and key: "batch_key batch = (witness_scope, ctx_actor ctx, rso_idempotency_key submit_request)"
      and same: "ccb_intent batch = intent"
    from key have actor: "ctx_actor ctx = ccb_actor batch" by (simp add: batch_key_def)
    have "(6 :: u64) \<noteq> 0" by simp
    from submit_order_applied_once [OF batch recorded ctx actor policy_facts_scope this order allowed intent refl] same
    show ?thesis by simp
  qed
  with batch recorded show ?thesis by blast
qed

end
