(* ===== verification/Command_Decls.thy ===== *)
theory Command_Decls
  imports Facts
begin

text \<open>
  Declarations of state machines and commands (\<open>crates/evobase-appspec/src/commands.rs\<close>): the limits
  checked on the raw definition, and \<open>check_declarations\<close>. \<open>command_ok\<close> states what a checked
  declaration guarantees; the command operations rest on it.
\<close>

section \<open>Limits\<close>

definition MAX_COMMANDS :: nat where "MAX_COMMANDS = 64"
definition MAX_STATE_MACHINES :: nat where "MAX_STATE_MACHINES = 64"
definition MAX_STATES :: nat where "MAX_STATES = 64"
definition MAX_COMMAND_INPUTS :: nat where "MAX_COMMAND_INPUTS = 64"
definition MAX_GUARDS :: nat where "MAX_GUARDS = 32"
definition MAX_EVENTS :: nat where "MAX_EVENTS = 16"

definition check_counts :: "(string \<times> nat \<times> nat) list \<Rightarrow> (error, unit) outcome" where
  "check_counts = for_each (\<lambda>(resource, n, limit). if n > limit then Err (LimitExceeded resource limit) else Ok ())"

definition check_command_limits :: "raw_command \<Rightarrow> (error, unit) outcome" where
  "check_command_limits command =
     and_then (check_counts [
         (''command inputs'', length (cmd_inputs command), MAX_COMMAND_INPUTS),
         (''command guards'', length (cmd_guards command), MAX_GUARDS),
         (''command events'', length (cmd_events command), MAX_EVENTS)]) (\<lambda>_.
     if list_ex (\<lambda>input. length (inp_constraints input) > 8) (cmd_inputs command)
     then Err (LimitExceeded ''input constraints'' 8)
     else if list_ex (\<lambda>event. bt_len (evt_fields event) > MAX_COMMAND_INPUTS) (cmd_events command)
     then Err (LimitExceeded ''event fields'' MAX_COMMAND_INPUTS)
     else Ok ())"

definition check_limits :: "raw_app_spec \<Rightarrow> (error, unit) outcome" where
  "check_limits raw =
     and_then (check_counts [
         (''state machines'', length (app_state_machines raw), MAX_STATE_MACHINES),
         (''commands'', length (app_commands raw), MAX_COMMANDS)]) (\<lambda>_.
     and_then (for_each (\<lambda>machine.
         if bt_len (sm_states machine) > MAX_STATES \<or> bt_len (sm_terminal_states machine) > MAX_STATES
         then Err (LimitExceeded ''states'' MAX_STATES) else Ok ()) (app_state_machines raw)) (\<lambda>_.
     for_each check_command_limits (app_commands raw)))"

section \<open>check\_declarations\<close>

definition value_matches :: "field_type \<Rightarrow> value \<Rightarrow> bool" where
  "value_matches ft v =
     (case (ft, v) of
        (_, Blank) \<Rightarrow> True
      | (_, Null) \<Rightarrow> True
      | (FText, Text _) \<Rightarrow> True
      | (FInteger, Integer _) \<Rightarrow> True
      | (FMoney, Money _) \<Rightarrow> True
      | (FBool, Bool _) \<Rightarrow> True
      | _ \<Rightarrow> False)"

definition state_name_valid :: "string \<Rightarrow> bool" where
  "state_name_valid state \<longleftrightarrow>
     \<not> (state = [] \<or> length state > 64 \<or> list_ex is_control (str_chars state))"

definition state_violates :: "checked_app_spec \<Rightarrow> raw_state_machine \<Rightarrow> string \<Rightarrow> bool" where
  "state_violates spec machine state \<longleftrightarrow>
     list_ex (\<lambda>rule. fc_table_id rule = sm_table_id machine \<and> fc_field_id rule = sm_state_field machine
       \<and> \<not> accepts (fc_constraint rule) (Text state)) (app_constraints (spec_def spec))"

definition check_machine ::
  "checked_app_spec \<Rightarrow> state_machine_id set \<times> table_id set \<Rightarrow> raw_state_machine \<Rightarrow>
     (error, state_machine_id set \<times> table_id set) outcome" where
  "check_machine spec = (\<lambda>(machine_ids, machine_tables) machine.
     let invalid = InvalidStateMachine (sm_machine_id machine) in
     if sm_machine_id machine \<in> machine_ids \<or> sm_table_id machine \<in> machine_tables
     then Err (invalid ''duplicate machine identity or table binding'')
     else if bt_len (sm_states machine) = 0
        \<or> list_ex (\<lambda>state. \<not> state_name_valid state) (bs_list (sm_states machine))
        \<or> \<not> bs_subset (sm_terminal_states machine) (sm_states machine)
     then Err (invalid ''invalid finite states or terminal subset'')
     else if \<not> (case spec_field spec (sm_table_id machine) (sm_state_field machine) of
                  None \<Rightarrow> False | Some field \<Rightarrow> fld_type field = FText \<and> fld_required field)
     then Err (invalid ''state field must be required text'')
     else and_then (for_each (\<lambda>state. if state_violates spec machine state
                      then Err (invalid ''declared state violates a field constraint'') else Ok ())
                    (bs_list (sm_states machine)))
       (\<lambda>_. Ok (insert (sm_machine_id machine) machine_ids, insert (sm_table_id machine) machine_tables)))"

definition immutable_input :: "checked_app_spec \<Rightarrow> raw_state_machine \<Rightarrow> raw_owner_role_policy \<Rightarrow> raw_field \<Rightarrow> field_id \<Rightarrow> bool" where
  "immutable_input spec machine policy field i \<longleftrightarrow>
     i = sm_state_field machine \<or> i = pol_owner_field policy
     \<or> (case fld_type field of FRef _ \<Rightarrow> True | _ \<Rightarrow> False)
     \<or> list_ex (\<lambda>capture. cap_line_table capture = sm_table_id machine
           \<and> (cap_captured_price_field capture = i \<or> cap_product_ref_field capture = i))
         (app_capture_rules (spec_def spec))"

definition check_input_decl ::
  "checked_app_spec \<Rightarrow> (string \<Rightarrow> error) \<Rightarrow> raw_state_machine \<Rightarrow> raw_owner_role_policy \<Rightarrow>
     field_id set \<Rightarrow> command_input \<Rightarrow> (error, field_id set) outcome" where
  "check_input_decl spec invalid machine policy seen input =
     and_then (ok_or (invalid ''unknown input field'')
                 (spec_field spec (sm_table_id machine) (inp_field_id input))) (\<lambda>field.
     if inp_field_id input \<in> seen \<or> immutable_input spec machine policy field (inp_field_id input)
     then Err (invalid ''duplicate or immutable input field'')
     else and_then (for_each (\<lambda>c. map_err (\<lambda>_. invalid ''invalid input constraint'')
                                   (check_type c (fld_type field))) (inp_constraints input))
       (\<lambda>_. Ok (insert (inp_field_id input) seen)))"

definition text_too_long :: "value \<Rightarrow> bool" where
  "text_too_long v = (case v of Text text \<Rightarrow> length text > MAX_TEXT_BYTES | _ \<Rightarrow> False)"

definition check_guard_decl ::
  "checked_app_spec \<Rightarrow> (string \<Rightarrow> error) \<Rightarrow> raw_state_machine \<Rightarrow> field_id set \<Rightarrow> command_guard \<Rightarrow>
     (error, field_id set) outcome" where
  "check_guard_decl spec invalid machine seen grd =
     and_then (ok_or (invalid ''unknown guard field'')
                 (spec_field spec (sm_table_id machine) (grd_field_id grd))) (\<lambda>field.
     if grd_field_id grd \<in> seen \<or> (case fld_type field of FRef _ \<Rightarrow> True | _ \<Rightarrow> False)
        \<or> \<not> value_matches (fld_type field) (grd_equals grd) \<or> text_too_long (grd_equals grd)
     then Err (invalid ''duplicate or incompatible equality guard'')
     else Ok (insert (grd_field_id grd) seen))"

definition check_event_decl ::
  "(string \<Rightarrow> error) \<Rightarrow> raw_owner_role_policy \<Rightarrow> event_id set \<Rightarrow> raw_event_intent \<Rightarrow> (error, event_id set) outcome"
where
  "check_event_decl invalid policy seen event =
     (if evt_event_id event \<in> seen
         \<or> list_ex (\<lambda>field. \<not> bs_contains (pol_read_fields policy) field) (bs_list (evt_fields event))
      then Err (invalid ''duplicate event or non-readable payload field'')
      else Ok (insert (evt_event_id event) seen))"

definition find_machine :: "checked_app_spec \<Rightarrow> raw_command \<Rightarrow> raw_state_machine option" where
  "find_machine spec command =
     List.find (\<lambda>machine. sm_machine_id machine = cmd_state_machine_id command) (app_state_machines (spec_def spec))"

definition find_policy :: "checked_app_spec \<Rightarrow> raw_command \<Rightarrow> raw_owner_role_policy option" where
  "find_policy spec command =
     List.find (\<lambda>policy. pol_rule_id policy = cmd_policy_rule_id command) (app_policies (spec_def spec))"

definition check_command ::
  "checked_app_spec \<Rightarrow> command_id set \<Rightarrow> raw_command \<Rightarrow> (error, command_id set) outcome" where
  "check_command spec ids command =
     (let invalid = InvalidCommand (cmd_command_id command) in
      if cmd_command_id command \<in> ids \<or> cmd_revision command = 0
      then Err (invalid ''duplicate command identity or zero revision'')
      else
        and_then (ok_or (invalid ''unknown state machine'') (find_machine spec command)) (\<lambda>machine.
        and_then (ok_or (invalid ''unknown policy'') (find_policy spec command)) (\<lambda>policy.
        if pol_table_id policy \<noteq> sm_table_id machine \<or> pol_owner_field policy = sm_state_field machine
        then Err (invalid ''policy and state bindings do not match'')
        else if \<not> bs_contains (sm_states machine) (cmd_from_state command)
           \<or> \<not> bs_contains (sm_states machine) (cmd_to_state command)
           \<or> bs_contains (sm_terminal_states machine) (cmd_from_state command)
           \<or> cmd_from_state command = cmd_to_state command
        then Err (invalid ''unknown, terminal, or identical transition states'')
        else
          and_then (fold_m (check_input_decl spec invalid machine policy) {} (cmd_inputs command)) (\<lambda>_.
          and_then (fold_m (check_guard_decl spec invalid machine) {} (cmd_guards command)) (\<lambda>_.
          and_then (fold_m (check_event_decl invalid policy) {} (cmd_events command)) (\<lambda>_.
          Ok (insert (cmd_command_id command) ids)))))))"

definition check_declarations :: "checked_app_spec \<Rightarrow> (error, unit) outcome" where
  "check_declarations spec =
     and_then (fold_m (check_machine spec) ({}, {}) (app_state_machines (spec_def spec))) (\<lambda>_.
     and_then (fold_m (check_command spec) {} (app_commands (spec_def spec))) (\<lambda>_. Ok ()))"

section \<open>What a checked declaration guarantees\<close>

definition machine_ok :: "checked_app_spec \<Rightarrow> raw_state_machine \<Rightarrow> bool" where
  "machine_ok spec machine \<longleftrightarrow>
     bs_list (sm_states machine) \<noteq> []
     \<and> (\<forall>s\<in>set (bs_list (sm_states machine)). state_name_valid s \<and> \<not> state_violates spec machine s)
     \<and> set (bs_list (sm_terminal_states machine)) \<subseteq> set (bs_list (sm_states machine))
     \<and> (\<exists>field. spec_field spec (sm_table_id machine) (sm_state_field machine) = Some field
          \<and> fld_type field = FText \<and> fld_required field)"

definition input_ok ::
  "checked_app_spec \<Rightarrow> raw_state_machine \<Rightarrow> raw_owner_role_policy \<Rightarrow> command_input \<Rightarrow> bool" where
  "input_ok spec machine policy input \<longleftrightarrow>
     (\<exists>field. spec_field spec (sm_table_id machine) (inp_field_id input) = Some field
        \<and> \<not> immutable_input spec machine policy field (inp_field_id input)
        \<and> (\<forall>c\<in>set (inp_constraints input). check_type c (fld_type field) = Ok ()))"

definition guard_ok :: "checked_app_spec \<Rightarrow> raw_state_machine \<Rightarrow> command_guard \<Rightarrow> bool" where
  "guard_ok spec machine grd \<longleftrightarrow>
     (\<exists>field. spec_field spec (sm_table_id machine) (grd_field_id grd) = Some field
        \<and> (\<forall>t. fld_type field \<noteq> FRef t)
        \<and> value_matches (fld_type field) (grd_equals grd) \<and> \<not> text_too_long (grd_equals grd))"

definition command_ok ::
  "checked_app_spec \<Rightarrow> raw_state_machine \<Rightarrow> raw_owner_role_policy \<Rightarrow> raw_command \<Rightarrow> bool" where
  "command_ok spec machine policy command \<longleftrightarrow>
     find_machine spec command = Some machine \<and> find_policy spec command = Some policy
     \<and> cmd_revision command \<noteq> 0
     \<and> pol_table_id policy = sm_table_id machine \<and> pol_owner_field policy \<noteq> sm_state_field machine
     \<and> cmd_from_state command \<in> set (bs_list (sm_states machine))
     \<and> cmd_to_state command \<in> set (bs_list (sm_states machine))
     \<and> cmd_from_state command \<notin> set (bs_list (sm_terminal_states machine))
     \<and> cmd_from_state command \<noteq> cmd_to_state command
     \<and> distinct (map inp_field_id (cmd_inputs command))
     \<and> (\<forall>input\<in>set (cmd_inputs command). input_ok spec machine policy input)
     \<and> distinct (map grd_field_id (cmd_guards command))
     \<and> (\<forall>grd\<in>set (cmd_guards command). guard_ok spec machine grd)
     \<and> distinct (map evt_event_id (cmd_events command))
     \<and> (\<forall>event\<in>set (cmd_events command).
          set (bs_list (evt_fields event)) \<subseteq> set (bs_list (pol_read_fields policy)))"

definition declarations_ok :: "checked_app_spec \<Rightarrow> bool" where
  "declarations_ok spec \<longleftrightarrow>
     distinct (map sm_machine_id (app_state_machines (spec_def spec)))
     \<and> distinct (map sm_table_id (app_state_machines (spec_def spec)))
     \<and> (\<forall>machine\<in>set (app_state_machines (spec_def spec)). machine_ok spec machine)
     \<and> distinct (map cmd_command_id (app_commands (spec_def spec)))
     \<and> (\<forall>command\<in>set (app_commands (spec_def spec)). \<exists>machine policy. command_ok spec machine policy command)"

section \<open>The checks establish it\<close>

lemma bt_len_0_iff: "bt_len (s :: 'k::linorder btree_set) = 0 \<longleftrightarrow> bs_list s = []"
  by (simp add: bt_len_def bs_list_def bt_keys_def)

lemma check_machine_Ok_iff:
  "check_machine spec seen machine = Ok seen' \<longleftrightarrow>
     sm_machine_id machine \<notin> fst seen \<and> sm_table_id machine \<notin> snd seen \<and> machine_ok spec machine
     \<and> seen' = (insert (sm_machine_id machine) (fst seen), insert (sm_table_id machine) (snd seen))"
  by (cases seen)
    (auto simp: check_machine_def machine_ok_def Let_def outcome_simps bt_len_0_iff list_ex_iff
      bs_subset_iff split: option.splits)

lemma check_machines_Ok_iff:
  "fold_m (check_machine spec) seen ms = Ok seen' \<longleftrightarrow>
     distinct (map sm_machine_id ms) \<and> distinct (map sm_table_id ms)
     \<and> sm_machine_id ` set ms \<inter> fst seen = {} \<and> sm_table_id ` set ms \<inter> snd seen = {}
     \<and> (\<forall>m\<in>set ms. machine_ok spec m)
     \<and> seen' = (fst seen \<union> sm_machine_id ` set ms, snd seen \<union> sm_table_id ` set ms)"
  by (induction ms arbitrary: seen) (auto simp: and_then_Ok_iff check_machine_Ok_iff)

lemma check_input_decls_Ok_iff:
  "fold_m (check_input_decl spec invalid machine policy) seen xs = Ok s' \<longleftrightarrow>
     distinct (map inp_field_id xs) \<and> inp_field_id ` set xs \<inter> seen = {}
     \<and> (\<forall>x\<in>set xs. input_ok spec machine policy x) \<and> s' = seen \<union> inp_field_id ` set xs"
  by (rule seen_fold_Ok_iff)
    (auto simp: check_input_decl_def input_ok_def outcome_simps split: if_splits)

lemma ref_case_iff: "(case t of FRef x \<Rightarrow> True | _ \<Rightarrow> False) \<longleftrightarrow> (\<exists>x. t = FRef x)"
  by (cases t) auto

lemma check_guard_decls_Ok_iff:
  "fold_m (check_guard_decl spec invalid machine) seen xs = Ok s' \<longleftrightarrow>
     distinct (map grd_field_id xs) \<and> grd_field_id ` set xs \<inter> seen = {}
     \<and> (\<forall>x\<in>set xs. guard_ok spec machine x) \<and> s' = seen \<union> grd_field_id ` set xs"
  by (rule seen_fold_Ok_iff)
    (auto simp: check_guard_decl_def guard_ok_def outcome_simps ref_case_iff simp del: field_type.case)

lemma check_event_decls_Ok_iff:
  "fold_m (check_event_decl invalid policy) seen xs = Ok s' \<longleftrightarrow>
     distinct (map evt_event_id xs) \<and> evt_event_id ` set xs \<inter> seen = {}
     \<and> (\<forall>x\<in>set xs. set (bs_list (evt_fields x)) \<subseteq> set (bs_list (pol_read_fields policy)))
     \<and> s' = seen \<union> evt_event_id ` set xs"
  by (rule seen_fold_Ok_iff)
    (auto simp: check_event_decl_def list_ex_iff bs_contains_iff split: if_splits)

lemma check_command_Ok_iff:
  "check_command spec ids command = Ok ids' \<longleftrightarrow>
     cmd_command_id command \<notin> ids \<and> (\<exists>machine policy. command_ok spec machine policy command)
     \<and> ids' = insert (cmd_command_id command) ids"
proof (cases "find_machine spec command")
  case None
  then show ?thesis by (simp add: check_command_def command_ok_def Let_def)
next
  case (Some machine)
  show ?thesis
  proof (cases "find_policy spec command")
    case None
    with Some show ?thesis by (simp add: check_command_def command_ok_def Let_def)
  next
    case policy: (Some policy)
    show ?thesis
      by (auto simp: check_command_def command_ok_def Let_def Some policy outcome_simps bs_contains_iff
          check_input_decls_Ok_iff check_guard_decls_Ok_iff check_event_decls_Ok_iff split: if_splits)
  qed
qed

lemma check_commands_Ok_iff:
  "fold_m (check_command spec) ids cs = Ok ids' \<longleftrightarrow>
     distinct (map cmd_command_id cs) \<and> cmd_command_id ` set cs \<inter> ids = {}
     \<and> (\<forall>c\<in>set cs. \<exists>machine policy. command_ok spec machine policy c) \<and> ids' = ids \<union> cmd_command_id ` set cs"
  by (rule seen_fold_Ok_iff) (rule check_command_Ok_iff)

lemma check_declarations_Ok_iff: "check_declarations spec = Ok u \<longleftrightarrow> declarations_ok spec"
  by (auto simp: check_declarations_def declarations_ok_def and_then_Ok_iff check_machines_Ok_iff
      check_commands_Ok_iff)

lemma check_type_error_not_Panic: "for_each (\<lambda>c. map_err f (check_type c t)) cs \<noteq> Panic"
  by (rule for_each_not_Panic) (simp add: map_err_Panic_iff)

lemma check_declarations_not_Panic [simp]: "check_declarations spec \<noteq> Panic"
proof -
  have machine: "check_machine spec seen m \<noteq> Panic" for seen m
  proof -
    have "for_each (\<lambda>state. if state_violates spec m state then Err e else Ok ()) xs \<noteq> Panic" for e :: error and xs
      by (rule for_each_not_Panic) simp
    then show ?thesis by (cases seen) (auto simp: check_machine_def Let_def and_then_Panic_iff split: if_splits)
  qed
  have inputs: "fold_m (check_input_decl spec invalid m p) s xs \<noteq> Panic" for invalid m p s xs
    by (rule fold_m_not_Panic)
      (auto simp: check_input_decl_def and_then_Panic_iff check_type_error_not_Panic split: if_splits)
  have guards: "fold_m (check_guard_decl spec invalid m) s xs \<noteq> Panic" for invalid m s xs
    by (rule fold_m_not_Panic) (auto simp: check_guard_decl_def and_then_Panic_iff)
  have events: "fold_m (check_event_decl invalid p) s xs \<noteq> Panic" for invalid p s xs
    by (rule fold_m_not_Panic) (auto simp: check_event_decl_def)
  have "check_command spec ids c \<noteq> Panic" for ids c
    by (auto simp: check_command_def Let_def and_then_Panic_iff inputs guards events split: if_splits)
  then show ?thesis
    by (auto simp: check_declarations_def and_then_Panic_iff
        dest: fold_m_not_Panic [THEN notE, rotated] simp: fold_m_not_Panic machine)
qed

lemma check_limits_not_Panic [simp]: "check_limits raw \<noteq> Panic"
proof -
  have counts: "check_counts xs \<noteq> Panic" for xs
    unfolding check_counts_def by (rule for_each_not_Panic) auto
  have "check_command_limits c \<noteq> Panic" for c
    by (auto simp: check_command_limits_def and_then_Panic_iff counts)
  then show ?thesis
    by (auto simp: check_limits_def and_then_Panic_iff counts for_each_not_Panic)
qed

text \<open>The index of a command and of a table's machine.\<close>

lemma command_ok_of:
  assumes "declarations_ok spec" and "command \<in> set (app_commands (spec_def spec))"
  obtains machine policy where "command_ok spec machine policy command"
  using assms by (auto simp: declarations_ok_def)

lemma machine_of_table:
  assumes "declarations_ok spec" and "m \<in> set (app_state_machines (spec_def spec))"
    and "m' \<in> set (app_state_machines (spec_def spec))" and "sm_table_id m = sm_table_id m'"
  shows "m = m'"
  using assms by (auto simp: declarations_ok_def distinct_map dest: inj_onD)

text \<open>
  The check of the declarations accepts exactly the sound ones: one machine per table over finite
  non-empty, well-named states its own constraints accept, terminal states among them; and commands
  that name an existing machine and a policy of the same table, move between two different declared
  states and never out of a terminal one, write only known fields other than the state, the owner,
  references and captured prices, and disclose in their events only readable fields.
\<close>

theorem check_declarations_accepts_exactly:
  "check_declarations spec = Ok () \<longleftrightarrow> declarations_ok spec"
  by (rule check_declarations_Ok_iff)

end
