(* ===== verification/Compile.thy ===== *)
theory Compile
  imports Command_Decls Submit
begin

text \<open>
  Compiling a definition (\<open>crates/evobase-appspec/src/model.rs\<close>): \<open>CheckedAppSpec::compile\<close> in its
  stages, \<open>decode\<close> and the round trip. A compiled definition is in canonical order, its identities
  are unique and its references, captures, policies, submit rules, machines and commands all refer
  to what exists (\<open>wf_spec\<close>).
\<close>

section \<open>Stages\<close>

definition name_valid :: "string \<Rightarrow> bool" where
  "name_valid name \<longleftrightarrow>
     \<not> (name = [] \<or> length name > MAX_NAME_BYTES \<or> list_ex is_control (str_chars name))"

definition check_name :: "string \<Rightarrow> string \<Rightarrow> (error, unit) outcome" where
  "check_name name path = (if \<not> name_valid name then Err (InvalidName path) else Ok ())"

text \<open>Versions and counts, before anything is looked at.\<close>

definition check_header :: "raw_app_spec \<Rightarrow> (error, unit) outcome" where
  "check_header d =
     (if \<not> (app_version d = 1 \<or> app_version d = FORMAT_VERSION)
      then Err (UnsupportedVersion (app_version d) FORMAT_VERSION)
      else if app_version d = 1 \<and> app_constraints d \<noteq> [] then Err (UnsupportedDeclaration 1 ''constraints'')
      else if length (app_constraints d) > MAX_CONSTRAINTS then Err (LimitExceeded ''constraints'' MAX_CONSTRAINTS)
      else if app_version d = 1 \<and> app_state_machines d \<noteq> [] then Err (UnsupportedDeclaration 1 ''state_machines'')
      else if app_version d = 1 \<and> app_commands d \<noteq> [] then Err (UnsupportedDeclaration 1 ''commands'')
      else and_then (check_limits d) (\<lambda>_.
        if length (app_tables d) > MAX_TABLES then Err (LimitExceeded ''tables'' MAX_TABLES)
        else if length (app_capture_rules d) > MAX_FIELDS then Err (LimitExceeded ''capture rules'' MAX_FIELDS)
        else check_name (app_name d) ''app.name''))"

definition sort_fields :: "raw_table \<Rightarrow> raw_table" where
  "sort_fields table = table\<lparr>tbl_fields := sort_key fld_id (tbl_fields table)\<rparr>"

definition check_table ::
  "table_id set \<times> field_id set \<times> nat \<Rightarrow> raw_table \<Rightarrow> (error, table_id set \<times> field_id set \<times> nat) outcome" where
  "check_table = (\<lambda>(table_ids, field_ids, n) table.
     if tbl_id table \<in> table_ids then Err (DuplicateTable (tbl_id table))
     else and_then (check_name (tbl_name table) (as_str (tbl_id table) @ ''.name'')) (\<lambda>_.
       if length (tbl_fields table) > MAX_FIELDS_PER_TABLE
       then Err (LimitExceeded ''fields per table'' MAX_FIELDS_PER_TABLE)
       else if n + length (tbl_fields table) > MAX_FIELDS then Err (LimitExceeded ''fields'' MAX_FIELDS)
       else and_then (unique_loop field_ids fld_id (\<lambda>field. DuplicateField (tbl_id table) (fld_id field))
              (\<lambda>field. check_name (fld_name field)
                 (as_str (tbl_id table) @ ''.'' @ as_str (fld_id field) @ ''.name''))
              (tbl_fields (sort_fields table)))
         (\<lambda>_. Ok (insert (tbl_id table) table_ids, field_ids \<union> fld_id ` set (tbl_fields table),
                  n + length (tbl_fields table)))))"

definition check_field_target :: "table_id set \<Rightarrow> raw_field \<Rightarrow> (error, unit) outcome" where
  "check_field_target table_ids field =
     (case fld_type field of
        FRef target \<Rightarrow> if target \<notin> table_ids then Err (UnknownTable target) else Ok ()
      | _ \<Rightarrow> Ok ())"

definition sort_command :: "raw_command \<Rightarrow> raw_command" where
  "sort_command command = command\<lparr>
     cmd_inputs := sort_key inp_field_id (cmd_inputs command),
     cmd_guards := sort_key grd_field_id (cmd_guards command),
     cmd_events := sort_key evt_event_id (cmd_events command)\<rparr>"

text \<open>Everything \<open>compile\<close> sorts.\<close>

definition normalize_definition :: "raw_app_spec \<Rightarrow> raw_app_spec" where
  "normalize_definition d = d\<lparr>
     app_tables := map sort_fields (sort_key tbl_id (app_tables d)),
     app_capture_rules := sort_key (\<lambda>r. (cap_line_table r, cap_captured_price_field r)) (app_capture_rules d),
     app_policies := sort_key pol_rule_id (app_policies d),
     app_submit_rules := sort_key sub_rule_id (app_submit_rules d),
     app_constraints := sort_key fc_constraint_id (app_constraints d),
     app_state_machines := sort_key sm_machine_id (app_state_machines d),
     app_commands := map sort_command (sort_key cmd_command_id (app_commands d))\<rparr>"

definition capture_target :: "capture_rule \<Rightarrow> table_id \<times> field_id" where
  "capture_target r = (cap_line_table r, cap_captured_price_field r)"

definition check_capture :: "checked_app_spec \<Rightarrow> capture_rule \<Rightarrow> (error, unit) outcome" where
  "check_capture spec rule =
     and_then (ok_or (UnknownField (cap_line_table rule) (cap_product_ref_field rule))
                 (spec_field spec (cap_line_table rule) (cap_product_ref_field rule))) (\<lambda>reference.
     case fld_type reference of
       FRef target_table \<Rightarrow>
         if (target_table, cap_product_price_field rule) \<in> set (map capture_target (app_capture_rules (spec_def spec)))
         then Err (InvalidCapture ''capture sources cannot be captured fields'')
         else
           and_then (ok_or (UnknownField target_table (cap_product_price_field rule))
                       (spec_field spec target_table (cap_product_price_field rule))) (\<lambda>source.
           and_then (ok_or (UnknownField (cap_line_table rule) (cap_captured_price_field rule))
                       (spec_field spec (cap_line_table rule) (cap_captured_price_field rule))) (\<lambda>target.
           if fld_type source \<noteq> FMoney \<or> fld_type target \<noteq> FMoney
           then Err (InvalidCapture ''capture source and destination must be money'') else Ok ()))
     | _ \<Rightarrow> Err (InvalidCapture ''capture source must be a reference''))"

definition check_captures :: "checked_app_spec \<Rightarrow> (error, unit) outcome" where
  "check_captures spec =
     unique_loop {} capture_target
       (\<lambda>rule. InvalidCapture (''duplicate capture '' @ as_str (cap_line_table rule) @ ''.''
          @ as_str (cap_captured_price_field rule)))
       (check_capture spec) (app_capture_rules (spec_def spec))"

definition check_policy ::
  "checked_app_spec \<Rightarrow> string set \<times> table_id set \<times> owner_role_policy list \<Rightarrow> raw_owner_role_policy \<Rightarrow>
     (error, string set \<times> table_id set \<times> owner_role_policy list) outcome" where
  "check_policy spec = (\<lambda>(rule_ids, policy_tables, policies) rule.
     if pol_rule_id rule \<in> rule_ids \<or> pol_table_id rule \<in> policy_tables
     then Err (InvalidPolicy (pol_rule_id rule))
     else and_then (map_err (\<lambda>_. InvalidPolicy (pol_rule_id rule)) (policy_check spec rule)) (\<lambda>policy.
       Ok (insert (pol_rule_id rule) rule_ids, insert (pol_table_id rule) policy_tables, policies @ [policy])))"

definition check_submit_rule ::
  "checked_app_spec \<Rightarrow> owner_role_policy list \<Rightarrow> string set \<Rightarrow> raw_submit_order_rule \<Rightarrow> (error, string set) outcome"
where
  "check_submit_rule spec policies rule_ids rule =
     (if sub_rule_id rule \<in> rule_ids then Err (InvalidPolicy (sub_rule_id rule))
      else and_then (ok_or (InvalidPolicy (sub_rule_id rule))
              (List.find (\<lambda>policy. orp_rule_id policy = sub_policy_rule_id rule) policies)) (\<lambda>policy.
        and_then (map_err (\<lambda>_. InvalidPolicy (sub_rule_id rule)) (submit_rule_check spec policy rule)) (\<lambda>_.
        Ok (insert (sub_rule_id rule) rule_ids))))"

text \<open>From the construction of the checked value on.\<close>

definition check_spec :: "serde \<Rightarrow> checked_app_spec \<Rightarrow> (error, unit) outcome" where
  "check_spec J spec =
     and_then (check_constraints spec) (\<lambda>_.
     and_then (check_captures spec) (\<lambda>_.
     and_then (bounded_encode (ser_spec J) (spec_def spec)) (\<lambda>_.
     if length (app_policies (spec_def spec)) > 64 \<or> length (app_submit_rules (spec_def spec)) > 64
     then Err (LimitExceeded ''policy/command rules'' 64)
     else
       and_then (fold_m (check_policy spec) ({}, {}, []) (app_policies (spec_def spec)))
         (\<lambda>(rule_ids, _, policies).
       and_then (fold_m (check_submit_rule spec policies) rule_ids (app_submit_rules (spec_def spec))) (\<lambda>_.
       check_declarations spec)))))"

definition compile :: "serde \<Rightarrow> raw_app_spec \<Rightarrow> (error, checked_app_spec) outcome" where
  "compile J d =
     and_then (check_header d) (\<lambda>_.
     let tables = sort_key tbl_id (app_tables d) in
     and_then (fold_m check_table ({}, {}, 0) tables) (\<lambda>(table_ids, _, _).
     and_then (for_each (\<lambda>table. for_each (check_field_target table_ids) (tbl_fields (sort_fields table))) tables) (\<lambda>_.
     let spec = CheckedAppSpec (normalize_definition d) in
     and_then (check_spec J spec) (\<lambda>_. Ok spec))))"

definition spec_decode :: "serde \<Rightarrow> string \<Rightarrow> (error, checked_app_spec) outcome" where
  "spec_decode J bytes = and_then (bounded_decode (de_spec J) bytes) (compile J)"

section \<open>Canonical order\<close>

lemma sort_fields_simps [simp]:
  "tbl_id (sort_fields t) = tbl_id t" "tbl_name (sort_fields t) = tbl_name t"
  "length (tbl_fields (sort_fields t)) = length (tbl_fields t)"
  "set (tbl_fields (sort_fields t)) = set (tbl_fields t)"
  by (simp_all add: sort_fields_def)

lemma sort_key_idem [simp]: "sort_key k (sort_key k xs) = sort_key k xs"
  by (rule sort_key_id_if_sorted) simp

lemma sort_key_map_same: "(\<And>x. k (f x) = k x) \<Longrightarrow> sort_key k (map f (sort_key k xs)) = map f (sort_key k xs)"
  by (rule sort_key_id_if_sorted) (simp add: comp_def)

lemma sort_fields_idem [simp]: "sort_fields (sort_fields t) = sort_fields t"
  by (simp add: sort_fields_def)

lemma sort_command_simps [simp]:
  "cmd_command_id (sort_command c) = cmd_command_id c" "cmd_revision (sort_command c) = cmd_revision c"
  "cmd_state_machine_id (sort_command c) = cmd_state_machine_id c"
  "length (cmd_inputs (sort_command c)) = length (cmd_inputs c)" "set (cmd_inputs (sort_command c)) = set (cmd_inputs c)"
  "length (cmd_guards (sort_command c)) = length (cmd_guards c)" "set (cmd_guards (sort_command c)) = set (cmd_guards c)"
  "length (cmd_events (sort_command c)) = length (cmd_events c)" "set (cmd_events (sort_command c)) = set (cmd_events c)"
  by (simp_all add: sort_command_def)

lemma sort_command_idem [simp]: "sort_command (sort_command c) = sort_command c"
  by (simp add: sort_command_def)

lemma normalize_definition_idem [simp]:
  "normalize_definition (normalize_definition d) = normalize_definition d"
  by (simp add: normalize_definition_def sort_key_map_same comp_def)

lemma normalize_definition_simps [simp]:
  "app_version (normalize_definition d) = app_version d"
  "app_app_id (normalize_definition d) = app_app_id d"
  "app_name (normalize_definition d) = app_name d"
  "app_tables (normalize_definition d) = map sort_fields (sort_key tbl_id (app_tables d))"
  by (simp_all add: normalize_definition_def)

lemma check_counts_Ok_iff: "check_counts xs = Ok u \<longleftrightarrow> (\<forall>(r, n, l)\<in>set xs. n \<le> l)"
  by (auto simp: check_counts_def for_each_Ok_iff)

lemma check_command_limits_sort [simp]: "check_command_limits (sort_command c) = check_command_limits c"
  by (simp add: check_command_limits_def list_ex_iff)

lemma check_limits_normalize: "check_limits d = Ok () \<Longrightarrow> check_limits (normalize_definition d) = Ok ()"
  by (auto simp: check_limits_def and_then_Ok_iff for_each_Ok_iff check_counts_Ok_iff normalize_definition_def)

lemma sort_key_Nil_iff [simp]: "sort_key k xs = [] \<longleftrightarrow> xs = []"
  by (metis length_0_conv length_sort)

lemma check_header_normalize: "check_header d = Ok () \<Longrightarrow> check_header (normalize_definition d) = Ok ()"
  using check_limits_normalize [of d]
  by (auto simp: check_header_def and_then_Ok_iff normalize_definition_def split: if_splits)

lemma check_table_sort [simp]: "check_table s (sort_fields t) = check_table s t"
  by (cases s) (simp add: check_table_def)

lemma fold_check_table_sort: "fold_m check_table s (map sort_fields ts) = fold_m check_table s ts"
  by (induction ts arbitrary: s) (auto intro!: and_then_cong)

lemma for_each_map: "for_each f (map g xs) = for_each (f \<circ> g) xs"
  by (induction xs) (auto intro!: and_then_cong)

lemma compile_Ok_iff:
  "compile J d = Ok spec \<longleftrightarrow>
     check_header d = Ok ()
     \<and> (\<exists>tids fids n. fold_m check_table ({}, {}, 0) (sort_key tbl_id (app_tables d)) = Ok (tids, fids, n)
          \<and> (\<forall>table\<in>set (app_tables d). \<forall>field\<in>set (tbl_fields table). check_field_target tids field = Ok ()))
     \<and> spec = CheckedAppSpec (normalize_definition d) \<and> check_spec J spec = Ok ()"
  by (auto simp: compile_def Let_def and_then_Ok_iff for_each_Ok_iff)

lemma compile_normalized:
  assumes "compile J d = Ok spec"
  shows "compile J (spec_def spec) = Ok spec"
proof -
  let ?n = "normalize_definition d"
  from assms obtain tids fids n where header: "check_header d = Ok ()"
    and tables: "fold_m check_table ({}, {}, 0) (sort_key tbl_id (app_tables d)) = Ok (tids, fids, n)"
    and targets: "\<forall>table\<in>set (app_tables d). \<forall>field\<in>set (tbl_fields table). check_field_target tids field = Ok ()"
    and spec: "spec = CheckedAppSpec ?n" and check: "check_spec J spec = Ok ()"
    by (auto simp: compile_Ok_iff)
  have "fold_m check_table ({}, {}, 0) (sort_key tbl_id (app_tables ?n)) = Ok (tids, fids, n)"
    using tables by (simp add: sort_key_map_same fold_check_table_sort)
  with header targets check spec show ?thesis
    by (auto simp: compile_Ok_iff check_header_normalize)
qed

text \<open>
  Compiling is idempotent: the definition of a compiled application compiles again, to itself. So
  re-compiling what the store or the wire holds never changes an application.
\<close>

theorem compile_idempotent:
  assumes "compile J d = Ok spec"
  shows "compile J (spec_def spec) = Ok spec"
  using assms by (rule compile_normalized)

text \<open>
  Encoding and decoding an application gives it back, whatever JSON library writes and reads it,
  as long as the library reads what it wrote.
\<close>

theorem spec_decode_encode:
  assumes "compile J d = Ok spec" and "spec_encode J spec = Ok bytes"
    and "de_spec J (concat (ser_spec J (spec_def spec))) = Ok (spec_def spec)"
  shows "spec_decode J bytes = Ok spec"
  using assms compile_normalized [OF assms(1)]
  by (auto simp: spec_encode_def spec_decode_def bounded_encode_Ok_iff bounded_decode_def)

section \<open>What a compiled definition guarantees\<close>

definition capture_ok :: "checked_app_spec \<Rightarrow> capture_rule \<Rightarrow> bool" where
  "capture_ok spec rule \<longleftrightarrow> (\<exists>target.
     spec_field_type spec (cap_line_table rule) (cap_product_ref_field rule) = Some (FRef target)
     \<and> spec_field_type spec target (cap_product_price_field rule) = Some FMoney
     \<and> spec_field_type spec (cap_line_table rule) (cap_captured_price_field rule) = Some FMoney
     \<and> (target, cap_product_price_field rule) \<notin> capture_target ` set (app_capture_rules (spec_def spec)))"

definition wf_spec :: "checked_app_spec \<Rightarrow> bool" where
  "wf_spec spec \<longleftrightarrow>
     distinct (map tbl_id (app_tables (spec_def spec)))
     \<and> distinct (map fld_id (concat (map tbl_fields (app_tables (spec_def spec)))))
     \<and> length (concat (map tbl_fields (app_tables (spec_def spec)))) \<le> MAX_FIELDS
     \<and> (\<forall>table\<in>set (app_tables (spec_def spec)). name_valid (tbl_name table)
          \<and> (\<forall>field\<in>set (tbl_fields table). name_valid (fld_name field)
               \<and> (\<forall>target. fld_type field = FRef target \<longrightarrow> spec_table spec target \<noteq> None)))
     \<and> check_constraints spec = Ok ()
     \<and> distinct (map capture_target (app_capture_rules (spec_def spec)))
     \<and> (\<forall>rule\<in>set (app_capture_rules (spec_def spec)). capture_ok spec rule)
     \<and> distinct (map pol_rule_id (app_policies (spec_def spec)))
     \<and> distinct (map pol_table_id (app_policies (spec_def spec)))
     \<and> (\<forall>rule\<in>set (app_policies (spec_def spec)). is_ok (policy_check spec rule))
     \<and> distinct (map sub_rule_id (app_submit_rules (spec_def spec)))
     \<and> (\<forall>rule\<in>set (app_submit_rules (spec_def spec)). \<exists>policy.
          orp_rule policy \<in> set (app_policies (spec_def spec)) \<and> policy_check spec (orp_rule policy) = Ok policy
          \<and> submit_rule_valid spec policy rule)
     \<and> declarations_ok spec"

lemma check_name_Ok_iff [outcome_simps]: "check_name name path = Ok u \<longleftrightarrow> name_valid name"
  by (auto simp: check_name_def)

lemma check_table_Ok_iff:
  "check_table (tids, fids, n) t = Ok s \<longleftrightarrow>
     tbl_id t \<notin> tids \<and> name_valid (tbl_name t) \<and> length (tbl_fields t) \<le> MAX_FIELDS_PER_TABLE
     \<and> n + length (tbl_fields t) \<le> MAX_FIELDS
     \<and> distinct (map fld_id (tbl_fields t)) \<and> fld_id ` set (tbl_fields t) \<inter> fids = {}
     \<and> (\<forall>f\<in>set (tbl_fields t). name_valid (fld_name f))
     \<and> s = (insert (tbl_id t) tids, fids \<union> fld_id ` set (tbl_fields t), n + length (tbl_fields t))"
  by (auto simp: check_table_def outcome_simps sort_fields_def distinct_sort_key split: if_splits)

lemma check_tables_Ok:
  "fold_m check_table (tids, fids, n) ts = Ok (tids', fids', n') \<Longrightarrow>
     distinct (map tbl_id ts) \<and> tbl_id ` set ts \<inter> tids = {}
     \<and> distinct (map fld_id (concat (map tbl_fields ts))) \<and> fld_id ` set (concat (map tbl_fields ts)) \<inter> fids = {}
     \<and> (ts = [] \<or> n + length (concat (map tbl_fields ts)) \<le> MAX_FIELDS)
     \<and> (\<forall>t\<in>set ts. name_valid (tbl_name t) \<and> (\<forall>f\<in>set (tbl_fields t). name_valid (fld_name f)))
     \<and> tids' = tids \<union> tbl_id ` set ts"
proof (induction ts arbitrary: tids fids n)
  case (Cons t ts)
  from Cons.prems have step: "check_table (tids, fids, n) t
      = Ok (insert (tbl_id t) tids, fids \<union> fld_id ` set (tbl_fields t), n + length (tbl_fields t))"
    and rest: "fold_m check_table (insert (tbl_id t) tids, fids \<union> fld_id ` set (tbl_fields t), n + length (tbl_fields t)) ts
      = Ok (tids', fids', n')"
    by (auto simp: and_then_Ok_iff check_table_Ok_iff)
  from step have t: "tbl_id t \<notin> tids" "name_valid (tbl_name t)" "n + length (tbl_fields t) \<le> MAX_FIELDS"
    "distinct (map fld_id (tbl_fields t))" "fld_id ` set (tbl_fields t) \<inter> fids = {}"
    "\<forall>f\<in>set (tbl_fields t). name_valid (fld_name f)"
    by (simp_all add: check_table_Ok_iff)
  note IH = Cons.IH [OF rest]
  from IH have "fld_id ` set (concat (map tbl_fields ts)) \<inter> fld_id ` set (tbl_fields t) = {}" by blast
  with IH t have "distinct (map fld_id (concat (map tbl_fields (t # ts))))" by (simp add: Int_commute)
  moreover from IH have "fld_id ` set (concat (map tbl_fields ts)) \<inter> fids = {}" by blast
  with t have "fld_id ` set (concat (map tbl_fields (t # ts))) \<inter> fids = {}"
    by (simp only: list.map concat.simps set_append image_Un Int_Un_distrib2) simp
  moreover from IH t have "n + length (concat (map tbl_fields (t # ts))) \<le> MAX_FIELDS" by (cases ts) auto
  ultimately show ?case using IH t by auto
qed simp

lemma check_capture_Ok_iff: "check_capture spec rule = Ok u \<longleftrightarrow> capture_ok spec rule"
proof (cases "spec_field spec (cap_line_table rule) (cap_product_ref_field rule)")
  case None
  then show ?thesis by (simp add: check_capture_def capture_ok_def spec_field_type_def)
next
  case (Some reference)
  then show ?thesis
    by (cases "fld_type reference")
      (auto simp: check_capture_def capture_ok_def spec_field_type_def outcome_simps)
qed

lemma check_policies_Ok:
  "fold_m (check_policy spec) (ids, tabs, ps) rules = Ok (ids', tabs', ps') \<Longrightarrow>
     distinct (map pol_rule_id rules) \<and> pol_rule_id ` set rules \<inter> ids = {}
     \<and> distinct (map pol_table_id rules) \<and> pol_table_id ` set rules \<inter> tabs = {}
     \<and> ids' = ids \<union> pol_rule_id ` set rules
     \<and> (\<exists>qs. ps' = ps @ qs \<and> list_all2 (\<lambda>rule policy. policy_check spec rule = Ok policy) rules qs)"
proof (induction rules arbitrary: ids tabs ps)
  case (Cons r rules)
  from Cons.prems obtain policy where r: "pol_rule_id r \<notin> ids" "pol_table_id r \<notin> tabs"
    and policy: "policy_check spec r = Ok policy"
    and rest: "fold_m (check_policy spec) (insert (pol_rule_id r) ids, insert (pol_table_id r) tabs, ps @ [policy]) rules
      = Ok (ids', tabs', ps')"
    by (auto simp: check_policy_def outcome_simps split: if_splits)
  from Cons.IH [OF rest] r policy show ?case by auto
qed simp

lemma check_submit_rules_Ok_iff:
  "fold_m (check_submit_rule spec policies) ids rules = Ok ids' \<longleftrightarrow>
     distinct (map sub_rule_id rules) \<and> sub_rule_id ` set rules \<inter> ids = {}
     \<and> (\<forall>rule\<in>set rules. \<exists>policy. List.find (\<lambda>policy. orp_rule_id policy = sub_policy_rule_id rule) policies = Some policy
          \<and> submit_rule_valid spec policy rule)
     \<and> ids' = ids \<union> sub_rule_id ` set rules"
  by (rule seen_fold_Ok_iff)
    (auto simp: check_submit_rule_def submit_rule_check_def outcome_simps split: if_splits)

lemma spec_table_exists: "spec_table spec t \<noteq> None \<longleftrightarrow> t \<in> tbl_id ` set (app_tables (spec_def spec))"
  by (auto simp: spec_table_def find_None_iff)

lemma mset_concat_map_cong:
  assumes "mset xs = mset ys"
  shows "mset (concat (map f xs)) = mset (concat (map f ys))"
proof -
  have "mset (concat (map f zs)) = sum_mset (image_mset (mset \<circ> f) (mset zs))" for zs
    by (induction zs) simp_all
  with assms show ?thesis by simp
qed

lemma distinct_concat_fields_normalize:
  "mset (concat (map tbl_fields (map sort_fields (sort_key tbl_id ts)))) = mset (concat (map tbl_fields ts))"
proof -
  have "mset (concat (map tbl_fields (map sort_fields xs))) = mset (concat (map tbl_fields xs))" for xs
    by (induction xs) (simp_all add: sort_fields_def)
  moreover have "mset (concat (map tbl_fields (sort_key tbl_id ts))) = mset (concat (map tbl_fields ts))"
    by (rule mset_concat_map_cong) simp
  ultimately show ?thesis by simp
qed

lemma compile_wf:
  assumes "compile J d = Ok spec"
  shows "wf_spec spec"
proof -
  from assms obtain tids fids n where
    tables: "fold_m check_table ({}, {}, 0) (sort_key tbl_id (app_tables d)) = Ok (tids, fids, n)"
    and targets: "\<forall>table\<in>set (app_tables d). \<forall>field\<in>set (tbl_fields table). check_field_target tids field = Ok ()"
    and spec: "spec = CheckedAppSpec (normalize_definition d)" and check: "check_spec J spec = Ok ()"
    by (auto simp: compile_Ok_iff)
  note ts = check_tables_Ok [OF tables]
  let ?d = "spec_def spec"
  have tabs: "app_tables ?d = map sort_fields (sort_key tbl_id (app_tables d))" by (simp add: spec)
  have ids: "map tbl_id (app_tables ?d) = map tbl_id (sort_key tbl_id (app_tables d))" by (simp add: tabs)
  have "mset (concat (map tbl_fields (app_tables ?d))) = mset (concat (map tbl_fields (sort_key tbl_id (app_tables d))))"
    unfolding tabs distinct_concat_fields_normalize by (rule mset_concat_map_cong) simp
  then have "mset (map fld_id (concat (map tbl_fields (app_tables ?d))))
      = mset (map fld_id (concat (map tbl_fields (sort_key tbl_id (app_tables d)))))" by (simp only: mset_map)
  note same = mset_eq_imp_distinct_iff [OF this] mset_eq_length [OF this]
  have one: "distinct (map tbl_id (app_tables ?d))" using ts by (simp add: ids)
  have two: "distinct (map fld_id (concat (map tbl_fields (app_tables ?d))))"
    using ts by (simp only: same)
  have "length (concat (map tbl_fields (sort_key tbl_id (app_tables d)))) \<le> MAX_FIELDS" using ts by auto
  then have three: "length (concat (map tbl_fields (app_tables ?d))) \<le> MAX_FIELDS"
    using same(2) by (simp only: length_map)
  have tids: "tids = tbl_id ` set (app_tables ?d)" using ts by (auto simp: tabs image_image)
  have "\<forall>table\<in>set (app_tables ?d). name_valid (tbl_name table)
      \<and> (\<forall>field\<in>set (tbl_fields table). name_valid (fld_name field)
           \<and> (\<forall>target. fld_type field = FRef target \<longrightarrow> spec_table spec target \<noteq> None))"
  proof -
    have "spec_table spec target \<noteq> None"
      if "table \<in> set (app_tables d)" "field \<in> set (tbl_fields table)" "fld_type field = FRef target"
      for table field target
    proof -
      from targets that(1,2) have "check_field_target tids field = Ok ()" by blast
      with that(3) have "target \<in> tids" by (auto simp: check_field_target_def split: if_splits)
      then show ?thesis by (simp only: spec_table_exists tids)
    qed
    with ts show ?thesis by (auto simp: tabs)
  qed
  moreover obtain rule_ids policy_tables policies where
    policies: "fold_m (check_policy spec) ({}, {}, []) (app_policies ?d) = Ok (rule_ids, policy_tables, policies)"
    and constraints: "check_constraints spec = Ok ()" and captures: "check_captures spec = Ok ()"
    and submits: "\<exists>s. fold_m (check_submit_rule spec policies) rule_ids (app_submit_rules ?d) = Ok s"
    and decls: "check_declarations spec = Ok ()"
    using check by (auto simp: check_spec_def and_then_Ok_iff split: if_splits)
  note ps = check_policies_Ok [OF policies, simplified]
  have pol: "policy \<in> set policies \<Longrightarrow> orp_rule policy \<in> set (app_policies ?d)
      \<and> policy_check spec (orp_rule policy) = Ok policy" for policy
    using ps by (auto dest!: list_all2_source dest: policy_check_Ok)
      (metis policy_check_Ok owner_role_policy.select_convs(3))+
  have "\<forall>rule\<in>set (app_policies ?d). is_ok (policy_check spec rule)"
    using ps by (auto simp: list_all2_conv_all_nth in_set_conv_nth is_ok_iff)
  moreover have "\<forall>rule\<in>set (app_submit_rules ?d). \<exists>policy.
      orp_rule policy \<in> set (app_policies ?d) \<and> policy_check spec (orp_rule policy) = Ok policy
      \<and> submit_rule_valid spec policy rule"
    using submits unfolding check_submit_rules_Ok_iff by (blast dest: find_Some_mem pol)
  moreover have "distinct (map sub_rule_id (app_submit_rules ?d))"
    using submits unfolding check_submit_rules_Ok_iff by blast
  moreover have "distinct (map capture_target (app_capture_rules ?d))"
      "\<forall>rule\<in>set (app_capture_rules ?d). capture_ok spec rule"
    using captures by (auto simp: check_captures_def unique_loop_Ok_iff check_capture_Ok_iff)
  ultimately show ?thesis
    unfolding wf_spec_def using one two three constraints ps decls
    by (simp only: check_declarations_Ok_iff simp_thms)
qed

text \<open>
  A compiled application is closed and unambiguous: table and field identities are unique, every
  reference points to an existing table, a captured price copies an uncaptured money field through
  a reference, constraints fit their fields, every policy and submit rule is a checked one with a
  unique identity, and its machines and commands are sound.
\<close>

theorem compiled_spec_well_formed:
  assumes "compile J d = Ok spec"
  shows "wf_spec spec"
  using assms by (rule compile_wf)

text \<open>
  Compiling never panics, whatever the definition: every failure is an error value.
\<close>

theorem compile_never_panics: "compile J d \<noteq> Panic"
proof -
  have table: "check_table s t \<noteq> Panic" for s t
    by (cases s)
      (auto simp: check_table_def and_then_Panic_iff check_name_def dest: unique_loop_not_Panic [THEN notE, rotated]
        split: if_splits)
  have target: "for_each (\<lambda>t. for_each (check_field_target tids) (tbl_fields (sort_fields t))) ts \<noteq> Panic" for tids ts
    by (intro for_each_not_Panic) (auto simp: check_field_target_def split: field_type.splits)
  have header: "check_header d \<noteq> Panic"
    by (auto simp: check_header_def and_then_Panic_iff check_name_def split: if_splits)
  have capture: "check_capture spec r \<noteq> Panic" for spec r
    by (auto simp: check_capture_def and_then_Panic_iff split: field_type.splits if_splits)
  have captures: "check_captures spec \<noteq> Panic" for spec
    unfolding check_captures_def by (rule unique_loop_not_Panic) (rule capture)
  have policy: "check_policy spec s r \<noteq> Panic" for spec s r
    by (cases s) (auto simp: check_policy_def and_then_Panic_iff map_err_Panic_iff policy_check_def split: if_splits)
  have submit: "check_submit_rule spec ps s r \<noteq> Panic" for spec ps s r
    by (auto simp: check_submit_rule_def and_then_Panic_iff map_err_Panic_iff submit_rule_check_def split: if_splits)
  have check: "check_spec J spec \<noteq> Panic" for spec
    by (auto simp: check_spec_def and_then_Panic_iff captures fold_m_not_Panic policy submit split: if_splits)
  show ?thesis
    by (auto simp: compile_def Let_def and_then_Panic_iff header table fold_m_not_Panic target check)
qed

section \<open>Witnesses\<close>

lemma example_policy_spec_compiles:
  "compile plain_serde example_policy_spec = Ok (CheckedAppSpec (normalize_definition example_policy_spec))"
  by code_simp

lemma support_workflow_compiles:
  "compile plain_serde support_workflow_spec = Ok (CheckedAppSpec (normalize_definition support_workflow_spec))"
  by code_simp

theorem compile_idempotent_witness:
  "compile plain_serde (normalize_definition example_policy_spec)
     = Ok (CheckedAppSpec (normalize_definition example_policy_spec))"
  using compile_idempotent [OF example_policy_spec_compiles] by simp

text \<open>A JSON library that writes and reads this one document.\<close>

definition one_document_serde :: "raw_app_spec \<Rightarrow> serde" where
  "one_document_serde d = plain_serde\<lparr>de_spec := (\<lambda>bytes. if bytes = ''{}'' then Ok d else Err ''unsupported'')\<rparr>"

theorem spec_decode_encode_witness:
  "\<exists>J spec bytes. spec_encode J spec = Ok bytes \<and> spec_decode J bytes = Ok spec"
proof -
  let ?d = "normalize_definition example_policy_spec"
  let ?J = "one_document_serde ?d"
  have compiles: "compile ?J example_policy_spec = Ok (CheckedAppSpec ?d)" by code_simp
  have encodes: "spec_encode ?J (CheckedAppSpec ?d) = Ok ''{}''" by code_simp
  have "spec_decode ?J ''{}'' = Ok (CheckedAppSpec ?d)"
    by (rule spec_decode_encode [OF compiles encodes])
      (simp add: one_document_serde_def plain_serde_def)
  with encodes show ?thesis by blast
qed

theorem compiled_spec_well_formed_witness:
  "wf_spec (CheckedAppSpec (normalize_definition support_workflow_spec))"
  by (rule compiled_spec_well_formed [OF support_workflow_compiles])

end
