(* ===== verification/Commands.thy ===== *)
theory Commands
  imports Compile
begin

text \<open>
  Declarative transitions (\<open>crates/evobase-appspec/src/commands.rs\<close>): \<open>prepare_command\<close> authorizes and
  bounds a request, \<open>decide_command\<close> turns it into one checked write with events and a receipt,
  \<open>available_command_records\<close> lists what could be executed.
\<close>

datatype command_error =
    CmdAuthority authority_error
  | CmdPolicy policy_error
  | Kernel error
  | UnknownCommand command_id
  | CmdInvalidInput "field_id option" string
  | CmdImmutableField field_id
  | InvalidTransition string string
  | GuardFailed field_id
  | RevisionRequired

section \<open>Preparing\<close>

record prepared_command =
  pre_spec :: checked_app_spec
  pre_facts :: checked_records
  pre_context :: trusted_context
  pre_policy :: owner_role_policy
  pre_command :: raw_command
  pre_machine :: raw_state_machine
  pre_request :: raw_command_request
  pre_intent_bytes :: string

definition request_key_valid :: "string \<Rightarrow> bool" where
  "request_key_valid key \<longleftrightarrow>
     \<not> (key = [] \<or> length key > 96 \<or> \<not> list_all id_byte key)"

definition check_input ::
  "checked_app_spec \<Rightarrow> raw_state_machine \<Rightarrow> raw_command \<Rightarrow> field_id \<times> value \<Rightarrow> (command_error, unit) outcome"
where
  "check_input spec machine command = (\<lambda>(field, v).
     and_then (ok_or (CmdImmutableField field)
                 (List.find (\<lambda>input. inp_field_id input = field) (cmd_inputs command))) (\<lambda>input.
     and_then (expect (spec_field spec (sm_table_id machine) field)) (\<lambda>def.
     if \<not> value_matches (fld_type def) v \<or> text_too_long v
     then Err (CmdInvalidInput (Some field) ''wrong type or text limit'')
     else if inp_required input \<and> absent v
     then Err (CmdInvalidInput (Some field) ''required input is blank'')
     else if list_ex (\<lambda>c. \<not> accepts c v) (inp_constraints input)
     then Err (CmdInvalidInput (Some field) ''input constraint failed'')
     else Ok ())))"

definition check_required_input :: "raw_command_request \<Rightarrow> command_input \<Rightarrow> (command_error, unit) outcome" where
  "check_required_input request input =
     (if inp_required input \<and> \<not> bt_contains_key (req_inputs request) (inp_field_id input)
      then Err (CmdInvalidInput (Some (inp_field_id input)) ''required input is absent'')
      else Ok ())"

definition check_request ::
  "serde \<Rightarrow> checked_app_spec \<Rightarrow> raw_state_machine \<Rightarrow> raw_command \<Rightarrow> raw_command_request \<Rightarrow> (command_error, unit) outcome"
where
  "check_request J spec machine command request =
     (if \<not> request_key_valid (req_idempotency_key request)
      then Err (CmdInvalidInput None ''invalid bounded request key'')
      else if bt_len (req_inputs request) > MAX_COMMAND_INPUTS
      then Err (CmdInvalidInput None ''too many inputs'')
      else and_then (map_err Kernel (bounded_encode (ser_request J) request)) (\<lambda>_.
        and_then (for_each (check_input spec machine command) (entries (req_inputs request))) (\<lambda>_.
        for_each (check_required_input request) (cmd_inputs command))))"

definition intent_of :: "checked_app_spec \<Rightarrow> raw_command_request \<Rightarrow> command_intent" where
  "intent_of spec request =
     \<lparr>int_definition = spec_def spec, int_command_id = req_command_id request,
      int_record_id = req_record_id request, int_inputs = req_inputs request\<rparr>"

definition prepare_command ::
  "serde \<Rightarrow> session_verifier \<Rightarrow> string \<Rightarrow> scope \<Rightarrow> request_channel \<Rightarrow> u64 \<Rightarrow> checked_app_spec \<Rightarrow>
     checked_records \<Rightarrow> raw_command_request \<Rightarrow> (command_error, prepared_command) outcome" where
  "prepare_command J V credential scope channel now spec facts request =
     and_then (map_err CmdAuthority (resolve V credential scope channel now Write)) (\<lambda>context.
     if app_id scope \<noteq> spec_app_id spec \<or> crs_scope facts \<noteq> scope then Err (CmdPolicy ScopeMismatch)
     else
       and_then (ok_or (UnknownCommand (req_command_id request))
                   (List.find (\<lambda>command. cmd_command_id command = req_command_id request)
                      (app_commands (spec_def spec)))) (\<lambda>command.
       and_then (expect (find_machine spec command)) (\<lambda>machine.
       and_then (expect (find_policy spec command)) (\<lambda>raw_policy.
       and_then (map_err CmdPolicy (policy_check spec raw_policy)) (\<lambda>policy.
       and_then (map_err CmdPolicy (check_scope J policy scope facts)) (\<lambda>_.
       and_then (ok_or (CmdPolicy Denied) (find_record facts (sm_table_id machine) (req_record_id request))) (\<lambda>row.
       if \<not> allows policy context row Write then Err (CmdPolicy Denied)
       else
         and_then (check_request J spec machine command request) (\<lambda>_.
         and_then (map_err Kernel (bounded_encode (ser_intent J) (intent_of spec request))) (\<lambda>intent_bytes.
         Ok \<lparr>pre_spec = spec, pre_facts = facts, pre_context = context, pre_policy = policy,
             pre_command = command, pre_machine = machine, pre_request = request,
             pre_intent_bytes = intent_bytes\<rparr>)))))))))"

section \<open>Deciding\<close>

record transition_receipt =
  trc_command_id :: command_id
  trc_record_id :: record_id
  trc_state :: string

record checked_event_intent =
  cev_event_id :: event_id
  cev_payload :: "(field_id, value) btree_map"

record checked_transition_batch =
  ctb_prepared :: prepared_command
  ctb_expected_revision :: u64
  ctb_writes :: "raw_record list"
  ctb_events :: "checked_event_intent list"
  ctb_receipt :: transition_receipt

definition row_state :: "raw_state_machine \<Rightarrow> checked_record \<Rightarrow> string" where
  "row_state machine row =
     (case bt_get (cr_values row) (sm_state_field machine) of Some (Text state) \<Rightarrow> state | _ \<Rightarrow> [])"

definition check_transition ::
  "raw_command \<Rightarrow> raw_state_machine \<Rightarrow> checked_record \<Rightarrow> (command_error, unit) outcome" where
  "check_transition command machine row =
     (let state = row_state machine row in
      if state \<noteq> cmd_from_state command \<or> bs_contains (sm_terminal_states machine) state
      then Err (InvalidTransition state (cmd_to_state command))
      else for_each (\<lambda>grd.
        if bt_get (cr_values row) (grd_field_id grd) \<noteq> Some (grd_equals grd)
        then Err (GuardFailed (grd_field_id grd)) else Ok ()) (cmd_guards command))"

definition proposed_row :: "prepared_command \<Rightarrow> checked_record \<Rightarrow> raw_record" where
  "proposed_row prepared row = (as_raw row)\<lparr>rec_values :=
     bt_insert (sm_state_field (pre_machine prepared)) (Text (cmd_to_state (pre_command prepared)))
       (bt_extend (cr_values row) (req_inputs (pre_request prepared)))\<rparr>"

definition event_payload :: "checked_record \<Rightarrow> raw_event_intent \<Rightarrow> (command_error, checked_event_intent) outcome" where
  "event_payload proposed event =
     and_then (map_m (\<lambda>field. and_then (expect (bt_get (cr_values proposed) field)) (\<lambda>v. Ok (field, v)))
                 (bs_list (evt_fields event)))
       (\<lambda>payload. Ok \<lparr>cev_event_id = evt_event_id event, cev_payload = bt_of_list payload\<rparr>)"

definition decide_command ::
  "serde \<Rightarrow> prepared_command \<Rightarrow> u64 \<Rightarrow> (command_error, checked_transition_batch) outcome" where
  "decide_command J prepared data_revision =
     (if data_revision = 0 then Err RevisionRequired
      else
        let table = sm_table_id (pre_machine prepared); target = req_record_id (pre_request prepared) in
        and_then (expect (find_record (pre_facts prepared) table target)) (\<lambda>row.
        and_then (check_transition (pre_command prepared) (pre_machine prepared) row) (\<lambda>_.
        and_then (expect (replace_row (to_raw (pre_facts prepared)) (proposed_row prepared row))) (\<lambda>final_rows.
        and_then (map_err Kernel (validate_records J (pre_spec prepared) (ctx_scope (pre_context prepared)) final_rows))
          (\<lambda>final_facts.
        and_then (expect (find_record final_facts table target)) (\<lambda>proposed.
        if \<not> allows (pre_policy prepared) (pre_context prepared) proposed Write then Err (CmdPolicy Denied)
        else and_then (map_m (event_payload proposed) (cmd_events (pre_command prepared))) (\<lambda>events.
          Ok \<lparr>ctb_prepared = prepared, ctb_expected_revision = data_revision,
              ctb_writes = [as_raw proposed], ctb_events = events,
              ctb_receipt = \<lparr>trc_command_id = cmd_command_id (pre_command prepared),
                trc_record_id = target, trc_state = cmd_to_state (pre_command prepared)\<rparr>\<rparr>)))))))"

section \<open>Available commands\<close>

definition command_eligible ::
  "checked_records \<Rightarrow> trusted_context \<Rightarrow> trusted_context \<Rightarrow> owner_role_policy \<Rightarrow> raw_state_machine \<Rightarrow>
     raw_command \<Rightarrow> record_id list" where
  "command_eligible facts read_context context policy machine command =
     map cr_id (filter (\<lambda>row. allows policy read_context row Read \<and> allows policy context row Write
       \<and> is_ok (check_transition command machine row)) (crs_records facts))"

definition available_step ::
  "serde \<Rightarrow> scope \<Rightarrow> checked_app_spec \<Rightarrow> checked_records \<Rightarrow> trusted_context \<Rightarrow> trusted_context \<Rightarrow>
     (raw_command \<times> record_id list) list \<Rightarrow> raw_command \<Rightarrow> (command_error, (raw_command \<times> record_id list) list) outcome"
where
  "available_step J scope spec facts read_context context available command =
     and_then (expect (find_machine spec command)) (\<lambda>machine.
     and_then (expect (find_policy spec command)) (\<lambda>raw_policy.
     and_then (map_err CmdPolicy (policy_check spec raw_policy)) (\<lambda>policy.
     and_then (map_err CmdPolicy (check_scope J policy scope facts)) (\<lambda>_.
     let eligible = command_eligible facts read_context context policy machine command in
     Ok (if eligible = [] then available else available @ [(command, eligible)])))))"

definition available_command_records ::
  "serde \<Rightarrow> session_verifier \<Rightarrow> session_verifier \<Rightarrow> string \<Rightarrow> scope \<Rightarrow> request_channel \<Rightarrow> u64 \<Rightarrow>
     checked_app_spec \<Rightarrow> checked_records \<Rightarrow> (command_error, (raw_command \<times> record_id list) list) outcome" where
  "available_command_records J Vr Vw credential scope channel now spec facts =
     and_then (map_err CmdAuthority (resolve Vr credential scope channel now Read)) (\<lambda>read_context.
     and_then (map_err CmdAuthority (resolve Vw credential scope channel now Write)) (\<lambda>context.
     if read_context \<noteq> context then Err (CmdAuthority Revoked)
     else if app_id scope \<noteq> spec_app_id spec \<or> crs_scope facts \<noteq> scope then Err (CmdPolicy ScopeMismatch)
     else fold_m (available_step J scope spec facts read_context context) [] (app_commands (spec_def spec))))"

definition available_commands ::
  "serde \<Rightarrow> session_verifier \<Rightarrow> session_verifier \<Rightarrow> string \<Rightarrow> scope \<Rightarrow> request_channel \<Rightarrow> u64 \<Rightarrow>
     checked_app_spec \<Rightarrow> checked_records \<Rightarrow> (command_error, raw_command list) outcome" where
  "available_commands J Vr Vw credential scope channel now spec facts =
     and_then (available_command_records J Vr Vw credential scope channel now spec facts)
       (\<lambda>records. Ok (map fst records))"

section \<open>What a prepared command carries\<close>

lemma check_input_Ok:
  assumes "check_input spec machine command (field, v) = Ok ()"
  shows "field \<in> inp_field_id ` set (cmd_inputs command)"
  using assms by (auto simp: check_input_def outcome_simps dest!: find_Some_mem)

lemma check_input_not_Panic:
  assumes "\<forall>input\<in>set (cmd_inputs command). input_ok spec machine policy input"
  shows "check_input spec machine command fv \<noteq> Panic"
proof (cases fv)
  case (Pair field v)
  have "spec_field spec (sm_table_id machine) field \<noteq> None"
    if "List.find (\<lambda>input. inp_field_id input = field) (cmd_inputs command) = Some input" for input
    using find_Some_mem [OF that] assms by (auto simp: input_ok_def)
  with Pair show ?thesis
    by (cases "List.find (\<lambda>input. inp_field_id input = field) (cmd_inputs command)")
      (auto simp: check_input_def outcome_simps split: if_splits)
qed

lemma check_request_inputs:
  "check_request J spec machine command request = Ok u \<Longrightarrow>
     set (bt_keys (req_inputs request)) \<subseteq> inp_field_id ` set (cmd_inputs command)"
  by (auto simp: check_request_def outcome_simps bt_keys_def dest!: check_input_Ok split: if_splits)

lemma check_request_not_Panic:
  assumes "\<forall>input\<in>set (cmd_inputs command). input_ok spec machine policy input"
  shows "check_request J spec machine command request \<noteq> Panic"
proof -
  have "for_each (check_input spec machine command) xs \<noteq> Panic" for xs
    by (rule for_each_not_Panic) (rule check_input_not_Panic [OF assms])
  moreover have "for_each (check_required_input request) xs \<noteq> Panic" for xs
    by (rule for_each_not_Panic) (simp add: check_required_input_def)
  ultimately show ?thesis by (auto simp: check_request_def and_then_Panic_iff map_err_Panic_iff)
qed

text \<open>The invariant of the opaque type: \<open>PreparedCommand\<close> is constructed nowhere else.\<close>

definition prepared_ok :: "serde \<Rightarrow> prepared_command \<Rightarrow> bool" where
  "prepared_ok J p \<longleftrightarrow>
     crs_scope (pre_facts p) = ctx_scope (pre_context p)
     \<and> declarations_ok (pre_spec p)
     \<and> facts_ok J (pre_spec p) (pre_facts p)
     \<and> pre_command p \<in> set (app_commands (spec_def (pre_spec p)))
     \<and> command_ok (pre_spec p) (pre_machine p) (orp_rule (pre_policy p)) (pre_command p)
     \<and> policy_check (pre_spec p) (orp_rule (pre_policy p)) = Ok (pre_policy p)
     \<and> set (bt_keys (req_inputs (pre_request p))) \<subseteq> inp_field_id ` set (cmd_inputs (pre_command p))
     \<and> (\<exists>row. find_record (pre_facts p) (sm_table_id (pre_machine p)) (req_record_id (pre_request p)) = Some row
          \<and> allows (pre_policy p) (pre_context p) row Write)"

lemma prepare_command_Ok:
  assumes "prepare_command J V credential scope channel now spec facts request = Ok p"
    and "declarations_ok spec" and "facts_ok J spec facts"
  shows "prepared_ok J p" and "resolve V credential scope channel now Write = Ok (pre_context p)"
    and "pre_spec p = spec" and "pre_facts p = facts" and "pre_request p = request"
    and "cmd_command_id (pre_command p) = req_command_id request"
    and "pre_intent_bytes p = concat (ser_intent J (intent_of spec request))"
proof -
  from assms(1) obtain ctx command machine raw_policy policy row bytes where
    ctx: "resolve V credential scope channel now Write = Ok ctx"
    and command: "List.find (\<lambda>command. cmd_command_id command = req_command_id request)
      (app_commands (spec_def spec)) = Some command"
    and machine: "find_machine spec command = Some machine"
    and raw_policy: "find_policy spec command = Some raw_policy"
    and policy: "policy_check spec raw_policy = Ok policy"
    and scope: "crs_scope facts = scope"
    and row: "find_record facts (sm_table_id machine) (req_record_id request) = Some row"
    and allowed: "allows policy ctx row Write"
    and request: "check_request J spec machine command request = Ok ()"
    and bytes: "bounded_encode (ser_intent J) (intent_of spec request) = Ok bytes"
    and p: "p = \<lparr>pre_spec = spec, pre_facts = facts, pre_context = ctx, pre_policy = policy,
             pre_command = command, pre_machine = machine, pre_request = request, pre_intent_bytes = bytes\<rparr>"
    by (auto simp: prepare_command_def outcome_simps split: if_splits)
  have mem: "command \<in> set (app_commands (spec_def spec))" "cmd_command_id command = req_command_id request"
    using find_Some_mem [OF command] by simp_all
  have "command_ok spec machine raw_policy command"
    using command_ok_of [OF assms(2) mem(1)] machine raw_policy by (metis command_ok_def option.inject)
  moreover have rule: "orp_rule policy = raw_policy" using policy_check_Ok [OF policy] by simp
  ultimately show "prepared_ok J p"
    using mem row allowed policy scope resolve_scope [OF ctx] assms(2,3) check_request_inputs [OF request]
    by (auto simp: prepared_ok_def p)
  show "resolve V credential scope channel now Write = Ok (pre_context p)" "pre_spec p = spec"
    "pre_facts p = facts" "pre_request p = request"
    "cmd_command_id (pre_command p) = req_command_id request"
    "pre_intent_bytes p = concat (ser_intent J (intent_of spec request))"
    using ctx mem bytes by (auto simp: p bounded_encode_Ok_iff)
qed

lemma prepare_command_not_Panic:
  assumes "\<And>c s. access_snapshot V c s \<noteq> Panic" and "declarations_ok spec"
  shows "prepare_command J V credential scope channel now spec facts request \<noteq> Panic"
proof -
  have resolve: "resolve V credential scope channel now Write \<noteq> Panic"
    using assms(1) by (auto simp: resolve_def and_then_Panic_iff Let_def)
  have bound: "\<exists>machine policy. command_ok spec machine policy command"
    if "List.find (\<lambda>command. cmd_command_id command = req_command_id request) (app_commands (spec_def spec)) = Some command"
    for command
    using find_Some_mem [OF that] assms(2) by (auto simp: declarations_ok_def)
  have policy: "policy_check spec r \<noteq> Panic" for r by (simp add: policy_check_def)
  have request: "check_request J spec machine command request \<noteq> Panic"
    if "command_ok spec machine policy command" for machine policy command
    using that by (intro check_request_not_Panic) (auto simp: command_ok_def)
  show ?thesis
  proof
    assume "prepare_command J V credential scope channel now spec facts request = Panic"
    then obtain command where
      command: "List.find (\<lambda>command. cmd_command_id command = req_command_id request) (app_commands (spec_def spec)) = Some command"
      and stuck: "find_machine spec command = None
        \<or> find_policy spec command = None
        \<or> (\<exists>machine. find_machine spec command = Some machine \<and> check_request J spec machine command request = Panic)"
      using resolve policy
      by (auto simp: prepare_command_def and_then_Panic_iff map_err_Panic_iff expect_Panic_iff ok_or_Ok_iff
          expect_Ok_iff split: if_splits)
    from bound [OF command] obtain machine policy where ok: "command_ok spec machine policy command" by blast
    with stuck request [OF ok] show False by (auto simp: command_ok_def)
  qed
qed

section \<open>What a decision writes\<close>

lemma check_transition_Ok_iff:
  "check_transition command machine row = Ok u \<longleftrightarrow>
     row_state machine row = cmd_from_state command
     \<and> row_state machine row \<notin> set (bs_list (sm_terminal_states machine))
     \<and> (\<forall>grd\<in>set (cmd_guards command). bt_get (cr_values row) (grd_field_id grd) = Some (grd_equals grd))"
  by (auto simp: check_transition_def Let_def for_each_Ok_iff bs_contains_iff)

lemma check_transition_not_Panic [simp]: "check_transition command machine row \<noteq> Panic"
  by (auto simp: check_transition_def Let_def intro!: for_each_not_Panic)

lemma proposed_key [simp]:
  "record_key (proposed_row p row) = record_key (as_raw row)"
  "rec_table_id (proposed_row p row) = cr_table_id row" "rec_id (proposed_row p row) = cr_id row"
  by (simp_all add: proposed_row_def record_key_def cr_defs)

text \<open>The row a decision writes: the old row, the declared inputs and the new state on top.\<close>

lemma decided_row_get:
  assumes p: "prepared_ok J p"
    and row: "find_record (pre_facts p) (sm_table_id (pre_machine p)) (req_record_id (pre_request p)) = Some row"
  shows "bt_get (rec_values (normalize_record (pre_spec p) (proposed_row p row))) f =
    (if f = sm_state_field (pre_machine p) then Some (Text (cmd_to_state (pre_command p)))
     else case bt_get (req_inputs (pre_request p)) f of Some v \<Rightarrow> Some v | None \<Rightarrow> bt_get (cr_values row) f)"
proof -
  let ?spec = "pre_spec p" and ?m = "pre_machine p"
  from p have ok: "facts_ok J ?spec (pre_facts p)" by (simp add: prepared_ok_def)
  note mem = find_record_Some [OF row]
  obtain table where table: "spec_table ?spec (cr_table_id row) = Some table"
    using facts_ok_table [OF ok] mem by blast
  note old = facts_ok_get [OF ok _ table, of f]
  from p have cmd: "command_ok ?spec ?m (orp_rule (pre_policy p)) (pre_command p)" by (simp add: prepared_ok_def)
  from cmd p have "machine_ok ?spec ?m"
    by (auto simp: prepared_ok_def declarations_ok_def command_ok_def find_machine_def dest!: find_Some_mem)
  with table mem have state: "sm_state_field ?m \<in> fld_id ` set (tbl_fields table)"
    by (auto simp: machine_ok_def dest: spec_field_mem)
  have inputs: "f \<in> fld_id ` set (tbl_fields table)" if "bt_get (req_inputs (pre_request p)) f \<noteq> None"
  proof -
    from that have "f \<in> set (bt_keys (req_inputs (pre_request p)))" by (auto simp: bt_get_None_iff)
    with p have "f \<in> inp_field_id ` set (cmd_inputs (pre_command p))" by (auto simp: prepared_ok_def)
    with cmd obtain field where "spec_field ?spec (sm_table_id ?m) f = Some field"
      by (auto simp: command_ok_def input_ok_def)
    with table mem show ?thesis by (auto dest: spec_field_mem)
  qed
  have get: "bt_get (rec_values (normalize_record ?spec (proposed_row p row))) f =
      (if f \<in> fld_id ` set (tbl_fields table) then Some (row_value (proposed_row p row) f) else None)"
    using bt_get_normalize [of ?spec "proposed_row p row" table f] table by simp
  have "row_value (proposed_row p row) f = (if f = sm_state_field ?m then Text (cmd_to_state (pre_command p))
      else case bt_get (req_inputs (pre_request p)) f of Some v \<Rightarrow> v | None \<Rightarrow> row_value (as_raw row) f)"
    by (simp add: row_value_def proposed_row_def cr_defs split: option.split)
  with get old mem inputs state show ?thesis by (auto split: option.splits)
qed

text \<open>The successful path of a decision.\<close>

lemma decide_command_Ok:
  assumes "decide_command J p revision = Ok b" and p: "prepared_ok J p"
  obtains row facts' where
    "find_record (pre_facts p) (sm_table_id (pre_machine p)) (req_record_id (pre_request p)) = Some row"
    and "allows (pre_policy p) (pre_context p) row Write"
    and "check_transition (pre_command p) (pre_machine p) row = Ok ()"
    and "validate_records J (pre_spec p) (crs_scope (pre_facts p))
           (put_row (proposed_row p row) (to_raw (pre_facts p))) = Ok facts'"
    and "ctb_writes b = [normalize_record (pre_spec p) (proposed_row p row)]"
    and "allows (pre_policy p) (pre_context p) (CheckedRecord (normalize_record (pre_spec p) (proposed_row p row))) Write"
    and "list_all2 (\<lambda>event e. event_payload (CheckedRecord (normalize_record (pre_spec p) (proposed_row p row))) event = Ok e)
           (cmd_events (pre_command p)) (ctb_events b)"
    and "ctb_prepared b = p" and "ctb_expected_revision b = revision" and "revision \<noteq> 0"
    and "ctb_receipt b = \<lparr>trc_command_id = cmd_command_id (pre_command p),
           trc_record_id = req_record_id (pre_request p), trc_state = cmd_to_state (pre_command p)\<rparr>"
proof -
  from p obtain row where
    row: "find_record (pre_facts p) (sm_table_id (pre_machine p)) (req_record_id (pre_request p)) = Some row"
    and allowed: "allows (pre_policy p) (pre_context p) row Write"
    by (auto simp: prepared_ok_def)
  from p have ok: "facts_ok J (pre_spec p) (pre_facts p)"
    and scope: "ctx_scope (pre_context p) = crs_scope (pre_facts p)" by (simp_all add: prepared_ok_def)
  have dist: "distinct (map record_key (to_raw (pre_facts p)))"
    using ok by (simp add: facts_ok_iff valid_facts_def)
  let ?w = "proposed_row p row"
  have key: "record_key ?w \<in> record_key ` set (to_raw (pre_facts p))"
    using find_record_Some [OF row] by (simp add: to_raw_def)
  have put: "replace_row (to_raw (pre_facts p)) ?w = Some (put_row ?w (to_raw (pre_facts p)))"
    using key by (simp add: replace_row_Some_iff [OF dist])
  from assms(1) obtain facts' proposed where
    trans: "check_transition (pre_command p) (pre_machine p) row = Ok ()"
    and valid: "validate_records J (pre_spec p) (crs_scope (pre_facts p)) (put_row ?w (to_raw (pre_facts p))) = Ok facts'"
    and proposed: "find_record facts' (sm_table_id (pre_machine p)) (req_record_id (pre_request p)) = Some proposed"
    and after: "allows (pre_policy p) (pre_context p) proposed Write"
    and events: "list_all2 (\<lambda>event e. event_payload proposed event = Ok e) (cmd_events (pre_command p)) (ctb_events b)"
    and b: "ctb_writes b = [as_raw proposed]" "ctb_prepared b = p" "ctb_expected_revision b = revision" "revision \<noteq> 0"
      "ctb_receipt b = \<lparr>trc_command_id = cmd_command_id (pre_command p),
           trc_record_id = req_record_id (pre_request p), trc_state = cmd_to_state (pre_command p)\<rparr>"
    by (auto simp: decide_command_def Let_def row put scope and_then_Ok_iff map_err_Ok_iff map_m_Ok_iff expect_Ok_iff
        split: if_splits)
  have "record_key ?w = (sm_table_id (pre_machine p), req_record_id (pre_request p))"
    using find_record_Some [OF row] by (simp add: record_key_def cr_defs)
  with proposed validate_put_row [OF ok key valid] have "proposed = CheckedRecord (normalize_record (pre_spec p) ?w)"
    by simp
  with after events b(1) show ?thesis
    by (intro that [OF row allowed trans valid _ _ _ b(2-)]) simp_all
qed

lemma event_payload_Ok:
  assumes "event_payload proposed event = Ok e"
  shows "cev_event_id e = evt_event_id event"
    and "set (bt_keys (cev_payload e)) = set (bs_list (evt_fields event))"
    and "\<And>f. f \<in> set (bs_list (evt_fields event)) \<Longrightarrow> bt_get (cev_payload e) f = bt_get (cr_values proposed) f"
proof -
  from assms obtain payload where
    pay0: "list_all2 (\<lambda>field fv. \<exists>v. bt_get (cr_values proposed) field = Some v \<and> (field, v) = fv)
            (bs_list (evt_fields event)) payload"
    and e: "e = \<lparr>cev_event_id = evt_event_id event, cev_payload = bt_of_list payload\<rparr>"
    by (auto simp: event_payload_def and_then_Ok_iff map_m_Ok_iff expect_Ok_iff)
  have pay: "list_all2 (\<lambda>field fv. bt_get (cr_values proposed) field = Some (snd fv) \<and> fst fv = field)
            (bs_list (evt_fields event)) payload"
    by (rule list_all2_mono [OF pay0]) auto
  have keys: "map fst payload = bs_list (evt_fields event)"
    using pay by (induction rule: list_all2_induct) auto
  have vals: "(f, v) \<in> set payload \<Longrightarrow> bt_get (cr_values proposed) f = Some v" for f v
    using list_all2_source [OF pay] by fastforce
  have dist: "distinct (map fst payload)" by (simp add: keys)
  show "cev_event_id e = evt_event_id event" by (simp add: e)
  have get: "bt_get (cev_payload e) f = map_of payload f" for f
    by (simp add: e bt_get_of_list_distinct [OF dist])
  show "set (bt_keys (cev_payload e)) = set (bs_list (evt_fields event))"
    using get map_of_eq_None_iff [of payload] bt_get_None_iff [of "cev_payload e"] keys
    by (metis (no_types, lifting) list.set_map subsetI subset_antisym)
  show "bt_get (cev_payload e) f = bt_get (cr_values proposed) f" if "f \<in> set (bs_list (evt_fields event))" for f
  proof -
    from that obtain v where "(f, v) \<in> set payload" by (metis keys list.set_map imageE prod.collapse)
    with get dist vals show ?thesis by (simp add: map_of_is_SomeI)
  qed
qed

section \<open>Decisions\<close>

text \<open>What the decision on a prepared command writes.\<close>

lemma decision_effect:
  assumes "decide_command J p revision = Ok b" and "prepared_ok J p"
  shows "\<exists>row w facts'.
    find_record (pre_facts p) (sm_table_id (pre_machine p)) (req_record_id (pre_request p)) = Some row
    \<and> ctb_writes b = [w] \<and> record_key w = record_key (as_raw row)
    \<and> (\<forall>f. bt_get (rec_values w) f =
         (if f = sm_state_field (pre_machine p) then Some (Text (cmd_to_state (pre_command p)))
          else case bt_get (req_inputs (pre_request p)) f of
            Some v \<Rightarrow> Some v | None \<Rightarrow> bt_get (cr_values row) f))
    \<and> set (bt_keys (req_inputs (pre_request p))) \<subseteq> inp_field_id ` set (cmd_inputs (pre_command p))
    \<and> row_state (pre_machine p) row = cmd_from_state (pre_command p)
    \<and> row_state (pre_machine p) row \<notin> set (bs_list (sm_terminal_states (pre_machine p)))
    \<and> (\<forall>grd\<in>set (cmd_guards (pre_command p)). bt_get (cr_values row) (grd_field_id grd) = Some (grd_equals grd))
    \<and> bt_get (rec_values w) (orp_owner_field (pre_policy p)) = bt_get (cr_values row) (orp_owner_field (pre_policy p))
    \<and> allows (pre_policy p) (pre_context p) row Write \<and> allows (pre_policy p) (pre_context p) (CheckedRecord w) Write
    \<and> validate_records J (pre_spec p) (crs_scope (pre_facts p)) (put_row w (to_raw (pre_facts p))) = Ok facts'
    \<and> list_all2 (\<lambda>event e. cev_event_id e = evt_event_id event
         \<and> set (bs_list (evt_fields event)) \<subseteq> set (bs_list (pol_read_fields (orp_rule (pre_policy p))))
         \<and> set (bt_keys (cev_payload e)) = set (bs_list (evt_fields event))
         \<and> (\<forall>f\<in>set (bs_list (evt_fields event)). bt_get (cev_payload e) f = bt_get (rec_values w) f))
       (cmd_events (pre_command p)) (ctb_events b)"
  using assms
proof (rule decide_command_Ok)
  fix row facts'
  let ?w = "normalize_record (pre_spec p) (proposed_row p row)"
  let ?owner = "orp_owner_field (pre_policy p)"
  assume row: "find_record (pre_facts p) (sm_table_id (pre_machine p)) (req_record_id (pre_request p)) = Some row"
    and before: "allows (pre_policy p) (pre_context p) row Write"
    and trans: "check_transition (pre_command p) (pre_machine p) row = Ok ()"
    and valid: "validate_records J (pre_spec p) (crs_scope (pre_facts p))
           (put_row (proposed_row p row) (to_raw (pre_facts p))) = Ok facts'"
    and writes: "ctb_writes b = [?w]"
    and after: "allows (pre_policy p) (pre_context p) (CheckedRecord ?w) Write"
    and events: "list_all2 (\<lambda>event e. event_payload (CheckedRecord ?w) event = Ok e)
           (cmd_events (pre_command p)) (ctb_events b)"
  from assms(2) have ok: "facts_ok J (pre_spec p) (pre_facts p)"
    and cmd: "command_ok (pre_spec p) (pre_machine p) (orp_rule (pre_policy p)) (pre_command p)"
    and inputs: "set (bt_keys (req_inputs (pre_request p))) \<subseteq> inp_field_id ` set (cmd_inputs (pre_command p))"
    by (simp_all add: prepared_ok_def)
  note get = decided_row_get [OF assms(2) row]
  have "?owner \<noteq> sm_state_field (pre_machine p)" "?owner \<notin> inp_field_id ` set (cmd_inputs (pre_command p))"
    using cmd by (auto simp: command_ok_def input_ok_def immutable_input_def orp_owner_field_def)
  then have owner: "bt_get (rec_values ?w) ?owner = bt_get (cr_values row) ?owner"
    using inputs by (auto simp: get bt_get_None_iff split: option.split) (metis bt_get_None_iff option.distinct(1) subsetD)
  have "list_all2 (\<lambda>event e. cev_event_id e = evt_event_id event
         \<and> set (bs_list (evt_fields event)) \<subseteq> set (bs_list (pol_read_fields (orp_rule (pre_policy p))))
         \<and> set (bt_keys (cev_payload e)) = set (bs_list (evt_fields event))
         \<and> (\<forall>f\<in>set (bs_list (evt_fields event)). bt_get (cev_payload e) f = bt_get (rec_values ?w) f))
       (cmd_events (pre_command p)) (ctb_events b)"
  proof -
    have "\<forall>event\<in>set (cmd_events (pre_command p)).
        set (bs_list (evt_fields event)) \<subseteq> set (bs_list (pol_read_fields (orp_rule (pre_policy p))))"
      using cmd by (simp add: command_ok_def)
    with events show ?thesis
      by (auto simp: list_all2_conv_all_nth event_payload_Ok cr_values_def)
  qed
  moreover from trans have "row_state (pre_machine p) row = cmd_from_state (pre_command p)"
    "cmd_from_state (pre_command p) \<notin> set (bs_list (sm_terminal_states (pre_machine p)))"
    "\<forall>grd\<in>set (cmd_guards (pre_command p)). bt_get (cr_values row) (grd_field_id grd) = Some (grd_equals grd)"
    by (auto simp: check_transition_Ok_iff)
  ultimately show ?thesis
    using row writes get inputs owner before after validate_put_normalized [OF ok valid]
    by (intro exI [of _ row] exI [of _ ?w] exI [of _ facts']) simp
qed

text \<open>
  C1. A request that is prepared and decided on validated facts writes exactly one row. The caller's
  write authority was resolved, the command is the application's command with the requested id, the
  row is the requested row, and every requested input is one the command declares. The written row
  differs from the row of the facts only in the requested inputs, which have the requested values,
  and in the state, which moves from the command's source to its target out of a non-terminal state.
  All guards held before, the caller may write the row before and after, the owner is unchanged, the
  final facts are valid, and every event carries exactly its declared, readable fields with the
  values just written.
\<close>

theorem transition_writes_only:
  assumes "prepare_command J V credential scope channel now spec facts request = Ok p"
    and "decide_command J p revision = Ok b"
    and "check_declarations spec = Ok ()" and "facts_ok J spec facts"
  shows "\<exists>context command machine rule policy row w facts'.
    resolve V credential scope channel now Write = Ok context \<and> crs_scope facts = scope
    \<and> command \<in> set (app_commands (spec_def spec)) \<and> cmd_command_id command = req_command_id request
    \<and> find_machine spec command = Some machine \<and> find_policy spec command = Some rule
    \<and> policy_check spec rule = Ok policy
    \<and> find_record facts (sm_table_id machine) (req_record_id request) = Some row
    \<and> ctb_writes b = [w] \<and> record_key w = record_key (as_raw row)
    \<and> (\<forall>f. bt_get (rec_values w) f =
         (if f = sm_state_field machine then Some (Text (cmd_to_state command))
          else case bt_get (req_inputs request) f of Some v \<Rightarrow> Some v | None \<Rightarrow> bt_get (cr_values row) f))
    \<and> set (bt_keys (req_inputs request)) \<subseteq> inp_field_id ` set (cmd_inputs command)
    \<and> row_state machine row = cmd_from_state command
    \<and> row_state machine row \<notin> set (bs_list (sm_terminal_states machine))
    \<and> (\<forall>grd\<in>set (cmd_guards command). bt_get (cr_values row) (grd_field_id grd) = Some (grd_equals grd))
    \<and> bt_get (rec_values w) (orp_owner_field policy) = bt_get (cr_values row) (orp_owner_field policy)
    \<and> allows policy context row Write \<and> allows policy context (CheckedRecord w) Write
    \<and> validate_records J spec scope (put_row w (to_raw facts)) = Ok facts'
    \<and> list_all2 (\<lambda>event e. cev_event_id e = evt_event_id event
         \<and> set (bs_list (evt_fields event)) \<subseteq> set (bs_list (pol_read_fields rule))
         \<and> set (bt_keys (cev_payload e)) = set (bs_list (evt_fields event))
         \<and> (\<forall>f\<in>set (bs_list (evt_fields event)). bt_get (cev_payload e) f = bt_get (rec_values w) f))
       (cmd_events command) (ctb_events b)"
proof -
  have decl: "declarations_ok spec" using assms(3) by (simp add: check_declarations_Ok_iff)
  note prep = prepare_command_Ok [OF assms(1) decl assms(4)]
  have "crs_scope facts = scope" using prep(1,2,4) resolve_scope [OF prep(2)] by (simp add: prepared_ok_def)
  moreover have "pre_command p \<in> set (app_commands (spec_def spec))"
    "find_machine spec (pre_command p) = Some (pre_machine p)"
    "find_policy spec (pre_command p) = Some (orp_rule (pre_policy p))"
    "policy_check spec (orp_rule (pre_policy p)) = Ok (pre_policy p)"
    using prep(1,3) by (simp_all add: prepared_ok_def command_ok_def)
  ultimately show ?thesis
    using decision_effect [OF assms(2) prep(1)] prep(2,6) unfolding prep(3-5) by blast
qed

lemma policy_check_read_fields:
  assumes "policy_check spec rule = Ok policy"
  shows "\<forall>f\<in>set (bs_list (pol_read_fields rule)). spec_field_type spec (pol_table_id rule) f \<noteq> None"
proof
  fix f assume "f \<in> set (bs_list (pol_read_fields rule))"
  with assms have "\<not> (case spec_field_type spec (pol_table_id rule) f of
      None \<Rightarrow> True | Some (FRef _) \<Rightarrow> True | Some _ \<Rightarrow> False)"
    by (simp add: policy_check_def list_ex_iff split: if_splits)
  then show "spec_field_type spec (pol_table_id rule) f \<noteq> None"
    by (cases "spec_field_type spec (pol_table_id rule) f") simp_all
qed

lemma decide_command_not_Panic:
  assumes p: "prepared_ok J p"
  shows "decide_command J p revision \<noteq> Panic"
proof -
  from p obtain row where
    row: "find_record (pre_facts p) (sm_table_id (pre_machine p)) (req_record_id (pre_request p)) = Some row"
    by (auto simp: prepared_ok_def)
  from p have ok: "facts_ok J (pre_spec p) (pre_facts p)"
    and scope: "ctx_scope (pre_context p) = crs_scope (pre_facts p)"
    and cmd: "command_ok (pre_spec p) (pre_machine p) (orp_rule (pre_policy p)) (pre_command p)"
    and policy: "policy_check (pre_spec p) (orp_rule (pre_policy p)) = Ok (pre_policy p)"
    by (simp_all add: prepared_ok_def)
  let ?w = "proposed_row p row"
  note mem = find_record_Some [OF row]
  have dist: "distinct (map record_key (to_raw (pre_facts p)))"
    using ok by (simp add: facts_ok_iff valid_facts_def)
  have key: "record_key ?w \<in> record_key ` set (to_raw (pre_facts p))"
    using mem by (simp add: to_raw_def)
  have put: "replace_row (to_raw (pre_facts p)) ?w = Some (put_row ?w (to_raw (pre_facts p)))"
    using key by (simp add: replace_row_Some_iff [OF dist])
  have found: "find_record facts' (sm_table_id (pre_machine p)) (req_record_id (pre_request p))
      = Some (CheckedRecord (normalize_record (pre_spec p) ?w))"
    if "validate_records J (pre_spec p) (crs_scope (pre_facts p)) (put_row ?w (to_raw (pre_facts p))) = Ok facts'" for facts'
    using validate_put_row [OF ok key that] mem by (simp add: record_key_def cr_defs)
  have payload: "event_payload (CheckedRecord (normalize_record (pre_spec p) ?w)) event \<noteq> Panic"
    if event: "event \<in> set (cmd_events (pre_command p))" for event
  proof -
    obtain table where table: "spec_table (pre_spec p) (cr_table_id row) = Some table"
      using facts_ok_table [OF ok] mem by blast
    have "bt_get (rec_values (normalize_record (pre_spec p) ?w)) f \<noteq> None"
      if "f \<in> set (bs_list (evt_fields event))" for f
    proof -
      have "f \<in> set (bs_list (pol_read_fields (orp_rule (pre_policy p))))"
        using cmd event that by (auto simp: command_ok_def)
      then have "spec_field_type (pre_spec p) (pol_table_id (orp_rule (pre_policy p))) f \<noteq> None"
        using policy_check_read_fields [OF policy] by blast
      then have "f \<in> fld_id ` set (tbl_fields table)"
        using cmd mem table by (auto simp: command_ok_def spec_field_type_def dest: spec_field_mem)
      then show ?thesis using bt_get_normalize [of "pre_spec p" ?w table f] table by simp
    qed
    then have "map_m (\<lambda>field. and_then (expect (bt_get (cr_values (CheckedRecord (normalize_record (pre_spec p) ?w))) field))
        (\<lambda>v. Ok (field, v))) (bs_list (evt_fields event)) \<noteq> (Panic :: (command_error, _) outcome)"
      by (intro map_m_not_Panic) (auto simp: and_then_Panic_iff expect_Panic_iff cr_values_def)
    then show ?thesis by (auto simp: event_payload_def and_then_Panic_iff)
  qed
  then have "map_m (event_payload (CheckedRecord (normalize_record (pre_spec p) ?w))) (cmd_events (pre_command p)) \<noteq> Panic"
    by (rule map_m_not_Panic)
  with found show ?thesis
    by (auto simp: decide_command_def Let_def row put scope and_then_Panic_iff map_err_Panic_iff expect_Panic_iff
        map_err_Ok_iff split: if_splits)
qed

text \<open>
  On a definition whose declarations were checked and on validated facts, executing any request of
  any caller never panics: none of the \<open>expect\<close>s of \<open>prepare_command\<close> and \<open>decide_command\<close> and no
  indexing of an event payload can fail.
\<close>

theorem command_never_panics:
  assumes "\<And>c s. access_snapshot V c s \<noteq> Panic"
    and "check_declarations spec = Ok ()" and "facts_ok J spec facts"
  shows "and_then (prepare_command J V credential scope channel now spec facts request)
      (\<lambda>p. decide_command J p revision) \<noteq> Panic"
proof -
  have decl: "declarations_ok spec" using assms(2) by (simp add: check_declarations_Ok_iff)
  have "decide_command J p revision \<noteq> Panic"
    if "prepare_command J V credential scope channel now spec facts request = Ok p" for p
    by (rule decide_command_not_Panic) (rule prepare_command_Ok(1) [OF that decl assms(3)])
  with prepare_command_not_Panic [OF assms(1) decl] show ?thesis
    by (auto simp: and_then_Panic_iff)
qed

section \<open>Available commands\<close>

text \<open>
  The rows of a command in the list of actions: the caller may read and write them, and their state
  and guards pass the transition check.
\<close>

definition listed ::
  "checked_app_spec \<Rightarrow> checked_records \<Rightarrow> trusted_context \<Rightarrow> raw_command \<Rightarrow> record_id set" where
  "listed spec facts context command =
     {i. \<exists>machine rule policy row. find_machine spec command = Some machine \<and> find_policy spec command = Some rule
        \<and> policy_check spec rule = Ok policy \<and> row \<in> set (crs_records facts) \<and> cr_id row = i
        \<and> allows policy context row Read \<and> allows policy context row Write
        \<and> check_transition command machine row = Ok ()}"

lemma available_step_Ok:
  assumes "available_step J scope spec facts context context available command = Ok out"
  shows "\<exists>ids. set ids = listed spec facts context command
    \<and> out = (if ids = [] then available else available @ [(command, ids)])"
proof -
  from assms obtain machine rule policy where found: "find_machine spec command = Some machine"
      "find_policy spec command = Some rule" "policy_check spec rule = Ok policy"
    and out: "out = (let ids = command_eligible facts context context policy machine command in
        if ids = [] then available else available @ [(command, ids)])"
    by (auto simp: available_step_def outcome_simps Let_def)
  have "set (command_eligible facts context context policy machine command) = listed spec facts context command"
    using found by (auto simp: command_eligible_def listed_def is_ok_iff)
  with out show ?thesis by (auto simp: Let_def)
qed

lemma available_loop:
  "fold_m (available_step J scope spec facts context context) available cs = Ok out \<Longrightarrow>
     \<forall>command ids. (command, ids) \<in> set out \<longrightarrow> (command, ids) \<in> set available
        \<or> (command \<in> set cs \<and> ids \<noteq> [] \<and> set ids = listed spec facts context command)"
  "fold_m (available_step J scope spec facts context context) available cs = Ok out \<Longrightarrow>
     set available \<subseteq> set out
     \<and> (\<forall>command\<in>set cs. listed spec facts context command \<noteq> {} \<longrightarrow> (\<exists>ids. (command, ids) \<in> set out))"
proof (induction cs arbitrary: available)
  case (Cons c cs)
  {
    case 1
    then obtain mid where step: "available_step J scope spec facts context context available c = Ok mid"
      and rest: "fold_m (available_step J scope spec facts context context) mid cs = Ok out"
      by (auto simp: and_then_Ok_iff)
    from available_step_Ok [OF step] obtain ids where "set ids = listed spec facts context c"
      and "mid = (if ids = [] then available else available @ [(c, ids)])" by blast
    with Cons.IH(1) [OF rest] show ?case by (cases "ids = []") auto
  next
    case 2
    then obtain mid where step: "available_step J scope spec facts context context available c = Ok mid"
      and rest: "fold_m (available_step J scope spec facts context context) mid cs = Ok out"
      by (auto simp: and_then_Ok_iff)
    from available_step_Ok [OF step] obtain ids where "set ids = listed spec facts context c"
      and "mid = (if ids = [] then available else available @ [(c, ids)])" by blast
    with Cons.IH(2) [OF rest] show ?case by (cases "ids = []") auto
  }
qed auto

text \<open>
  A command is listed with exactly the rows, and with every row, that the actor may now read and
  write and whose state and guards pass the command's transition check. Executing the command there
  needs no right to read and may still be refused for its inputs or by the validation of the result.
\<close>

theorem available_commands_exact:
  assumes "available_command_records J Vr Vw credential scope channel now spec facts = Ok out"
  shows "\<exists>context. resolve Vr credential scope channel now Read = Ok context
    \<and> resolve Vw credential scope channel now Write = Ok context
    \<and> (\<forall>command ids. (command, ids) \<in> set out \<longrightarrow>
         command \<in> set (app_commands (spec_def spec)) \<and> ids \<noteq> [] \<and> set ids = listed spec facts context command)
    \<and> (\<forall>command\<in>set (app_commands (spec_def spec)).
         listed spec facts context command \<noteq> {} \<longrightarrow> (\<exists>ids. (command, ids) \<in> set out))"
proof -
  from assms obtain ctx where ctx: "resolve Vr credential scope channel now Read = Ok ctx"
      "resolve Vw credential scope channel now Write = Ok ctx"
    and loop: "fold_m (available_step J scope spec facts ctx ctx) [] (app_commands (spec_def spec)) = Ok out"
    by (auto simp: available_command_records_def outcome_simps split: if_splits)
  from available_loop [OF loop] ctx show ?thesis
    by (intro exI [of _ ctx]) auto
qed

section \<open>Witnesses\<close>

definition support_spec :: checked_app_spec where
  "support_spec = CheckedAppSpec (normalize_definition support_workflow_spec)"

definition support_scope :: scope where
  "support_scope = Scope ''tenant_a'' (Ident ''app_support'')"

definition support_facts :: checked_records where
  "support_facts = \<lparr>crs_scope = support_scope,
     crs_records = map CheckedRecord (normalized support_spec (support_workflow_records support_scope))\<rparr>"

definition support_host :: session_verifier where
  "support_host = fixture_host support_scope ''actor_alice''"

definition support_request :: raw_command_request where
  "support_request = \<lparr>req_command_id = Ident ''cmd_resolve_request'', req_record_id = Ident ''rec_request_1'',
     req_idempotency_key = ''key_1'', req_inputs = bt_of_list [(Ident ''fld_request_note'', Text ''done'')]\<rparr>"

abbreviation support_prepare :: "(command_error, prepared_command) outcome" where
  "support_prepare \<equiv> prepare_command plain_serde support_host ''secret'' support_scope NativeBearer 1
     support_spec support_facts support_request"

fun ok_list :: "('e, 'a list) outcome \<Rightarrow> 'a list" where
  "ok_list (Ok xs) = xs"
| "ok_list _ = []"

text \<open>The examples are evaluated together, so that the definitions are prepared for evaluation once.\<close>

lemma support_evaluated:
  "validate_records plain_serde support_spec support_scope (support_workflow_records support_scope) = Ok support_facts
   \<and> check_declarations support_spec = Ok ()
   \<and> is_ok (and_then support_prepare (\<lambda>p. decide_command plain_serde p 5))
   \<and> (is_ok (available_command_records plain_serde support_host support_host ''secret'' support_scope NativeBearer 1
         support_spec support_facts)
     \<and> ok_list (available_command_records plain_serde support_host support_host ''secret'' support_scope NativeBearer 1
         support_spec support_facts) \<noteq> [])"
  by code_simp

lemmas support_facts_validate = support_evaluated [THEN conjunct1]
  and support_declarations = support_evaluated [THEN conjunct2, THEN conjunct1]
  and support_decides = support_evaluated [THEN conjunct2, THEN conjunct2, THEN conjunct1]
  and support_available = support_evaluated [THEN conjunct2, THEN conjunct2, THEN conjunct2]

lemma support_facts_ok: "facts_ok plain_serde support_spec support_facts"
  by (rule validate_records_facts_ok [OF support_facts_validate])

lemma support_decision:
  obtains p b where "support_prepare = Ok p" and "prepared_ok plain_serde p" and "decide_command plain_serde p 5 = Ok b"
proof -
  from support_decides obtain p b where p: "support_prepare = Ok p" and b: "decide_command plain_serde p 5 = Ok b"
    by (auto simp: is_ok_iff and_then_Ok_iff)
  have "prepared_ok plain_serde p"
    by (rule prepare_command_Ok(1) [OF p _ support_facts_ok]) (use support_declarations check_declarations_Ok_iff in blast)
  from that [OF p this b] show ?thesis .
qed

theorem transition_writes_only_witness:
  "\<exists>p b (machine :: raw_state_machine) policy row w. support_prepare = Ok p \<and> decide_command plain_serde p 5 = Ok b \<and> ctb_writes b = [w]
     \<and> find_record support_facts (sm_table_id machine) (Ident ''rec_request_1'') = Some row
     \<and> bt_get (rec_values w) (orp_owner_field policy) = bt_get (cr_values row) (orp_owner_field policy)"
proof -
  obtain p b where p: "support_prepare = Ok p" and b: "decide_command plain_serde p 5 = Ok b"
    by (rule support_decision)
  have id: "req_record_id support_request = Ident ''rec_request_1''" by (simp add: support_request_def)
  from transition_writes_only [OF p b support_declarations support_facts_ok, unfolded id] obtain machine :: raw_state_machine and policy row w where
    "find_record support_facts (sm_table_id machine) (Ident ''rec_request_1'') = Some row" "ctb_writes b = [w]"
    "bt_get (rec_values w) (orp_owner_field policy) = bt_get (cr_values row) (orp_owner_field policy)"
    by blast
  with p b show ?thesis by blast
qed

theorem command_never_panics_witness:
  "and_then support_prepare (\<lambda>p. decide_command plain_serde p 0) \<noteq> Panic"
  by (rule command_never_panics [OF _ support_declarations support_facts_ok])
    (simp add: support_host_def fixture_host_def default_access_snapshot_def Let_def and_then_Panic_iff)

theorem available_commands_exact_witness:
  "\<exists>out command ids context. available_command_records plain_serde support_host support_host ''secret''
      support_scope NativeBearer 1 support_spec support_facts = Ok out
    \<and> (command, ids) \<in> set out \<and> set ids = listed support_spec support_facts context command \<and> ids \<noteq> []"
proof -
  let ?m = "available_command_records plain_serde support_host support_host ''secret'' support_scope NativeBearer 1
      support_spec support_facts"
  note support_available
  then obtain out where out: "?m = Ok out" and "out \<noteq> []" by (cases ?m) auto
  then obtain command ids where mem: "(command, ids) \<in> set out" by (cases out) auto
  from available_commands_exact [OF out] out mem show ?thesis by blast
qed

end
