(* ===== verification/Lifecycle.thy ===== *)
theory Lifecycle
  imports Commands
begin

text \<open>
  The life of records under commands: a step is one prepared, decided and committed command of any
  caller on validated facts; what is reachable by such steps keeps every row, moves it only along
  declared transitions and leaves it alone once its state is terminal.
\<close>

inductive command_step :: "serde \<Rightarrow> checked_app_spec \<Rightarrow> checked_records \<Rightarrow> checked_records \<Rightarrow> bool"
  for J spec where
  command_step:
    "prepare_command J V credential (crs_scope facts) channel now spec facts request = Ok p \<Longrightarrow>
     decide_command J p revision = Ok b \<Longrightarrow>
     validate_records J spec (crs_scope facts) (fold put_row (ctb_writes b) (to_raw facts)) = Ok facts' \<Longrightarrow>
     command_step J spec facts facts'"

inductive_cases command_stepE: "command_step J spec facts facts'"

definition transitions :: "checked_app_spec \<Rightarrow> raw_state_machine \<Rightarrow> (string \<times> string) set" where
  "transitions spec machine =
     {(cmd_from_state c, cmd_to_state c) | c.
        c \<in> set (app_commands (spec_def spec)) \<and> find_machine spec c = Some machine}"

definition row_step :: "checked_app_spec \<Rightarrow> table_id \<Rightarrow> checked_record \<Rightarrow> checked_record \<Rightarrow> bool" where
  "row_step spec t row row' \<longleftrightarrow> (\<exists>machine\<in>set (app_state_machines (spec_def spec)).
     sm_table_id machine = t
     \<and> (row_state machine row, row_state machine row') \<in> transitions spec machine
     \<and> row_state machine row \<notin> set (bs_list (sm_terminal_states machine)))"

lemma command_step_rows:
  assumes step: "command_step J spec facts facts'" and decl: "declarations_ok spec" and ok: "facts_ok J spec facts"
  shows "facts_ok J spec facts' \<and> crs_scope facts' = crs_scope facts"
    and "find_record facts' t i = None \<longleftrightarrow> find_record facts t i = None"
    and "find_record facts t i = Some row \<Longrightarrow>
      \<exists>row'. find_record facts' t i = Some row' \<and> (row' = row \<or> row_step spec t row row')"
proof -
  from step obtain V credential channel now request p revision b where
    prep: "prepare_command J V credential (crs_scope facts) channel now spec facts request = Ok p"
    and dec: "decide_command J p revision = Ok b"
    and valid: "validate_records J spec (crs_scope facts) (fold put_row (ctb_writes b) (to_raw facts)) = Ok facts'"
    by (auto elim: command_stepE)
  note p = prepare_command_Ok [OF prep decl ok]
  from dec p(1) obtain target where
    target: "find_record facts (sm_table_id (pre_machine p)) (req_record_id (pre_request p)) = Some target"
    and trans: "check_transition (pre_command p) (pre_machine p) target = Ok ()"
    and writes: "ctb_writes b = [normalize_record spec (proposed_row p target)]"
    by (rule decide_command_Ok) (use p in simp)
  let ?w = "normalize_record spec (proposed_row p target)"
  from valid writes have valid: "validate_records J spec (crs_scope facts) (put_row ?w (to_raw facts)) = Ok facts'"
    by simp
  show "facts_ok J spec facts' \<and> crs_scope facts' = crs_scope facts"
    using validate_records_facts_ok [OF valid] validate_records_scope [OF valid] by simp
  note mem = find_record_Some [OF target]
  have key: "record_key ?w = (sm_table_id (pre_machine p), req_record_id (pre_request p))"
    using mem by (simp add: record_key_def cr_defs)
  have "record_key ?w \<in> record_key ` set (to_raw facts)"
    using mem by (simp add: to_raw_def)
  note put = validate_put_row [OF ok this valid, unfolded key normalize_idem]
  show "find_record facts' t i = None \<longleftrightarrow> find_record facts t i = None"
    using target by (auto simp: put)
  have "row_step spec (sm_table_id (pre_machine p)) target (CheckedRecord ?w)"
  proof -
    from p(1) p(3) have cmd: "command_ok spec (pre_machine p) (orp_rule (pre_policy p)) (pre_command p)"
      and c: "pre_command p \<in> set (app_commands (spec_def spec))" by (simp_all add: prepared_ok_def)
    then have m: "pre_machine p \<in> set (app_state_machines (spec_def spec))"
      by (auto simp: command_ok_def find_machine_def dest: find_Some_mem)
    have "bt_get (rec_values ?w) (sm_state_field (pre_machine p)) = Some (Text (cmd_to_state (pre_command p)))"
      using decided_row_get [OF p(1), of target "sm_state_field (pre_machine p)"] target p(3,4) by simp
    then have "row_state (pre_machine p) (CheckedRecord ?w) = cmd_to_state (pre_command p)"
      by (simp add: row_state_def cr_values_def)
    with trans cmd c m show ?thesis
      by (auto simp: row_step_def transitions_def check_transition_Ok_iff command_ok_def intro!: bexI [OF _ m])
  qed
  with target show "\<exists>row'. find_record facts' t i = Some row' \<and> (row' = row \<or> row_step spec t row row')"
    if "find_record facts t i = Some row"
    using that by (auto simp: put)
qed

lemma reachable_rows:
  assumes "(command_step J spec)\<^sup>*\<^sup>* facts facts'" and decl: "declarations_ok spec" and "facts_ok J spec facts"
  shows "facts_ok J spec facts' \<and> crs_scope facts' = crs_scope facts
    \<and> (\<forall>t i. find_record facts' t i = None \<longleftrightarrow> find_record facts t i = None)
    \<and> (\<forall>t i row. find_record facts t i = Some row \<longrightarrow>
         (\<exists>row'. find_record facts' t i = Some row' \<and> (row_step spec t)\<^sup>*\<^sup>* row row'))"
  using assms(1)
proof (induction rule: rtranclp_induct)
  case base
  with assms(3) show ?case by auto
next
  case (step mid final)
  note one = command_step_rows [OF step.hyps(2) decl conjunct1 [OF step.IH]]
  have "\<exists>row'. find_record final t i = Some row' \<and> (row_step spec t)\<^sup>*\<^sup>* row row'"
    if "find_record facts t i = Some row" for t i row
  proof -
    from step.IH that obtain row1 where "find_record mid t i = Some row1"
      and steps: "(row_step spec t)\<^sup>*\<^sup>* row row1" by blast
    from one(3) [OF this(1)] obtain row2 where "find_record final t i = Some row2"
      and "row2 = row1 \<or> row_step spec t row1 row2" by blast
    with steps show ?thesis by (metis rtranclp.rtrancl_into_rtrancl)
  qed
  moreover have "find_record final t i = None \<longleftrightarrow> find_record facts t i = None" for t i
    using step.IH one(2) by blast
  moreover have "crs_scope final = crs_scope facts" using step.IH one(1) by simp
  ultimately show ?case using one(1) by blast
qed

text \<open>A table has one machine, so its states are what every row step of the table is about.\<close>

lemma row_step_machine:
  assumes "row_step spec t row row'" and decl: "declarations_ok spec"
    and m: "machine \<in> set (app_state_machines (spec_def spec))" "sm_table_id machine = t"
  shows "(row_state machine row, row_state machine row') \<in> transitions spec machine"
    and "row_state machine row \<notin> set (bs_list (sm_terminal_states machine))"
proof -
  from assms(1) obtain machine' where m': "machine' \<in> set (app_state_machines (spec_def spec))"
    "sm_table_id machine' = t"
    and step: "(row_state machine' row, row_state machine' row') \<in> transitions spec machine'"
      "row_state machine' row \<notin> set (bs_list (sm_terminal_states machine'))"
    unfolding row_step_def by blast
  have "machine' = machine"
    by (rule machine_of_table [OF decl m'(1) m(1)]) (simp only: m'(2) m(2))
  with step show "(row_state machine row, row_state machine row') \<in> transitions spec machine"
    "row_state machine row \<notin> set (bs_list (sm_terminal_states machine))" by simp_all
qed

lemma row_steps_machine:
  assumes "(row_step spec t)\<^sup>*\<^sup>* row row'" and "declarations_ok spec"
    and "machine \<in> set (app_state_machines (spec_def spec))" and "sm_table_id machine = t"
  shows "(row_state machine row, row_state machine row') \<in> (transitions spec machine)\<^sup>*"
    and "row_state machine row \<in> set (bs_list (sm_terminal_states machine)) \<Longrightarrow> row' = row"
proof -
  show "(row_state machine row, row_state machine row') \<in> (transitions spec machine)\<^sup>*"
    using assms(1)
  proof (induction rule: rtranclp_induct)
    case (step row1 row2)
    from step.IH row_step_machine(1) [OF step.hyps(2) assms(2-4)] show ?case by (rule rtrancl_into_rtrancl)
  qed simp
  show "row' = row" if "row_state machine row \<in> set (bs_list (sm_terminal_states machine))"
    using assms(1)
  proof (cases rule: converse_rtranclpE)
    case (step row1)
    from row_step_machine(2) [OF step(1) assms(2-4)] that show ?thesis by contradiction
  qed simp
qed

text \<open>
  C2. Whatever commands whatever actors execute in whatever order: no row appears, disappears or
  leaves its scope, every row's state moves only along transitions its machine's commands declare,
  and a row in a terminal state is never changed again, in any field.
\<close>

theorem workflow_respects_machine:
  assumes "(command_step J spec)\<^sup>*\<^sup>* facts facts'"
    and "check_declarations spec = Ok ()" and "facts_ok J spec facts"
    and machine: "machine \<in> set (app_state_machines (spec_def spec))"
  shows "crs_scope facts' = crs_scope facts
    \<and> (\<forall>t i. find_record facts' t i = None \<longleftrightarrow> find_record facts t i = None)
    \<and> (\<forall>i row. find_record facts (sm_table_id machine) i = Some row \<longrightarrow>
         (\<exists>row'. find_record facts' (sm_table_id machine) i = Some row'
            \<and> (row_state machine row, row_state machine row') \<in> (transitions spec machine)\<^sup>*
            \<and> (row_state machine row \<in> set (bs_list (sm_terminal_states machine)) \<longrightarrow> row' = row)))"
proof -
  have decl: "declarations_ok spec" using assms(2) by (simp add: check_declarations_Ok_iff)
  from reachable_rows [OF assms(1) decl assms(3)] show ?thesis
    using row_steps_machine [OF _ decl machine refl] by blast
qed

text \<open>
  The validity of an application's facts is an invariant of everything commands can reach: types,
  required fields, references, constraints and declared states hold after every step.
\<close>

theorem workflow_keeps_facts_valid:
  assumes "(command_step J spec)\<^sup>*\<^sup>* facts facts'"
    and "check_declarations spec = Ok ()" and "facts_ok J spec facts"
  shows "facts_ok J spec facts' \<and> valid_facts spec (crs_scope facts') (to_raw facts')"
proof -
  have "declarations_ok spec" using assms(2) by (simp add: check_declarations_Ok_iff)
  then have "facts_ok J spec facts'" using reachable_rows [OF assms(1) _ assms(3)] by blast
  then show ?thesis by (simp add: facts_ok_iff)
qed

section \<open>Witnesses\<close>

lemma support_step: "\<exists>facts'. command_step plain_serde support_spec support_facts facts'"
proof -
  obtain p b where p: "support_prepare = Ok p" and ok: "prepared_ok plain_serde p"
    and b: "decide_command plain_serde p 5 = Ok b" by (rule support_decision)
  have decl: "declarations_ok support_spec" using support_declarations check_declarations_Ok_iff by blast
  note pre = prepare_command_Ok [OF p decl support_facts_ok]
  have scope: "crs_scope support_facts = support_scope" by (simp add: support_facts_def)
  from b ok obtain row facts' where writes: "ctb_writes b = [normalize_record support_spec (proposed_row p row)]"
    and valid: "validate_records plain_serde support_spec support_scope
      (put_row (proposed_row p row) (to_raw support_facts)) = Ok facts'"
    by (rule decide_command_Ok) (use pre scope in simp)
  note final = validate_put_normalized [of plain_serde support_spec support_facts "proposed_row p row" facts',
      OF support_facts_ok, unfolded scope, OF valid]
  have "command_step plain_serde support_spec support_facts facts'"
    by (rule command_step [of _ support_host "''secret''" _ NativeBearer 1 _ support_request p 5 b])
      (use p b writes final scope in simp_all)
  then show ?thesis by blast
qed

lemma support_machine:
  "hd (app_state_machines support_workflow_spec) \<in> set (app_state_machines (spec_def support_spec))"
  by code_simp

theorem workflow_respects_machine_witness:
  "\<exists>facts'. command_step plain_serde support_spec support_facts facts'
     \<and> (\<forall>t i. find_record facts' t i = None \<longleftrightarrow> find_record support_facts t i = None)"
proof -
  from support_step obtain facts' where step: "command_step plain_serde support_spec support_facts facts'" by blast
  from workflow_respects_machine [OF r_into_rtranclp [of "command_step _ _", OF step] support_declarations
      support_facts_ok support_machine] step
  show ?thesis by blast
qed

theorem workflow_keeps_facts_valid_witness:
  "\<exists>facts'. command_step plain_serde support_spec support_facts facts' \<and> facts_ok plain_serde support_spec facts'"
proof -
  from support_step obtain facts' where step: "command_step plain_serde support_spec support_facts facts'" by blast
  from workflow_keeps_facts_valid [OF r_into_rtranclp [of "command_step _ _", OF step] support_declarations
      support_facts_ok] step
  show ?thesis by blast
qed

end
