(* ===== verification/Relations.thy ===== *)
theory Relations
  imports Compile
begin

text \<open>
  Canonical facts and references (\<open>crates/evobase-appspec/src/relations.rs\<close>): the output policies,
  the relation store with its atomic batches and insertion-time captures, lookups and reverse
  references. The contract of an output policy is the locale \<open>attested_policy\<close>, interpreted on every
  policy of the repository.
\<close>

definition MAX_BATCH :: nat where "MAX_BATCH = 1024"
definition MAX_FORMULAS :: nat where "MAX_FORMULAS = 64"

datatype relation_error =
    RelKernel error
  | BatchLimit
  | DuplicateMutation table_id record_id
  | AlreadyExists table_id record_id
  | MissingRecord table_id record_id
  | RestrictDelete table_id record_id table_id record_id field_id
  | CaptureInputForbidden field_id
  | CapturedValueImmutable field_id
  | CapturedReferenceImmutable field_id
  | CaptureSourceInvalid field_id
  | OutputDenied
  | InvalidLimits
  | FormulaLimit
  | InvalidFormulaName
  | DuplicateFormula table_id string
  | MissingFormula table_id string
  | FormulaCycle table_id string
  | RelUnknownTable table_id
  | RelUnknownField table_id field_id
  | NumericFieldRequired table_id field_id
  | ReferenceFieldRequired table_id field_id
  | ReferenceTargetMismatch table_id field_id
  | NumericTypeMismatch
  | MoneyProductUnsupported
  | EmptyTotal
  | DepthExceeded
  | NodeBudgetExceeded
  | RecordBudgetExceeded
  | DefinitionMismatch
  | RelOverflow

section \<open>Output policies\<close>

text \<open>The trait \<open>OutputPolicy\<close> with its default methods.\<close>

record output_policy =
  allow_snapshot :: "checked_app_spec \<Rightarrow> checked_records \<Rightarrow> bool"
  allow_record :: "scope \<Rightarrow> table_id \<Rightarrow> record_id \<Rightarrow> bool"
  allow_field :: "scope \<Rightarrow> table_id \<Rightarrow> field_id \<Rightarrow> bool"
  allow_complete_scan :: "scope \<Rightarrow> table_id \<Rightarrow> field_id list \<Rightarrow> bool"

definition default_allow_snapshot :: "checked_app_spec \<Rightarrow> checked_records \<Rightarrow> bool" where
  "default_allow_snapshot spec facts = False"

definition default_allow_complete_scan :: "scope \<Rightarrow> table_id \<Rightarrow> field_id list \<Rightarrow> bool" where
  "default_allow_complete_scan scope table fs = False"

definition local_preview_policy :: output_policy where
  "local_preview_policy = \<lparr>allow_snapshot = (\<lambda>_ _. True), allow_record = (\<lambda>_ _ _. True),
     allow_field = (\<lambda>_ _ _. True), allow_complete_scan = (\<lambda>_ _ _. True)\<rparr>"

definition deny_output :: output_policy where
  "deny_output = \<lparr>allow_snapshot = default_allow_snapshot, allow_record = (\<lambda>_ _ _. False),
     allow_field = (\<lambda>_ _ _. False), allow_complete_scan = default_allow_complete_scan\<rparr>"

definition hosted_policy :: "current_output_policy \<Rightarrow> output_policy" where
  "hosted_policy p = \<lparr>allow_snapshot = cop_allow_snapshot p, allow_record = cop_allow_record p,
     allow_field = cop_allow_field p, allow_complete_scan = default_allow_complete_scan\<rparr>"

section \<open>The store\<close>

datatype batch_change = Insert raw_record | Replace raw_record | Delete table_id record_id

record relation_store =
  rst_spec :: checked_app_spec
  rst_records :: checked_records

definition relation_store_new :: "serde \<Rightarrow> checked_app_spec \<Rightarrow> scope \<Rightarrow> (relation_error, relation_store) outcome" where
  "relation_store_new J spec scope =
     and_then (map_err RelKernel (validate_records J spec scope [])) (\<lambda>records.
     Ok \<lparr>rst_spec = spec, rst_records = records\<rparr>)"

definition from_checked_snapshot ::
  "serde \<Rightarrow> checked_app_spec \<Rightarrow> checked_records \<Rightarrow> (relation_error, relation_store) outcome" where
  "from_checked_snapshot J spec records =
     and_then (map_err RelKernel (validate_records J spec (crs_scope records) (to_raw records))) (\<lambda>records.
     Ok \<lparr>rst_spec = spec, rst_records = records\<rparr>)"

subsection \<open>Batches\<close>

type_synonym row_key = "table_id \<times> record_id"
type_synonym row_map = "(table_id \<times> record_id, raw_record) btree_map"

fun change_row :: "batch_change \<Rightarrow> raw_record option" where
  "change_row (Insert r) = Some r"
| "change_row (Replace r) = Some r"
| "change_row (Delete _ _) = None"

fun change_key :: "batch_change \<Rightarrow> row_key" where
  "change_key (Insert r) = record_key r"
| "change_key (Replace r) = record_key r"
| "change_key (Delete t r) = (t, r)"

definition check_incoming :: "serde \<Rightarrow> batch_change list \<Rightarrow> (relation_error, unit) outcome" where
  "check_incoming J changes =
     (let incoming = List.map_filter change_row changes in
      and_then (map_err RelKernel (bounded_encode (ser_records J) incoming)) (\<lambda>_.
      for_each (\<lambda>row. for_each (\<lambda>v.
        if text_too_long v then Err (RelKernel (LimitExceeded ''text bytes'' MAX_TEXT_BYTES)) else Ok ())
        (bt_values (rec_values row))) incoming))"

record batch_state =
  bst_candidate :: row_map
  bst_touched :: "row_key set"
  bst_inserted :: "row_key list"
  bst_deleted :: "row_key list"

text \<open>The capture rules whose line table is the row's.\<close>

definition captures_of :: "checked_app_spec \<Rightarrow> raw_record \<Rightarrow> capture_rule list" where
  "captures_of spec r = filter (\<lambda>c. cap_line_table c = rec_table_id r) (app_capture_rules (spec_def spec))"

definition apply_insert ::
  "checked_app_spec \<Rightarrow> batch_state \<Rightarrow> row_key \<Rightarrow> raw_record \<Rightarrow> (relation_error, batch_state) outcome" where
  "apply_insert spec st key r =
     (if bt_contains_key (bst_candidate st) key then Err (AlreadyExists (fst key) (snd key))
      else and_then (for_each (\<lambda>capture.
          case bt_get (rec_values r) (cap_captured_price_field capture) of
            None \<Rightarrow> Ok ()
          | Some v \<Rightarrow> if \<not> absent v then Err (CaptureInputForbidden (cap_captured_price_field capture)) else Ok ())
          (captures_of spec r))
        (\<lambda>_. Ok (st\<lparr>bst_inserted := bst_inserted st @ [key],
                  bst_candidate := bt_insert key r (bst_candidate st)\<rparr>)))"

definition check_captured_unchanged :: "raw_record \<Rightarrow> raw_record \<Rightarrow> capture_rule \<Rightarrow> (relation_error, unit) outcome" where
  "check_captured_unchanged old r capture =
     (if bt_get (rec_values old) (cap_captured_price_field capture)
         \<noteq> bt_get (rec_values r) (cap_captured_price_field capture)
      then Err (CapturedValueImmutable (cap_captured_price_field capture))
      else if bt_get (rec_values old) (cap_product_ref_field capture)
         \<noteq> bt_get (rec_values r) (cap_product_ref_field capture)
      then Err (CapturedReferenceImmutable (cap_product_ref_field capture))
      else Ok ())"

definition apply_replace ::
  "checked_app_spec \<Rightarrow> batch_state \<Rightarrow> row_key \<Rightarrow> raw_record \<Rightarrow> (relation_error, batch_state) outcome" where
  "apply_replace spec st key r =
     and_then (ok_or (MissingRecord (fst key) (snd key)) (bt_get (bst_candidate st) key)) (\<lambda>old.
     and_then (for_each (check_captured_unchanged old r) (captures_of spec r)) (\<lambda>_.
     Ok (st\<lparr>bst_candidate := bt_insert key r (bst_candidate st)\<rparr>)))"

definition apply_delete :: "batch_state \<Rightarrow> row_key \<Rightarrow> (relation_error, batch_state) outcome" where
  "apply_delete st key =
     (if bt_get (bst_candidate st) key = None then Err (MissingRecord (fst key) (snd key))
      else Ok (st\<lparr>bst_candidate := bt_remove key (bst_candidate st),
                 bst_deleted := bst_deleted st @ [key]\<rparr>))"

definition apply_change ::
  "checked_app_spec \<Rightarrow> batch_state \<Rightarrow> batch_change \<Rightarrow> (relation_error, batch_state) outcome" where
  "apply_change spec st change =
     (let key = change_key change in
      if key \<in> bst_touched st then Err (DuplicateMutation (fst key) (snd key))
      else let st = st\<lparr>bst_touched := insert key (bst_touched st)\<rparr> in
        case change of
          Insert r \<Rightarrow> apply_insert spec st key r
        | Replace r \<Rightarrow> apply_replace spec st key r
        | Delete _ _ \<Rightarrow> apply_delete st key)"

text \<open>A temporary price fills every insertion-derived destination.\<close>

definition with_temporary_prices :: "checked_app_spec \<Rightarrow> raw_record \<Rightarrow> raw_record" where
  "with_temporary_prices spec r = r\<lparr>rec_values :=
     fold (\<lambda>c. bt_insert (cap_captured_price_field c) (Money 0)) (captures_of spec r) (rec_values r)\<rparr>"

definition temporary_graph ::
  "checked_app_spec \<Rightarrow> row_map \<Rightarrow> row_key list \<Rightarrow> (relation_error, row_map) outcome" where
  "temporary_graph spec = fold_m (\<lambda>rows key.
     and_then (expect (bt_get rows key)) (\<lambda>row. Ok (bt_insert key (with_temporary_prices spec row) rows)))"

definition check_restrict :: "scope \<Rightarrow> row_map \<Rightarrow> row_key \<Rightarrow> (relation_error, unit) outcome" where
  "check_restrict scope rows = (\<lambda>(table, record).
     for_each (\<lambda>row. for_each (\<lambda>(field, v).
       case v of
         Ref r \<Rightarrow> if ref_table_id r = table \<and> ref_record_id r = record \<and> ref_scope r = scope
                  then Err (RestrictDelete table record (rec_table_id row) (rec_id row) field) else Ok ()
       | _ \<Rightarrow> Ok ()) (entries (rec_values row))) (bt_values rows))"

text \<open>The product row a capture reads its price from, if the row refers to one.\<close>

definition capture_source ::
  "checked_app_spec \<Rightarrow> scope \<Rightarrow> row_map \<Rightarrow> raw_record \<Rightarrow> capture_rule \<Rightarrow> (relation_error, raw_record option) outcome"
where
  "capture_source spec scope rows row capture =
     (case bt_get (rec_values row) (cap_product_ref_field capture) of
        Some (Ref r) \<Rightarrow>
          if ref_scope r \<noteq> scope then Ok None
          else and_then (expect (spec_field spec (rec_table_id row) (cap_product_ref_field capture))) (\<lambda>field.
            case fld_type field of
              FRef target \<Rightarrow>
                if ref_table_id r \<noteq> target then Err (CaptureSourceInvalid (cap_product_ref_field capture))
                else Ok (bt_get rows (ref_table_id r, ref_record_id r))
            | _ \<Rightarrow> Panic)
      | _ \<Rightarrow> Ok None)"

definition capture_price ::
  "checked_app_spec \<Rightarrow> scope \<Rightarrow> row_map \<Rightarrow> raw_record \<Rightarrow> capture_rule \<Rightarrow> (relation_error, raw_record) outcome" where
  "capture_price spec scope rows row capture =
     and_then (capture_source spec scope rows row capture) (\<lambda>source.
     case Option.bind source (\<lambda>r. bt_get (rec_values r) (cap_product_price_field capture)) of
       Some (Money price) \<Rightarrow>
         Ok (row\<lparr>rec_values := bt_insert (cap_captured_price_field capture) (Money price) (rec_values row)\<rparr>)
     | _ \<Rightarrow> Err (CaptureSourceInvalid (cap_product_price_field capture)))"

definition capture_row ::
  "checked_app_spec \<Rightarrow> scope \<Rightarrow> row_map \<Rightarrow> row_key \<Rightarrow> (relation_error, row_map) outcome" where
  "capture_row spec scope rows key =
     and_then (expect (bt_get rows key)) (\<lambda>row.
     and_then (fold_m (capture_price spec scope rows) row (captures_of spec row)) (\<lambda>row'.
     Ok (bt_insert key row' rows)))"

definition candidate_rows :: "checked_records \<Rightarrow> row_map" where
  "candidate_rows facts = bt_of_list (map (\<lambda>r. ((cr_table_id r, cr_id r), raw_record_of r)) (crs_records facts))"

definition batch_candidate ::
  "serde \<Rightarrow> relation_store \<Rightarrow> batch_change list \<Rightarrow> (relation_error, batch_state) outcome" where
  "batch_candidate J store changes =
     (if length changes > MAX_BATCH then Err BatchLimit
      else and_then (check_incoming J changes) (\<lambda>_.
        fold_m (apply_change (rst_spec store))
          \<lparr>bst_candidate = candidate_rows (rst_records store), bst_touched = {}, bst_inserted = [], bst_deleted = []\<rparr>
          changes))"

definition finish_batch :: "serde \<Rightarrow> relation_store \<Rightarrow> batch_state \<Rightarrow> (relation_error, relation_store) outcome" where
  "finish_batch J store st =
     (let spec = rst_spec store; scope = crs_scope (rst_records store) in
      and_then (temporary_graph spec (bst_candidate st) (bst_inserted st)) (\<lambda>graph_rows.
      and_then (for_each (check_restrict scope (bst_candidate st)) (bst_deleted st)) (\<lambda>_.
      and_then (map_err RelKernel (validate_records J spec scope (bt_values graph_rows))) (\<lambda>_.
      and_then (fold_m (capture_row spec scope) (bst_candidate st) (bst_inserted st)) (\<lambda>rows.
      and_then (map_err RelKernel (validate_records J spec scope (bt_values rows))) (\<lambda>checked.
      Ok (store\<lparr>rst_records := checked\<rparr>)))))))"

definition apply_batch ::
  "serde \<Rightarrow> relation_store \<Rightarrow> batch_change list \<Rightarrow> (relation_error, relation_store) outcome" where
  "apply_batch J store changes = and_then (batch_candidate J store changes) (finish_batch J store)"

subsection \<open>Reading\<close>

definition authorized_record ::
  "relation_store \<Rightarrow> output_policy \<Rightarrow> table_id \<Rightarrow> record_id \<Rightarrow> (relation_error, checked_record) outcome" where
  "authorized_record store policy table record =
     (if \<not> allow_record policy (crs_scope (rst_records store)) table record then Err OutputDenied
      else ok_or (MissingRecord table record) (find_record (rst_records store) table record))"

definition authorize_snapshot :: "relation_store \<Rightarrow> output_policy \<Rightarrow> (relation_error, unit) outcome" where
  "authorize_snapshot store policy =
     (if \<not> allow_snapshot policy (rst_spec store) (rst_records store) then Err OutputDenied else Ok ())"

definition authorize_field :: "output_policy \<Rightarrow> checked_record \<Rightarrow> field_id \<Rightarrow> (relation_error, unit) outcome" where
  "authorize_field policy row field =
     (if \<not> allow_record policy (cr_scope row) (cr_table_id row) (cr_id row)
         \<or> \<not> allow_field policy (cr_scope row) (cr_table_id row) field
      then Err OutputDenied else Ok ())"

definition authorize_scan ::
  "relation_store \<Rightarrow> output_policy \<Rightarrow> table_id \<Rightarrow> field_id list \<Rightarrow> (relation_error, unit) outcome" where
  "authorize_scan store policy table fs =
     (let scope = crs_scope (rst_records store) in
      if \<not> allow_complete_scan policy scope table fs \<or> list_ex (\<lambda>field. \<not> allow_field policy scope table field) fs
      then Err OutputDenied else Ok ())"

definition reference_target :: "checked_app_spec \<Rightarrow> table_id \<Rightarrow> field_id \<Rightarrow> (relation_error, table_id) outcome" where
  "reference_target spec table field =
     and_then (ok_or (RelUnknownField table field) (spec_field spec table field)) (\<lambda>def.
     case fld_type def of FRef target \<Rightarrow> Ok target | _ \<Rightarrow> Err (ReferenceFieldRequired table field))"

definition check_reference_target ::
  "relation_store \<Rightarrow> table_id \<Rightarrow> field_id \<Rightarrow> table_id \<Rightarrow> (relation_error, unit) outcome" where
  "check_reference_target store table field target =
     and_then (reference_target (rst_spec store) table field) (\<lambda>t.
     if t \<noteq> target then Err (ReferenceTargetMismatch table field) else Ok ())"

definition refers_to :: "checked_record \<Rightarrow> field_id \<Rightarrow> table_id \<Rightarrow> record_id \<Rightarrow> bool" where
  "refers_to child ref_field table record \<longleftrightarrow>
     (case bt_get (cr_values child) ref_field of
        Some (Ref r) \<Rightarrow> ref_table_id r = table \<and> ref_record_id r = record | _ \<Rightarrow> False)"

definition table_rows :: "relation_store \<Rightarrow> table_id \<Rightarrow> checked_record list" where
  "table_rows store table = filter (\<lambda>r. cr_table_id r = table) (crs_records (rst_records store))"

definition reverse_refs ::
  "relation_store \<Rightarrow> table_id \<Rightarrow> record_id \<Rightarrow> table_id \<Rightarrow> field_id \<Rightarrow> output_policy \<Rightarrow>
     (relation_error, record_id list) outcome" where
  "reverse_refs store table record child_table ref_field policy =
     and_then (authorize_snapshot store policy) (\<lambda>_.
     and_then (authorized_record store policy table record) (\<lambda>_.
     and_then (check_reference_target store child_table ref_field table) (\<lambda>_.
     and_then (authorize_scan store policy child_table [ref_field]) (\<lambda>_.
     fold_m (\<lambda>result child. and_then (authorize_field policy child ref_field) (\<lambda>_.
         Ok (if refers_to child ref_field table record then result @ [cr_id child] else result)))
       [] (table_rows store child_table)))))"

definition relation_lookup ::
  "relation_store \<Rightarrow> table_id \<Rightarrow> record_id \<Rightarrow> field_id \<Rightarrow> field_id \<Rightarrow> output_policy \<Rightarrow> (relation_error, value) outcome"
where
  "relation_lookup store table record ref_field target_field policy =
     and_then (authorize_snapshot store policy) (\<lambda>_.
     and_then (authorized_record store policy table record) (\<lambda>row.
     and_then (authorize_field policy row ref_field) (\<lambda>_.
     and_then (reference_target (rst_spec store) table ref_field) (\<lambda>target.
     if spec_field (rst_spec store) target target_field = None then Err (RelUnknownField target target_field)
     else if \<not> allow_field policy (crs_scope (rst_records store)) target target_field then Err OutputDenied
     else case bt_get (cr_values row) ref_field of
       Some (Ref r) \<Rightarrow>
         and_then (authorized_record store policy (ref_table_id r) (ref_record_id r)) (\<lambda>target_row.
         and_then (authorize_field policy target_row target_field) (\<lambda>_.
         Ok (case bt_get (cr_values target_row) target_field of None \<Rightarrow> Null | Some v \<Rightarrow> v)))
     | _ \<Rightarrow> Ok Null))))"

section \<open>Rows as a map\<close>

declare split_paired_All [simp del] split_paired_Ex [simp del]

definition keyed :: "row_map \<Rightarrow> bool" where
  "keyed rows \<longleftrightarrow> (\<forall>k v. bt_get rows k = Some v \<longrightarrow> record_key v = k)"

lemma keyed_insert: "keyed rows \<Longrightarrow> record_key v = k \<Longrightarrow> keyed (bt_insert k v rows)"
  by (simp add: keyed_def)

lemma keyed_remove: "keyed rows \<Longrightarrow> keyed (bt_remove k rows)"
  by (auto simp: keyed_def split: if_splits)

lemma set_bt_values: "v \<in> set (bt_values rows) \<longleftrightarrow> (\<exists>k. bt_get rows k = Some v)"
  by (force simp: bt_values_def bt_get_iff)

lemma candidate_rows_get:
  assumes "facts_ok J spec facts"
  shows "bt_get (candidate_rows facts) (t, r) = map_option as_raw (find_record facts t r)"
proof -
  let ?xs = "map (\<lambda>row. ((cr_table_id row, cr_id row), as_raw row)) (crs_records facts)"
  have dist: "distinct (map fst ?xs)" using facts_ok_distinct [OF assms] by (simp add: comp_def)
  have "bt_get (candidate_rows facts) (t, r) = map_of ?xs (t, r)"
    unfolding candidate_rows_def raw_record_of by (rule bt_get_of_list_distinct [OF dist])
  moreover have "map_of ?xs (t, r) = Some w \<longleftrightarrow> map_option as_raw (find_record facts t r) = Some w" for w
    using dist by (auto simp: find_record_iff [OF assms])
  ultimately show ?thesis by (metis not_None_eq)
qed

lemma candidate_rows_keyed: "facts_ok J spec facts \<Longrightarrow> keyed (candidate_rows facts)"
  by (auto simp: keyed_def candidate_rows_get record_key_def cr_defs dest!: find_record_Some)

lemma find_validated:
  assumes keyed: "keyed rows" and valid: "validate_records J spec scope (bt_values rows) = Ok facts"
  shows "find_record facts t r = map_option (CheckedRecord \<circ> normalize_record spec) (bt_get rows (t, r))"
proof -
  have ok: "facts_ok J spec facts" by (rule validate_records_facts_ok [OF valid])
  have rows: "row \<in> set (crs_records facts) \<longleftrightarrow>
      (\<exists>k v. bt_get rows k = Some v \<and> row = CheckedRecord (normalize_record spec v))" for row
  proof -
    have "set (crs_records facts) = CheckedRecord ` normalize_record spec ` set (bt_values rows)"
      using valid by (auto simp: validate_records_Ok_iff normalized_def)
    then have "row \<in> set (crs_records facts) \<longleftrightarrow>
        (\<exists>v. v \<in> set (bt_values rows) \<and> row = CheckedRecord (normalize_record spec v))"
      by (simp only: image_iff Bex_def) metis
    then show ?thesis by (simp only: set_bt_values) metis
  qed
  have "find_record facts t r = Some row \<longleftrightarrow>
      map_option (CheckedRecord \<circ> normalize_record spec) (bt_get rows (t, r)) = Some row" for row
  proof
    assume "find_record facts t r = Some row"
    then have row: "row \<in> set (crs_records facts)" "cr_table_id row = t" "cr_id row = r"
      by (auto dest: find_record_Some)
    from row(1) obtain k v where v: "bt_get rows k = Some v" "row = CheckedRecord (normalize_record spec v)"
      by (auto simp only: rows)
    with keyed have "record_key v = k" by (simp only: keyed_def)
    with v row(2,3) have "k = (t, r)" by (simp add: cr_defs record_key_def)
    with v show "map_option (CheckedRecord \<circ> normalize_record spec) (bt_get rows (t, r)) = Some row" by simp
  next
    assume "map_option (CheckedRecord \<circ> normalize_record spec) (bt_get rows (t, r)) = Some row"
    then obtain v where v: "bt_get rows (t, r) = Some v" "row = CheckedRecord (normalize_record spec v)" by auto
    with keyed have "record_key v = (t, r)" by (simp only: keyed_def)
    moreover from v have "row \<in> set (crs_records facts)" unfolding rows by blast
    ultimately show "find_record facts t r = Some row"
      using v(2) by (simp add: find_record_iff [OF ok] cr_defs record_key_def)
  qed
  then show ?thesis by (metis not_None_eq)
qed

section \<open>The effect of a batch\<close>

definition insert_keys :: "batch_change list \<Rightarrow> row_key list" where
  "insert_keys changes = List.map_filter (\<lambda>c. case c of Insert r \<Rightarrow> Some (record_key r) | _ \<Rightarrow> None) changes"

definition change_at :: "batch_change list \<Rightarrow> row_key \<Rightarrow> batch_change option" where
  "change_at changes k = List.find (\<lambda>c. change_key c = k) changes"

definition capture_kept :: "raw_record \<Rightarrow> raw_record \<Rightarrow> capture_rule \<Rightarrow> bool" where
  "capture_kept old r c \<longleftrightarrow>
     bt_get (rec_values r) (cap_captured_price_field c) = bt_get (rec_values old) (cap_captured_price_field c)
     \<and> bt_get (rec_values r) (cap_product_ref_field c) = bt_get (rec_values old) (cap_product_ref_field c)"

text \<open>What one accepted change requires of the rows before it.\<close>

definition change_ok :: "checked_app_spec \<Rightarrow> row_map \<Rightarrow> batch_change \<Rightarrow> bool" where
  "change_ok spec rows change =
     (case change of
        Insert r \<Rightarrow> bt_get rows (record_key r) = None
      | Replace r \<Rightarrow> (\<exists>old. bt_get rows (record_key r) = Some old \<and> (\<forall>c\<in>set (captures_of spec r). capture_kept old r c))
      | Delete t i \<Rightarrow> bt_get rows (t, i) \<noteq> None)"

lemma check_captured_unchanged_Ok: "check_captured_unchanged old r c = Ok u \<longleftrightarrow> capture_kept old r c"
  by (auto simp: check_captured_unchanged_def capture_kept_def)

lemma apply_change_Ok:
  assumes "apply_change spec st c = Ok st'"
  shows "change_key c \<notin> bst_touched st \<and> bst_touched st' = insert (change_key c) (bst_touched st)
    \<and> change_ok spec (bst_candidate st) c
    \<and> bst_inserted st' = bst_inserted st @ insert_keys [c]
    \<and> (\<forall>k. bt_get (bst_candidate st') k = (if k = change_key c then change_row c else bt_get (bst_candidate st) k))"
  using assms
  by (cases c)
    (auto simp: apply_change_def apply_insert_def apply_replace_def apply_delete_def change_ok_def Let_def
      insert_keys_def map_filter_simps bt_contains_key_def outcome_simps check_captured_unchanged_Ok split: if_splits)

lemma insert_keys_Cons: "insert_keys (c # cs) = insert_keys [c] @ insert_keys cs"
  by (cases c) (simp_all add: insert_keys_def map_filter_simps)

lemma apply_changes_Ok:
  "fold_m (apply_change spec) st cs = Ok st' \<Longrightarrow>
     distinct (map change_key cs) \<and> change_key ` set cs \<inter> bst_touched st = {}
     \<and> (\<forall>c\<in>set cs. change_ok spec (bst_candidate st) c)
     \<and> bst_inserted st' = bst_inserted st @ insert_keys cs
     \<and> (\<forall>k. bt_get (bst_candidate st') k =
          (case change_at cs k of None \<Rightarrow> bt_get (bst_candidate st) k | Some c \<Rightarrow> change_row c))"
proof (induction cs arbitrary: st)
  case Nil
  then show ?case by (simp add: insert_keys_def map_filter_simps change_at_def)
next
  case (Cons c cs)
  from Cons.prems obtain mid where step: "apply_change spec st c = Ok mid"
    and rest: "fold_m (apply_change spec) mid cs = Ok st'" by (auto simp: and_then_Ok_iff)
  note one = apply_change_Ok [OF step] and IH = Cons.IH [OF rest]
  from one have get_mid: "\<And>k. bt_get (bst_candidate mid) k
      = (if k = change_key c then change_row c else bt_get (bst_candidate st) k)" by blast
  from IH have get': "\<And>k. bt_get (bst_candidate st') k
      = (case change_at cs k of None \<Rightarrow> bt_get (bst_candidate mid) k | Some c \<Rightarrow> change_row c)" by blast
  from IH one have fresh: "change_key c \<notin> change_key ` set cs" by blast
  have same: "change_ok spec (bst_candidate mid) d = change_ok spec (bst_candidate st) d" if "d \<in> set cs" for d
  proof -
    have "change_key d \<noteq> change_key c" using fresh that by (metis imageI)
    then have "bt_get (bst_candidate mid) (change_key d) = bt_get (bst_candidate st) (change_key d)"
      by (simp only: get_mid if_False)
    then show ?thesis by (cases d) (simp_all add: change_ok_def)
  qed
  have at: "change_at cs (change_key c) = None"
    using fresh unfolding change_at_def find_None_iff by (metis imageI)
  have "bt_get (bst_candidate st') k =
      (case change_at (c # cs) k of None \<Rightarrow> bt_get (bst_candidate st) k | Some c \<Rightarrow> change_row c)" for k
  proof (cases "k = change_key c")
    case True
    then have "bt_get (bst_candidate st') k = change_row c" by (simp add: get' at get_mid)
    with True show ?thesis by (simp add: change_at_def)
  next
    case False
    then have "change_at (c # cs) k = change_at cs k" by (auto simp: change_at_def)
    with False show ?thesis by (simp only: get' get_mid if_False)
  qed
  moreover have "bst_inserted st' = bst_inserted st @ insert_keys (c # cs)"
    using IH one by (subst insert_keys_Cons) simp
  moreover have "\<forall>d\<in>set (c # cs). change_ok spec (bst_candidate st) d"
    using IH one same by simp
  moreover have "distinct (map change_key (c # cs))" using IH fresh by simp
  moreover have "change_key ` set (c # cs) \<inter> bst_touched st = {}" using IH one by auto
  ultimately show ?case by blast
qed

lemma change_at_Some: "change_at cs k = Some c \<Longrightarrow> c \<in> set cs \<and> change_key c = k"
  unfolding change_at_def by (drule find_Some_mem) simp

lemma change_at_mem: "distinct (map change_key cs) \<Longrightarrow> c \<in> set cs \<Longrightarrow> change_at cs (change_key c) = Some c"
  unfolding change_at_def by (rule find_distinct_key)

lemma insert_keys_iff: "k \<in> set (insert_keys cs) \<longleftrightarrow> (\<exists>r. Insert r \<in> set cs \<and> record_key r = k)"
  by (induction cs) (auto simp: insert_keys_def map_filter_simps split: batch_change.splits)

lemma change_row_key: "change_row c = Some r \<Longrightarrow> record_key r = change_key c"
  by (cases c) auto

lemma keyed_changed:
  assumes "keyed rows"
    and "\<forall>k. bt_get rows' k = (case change_at cs k of None \<Rightarrow> bt_get rows k | Some c \<Rightarrow> change_row c)"
  shows "keyed rows'"
  using assms by (auto simp: keyed_def change_row_key split: option.splits dest!: change_at_Some)

subsection \<open>Captures\<close>

lemma capture_price_Ok:
  assumes "capture_price spec scope rows row c = Ok row'"
  shows "\<exists>r source price. bt_get (rec_values row) (cap_product_ref_field c) = Some (Ref r)
    \<and> bt_get rows (ref_table_id r, ref_record_id r) = Some source
    \<and> spec_field_type spec (rec_table_id row) (cap_product_ref_field c) = Some (FRef (ref_table_id r))
    \<and> bt_get (rec_values source) (cap_product_price_field c) = Some (Money price)
    \<and> row' = row\<lparr>rec_values := bt_insert (cap_captured_price_field c) (Money price) (rec_values row)\<rparr>"
proof -
  from assms obtain source where source: "capture_source spec scope rows row c = Ok source"
    and rest: "(case Option.bind source (\<lambda>r. bt_get (rec_values r) (cap_product_price_field c)) of
        Some (Money price) \<Rightarrow>
          Ok (row\<lparr>rec_values := bt_insert (cap_captured_price_field c) (Money price) (rec_values row)\<rparr>)
      | _ \<Rightarrow> Err (CaptureSourceInvalid (cap_product_price_field c))) = Ok row'"
    by (auto simp: capture_price_def and_then_Ok_iff)
  from rest obtain w price where w: "source = Some w" "bt_get (rec_values w) (cap_product_price_field c) = Some (Money price)"
    and row': "row' = row\<lparr>rec_values := bt_insert (cap_captured_price_field c) (Money price) (rec_values row)\<rparr>"
    by (cases source) (auto split: option.splits cell_splits)
  from source w(1) obtain r where ref: "bt_get (rec_values row) (cap_product_ref_field c) = Some (Ref r)"
    by (auto simp: capture_source_def split: option.splits cell_splits)
  with source w(1) obtain field where field: "spec_field spec (rec_table_id row) (cap_product_ref_field c) = Some field"
    and target: "(case fld_type field of
        FRef target \<Rightarrow>
          if ref_table_id r \<noteq> target then Err (CaptureSourceInvalid (cap_product_ref_field c))
          else Ok (bt_get rows (ref_table_id r, ref_record_id r))
      | _ \<Rightarrow> Panic) = Ok (Some w)"
    by (auto simp: capture_source_def and_then_Ok_iff expect_Ok_iff split: if_splits)
  from target have "fld_type field = FRef (ref_table_id r)" "bt_get rows (ref_table_id r, ref_record_id r) = Some w"
    by (cases "fld_type field"; simp split: if_splits)+
  with w row' ref field show ?thesis by (auto simp: spec_field_type_def)
qed

text \<open>What the captured fields hold after all of a row's captures, and that nothing else moved.\<close>

lemma capture_prices_Ok:
  assumes "fold_m (capture_price spec scope rows) row cs = Ok row'"
    and "distinct (map cap_captured_price_field cs)"
    and "\<forall>c\<in>set cs. \<forall>d\<in>set cs. cap_product_ref_field c \<noteq> cap_captured_price_field d"
  shows "record_key row' = record_key row \<and> rec_scope row' = rec_scope row
    \<and> (\<forall>f. f \<notin> cap_captured_price_field ` set cs \<longrightarrow> bt_get (rec_values row') f = bt_get (rec_values row) f)
    \<and> (\<forall>c\<in>set cs. \<exists>r source price. bt_get (rec_values row) (cap_product_ref_field c) = Some (Ref r)
         \<and> bt_get rows (ref_table_id r, ref_record_id r) = Some source
         \<and> spec_field_type spec (rec_table_id row) (cap_product_ref_field c) = Some (FRef (ref_table_id r))
         \<and> bt_get (rec_values source) (cap_product_price_field c) = Some (Money price)
         \<and> bt_get (rec_values row') (cap_captured_price_field c) = Some (Money price))"
  using assms
proof (induction cs arbitrary: row)
  case Nil
  then show ?case by simp
next
  case (Cons c cs)
  from Cons.prems(1) obtain mid where step: "capture_price spec scope rows row c = Ok mid"
    and rest: "fold_m (capture_price spec scope rows) mid cs = Ok row'" by (auto simp: and_then_Ok_iff)
  from capture_price_Ok [OF step] obtain r source price where c:
      "bt_get (rec_values row) (cap_product_ref_field c) = Some (Ref r)"
      "bt_get rows (ref_table_id r, ref_record_id r) = Some source"
      "spec_field_type spec (rec_table_id row) (cap_product_ref_field c) = Some (FRef (ref_table_id r))"
      "bt_get (rec_values source) (cap_product_price_field c) = Some (Money price)"
    and mid: "mid = row\<lparr>rec_values := bt_insert (cap_captured_price_field c) (Money price) (rec_values row)\<rparr>" by blast
  have IH: "record_key row' = record_key mid \<and> rec_scope row' = rec_scope mid
    \<and> (\<forall>f. f \<notin> cap_captured_price_field ` set cs \<longrightarrow> bt_get (rec_values row') f = bt_get (rec_values mid) f)
    \<and> (\<forall>c\<in>set cs. \<exists>r source price. bt_get (rec_values mid) (cap_product_ref_field c) = Some (Ref r)
         \<and> bt_get rows (ref_table_id r, ref_record_id r) = Some source
         \<and> spec_field_type spec (rec_table_id mid) (cap_product_ref_field c) = Some (FRef (ref_table_id r))
         \<and> bt_get (rec_values source) (cap_product_price_field c) = Some (Money price)
         \<and> bt_get (rec_values row') (cap_captured_price_field c) = Some (Money price))"
    by (rule Cons.IH [OF rest]) (use Cons.prems(2,3) in auto)
  have "bt_get (rec_values row') (cap_captured_price_field c) = Some (Money price)"
    using IH Cons.prems(2) by (simp add: mid)
  moreover have "bt_get (rec_values mid) (cap_product_ref_field d) = bt_get (rec_values row) (cap_product_ref_field d)"
    if "d \<in> set cs" for d
    using Cons.prems(3) that by (simp add: mid)
  moreover have "record_key mid = record_key row" "rec_scope mid = rec_scope row" "rec_table_id mid = rec_table_id row"
    by (simp_all add: mid record_key_def)
  moreover have "\<forall>f. f \<notin> cap_captured_price_field ` set (c # cs) \<longrightarrow> bt_get (rec_values mid) f = bt_get (rec_values row) f"
    by (simp add: mid)
  ultimately show ?case using IH c by simp
qed

lemma captures_of_distinct:
  assumes "wf_spec spec"
  shows "distinct (map cap_captured_price_field (captures_of spec row))"
proof -
  have "distinct (map capture_target (app_capture_rules (spec_def spec)))"
    using assms by (simp add: wf_spec_def)
  then have "distinct (map capture_target (captures_of spec row))"
    unfolding captures_of_def by (rule distinct_map_filter)
  then show ?thesis
    by (simp add: distinct_map captures_of_def capture_target_def inj_on_def)
qed

lemma captures_of_kinds:
  assumes "wf_spec spec" and "c \<in> set (captures_of spec row)" and "d \<in> set (captures_of spec row)"
  shows "cap_product_ref_field c \<noteq> cap_captured_price_field d"
proof -
  from assms have "capture_ok spec c" "capture_ok spec d"
    and "cap_line_table c = cap_line_table d" by (auto simp: wf_spec_def captures_of_def)
  then show ?thesis by (auto simp: capture_ok_def)
qed

lemma captured_not_source:
  assumes "wf_spec spec" and "c \<in> set (captures_of spec row)"
    and "spec_field_type spec (rec_table_id row) (cap_product_ref_field c) = Some (FRef target)"
    and "d \<in> set (app_capture_rules (spec_def spec))" and "cap_line_table d = target"
  shows "cap_product_price_field c \<noteq> cap_captured_price_field d"
proof -
  from assms(1,2) have "capture_ok spec c" and "cap_line_table c = rec_table_id row"
    by (auto simp: wf_spec_def captures_of_def)
  with assms(3) have "(target, cap_product_price_field c) \<notin> capture_target ` set (app_capture_rules (spec_def spec))"
    by (auto simp: capture_ok_def)
  with assms(4,5) show ?thesis by (auto simp: capture_target_def image_iff)
qed

text \<open>One row is captured: only its captured fields change, each to the price of its source.\<close>

definition captured_fields :: "checked_app_spec \<Rightarrow> raw_record \<Rightarrow> field_id set" where
  "captured_fields spec r = cap_captured_price_field ` set (captures_of spec r)"

definition same_uncaptured :: "checked_app_spec \<Rightarrow> raw_record \<Rightarrow> raw_record \<Rightarrow> bool" where
  "same_uncaptured spec r r' \<longleftrightarrow> record_key r' = record_key r \<and> rec_scope r' = rec_scope r
     \<and> (\<forall>f. f \<notin> captured_fields spec r \<longrightarrow> bt_get (rec_values r') f = bt_get (rec_values r) f)"

definition price_captured :: "checked_app_spec \<Rightarrow> row_map \<Rightarrow> raw_record \<Rightarrow> capture_rule \<Rightarrow> bool" where
  "price_captured spec rows row c \<longleftrightarrow> (\<exists>r source price.
     bt_get (rec_values row) (cap_product_ref_field c) = Some (Ref r)
     \<and> bt_get rows (ref_table_id r, ref_record_id r) = Some source
     \<and> spec_field_type spec (rec_table_id row) (cap_product_ref_field c) = Some (FRef (ref_table_id r))
     \<and> bt_get (rec_values source) (cap_product_price_field c) = Some (Money price)
     \<and> bt_get (rec_values row) (cap_captured_price_field c) = Some (Money price))"

definition rows_extend :: "checked_app_spec \<Rightarrow> row_map \<Rightarrow> row_map \<Rightarrow> bool" where
  "rows_extend spec rows rows' \<longleftrightarrow>
     (\<forall>k. case bt_get rows k of None \<Rightarrow> bt_get rows' k = None
        | Some r \<Rightarrow> (\<exists>r'. bt_get rows' k = Some r' \<and> same_uncaptured spec r r'))"

lemma same_uncaptured_refl [simp]: "same_uncaptured spec r r"
  by (simp add: same_uncaptured_def)

lemma same_uncaptured_table: "same_uncaptured spec r r' \<Longrightarrow> rec_table_id r' = rec_table_id r"
  by (simp add: same_uncaptured_def record_key_def)

lemma same_uncaptured_trans:
  "same_uncaptured spec r r' \<Longrightarrow> same_uncaptured spec r' r'' \<Longrightarrow> same_uncaptured spec r r''"
  using same_uncaptured_table [of spec r r']
  by (simp add: same_uncaptured_def captured_fields_def captures_of_def)

lemma rows_extend_refl [simp]: "rows_extend spec rows rows"
  by (simp add: rows_extend_def split: option.split)

lemma rows_extend_trans:
  assumes "rows_extend spec a b" and "rows_extend spec b c"
  shows "rows_extend spec a c"
  unfolding rows_extend_def
proof
  fix k
  from assms have "case bt_get a k of None \<Rightarrow> bt_get b k = None
      | Some r \<Rightarrow> (\<exists>r'. bt_get b k = Some r' \<and> same_uncaptured spec r r')"
    and "case bt_get b k of None \<Rightarrow> bt_get c k = None
      | Some r \<Rightarrow> (\<exists>r'. bt_get c k = Some r' \<and> same_uncaptured spec r r')"
    unfolding rows_extend_def by blast+
  then show "case bt_get a k of None \<Rightarrow> bt_get c k = None
      | Some r \<Rightarrow> (\<exists>r'. bt_get c k = Some r' \<and> same_uncaptured spec r r')"
    by (auto split: option.splits intro: same_uncaptured_trans)
qed

lemma capture_row_Ok:
  assumes wf: "wf_spec spec" and ok: "capture_row spec scope rows key = Ok rows'" and keyed: "keyed rows"
  shows "keyed rows' \<and> rows_extend spec rows rows'
    \<and> (\<forall>k. k \<noteq> key \<longrightarrow> bt_get rows' k = bt_get rows k)
    \<and> (\<exists>row. bt_get rows' key = Some row \<and> (\<forall>c\<in>set (captures_of spec row). price_captured spec rows row c))"
proof -
  from ok obtain row row' where row: "bt_get rows key = Some row"
    and prices: "fold_m (capture_price spec scope rows) row (captures_of spec row) = Ok row'"
    and rows': "rows' = bt_insert key row' rows"
    by (auto simp: capture_row_def outcome_simps)
  have res: "record_key row' = record_key row \<and> rec_scope row' = rec_scope row
    \<and> (\<forall>f. f \<notin> cap_captured_price_field ` set (captures_of spec row) \<longrightarrow> bt_get (rec_values row') f = bt_get (rec_values row) f)
    \<and> (\<forall>c\<in>set (captures_of spec row). \<exists>r source price. bt_get (rec_values row) (cap_product_ref_field c) = Some (Ref r)
         \<and> bt_get rows (ref_table_id r, ref_record_id r) = Some source
         \<and> spec_field_type spec (rec_table_id row) (cap_product_ref_field c) = Some (FRef (ref_table_id r))
         \<and> bt_get (rec_values source) (cap_product_price_field c) = Some (Money price)
         \<and> bt_get (rec_values row') (cap_captured_price_field c) = Some (Money price))"
    by (rule capture_prices_Ok [OF prices captures_of_distinct [OF wf]]) (use captures_of_kinds [OF wf] in blast)
  then have same: "same_uncaptured spec row row'" by (simp add: same_uncaptured_def captured_fields_def)
  have table: "rec_table_id row' = rec_table_id row" by (rule same_uncaptured_table [OF same])
  have caps: "captures_of spec row' = captures_of spec row" by (simp add: captures_of_def table)
  have key: "record_key row = key" using keyed row by (simp add: keyed_def)
  have "price_captured spec rows row' c" if c: "c \<in> set (captures_of spec row')" for c
  proof -
    have "cap_product_ref_field c \<notin> cap_captured_price_field ` set (captures_of spec row)"
      using captures_of_kinds [OF wf] c caps by fastforce
    then have "bt_get (rec_values row') (cap_product_ref_field c) = bt_get (rec_values row) (cap_product_ref_field c)"
      using res by blast
    with res c caps show ?thesis unfolding price_captured_def table by metis
  qed
  moreover have "keyed rows'" unfolding rows' using keyed res key by (simp add: keyed_insert)
  moreover have "rows_extend spec rows rows'"
    using row same by (auto simp: rows_extend_def rows' split: option.split)
  ultimately show ?thesis by (auto simp: rows')
qed

lemma price_captured_later:
  assumes wf: "wf_spec spec" and c: "c \<in> set (captures_of spec row)" and "price_captured spec rows row c"
    and ext: "rows_extend spec rows rows'" and keyed: "keyed rows"
  shows "price_captured spec rows' row c"
proof -
  from assms(3) obtain r source price where ref: "bt_get (rec_values row) (cap_product_ref_field c) = Some (Ref r)"
    and source: "bt_get rows (ref_table_id r, ref_record_id r) = Some source"
    and ft: "spec_field_type spec (rec_table_id row) (cap_product_ref_field c) = Some (FRef (ref_table_id r))"
    and price: "bt_get (rec_values source) (cap_product_price_field c) = Some (Money price)"
      "bt_get (rec_values row) (cap_captured_price_field c) = Some (Money price)"
    by (auto simp: price_captured_def)
  from ext have "case bt_get rows (ref_table_id r, ref_record_id r) of
      None \<Rightarrow> bt_get rows' (ref_table_id r, ref_record_id r) = None
    | Some x \<Rightarrow> (\<exists>x'. bt_get rows' (ref_table_id r, ref_record_id r) = Some x' \<and> same_uncaptured spec x x')"
    unfolding rows_extend_def by blast
  with source obtain source' where source': "bt_get rows' (ref_table_id r, ref_record_id r) = Some source'"
    and same: "same_uncaptured spec source source'" by auto
  have "rec_table_id source = ref_table_id r" using keyed source by (auto simp: keyed_def record_key_def)
  then have "cap_product_price_field c \<notin> captured_fields spec source"
    using captured_not_source [OF wf c ft] by (auto simp: captured_fields_def captures_of_def)
  with same price(1) have "bt_get (rec_values source') (cap_product_price_field c) = Some (Money price)"
    by (simp add: same_uncaptured_def)
  with ref source' ft price(2) show ?thesis unfolding price_captured_def by blast
qed

lemma capture_rows_Ok:
  assumes wf: "wf_spec spec"
  shows "fold_m (capture_row spec scope) rows keys = Ok rows' \<Longrightarrow> keyed rows \<Longrightarrow> distinct keys \<Longrightarrow>
    keyed rows' \<and> rows_extend spec rows rows'
    \<and> (\<forall>k. k \<notin> set keys \<longrightarrow> bt_get rows' k = bt_get rows k)
    \<and> (\<forall>k\<in>set keys. \<exists>row. bt_get rows' k = Some row \<and> (\<forall>c\<in>set (captures_of spec row). price_captured spec rows' row c))"
proof (induction keys arbitrary: rows)
  case (Cons key keys)
  from Cons.prems(1) obtain mid where step: "capture_row spec scope rows key = Ok mid"
    and rest: "fold_m (capture_row spec scope) mid keys = Ok rows'" by (auto simp: and_then_Ok_iff)
  note one = capture_row_Ok [OF wf step Cons.prems(2)]
  from one have mid: "keyed mid" "rows_extend spec rows mid" and mid_other: "\<And>k. k \<noteq> key \<Longrightarrow> bt_get mid k = bt_get rows k"
    by blast+
  from Cons.IH [OF rest mid(1)] Cons.prems(3) have rows': "keyed rows'" "rows_extend spec mid rows'"
    and other: "\<And>k. k \<notin> set keys \<Longrightarrow> bt_get rows' k = bt_get mid k"
    and priced: "\<And>k. k \<in> set keys \<Longrightarrow> \<exists>row. bt_get rows' k = Some row
      \<and> (\<forall>c\<in>set (captures_of spec row). price_captured spec rows' row c)"
    by simp_all
  have ext: "rows_extend spec rows rows'" by (rule rows_extend_trans [OF mid(2) rows'(2)])
  from one obtain row where row: "bt_get mid key = Some row"
    and now: "\<And>c. c \<in> set (captures_of spec row) \<Longrightarrow> price_captured spec rows row c" by blast
  have "bt_get rows' key = Some row" using other [of key] Cons.prems(3) row by simp
  moreover have "price_captured spec rows' row c" if "c \<in> set (captures_of spec row)" for c
    by (rule price_captured_later [OF wf that now [OF that] ext Cons.prems(2)])
  ultimately have "\<exists>row. bt_get rows' key = Some row \<and> (\<forall>c\<in>set (captures_of spec row). price_captured spec rows' row c)"
    by blast
  with priced have "\<forall>k\<in>set (key # keys). \<exists>row. bt_get rows' k = Some row
      \<and> (\<forall>c\<in>set (captures_of spec row). price_captured spec rows' row c)" by simp
  moreover have "\<forall>k. k \<notin> set (key # keys) \<longrightarrow> bt_get rows' k = bt_get rows k"
    using other mid_other by simp
  ultimately show ?case using rows'(1) ext by blast
qed simp

lemma distinct_insert_keys: "distinct (map change_key cs) \<Longrightarrow> distinct (insert_keys cs)"
proof (induction cs)
  case (Cons c cs)
  have "set (insert_keys cs) \<subseteq> change_key ` set cs" by (force simp: insert_keys_iff)
  with Cons show ?case by (cases c) (auto simp: insert_keys_def map_filter_simps)
qed (simp add: insert_keys_def map_filter_simps)

text \<open>The successful path of a batch, as the rows it ends with.\<close>

lemma apply_batch_Ok:
  assumes "apply_batch J store changes = Ok store'"
    and wf: "wf_spec (rst_spec store)" and facts: "facts_ok J (rst_spec store) (rst_records store)"
  obtains st :: batch_state and rows graph where
    "distinct (map change_key changes)"
    and "\<forall>c\<in>set changes. change_ok (rst_spec store) (candidate_rows (rst_records store)) c"
    and "\<forall>k. bt_get (bst_candidate st) k =
          (case change_at changes k of None \<Rightarrow> bt_get (candidate_rows (rst_records store)) k | Some c \<Rightarrow> change_row c)"
    and "keyed rows" and "rows_extend (rst_spec store) (bst_candidate st) rows"
    and "\<forall>k. k \<notin> set (insert_keys changes) \<longrightarrow> bt_get rows k = bt_get (bst_candidate st) k"
    and "\<forall>k\<in>set (insert_keys changes). \<exists>row. bt_get rows k = Some row
          \<and> (\<forall>c\<in>set (captures_of (rst_spec store) row). price_captured (rst_spec store) rows row c)"
    and "temporary_graph (rst_spec store) (bst_candidate st) (insert_keys changes) = Ok graph"
    and "\<exists>g. validate_records J (rst_spec store) (crs_scope (rst_records store)) (bt_values graph) = Ok g"
    and "rst_spec store' = rst_spec store"
    and "validate_records J (rst_spec store) (crs_scope (rst_records store)) (bt_values rows) = Ok (rst_records store')"
proof -
  let ?spec = "rst_spec store"
  let ?init = "\<lparr>bst_candidate = candidate_rows (rst_records store), bst_touched = {}, bst_inserted = [], bst_deleted = []\<rparr>"
  from assms(1) obtain st where st: "fold_m (apply_change ?spec) ?init changes = Ok st"
    and finish: "finish_batch J store st = Ok store'"
    by (auto simp: apply_batch_def batch_candidate_def and_then_Ok_iff split: if_splits)
  from apply_changes_Ok [OF st] have dist: "distinct (map change_key changes)"
    and ok: "\<forall>c\<in>set changes. change_ok ?spec (candidate_rows (rst_records store)) c"
    and ins: "bst_inserted st = insert_keys changes"
    and get: "\<forall>k. bt_get (bst_candidate st) k =
          (case change_at changes k of None \<Rightarrow> bt_get (candidate_rows (rst_records store)) k | Some c \<Rightarrow> change_row c)"
    by (simp_all only: batch_state.select_convs append_Nil) blast+
  from finish obtain graph g rows checked where
    graph: "temporary_graph ?spec (bst_candidate st) (insert_keys changes) = Ok graph"
    and valid_graph: "validate_records J ?spec (crs_scope (rst_records store)) (bt_values graph) = Ok g"
    and rows: "fold_m (capture_row ?spec (crs_scope (rst_records store))) (bst_candidate st) (insert_keys changes) = Ok rows"
    and valid: "validate_records J ?spec (crs_scope (rst_records store)) (bt_values rows) = Ok checked"
    and store': "store' = store\<lparr>rst_records := checked\<rparr>"
    by (auto simp: finish_batch_def Let_def ins outcome_simps)
  have keyed: "keyed (bst_candidate st)"
    by (rule keyed_changed [OF candidate_rows_keyed [OF facts]]) (use get in blast)
  from capture_rows_Ok [OF wf rows keyed distinct_insert_keys [OF dist]]
  have "keyed rows" "rows_extend ?spec (bst_candidate st) rows"
    "\<forall>k. k \<notin> set (insert_keys changes) \<longrightarrow> bt_get rows k = bt_get (bst_candidate st) k"
    "\<forall>k\<in>set (insert_keys changes). \<exists>row. bt_get rows k = Some row
          \<and> (\<forall>c\<in>set (captures_of ?spec row). price_captured ?spec rows row c)"
    by blast+
  from that [OF dist ok get this graph] valid_graph valid store' show ?thesis by auto
qed

lemma not_insert_key:
  assumes "distinct (map change_key changes)" and "change_at changes k = Some c" and "\<forall>r. c \<noteq> Insert r"
  shows "k \<notin> set (insert_keys changes)"
proof
  assume "k \<in> set (insert_keys changes)"
  then obtain r where "Insert r \<in> set changes" "record_key r = k" by (auto simp: insert_keys_iff)
  with change_at_mem [OF assms(1) this(1)] assms(2,3) show False by simp
qed

lemma not_insert_key_None: "change_at changes k = None \<Longrightarrow> k \<notin> set (insert_keys changes)"
  unfolding insert_keys_iff change_at_def find_None_iff by force

lemma apply_batch_find:
  assumes "apply_batch J store changes = Ok store'"
    and wf: "wf_spec (rst_spec store)" and facts: "facts_ok J (rst_spec store) (rst_records store)"
  shows "case change_at changes (t, i) of
         None \<Rightarrow> find_record (rst_records store') t i = find_record (rst_records store) t i
       | Some (Delete _ _) \<Rightarrow> find_record (rst_records store) t i \<noteq> None \<and> find_record (rst_records store') t i = None
       | Some (Replace r) \<Rightarrow> find_record (rst_records store) t i \<noteq> None
           \<and> find_record (rst_records store') t i = Some (CheckedRecord (normalize_record (rst_spec store) r))
       | Some (Insert r) \<Rightarrow> find_record (rst_records store) t i = None
           \<and> (\<exists>r'. same_uncaptured (rst_spec store) r r'
                \<and> find_record (rst_records store') t i = Some (CheckedRecord (normalize_record (rst_spec store) r')))"
proof -
  let ?spec = "rst_spec store"
  obtain st :: batch_state and rows where dist: "distinct (map change_key changes)"
    and ok: "\<forall>c\<in>set changes. change_ok ?spec (candidate_rows (rst_records store)) c"
    and get: "\<forall>k. bt_get (bst_candidate st) k =
          (case change_at changes k of None \<Rightarrow> bt_get (candidate_rows (rst_records store)) k | Some c \<Rightarrow> change_row c)"
    and keyed: "keyed rows" and ext: "rows_extend ?spec (bst_candidate st) rows"
    and other: "\<forall>k. k \<notin> set (insert_keys changes) \<longrightarrow> bt_get rows k = bt_get (bst_candidate st) k"
    and valid: "validate_records J ?spec (crs_scope (rst_records store)) (bt_values rows) = Ok (rst_records store')"
    by (rule apply_batch_Ok [OF assms(1) wf facts]) (rule that; assumption)
  note get = get [rule_format] and other = other [rule_format]
  note final = find_validated [OF keyed valid]
  note before = candidate_rows_get [OF facts]
  have keep: "map_option (CheckedRecord \<circ> normalize_record ?spec) (map_option as_raw (find_record (rst_records store) t i))
      = find_record (rst_records store) t i" for t i
  proof (cases "find_record (rst_records store) t i")
    case (Some row)
    then have "normalize_record ?spec (as_raw row) = as_raw row"
      using facts_ok_row(2) [OF facts] by (auto dest: find_record_Some)
    with Some show ?thesis by simp
  qed simp
  show ?thesis
  proof (cases "change_at changes (t, i)")
    case None
    then have "bt_get rows (t, i) = map_option as_raw (find_record (rst_records store) t i)"
      using other [OF not_insert_key_None [OF None]] get [of "(t, i)"] before by simp
    with None keep final show ?thesis by simp
  next
    case (Some c)
    note mem = change_at_Some [OF Some]
    have change: "change_ok ?spec (candidate_rows (rst_records store)) c" using ok mem by blast
    show ?thesis
    proof (cases c)
      case (Insert r)
      with mem have key: "record_key r = (t, i)" by simp
      have "bt_get (bst_candidate st) (t, i) = Some r" using get [of "(t, i)"] Some Insert by simp
      moreover from ext have "case bt_get (bst_candidate st) (t, i) of None \<Rightarrow> bt_get rows (t, i) = None
        | Some r \<Rightarrow> (\<exists>r'. bt_get rows (t, i) = Some r' \<and> same_uncaptured ?spec r r')"
        unfolding rows_extend_def by blast
      ultimately obtain r' where "bt_get rows (t, i) = Some r'" "same_uncaptured ?spec r r'" by auto
      moreover have "find_record (rst_records store) t i = None"
        using change Insert key before [of t i] by (simp add: change_ok_def)
      ultimately show ?thesis using Some Insert final by auto
    next
      case (Replace r)
      with mem have key: "record_key r = (t, i)" by simp
      have "bt_get rows (t, i) = Some r"
        using other [OF not_insert_key [OF dist Some]] get [of "(t, i)"] Some Replace by simp
      moreover have "find_record (rst_records store) t i \<noteq> None"
        using change Replace key before [of t i] by (auto simp: change_ok_def)
      ultimately show ?thesis using Some Replace final by simp
    next
      case (Delete t' i')
      have "bt_get rows (t, i) = None"
        using other [OF not_insert_key [OF dist Some]] get [of "(t, i)"] Some Delete by simp
      moreover have "find_record (rst_records store) t i \<noteq> None"
        using change Delete mem before [of t i] by (simp add: change_ok_def)
      ultimately show ?thesis using Some Delete final by simp
    qed
  qed
qed

text \<open>
  C29. A batch that succeeds does exactly what its changes say, on a valid result. A row no change names
  is untouched; a deleted one is gone; a replaced one holds the new values; an inserted one is new
  and holds the given values, apart from its captured prices. Each row is named at most once.
\<close>

theorem apply_batch_effect:
  assumes "apply_batch J store changes = Ok store'"
    and wf: "wf_spec (rst_spec store)" and facts: "facts_ok J (rst_spec store) (rst_records store)"
  shows "rst_spec store' = rst_spec store \<and> facts_ok J (rst_spec store) (rst_records store')
    \<and> crs_scope (rst_records store') = crs_scope (rst_records store)
    \<and> distinct (map change_key changes)
    \<and> (\<forall>t i. case change_at changes (t, i) of
         None \<Rightarrow> find_record (rst_records store') t i = find_record (rst_records store) t i
       | Some (Delete _ _) \<Rightarrow> find_record (rst_records store) t i \<noteq> None \<and> find_record (rst_records store') t i = None
       | Some (Replace r) \<Rightarrow> find_record (rst_records store) t i \<noteq> None
           \<and> find_record (rst_records store') t i = Some (CheckedRecord (normalize_record (rst_spec store) r))
       | Some (Insert r) \<Rightarrow> find_record (rst_records store) t i = None
           \<and> (\<exists>r'. same_uncaptured (rst_spec store) r r'
                \<and> find_record (rst_records store') t i = Some (CheckedRecord (normalize_record (rst_spec store) r'))))"
  using apply_batch_find [OF assms]
  by - (rule apply_batch_Ok [OF assms], blast intro: validate_records_facts_ok dest: validate_records_scope)

lemma capture_fields_known:
  assumes "wf_spec spec" and "c \<in> set (captures_of spec r)"
  shows "\<exists>table. spec_table spec (rec_table_id r) = Some table
    \<and> cap_captured_price_field c \<in> fld_id ` set (tbl_fields table)
    \<and> cap_product_ref_field c \<in> fld_id ` set (tbl_fields table)"
proof -
  from assms have "capture_ok spec c" "cap_line_table c = rec_table_id r"
    by (auto simp: wf_spec_def captures_of_def)
  then obtain f g where "spec_field spec (rec_table_id r) (cap_captured_price_field c) = Some f"
    and "spec_field spec (rec_table_id r) (cap_product_ref_field c) = Some g"
    by (auto simp: capture_ok_def spec_field_type_def)
  from spec_field_Some [OF this(1)] spec_field_Some [OF this(2)] show ?thesis
    by (metis image_eqI option.inject)
qed

text \<open>
  C30. A captured price is history. Whatever batch is applied, a row that exists before and after keeps
  its captured price and the reference it was captured through, even when the product's price has
  changed meanwhile or the row is replaced.
\<close>

theorem captured_prices_are_history:
  assumes "apply_batch J store changes = Ok store'"
    and wf: "wf_spec (rst_spec store)" and facts: "facts_ok J (rst_spec store) (rst_records store)"
    and row: "find_record (rst_records store) t i = Some row" and row': "find_record (rst_records store') t i = Some row'"
    and c: "c \<in> set (app_capture_rules (spec_def (rst_spec store)))" "cap_line_table c = t"
  shows "bt_get (cr_values row') (cap_captured_price_field c) = bt_get (cr_values row) (cap_captured_price_field c)
    \<and> bt_get (cr_values row') (cap_product_ref_field c) = bt_get (cr_values row) (cap_product_ref_field c)"
proof -
  let ?spec = "rst_spec store"
  obtain st :: batch_state and rows where dist: "distinct (map change_key changes)"
    and ok: "\<forall>c\<in>set changes. change_ok ?spec (candidate_rows (rst_records store)) c"
    and get: "\<forall>k. bt_get (bst_candidate st) k =
          (case change_at changes k of None \<Rightarrow> bt_get (candidate_rows (rst_records store)) k | Some c \<Rightarrow> change_row c)"
    and keyed: "keyed rows"
    and other: "\<forall>k. k \<notin> set (insert_keys changes) \<longrightarrow> bt_get rows k = bt_get (bst_candidate st) k"
    and valid: "validate_records J ?spec (crs_scope (rst_records store)) (bt_values rows) = Ok (rst_records store')"
    by (rule apply_batch_Ok [OF assms(1) wf facts]) (rule that; assumption)
  note get = get [rule_format] and other = other [rule_format]
  note final = find_validated [OF keyed valid]
  have old: "bt_get (candidate_rows (rst_records store)) (t, i) = Some (as_raw row)"
    using row by (simp add: candidate_rows_get [OF facts])
  show ?thesis
  proof (cases "change_at changes (t, i)")
    case None
    then have "bt_get rows (t, i) = Some (as_raw row)"
      using other [OF not_insert_key_None [OF None]] get [of "(t, i)"] old by simp
    with final row' have "row' = CheckedRecord (normalize_record ?spec (as_raw row))" by simp
    also have "\<dots> = row" using facts_ok_row(2) [OF facts] row by (auto dest: find_record_Some)
    finally show ?thesis by simp
  next
    case (Some d)
    note mem = change_at_Some [OF Some]
    have change: "change_ok ?spec (candidate_rows (rst_records store)) d" using ok mem by blast
    then obtain r where d: "d = Replace r"
      using mem old row' final other [OF not_insert_key [OF dist Some]] get [of "(t, i)"] Some
      by (cases d) (auto simp: change_ok_def)
    with mem have key: "rec_table_id r = t" "record_key r = (t, i)" by (simp_all add: record_key_def)
    have cap: "c \<in> set (captures_of ?spec r)" using c key by (simp add: captures_of_def)
    have kept: "capture_kept (as_raw row) r c" using change d key old cap by (auto simp: change_ok_def)
    have "bt_get rows (t, i) = Some r"
      using other [OF not_insert_key [OF dist Some]] get [of "(t, i)"] Some d by simp
    with final row' have new: "row' = CheckedRecord (normalize_record ?spec r)" by simp
    obtain table where table: "spec_table ?spec (rec_table_id r) = Some table"
      and fs: "cap_captured_price_field c \<in> fld_id ` set (tbl_fields table)"
        "cap_product_ref_field c \<in> fld_id ` set (tbl_fields table)"
      using capture_fields_known [OF wf cap] by blast
    have rowmem: "row \<in> set (crs_records (rst_records store))" "cr_table_id row = t"
      using row by (auto dest: find_record_Some)
    have "spec_table ?spec (cr_table_id row) = Some table" using table key rowmem by simp
    note oldget = facts_ok_get [OF facts rowmem(1) this]
    have "bt_get (cr_values row') f = bt_get (cr_values row) f"
      if "f \<in> fld_id ` set (tbl_fields table)" "bt_get (rec_values r) f = bt_get (rec_values (as_raw row)) f" for f
      using that bt_get_normalize [OF table, of f] oldget [of f]
      by (simp add: new cr_values_def row_value_def)
    with fs kept show ?thesis by (simp add: capture_kept_def)
  qed
qed

text \<open>
  An inserted line takes its price from its product. After the batch, the captured price of every
  inserted row equals the price stored in the product row it refers to, wherever in the batch that
  product was inserted or changed.
\<close>

theorem inserted_price_is_product_price:
  assumes "apply_batch J store changes = Ok store'"
    and wf: "wf_spec (rst_spec store)" and facts: "facts_ok J (rst_spec store) (rst_records store)"
    and ins: "Insert r \<in> set changes"
    and c: "c \<in> set (app_capture_rules (spec_def (rst_spec store)))" "cap_line_table c = rec_table_id r"
  shows "\<exists>row ref product price.
    find_record (rst_records store') (rec_table_id r) (rec_id r) = Some row
    \<and> bt_get (cr_values row) (cap_product_ref_field c) = Some (Ref ref)
    \<and> find_record (rst_records store') (ref_table_id ref) (ref_record_id ref) = Some product
    \<and> bt_get (cr_values product) (cap_product_price_field c) = Some (Money price)
    \<and> bt_get (cr_values row) (cap_captured_price_field c) = Some (Money price)"
proof -
  let ?spec = "rst_spec store"
  obtain st :: batch_state and rows where keyed: "keyed rows"
    and priced: "\<forall>k\<in>set (insert_keys changes). \<exists>row. bt_get rows k = Some row
          \<and> (\<forall>c\<in>set (captures_of ?spec row). price_captured ?spec rows row c)"
    and valid: "validate_records J ?spec (crs_scope (rst_records store)) (bt_values rows) = Ok (rst_records store')"
    by (rule apply_batch_Ok [OF assms(1) wf facts]) (rule that; assumption)
  note final = find_validated [OF keyed valid]
  from ins have "record_key r \<in> set (insert_keys changes)" by (auto simp: insert_keys_iff)
  from priced [rule_format, OF this] obtain row where row: "bt_get rows (record_key r) = Some row"
    and price: "\<forall>c\<in>set (captures_of ?spec row). price_captured ?spec rows row c" by blast
  have key: "record_key row = record_key r" using keyed row by (simp add: keyed_def)
  then have cap: "c \<in> set (captures_of ?spec row)" using c by (simp add: captures_of_def record_key_def)
  with price obtain ref source p where
    ref: "bt_get (rec_values row) (cap_product_ref_field c) = Some (Ref ref)"
    and source: "bt_get rows (ref_table_id ref, ref_record_id ref) = Some source"
    and ft: "spec_field_type ?spec (rec_table_id row) (cap_product_ref_field c) = Some (FRef (ref_table_id ref))"
    and p: "bt_get (rec_values source) (cap_product_price_field c) = Some (Money p)"
      "bt_get (rec_values row) (cap_captured_price_field c) = Some (Money p)"
    unfolding price_captured_def by blast
  have norm: "bt_get (rec_values (normalize_record ?spec x)) f = Some v"
    if "bt_get (rec_values x) f = Some v" "spec_field_type ?spec (rec_table_id x) f \<noteq> None" for x f v
  proof -
    from that(2) obtain field where field: "spec_field ?spec (rec_table_id x) f = Some field"
      by (auto simp: spec_field_type_def)
    then obtain table where table: "spec_table ?spec (rec_table_id x) = Some table"
      and "f \<in> fld_id ` set (tbl_fields table)" using spec_field_Some by fastforce
    with that(1) show ?thesis by (simp add: bt_get_normalize [OF table] row_value_def)
  qed
  have cok: "capture_ok ?spec c" "cap_line_table c = rec_table_id row"
    using wf cap by (auto simp: wf_spec_def captures_of_def)
  have "rec_table_id source = ref_table_id ref" using keyed source by (auto simp: keyed_def record_key_def)
  with cok ft have types: "spec_field_type ?spec (rec_table_id source) (cap_product_price_field c) \<noteq> None"
    "spec_field_type ?spec (rec_table_id row) (cap_captured_price_field c) \<noteq> None"
    by (auto simp: capture_ok_def)
  have "find_record (rst_records store') (rec_table_id r) (rec_id r) = Some (CheckedRecord (normalize_record ?spec row))"
    using final row by (simp add: record_key_def)
  moreover have "find_record (rst_records store') (ref_table_id ref) (ref_record_id ref)
      = Some (CheckedRecord (normalize_record ?spec source))"
    using final source by simp
  ultimately show ?thesis
    using norm [OF ref] norm [OF p(1) types(1)] norm [OF p(2) types(2)] ft by (auto simp: cr_values_def)
qed

subsection \<open>The temporary price\<close>

lemma get_fold_insert_const:
  "bt_get (fold (\<lambda>c. bt_insert (f c) v) cs m) k = (if k \<in> f ` set cs then Some v else bt_get m k)"
  by (induction cs arbitrary: m) auto

lemma with_temporary_prices_simps [simp]:
  "record_key (with_temporary_prices spec r) = record_key r"
  "rec_table_id (with_temporary_prices spec r) = rec_table_id r"
  by (simp_all add: with_temporary_prices_def record_key_def)

lemma temporary_graph_Ok:
  "temporary_graph spec rows keys = Ok graph \<Longrightarrow> distinct keys \<Longrightarrow>
     \<forall>k. bt_get graph k = (if k \<in> set keys then map_option (with_temporary_prices spec) (bt_get rows k) else bt_get rows k)"
proof (induction keys arbitrary: rows)
  case (Cons key keys)
  then obtain row where row: "bt_get rows key = Some row"
    and rest: "temporary_graph spec (bt_insert key (with_temporary_prices spec row) rows) keys = Ok graph"
    by (auto simp: temporary_graph_def outcome_simps)
  from Cons.IH [OF rest] Cons.prems(2) row show ?case by auto
qed (simp add: temporary_graph_def)

text \<open>
  A constraint on a captured price is checked against the temporary price 0 as well: where such a
  constraint excludes 0, no batch that inserts a row of the line table can succeed, whatever price
  its product has.
\<close>

theorem captured_price_constraint_blocks_inserts:
  assumes wf: "wf_spec (rst_spec store)" and facts: "facts_ok J (rst_spec store) (rst_records store)"
    and c: "c \<in> set (app_capture_rules (spec_def (rst_spec store)))"
    and rule: "rule \<in> set (app_constraints (spec_def (rst_spec store)))"
      "fc_table_id rule = cap_line_table c" "fc_field_id rule = cap_captured_price_field c"
      "\<not> accepts (fc_constraint rule) (Money 0)"
    and ins: "Insert r \<in> set changes" "rec_table_id r = cap_line_table c"
  shows "apply_batch J store changes \<noteq> Ok store'"
proof
  let ?spec = "rst_spec store"
  assume batch: "apply_batch J store changes = Ok store'"
  obtain st :: batch_state and graph where dist: "distinct (map change_key changes)"
    and get: "\<forall>k. bt_get (bst_candidate st) k =
          (case change_at changes k of None \<Rightarrow> bt_get (candidate_rows (rst_records store)) k | Some c \<Rightarrow> change_row c)"
    and graph: "temporary_graph ?spec (bst_candidate st) (insert_keys changes) = Ok graph"
    and valid: "\<exists>g. validate_records J ?spec (crs_scope (rst_records store)) (bt_values graph) = Ok g"
    by (rule apply_batch_Ok [OF batch wf facts]) (rule that; assumption)
  let ?w = "with_temporary_prices ?spec r"
  have "change_at changes (record_key r) = Some (Insert r)"
    using change_at_mem [OF dist ins(1)] by simp
  moreover have "record_key r \<in> set (insert_keys changes)" using ins(1) by (auto simp: insert_keys_iff)
  ultimately have "bt_get graph (record_key r) = Some ?w"
    using temporary_graph_Ok [OF graph distinct_insert_keys [OF dist]] get by simp
  then have mem: "?w \<in> set (bt_values graph)" by (auto simp: set_bt_values)
  from valid have "valid_facts ?spec (crs_scope (rst_records store)) (bt_values graph)"
    by (auto simp: validate_records_Ok_iff)
  with mem obtain keys where "record_ok ?spec (crs_scope (rst_records store)) keys ?w"
    by (auto simp: valid_facts_def)
  then obtain table where table: "spec_table ?spec (rec_table_id r) = Some table"
    and vals: "\<forall>field\<in>set (tbl_fields table). value_ok ?spec (crs_scope (rst_records store)) keys (rec_table_id r)
      field (row_value ?w (fld_id field))"
    by (auto simp: record_ok_def)
  have cap: "c \<in> set (captures_of ?spec r)" using c ins(2) by (simp add: captures_of_def)
  then have "cap_captured_price_field c \<in> fld_id ` set (tbl_fields table)"
    using capture_fields_known [OF wf cap] table by auto
  then obtain field where "field \<in> set (tbl_fields table)" "fld_id field = cap_captured_price_field c" by auto
  moreover have "row_value ?w (cap_captured_price_field c) = Money 0"
    using cap by (simp add: row_value_def with_temporary_prices_def get_fold_insert_const)
  ultimately have "value_ok ?spec (crs_scope (rst_records store)) keys (rec_table_id r) field (Money 0)"
    using vals by metis
  then have "\<forall>d\<in>constraints_at ?spec (rec_table_id r) (cap_captured_price_field c). accepts (fc_constraint d) (Money 0)"
    using \<open>fld_id field = _\<close> by (simp add: value_ok_def)
  with rule ins(2) show False by (auto simp: constraints_at_def)
qed

subsection \<open>Panics\<close>

lemma capture_price_not_Panic:
  assumes wf: "wf_spec spec" and c: "c \<in> set (captures_of spec row)"
  shows "capture_price spec scope rows row c \<noteq> Panic"
proof -
  from assms have "capture_ok spec c" "cap_line_table c = rec_table_id row"
    by (auto simp: wf_spec_def captures_of_def)
  then obtain field target where "spec_field spec (rec_table_id row) (cap_product_ref_field c) = Some field"
    and "fld_type field = FRef target" by (auto simp: capture_ok_def spec_field_type_def)
  then have "capture_source spec scope rows row c \<noteq> Panic"
    by (auto simp: capture_source_def split: option.split cell_split)
  then show ?thesis
    by (auto simp: capture_price_def and_then_Panic_iff split: option.splits cell_splits)
qed

lemma capture_prices_not_Panic:
  assumes "wf_spec spec" and "set cs \<subseteq> set (captures_of spec row)"
  shows "fold_m (capture_price spec scope rows) row cs \<noteq> Panic"
  using assms(2)
proof (induction cs arbitrary: row)
  case (Cons c cs)
  have "rec_table_id row' = rec_table_id row" if "capture_price spec scope rows row c = Ok row'" for row'
    using capture_price_Ok [OF that] by auto
  then have "captures_of spec row' = captures_of spec row" if "capture_price spec scope rows row c = Ok row'" for row'
    using that by (simp add: captures_of_def)
  then show ?case
    using Cons capture_price_not_Panic [OF assms(1), of c row] by (auto simp: and_then_Panic_iff)
qed simp

lemma capture_rows_not_Panic:
  assumes wf: "wf_spec spec"
  shows "(\<forall>k\<in>set keys. bt_get rows k \<noteq> None) \<Longrightarrow> fold_m (capture_row spec scope) rows keys \<noteq> Panic"
proof (induction keys arbitrary: rows)
  case (Cons key keys)
  then obtain row where row: "bt_get rows key = Some row" by auto
  have step: "capture_row spec scope rows key \<noteq> Panic"
    using capture_prices_not_Panic [OF wf order_refl] row
    by (auto simp: capture_row_def and_then_Panic_iff)
  have "fold_m (capture_row spec scope) rows' keys \<noteq> Panic" if "capture_row spec scope rows key = Ok rows'" for rows'
  proof (rule Cons.IH)
    show "\<forall>k\<in>set keys. bt_get rows' k \<noteq> None"
      using that Cons.prems by (auto simp: capture_row_def outcome_simps)
  qed
  with step show ?case by (auto simp: and_then_Panic_iff)
qed simp

lemma temporary_graph_not_Panic:
  "(\<forall>k\<in>set keys. bt_get rows k \<noteq> None) \<Longrightarrow> temporary_graph spec rows keys \<noteq> Panic"
proof (induction keys arbitrary: rows)
  case (Cons key keys)
  then obtain row where row: "bt_get rows key = Some row" by auto
  have "temporary_graph spec (bt_insert key (with_temporary_prices spec row) rows) keys \<noteq> Panic"
    by (rule Cons.IH) (use Cons.prems in auto)
  with row show ?case by (simp add: temporary_graph_def)
qed (simp add: temporary_graph_def)

text \<open>
  Applying a batch never panics on a compiled application and validated facts: inserted rows are
  always found again, and every capture reads a reference field.
\<close>

theorem apply_batch_never_panics:
  assumes wf: "wf_spec (rst_spec store)" and facts: "facts_ok J (rst_spec store) (rst_records store)"
  shows "apply_batch J store changes \<noteq> Panic"
proof -
  let ?spec = "rst_spec store"
  let ?init = "\<lparr>bst_candidate = candidate_rows (rst_records store), bst_touched = {}, bst_inserted = [], bst_deleted = []\<rparr>"
  have change: "apply_change ?spec st c \<noteq> Panic" for st c
  proof -
    have "for_each (\<lambda>capture. case bt_get (rec_values r) (cap_captured_price_field capture) of
            None \<Rightarrow> Ok () | Some v \<Rightarrow> if \<not> absent v then Err (CaptureInputForbidden (cap_captured_price_field capture)) else Ok ())
          cs \<noteq> Panic" for r cs
      by (rule for_each_not_Panic) (auto split: option.split)
    moreover have "for_each (check_captured_unchanged old r) cs \<noteq> Panic" for old r cs
      by (rule for_each_not_Panic) (simp add: check_captured_unchanged_def)
    ultimately show ?thesis
      by (cases c) (auto simp: apply_change_def apply_insert_def apply_replace_def apply_delete_def Let_def
          and_then_Panic_iff split: if_splits)
  qed
  have "for_each (\<lambda>row. for_each (\<lambda>v. if text_too_long v then Err (RelKernel (LimitExceeded ''text bytes'' MAX_TEXT_BYTES)) else Ok ())
        (bt_values (rec_values row))) xs \<noteq> Panic" for xs :: "raw_record list"
    by (intro for_each_not_Panic) simp
  then have incoming: "check_incoming J changes \<noteq> Panic"
    by (auto simp: check_incoming_def Let_def and_then_Panic_iff map_err_Panic_iff)
  have "for_each (check_restrict scope rows) ks \<noteq> Panic" for scope rows ks
    by (intro for_each_not_Panic) (auto simp: check_restrict_def intro!: for_each_not_Panic split: cell_splits if_splits)
  moreover have "\<forall>k\<in>set (bst_inserted st). bt_get (bst_candidate st) k \<noteq> None"
    if st: "fold_m (apply_change ?spec) ?init changes = Ok st" for st
  proof
    fix k assume "k \<in> set (bst_inserted st)"
    with apply_changes_Ok [OF st] have "k \<in> set (insert_keys changes)" by simp
    then obtain r where r: "Insert r \<in> set changes" "record_key r = k" by (auto simp: insert_keys_iff)
    from apply_changes_Ok [OF st] have dist: "distinct (map change_key changes)"
      and get: "bt_get (bst_candidate st) k =
          (case change_at changes k of None \<Rightarrow> bt_get (candidate_rows (rst_records store)) k | Some c \<Rightarrow> change_row c)"
      by (simp, simp cong: option.case_cong)
    from change_at_mem [OF dist r(1)] r(2) get show "bt_get (bst_candidate st) k \<noteq> None" by simp
  qed
  ultimately have "finish_batch J store st \<noteq> Panic"
    if "fold_m (apply_change ?spec) ?init changes = Ok st" for st
    using that temporary_graph_not_Panic capture_rows_not_Panic [OF wf]
    by (auto simp: finish_batch_def Let_def and_then_Panic_iff map_err_Panic_iff)
  then show ?thesis
    using incoming change
    by (auto simp: apply_batch_def batch_candidate_def and_then_Panic_iff fold_m_not_Panic and_then_Ok_iff
        split: if_splits)
qed

section \<open>The contract of output policies\<close>

text \<open>
  What \<open>allow_complete_scan\<close> promises in the trait's documentation: a granted scan means that every
  row of the table and each requested field can be read.
\<close>

locale attested_policy =
  fixes policy :: output_policy
    and facts :: checked_records
  assumes scan_rows: "allow_complete_scan policy (crs_scope facts) table fs \<Longrightarrow> row \<in> set (crs_records facts) \<Longrightarrow>
      cr_table_id row = table \<Longrightarrow> cr_scope row = crs_scope facts \<Longrightarrow>
      allow_record policy (crs_scope facts) table (cr_id row)"
    and scan_fields: "allow_complete_scan policy (crs_scope facts) table fs \<Longrightarrow> field \<in> set fs \<Longrightarrow>
      allow_field policy (crs_scope facts) table field"
begin

lemma scan_authorizes:
  assumes "allow_complete_scan policy (crs_scope facts) table fs" and "field \<in> set fs"
    and "facts_ok J spec facts" and "row \<in> set (crs_records facts)" and "cr_table_id row = table"
  shows "authorize_field policy row field = Ok ()"
proof -
  have "cr_scope row = crs_scope facts"
    using facts_ok_row(1) [OF assms(3,4)] by (simp add: record_ok_def cr_defs)
  with scan_rows [OF assms(1,4,5)] scan_fields [OF assms(1,2)] assms(5) show ?thesis
    by (simp add: authorize_field_def)
qed

text \<open>Once the scan is granted, the children decide the answer and never the error.\<close>

lemma reverse_refs_exact:
  assumes store: "rst_records store = facts" and ok: "facts_ok J spec facts"
  shows "reverse_refs store table record child_table ref_field policy = Ok ids \<longleftrightarrow>
    authorize_snapshot store policy = Ok ()
    \<and> (\<exists>row. authorized_record store policy table record = Ok row)
    \<and> check_reference_target store child_table ref_field table = Ok ()
    \<and> allow_complete_scan policy (crs_scope facts) child_table [ref_field]
    \<and> ids = map cr_id (filter (\<lambda>child. refers_to child ref_field table record) (table_rows store child_table))"
proof -
  have loop: "fold_m (\<lambda>result child. and_then (authorize_field policy child ref_field) (\<lambda>_.
         Ok (if refers_to child ref_field table record then result @ [cr_id child] else result))) acc xs
      = Ok (acc @ map cr_id (filter (\<lambda>child. refers_to child ref_field table record) xs))"
    if "allow_complete_scan policy (crs_scope facts) child_table [ref_field]"
      and "set xs \<subseteq> set (table_rows store child_table)" for acc xs
    using that(2)
  proof (induction xs arbitrary: acc)
    case (Cons x xs)
    then have "authorize_field policy x ref_field = Ok ()"
      using scan_authorizes [OF that(1) _ ok] store by (auto simp: table_rows_def)
    with Cons show ?case by simp
  qed simp
  have scan: "authorize_scan store policy child_table [ref_field] = Ok u
      \<longleftrightarrow> allow_complete_scan policy (crs_scope facts) child_table [ref_field]" for u
    using scan_fields by (auto simp: authorize_scan_def store Let_def)
  show ?thesis
    using loop [OF _ order_refl, of "[]"] by (auto simp: reverse_refs_def scan and_then_Ok_iff)
qed

end

interpretation preview: attested_policy local_preview_policy facts for facts
  by unfold_locales (simp_all add: local_preview_policy_def)

interpretation denied: attested_policy deny_output facts for facts
  by unfold_locales (simp_all add: deny_output_def default_allow_complete_scan_def)

interpretation hosted: attested_policy "hosted_policy p" facts for p facts
  by unfold_locales (simp_all add: hosted_policy_def default_allow_complete_scan_def)

text \<open>
  In the local preview the reverse references of a row are complete: exactly the rows of the child
  table that refer to it, in key order.
\<close>

theorem preview_reverse_refs_complete:
  assumes "facts_ok J spec (rst_records store)"
  shows "reverse_refs store table record child_table ref_field local_preview_policy = Ok ids \<longleftrightarrow>
    find_record (rst_records store) table record \<noteq> None
    \<and> spec_field_type (rst_spec store) child_table ref_field = Some (FRef table)
    \<and> ids = map cr_id (filter (\<lambda>child. cr_table_id child = child_table \<and> refers_to child ref_field table record)
                        (crs_records (rst_records store)))"
proof -
  have rows: "filter (\<lambda>child. refers_to child ref_field table record) (table_rows store child_table)
      = filter (\<lambda>child. cr_table_id child = child_table \<and> refers_to child ref_field table record)
          (crs_records (rst_records store))"
    by (simp add: table_rows_def filter_filter conj_commute)
  have target: "check_reference_target store child_table ref_field table = Ok () \<longleftrightarrow>
      spec_field_type (rst_spec store) child_table ref_field = Some (FRef table)"
  proof (cases "spec_field (rst_spec store) child_table ref_field")
    case (Some field)
    then show ?thesis
      by (cases "fld_type field")
        (auto simp: check_reference_target_def reference_target_def spec_field_type_def outcome_simps)
  qed (simp add: check_reference_target_def reference_target_def spec_field_type_def)
  show ?thesis
    unfolding preview.reverse_refs_exact [OF refl assms] rows target
    by (auto simp: authorize_snapshot_def authorized_record_def local_preview_policy_def ok_or_Ok_iff)
qed

text \<open>
  A reference grants no access. When a hosted lookup returns a value, the actor may currently read
  both rows under the policies of their tables, and both the reference and the value it leads to are
  readable fields; the value is the stored one, or null where there is no reference.
\<close>

theorem hosted_lookup_authorized:
  assumes "relation_lookup store table record ref_field target_field (hosted_policy p) = Ok v"
    and facts: "facts_ok J spec (rst_records store)"
  shows "\<exists>ctx policy row target target_policy.
    rst_records store = cop_facts p
    \<and> resolve (cop_host p) (cop_credential p) (cop_scope p) (cop_channel p) (cop_now p) Read = Ok ctx
    \<and> policy \<in> set (cop_policies p) \<and> find_record (cop_facts p) table record = Some row
    \<and> allows policy ctx row Read \<and> ref_field \<in> set (bs_list (pol_read_fields (orp_rule policy)))
    \<and> spec_field_type (rst_spec store) table ref_field = Some (FRef target)
    \<and> target_policy \<in> set (cop_policies p) \<and> orp_table_id target_policy = target
    \<and> target_field \<in> set (bs_list (pol_read_fields (orp_rule target_policy)))
    \<and> (case bt_get (cr_values row) ref_field of
         Some (Ref r) \<Rightarrow> (\<exists>target_row. find_record (cop_facts p) (ref_table_id r) (ref_record_id r) = Some target_row
            \<and> (\<exists>policy'\<in>set (cop_policies p). allows policy' ctx target_row Read)
            \<and> v = (case bt_get (cr_values target_row) target_field of None \<Rightarrow> Null | Some x \<Rightarrow> x))
       | _ \<Rightarrow> v = Null)"
proof -
  let ?P = "hosted_policy p" and ?scope = "crs_scope (rst_records store)"
  from assms obtain row target where snap: "allow_snapshot ?P (rst_spec store) (rst_records store)"
    and rec: "allow_record ?P ?scope table record" and row: "find_record (rst_records store) table record = Some row"
    and fld: "authorize_field ?P row ref_field = Ok ()"
    and target: "reference_target (rst_spec store) table ref_field = Ok target"
    and tfield: "allow_field ?P ?scope target target_field"
    and val: "(case bt_get (cr_values row) ref_field of
       Some (Ref r) \<Rightarrow>
         and_then (authorized_record store ?P (ref_table_id r) (ref_record_id r)) (\<lambda>target_row.
         and_then (authorize_field ?P target_row target_field) (\<lambda>_.
         Ok (case bt_get (cr_values target_row) target_field of None \<Rightarrow> Null | Some v \<Rightarrow> v)))
     | _ \<Rightarrow> Ok Null) = Ok v"
    by (auto simp: relation_lookup_def authorize_snapshot_def authorized_record_def outcome_simps split: if_splits)
  have same: "rst_records store = cop_facts p"
    using snap by (simp add: hosted_policy_def cop_allow_snapshot_def)
  have current: "\<exists>ctx policy. cop_current p s t = Some (ctx, policy) \<and> s = cop_scope p \<and> policy \<in> set (cop_policies p)
      \<and> orp_table_id policy = t \<and> cop_resolve p (cop_scope p) = Ok ctx"
    if "cop_current p s t \<noteq> None" for s t
    using that by (auto simp: cop_current_def split: if_splits outcome.splits option.splits dest: find_Some_mem)
  have recd: "\<exists>ctx policy. cop_resolve p (cop_scope p) = Ok ctx \<and> policy \<in> set (cop_policies p) \<and> orp_table_id policy = t
      \<and> cop_current p s t = Some (ctx, policy) \<and> (\<exists>x. find_record (cop_facts p) t i = Some x \<and> allows policy ctx x Read)"
    if "allow_record ?P s t i" for s t i
    using that current [of s t] by (auto simp: hosted_policy_def cop_allow_record_def split: option.splits)
  have fldd: "\<exists>ctx policy. cop_resolve p (cop_scope p) = Ok ctx \<and> policy \<in> set (cop_policies p) \<and> orp_table_id policy = t
      \<and> cop_current p s t = Some (ctx, policy) \<and> f \<in> set (bs_list (pol_read_fields (orp_rule policy)))"
    if "allow_field ?P s t f" for s t f
    using that current [of s t] by (auto simp: hosted_policy_def cop_allow_field_def bs_contains_iff split: option.splits)
  have rowscope: "cr_scope row = ?scope" "cr_table_id row = table" "cr_id row = record"
    using facts_ok_row(1) [OF facts] find_record_Some [OF row] by (auto simp: record_ok_def cr_defs)
  from recd [OF rec] obtain ctx policy where ctx: "cop_resolve p (cop_scope p) = Ok ctx"
    and policy: "policy \<in> set (cop_policies p)" "cop_current p ?scope table = Some (ctx, policy)" "allows policy ctx row Read"
    using row same by auto
  from fld have "allow_field ?P ?scope table ref_field" by (simp add: authorize_field_def rowscope)
  from fldd [OF this] policy(2) have ref: "ref_field \<in> set (bs_list (pol_read_fields (orp_rule policy)))" by auto
  from fldd [OF tfield] obtain tpolicy where tpolicy: "tpolicy \<in> set (cop_policies p)" "orp_table_id tpolicy = target"
    "target_field \<in> set (bs_list (pol_read_fields (orp_rule tpolicy)))" by auto
  have ftype: "spec_field_type (rst_spec store) table ref_field = Some (FRef target)"
  proof -
    from target obtain field where "spec_field (rst_spec store) table ref_field = Some field"
      and "(case fld_type field of FRef target \<Rightarrow> Ok target | _ \<Rightarrow> Err (ReferenceFieldRequired table ref_field)) = Ok target"
      by (auto simp: reference_target_def outcome_simps)
    then show ?thesis by (cases "fld_type field") (auto simp: spec_field_type_def)
  qed
  have lookup: "case bt_get (cr_values row) ref_field of
         Some (Ref r) \<Rightarrow> (\<exists>target_row. find_record (cop_facts p) (ref_table_id r) (ref_record_id r) = Some target_row
            \<and> (\<exists>policy'\<in>set (cop_policies p). allows policy' ctx target_row Read)
            \<and> v = (case bt_get (cr_values target_row) target_field of None \<Rightarrow> Null | Some x \<Rightarrow> x))
       | _ \<Rightarrow> v = Null"
  proof (cases "\<exists>r. bt_get (cr_values row) ref_field = Some (Ref r)")
    case True
    then obtain r where r: "bt_get (cr_values row) ref_field = Some (Ref r)" by blast
    with val obtain target_row where trow: "authorized_record store ?P (ref_table_id r) (ref_record_id r) = Ok target_row"
      and v: "v = (case bt_get (cr_values target_row) target_field of None \<Rightarrow> Null | Some x \<Rightarrow> x)"
      by (auto simp: and_then_Ok_iff)
    from trow have allowed: "allow_record ?P ?scope (ref_table_id r) (ref_record_id r)"
      and found: "find_record (cop_facts p) (ref_table_id r) (ref_record_id r) = Some target_row"
      by (auto simp: authorized_record_def same ok_or_Ok_iff split: if_splits)
    from recd [OF allowed] found ctx have "\<exists>policy'\<in>set (cop_policies p). allows policy' ctx target_row Read" by auto
    with r found v show ?thesis by auto
  qed (use val in \<open>auto split: option.splits cell_splits\<close>)
  from ctx have res: "resolve (cop_host p) (cop_credential p) (cop_scope p) (cop_channel p) (cop_now p) Read = Ok ctx"
    by (simp add: cop_resolve_def)
  have found: "find_record (cop_facts p) table record = Some row" using row same by simp
  from same res policy(1) found policy(3) ref ftype tpolicy lookup show ?thesis by blast
qed

section \<open>Witnesses\<close>

definition relation_spec :: checked_app_spec where
  "relation_spec = CheckedAppSpec (normalize_definition example_policy_spec)"

definition spec_store :: "checked_app_spec \<Rightarrow> relation_store" where
  "spec_store spec = \<lparr>rst_spec = spec, rst_records = \<lparr>crs_scope = witness_scope,
     crs_records = map CheckedRecord (normalized spec (example_records witness_scope))\<rparr>\<rparr>"

definition example_store :: relation_store where
  "example_store = spec_store relation_spec"

text \<open>A second order line, without a price, and a new price for the product it refers to.\<close>

definition new_line :: raw_record where
  "new_line = fixture_record witness_scope ''tbl_order_lines'' ''rec_line_2''
     [(''fld_line_order'', fixture_link witness_scope ''tbl_orders'' ''rec_order_1''),
      (''fld_line_product'', fixture_link witness_scope ''tbl_products'' ''rec_product_1''),
      (''fld_line_quantity'', Integer 5)]"

definition new_price :: raw_record where
  "new_price = fixture_record witness_scope ''tbl_products'' ''rec_product_1''
     [(''fld_product_name'', Text ''Widget''), (''fld_product_price'', Money 1999)]"

definition example_batch :: "batch_change list" where
  "example_batch = [Insert new_line, Replace new_price]"

definition line_capture :: capture_rule where
  "line_capture = hd (app_capture_rules example_spec)"

lemma example_store_wf: "wf_spec (rst_spec example_store)"
  using compile_wf [OF example_policy_spec_compiles] by (simp add: example_store_def spec_store_def relation_spec_def)

lemma example_store_facts: "facts_ok plain_serde (rst_spec example_store) (rst_records example_store)"
proof -
  have "validate_records plain_serde (rst_spec example_store) witness_scope (example_records witness_scope)
      = Ok (rst_records example_store)" by code_simp
  from validate_records_facts_ok [OF this] show ?thesis .
qed

text \<open>The stages of the batch, evaluated one at a time.\<close>

definition example_state :: "(relation_error, batch_state) outcome" where
  "example_state = batch_candidate plain_serde example_store example_batch"

lemma example_state_stages:
  "is_ok example_state"
  "is_ok (and_then example_state (\<lambda>st. for_each (check_restrict witness_scope (bst_candidate st)) (bst_deleted st)))"
  "is_ok (and_then example_state (\<lambda>st. and_then (temporary_graph relation_spec (bst_candidate st) (bst_inserted st))
     (\<lambda>rows. map_err RelKernel (validate_records plain_serde relation_spec witness_scope (bt_values rows)))))"
  "is_ok (and_then example_state (\<lambda>st. and_then (fold_m (capture_row relation_spec witness_scope) (bst_candidate st) (bst_inserted st))
     (\<lambda>rows. map_err RelKernel (validate_records plain_serde relation_spec witness_scope (bt_values rows)))))"
  subgoal by code_simp
  subgoal by code_simp
  subgoal by code_simp
  subgoal by code_simp
  done

lemma example_batch_applies: "\<exists>store'. apply_batch plain_serde example_store example_batch = Ok store'"
proof -
  from example_state_stages(1) obtain st where st: "example_state = Ok st" by (auto simp: is_ok_iff)
  have store: "rst_spec example_store = relation_spec" "crs_scope (rst_records example_store) = witness_scope"
    by (simp_all add: example_store_def spec_store_def)
  from example_state_stages(2-) show ?thesis
    unfolding apply_batch_def finish_batch_def store Let_def example_state_def [symmetric] st
    by (auto simp: is_ok_iff and_then_Ok_iff)
qed

theorem apply_batch_effect_witness:
  "\<exists>store'. apply_batch plain_serde example_store example_batch = Ok store'
     \<and> find_record (rst_records store') (Ident ''tbl_orders'') (Ident ''rec_order_1'')
       = find_record (rst_records example_store) (Ident ''tbl_orders'') (Ident ''rec_order_1'')"
proof -
  from example_batch_applies obtain store' where ok: "apply_batch plain_serde example_store example_batch = Ok store'"
    by blast
  have none: "change_at example_batch (Ident ''tbl_orders'', Ident ''rec_order_1'') = None" by code_simp
  note effect = apply_batch_effect [OF ok example_store_wf example_store_facts, THEN conjunct2, THEN conjunct2,
      THEN conjunct2, THEN conjunct2, rule_format, of "Ident ''tbl_orders''" "Ident ''rec_order_1''"]
  show ?thesis
    by (intro exI conjI, rule ok) (use effect none in simp)
qed

theorem captured_prices_are_history_witness:
  "\<exists>store' row'. apply_batch plain_serde example_store example_batch = Ok store'
     \<and> find_record (rst_records store') (Ident ''tbl_order_lines'') (Ident ''rec_line_1'') = Some row'
     \<and> bt_get (cr_values row') (Ident ''fld_line_price'') = Some (Money 1250)"
proof -
  from example_batch_applies obtain store' where ok: "apply_batch plain_serde example_store example_batch = Ok store'"
    by blast
  let ?find = "\<lambda>s. find_record (rst_records s) (Ident ''tbl_order_lines'') (Ident ''rec_line_1'')"
  have "?find example_store \<noteq> None" by code_simp
  then obtain row where row: "?find example_store = Some row" by blast
  have "change_at example_batch (Ident ''tbl_order_lines'', Ident ''rec_line_1'') = None" by code_simp
  with apply_batch_find [OF ok example_store_wf example_store_facts, of "Ident ''tbl_order_lines''" "Ident ''rec_line_1''"] row
  obtain row' where row': "?find store' = Some row'" by auto
  have "map_option (\<lambda>row. bt_get (cr_values row) (Ident ''fld_line_price'')) (?find example_store) = Some (Some (Money 1250))"
    by code_simp
  with row have price: "bt_get (cr_values row) (Ident ''fld_line_price'') = Some (Money 1250)" by simp
  have c: "line_capture \<in> set (app_capture_rules (spec_def (rst_spec example_store)))"
    "cap_line_table line_capture = Ident ''tbl_order_lines''" "cap_captured_price_field line_capture = Ident ''fld_line_price''"
    by code_simp+
  from captured_prices_are_history [OF ok example_store_wf example_store_facts row row' c(1,2)] c(3) price ok row'
  show ?thesis by auto
qed

theorem inserted_price_is_product_price_witness:
  "\<exists>store' row (ref :: record_ref) product price. apply_batch plain_serde example_store example_batch = Ok store'
     \<and> find_record (rst_records store') (Ident ''tbl_order_lines'') (Ident ''rec_line_2'') = Some row
     \<and> find_record (rst_records store') (ref_table_id ref) (ref_record_id ref) = Some product
     \<and> bt_get (cr_values product) (Ident ''fld_product_price'') = Some (Money price)
     \<and> bt_get (cr_values row) (Ident ''fld_line_price'') = Some (Money price)"
proof -
  from example_batch_applies obtain store' where ok: "apply_batch plain_serde example_store example_batch = Ok store'"
    by blast
  have ins: "Insert new_line \<in> set example_batch" by (simp add: example_batch_def)
  have c: "line_capture \<in> set (app_capture_rules (spec_def (rst_spec example_store)))"
    "cap_line_table line_capture = rec_table_id new_line" "rec_table_id new_line = Ident ''tbl_order_lines''"
    "rec_id new_line = Ident ''rec_line_2''" "cap_product_price_field line_capture = Ident ''fld_product_price''"
    "cap_captured_price_field line_capture = Ident ''fld_line_price''"
    by code_simp+
  from inserted_price_is_product_price [OF ok example_store_wf example_store_facts ins c(1,2)]
  obtain row and ref :: record_ref and product price where
    found: "find_record (rst_records store') (rec_table_id new_line) (rec_id new_line) = Some row"
      "find_record (rst_records store') (ref_table_id ref) (ref_record_id ref) = Some product"
      "bt_get (cr_values product) (cap_product_price_field line_capture) = Some (Money price)"
      "bt_get (cr_values row) (cap_captured_price_field line_capture) = Some (Money price)"
    by (elim exE conjE) (rule that)
  show ?thesis
    by (intro exI conjI) (rule ok found [unfolded c(3-6)])+
qed

text \<open>The same application with captured prices that must be at least 1.\<close>

definition priced_spec :: raw_app_spec where
  "priced_spec = example_policy_spec\<lparr>app_version := 2, app_constraints := [
     \<lparr>fc_constraint_id = Ident ''constraint_price'', fc_table_id = Ident ''tbl_order_lines'',
      fc_field_id = Ident ''fld_line_price'', fc_constraint = NumericRange 1 100000\<rparr>]\<rparr>"

definition priced_store :: relation_store where
  "priced_store = spec_store (CheckedAppSpec (normalize_definition priced_spec))"

theorem captured_price_constraint_blocks_inserts_witness:
  "\<nexists>store'. apply_batch plain_serde priced_store [Insert new_line] = Ok store'"
proof -
  have compiles: "compile plain_serde priced_spec = Ok (CheckedAppSpec (normalize_definition priced_spec))" by code_simp
  have wf: "wf_spec (rst_spec priced_store)"
    using compile_wf [OF compiles] by (simp add: priced_store_def spec_store_def)
  have "validate_records plain_serde (rst_spec priced_store) witness_scope (example_records witness_scope)
      = Ok (rst_records priced_store)" by code_simp
  note facts = validate_records_facts_ok [OF this]
  let ?rule = "hd (app_constraints priced_spec)"
  have c: "line_capture \<in> set (app_capture_rules (spec_def (rst_spec priced_store)))"
    "?rule \<in> set (app_constraints (spec_def (rst_spec priced_store)))"
    "fc_table_id ?rule = cap_line_table line_capture" "fc_field_id ?rule = cap_captured_price_field line_capture"
    "\<not> accepts (fc_constraint ?rule) (Money 0)" "Insert new_line \<in> set [Insert new_line]"
    "rec_table_id new_line = cap_line_table line_capture"
    by code_simp+
  from captured_price_constraint_blocks_inserts [OF wf facts c] show ?thesis by blast
qed

theorem apply_batch_never_panics_witness:
  "apply_batch plain_serde example_store (Delete (Ident ''tbl_products'') (Ident ''rec_product_1'') # example_batch) \<noteq> Panic"
  by (rule apply_batch_never_panics [OF example_store_wf example_store_facts])

theorem preview_reverse_refs_complete_witness:
  "reverse_refs example_store (Ident ''tbl_orders'') (Ident ''rec_order_1'') (Ident ''tbl_order_lines'')
     (Ident ''fld_line_order'') local_preview_policy = Ok [Ident ''rec_line_1'']"
  unfolding preview_reverse_refs_complete [OF example_store_facts]
  by code_simp

text \<open>Two policies of one owner: the orders, with their reference, and the customers.\<close>

definition customer_policy :: owner_role_policy where
  "customer_policy = \<lparr>orp_definition = relation_spec, orp_app_id = Ident ''app_commerce'',
     orp_rule = \<lparr>pol_rule_id = ''rule_customer'', pol_revision = 1, pol_table_id = Ident ''tbl_customers'',
        pol_owner_field = Ident ''fld_customer_owner'', pol_read_fields = bs_of_list [Ident ''fld_customer_name''],
        pol_read_roles = bt_empty, pol_write_roles = bt_empty, pol_submit_roles = bt_empty\<rparr>\<rparr>"

definition customer_order_policy :: owner_role_policy where
  "customer_order_policy = \<lparr>orp_definition = relation_spec, orp_app_id = Ident ''app_commerce'',
     orp_rule = \<lparr>pol_rule_id = ''rule_order'', pol_revision = 1, pol_table_id = Ident ''tbl_orders'',
        pol_owner_field = Ident ''fld_order_owner'', pol_read_fields = bs_of_list [Ident ''fld_order_customer''],
        pol_read_roles = bt_empty, pol_write_roles = bt_empty, pol_submit_roles = bt_empty\<rparr>\<rparr>"

definition owner_output :: current_output_policy where
  "owner_output = \<lparr>cop_serde = plain_serde, cop_host = fixture_host witness_scope ''actor_alice'', cop_credential = ''secret'',
     cop_scope = witness_scope, cop_channel = NativeBearer, cop_now = 1, cop_facts = rst_records example_store,
     cop_policies = [customer_order_policy, customer_policy]\<rparr>"

theorem hosted_lookup_authorized_witness:
  "relation_lookup example_store (Ident ''tbl_orders'') (Ident ''rec_order_1'') (Ident ''fld_order_customer'')
     (Ident ''fld_customer_name'') (hosted_policy owner_output) = Ok (Text ''Ada'')
   \<and> (\<exists>ctx. \<exists>policy\<in>set (cop_policies owner_output). \<exists>row. allows policy ctx row Read)"
proof -
  have ok: "relation_lookup example_store (Ident ''tbl_orders'') (Ident ''rec_order_1'') (Ident ''fld_order_customer'')
     (Ident ''fld_customer_name'') (hosted_policy owner_output) = Ok (Text ''Ada'')"
    by code_simp
  from hosted_lookup_authorized [OF ok example_store_facts] ok show ?thesis by blast
qed

end
