(* ===== verification/Formulas.thy ===== *)
theory Formulas
  imports Relations
begin

text \<open>
  The bounded numeric projections of \<open>crates/evobase-appspec/src/relations.rs\<close>: expressions over the
  numeric fields of a row, of the rows it refers to and of the rows that refer to it. Formulas are
  checked once (\<open>compile_formulas\<close>) and evaluated under an output policy and a budget. The checker's
  declarative counterpart is the judgement \<open>formula_kind\<close>, the evaluator's the relation \<open>formula_value\<close>
  over unbounded integers.
\<close>

section \<open>Data\<close>

datatype numeric_kind = KInteger | KMoney

datatype numeric = NInteger i64 | NMoney i64 | NNull numeric_kind

fun num_kind :: "numeric \<Rightarrow> numeric_kind" where
  "num_kind (NInteger _) = KInteger"
| "num_kind (NMoney _) = KMoney"
| "num_kind (NNull k) = k"

fun num_value :: "numeric \<Rightarrow> i64 option" where
  "num_value (NInteger v) = Some v"
| "num_value (NMoney v) = Some v"
| "num_value (NNull _) = None"

fun num_from :: "numeric_kind \<Rightarrow> i64 \<Rightarrow> numeric" where
  "num_from KInteger v = NInteger v"
| "num_from KMoney v = NMoney v"

datatype expression =
    EField field_id
  | ELookup field_id field_id
  | ESum table_id field_id expression
  | EProduct expression expression
  | ETotal "expression list"
  | ENamed string

record formula_definition =
  fdf_table :: table_id
  fdf_name :: string
  fdf_expression :: expression

record formula_limits =
  max_nodes :: nat
  max_depth :: nat
  max_records :: nat

definition default_limits :: formula_limits where
  "default_limits = \<lparr>max_nodes = 256, max_depth = 24, max_records = 1024\<rparr>"

definition validate_limits :: "formula_limits \<Rightarrow> (relation_error, unit) outcome" where
  "validate_limits L =
     (if max_nodes L = 0 \<or> max_nodes L > 16384 \<or> max_depth L = 0 \<or> max_depth L > 64
         \<or> max_records L = 0 \<or> max_records L > 10000
      then Err InvalidLimits else Ok ())"

type_synonym formula_key = "table_id \<times> string"
type_synonym formula_map = "(table_id \<times> string, expression) btree_map"

record semantic_shape =
  shp_app :: app_id
  shp_tables :: "table_id btree_set"
  shp_fields :: "(table_id \<times> field_id, field_type \<times> bool) btree_map"
  shp_captures :: "capture_rule list"

definition shape_of :: "checked_app_spec \<Rightarrow> semantic_shape" where
  "shape_of spec = \<lparr>shp_app = spec_app_id spec,
     shp_tables = bs_of_list (map tbl_id (app_tables (spec_def spec))),
     shp_fields = bt_of_list (concat (map (\<lambda>t.
        map (\<lambda>f. ((tbl_id t, fld_id f), (fld_type f, fld_required f))) (tbl_fields t)) (app_tables (spec_def spec)))),
     shp_captures = app_capture_rules (spec_def spec)\<rparr>"

record checked_formulas =
  frm_definitions :: formula_map
  frm_kinds :: "(table_id \<times> string, numeric_kind) btree_map"
  frm_limits :: formula_limits
  frm_shape :: semantic_shape

text \<open>
  A budget counts down against limits that never change; the limits are passed beside the counters.
\<close>

record budget =
  bud_nodes :: nat
  bud_records :: nat

definition budget_new :: budget where
  "budget_new = \<lparr>bud_nodes = 0, bud_records = 0\<rparr>"

definition budget_node :: "formula_limits \<Rightarrow> nat \<Rightarrow> budget \<Rightarrow> (relation_error, budget) outcome" where
  "budget_node L depth b =
     (if depth > max_depth L then Err DepthExceeded
      else let b = b\<lparr>bud_nodes := bud_nodes b + 1\<rparr> in
        if bud_nodes b > max_nodes L then Err NodeBudgetExceeded else Ok b)"

definition budget_record :: "formula_limits \<Rightarrow> budget \<Rightarrow> (relation_error, budget) outcome" where
  "budget_record L b =
     (let b = b\<lparr>bud_records := bud_records b + 1\<rparr> in
      if bud_records b > max_records L then Err RecordBudgetExceeded else Ok b)"

definition numeric_kind_of ::
  "checked_app_spec \<Rightarrow> table_id \<Rightarrow> field_id \<Rightarrow> (relation_error, numeric_kind) outcome" where
  "numeric_kind_of spec table field =
     and_then (ok_or (RelUnknownField table field) (spec_field spec table field)) (\<lambda>def.
     case fld_type def of
       FInteger \<Rightarrow> Ok KInteger
     | FMoney \<Rightarrow> Ok KMoney
     | _ \<Rightarrow> Err (NumericFieldRequired table field))"

fun numeric_value :: "value option \<Rightarrow> numeric_kind \<Rightarrow> (relation_error, numeric) outcome" where
  "numeric_value None k = Ok (NNull k)"
| "numeric_value (Some Null) k = Ok (NNull k)"
| "numeric_value (Some Blank) k = Ok (NNull k)"
| "numeric_value (Some (Integer v)) KInteger = Ok (NInteger v)"
| "numeric_value (Some (Money v)) KMoney = Ok (NMoney v)"
| "numeric_value _ _ = Err NumericTypeMismatch"

fun product_kind :: "numeric_kind \<Rightarrow> numeric_kind \<Rightarrow> (relation_error, numeric_kind) outcome" where
  "product_kind KMoney KMoney = Err MoneyProductUnsupported"
| "product_kind KInteger KInteger = Ok KInteger"
| "product_kind _ _ = Ok KMoney"

section \<open>Checking\<close>

lemma budget_node_Ok:
  "budget_node L depth b = Ok b' \<longleftrightarrow> depth \<le> max_depth L \<and> bud_nodes b < max_nodes L
     \<and> b' = b\<lparr>bud_nodes := bud_nodes b + 1\<rparr>"
  by (auto simp: budget_node_def Let_def)

text \<open>
  The checker threads the budget and the set of formulas being expanded. It goes one level deeper with
  each call and refuses to go past \<open>max_depth\<close>, so it terminates on cyclic definitions as well.
\<close>

function check_expression ::
  "formula_limits \<Rightarrow> formula_map \<Rightarrow> checked_app_spec \<Rightarrow> table_id \<Rightarrow> expression \<Rightarrow> nat \<Rightarrow>
     budget \<times> formula_key set \<Rightarrow> (relation_error, numeric_kind \<times> budget \<times> formula_key set) outcome"
where
  "check_expression L D spec table e depth st =
     and_then (budget_node L depth (fst st)) (\<lambda>b. case e of
       EField field \<Rightarrow>
         and_then (numeric_kind_of spec table field) (\<lambda>k. Ok (k, b, snd st))
     | ELookup ref_field target_field \<Rightarrow>
         and_then (reference_target spec table ref_field) (\<lambda>target.
         and_then (numeric_kind_of spec target target_field) (\<lambda>k. Ok (k, b, snd st)))
     | ESum child_table ref_field v \<Rightarrow>
         and_then (reference_target spec child_table ref_field) (\<lambda>target.
         if target \<noteq> table then Err (ReferenceTargetMismatch child_table ref_field)
         else check_expression L D spec child_table v (depth + 1) (b, snd st))
     | EProduct left right \<Rightarrow>
         and_then (check_expression L D spec table left (depth + 1) (b, snd st)) (\<lambda>(l, st).
         and_then (check_expression L D spec table right (depth + 1) st) (\<lambda>(r, st).
         and_then (product_kind l r) (\<lambda>k. Ok (k, st))))
     | ETotal vs \<Rightarrow>
         and_then (fold_m (\<lambda>(kind, st) v.
             and_then (check_expression L D spec table v (depth + 1) st) (\<lambda>(current, st).
             if kind \<noteq> None \<and> kind \<noteq> Some current then Err NumericTypeMismatch
             else Ok (Some current, st))) (None, (b, snd st)) vs) (\<lambda>(kind, st).
         and_then (ok_or EmptyTotal kind) (\<lambda>k. Ok (k, st)))
     | ENamed name \<Rightarrow>
         if (table, name) \<in> snd st then Err (FormulaCycle table name)
         else and_then (ok_or (MissingFormula table name) (bt_get D (table, name))) (\<lambda>e.
           and_then (check_expression L D spec table e (depth + 1) (b, insert (table, name) (snd st)))
             (\<lambda>(k, b, visiting). Ok (k, b, visiting - {(table, name)}))))"
  by pat_completeness auto
termination
  by (relation "measure (\<lambda>(L, _, _, _, _, depth, _). Suc (max_depth L) - depth)") (auto simp: budget_node_Ok)

declare check_expression.simps [simp del]

definition formula_name_valid :: "string \<Rightarrow> bool" where
  "formula_name_valid name \<longleftrightarrow>
     name \<noteq> [] \<and> length name \<le> 64 \<and> list_all (\<lambda>c. is_ascii_alphanumeric c \<or> c = CHR ''_'') name"

definition add_formula ::
  "checked_app_spec \<Rightarrow> formula_map \<Rightarrow> formula_definition \<Rightarrow> (relation_error, formula_map) outcome" where
  "add_formula spec D d =
     (if \<not> formula_name_valid (fdf_name d) then Err InvalidFormulaName
      else if spec_table spec (fdf_table d) = None then Err (RelUnknownTable (fdf_table d))
      else if bt_contains_key D (fdf_table d, fdf_name d) then Err (DuplicateFormula (fdf_table d) (fdf_name d))
      else Ok (bt_insert (fdf_table d, fdf_name d) (fdf_expression d) D))"

definition check_formula ::
  "checked_app_spec \<Rightarrow> formula_limits \<Rightarrow> formula_map \<Rightarrow> (table_id \<times> string, numeric_kind) btree_map \<Rightarrow>
     formula_key \<times> expression \<Rightarrow> (relation_error, (table_id \<times> string, numeric_kind) btree_map) outcome" where
  "check_formula spec L D kinds = (\<lambda>(key, e).
     and_then (check_expression L D spec (fst key) e 1 (budget_new, {key})) (\<lambda>(k, _).
     Ok (bt_insert key k kinds)))"

definition compile_formulas ::
  "checked_app_spec \<Rightarrow> formula_definition list \<Rightarrow> formula_limits \<Rightarrow> (relation_error, checked_formulas) outcome" where
  "compile_formulas spec definitions L =
     and_then (validate_limits L) (\<lambda>_.
     if length definitions > MAX_FORMULAS then Err FormulaLimit
     else and_then (fold_m (add_formula spec) bt_empty definitions) (\<lambda>D.
     and_then (fold_m (check_formula spec L D) bt_empty (entries D)) (\<lambda>kinds.
     Ok \<lparr>frm_definitions = D, frm_kinds = kinds, frm_limits = L, frm_shape = shape_of spec\<rparr>)))"

section \<open>Evaluation\<close>

text \<open>
  \<open>collect_fields\<close> and \<open>authorize_expression\<close> follow named formulas without a depth check of their own.
  Their first argument bounds the depth of the recursion; running out of it is a panic (of the stack),
  and \<open>evaluate\<close> starts them with \<open>max_depth\<close>, which checked formulas never exceed.
\<close>

fun collect_fields ::
  "nat \<Rightarrow> formula_map \<Rightarrow> table_id \<Rightarrow> expression \<Rightarrow> field_id btree_set \<Rightarrow>
     (relation_error, field_id btree_set) outcome"
where
  "collect_fields 0 D table e fs = Panic"
| "collect_fields (Suc n) D table e fs =
     (case e of
        EField field \<Rightarrow> Ok (bt_insert field () fs)
      | ELookup ref_field _ \<Rightarrow> Ok (bt_insert ref_field () fs)
      | EProduct a b \<Rightarrow>
          and_then (collect_fields n D table a fs) (\<lambda>fs. collect_fields n D table b fs)
      | ETotal vs \<Rightarrow> fold_m (\<lambda>fs v. collect_fields n D table v fs) fs vs
      | ENamed name \<Rightarrow>
          (case bt_get D (table, name) of
             Some v \<Rightarrow> collect_fields n D table v fs
           | None \<Rightarrow> Ok fs)
      | ESum _ _ _ \<Rightarrow> Ok fs)"

fun authorize_expression ::
  "nat \<Rightarrow> formula_map \<Rightarrow> relation_store \<Rightarrow> output_policy \<Rightarrow> table_id \<Rightarrow> expression \<Rightarrow> (relation_error, unit) outcome"
where
  "authorize_expression 0 D store policy table e = Panic"
| "authorize_expression (Suc n) D store policy table e =
     (let scope = crs_scope (rst_records store) in
      case e of
        EField field \<Rightarrow> if \<not> allow_field policy scope table field then Err OutputDenied else Ok ()
      | ELookup ref_field target_field \<Rightarrow>
          and_then (reference_target (rst_spec store) table ref_field) (\<lambda>target.
          if \<not> allow_field policy scope table ref_field \<or> \<not> allow_field policy scope target target_field
          then Err OutputDenied else Ok ())
      | ESum child_table ref_field v \<Rightarrow>
          and_then (collect_fields n D child_table v (bs_of_list [ref_field])) (\<lambda>fs.
          and_then (authorize_scan store policy child_table (bs_list fs)) (\<lambda>_.
          authorize_expression n D store policy child_table v))
      | EProduct a b \<Rightarrow>
          and_then (authorize_expression n D store policy table a) (\<lambda>_.
          authorize_expression n D store policy table b)
      | ETotal vs \<Rightarrow> for_each (authorize_expression n D store policy table) vs
      | ENamed name \<Rightarrow>
          and_then (expect (bt_get D (table, name))) (authorize_expression n D store policy table))"

definition checked_sum :: "i64 \<Rightarrow> numeric \<Rightarrow> (relation_error, i64) outcome" where
  "checked_sum s n = ok_or RelOverflow (checked_add s (case num_value n of None \<Rightarrow> 0 | Some v \<Rightarrow> v))"

definition multiply :: "numeric_kind \<Rightarrow> numeric \<Rightarrow> numeric \<Rightarrow> (relation_error, numeric) outcome" where
  "multiply k l r =
     (case (num_value l, num_value r) of
        (Some a, Some b) \<Rightarrow> and_then (ok_or RelOverflow (checked_mul a b)) (\<lambda>p. Ok (num_from k p))
      | _ \<Rightarrow> Ok (NNull k))"

function evaluate_expression ::
  "checked_formulas \<Rightarrow> relation_store \<Rightarrow> output_policy \<Rightarrow> checked_record \<Rightarrow> expression \<Rightarrow> nat \<Rightarrow> budget \<Rightarrow>
     (relation_error, numeric \<times> budget) outcome"
where
  "evaluate_expression F store policy row e depth b =
     and_then (budget_node (frm_limits F) depth b) (\<lambda>b. case e of
       EField field \<Rightarrow>
         and_then (authorize_field policy row field) (\<lambda>_.
         and_then (numeric_kind_of (rst_spec store) (cr_table_id row) field) (\<lambda>k.
         and_then (numeric_value (bt_get (cr_values row) field) k) (\<lambda>n. Ok (n, b))))
     | ELookup ref_field target_field \<Rightarrow>
         and_then (reference_target (rst_spec store) (cr_table_id row) ref_field) (\<lambda>target.
         and_then (case bt_get (cr_values row) ref_field of
             Some (Ref _) \<Rightarrow> budget_record (frm_limits F) b | _ \<Rightarrow> Ok b) (\<lambda>b.
         and_then (numeric_kind_of (rst_spec store) target target_field) (\<lambda>k.
         and_then (relation_lookup store (cr_table_id row) (cr_id row) ref_field target_field policy) (\<lambda>v.
         and_then (numeric_value (Some v) k) (\<lambda>n. Ok (n, b))))))
     | ESum child_table ref_field v \<Rightarrow>
         and_then (check_reference_target store child_table ref_field (cr_table_id row)) (\<lambda>_.
         and_then (collect_fields (max_depth (frm_limits F)) (frm_definitions F) child_table v (bs_of_list [ref_field]))
           (\<lambda>fs.
         and_then (authorize_scan store policy child_table (bs_list fs)) (\<lambda>_.
         and_then (check_expression (frm_limits F) (frm_definitions F) (rst_spec store) child_table v 1 (budget_new, {}))
           (\<lambda>(k, _).
         and_then (fold_m (\<lambda>(s, b) child.
             and_then (authorize_field policy child ref_field) (\<lambda>_.
             and_then (budget_record (frm_limits F) b) (\<lambda>b.
             if refers_to child ref_field (cr_table_id row) (cr_id row)
             then and_then (evaluate_expression F store policy child v (depth + 1) b) (\<lambda>(n, b).
               and_then (checked_sum s n) (\<lambda>s. Ok (s, b)))
             else Ok (s, b)))) (0, b) (table_rows store child_table)) (\<lambda>(s, b).
         Ok (num_from k s, b))))))
     | EProduct left right \<Rightarrow>
         and_then (evaluate_expression F store policy row left (depth + 1) b) (\<lambda>(l, b).
         and_then (evaluate_expression F store policy row right (depth + 1) b) (\<lambda>(r, b).
         and_then (product_kind (num_kind l) (num_kind r)) (\<lambda>k.
         and_then (multiply k l r) (\<lambda>n. Ok (n, b)))))
     | ETotal vs \<Rightarrow>
         and_then (fold_m (\<lambda>(kind, s, b) v.
             and_then (evaluate_expression F store policy row v (depth + 1) b) (\<lambda>(n, b).
             if kind \<noteq> None \<and> kind \<noteq> Some (num_kind n) then Err NumericTypeMismatch
             else and_then (checked_sum s n) (\<lambda>s. Ok (Some (num_kind n), s, b)))) (None, 0, b) vs) (\<lambda>(kind, s, b).
         and_then (ok_or EmptyTotal kind) (\<lambda>k. Ok (num_from k s, b)))
     | ENamed name \<Rightarrow>
         and_then (ok_or (MissingFormula (cr_table_id row) name) (bt_get (frm_definitions F) (cr_table_id row, name)))
           (\<lambda>e. evaluate_expression F store policy row e (depth + 1) b))"
  by pat_completeness auto
termination
  by (relation "measure (\<lambda>(F, _, _, _, _, depth, _). Suc (max_depth (frm_limits F)) - depth)") (auto simp: budget_node_Ok)

declare evaluate_expression.simps [simp del]

definition evaluate ::
  "checked_formulas \<Rightarrow> relation_store \<Rightarrow> table_id \<Rightarrow> record_id \<Rightarrow> string \<Rightarrow> output_policy \<Rightarrow> (relation_error, numeric) outcome"
where
  "evaluate F store table record name policy =
     and_then (authorize_snapshot store policy) (\<lambda>_.
     and_then (ok_or (MissingFormula table name) (bt_get (frm_definitions F) (table, name))) (\<lambda>e.
     and_then (authorized_record store policy table record) (\<lambda>row.
     if frm_shape F \<noteq> shape_of (rst_spec store) then Err DefinitionMismatch
     else and_then (authorize_expression (max_depth (frm_limits F)) (frm_definitions F) store policy table e) (\<lambda>_.
       and_then (budget_record (frm_limits F) budget_new) (\<lambda>b.
       and_then (evaluate_expression F store policy row e 1 b) (\<lambda>(n, _).
       if bt_get (frm_kinds F) (table, name) \<noteq> Some (num_kind n) then Err NumericTypeMismatch else Ok n))))))"

section \<open>The typing judgement\<close>

text \<open>
  \<open>formula_kind D spec n t e k\<close>: over rows of the table \<open>t\<close>, the expression \<open>e\<close> has the kind \<open>k\<close>, and its
  expansion, named formulas included, is at most \<open>n\<close> levels deep. A derivation is finite, so no formula that
  has one refers to itself.
\<close>

inductive formula_kind ::
  "formula_map \<Rightarrow> checked_app_spec \<Rightarrow> nat \<Rightarrow> table_id \<Rightarrow> expression \<Rightarrow> numeric_kind \<Rightarrow> bool"
  for D spec where
  fk_field: "numeric_kind_of spec t f = Ok k \<Longrightarrow> formula_kind D spec (Suc n) t (EField f) k"
| fk_lookup: "reference_target spec t r = Ok target \<Longrightarrow> numeric_kind_of spec target f = Ok k \<Longrightarrow>
    formula_kind D spec (Suc n) t (ELookup r f) k"
| fk_sum: "reference_target spec child r = Ok t \<Longrightarrow> formula_kind D spec n child v k \<Longrightarrow>
    formula_kind D spec (Suc n) t (ESum child r v) k"
| fk_product: "formula_kind D spec n t a l \<Longrightarrow> formula_kind D spec n t b r \<Longrightarrow> product_kind l r = Ok k \<Longrightarrow>
    formula_kind D spec (Suc n) t (EProduct a b) k"
| fk_total: "vs \<noteq> [] \<Longrightarrow> (\<forall>v\<in>set vs. formula_kind D spec n t v k) \<Longrightarrow> formula_kind D spec (Suc n) t (ETotal vs) k"
| fk_named: "bt_get D (t, name) = Some e \<Longrightarrow> formula_kind D spec n t e k \<Longrightarrow>
    formula_kind D spec (Suc n) t (ENamed name) k"

inductive_cases fk_cases:
  "formula_kind D spec n t (EField f) k"
  "formula_kind D spec n t (ELookup r f) k"
  "formula_kind D spec n t (ESum c r v) k"
  "formula_kind D spec n t (EProduct a b) k"
  "formula_kind D spec n t (ETotal vs) k"
  "formula_kind D spec n t (ENamed name) k"

lemma formula_kind_mono: "formula_kind D spec n t e k \<Longrightarrow> n \<le> m \<Longrightarrow> formula_kind D spec m t e k"
proof (induction arbitrary: m rule: formula_kind.induct)
  case (fk_total vs n t k)
  then obtain m' where "m = Suc m'" "n \<le> m'" by (cases m) auto
  with fk_total show ?case by (auto intro!: formula_kind.fk_total)
qed (metis Suc_le_D Suc_le_mono formula_kind.intros)+

lemma formula_kind_pos: "formula_kind D spec n t e k \<Longrightarrow> 0 < n"
  by (induction rule: formula_kind.induct) auto

subsection \<open>The checker is sound\<close>

lemma kind_loop:
  assumes "fold_m (\<lambda>(kind, st) v. and_then (check v st) (\<lambda>(current, st).
      if kind \<noteq> None \<and> kind \<noteq> Some current then Err NumericTypeMismatch else Ok (Some current, st))) (kind, st) vs
      = Ok (kind', st')"
    and "\<And>v st k st'. v \<in> set vs \<Longrightarrow> check v st = Ok (k, st') \<Longrightarrow> P v k"
  shows "(\<forall>v\<in>set vs. \<exists>k. kind' = Some k \<and> P v k) \<and> (kind \<noteq> None \<longrightarrow> kind' = kind) \<and> (vs = [] \<longrightarrow> kind' = kind)"
  using assms
proof (induction vs arbitrary: kind st)
  case (Cons v vs)
  then obtain current st1 where step: "check v st = Ok (current, st1)" and "kind = None \<or> kind = Some current"
    and rest: "fold_m (\<lambda>(kind, st) v. and_then (check v st) (\<lambda>(current, st).
      if kind \<noteq> None \<and> kind \<noteq> Some current then Err NumericTypeMismatch else Ok (Some current, st)))
      (Some current, st1) vs = Ok (kind', st')"
    by (auto simp: and_then_Ok_iff split: prod.splits if_splits)
  have "(\<forall>v\<in>set vs. \<exists>k. kind' = Some k \<and> P v k) \<and> (Some current \<noteq> None \<longrightarrow> kind' = Some current)
      \<and> (vs = [] \<longrightarrow> kind' = Some current)"
    by (rule Cons.IH [OF rest]) (auto intro: Cons.prems(2))
  then have tail: "\<forall>v\<in>set vs. \<exists>k. kind' = Some k \<and> P v k" "kind' = Some current" by blast+
  from Cons.prems(2) [OF _ step] have "P v current" by simp
  with tail \<open>kind = None \<or> kind = Some current\<close> show ?case by auto
qed simp

lemma check_expression_kind:
  "check_expression L D spec table e depth st = Ok (k, st') \<Longrightarrow>
     formula_kind D spec (Suc (max_depth L) - depth) table e k"
proof (induction L D spec table e depth st arbitrary: k st' rule: check_expression.induct)
  case (1 L D spec table e depth st)
  from "1.prems" obtain b where b: "budget_node L depth (fst st) = Ok b"
    by (subst (asm) check_expression.simps) (auto simp: and_then_Ok_iff)
  then have n: "Suc (max_depth L) - depth = Suc (max_depth L - depth)" "Suc (max_depth L) - (depth + 1) = max_depth L - depth"
    by (auto simp: budget_node_Ok)
  note IH = "1.IH" [OF b, unfolded n]
  note prem = "1.prems" [unfolded check_expression.simps [of L D spec table e depth st] b and_then.simps]
  show ?case
  proof (cases e)
    case (ESum child r v)
    with prem IH(1) [OF ESum] show ?thesis by (auto simp: n and_then_Ok_iff split: if_splits intro: fk_sum)
  next
    case (EProduct l r)
    with prem IH(2,3) [OF EProduct] show ?thesis by (fastforce simp: n and_then_Ok_iff intro: fk_product)
  next
    case (ETotal vs)
    from prem [unfolded ETotal] obtain kind where "kind = Some k" and
      "fold_m (\<lambda>(kind, st) v. and_then (check_expression L D spec table v (depth + 1) st) (\<lambda>(current, st).
         if kind \<noteq> None \<and> kind \<noteq> Some current then Err NumericTypeMismatch else Ok (Some current, st)))
         (None, (b, snd st)) vs = Ok (kind, st')"
      by (auto simp: and_then_Ok_iff ok_or_Ok_iff)
    from kind_loop [OF this(2), of "\<lambda>v k. formula_kind D spec (max_depth L - depth) table v k"] IH(4) [OF ETotal _ refl]
    have "\<forall>v\<in>set vs. formula_kind D spec (max_depth L - depth) table v k" "vs \<noteq> []"
      using \<open>kind = Some k\<close> by fastforce+
    with ETotal show ?thesis by (auto simp: n intro: fk_total)
  next
    case (ENamed name)
    with prem IH(5) [OF ENamed] show ?thesis by (fastforce simp: n and_then_Ok_iff ok_or_Ok_iff split: if_splits intro: fk_named)
  qed (use prem in \<open>auto simp: n and_then_Ok_iff intro: fk_field fk_lookup\<close>)
qed

subsection \<open>The checker is complete up to its node budget\<close>

lemma formula_kind_unique: "formula_kind D spec n t e k \<Longrightarrow> formula_kind D spec m t e k' \<Longrightarrow> k' = k"
proof (induction arbitrary: m k' rule: formula_kind.induct)
  case (fk_field t f k n)
  from fk_field.prems show ?case by (rule fk_cases) (use fk_field.hyps in simp)
next
  case (fk_lookup t r target f k n)
  from fk_lookup.prems show ?case by (rule fk_cases) (use fk_lookup.hyps in simp)
next
  case (fk_sum child r t n v k)
  from fk_sum.prems show ?case by (rule fk_cases) (rule fk_sum.IH)
next
  case (fk_product n t a l b r k)
  from fk_product.prems show ?case
  proof (rule fk_cases)
    fix m' l' r' assume "formula_kind D spec m' t a l'" "formula_kind D spec m' t b r'" "product_kind l' r' = Ok k'"
    with fk_product.IH fk_product.hyps show ?thesis by (metis outcome.inject(1))
  qed
next
  case (fk_total vs n t k)
  from fk_total.hyps obtain v where v: "v \<in> set vs" by (cases vs) auto
  from fk_total.prems obtain m' where "formula_kind D spec m' t v k'" by (rule fk_cases) (use v in blast)
  with fk_total.IH v show ?case by blast
next
  case (fk_named t name e n k)
  from fk_named.prems show ?case by (rule fk_cases) (use fk_named in auto)
qed

text \<open>The outcome of checking an expression that has a kind.\<close>

definition checks_as :: "numeric_kind \<Rightarrow> 'v \<Rightarrow> (relation_error, numeric_kind \<times> budget \<times> 'v) outcome \<Rightarrow> bool" where
  "checks_as k V r \<longleftrightarrow> r = Err NodeBudgetExceeded \<or> (\<exists>b. r = Ok (k, b, V))"

lemma checks_as_loop:
  assumes "\<And>v b. v \<in> set vs \<Longrightarrow> checks_as k V (check v (b, V))" and "kind = None \<or> kind = Some k"
  shows "fold_m (\<lambda>(kind, st) v. and_then (check v st) (\<lambda>(current, st).
      if kind \<noteq> None \<and> kind \<noteq> Some current then Err NumericTypeMismatch else Ok (Some current, st))) (kind, b, V) vs
      = Err NodeBudgetExceeded
    \<or> (\<exists>b'. fold_m (\<lambda>(kind, st) v. and_then (check v st) (\<lambda>(current, st).
      if kind \<noteq> None \<and> kind \<noteq> Some current then Err NumericTypeMismatch else Ok (Some current, st))) (kind, b, V) vs
      = Ok (if vs = [] then kind else Some k, b', V))"
  using assms
proof (induction vs arbitrary: kind b)
  case (Cons v vs)
  from Cons.prems(1) [of v b] consider "check v (b, V) = Err NodeBudgetExceeded"
    | b' where "check v (b, V) = Ok (k, b', V)" by (auto simp: checks_as_def)
  then show ?case
  proof cases
    case 2
    have "\<And>v b. v \<in> set vs \<Longrightarrow> checks_as k V (check v (b, V))" using Cons.prems(1) by simp
    from Cons.IH [OF this, of "Some k" b'] 2 Cons.prems(2) show ?thesis by auto
  qed simp
qed simp

lemma check_expression_progress:
  "formula_kind D spec n t e k \<Longrightarrow> (\<And>t' x k'. (t', x) \<in> V \<Longrightarrow> \<not> formula_kind D spec n t' (ENamed x) k') \<Longrightarrow>
     depth + n \<le> Suc (max_depth L) \<Longrightarrow> checks_as k V (check_expression L D spec t e depth (b, V))"
proof (induction n arbitrary: t e k V depth b rule: less_induct)
  case (less n)
  show ?case
  proof (cases "budget_node L depth b")
    case (Err err)
    moreover have "depth \<le> max_depth L" using formula_kind_pos [OF less.prems(1)] less.prems(3) by simp
    ultimately have "err = NodeBudgetExceeded" by (auto simp: budget_node_def Let_def split: if_splits)
    with Err show ?thesis by (simp add: checks_as_def check_expression.simps)
  next
    case (Ok b1)
    note step = check_expression.simps [of L D spec t _ depth "(b, V)", simplified Ok fst_conv and_then.simps]
    have smaller: "checks_as k' V (check_expression L D spec t' e' (depth + 1) (b', V))"
      if "n = Suc m" "formula_kind D spec m t' e' k'" for m t' e' k' b'
    proof (rule less.IH [OF _ that(2)])
      show "\<not> formula_kind D spec m u (ENamed x) k''" if "(u, x) \<in> V" for u x k''
        using less.prems(2) [OF that] \<open>n = Suc m\<close> formula_kind_mono by (meson le_SucI order_refl)
    qed (use that less.prems(3) in auto)
    from less.prems(1) show ?thesis
    proof cases
      case (fk_sum child r m v)
      with smaller [OF fk_sum(1) fk_sum(4)] show ?thesis by (simp add: step)
    next
      case (fk_product m a l c r)
      from smaller [OF fk_product(1) fk_product(3), of b1]
      consider "check_expression L D spec t a (depth + 1) (b1, V) = Err NodeBudgetExceeded"
        | b2 where "check_expression L D spec t a (depth + 1) (b1, V) = Ok (l, b2, V)" by (auto simp: checks_as_def)
      then show ?thesis
      proof cases
        case (2 b2)
        with smaller [OF fk_product(1) fk_product(4), of b2] fk_product(2,5) show ?thesis
          by (auto simp: step checks_as_def)
      qed (simp add: step checks_as_def fk_product(2))
    next
      case (fk_total vs m)
      have "checks_as k V (check_expression L D spec t v (depth + 1) (b', V))" if "v \<in> set vs" for v b'
        by (rule smaller [OF fk_total(1)]) (use fk_total(4) that in blast)
      from checks_as_loop [of vs k V "\<lambda>v st. check_expression L D spec t v (depth + 1) st" None b1] this fk_total(2,3)
      show ?thesis
        by (auto simp: step checks_as_def)
    next
      case (fk_named name e' m)
      let ?N = "LEAST m. \<exists>k'. formula_kind D spec m t (ENamed name) k'"
      have ex: "\<exists>m k'. formula_kind D spec m t (ENamed name) k'"
        using less.prems(1) [unfolded fk_named(2)] by blast
      from LeastI_ex [OF this] obtain k' where N: "formula_kind D spec ?N t (ENamed name) k'" by blast
      from formula_kind_unique [OF less.prems(1) [unfolded fk_named(2)] N] have "k' = k" .
      from N [unfolded this] obtain m' where m': "?N = Suc m'" "formula_kind D spec m' t e' k"
        using fk_named(3) by (auto elim: formula_kind.cases)
      have "?N \<le> n" by (rule Least_le) (use less.prems(1) [unfolded fk_named(2)] in blast)
      with m' have le: "m' < n" by simp
      have "checks_as k (insert (t, name) V) (check_expression L D spec t e' (depth + 1) (b1, insert (t, name) V))"
      proof (rule less.IH [OF le m'(2)])
        show "\<not> formula_kind D spec m' u (ENamed x) k''" if "(u, x) \<in> insert (t, name) V" for u x k''
        proof (cases "(u, x) = (t, name)")
          case True
          then show ?thesis using not_less_Least [of m' "\<lambda>m. \<exists>k'. formula_kind D spec m t (ENamed name) k'"] m'(1)
            by auto
        next
          case False
          with that have "(u, x) \<in> V" by auto
          from less.prems(2) [OF this] formula_kind_mono le show ?thesis by (meson less_imp_le)
        qed
      qed (use le less.prems(3) in simp)
      moreover have "(t, name) \<notin> V" using less.prems(1,2) fk_named(2) by blast
      ultimately show ?thesis using fk_named(2,3) by (auto simp: step checks_as_def)
    qed (simp_all add: step checks_as_def)
  qed (simp add: budget_node_def Let_def split: if_splits)
qed

section \<open>What a formula means\<close>

text \<open>
  The value of an expression at a row, over the integers and with absence as \<open>None\<close>: neither limits nor
  authorization nor the width of a word play a part.
\<close>

fun cell_int :: "value option \<Rightarrow> int option" where
  "cell_int (Some (Integer v)) = Some (sint v)"
| "cell_int (Some (Money v)) = Some (sint v)"
| "cell_int _ = None"

fun int_product :: "int option \<Rightarrow> int option \<Rightarrow> int option" where
  "int_product (Some x) (Some y) = Some (x * y)"
| "int_product _ _ = None"

definition int_sum :: "int option list \<Rightarrow> int" where
  "int_sum xs = sum_list (map (\<lambda>x. case x of None \<Rightarrow> 0 | Some v \<Rightarrow> v) xs)"

definition children_of :: "relation_store \<Rightarrow> checked_record \<Rightarrow> table_id \<Rightarrow> field_id \<Rightarrow> checked_record list" where
  "children_of store row child_table ref_field =
     filter (\<lambda>child. refers_to child ref_field (cr_table_id row) (cr_id row)) (table_rows store child_table)"

inductive formula_value ::
  "formula_map \<Rightarrow> relation_store \<Rightarrow> checked_record \<Rightarrow> expression \<Rightarrow> int option \<Rightarrow> bool"
  for D store where
  fv_field: "formula_value D store row (EField f) (cell_int (bt_get (cr_values row) f))"
| fv_no_reference: "(\<forall>r. bt_get (cr_values row) rf \<noteq> Some (Ref r)) \<Longrightarrow> formula_value D store row (ELookup rf f) None"
| fv_lookup: "bt_get (cr_values row) rf = Some (Ref r) \<Longrightarrow>
    find_record (rst_records store) (ref_table_id r) (ref_record_id r) = Some target \<Longrightarrow>
    formula_value D store row (ELookup rf f) (cell_int (bt_get (cr_values target) f))"
| fv_sum: "list_all2 (\<lambda>child x. formula_value D store child v x) (children_of store row child_table rf) xs \<Longrightarrow>
    formula_value D store row (ESum child_table rf v) (Some (int_sum xs))"
| fv_product: "formula_value D store row a x \<Longrightarrow> formula_value D store row b y \<Longrightarrow>
    formula_value D store row (EProduct a b) (int_product x y)"
| fv_total: "list_all2 (\<lambda>v x. formula_value D store row v x) vs xs \<Longrightarrow>
    formula_value D store row (ETotal vs) (Some (int_sum xs))"
| fv_named: "bt_get D (cr_table_id row, name) = Some e \<Longrightarrow> formula_value D store row e x \<Longrightarrow>
    formula_value D store row (ENamed name) x"

inductive_cases fv_cases:
  "formula_value D store row (EField f) x"
  "formula_value D store row (ELookup rf f) x"
  "formula_value D store row (ESum c rf v) x"
  "formula_value D store row (EProduct a b) x"
  "formula_value D store row (ETotal vs) x"
  "formula_value D store row (ENamed name) x"

lemma list_all2_functional:
  "list_all2 (\<lambda>a x. P a x \<and> (\<forall>y. P a y \<longrightarrow> x = y)) as xs \<Longrightarrow> list_all2 P as ys \<Longrightarrow> xs = ys"
  by (induction as xs arbitrary: ys rule: list_all2_induct) (auto simp: list_all2_Cons1)

lemma formula_value_unique: "formula_value D store row e x \<Longrightarrow> formula_value D store row e y \<Longrightarrow> x = y"
proof (induction arbitrary: y rule: formula_value.induct)
  case (fv_field row f)
  then show ?case by (rule fv_cases) simp
next
  case (fv_no_reference row rf f)
  from fv_no_reference.prems show ?case by (rule fv_cases) (use fv_no_reference.hyps in auto)
next
  case (fv_lookup row rf r target f)
  from fv_lookup.prems show ?case by (rule fv_cases) (use fv_lookup.hyps in auto)
next
  case (fv_sum v row child_table rf xs)
  from fv_sum.prems show ?case
    by (rule fv_cases) (auto dest: list_all2_functional [OF fv_sum.IH])
next
  case (fv_product row a x b y z)
  from fv_product.prems show ?case by (rule fv_cases) (auto dest: fv_product.IH)
next
  case (fv_total row vs xs)
  from fv_total.prems show ?case
    by (rule fv_cases) (auto dest: list_all2_functional [OF fv_total.IH])
next
  case (fv_named row name e x)
  from fv_named.prems show ?case by (rule fv_cases) (use fv_named in auto)
qed

definition num_int :: "numeric \<Rightarrow> int option" where
  "num_int n = map_option sint (num_value n)"

lemma num_int_simps [simp]:
  "num_int (NInteger v) = Some (sint v)" "num_int (NMoney v) = Some (sint v)" "num_int (NNull k) = None"
  "num_int (num_from k v) = Some (sint v)" "num_kind (num_from k v) = k"
  by (cases k; simp add: num_int_def)+

lemma numeric_value_int: "numeric_value v k = Ok n \<Longrightarrow> num_int n = cell_int v"
  by (cases "(v, k)" rule: numeric_value.cases) auto

lemma checked_sum_Ok:
  "checked_sum s n = Ok s' \<Longrightarrow> sint s' = sint s + (case num_int n of None \<Rightarrow> 0 | Some v \<Rightarrow> v)"
  by (auto simp: checked_sum_def num_int_def ok_or_Ok_iff dest!: checked_add_Some split: option.splits)

lemma multiply_Ok:
  "multiply k l r = Ok n \<Longrightarrow> num_kind n = k \<and> num_int n = int_product (num_int l) (num_int r)"
  by (cases "num_value l"; cases "num_value r")
    (auto simp: multiply_def num_int_def [of l] num_int_def [of r] and_then_Ok_iff ok_or_Ok_iff dest!: checked_mul_Some)

lemma int_sum_simps [simp]:
  "int_sum [] = 0" "int_sum (x # xs) = (case x of None \<Rightarrow> 0 | Some v \<Rightarrow> v) + int_sum xs"
  by (simp_all add: int_sum_def)

text \<open>The two summing loops.\<close>

lemma sum_loop:
  assumes "fold_m (\<lambda>(s, b) child. and_then (auth child) (\<lambda>_. and_then (charge b) (\<lambda>b.
      if sel child then and_then (eval child b) (\<lambda>(n, b). and_then (checked_sum s n) (\<lambda>s. Ok (s, b)))
      else Ok (s, b)))) (s, b) xs = Ok (s', b')"
    and "\<And>child b0 b n b'. child \<in> set xs \<Longrightarrow> auth child = Ok () \<Longrightarrow> charge b0 = Ok b \<Longrightarrow> sel child \<Longrightarrow>
      eval child b = Ok (n, b') \<Longrightarrow> P child (num_int n)"
  shows "\<exists>ys. list_all2 P (filter sel xs) ys \<and> sint s' = sint s + int_sum ys"
  using assms
proof (induction xs arbitrary: s b)
  case (Cons x xs)
  let ?step = "\<lambda>(s, b) child. and_then (auth child) (\<lambda>_. and_then (charge b) (\<lambda>b.
      if sel child then and_then (eval child b) (\<lambda>(n, b). and_then (checked_sum s n) (\<lambda>s. Ok (s, b)))
      else Ok (s, b)))"
  from Cons.prems(1) obtain s1 b1 where step: "?step (s, b) x = Ok (s1, b1)" and rest: "fold_m ?step (s1, b1) xs = Ok (s', b')"
    by (auto simp: and_then_Ok_iff split: if_splits prod.splits)
  have "\<exists>ys. list_all2 P (filter sel xs) ys \<and> sint s' = sint s1 + int_sum ys"
    by (rule Cons.IH [OF rest]) (auto intro: Cons.prems(2))
  then obtain ys where ys: "list_all2 P (filter sel xs) ys" "sint s' = sint s1 + int_sum ys" by blast
  show ?case
  proof (cases "sel x")
    case True
    with step obtain b0 n where n: "auth x = Ok ()" "charge b = Ok b0" "eval x b0 = Ok (n, b1)" "checked_sum s n = Ok s1"
      by (auto simp: and_then_Ok_iff)
    with Cons.prems(2) [OF _ n(1,2) True n(3)] ys True show ?thesis
      by (auto intro!: exI [of _ "num_int n # ys"] dest: checked_sum_Ok)
  next
    case False
    with step ys show ?thesis by (auto simp: and_then_Ok_iff)
  qed
qed simp

lemma total_loop:
  assumes "fold_m (\<lambda>(kind, s, b) v. and_then (eval v b) (\<lambda>(n, b).
      if kind \<noteq> None \<and> kind \<noteq> Some (num_kind n) then Err NumericTypeMismatch
      else and_then (checked_sum s n) (\<lambda>s. Ok (Some (num_kind n), s, b)))) (kind, s, b) vs = Ok (kind', s', b')"
    and "\<And>v b n b'. v \<in> set vs \<Longrightarrow> eval v b = Ok (n, b') \<Longrightarrow> P v (num_int n)"
  shows "\<exists>ys. list_all2 P vs ys \<and> sint s' = sint s + int_sum ys"
  using assms
proof (induction vs arbitrary: kind s b)
  case (Cons v vs)
  let ?step = "\<lambda>(kind, s, b) v. and_then (eval v b) (\<lambda>(n, b).
      if kind \<noteq> None \<and> kind \<noteq> Some (num_kind n) then Err NumericTypeMismatch
      else and_then (checked_sum s n) (\<lambda>s. Ok (Some (num_kind n), s, b)))"
  from Cons.prems(1) obtain n b1 s1 where n: "eval v b = Ok (n, b1)" "checked_sum s n = Ok s1"
    and rest: "fold_m ?step (Some (num_kind n), s1, b1) vs = Ok (kind', s', b')"
    by (cases "eval v b") (auto simp: and_then_Ok_iff split: if_splits)
  have "\<exists>ys. list_all2 P vs ys \<and> sint s' = sint s1 + int_sum ys"
    by (rule Cons.IH [OF rest]) (auto intro: Cons.prems(2))
  then obtain ys where "list_all2 P vs ys" "sint s' = sint s1 + int_sum ys" by blast
  with Cons.prems(2) [OF _ n(1)] checked_sum_Ok [OF n(2)] show ?case
    by (intro exI [of _ "num_int n # ys"]) simp
qed simp

lemma fv_lookup_eq:
  "bt_get (cr_values row) rf = Some (Ref r) \<Longrightarrow>
     find_record (rst_records store) (ref_table_id r) (ref_record_id r) = Some target \<Longrightarrow>
     cell_int (bt_get (cr_values target) f) = x \<Longrightarrow> formula_value D store row (ELookup rf f) x"
  using fv_lookup by blast

lemma relation_lookup_value:
  assumes "relation_lookup store table record rf f policy = Ok v"
    and "find_record (rst_records store) table record = Some row" and "cell_int (Some v) = x"
  shows "formula_value D store row (ELookup rf f) x"
proof (cases "\<exists>r. bt_get (cr_values row) rf = Some (Ref r)")
  case True
  then obtain r where r: "bt_get (cr_values row) rf = Some (Ref r)" by blast
  with assms(1,2) obtain target where "find_record (rst_records store) (ref_table_id r) (ref_record_id r) = Some target"
    and "v = (case bt_get (cr_values target) f of None \<Rightarrow> Null | Some v \<Rightarrow> v)"
    by (auto simp: relation_lookup_def authorized_record_def outcome_simps split: if_splits)
  with r assms(3) show ?thesis by (intro fv_lookup_eq [OF r]) (auto split: option.splits)
next
  case False
  with assms have "v = Null"
    by (auto simp: relation_lookup_def authorized_record_def outcome_simps split: if_splits option.splits cell_splits)
  with assms(3) False show ?thesis by (auto intro: fv_no_reference)
qed

lemma evaluate_expression_value:
  "evaluate_expression F store policy row e depth b = Ok (n, b') \<Longrightarrow>
     find_record (rst_records store) (cr_table_id row) (cr_id row) = Some row \<Longrightarrow>
     (\<forall>r\<in>set (crs_records (rst_records store)). find_record (rst_records store) (cr_table_id r) (cr_id r) = Some r) \<Longrightarrow>
     formula_value (frm_definitions F) store row e (num_int n)"
proof (induction F store policy row e depth b arbitrary: n b' rule: evaluate_expression.induct)
  case (1 F store policy row e depth b)
  from "1.prems"(1) obtain b1 where b1: "budget_node (frm_limits F) depth b = Ok b1"
    by (subst (asm) evaluate_expression.simps) (auto simp: and_then_Ok_iff)
  note IH = "1.IH" [OF b1]
  note prem = "1.prems"(1) [unfolded evaluate_expression.simps [of F store policy row e depth b] b1 and_then.simps]
  show ?case
  proof (cases e)
    case (EField f)
    with prem show ?thesis by (auto simp: and_then_Ok_iff numeric_value_int intro: fv_field)
  next
    case (ELookup rf f)
    with prem obtain v k where "relation_lookup store (cr_table_id row) (cr_id row) rf f policy = Ok v"
      and "numeric_value (Some v) k = Ok n"
      by (auto simp: and_then_Ok_iff)
    with ELookup "1.prems"(2) show ?thesis by (auto intro: relation_lookup_value simp: numeric_value_int)
  next
    case (ESum child rf v)
    let ?step = "\<lambda>(s, b) child. and_then (authorize_field policy child rf) (\<lambda>_.
             and_then (budget_record (frm_limits F) b) (\<lambda>b.
             if refers_to child rf (cr_table_id row) (cr_id row)
             then and_then (evaluate_expression F store policy child v (depth + 1) b) (\<lambda>(n, b).
               and_then (checked_sum s n) (\<lambda>s. Ok (s, b)))
             else Ok (s, b)))"
    from prem [unfolded ESum] obtain k s where n: "n = num_from k s"
      and loop: "fold_m ?step (0, b1) (table_rows store child) = Ok (s, b')"
      by (auto simp: and_then_Ok_iff)
    have "formula_value (frm_definitions F) store c v (num_int m)"
      if "c \<in> set (table_rows store child)" "authorize_field policy c rf = Ok ()"
        "budget_record (frm_limits F) b0 = Ok b2" "refers_to c rf (cr_table_id row) (cr_id row)"
        "evaluate_expression F store policy c v (depth + 1) b2 = Ok (m, b3)" for c b0 b2 m b3
      using ESum prem that "1.prems"(3) IH(1) by (auto simp: table_rows_def and_then_Ok_iff)
    from sum_loop [OF loop, of "\<lambda>c x. formula_value (frm_definitions F) store c v x"] this
    obtain ys where "list_all2 (\<lambda>c x. formula_value (frm_definitions F) store c v x) (children_of store row child rf) ys"
      and "sint s = int_sum ys" by (auto simp: children_of_def)
    with n ESum fv_sum [OF this(1)] show ?thesis by simp
  next
    case (EProduct l r)
    with prem obtain nl b2 nr k where l: "evaluate_expression F store policy row l (depth + 1) b1 = Ok (nl, b2)"
      and r: "evaluate_expression F store policy row r (depth + 1) b2 = Ok (nr, b')"
      and n: "multiply k nl nr = Ok n"
      by (auto simp: and_then_Ok_iff)
    have "formula_value (frm_definitions F) store row l (num_int nl)"
      by (rule IH(2) [OF EProduct l "1.prems"(2,3)])
    moreover have "formula_value (frm_definitions F) store row r (num_int nr)"
      by (rule IH(3) [OF EProduct l refl r "1.prems"(2,3)])
    ultimately show ?thesis using multiply_Ok [OF n] EProduct by (auto intro: fv_product)
  next
    case (ETotal vs)
    from prem [unfolded ETotal] obtain kind s k where n: "n = num_from k s"
      and loop: "fold_m (\<lambda>(kind, s, b) v.
             and_then (evaluate_expression F store policy row v (depth + 1) b) (\<lambda>(n, b).
             if kind \<noteq> None \<and> kind \<noteq> Some (num_kind n) then Err NumericTypeMismatch
             else and_then (checked_sum s n) (\<lambda>s. Ok (Some (num_kind n), s, b)))) (None, 0, b1) vs = Ok (kind, s, b')"
      by (auto simp: and_then_Ok_iff)
    from total_loop [OF loop, of "\<lambda>v x. formula_value (frm_definitions F) store row v x"] ETotal "1.prems"(2,3) IH(4)
    obtain ys where "list_all2 (\<lambda>v x. formula_value (frm_definitions F) store row v x) vs ys" "sint s = int_sum ys"
      by fastforce
    with n ETotal fv_total [OF this(1)] show ?thesis by simp
  next
    case (ENamed name)
    with prem IH(5) [OF ENamed] "1.prems"(2,3) show ?thesis by (fastforce simp: and_then_Ok_iff ok_or_Ok_iff intro: fv_named)
  qed
qed

section \<open>Checked formulas do not go wrong\<close>

text \<open>
  The outcomes a checked formula may have: a result with a property, or one of the four errors that depend
  on the policy, the budget and the size of the numbers.
\<close>

definition benign :: "('a \<Rightarrow> bool) \<Rightarrow> (relation_error, 'a) outcome \<Rightarrow> bool" where
  "benign P r \<longleftrightarrow> (case r of Ok x \<Rightarrow> P x
     | Err e \<Rightarrow> e \<in> {OutputDenied, NodeBudgetExceeded, RecordBudgetExceeded, RelOverflow}
     | Panic \<Rightarrow> False)"

lemma benign_simps [simp]:
  "benign P (Ok x) \<longleftrightarrow> P x" "\<not> benign P Panic"
  "benign P (Err e) \<longleftrightarrow> e \<in> {OutputDenied, NodeBudgetExceeded, RecordBudgetExceeded, RelOverflow}"
  by (simp_all add: benign_def)

lemma benign_and_then:
  "benign Q m \<Longrightarrow> (\<And>x. m = Ok x \<Longrightarrow> Q x \<Longrightarrow> benign P (f x)) \<Longrightarrow> benign P (and_then m f)"
  by (cases m) auto

lemmas benign_seq = benign_and_then [where Q = "\<lambda>_. True"]

lemma benign_mono: "benign Q m \<Longrightarrow> (\<And>x. Q x \<Longrightarrow> P x) \<Longrightarrow> benign P m"
  by (cases m) auto

lemma benign_fold_m:
  assumes "\<And>s x. x \<in> set xs \<Longrightarrow> I s \<Longrightarrow> benign I (f s x)"
  shows "I s \<Longrightarrow> benign I (fold_m f s xs)"
  using assms
proof (induction xs arbitrary: s)
  case (Cons x xs)
  show ?case unfolding fold_m.simps
  proof (rule benign_and_then)
    show "benign I (f s x)" using Cons.prems by simp
    show "benign I (fold_m f s' xs)" if "I s'" for s'
      using Cons.IH [OF that] Cons.prems(2) by simp
  qed
qed simp

lemma benign_for_each: "(\<And>x. x \<in> set xs \<Longrightarrow> benign (\<lambda>_. True) (f x)) \<Longrightarrow> benign (\<lambda>_. True) (for_each f xs)"
  by (induction xs) (auto intro: benign_seq)

lemma benign_basics [simp]:
  "benign (\<lambda>_. True) (authorize_field policy row field)"
  "benign (\<lambda>_. True) (authorize_scan store policy table fs)"
  "benign (\<lambda>_. True) (authorize_snapshot store policy)"
  "benign (\<lambda>_. True) (budget_record L b)"
  "depth \<le> max_depth L \<Longrightarrow> benign (\<lambda>_. True) (budget_node L depth b)"
  "benign (\<lambda>_. True) (checked_sum s n)"
  "benign (\<lambda>n. num_kind n = k) (multiply k l r)"
  by (auto simp: authorize_field_def authorize_scan_def authorize_snapshot_def budget_record_def budget_node_def
      checked_sum_def multiply_def Let_def ok_or_def split: option.split)

subsection \<open>Fields hold numbers of their kind\<close>

definition cell_fits :: "numeric_kind \<Rightarrow> value option \<Rightarrow> bool" where
  "cell_fits k v \<longleftrightarrow> (\<exists>n. numeric_value v k = Ok n \<and> num_kind n = k)"

lemma numeric_kind_of_Ok:
  "numeric_kind_of spec t f = Ok k \<longleftrightarrow>
     spec_field_type spec t f = Some (case k of KInteger \<Rightarrow> FInteger | KMoney \<Rightarrow> FMoney)"
proof (cases "spec_field spec t f")
  case (Some field)
  then show ?thesis
    by (cases "fld_type field"; cases k) (simp_all add: numeric_kind_of_def spec_field_type_def)
qed (simp add: numeric_kind_of_def spec_field_type_def)

lemma reference_target_Ok: "reference_target spec t f = Ok target \<longleftrightarrow> spec_field_type spec t f = Some (FRef target)"
proof (cases "spec_field spec t f")
  case (Some field)
  then show ?thesis by (cases "fld_type field") (simp_all add: reference_target_def spec_field_type_def)
qed (simp add: reference_target_def spec_field_type_def)

lemma facts_cell_fits:
  assumes ok: "facts_ok J spec facts" and row: "row \<in> set (crs_records facts)"
    and k: "numeric_kind_of spec (cr_table_id row) f = Ok k"
  shows "cell_fits k (bt_get (cr_values row) f)"
proof (cases "bt_get (cr_values row) f")
  case (Some v)
  from facts_ok_value [OF ok row Some] obtain field where field: "spec_field spec (cr_table_id row) f = Some field"
    and v: "value_ok spec (crs_scope facts) (record_key ` set (to_raw facts)) (cr_table_id row) field v" by blast
  from field k have "fld_type field = (case k of KInteger \<Rightarrow> FInteger | KMoney \<Rightarrow> FMoney)"
    by (simp add: numeric_kind_of_Ok spec_field_type_def)
  with v Some show ?thesis
    by (cases k; cases v) (auto simp: cell_fits_def value_ok_def)
qed (simp add: cell_fits_def)

lemma relation_lookup_benign:
  assumes ok: "facts_ok J (rst_spec store) (rst_records store)" and row: "row \<in> set (crs_records (rst_records store))"
    and target: "reference_target (rst_spec store) (cr_table_id row) rf = Ok target"
    and k: "numeric_kind_of (rst_spec store) target f = Ok k"
  shows "benign (\<lambda>v. cell_fits k (Some v)) (relation_lookup store (cr_table_id row) (cr_id row) rf f policy)"
proof -
  have found: "find_record (rst_records store) (cr_table_id row) (cr_id row) = Some row"
    using row by (simp add: find_record_iff [OF ok])
  have known: "spec_field (rst_spec store) target f \<noteq> None"
    using k by (auto simp: numeric_kind_of_Ok spec_field_type_def)
  have null: "cell_fits k (Some Null)" by (simp add: cell_fits_def)
  have ref: "\<exists>trow. find_record (rst_records store) (ref_table_id r) (ref_record_id r) = Some trow
      \<and> cell_fits k (bt_get (cr_values trow) f)"
    if r: "bt_get (cr_values row) rf = Some (Ref r)" for r
  proof -
    from facts_ok_value [OF ok row r] obtain field where "spec_field (rst_spec store) (cr_table_id row) rf = Some field"
      and v: "value_ok (rst_spec store) (crs_scope (rst_records store)) (record_key ` set (to_raw (rst_records store)))
        (cr_table_id row) field (Ref r)" by blast
    with target have "fld_type field = FRef target" by (simp add: reference_target_Ok spec_field_type_def)
    with v have key: "ref_table_id r = target" "(ref_table_id r, ref_record_id r) \<in> record_key ` set (to_raw (rst_records store))"
      by (auto simp: value_ok_def reference_ok_def)
    then obtain trow where trow: "trow \<in> set (crs_records (rst_records store))" "cr_table_id trow = ref_table_id r"
      "cr_id trow = ref_record_id r" by (auto simp: to_raw_def record_key_def cr_defs)
    with facts_cell_fits [OF ok trow(1)] k key(1) have "cell_fits k (bt_get (cr_values trow) f)" by simp
    with trow show ?thesis by (auto simp: find_record_iff [OF ok])
  qed
  show ?thesis
    using target known found null ref
    by (auto simp: relation_lookup_def authorized_record_def authorize_snapshot_def authorize_field_def
        split: option.splits cell_splits)
qed

subsection \<open>Recursion within the depth that was checked\<close>

lemma collect_fields_Ok:
  "formula_kind D spec n t e k \<Longrightarrow> \<exists>fs'. collect_fields n D t e fs = Ok fs'"
proof (induction arbitrary: fs rule: formula_kind.induct)
  case (fk_product n t a l b r k)
  from fk_product.IH(1) obtain fs1 where "collect_fields n D t a fs = Ok fs1" by blast
  with fk_product.IH(2) show ?case by simp
next
  case (fk_total vs n t k)
  have "\<exists>fs'. fold_m (\<lambda>fs v. collect_fields n D t v fs) fs ws = Ok fs'" if "set ws \<subseteq> set vs" for ws
    using that
  proof (induction ws arbitrary: fs)
    case (Cons w ws)
    with fk_total.IH obtain fs1 where "collect_fields n D t w fs = Ok fs1" by fastforce
    with Cons show ?case by simp
  qed simp
  then show ?case by simp
qed simp_all

lemma authorize_expression_benign:
  "formula_kind D (rst_spec store) n t e k \<Longrightarrow> benign (\<lambda>_. True) (authorize_expression n D store policy t e)"
proof (induction rule: formula_kind.induct)
  case (fk_sum child r t n v k)
  from collect_fields_Ok [OF fk_sum.hyps(2)] obtain fs where "collect_fields n D child v (bs_of_list [r]) = Ok fs"
    by blast
  with fk_sum.IH show ?case
    by (auto simp: Let_def intro: benign_seq)
qed (auto simp: Let_def intro: benign_seq benign_for_each)

lemma evaluate_expression_benign:
  assumes ok: "facts_ok J (rst_spec store) (rst_records store)"
  shows "formula_kind (frm_definitions F) (rst_spec store) n t e k \<Longrightarrow>
    row \<in> set (crs_records (rst_records store)) \<Longrightarrow> cr_table_id row = t \<Longrightarrow> depth + n \<le> Suc (max_depth (frm_limits F)) \<Longrightarrow>
    depth \<ge> 1 \<Longrightarrow>
    benign (\<lambda>(v, _). num_kind v = k) (evaluate_expression F store policy row e depth b)"
proof (induction arbitrary: row depth b rule: formula_kind.induct)
  case (fk_field t f k n)
  from facts_cell_fits [OF ok fk_field.prems(1)] fk_field have "cell_fits k (bt_get (cr_values row) f)" by simp
  with fk_field show ?case
    by (auto simp: evaluate_expression.simps [of F store policy row _ depth b] cell_fits_def intro!: benign_seq)
next
  case (fk_lookup t r target f k n)
  note lookup = relation_lookup_benign [OF ok fk_lookup.prems(1)]
  have charge: "benign (\<lambda>_. True) (case bt_get (cr_values row) r of Some (Ref _) \<Rightarrow> budget_record (frm_limits F) b1 | _ \<Rightarrow> Ok b1)"
    for b1 by (simp split: option.split cell_split)
  have "benign (\<lambda>v. cell_fits k (Some v)) (relation_lookup store (cr_table_id row) (cr_id row) r f policy)"
    by (rule lookup) (use fk_lookup in auto)
  then have rest: "benign (\<lambda>(v, _). num_kind v = k) (and_then (relation_lookup store (cr_table_id row) (cr_id row) r f policy)
      (\<lambda>v. and_then (numeric_value (Some v) k) (\<lambda>n. Ok (n, b1))))" for b1
    by (rule benign_and_then) (auto simp: cell_fits_def)
  show ?case
    unfolding evaluate_expression.simps [of F store policy row _ depth b] expression.case
  proof (rule benign_seq)
    show "benign (\<lambda>(v, _). num_kind v = k) (and_then (reference_target (rst_spec store) (cr_table_id row) r) (\<lambda>target.
         and_then (case bt_get (cr_values row) r of Some (Ref _) \<Rightarrow> budget_record (frm_limits F) b1 | _ \<Rightarrow> Ok b1) (\<lambda>b.
         and_then (numeric_kind_of (rst_spec store) target f) (\<lambda>k.
         and_then (relation_lookup store (cr_table_id row) (cr_id row) r f policy) (\<lambda>v.
         and_then (numeric_value (Some v) k) (\<lambda>n. Ok (n, b)))))))" for b1
      using fk_lookup.hyps unfolding fk_lookup.prems(2) [symmetric] by (simp add: benign_seq [OF charge rest])
  qed (use fk_lookup.prems in simp)
next
  case (fk_sum child r t n v k)
  let ?L = "frm_limits F" and ?D = "frm_definitions F" and ?spec = "rst_spec store"
  have n: "n \<le> max_depth ?L" using fk_sum.prems by simp
  from collect_fields_Ok [OF formula_kind_mono [OF fk_sum.hyps(2) n]]
  obtain fs where fs: "collect_fields (max_depth ?L) ?D child v (bs_of_list [r]) = Ok fs" by blast
  have target: "check_reference_target store child r (cr_table_id row) = Ok ()"
    using fk_sum by (simp add: check_reference_target_def)
  have check: "benign (\<lambda>(k', _). k' = k) (check_expression ?L ?D ?spec child v 1 (budget_new, {}))"
    using check_expression_progress [OF fk_sum.hyps(2), of "{}" 1 ?L budget_new] n by (auto simp: checks_as_def)
  have child: "benign (\<lambda>(w, _). num_kind w = k) (evaluate_expression F store policy c v (depth + 1) b')"
    if "c \<in> set (table_rows store child)" for c b'
    using fk_sum that by (auto simp: table_rows_def)
  let ?step = "\<lambda>(w, b) c. and_then (authorize_field policy c r) (\<lambda>_.
      and_then (budget_record ?L b) (\<lambda>b.
      if refers_to c r (cr_table_id row) (cr_id row)
      then and_then (evaluate_expression F store policy c v (depth + 1) b) (\<lambda>(n, b).
        and_then (checked_sum w n) (\<lambda>w. Ok (w, b)))
      else Ok (w, b)))"
  have step: "benign (\<lambda>_. True) (?step sb c)" if "c \<in> set (table_rows store child)" for sb c
    using benign_mono [OF child [OF that], of "\<lambda>_. True"] by (cases sb) (auto intro!: benign_seq)
  have loop: "benign (\<lambda>_. True) (fold_m ?step st (table_rows store child))" for st
    by (rule benign_fold_m) (rule step, auto)
  have rest: "benign (\<lambda>(v, _). num_kind v = k) (and_then (check_expression ?L ?D ?spec child v 1 (budget_new, {})) (\<lambda>(k, _).
      and_then (fold_m ?step (0, b1) (table_rows store child)) (\<lambda>(w, b). Ok (num_from k w, b))))" for b1
  proof (rule benign_and_then [OF check])
    show "benign (\<lambda>(v, _). num_kind v = k) (case x of (k, _) \<Rightarrow>
      and_then (fold_m ?step (0, b1) (table_rows store child)) (\<lambda>(w, b). Ok (num_from k w, b)))"
      if "case x of (k', _) \<Rightarrow> k' = k" for x
      using that by (cases x) (auto simp del: One_nat_def intro!: benign_seq [OF loop])
  qed
  show ?case
    unfolding evaluate_expression.simps [of F store policy row _ depth b] expression.case target and_then.simps fs
  proof (rule benign_seq)
    show "benign (\<lambda>(v, _). num_kind v = k) (and_then (authorize_scan store policy child (bs_list fs)) (\<lambda>_.
      and_then (check_expression ?L ?D ?spec child v 1 (budget_new, {})) (\<lambda>(k, _).
      and_then (fold_m ?step (0, b1) (table_rows store child)) (\<lambda>(w, b). Ok (num_from k w, b)))))" for b1
      by (rule benign_seq [OF _ rest]) simp
  qed (use fk_sum.prems in simp)
next
  case (fk_product n t a l c r k)
  have both: "benign (\<lambda>(v, _). num_kind v = l) (evaluate_expression F store policy row a (depth + 1) b')"
    "benign (\<lambda>(v, _). num_kind v = r) (evaluate_expression F store policy row c (depth + 1) b')" for b'
    using fk_product by auto
  have finish: "benign (\<lambda>(v, _). num_kind v = k) (and_then (multiply k x y) (\<lambda>n. Ok (n, b')))" for x y b'
    by (rule benign_and_then [where Q = "\<lambda>n. num_kind n = k"]) simp_all
  have second: "benign (\<lambda>(v, _). num_kind v = k) (and_then (evaluate_expression F store policy row c (depth + 1) b') (\<lambda>(y, b).
         and_then (product_kind (num_kind x) (num_kind y)) (\<lambda>k. and_then (multiply k x y) (\<lambda>n. Ok (n, b)))))"
    if "num_kind x = l" for x b'
    by (rule benign_and_then [OF both(2)]) (use that fk_product.hyps(3) finish in auto)
  show ?case
    unfolding evaluate_expression.simps [of F store policy row _ depth b] expression.case
  proof (rule benign_seq)
    show "benign (\<lambda>(v, _). num_kind v = k) (and_then (evaluate_expression F store policy row a (depth + 1) b1) (\<lambda>(x, b).
         and_then (evaluate_expression F store policy row c (depth + 1) b) (\<lambda>(y, b).
         and_then (product_kind (num_kind x) (num_kind y)) (\<lambda>k. and_then (multiply k x y) (\<lambda>n. Ok (n, b))))))" for b1
      by (rule benign_and_then [OF both(1)]) (use second in auto)
  qed (use fk_product.prems in simp)
next
  case (fk_total vs n t k)
  let ?step = "\<lambda>(kind, s, b) v. and_then (evaluate_expression F store policy row v (depth + 1) b) (\<lambda>(n, b).
             if kind \<noteq> None \<and> kind \<noteq> Some (num_kind n) then Err NumericTypeMismatch
             else and_then (checked_sum s n) (\<lambda>s. Ok (Some (num_kind n), s, b)))"
  have one: "benign (\<lambda>(v, _). num_kind v = k) (evaluate_expression F store policy row v (depth + 1) b')" if "v \<in> set vs" for v b'
    using fk_total that by auto
  have step: "benign (\<lambda>(kind, _). kind = Some k) (?step st v)" if "v \<in> set vs" "fst st = None \<or> fst st = Some k" for st v
  proof -
    obtain kind s b' where st: "st = (kind, s, b')" by (cases st)
    show ?thesis unfolding st prod.case
      by (rule benign_and_then [OF one [OF that(1)]]) (use that(2) st in \<open>auto intro!: benign_seq\<close>)
  qed
  from fk_total.hyps obtain w ws where vs: "vs = w # ws" by (cases vs) auto
  have loop: "benign (\<lambda>(kind, _). kind = Some k) (fold_m ?step (None, 0, b1) vs)" for b1
    unfolding vs fold_m.simps
  proof (rule benign_and_then [OF step])
    fix st :: "numeric_kind option \<times> i64 \<times> budget" assume "case st of (kind, _) \<Rightarrow> kind = Some k"
    then show "benign (\<lambda>(kind, _). kind = Some k) (fold_m ?step st ws)"
      by (rule benign_fold_m [rotated]) (rule step, auto simp: vs)
  qed (simp_all add: vs)
  show ?case
    unfolding evaluate_expression.simps [of F store policy row _ depth b] expression.case
  proof (rule benign_seq)
    show "benign (\<lambda>(v, _). num_kind v = k) (and_then (fold_m ?step (None, 0, b1) vs) (\<lambda>(kind, s, b).
         and_then (ok_or EmptyTotal kind) (\<lambda>k. Ok (num_from k s, b))))" for b1
      by (rule benign_and_then [OF loop]) auto
  qed (use fk_total.prems in simp)
next
  case (fk_named t name e n k)
  show ?case
    unfolding evaluate_expression.simps [of F store policy row _ depth b] expression.case
  proof (rule benign_seq)
    show "benign (\<lambda>(v, _). num_kind v = k) (and_then (ok_or (MissingFormula (cr_table_id row) name)
        (bt_get (frm_definitions F) (cr_table_id row, name))) (\<lambda>e. evaluate_expression F store policy row e (depth + 1) b1))"
      for b1 using fk_named by simp
  qed (use fk_named.prems in simp)
qed

section \<open>What compilation guarantees\<close>

lemma check_formula_loop:
  assumes "fold_m (check_formula spec L D) kinds xs = Ok kinds'" and "distinct (map fst xs)"
  shows "(\<forall>(key, e)\<in>set xs. \<exists>k. bt_get kinds' key = Some k \<and> formula_kind D spec (max_depth L) (fst key) e k)
    \<and> (\<forall>key. key \<notin> fst ` set xs \<longrightarrow> bt_get kinds' key = bt_get kinds key)"
  using assms
proof (induction xs arbitrary: kinds)
  case (Cons x xs)
  obtain key e where x: "x = (key, e)" by (cases x)
  from Cons.prems(1) obtain kinds1 where "check_formula spec L D kinds x = Ok kinds1"
    and "fold_m (check_formula spec L D) kinds1 xs = Ok kinds'" by (auto simp: and_then_Ok_iff)
  then obtain k st where check: "check_expression L D spec (fst key) e 1 (budget_new, {key}) = Ok (k, st)"
    and rest: "fold_m (check_formula spec L D) (bt_insert key k kinds) xs = Ok kinds'"
    by (cases "check_expression L D spec (fst key) e 1 (budget_new, {key})")
      (auto simp: x check_formula_def)
  from check_expression_kind [OF check] have "formula_kind D spec (max_depth L) (fst key) e k" by simp
  with Cons.IH [OF rest] Cons.prems(2) x show ?case by auto
qed simp

lemma compile_formulas_Ok:
  assumes "compile_formulas spec definitions L = Ok F"
  shows "frm_limits F = L" and "frm_shape F = shape_of spec" and "validate_limits L = Ok ()"
    and "bt_get (frm_definitions F) key = Some e \<Longrightarrow>
      \<exists>k. bt_get (frm_kinds F) key = Some k \<and> formula_kind (frm_definitions F) spec (max_depth L) (fst key) e k"
proof -
  from assms obtain D kinds where loop: "fold_m (check_formula spec L D) bt_empty (entries D) = Ok kinds"
    and F: "F = \<lparr>frm_definitions = D, frm_kinds = kinds, frm_limits = L, frm_shape = shape_of spec\<rparr>"
    and limits: "validate_limits L = Ok ()"
    by (auto simp: compile_formulas_def and_then_Ok_iff split: if_splits)
  show "frm_limits F = L" "frm_shape F = shape_of spec" "validate_limits L = Ok ()" using F limits by simp_all
  assume "bt_get (frm_definitions F) key = Some e"
  with F have "(key, e) \<in> set (entries D)" by (simp add: bt_get_iff)
  with check_formula_loop [OF loop entries_distinct] F
  show "\<exists>k. bt_get (frm_kinds F) key = Some k \<and> formula_kind (frm_definitions F) spec (max_depth L) (fst key) e k"
    by fastforce
qed

subsection \<open>No formula refers to itself\<close>

fun mentions :: "table_id \<Rightarrow> expression \<Rightarrow> formula_key set" where
  "mentions t (EField _) = {}"
| "mentions t (ELookup _ _) = {}"
| "mentions t (ESum child _ v) = mentions child v"
| "mentions t (EProduct a b) = mentions t a \<union> mentions t b"
| "mentions t (ETotal vs) = (\<Union>v\<in>set vs. mentions t v)"
| "mentions t (ENamed name) = {(t, name)}"

definition depends :: "formula_map \<Rightarrow> (formula_key \<times> formula_key) set" where
  "depends D = {(key, key'). \<exists>e. bt_get D key = Some e \<and> key' \<in> mentions (fst key) e}"

lemma mentions_kind:
  "formula_kind D spec n t e k \<Longrightarrow> (u, x) \<in> mentions t e \<Longrightarrow> \<exists>k'. formula_kind D spec n u (ENamed x) k'"
proof (induction rule: formula_kind.induct)
  case (fk_named t name e n k)
  then have "formula_kind D spec (Suc n) u (ENamed x) k" by (auto intro: formula_kind.fk_named)
  then show ?case by blast
qed (auto intro: formula_kind_mono [OF _ le_SucI [OF order_refl]])

definition expansion_depth :: "formula_map \<Rightarrow> checked_app_spec \<Rightarrow> formula_key \<Rightarrow> nat" where
  "expansion_depth D spec key = (LEAST n. \<exists>k. formula_kind D spec n (fst key) (ENamed (snd key)) k)"

lemma depends_decreases:
  assumes "(key, key') \<in> depends D" and typed: "formula_kind D spec n (fst key) (ENamed (snd key)) k"
  shows "expansion_depth D spec key' < expansion_depth D spec key"
proof -
  from assms(1) obtain e where e: "bt_get D key = Some e" "key' \<in> mentions (fst key) e" by (auto simp: depends_def)
  from typed have "\<exists>n k. formula_kind D spec n (fst key) (ENamed (snd key)) k" by blast
  from LeastI_ex [OF this] obtain k1 where
    "formula_kind D spec (expansion_depth D spec key) (fst key) (ENamed (snd key)) k1"
    unfolding expansion_depth_def by blast
  then obtain m where m: "expansion_depth D spec key = Suc m" "formula_kind D spec m (fst key) e k1"
    by (rule fk_cases) (use e(1) in simp)
  from mentions_kind [OF m(2)] e(2) obtain k2 where "formula_kind D spec m (fst key') (ENamed (snd key')) k2"
    by (metis prod.collapse)
  then have "expansion_depth D spec key' \<le> m" unfolding expansion_depth_def by (intro Least_le) blast
  with m(1) show ?thesis by simp
qed

subsection \<open>The shape fixes the kinds\<close>

lemma map_of_fields:
  "distinct (map tbl_id ts) \<Longrightarrow>
     map_of (concat (map (\<lambda>t. map (\<lambda>f. ((tbl_id t, fld_id f), (fld_type f, fld_required f))) (tbl_fields t)) ts)) (i, f)
     = map_option (\<lambda>x. (fld_type x, fld_required x))
         (Option.bind (List.find (\<lambda>t. tbl_id t = i) ts) (\<lambda>t. List.find (\<lambda>x. fld_id x = f) (tbl_fields t)))"
proof (induction ts)
  case (Cons t ts)
  have row: "map_of (map (\<lambda>f. ((tbl_id t, fld_id f), (fld_type f, fld_required f))) xs) (i, f)
      = (if tbl_id t = i then map_option (\<lambda>x. (fld_type x, fld_required x)) (List.find (\<lambda>x. fld_id x = f) xs) else None)" for xs
    by (induction xs) auto
  have "List.find (\<lambda>u. tbl_id u = i) ts = None" if "tbl_id t = i"
    unfolding find_None_iff using Cons.prems that by (auto simp: image_iff)
  with Cons show ?case by (auto simp: map_add_def row split: option.splits)
qed simp

lemma distinct_mapD1: "distinct (map f xs) \<Longrightarrow> distinct xs"
  by (simp add: distinct_map)

lemma shape_field:
  assumes "wf_spec spec"
  shows "bt_get (shp_fields (shape_of spec)) (t, f)
    = map_option (\<lambda>x. (fld_type x, fld_required x)) (spec_field spec t f)"
proof -
  let ?xs = "concat (map (\<lambda>t. map (\<lambda>f. ((tbl_id t, fld_id f), (fld_type f, fld_required f))) (tbl_fields t))
      (app_tables (spec_def spec)))"
  from assms have dist: "distinct (map tbl_id (app_tables (spec_def spec)))"
    and "distinct (map fld_id (concat (map tbl_fields (app_tables (spec_def spec)))))"
    by (simp_all add: wf_spec_def)
  moreover have "map (snd \<circ> fst) ?xs = map fld_id (concat (map tbl_fields (app_tables (spec_def spec))))"
    by (simp add: map_concat comp_def)
  ultimately have "distinct (map snd (map fst ?xs))" by (simp only: map_map)
  then have "distinct (map fst ?xs)" by (rule distinct_mapD1)
  from bt_get_of_list_distinct [OF this, of "(t, f)"] show ?thesis
    unfolding map_of_fields [OF dist] by (simp add: shape_of_def spec_field_def spec_table_def)
qed

lemma same_shape_kind:
  assumes "wf_spec spec" "wf_spec spec'" "shape_of spec = shape_of spec'"
  shows "formula_kind D spec n t e k \<Longrightarrow> formula_kind D spec' n t e k"
proof -
  have same: "spec_field_type spec' t f = spec_field_type spec t f" for t f
    using shape_field [OF assms(1), of t f] shape_field [OF assms(2), of t f] assms(3)
    by (cases "spec_field spec t f"; cases "spec_field spec' t f") (simp_all add: spec_field_type_def)
  show "formula_kind D spec n t e k \<Longrightarrow> formula_kind D spec' n t e k"
    by (induction rule: formula_kind.induct)
      (auto intro: formula_kind.intros simp: numeric_kind_of_Ok reference_target_Ok same)
qed

section \<open>Properties\<close>

text \<open>
  C39. Compiled formulas are type-sound. Evaluated at an existing row of validated facts whose definition has
  the shape the formulas were compiled for, a formula returns a number of its declared kind, or one of
  four errors: the policy denies the output, a budget is spent, or the exact result does not fit 64
  bits. Neither a missing record or field, a type mismatch, an excess depth nor a panic can occur.
\<close>

theorem compiled_formula_type_sound:
  assumes compiled: "compile_formulas spec definitions L = Ok F"
    and wf: "wf_spec spec" "wf_spec (rst_spec store)" and facts: "facts_ok J (rst_spec store) (rst_records store)"
    and shape: "frm_shape F = shape_of (rst_spec store)"
    and e: "bt_get (frm_definitions F) (table, name) = Some e"
    and row: "find_record (rst_records store) table record = Some row"
  shows "\<exists>k. bt_get (frm_kinds F) (table, name) = Some k
    \<and> (case evaluate F store table record name policy of
         Ok n \<Rightarrow> num_kind n = k
       | Err err \<Rightarrow> err \<in> {OutputDenied, NodeBudgetExceeded, RecordBudgetExceeded, RelOverflow}
       | Panic \<Rightarrow> False)"
proof -
  note c = compile_formulas_Ok [OF compiled]
  from c(4) [OF e] obtain k where k: "bt_get (frm_kinds F) (table, name) = Some k"
    and "formula_kind (frm_definitions F) spec (max_depth (frm_limits F)) table e k" using c(1) by auto
  then have typed: "formula_kind (frm_definitions F) (rst_spec store) (max_depth (frm_limits F)) table e k"
    using same_shape_kind [OF wf] c(2) shape by metis
  from row have mem: "row \<in> set (crs_records (rst_records store))" "cr_table_id row = table"
    by (simp_all add: find_record_iff [OF facts])
  have eval: "benign (\<lambda>(v, _). num_kind v = k) (evaluate_expression F store policy row e 1 b)" for b
    by (rule evaluate_expression_benign [OF facts typed mem]) simp_all
  have rest: "benign (\<lambda>n. num_kind n = k) (and_then (evaluate_expression F store policy row e 1 b) (\<lambda>(n, _).
      if bt_get (frm_kinds F) (table, name) \<noteq> Some (num_kind n) then Err NumericTypeMismatch else Ok n))" for b
    by (rule benign_and_then [OF eval]) (auto simp: k)
  have root: "benign (\<lambda>r. r = row) (authorized_record store policy table record)"
    by (simp add: authorized_record_def row)
  have body: "benign (\<lambda>n. num_kind n = k) (and_then (authorize_expression (max_depth (frm_limits F))
      (frm_definitions F) store policy table e) (\<lambda>_. and_then (budget_record (frm_limits F) budget_new) (\<lambda>b.
      and_then (evaluate_expression F store policy row e 1 b) (\<lambda>(n, _).
      if bt_get (frm_kinds F) (table, name) \<noteq> Some (num_kind n) then Err NumericTypeMismatch else Ok n))))"
    by (rule benign_seq [OF authorize_expression_benign [OF typed]], rule benign_seq [OF _ rest]) simp
  have "benign (\<lambda>n. num_kind n = k) (evaluate F store table record name policy)"
    unfolding evaluate_def e ok_or_simps and_then.simps
    by (rule benign_seq, simp, rule benign_and_then [OF root]) (use shape body in simp)
  with k show ?thesis by (auto simp: benign_def split: outcome.splits)
qed

text \<open>
  C38. Evaluation is exact. Whatever the policy and the budget, a returned number is the formula's value over
  the unbounded integers: fields and looked-up fields as stored, sums over exactly the referring rows,
  products and totals without wrap-around, and absence where an operand is absent.
\<close>

theorem evaluation_is_exact:
  assumes "evaluate F store table record name policy = Ok n" and facts: "facts_ok J spec (rst_records store)"
  shows "\<exists>e row. bt_get (frm_definitions F) (table, name) = Some e
    \<and> find_record (rst_records store) table record = Some row
    \<and> formula_value (frm_definitions F) store row e (num_int n)
    \<and> (\<forall>x. formula_value (frm_definitions F) store row e x \<longrightarrow> x = num_int n)"
proof -
  from assms(1) obtain e row b b' where e: "bt_get (frm_definitions F) (table, name) = Some e"
    and row: "find_record (rst_records store) table record = Some row"
    and eval: "evaluate_expression F store policy row e 1 b = Ok (n, b')"
    by (auto simp: evaluate_def authorized_record_def and_then_Ok_iff ok_or_Ok_iff split: if_splits)
  have found: "find_record (rst_records store) (cr_table_id r) (cr_id r) = Some r"
    if "r \<in> set (crs_records (rst_records store))" for r
    using that by (simp add: find_record_iff [OF facts])
  from row have "row \<in> set (crs_records (rst_records store))" by (simp add: find_record_iff [OF facts])
  from evaluate_expression_value [OF eval found [OF this]] found
  have v: "formula_value (frm_definitions F) store row e (num_int n)" by blast
  with e row formula_value_unique [OF v] show ?thesis by metis
qed

text \<open>
  C40. Named formulas terminate. The formulas of a compiled set refer only to formulas of the set, and never,
  through however many others and through the tables they sum over, back to themselves.
\<close>

theorem compiled_formulas_acyclic:
  assumes "compile_formulas spec definitions L = Ok F"
  shows "acyclic (depends (frm_definitions F))
    \<and> (\<forall>(key, key')\<in>depends (frm_definitions F). bt_get (frm_definitions F) key' \<noteq> None)"
proof
  let ?D = "frm_definitions F"
  note c = compile_formulas_Ok(4) [OF assms]
  have typed: "\<exists>k. formula_kind ?D spec (Suc (max_depth L)) (fst key) (ENamed (snd key)) k"
    if "(key, key') \<in> depends ?D" for key key'
  proof -
    from that obtain e where e: "bt_get ?D (fst key, snd key) = Some e" by (auto simp: depends_def)
    from c [OF e] obtain k where "formula_kind ?D spec (max_depth L) (fst key) e k" by auto
    from fk_named [OF e this] show ?thesis by blast
  qed
  have "depends ?D \<subseteq> (measure (expansion_depth ?D spec))\<inverse>"
    using typed depends_decreases by fastforce
  then show "acyclic (depends ?D)"
    by (rule acyclic_subset [rotated]) (simp add: acyclic_converse wf_acyclic)
  show "\<forall>(key, key')\<in>depends ?D. bt_get ?D key' \<noteq> None"
  proof
    fix p assume p: "p \<in> depends ?D"
    obtain key u y where "p = (key, u, y)" by (cases p)
    with p obtain e where e: "bt_get ?D key = Some e" "(u, y) \<in> mentions (fst key) e" by (auto simp: depends_def)
    from c [OF e(1)] obtain k where "formula_kind ?D spec (max_depth L) (fst key) e k" by blast
    from mentions_kind [OF this e(2)] obtain k' where "formula_kind ?D spec (max_depth L) u (ENamed y) k'" by blast
    then have "bt_get ?D (u, y) \<noteq> None" by (rule fk_cases) simp
    with \<open>p = _\<close> show "case p of (key, key') \<Rightarrow> bt_get ?D key' \<noteq> None" by simp
  qed
qed

section \<open>Witnesses\<close>

text \<open>The total of a line and of an order, in the example application.\<close>

definition example_formulas :: "formula_definition list" where
  "example_formulas = [
     \<lparr>fdf_table = Ident ''tbl_order_lines'', fdf_name = ''line_total'',
      fdf_expression = EProduct (EField (Ident ''fld_line_quantity'')) (EField (Ident ''fld_line_price''))\<rparr>,
     \<lparr>fdf_table = Ident ''tbl_orders'', fdf_name = ''order_total'',
      fdf_expression = ESum (Ident ''tbl_order_lines'') (Ident ''fld_line_order'') (ENamed ''line_total'')\<rparr>]"

definition example_checked :: checked_formulas where
  "example_checked = \<lparr>
     frm_definitions = bt_of_list (map (\<lambda>d. ((fdf_table d, fdf_name d), fdf_expression d)) example_formulas),
     frm_kinds = bt_of_list (map (\<lambda>d. ((fdf_table d, fdf_name d), KMoney)) example_formulas),
     frm_limits = default_limits, frm_shape = shape_of relation_spec\<rparr>"

lemma example_formulas_compile: "compile_formulas relation_spec example_formulas default_limits = Ok example_checked"
  by code_simp

lemma example_order_total:
  "evaluate example_checked example_store (Ident ''tbl_orders'') (Ident ''rec_order_1'') ''order_total''
     local_preview_policy = Ok (NMoney 2500)"
  by code_simp

theorem compiled_formula_type_sound_witness:
  "\<exists>k. bt_get (frm_kinds example_checked) (Ident ''tbl_orders'', ''order_total'') = Some k
     \<and> k = num_kind (NMoney 2500)"
proof -
  have wf: "wf_spec relation_spec" using example_store_wf by (simp add: example_store_def spec_store_def)
  have shape: "frm_shape example_checked = shape_of (rst_spec example_store)"
    by (simp add: example_checked_def example_store_def spec_store_def)
  have "bt_get (frm_definitions example_checked) (Ident ''tbl_orders'', ''order_total'') \<noteq> None" by code_simp
  then obtain e where e: "bt_get (frm_definitions example_checked) (Ident ''tbl_orders'', ''order_total'') = Some e" by blast
  have "find_record (rst_records example_store) (Ident ''tbl_orders'') (Ident ''rec_order_1'') \<noteq> None" by code_simp
  then obtain row where row: "find_record (rst_records example_store) (Ident ''tbl_orders'') (Ident ''rec_order_1'') = Some row"
    by blast
  from compiled_formula_type_sound [OF example_formulas_compile wf example_store_wf example_store_facts shape e row,
      of local_preview_policy]
  show ?thesis by (auto simp: example_order_total)
qed

theorem evaluation_is_exact_witness:
  "\<exists>e row. bt_get (frm_definitions example_checked) (Ident ''tbl_orders'', ''order_total'') = Some e
     \<and> formula_value (frm_definitions example_checked) example_store row e (Some 2500)"
  using evaluation_is_exact [OF example_order_total example_store_facts] by (auto simp: num_int_def)

theorem compiled_formulas_acyclic_witness: "acyclic (depends (frm_definitions example_checked))"
  using compiled_formulas_acyclic [OF example_formulas_compile] by simp

end
