(* ===== verification/Store.thy ===== *)
theory Store
  imports Lifecycle
begin

text \<open>
  The embedded store (\<open>crates/evobase-store\<close>): one tenant's applications as immutable releases and current
  facts, and the transaction that executes a command: authority, replay, revision check, facts, audit,
  events and receipt. A table of the fixed SQL layout is a map from its primary key; a transaction works
  on a copy that replaces the database when it commits. Which calls of the database fail is a parameter,
  so is everything \<open>serde_json\<close> and \<open>sha2\<close> do.
\<close>

datatype store_error =
    Database
  | StoreAppSpec error
  | StoreScopeMismatch
  | AppNotFound
  | AppAlreadyExists
  | CorruptSnapshot
  | UnsupportedSchema
  | StoreAuthority authority_error
  | StoreCommand command_error
  | Conflict u64 u64
  | StoreIntentConflict
  | BindingMismatch
  | AuthorityChanged
  | RevisionOverflow
  | PayloadLimit
  | InvalidReceiptKey
  | InvalidRemoteConfiguration
  | InjectedFailure

record snapshot =
  snp_spec :: checked_app_spec
  snp_facts :: checked_records
  snp_revision :: u64
  snp_spec_identity :: string

record commit_receipt =
  crc_transition :: transition_receipt
  crc_request_key :: string
  crc_replayed :: bool
  crc_revision :: u64
  crc_expected_revision :: u64
  crc_spec_identity :: string

record request_envelope =
  env_expected_revision :: u64
  env_request :: raw_command_request

datatype commit_stage = StageFacts | StageAudit | StageEvents | StageReceipt

text \<open>What the audit and the event documents are built from.\<close>

record audit_entry =
  aud_actor_id :: actor_id
  aud_scope :: scope
  aud_binding_id :: string
  aud_membership_revision :: u64
  aud_policy_revision :: u64
  aud_command_id :: command_id
  aud_record_id :: record_id
  aud_expected_revision :: u64
  aud_revision :: u64
  aud_spec_identity :: string
  aud_host_time :: u64

record event_entry =
  eve_event :: checked_event_intent
  eve_revision :: u64
  eve_spec_identity :: string

text \<open>
  The JSON documents only the store writes, and the digest. \<open>to_identity\<close> writes the document of a release, a
  revision and a parsed intent; a reader answers \<open>None\<close> where \<open>serde_json\<close> fails.
\<close>

record store_json =
  sha256_hex :: "string \<Rightarrow> string"
  to_receipt :: "commit_receipt \<Rightarrow> string option"
  of_receipt :: "string \<Rightarrow> commit_receipt option"
  to_envelope :: "request_envelope \<Rightarrow> string option"
  of_envelope :: "string \<Rightarrow> request_envelope option"
  to_audit :: "audit_entry \<Rightarrow> string option"
  to_event :: "event_entry \<Rightarrow> string option"
  parse_intent :: "string \<Rightarrow> string option"
  to_identity :: "string \<Rightarrow> u64 \<Rightarrow> string \<Rightarrow> string option"

section \<open>The database\<close>

record application_row =
  apr_spec_identity :: string
  apr_revision :: i64
  apr_facts_json :: string

record receipt_row =
  rcr_intent_json :: string
  rcr_request_json :: string
  rcr_receipt_json :: string

record store_db =
  db_schema :: bool
  db_metadata :: "(i64 \<times> string) option"
  db_releases :: "(string \<times> string, string) btree_map"
  db_applications :: "(string, application_row) btree_map"
  db_receipts :: "(string \<times> string \<times> string, receipt_row) btree_map"
  db_events :: "(string \<times> i64 \<times> i64, string) btree_map"
  db_audit :: "(string \<times> i64, string) btree_map"

definition empty_db :: store_db where
  "empty_db = \<lparr>db_schema = False, db_metadata = None, db_releases = bt_empty, db_applications = bt_empty,
     db_receipts = bt_empty, db_events = bt_empty, db_audit = bt_empty\<rparr>"

text \<open>The calls of the database, each of which may fail.\<close>

datatype statement =
    SelectMetadata | CreateSchema | InsertMetadata | SelectApplication | InsertRelease | InsertApplication
  | LoadSnapshot | SelectReceipt | UpdateApplication | InsertAudit | InsertEvent nat | InsertReceipt

datatype db_call = Connect | Begin | Commit | Rollback | Stmt statement

type_synonym db_faults = "db_call \<Rightarrow> bool"

definition db_run :: "db_faults \<Rightarrow> db_call \<Rightarrow> (store_error, 'a) outcome \<Rightarrow> (store_error, 'a) outcome" where
  "db_run F call r = (if F call then Err Database else r)"

text \<open>An insertion violates the table's checks or its primary key, or adds the row.\<close>

definition sql_insert ::
  "bool \<Rightarrow> 'k::linorder \<Rightarrow> 'r \<Rightarrow> ('k, 'r) btree_map \<Rightarrow> (store_error, ('k, 'r) btree_map) outcome" where
  "sql_insert check key row table =
     (if \<not> check \<or> bt_contains_key table key then Err Database else Ok (bt_insert key row table))"

definition blob_ok :: "string \<Rightarrow> bool" where
  "blob_ok b \<longleftrightarrow> length b \<le> 1048576"

text \<open>
  A transaction: the work happens on a copy of the tables. It takes effect when the commit succeeds, and
  not at all otherwise.
\<close>

definition transaction ::
  "db_faults \<Rightarrow> (store_db \<Rightarrow> (store_error, 'a \<times> store_db) outcome) \<Rightarrow> store_db \<Rightarrow>
     (store_error, 'a) outcome \<times> store_db" where
  "transaction F work db =
     (if F Begin then (Err Database, db)
      else case work db of
        Ok (x, db') \<Rightarrow> if F Commit then (Err Database, db) else (Ok x, db')
      | Err e \<Rightarrow> (if F Rollback then Err Database else Err e, db)
      | Panic \<Rightarrow> (Panic, db))"

section \<open>Opening\<close>

record evo_store =
  str_tenant_id :: string
  str_binding_id :: string

definition check_tenant :: "string \<Rightarrow> (store_error, unit) outcome" where
  "check_tenant tenant =
     map_err StoreAppSpec (and_then (app_id_new ''app_store'') (\<lambda>app. and_then (scope_new tenant app) (\<lambda>_. Ok ())))"

definition check_metadata :: "string \<Rightarrow> i64 \<times> string \<Rightarrow> (store_error, unit) outcome" where
  "check_metadata tenant row =
     (if fst row \<noteq> 1 then Err UnsupportedSchema
      else if snd row \<noteq> tenant then Err StoreScopeMismatch else Ok ())"

definition initialize_metadata ::
  "db_faults \<Rightarrow> string \<Rightarrow> store_db \<Rightarrow> (store_error, unit \<times> store_db) outcome" where
  "initialize_metadata F tenant db =
     db_run F (Stmt InsertMetadata)
       (let db = (if db_metadata db = None then db\<lparr>db_metadata := Some (1, tenant)\<rparr> else db) in
        db_run F (Stmt SelectMetadata)
          (and_then (ok_or CorruptSnapshot (db_metadata db)) (\<lambda>row.
           and_then (check_metadata tenant row) (\<lambda>_. Ok ((), db)))))"

definition store_open :: "db_faults \<Rightarrow> string \<Rightarrow> store_db \<Rightarrow> (store_error, evo_store) outcome \<times> store_db" where
  "store_open F tenant db =
     (if F Connect then (Err Database, db)
      else case db_run F (Stmt SelectMetadata)
          (if db_schema db then (case db_metadata db of Some row \<Rightarrow> check_metadata tenant row | None \<Rightarrow> Ok ())
           else Ok ()) of
        Err e \<Rightarrow> (Err e, db)
      | Panic \<Rightarrow> (Panic, db)
      | Ok _ \<Rightarrow>
          if F (Stmt CreateSchema) then (Err Database, db)
          else (case transaction F (initialize_metadata F tenant) (db\<lparr>db_schema := True\<rparr>) of
            (Ok _, db) \<Rightarrow> (Ok \<lparr>str_tenant_id = tenant, str_binding_id = ''store:'' @ tenant\<rparr>, db)
          | (Err e, db) \<Rightarrow> (Err e, db)
          | (Panic, db) \<Rightarrow> (Panic, db)))"

definition open_local :: "db_faults \<Rightarrow> string \<Rightarrow> store_db \<Rightarrow> (store_error, evo_store) outcome \<times> store_db" where
  "open_local F tenant db =
     (case check_tenant tenant of
        Ok _ \<Rightarrow> store_open F tenant db | Err e \<Rightarrow> (Err e, db) | Panic \<Rightarrow> (Panic, db))"

text \<open>The parts of a URL as the \<open>url\<close> crate reports them.\<close>

record url_parts =
  url_scheme :: string
  url_host :: "string option"
  url_username :: string
  url_password :: "string option"
  url_query :: "string option"
  url_fragment :: "string option"

definition open_remote ::
  "db_faults \<Rightarrow> (string \<Rightarrow> url_parts option) \<Rightarrow> string \<Rightarrow> string \<Rightarrow> string \<Rightarrow> store_db \<Rightarrow>
     (store_error, evo_store) outcome \<times> store_db" where
  "open_remote F parse_url url token tenant db =
     (case check_tenant tenant of
        Err e \<Rightarrow> (Err e, db) | Panic \<Rightarrow> (Panic, db)
      | Ok _ \<Rightarrow>
          (case parse_url url of
             None \<Rightarrow> (Err InvalidRemoteConfiguration, db)
           | Some parsed \<Rightarrow>
               if url_scheme parsed \<notin> {''https'', ''libsql''} \<or> url_host parsed = None \<or> url_username parsed \<noteq> []
                  \<or> url_password parsed \<noteq> None \<or> url_query parsed \<noteq> None \<or> url_fragment parsed \<noteq> None \<or> token = []
               then (Err InvalidRemoteConfiguration, db)
               else store_open F tenant db))"

definition store_check_scope :: "evo_store \<Rightarrow> scope \<Rightarrow> (store_error, unit) outcome" where
  "store_check_scope S scope = (if tenant_id scope \<noteq> str_tenant_id S then Err StoreScopeMismatch else Ok ())"

section \<open>Loading and bootstrapping\<close>

definition spec_identity :: "store_json \<Rightarrow> string \<Rightarrow> string" where
  "spec_identity Q bytes = ''sha256:'' @ sha256_hex Q bytes"

definition store_load ::
  "serde \<Rightarrow> store_json \<Rightarrow> db_faults \<Rightarrow> store_db \<Rightarrow> scope \<Rightarrow> (store_error, snapshot) outcome" where
  "store_load J Q F db scope =
     db_run F (Stmt LoadSnapshot)
       (and_then (ok_or AppNotFound (bt_get (db_applications db) (as_str (app_id scope)))) (\<lambda>row.
        and_then (ok_or AppNotFound (bt_get (db_releases db) (as_str (app_id scope), apr_spec_identity row))) (\<lambda>spec_json.
        and_then (ok_or CorruptSnapshot (u64_of_i64 (apr_revision row))) (\<lambda>revision.
        if revision = 0 then Err CorruptSnapshot
        else and_then (map_err StoreAppSpec (spec_decode J spec_json)) (\<lambda>spec.
          if spec_identity Q spec_json \<noteq> apr_spec_identity row then Err CorruptSnapshot
          else and_then (map_err StoreAppSpec (spec_encode J spec)) (\<lambda>encoded.
            if encoded \<noteq> spec_json then Err CorruptSnapshot
            else and_then (map_err StoreAppSpec (decode_records J spec scope (apr_facts_json row))) (\<lambda>facts.
              and_then (map_err StoreAppSpec (checked_records_encode J facts)) (\<lambda>encoded.
              if encoded \<noteq> apr_facts_json row then Err CorruptSnapshot
              else Ok \<lparr>snp_spec = spec, snp_facts = facts, snp_revision = revision,
                       snp_spec_identity = apr_spec_identity row\<rparr>))))))))"

definition store_snapshot ::
  "serde \<Rightarrow> store_json \<Rightarrow> db_faults \<Rightarrow> evo_store \<Rightarrow> store_db \<Rightarrow> scope \<Rightarrow> (store_error, snapshot) outcome" where
  "store_snapshot J Q F S db scope =
     and_then (store_check_scope S scope) (\<lambda>_. db_run F Connect (store_load J Q F db scope))"

definition insert_application ::
  "db_faults \<Rightarrow> string \<Rightarrow> string \<Rightarrow> string \<Rightarrow> string \<Rightarrow> store_db \<Rightarrow> (store_error, store_db) outcome" where
  "insert_application F app identity spec_json facts_json db =
     and_then (db_run F (Stmt InsertRelease)
         (sql_insert (blob_ok spec_json) (app, identity) spec_json (db_releases db))) (\<lambda>releases.
     and_then (db_run F (Stmt InsertApplication)
         (sql_insert (blob_ok facts_json) app
            \<lparr>apr_spec_identity = identity, apr_revision = 1, apr_facts_json = facts_json\<rparr> (db_applications db)))
       (\<lambda>applications.
     Ok (db\<lparr>db_releases := releases, db_applications := applications\<rparr>)))"

definition bootstrap_in ::
  "serde \<Rightarrow> store_json \<Rightarrow> db_faults \<Rightarrow> checked_app_spec \<Rightarrow> scope \<Rightarrow> string \<Rightarrow> string \<Rightarrow> store_db \<Rightarrow>
     (store_error, snapshot \<times> store_db) outcome" where
  "bootstrap_in J Q F spec scope spec_json facts_json db =
     (let app = as_str (spec_app_id spec); identity = spec_identity Q spec_json in
      db_run F (Stmt SelectApplication)
        (and_then (case bt_get (db_applications db) app of
             Some row \<Rightarrow> if apr_spec_identity row \<noteq> identity \<or> apr_facts_json row \<noteq> facts_json
                          then Err AppAlreadyExists else Ok db
           | None \<Rightarrow> insert_application F app identity spec_json facts_json db) (\<lambda>db.
         and_then (store_load J Q F db scope) (\<lambda>snapshot. Ok (snapshot, db)))))"

definition bootstrap ::
  "serde \<Rightarrow> store_json \<Rightarrow> db_faults \<Rightarrow> evo_store \<Rightarrow> store_db \<Rightarrow> checked_app_spec \<Rightarrow> checked_records \<Rightarrow>
     (store_error, snapshot) outcome \<times> store_db" where
  "bootstrap J Q F S db spec facts =
     (case and_then (store_check_scope S (crs_scope facts)) (\<lambda>_.
           and_then (map_err StoreAppSpec (validate_records J spec (crs_scope facts) (to_raw facts))) (\<lambda>checked.
           and_then (map_err StoreAppSpec (spec_encode J spec)) (\<lambda>spec_json.
           and_then (map_err StoreAppSpec (checked_records_encode J checked)) (\<lambda>facts_json.
           db_run F Connect (Ok (spec_json, facts_json)))))) of
        Ok (spec_json, facts_json) \<Rightarrow>
          transaction F (bootstrap_in J Q F spec (crs_scope facts) spec_json facts_json) db
      | Err e \<Rightarrow> (Err e, db)
      | Panic \<Rightarrow> (Panic, db))"

section \<open>Executing a command\<close>

definition store_encode :: "string option \<Rightarrow> (store_error, string) outcome" where
  "store_encode written =
     and_then (ok_or CorruptSnapshot written) (\<lambda>bytes. if length bytes > MAX_BYTES then Err PayloadLimit else Ok bytes)"

definition normalized_identity :: "store_json \<Rightarrow> snapshot \<Rightarrow> u64 \<Rightarrow> string \<Rightarrow> (store_error, string) outcome" where
  "normalized_identity Q snap expected semantic =
     and_then (ok_or CorruptSnapshot (parse_intent Q semantic)) (\<lambda>parsed.
     store_encode (to_identity Q (snp_spec_identity snap) expected parsed))"

definition check_binding :: "evo_store \<Rightarrow> trusted_context \<Rightarrow> (store_error, unit) outcome" where
  "check_binding S ctx = (if ctx_binding_id ctx \<noteq> str_binding_id S then Err BindingMismatch else Ok ())"

definition fail_at :: "commit_stage option \<Rightarrow> commit_stage \<Rightarrow> (store_error, unit) outcome" where
  "fail_at selected stage = (if selected = Some stage then Err InjectedFailure else Ok ())"

definition load_receipt ::
  "store_json \<Rightarrow> db_faults \<Rightarrow> store_db \<Rightarrow> scope \<Rightarrow> string \<Rightarrow> string \<Rightarrow>
     (store_error, (string \<times> commit_receipt \<times> request_envelope) option) outcome" where
  "load_receipt Q F db scope actor key =
     db_run F (Stmt SelectReceipt)
       (case bt_get (db_receipts db) (as_str (app_id scope), actor, key) of
          None \<Rightarrow> Ok None
        | Some row \<Rightarrow>
            if length (rcr_intent_json row) > MAX_BYTES \<or> length (rcr_receipt_json row) > MAX_BYTES
               \<or> length (rcr_request_json row) > MAX_BYTES
            then Err PayloadLimit
            else and_then (ok_or CorruptSnapshot (of_receipt Q (rcr_receipt_json row))) (\<lambda>receipt.
              and_then (ok_or CorruptSnapshot (of_envelope Q (rcr_request_json row))) (\<lambda>envelope.
              if req_idempotency_key (env_request envelope) \<noteq> key then Err CorruptSnapshot
              else Ok (Some (rcr_intent_json row, receipt, envelope)))))"

definition validate_receipt ::
  "snapshot \<Rightarrow> raw_command_request \<Rightarrow> u64 \<Rightarrow> commit_receipt \<Rightarrow> (store_error, unit) outcome" where
  "validate_receipt snap request expected receipt =
     (if crc_expected_revision receipt \<noteq> expected \<or> crc_request_key receipt \<noteq> req_idempotency_key request
         \<or> crc_replayed receipt
      then Err CorruptSnapshot
      else and_then (ok_or CorruptSnapshot (checked_add_u64 expected 1)) (\<lambda>succ.
        if crc_revision receipt \<noteq> succ \<or> crc_revision receipt > snp_revision snap
           \<or> crc_spec_identity receipt \<noteq> snp_spec_identity snap
           \<or> trc_command_id (crc_transition receipt) \<noteq> req_command_id request
           \<or> trc_record_id (crc_transition receipt) \<noteq> req_record_id request
           \<or> \<not> list_ex (\<lambda>command. cmd_command_id command = req_command_id request
                \<and> cmd_to_state command = trc_state (crc_transition receipt)) (app_commands (spec_def (snp_spec snap)))
        then Err CorruptSnapshot else Ok ()))"

text \<open>
  One call of the store: who asks, for what, and when. The host may change between the moments it is
  asked, so it is given at each of the three.
\<close>

record store_caller =
  scl_credential :: string
  scl_scope :: scope
  scl_channel :: request_channel
  scl_now :: u64

datatype moment = AtStart | AtPrepare | AtEnd

definition store_resolve ::
  "(moment \<Rightarrow> session_verifier) \<Rightarrow> moment \<Rightarrow> store_caller \<Rightarrow> (store_error, trusted_context) outcome" where
  "store_resolve V m c =
     map_err StoreAuthority (resolve (V m) (scl_credential c) (scl_scope c) (scl_channel c) (scl_now c) Write)"

definition revalidate ::
  "evo_store \<Rightarrow> (moment \<Rightarrow> session_verifier) \<Rightarrow> store_caller \<Rightarrow> trusted_context \<Rightarrow> (store_error, unit) outcome" where
  "revalidate S V c previous =
     and_then (store_resolve V AtEnd c) (\<lambda>current.
     and_then (check_binding S current) (\<lambda>_.
     if current \<noteq> previous then Err AuthorityChanged else Ok ()))"

definition store_prepare ::
  "serde \<Rightarrow> (moment \<Rightarrow> session_verifier) \<Rightarrow> store_caller \<Rightarrow> trusted_context \<Rightarrow> snapshot \<Rightarrow> raw_command_request \<Rightarrow>
     (store_error, prepared_command) outcome" where
  "store_prepare J V c ctx snap request =
     and_then (map_err StoreCommand (prepare_command J (V AtPrepare) (scl_credential c) (scl_scope c) (scl_channel c)
         (scl_now c) (snp_spec snap) (snp_facts snap) request)) (\<lambda>prepared.
     if pre_context prepared \<noteq> ctx then Err AuthorityChanged else Ok prepared)"

definition update_application ::
  "scope \<Rightarrow> string \<Rightarrow> i64 \<Rightarrow> i64 \<Rightarrow> string \<Rightarrow> store_db \<Rightarrow> store_db option" where
  "update_application scope facts_json revision expected identity db =
     (case bt_get (db_applications db) (as_str (app_id scope)) of
        Some row \<Rightarrow>
          if apr_revision row = expected \<and> apr_spec_identity row = identity
          then Some (db\<lparr>db_applications := bt_insert (as_str (app_id scope))
                 (row\<lparr>apr_facts_json := facts_json, apr_revision := revision\<rparr>) (db_applications db)\<rparr>)
          else None
      | None \<Rightarrow> None)"

definition audit_of ::
  "checked_transition_batch \<Rightarrow> store_caller \<Rightarrow> raw_command_request \<Rightarrow> u64 \<Rightarrow> u64 \<Rightarrow> string \<Rightarrow> audit_entry" where
  "audit_of batch c request expected revision identity =
     (let p = ctb_prepared batch in
      \<lparr>aud_actor_id = ctx_actor (pre_context p), aud_scope = scl_scope c, aud_binding_id = ctx_binding_id (pre_context p),
       aud_membership_revision = ctx_membership_revision (pre_context p),
       aud_policy_revision = pol_revision (orp_rule (pre_policy p)),
       aud_command_id = req_command_id request, aud_record_id = req_record_id request,
       aud_expected_revision = expected, aud_revision = revision, aud_spec_identity = identity,
       aud_host_time = scl_now c\<rparr>)"

definition insert_event ::
  "store_json \<Rightarrow> db_faults \<Rightarrow> string \<Rightarrow> u64 \<Rightarrow> i64 \<Rightarrow> string \<Rightarrow> (string \<times> i64 \<times> i64, string) btree_map \<Rightarrow>
     nat \<times> checked_event_intent \<Rightarrow> (store_error, (string \<times> i64 \<times> i64, string) btree_map) outcome" where
  "insert_event Q F app revision sql_revision identity table = (\<lambda>(index, event).
     and_then (store_encode (to_event Q \<lparr>eve_event = event, eve_revision = revision, eve_spec_identity = identity\<rparr>))
       (\<lambda>event_json.
     and_then (ok_or CorruptSnapshot (if index < 2 ^ 63 then Some (of_nat index) else None)) (\<lambda>index'.
     db_run F (Stmt (InsertEvent index))
       (sql_insert (0 < sint sql_revision \<and> 0 \<le> sint index' \<and> blob_ok event_json) (app, sql_revision, index') event_json
          table))))"

text \<open>The writes of a decided batch, in the order of the code.\<close>

definition write_facts ::
  "serde \<Rightarrow> db_faults \<Rightarrow> scope \<Rightarrow> snapshot \<Rightarrow> u64 \<Rightarrow> commit_stage option \<Rightarrow> checked_records \<Rightarrow> store_db \<Rightarrow>
     (store_error, u64 \<times> i64 \<times> store_db) outcome" where
  "write_facts J F scope snap expected fault new_facts db =
     and_then (ok_or RevisionOverflow (checked_add_u64 (snp_revision snap) 1)) (\<lambda>revision.
     and_then (ok_or RevisionOverflow (i64_of_u64 revision)) (\<lambda>sql_revision.
     and_then (map_err StoreAppSpec (checked_records_encode J new_facts)) (\<lambda>facts_json.
     and_then (ok_or RevisionOverflow (i64_of_u64 expected)) (\<lambda>sql_expected.
     and_then (db_run F (Stmt UpdateApplication)
         (and_then (ok_or (Conflict expected (snp_revision snap))
            (update_application scope facts_json sql_revision sql_expected (snp_spec_identity snap) db)) (\<lambda>db.
          if 0 < sint sql_revision \<and> blob_ok facts_json then Ok db else Err Database))) (\<lambda>db.
     and_then (fail_at fault StageFacts) (\<lambda>_. Ok (revision, sql_revision, db)))))))"

definition write_audit ::
  "store_json \<Rightarrow> db_faults \<Rightarrow> store_caller \<Rightarrow> snapshot \<Rightarrow> u64 \<Rightarrow> raw_command_request \<Rightarrow> commit_stage option \<Rightarrow>
     checked_transition_batch \<Rightarrow> u64 \<Rightarrow> i64 \<Rightarrow> store_db \<Rightarrow> (store_error, store_db) outcome" where
  "write_audit Q F c snap expected request fault batch revision sql_revision db =
     and_then (store_encode (to_audit Q (audit_of batch c request expected revision (snp_spec_identity snap)))) (\<lambda>audit.
     and_then (db_run F (Stmt InsertAudit)
         (sql_insert (0 < sint sql_revision \<and> blob_ok audit) (as_str (app_id (scl_scope c)), sql_revision) audit
            (db_audit db))) (\<lambda>audits.
     and_then (fail_at fault StageAudit) (\<lambda>_. Ok (db\<lparr>db_audit := audits\<rparr>))))"

definition write_events ::
  "store_json \<Rightarrow> db_faults \<Rightarrow> scope \<Rightarrow> snapshot \<Rightarrow> commit_stage option \<Rightarrow> checked_transition_batch \<Rightarrow> u64 \<Rightarrow> i64 \<Rightarrow>
     store_db \<Rightarrow> (store_error, store_db) outcome" where
  "write_events Q F scope snap fault batch revision sql_revision db =
     and_then (fold_m (insert_event Q F (as_str (app_id scope)) revision sql_revision (snp_spec_identity snap))
         (db_events db) (enumerate 0 (ctb_events batch))) (\<lambda>events.
     and_then (fail_at fault StageEvents) (\<lambda>_. Ok (db\<lparr>db_events := events\<rparr>)))"

definition write_receipt ::
  "store_json \<Rightarrow> db_faults \<Rightarrow> scope \<Rightarrow> snapshot \<Rightarrow> u64 \<Rightarrow> raw_command_request \<Rightarrow> commit_stage option \<Rightarrow> string \<Rightarrow>
     checked_transition_batch \<Rightarrow> u64 \<Rightarrow> store_db \<Rightarrow> (store_error, commit_receipt \<times> store_db) outcome" where
  "write_receipt Q F scope snap expected request fault intent batch revision db =
     (let receipt = \<lparr>crc_transition = ctb_receipt batch, crc_request_key = req_idempotency_key request,
            crc_replayed = False, crc_revision = revision, crc_expected_revision = expected,
            crc_spec_identity = snp_spec_identity snap\<rparr> in
      and_then (store_encode (to_envelope Q \<lparr>env_expected_revision = expected, env_request = request\<rparr>)) (\<lambda>request_json.
      and_then (store_encode (to_receipt Q receipt)) (\<lambda>receipt_json.
      and_then (db_run F (Stmt InsertReceipt)
          (sql_insert (blob_ok intent \<and> blob_ok request_json \<and> blob_ok receipt_json)
             (as_str (app_id scope), as_str (ctx_actor (pre_context (ctb_prepared batch))), req_idempotency_key request)
             \<lparr>rcr_intent_json = intent, rcr_request_json = request_json, rcr_receipt_json = receipt_json\<rparr>
             (db_receipts db))) (\<lambda>receipts.
      and_then (fail_at fault StageReceipt) (\<lambda>_. Ok (receipt, db\<lparr>db_receipts := receipts\<rparr>))))))"

definition commit_batch ::
  "serde \<Rightarrow> store_json \<Rightarrow> db_faults \<Rightarrow> store_caller \<Rightarrow> snapshot \<Rightarrow> u64 \<Rightarrow> raw_command_request \<Rightarrow> commit_stage option \<Rightarrow>
     string \<Rightarrow> checked_transition_batch \<Rightarrow> checked_records \<Rightarrow> store_db \<Rightarrow>
     (store_error, commit_receipt \<times> store_db) outcome" where
  "commit_batch J Q F c snap expected request fault intent batch new_facts db =
     and_then (write_facts J F (scl_scope c) snap expected fault new_facts db) (\<lambda>(revision, sql_revision, db).
     and_then (write_audit Q F c snap expected request fault batch revision sql_revision db) (\<lambda>db.
     and_then (write_events Q F (scl_scope c) snap fault batch revision sql_revision db) (\<lambda>db.
     write_receipt Q F (scl_scope c) snap expected request fault intent batch revision db)))"

text \<open>The answer from a receipt, the commit of a fresh command, and the whole body of the transaction.\<close>

definition replay_receipt ::
  "evo_store \<Rightarrow> (moment \<Rightarrow> session_verifier) \<Rightarrow> store_caller \<Rightarrow> u64 \<Rightarrow> raw_command_request \<Rightarrow> trusted_context \<Rightarrow>
     snapshot \<Rightarrow> string \<Rightarrow> string \<Rightarrow> commit_receipt \<Rightarrow> (store_error, commit_receipt) outcome" where
  "replay_receipt S V c expected request ctx snap intent previous receipt =
     (if previous \<noteq> intent then Err StoreIntentConflict
      else and_then (validate_receipt snap request expected receipt) (\<lambda>_.
        and_then (revalidate S V c ctx) (\<lambda>_.
        Ok (receipt\<lparr>crc_replayed := True\<rparr>))))"

definition execute_fresh ::
  "serde \<Rightarrow> store_json \<Rightarrow> db_faults \<Rightarrow> evo_store \<Rightarrow> (moment \<Rightarrow> session_verifier) \<Rightarrow> store_caller \<Rightarrow> u64 \<Rightarrow>
     raw_command_request \<Rightarrow> commit_stage option \<Rightarrow> trusted_context \<Rightarrow> snapshot \<Rightarrow> prepared_command \<Rightarrow> string \<Rightarrow>
     store_db \<Rightarrow> (store_error, commit_receipt \<times> store_db) outcome" where
  "execute_fresh J Q F S V c expected request fault ctx snap prepared intent db =
     (if expected \<noteq> snp_revision snap then Err (Conflict expected (snp_revision snap))
      else and_then (map_err StoreCommand (decide_command J prepared (snp_revision snap))) (\<lambda>batch.
        and_then (fold_m (\<lambda>rows w. ok_or CorruptSnapshot (replace_row rows w)) (to_raw (snp_facts snap)) (ctb_writes batch))
          (\<lambda>final_rows.
        and_then (map_err StoreAppSpec (validate_records J (snp_spec snap) (scl_scope c) final_rows)) (\<lambda>new_facts.
        and_then (commit_batch J Q F c snap expected request fault intent batch new_facts db) (\<lambda>(receipt, db).
        and_then (revalidate S V c ctx) (\<lambda>_.
        Ok (receipt, db)))))))"

definition execute_in ::
  "serde \<Rightarrow> store_json \<Rightarrow> db_faults \<Rightarrow> evo_store \<Rightarrow> (moment \<Rightarrow> session_verifier) \<Rightarrow> store_caller \<Rightarrow> u64 \<Rightarrow>
     raw_command_request \<Rightarrow> commit_stage option \<Rightarrow> store_db \<Rightarrow> (store_error, commit_receipt \<times> store_db) outcome" where
  "execute_in J Q F S V c expected request fault db =
     and_then (store_resolve V AtStart c) (\<lambda>ctx.
     and_then (check_binding S ctx) (\<lambda>_.
     and_then (store_load J Q F db (scl_scope c)) (\<lambda>snap.
     and_then (store_prepare J V c ctx snap request) (\<lambda>prepared.
     and_then (normalized_identity Q snap expected (pre_intent_bytes prepared)) (\<lambda>intent.
     and_then (load_receipt Q F db (scl_scope c) (as_str (ctx_actor ctx)) (req_idempotency_key (pre_request prepared)))
       (\<lambda>found. case found of
          Some (previous, receipt, _) \<Rightarrow>
            and_then (replay_receipt S V c expected request ctx snap intent previous receipt) (\<lambda>receipt. Ok (receipt, db))
        | None \<Rightarrow> execute_fresh J Q F S V c expected request fault ctx snap prepared intent db))))))"

definition execute_at ::
  "serde \<Rightarrow> store_json \<Rightarrow> db_faults \<Rightarrow> evo_store \<Rightarrow> (moment \<Rightarrow> session_verifier) \<Rightarrow> store_caller \<Rightarrow> u64 \<Rightarrow>
     raw_command_request \<Rightarrow> commit_stage option \<Rightarrow> store_db \<Rightarrow> (store_error, commit_receipt) outcome \<times> store_db" where
  "execute_at J Q F S V c expected request fault db =
     (case and_then (store_check_scope S (scl_scope c)) (\<lambda>_. db_run F Connect (Ok ())) of
        Ok _ \<Rightarrow> transaction F (execute_in J Q F S V c expected request fault) db
      | Err e \<Rightarrow> (Err e, db)
      | Panic \<Rightarrow> (Panic, db))"

definition store_execute ::
  "serde \<Rightarrow> store_json \<Rightarrow> db_faults \<Rightarrow> evo_store \<Rightarrow> (moment \<Rightarrow> session_verifier) \<Rightarrow> store_caller \<Rightarrow> u64 \<Rightarrow>
     raw_command_request \<Rightarrow> store_db \<Rightarrow> (store_error, commit_receipt) outcome \<times> store_db" where
  "store_execute J Q F S V c expected request db = execute_at J Q F S V c expected request None db"

section \<open>Recovering a receipt\<close>

definition receipt_in ::
  "serde \<Rightarrow> store_json \<Rightarrow> db_faults \<Rightarrow> evo_store \<Rightarrow> (moment \<Rightarrow> session_verifier) \<Rightarrow> store_caller \<Rightarrow> trusted_context \<Rightarrow>
     string \<Rightarrow> store_db \<Rightarrow> (store_error, commit_receipt option) outcome" where
  "receipt_in J Q F S V c ctx key db =
     and_then (load_receipt Q F db (scl_scope c) (as_str (ctx_actor ctx)) key) (\<lambda>found. case found of
       None \<Rightarrow> Ok None
     | Some (intent, receipt, envelope) \<Rightarrow>
         and_then (store_load J Q F db (scl_scope c)) (\<lambda>snap.
         and_then (store_prepare J V c ctx snap (env_request envelope)) (\<lambda>prepared.
         and_then (normalized_identity Q snap (env_expected_revision envelope) (pre_intent_bytes prepared)) (\<lambda>current.
         if current \<noteq> intent then Err StoreIntentConflict
         else and_then (validate_receipt snap (env_request envelope) (env_expected_revision envelope) receipt) (\<lambda>_.
           and_then (revalidate S V c ctx) (\<lambda>_.
           Ok (Some (receipt\<lparr>crc_replayed := True\<rparr>))))))))"

definition store_receipt ::
  "serde \<Rightarrow> store_json \<Rightarrow> db_faults \<Rightarrow> evo_store \<Rightarrow> (moment \<Rightarrow> session_verifier) \<Rightarrow> store_caller \<Rightarrow> string \<Rightarrow> store_db \<Rightarrow>
     (store_error, commit_receipt option) outcome" where
  "store_receipt J Q F S V c key db =
     and_then (store_check_scope S (scl_scope c)) (\<lambda>_.
     and_then (store_resolve V AtStart c) (\<lambda>ctx.
     and_then (check_binding S ctx) (\<lambda>_.
     if \<not> request_key_valid key then Err InvalidReceiptKey
     else db_run F Connect (db_run F Begin
       (if F Rollback then Err Database else receipt_in J Q F S V c ctx key db)))))"

section \<open>What a commit writes\<close>

lemma db_run_Ok [outcome_simps]: "db_run F call r = Ok x \<longleftrightarrow> \<not> F call \<and> r = Ok x"
  by (simp add: db_run_def)

lemma sql_insert_Ok [outcome_simps]:
  "sql_insert check key row table = Ok table' \<longleftrightarrow> check \<and> bt_get table key = None \<and> table' = bt_insert key row table"
  by (auto simp: sql_insert_def bt_contains_key_def)

lemma store_encode_Ok [outcome_simps]:
  "store_encode w = Ok bytes \<longleftrightarrow> w = Some bytes \<and> length bytes \<le> MAX_BYTES"
  by (auto simp: store_encode_def and_then_Ok_iff ok_or_Ok_iff)

lemma fail_at_Ok [outcome_simps]: "fail_at fault stage = Ok u \<longleftrightarrow> fault \<noteq> Some stage"
  by (simp add: fail_at_def)

lemma update_application_Some:
  "update_application scope json revision expected identity db = Some db' \<longleftrightarrow>
     (\<exists>row. bt_get (db_applications db) (as_str (app_id scope)) = Some row
        \<and> apr_revision row = expected \<and> apr_spec_identity row = identity
        \<and> db' = db\<lparr>db_applications := bt_insert (as_str (app_id scope))
              (row\<lparr>apr_facts_json := json, apr_revision := revision\<rparr>) (db_applications db)\<rparr>)"
  by (auto simp: update_application_def split: option.splits if_splits)

text \<open>Events are inserted under the application and revision of the commit and nowhere else.\<close>

lemma insert_events_Ok:
  assumes "fold_m (insert_event Q F app revision sql_revision identity) table xs = Ok table'"
  shows "(\<forall>k v. bt_get table k = Some v \<longrightarrow> bt_get table' k = Some v)
    \<and> (\<forall>k v. bt_get table' k = Some v \<longrightarrow> bt_get table k = Some v
         \<or> (\<exists>i event. (i, event) \<in> set xs \<and> k = (app, sql_revision, of_nat i)
              \<and> to_event Q \<lparr>eve_event = event, eve_revision = revision, eve_spec_identity = identity\<rparr> = Some v))
    \<and> (\<forall>(i, event)\<in>set xs. i < 2 ^ 63 \<and> bt_get table (app, sql_revision, of_nat i) = None
         \<and> bt_get table' (app, sql_revision, of_nat i)
           = to_event Q \<lparr>eve_event = event, eve_revision = revision, eve_spec_identity = identity\<rparr>)"
  using assms
proof (induction xs arbitrary: table)
  case (Cons x xs)
  obtain i event where x: "x = (i, event)" by (cases x)
  from Cons.prems obtain t1 where one: "insert_event Q F app revision sql_revision identity table x = Ok t1"
    and rest0: "fold_m (insert_event Q F app revision sql_revision identity) t1 xs = Ok table'"
    by (auto simp: and_then_Ok_iff)
  from one obtain json where json: "to_event Q \<lparr>eve_event = event, eve_revision = revision, eve_spec_identity = identity\<rparr> = Some json"
    and new: "bt_get table (app, sql_revision, of_nat i) = None" and small: "i < 2 ^ 63"
    and t1: "t1 = bt_insert (app, sql_revision, of_nat i) json table"
    by (auto simp: x insert_event_def outcome_simps split: if_splits)
  note rest = rest0 [unfolded t1]
  note IH = Cons.IH [OF rest]
  have "bt_get table' (app, sql_revision, of_nat i) = Some json" using IH by auto
  moreover have "bt_get table' k = Some v" if "bt_get table k = Some v" for k v
  proof -
    from that new have "bt_get (bt_insert (app, sql_revision, of_nat i) json table) k = Some v"
      by (cases "k = (app, sql_revision, of_nat i)") simp_all
    with IH show ?thesis by blast
  qed
  moreover have "\<forall>(j, event')\<in>set xs. j < 2 ^ 63 \<and> bt_get table (app, sql_revision, of_nat j) = None
      \<and> bt_get table' (app, sql_revision, of_nat j)
        = to_event Q \<lparr>eve_event = event', eve_revision = revision, eve_spec_identity = identity\<rparr>"
    using IH by (auto split: if_splits)
  moreover have "\<forall>k v. bt_get table' k = Some v \<longrightarrow> bt_get table k = Some v
      \<or> (\<exists>i event. (i, event) \<in> set (x # xs) \<and> k = (app, sql_revision, of_nat i)
           \<and> to_event Q \<lparr>eve_event = event, eve_revision = revision, eve_spec_identity = identity\<rparr> = Some v)"
  proof (intro allI impI)
    fix k v assume "bt_get table' k = Some v"
    with IH have "bt_get (bt_insert (app, sql_revision, of_nat i) json table) k = Some v
      \<or> (\<exists>i event. (i, event) \<in> set xs \<and> k = (app, sql_revision, of_nat i)
           \<and> to_event Q \<lparr>eve_event = event, eve_revision = revision, eve_spec_identity = identity\<rparr> = Some v)" by blast
    with json x show "bt_get table k = Some v
      \<or> (\<exists>i event. (i, event) \<in> set (x # xs) \<and> k = (app, sql_revision, of_nat i)
           \<and> to_event Q \<lparr>eve_event = event, eve_revision = revision, eve_spec_identity = identity\<rparr> = Some v)"
      by (auto split: if_splits)
  qed
  ultimately show ?case using x json new small by simp
qed simp

lemma inserted_events:
  assumes "fold_m (insert_event Q F app revision sql_revision identity) table (enumerate 0 events) = Ok table'"
  shows "bt_get table' (a, r, i) =
    (if a = app \<and> r = sql_revision \<and> unat i < length events
     then to_event Q \<lparr>eve_event = events ! unat i, eve_revision = revision, eve_spec_identity = identity\<rparr>
     else bt_get table (a, r, i))"
proof -
  note eff = insert_events_Ok [OF assms]
  let ?doc = "\<lambda>e. to_event Q \<lparr>eve_event = e, eve_revision = revision, eve_spec_identity = identity\<rparr>"
  have mem: "(j, e) \<in> set (enumerate 0 events) \<longleftrightarrow> j < length events \<and> e = events ! j" for j e
    by (auto simp: in_set_enumerate_eq)
  have at: "bt_get table' (app, sql_revision, of_nat j) = ?doc (events ! j)" and small: "j < 2 ^ 63"
    if "j < length events" for j
    using eff that mem [of j "events ! j"] by auto
  show ?thesis
  proof (cases "a = app \<and> r = sql_revision \<and> unat i < length events")
    case True
    with at [of "unat i"] show ?thesis by simp
  next
    case False
    have "\<not> (\<exists>j e. (j, e) \<in> set (enumerate 0 events) \<and> (a, r, i) = (app, sql_revision, of_nat j) \<and> ?doc e = Some v)" for v
    proof
      assume "\<exists>j e. (j, e) \<in> set (enumerate 0 events) \<and> (a, r, i) = (app, sql_revision, of_nat j) \<and> ?doc e = Some v"
      then obtain j where j: "j < length events" "a = app" "r = sql_revision" "i = of_nat j" by (auto simp: mem)
      with small [of j] have "unat i = j" by (simp add: unsigned_of_nat take_bit_nat_eq_self)
      with False j show False by simp
    qed
    with eff have "bt_get table' (a, r, i) = Some v \<longleftrightarrow> bt_get table (a, r, i) = Some v" for v by blast
    then have "bt_get table' (a, r, i) = bt_get table (a, r, i)" by (metis not_None_eq)
    with False show ?thesis by auto
  qed
qed

text \<open>The effect of a committed batch on every table.\<close>

definition committed ::
  "serde \<Rightarrow> store_json \<Rightarrow> store_caller \<Rightarrow> snapshot \<Rightarrow> raw_command_request \<Rightarrow> string \<Rightarrow> checked_transition_batch \<Rightarrow>
     checked_records \<Rightarrow> commit_receipt \<Rightarrow> store_db \<Rightarrow> store_db \<Rightarrow> bool" where
  "committed J Q c snap request intent batch new_facts receipt db db' \<longleftrightarrow>
     (let app = as_str (app_id (scl_scope c)); actor = as_str (ctx_actor (pre_context (ctb_prepared batch)));
          revision = crc_revision receipt; identity = snp_spec_identity snap in
      unat revision = Suc (unat (snp_revision snap)) \<and> unat revision < 2 ^ 63
      \<and> receipt = \<lparr>crc_transition = ctb_receipt batch, crc_request_key = req_idempotency_key request,
            crc_replayed = False, crc_revision = revision, crc_expected_revision = snp_revision snap,
            crc_spec_identity = identity\<rparr>
      \<and> db_schema db' = db_schema db \<and> db_metadata db' = db_metadata db \<and> db_releases db' = db_releases db
      \<and> (\<exists>row facts_json. checked_records_encode J new_facts = Ok facts_json
           \<and> bt_get (db_applications db) app = Some row \<and> apr_revision row = snp_revision snap
           \<and> apr_spec_identity row = identity
           \<and> db_applications db' = bt_insert app (row\<lparr>apr_facts_json := facts_json, apr_revision := revision\<rparr>)
                (db_applications db))
      \<and> (\<exists>audit. to_audit Q (audit_of batch c request (snp_revision snap) revision identity) = Some audit
           \<and> bt_get (db_audit db) (app, revision) = None \<and> db_audit db' = bt_insert (app, revision) audit (db_audit db))
      \<and> (\<forall>a r i. bt_get (db_events db') (a, r, i) =
           (if a = app \<and> r = revision \<and> unat i < length (ctb_events batch)
            then to_event Q \<lparr>eve_event = ctb_events batch ! unat i, eve_revision = revision, eve_spec_identity = identity\<rparr>
            else bt_get (db_events db) (a, r, i)))
      \<and> (\<forall>k v. bt_get (db_events db) k = Some v \<longrightarrow> bt_get (db_events db') k = Some v)
      \<and> (\<exists>request_json receipt_json.
           to_envelope Q \<lparr>env_expected_revision = snp_revision snap, env_request = request\<rparr> = Some request_json
           \<and> to_receipt Q receipt = Some receipt_json
           \<and> length request_json \<le> MAX_BYTES \<and> length receipt_json \<le> MAX_BYTES \<and> length intent \<le> MAX_BYTES
           \<and> bt_get (db_receipts db) (app, actor, req_idempotency_key request) = None
           \<and> db_receipts db' = bt_insert (app, actor, req_idempotency_key request)
                \<lparr>rcr_intent_json = intent, rcr_request_json = request_json, rcr_receipt_json = receipt_json\<rparr>
                (db_receipts db)))"

lemma checked_add_u64_one: "checked_add_u64 a 1 = Some b \<longleftrightarrow> unat b = Suc (unat a)"
proof
  assume b: "unat b = Suc (unat a)"
  have "unat b < 2 ^ 64" by (rule order_less_le_trans [OF unsigned_less]) simp
  with b have small: "Suc (unat a) < 2 ^ 64" by simp
  then have "unat (a + 1) = Suc (unat a)" by (simp add: unat_word_ariths)
  with b have "b = a + 1" by (metis word_unat_eq_iff)
  with small show "checked_add_u64 a 1 = Some b" by (simp add: checked_add_u64_def)
qed (rule checked_add_u64_one_Some)

lemma i64_of_u64_Some: "i64_of_u64 a = Some b \<longleftrightarrow> b = a \<and> unat a < 2 ^ 63"
  by (auto simp: i64_of_u64_def)

lemma write_facts_Ok:
  assumes "write_facts J F scope snap expected fault new_facts db = Ok (revision, sql_revision, db')"
  shows "unat revision = Suc (unat (snp_revision snap)) \<and> unat revision < 2 ^ 63 \<and> sql_revision = revision
    \<and> (\<exists>row facts_json. checked_records_encode J new_facts = Ok facts_json
         \<and> bt_get (db_applications db) (as_str (app_id scope)) = Some row \<and> apr_revision row = expected
         \<and> apr_spec_identity row = snp_spec_identity snap
         \<and> db' = db\<lparr>db_applications := bt_insert (as_str (app_id scope))
              (row\<lparr>apr_facts_json := facts_json, apr_revision := revision\<rparr>) (db_applications db)\<rparr>)"
  using assms
  by (auto simp: write_facts_def outcome_simps update_application_Some checked_add_u64_one i64_of_u64_Some
      simp del: if_split split: if_splits)

lemma write_audit_Ok:
  "write_audit Q F c snap expected request fault batch revision sql_revision db = Ok db' \<Longrightarrow>
     \<exists>audit. to_audit Q (audit_of batch c request expected revision (snp_spec_identity snap)) = Some audit
       \<and> bt_get (db_audit db) (as_str (app_id (scl_scope c)), sql_revision) = None
       \<and> db' = db\<lparr>db_audit := bt_insert (as_str (app_id (scl_scope c)), sql_revision) audit (db_audit db)\<rparr>"
  by (auto simp: write_audit_def outcome_simps)

lemma write_events_Ok:
  "write_events Q F scope snap fault batch revision sql_revision db = Ok db' \<Longrightarrow>
     \<exists>events. fold_m (insert_event Q F (as_str (app_id scope)) revision sql_revision (snp_spec_identity snap))
         (db_events db) (enumerate 0 (ctb_events batch)) = Ok events \<and> db' = db\<lparr>db_events := events\<rparr>"
  by (auto simp: write_events_def outcome_simps)

lemma write_receipt_Ok:
  "write_receipt Q F scope snap expected request fault intent batch revision db = Ok (receipt, db') \<Longrightarrow>
     receipt = \<lparr>crc_transition = ctb_receipt batch, crc_request_key = req_idempotency_key request,
            crc_replayed = False, crc_revision = revision, crc_expected_revision = expected,
            crc_spec_identity = snp_spec_identity snap\<rparr>
     \<and> (\<exists>request_json receipt_json.
          to_envelope Q \<lparr>env_expected_revision = expected, env_request = request\<rparr> = Some request_json
          \<and> to_receipt Q receipt = Some receipt_json
          \<and> length request_json \<le> MAX_BYTES \<and> length receipt_json \<le> MAX_BYTES \<and> length intent \<le> MAX_BYTES
          \<and> bt_get (db_receipts db) (as_str (app_id scope), as_str (ctx_actor (pre_context (ctb_prepared batch))),
               req_idempotency_key request) = None
          \<and> db' = db\<lparr>db_receipts := bt_insert
               (as_str (app_id scope), as_str (ctx_actor (pre_context (ctb_prepared batch))), req_idempotency_key request)
               \<lparr>rcr_intent_json = intent, rcr_request_json = request_json, rcr_receipt_json = receipt_json\<rparr>
               (db_receipts db)\<rparr>)"
  by (auto simp: write_receipt_def Let_def outcome_simps blob_ok_def MAX_BYTES_def)

lemma commit_batch_Ok:
  assumes "commit_batch J Q F c snap expected request fault intent batch new_facts db = Ok (receipt, db')"
    and "expected = snp_revision snap"
  shows "committed J Q c snap request intent batch new_facts receipt db db'"
proof -
  from assms(1) obtain revision sql_revision db1 db2 db3 where
    1: "write_facts J F (scl_scope c) snap expected fault new_facts db = Ok (revision, sql_revision, db1)"
    and 2: "write_audit Q F c snap expected request fault batch revision sql_revision db1 = Ok db2"
    and 3: "write_events Q F (scl_scope c) snap fault batch revision sql_revision db2 = Ok db3"
    and 4: "write_receipt Q F (scl_scope c) snap expected request fault intent batch revision db3 = Ok (receipt, db')"
    by (auto simp: commit_batch_def and_then_Ok_iff)
  from write_facts_Ok [OF 1] have sql: "sql_revision = revision" by simp
  from write_audit_Ok [OF 2] have db2: "db_events db2 = db_events db1" "db_receipts db2 = db_receipts db1"
    "db_applications db2 = db_applications db1" "db_schema db2 = db_schema db1" "db_metadata db2 = db_metadata db1"
    "db_releases db2 = db_releases db1" by auto
  from write_events_Ok [OF 3] obtain events where
    events: "fold_m (insert_event Q F (as_str (app_id (scl_scope c))) revision revision (snp_spec_identity snap))
      (db_events db2) (enumerate 0 (ctb_events batch)) = Ok events" and db3: "db3 = db2\<lparr>db_events := events\<rparr>"
    by (auto simp: sql)
  have keep: "bt_get (db_events db2) k = Some v \<Longrightarrow> bt_get events k = Some v" for k v
    using insert_events_Ok [OF events] by blast
  show ?thesis
    unfolding committed_def Let_def
    using write_facts_Ok [OF 1] write_audit_Ok [OF 2] inserted_events [OF events] write_receipt_Ok [OF 4] keep assms(2)
    by (auto simp: db3 db2)
qed

end
