(* ===== verification/Store_Laws.thy ===== *)
theory Store_Laws
  imports Store
begin

text \<open>
  What the embedded store promises: an execution changes nothing or commits everything; what it stores is
  read back; histories only grow; and every history of the store is a history of the abstract workflow of
  \<open>Lifecycle\<close>, one application at a time.
\<close>

abbreviation no_faults :: db_faults where
  "no_faults \<equiv> (\<lambda>_. False)"

section \<open>Successful calls\<close>

lemma store_load_Ok:
  "store_load J Q F db scope = Ok snap \<longleftrightarrow> \<not> F (Stmt LoadSnapshot)
     \<and> (\<exists>row spec_json. bt_get (db_applications db) (as_str (app_id scope)) = Some row
        \<and> bt_get (db_releases db) (as_str (app_id scope), apr_spec_identity row) = Some spec_json
        \<and> u64_of_i64 (apr_revision row) = Some (snp_revision snap) \<and> snp_revision snap \<noteq> 0
        \<and> spec_decode J spec_json = Ok (snp_spec snap) \<and> spec_identity Q spec_json = apr_spec_identity row
        \<and> spec_encode J (snp_spec snap) = Ok spec_json
        \<and> decode_records J (snp_spec snap) scope (apr_facts_json row) = Ok (snp_facts snap)
        \<and> checked_records_encode J (snp_facts snap) = Ok (apr_facts_json row)
        \<and> snp_spec_identity snap = apr_spec_identity row)"
  by (cases snap) (auto simp: store_load_def outcome_simps)

lemma store_load_no_faults: "store_load J Q F db scope = Ok snap \<Longrightarrow> store_load J Q no_faults db scope = Ok snap"
  by (simp add: store_load_Ok)

lemma spec_decode_declarations: "spec_decode J bytes = Ok spec \<Longrightarrow> declarations_ok spec"
  by (auto simp: spec_decode_def and_then_Ok_iff wf_spec_def dest!: compile_wf)

lemma store_load_valid:
  assumes "store_load J Q F db scope = Ok snap"
  shows "facts_ok J (snp_spec snap) (snp_facts snap)" and "declarations_ok (snp_spec snap)"
    and "crs_scope (snp_facts snap) = scope"
  using assms
  by (auto simp: store_load_Ok decode_records_def and_then_Ok_iff intro: validate_records_facts_ok
      dest: spec_decode_declarations validate_records_scope)

lemma store_prepare_Ok:
  assumes "store_prepare J V c ctx snap request = Ok p" and "store_load J Q F db (scl_scope c) = Ok snap"
  shows "prepare_command J (V AtPrepare) (scl_credential c) (scl_scope c) (scl_channel c) (scl_now c)
           (snp_spec snap) (snp_facts snap) request = Ok p"
    and "prepared_ok J p" and "pre_context p = ctx" and "pre_request p = request"
    and "pre_spec p = snp_spec snap" and "pre_facts p = snp_facts snap"
    and "cmd_command_id (pre_command p) = req_command_id request"
    and "pre_intent_bytes p = concat (ser_intent J (intent_of (snp_spec snap) request))"
proof -
  from assms(1) show prep: "prepare_command J (V AtPrepare) (scl_credential c) (scl_scope c) (scl_channel c) (scl_now c)
      (snp_spec snap) (snp_facts snap) request = Ok p"
    and ctx: "pre_context p = ctx" by (auto simp: store_prepare_def outcome_simps)
  note p = prepare_command_Ok [OF prep store_load_valid(2,1) [OF assms(2)]]
  from p show "prepared_ok J p" "pre_request p = request" "pre_spec p = snp_spec snap" "pre_facts p = snp_facts snap"
    "cmd_command_id (pre_command p) = req_command_id request"
    "pre_intent_bytes p = concat (ser_intent J (intent_of (snp_spec snap) request))" by blast+
qed

text \<open>An execution that succeeds either answers from a receipt or commits.\<close>

lemma execute_in_Ok:
  assumes "execute_in J Q F S V c expected request fault db = Ok (receipt, db')"
  obtains (replayed) ctx snap p intent original envelope where
      "store_resolve V AtStart c = Ok ctx" "check_binding S ctx = Ok ()"
      "store_load J Q F db (scl_scope c) = Ok snap" "store_prepare J V c ctx snap request = Ok p"
      "normalized_identity Q snap expected (pre_intent_bytes p) = Ok intent"
      "load_receipt Q F db (scl_scope c) (as_str (ctx_actor ctx)) (req_idempotency_key request)
         = Ok (Some (intent, original, envelope))"
      "validate_receipt snap request expected original = Ok ()"
      "receipt = original\<lparr>crc_replayed := True\<rparr>" "db' = db"
  | (fresh) ctx snap p intent batch new_facts where
      "store_resolve V AtStart c = Ok ctx" "check_binding S ctx = Ok ()"
      "store_load J Q F db (scl_scope c) = Ok snap" "store_prepare J V c ctx snap request = Ok p"
      "normalized_identity Q snap expected (pre_intent_bytes p) = Ok intent"
      "expected = snp_revision snap" "decide_command J p (snp_revision snap) = Ok batch"
      "validate_records J (snp_spec snap) (scl_scope c) (fold put_row (ctb_writes batch) (to_raw (snp_facts snap)))
         = Ok new_facts"
      "committed J Q c snap request intent batch new_facts receipt db db'"
      "revalidate S V c ctx = Ok ()"
proof -
  from assms obtain ctx snap p intent found where
    ctx: "store_resolve V AtStart c = Ok ctx" "check_binding S ctx = Ok ()"
    and snap: "store_load J Q F db (scl_scope c) = Ok snap" and p: "store_prepare J V c ctx snap request = Ok p"
    and intent: "normalized_identity Q snap expected (pre_intent_bytes p) = Ok intent"
    and found0: "load_receipt Q F db (scl_scope c) (as_str (ctx_actor ctx)) (req_idempotency_key (pre_request p)) = Ok found"
    and rest: "(case found of
          Some (previous, receipt, _) \<Rightarrow>
            and_then (replay_receipt S V c expected request ctx snap intent previous receipt) (\<lambda>receipt. Ok (receipt, db))
        | None \<Rightarrow> execute_fresh J Q F S V c expected request fault ctx snap p intent db) = Ok (receipt, db')"
    unfolding execute_in_def by (auto simp: and_then_Ok_iff)
  note prep = store_prepare_Ok [OF p snap]
  from found0 prep(4) have found: "load_receipt Q F db (scl_scope c) (as_str (ctx_actor ctx)) (req_idempotency_key request) = Ok found"
    by simp
  show ?thesis
  proof (cases found)
    case None
    from rest None obtain batch rows new_facts where expected: "expected = snp_revision snap"
      and batch: "decide_command J p (snp_revision snap) = Ok batch"
      and rows: "fold_m (\<lambda>rows w. ok_or CorruptSnapshot (replace_row rows w)) (to_raw (snp_facts snap)) (ctb_writes batch)
        = (Ok rows :: (store_error, _) outcome)"
      and facts: "validate_records J (snp_spec snap) (scl_scope c) rows = Ok new_facts"
      and commit: "commit_batch J Q F c snap expected request fault intent batch new_facts db = Ok (receipt, db')"
      and again: "revalidate S V c ctx = Ok ()"
      by (auto simp: execute_fresh_def outcome_simps split: if_splits)
    from batch prep(2) obtain row where writes: "ctb_writes batch = [normalize_record (pre_spec p) (proposed_row p row)]"
      and row: "find_record (pre_facts p) (sm_table_id (pre_machine p)) (req_record_id (pre_request p)) = Some row"
      by (rule decide_command_Ok)
    have dist: "distinct (map record_key (to_raw (snp_facts snap)))"
      using store_load_valid(1) [OF snap] by (simp add: facts_ok_iff valid_facts_def)
    from rows have "rows = fold put_row (ctb_writes batch) (to_raw (snp_facts snap))"
      by (simp add: writes outcome_simps replace_row_Some_iff [OF dist])
    with facts show ?thesis
      using fresh [OF ctx snap p intent expected batch _ commit_batch_Ok [OF commit expected] again] by simp
  next
    case (Some x)
    then obtain previous original envelope where x: "found = Some (previous, original, envelope)" by (cases x) auto
    with rest have "previous = intent" "validate_receipt snap request expected original = Ok ()"
      "receipt = original\<lparr>crc_replayed := True\<rparr>" "db' = db"
      by (auto simp: replay_receipt_def outcome_simps split: if_splits)
    with found x show ?thesis using replayed [OF ctx snap p intent] by simp
  qed
qed

lemma transaction_Ok: "transaction F work db = (Ok x, db') \<longleftrightarrow> work db = Ok (x, db') \<and> \<not> F Begin \<and> \<not> F Commit"
  by (auto simp: transaction_def split: outcome.splits prod.splits if_splits)

lemma transaction_rolls_back: "transaction F work db = (r, db') \<Longrightarrow> \<not> is_ok r \<Longrightarrow> db' = db"
  by (auto simp: transaction_def split: outcome.splits prod.splits if_splits)

lemma execute_at_Ok:
  "execute_at J Q F S V c expected request fault db = (Ok receipt, db') \<longleftrightarrow>
     tenant_id (scl_scope c) = str_tenant_id S \<and> \<not> F Connect \<and> \<not> F Begin \<and> \<not> F Commit
     \<and> execute_in J Q F S V c expected request fault db = Ok (receipt, db')"
  by (auto simp: execute_at_def store_check_scope_def db_run_def transaction_Ok split: outcome.splits)

lemma execute_at_failed:
  "execute_at J Q F S V c expected request fault db = (r, db') \<Longrightarrow> \<not> is_ok r \<Longrightarrow> db' = db"
  by (auto simp: execute_at_def dest: transaction_rolls_back split: outcome.splits)


section \<open>The effect of every call\<close>

text \<open>
  C4. An execution is atomic, whatever call of the database fails and whatever stage a fault is injected
  at: an error or a panic leaves every table as it was; an answer from a receipt changes nothing; and
  any other answer means that the facts, the audit entry, all the events and the receipt of one decided
  command were written together, at the revision after the expected one.
\<close>

theorem store_execute_atomic:
  assumes "execute_at J Q F S V c expected request fault db = (r, db')"
  shows "(\<not> is_ok r \<longrightarrow> db' = db)
    \<and> (\<forall>receipt. r = Ok receipt \<longrightarrow>
         (crc_replayed receipt \<and> db' = db)
       \<or> (\<not> crc_replayed receipt
          \<and> (\<exists>ctx snap p intent batch new_facts.
               store_resolve V AtStart c = Ok ctx \<and> store_load J Q no_faults db (scl_scope c) = Ok snap
             \<and> snp_revision snap = expected \<and> store_prepare J V c ctx snap request = Ok p
             \<and> normalized_identity Q snap expected (pre_intent_bytes p) = Ok intent
             \<and> decide_command J p expected = Ok batch
             \<and> validate_records J (snp_spec snap) (scl_scope c) (fold put_row (ctb_writes batch) (to_raw (snp_facts snap)))
                 = Ok new_facts
             \<and> committed J Q c snap request intent batch new_facts receipt db db')))"
proof -
  have "(crc_replayed receipt \<and> db' = db)
       \<or> (\<not> crc_replayed receipt
          \<and> (\<exists>ctx snap p intent batch new_facts.
               store_resolve V AtStart c = Ok ctx \<and> store_load J Q no_faults db (scl_scope c) = Ok snap
             \<and> snp_revision snap = expected \<and> store_prepare J V c ctx snap request = Ok p
             \<and> normalized_identity Q snap expected (pre_intent_bytes p) = Ok intent
             \<and> decide_command J p expected = Ok batch
             \<and> validate_records J (snp_spec snap) (scl_scope c) (fold put_row (ctb_writes batch) (to_raw (snp_facts snap)))
                 = Ok new_facts
             \<and> committed J Q c snap request intent batch new_facts receipt db db'))"
    if "r = Ok receipt" for receipt
  proof -
    from assms that have "execute_in J Q F S V c expected request fault db = Ok (receipt, db')"
      by (simp add: execute_at_Ok)
    then show ?thesis
    proof (cases rule: execute_in_Ok)
      case replayed
      then show ?thesis by simp
    next
      case (fresh ctx snap p intent batch new_facts)
      from fresh(9) have "\<not> crc_replayed receipt" unfolding committed_def Let_def by (metis (no_types) commit_receipt.select_convs(3))
      with fresh store_load_no_faults [OF fresh(3)] show ?thesis by blast
    qed
  qed
  with execute_at_failed [OF assms] show ?thesis by blast
qed

lemma bootstrap_effect:
  assumes "bootstrap J Q F S db spec facts = (r, db')"
  shows "db' = db \<or> (\<exists>app identity spec_json facts_json.
    app = as_str (spec_app_id spec)
    \<and> bt_get (db_applications db) app = None \<and> bt_get (db_releases db) (app, identity) = None
    \<and> db' = db\<lparr>db_releases := bt_insert (app, identity) spec_json (db_releases db),
          db_applications := bt_insert app \<lparr>apr_spec_identity = identity, apr_revision = 1, apr_facts_json = facts_json\<rparr>
            (db_applications db)\<rparr>)"
proof (cases "is_ok r")
  case True
  then obtain snap where "r = Ok snap" by (auto simp: is_ok_iff)
  with assms obtain spec_json facts_json where
    "bootstrap_in J Q F spec (crs_scope facts) spec_json facts_json db = Ok (snap, db')"
    by (auto simp: bootstrap_def transaction_Ok split: outcome.splits prod.splits)
  then show ?thesis
    by (auto simp: bootstrap_in_def Let_def insert_application_def outcome_simps split: option.splits if_splits)
next
  case False
  with assms show ?thesis
    by (auto simp: bootstrap_def dest: transaction_rolls_back split: outcome.splits prod.splits)
qed

lemma same_tables: "\<exists>schema metadata. db = db\<lparr>db_schema := schema, db_metadata := metadata\<rparr>"
  by (rule exI [of _ "db_schema db"], rule exI [of _ "db_metadata db"]) simp

lemma new_metadata:
  "\<exists>schema metadata. db\<lparr>db_metadata := m\<rparr> = db\<lparr>db_schema := schema, db_metadata := metadata\<rparr>"
  by (rule exI [of _ "db_schema db"], rule exI [of _ m]) simp

lemma store_open_effect:
  assumes "store_open F tenant db = (r, db')"
  shows "\<exists>schema metadata. db' = db\<lparr>db_schema := schema, db_metadata := metadata\<rparr>"
proof -
  note same = same_tables
  have init: "\<exists>schema metadata. db2 = db1\<lparr>db_schema := schema, db_metadata := metadata\<rparr>"
    if "initialize_metadata F tenant db1 = Ok (u, db2)" for u db1 db2
    using that same [of db1] new_metadata
    by (auto simp: initialize_metadata_def Let_def outcome_simps split: if_splits)
  have trans: "\<exists>schema metadata. db2 = db1\<lparr>db_schema := schema, db_metadata := metadata\<rparr>"
    if "transaction F (initialize_metadata F tenant) db1 = (x, db2)" for x db1 db2
    using that same [of db1] init [of db1 _ db2]
    by (auto simp: transaction_def split: outcome.splits prod.splits if_splits)
  show ?thesis
    using assms same [of db] trans [of "db\<lparr>db_schema := True\<rparr>"]
    by (auto simp: store_open_def split: outcome.splits prod.splits if_splits)
qed

text \<open>A call of the store by anyone, on any host, with any database failures.\<close>

inductive store_step :: "serde \<Rightarrow> store_json \<Rightarrow> evo_store \<Rightarrow> store_db \<Rightarrow> store_db \<Rightarrow> bool" for J Q S where
  open_step: "store_open F tenant db = (opened, db') \<Longrightarrow> store_step J Q S db db'"
| bootstrap_step: "bootstrap J Q F S db spec facts = (started, db') \<Longrightarrow> store_step J Q S db db'"
| execute_step: "execute_at J Q F S V c expected request fault db = (answer, db') \<Longrightarrow> store_step J Q S db db'"

text \<open>What a step does to the tables.\<close>

lemma store_step_cases:
  assumes "store_step J Q S db db'"
  obtains (idle) schema metadata where "db' = db\<lparr>db_schema := schema, db_metadata := metadata\<rparr>"
  | (started) app identity spec_json facts_json where
      "bt_get (db_applications db) app = None" "bt_get (db_releases db) (app, identity) = None"
      "db' = db\<lparr>db_releases := bt_insert (app, identity) spec_json (db_releases db),
          db_applications := bt_insert app \<lparr>apr_spec_identity = identity, apr_revision = 1, apr_facts_json = facts_json\<rparr>
            (db_applications db)\<rparr>"
  | (commit) V c ctx snap request p intent batch new_facts receipt where
      "tenant_id (scl_scope c) = str_tenant_id S" "store_load J Q no_faults db (scl_scope c) = Ok snap"
      "store_prepare J V c ctx snap request = Ok p" "decide_command J p (snp_revision snap) = Ok batch"
      "validate_records J (snp_spec snap) (scl_scope c) (fold put_row (ctb_writes batch) (to_raw (snp_facts snap)))
         = Ok new_facts"
      "committed J Q c snap request intent batch new_facts receipt db db'"
  using assms
proof (cases rule: store_step.cases)
  case (open_step F tenant opened)
  with idle store_open_effect show ?thesis by blast
next
  case (bootstrap_step F spec facts started')
  from bootstrap_effect [OF this] idle started same_tables [of db] show ?thesis by metis
next
  case (execute_step F V c expected request fault answer)
  have same: ?thesis if "db' = db"
    using idle same_tables [of db] that by metis
  show ?thesis
  proof (cases "is_ok answer")
    case True
    then obtain receipt where "answer = Ok receipt" by (auto simp: is_ok_iff)
    with execute_step have scope: "tenant_id (scl_scope c) = str_tenant_id S"
      and ex: "execute_in J Q F S V c expected request fault db = Ok (receipt, db')"
      by (simp_all add: execute_at_Ok)
    from ex show ?thesis
    proof (cases rule: execute_in_Ok)
      case replayed
      with same show ?thesis by simp
    next
      case (fresh ctx snap p intent batch new_facts)
      from commit [OF scope store_load_no_faults [OF fresh(3)] fresh(4,7,8,9)] show ?thesis .
    qed
  next
    case False
    from same execute_at_failed [OF execute_step False] show ?thesis by blast
  qed
qed


section \<open>Histories only grow\<close>

definition extends :: "('k::linorder, 'v) btree_map \<Rightarrow> ('k, 'v) btree_map \<Rightarrow> bool" where
  "extends table table' \<longleftrightarrow> (\<forall>k v. bt_get table k = Some v \<longrightarrow> bt_get table' k = Some v)"

lemma extends_refl [simp]: "extends t t"
  by (simp add: extends_def)

lemma extends_trans [trans]: "extends t t' \<Longrightarrow> extends t' t'' \<Longrightarrow> extends t t''"
  by (simp add: extends_def)

lemma extends_insert [simp]: "bt_get t k = None \<Longrightarrow> extends t (bt_insert k v t)"
  by (auto simp: extends_def)

lemma extendsD: "extends t t' \<Longrightarrow> bt_get t k = Some v \<Longrightarrow> bt_get t' k = Some v"
  by (simp add: extends_def)

text \<open>An application stays at its release and moves forward over audited revisions.\<close>

definition application_follows :: "store_db \<Rightarrow> store_db \<Rightarrow> bool" where
  "application_follows db db' \<longleftrightarrow>
     (\<forall>app row. bt_get (db_applications db) app = Some row \<longrightarrow>
        (\<exists>row'. bt_get (db_applications db') app = Some row' \<and> apr_spec_identity row' = apr_spec_identity row
           \<and> unat (apr_revision row) \<le> unat (apr_revision row')
           \<and> (\<forall>r. unat (apr_revision row) < unat r \<and> unat r \<le> unat (apr_revision row') \<longrightarrow>
                bt_get (db_audit db') (app, r) \<noteq> None)))"

definition history_extends :: "store_db \<Rightarrow> store_db \<Rightarrow> bool" where
  "history_extends db db' \<longleftrightarrow>
     extends (db_releases db) (db_releases db') \<and> extends (db_receipts db) (db_receipts db')
     \<and> extends (db_events db) (db_events db') \<and> extends (db_audit db) (db_audit db')
     \<and> application_follows db db'"

lemma application_follows_trans:
  assumes "application_follows db db'" and "application_follows db' db''" and "extends (db_audit db') (db_audit db'')"
  shows "application_follows db db''"
  unfolding application_follows_def
proof (intro allI impI)
  fix app row assume "bt_get (db_applications db) app = Some row"
  with assms(1) obtain row1 where row1: "bt_get (db_applications db') app = Some row1"
    "apr_spec_identity row1 = apr_spec_identity row" "unat (apr_revision row) \<le> unat (apr_revision row1)"
    and audit1: "\<And>r. unat (apr_revision row) < unat r \<Longrightarrow> unat r \<le> unat (apr_revision row1) \<Longrightarrow> bt_get (db_audit db') (app, r) \<noteq> None"
    unfolding application_follows_def by blast
  from assms(2) row1(1) obtain row2 where row2: "bt_get (db_applications db'') app = Some row2"
    "apr_spec_identity row2 = apr_spec_identity row1" "unat (apr_revision row1) \<le> unat (apr_revision row2)"
    and audit2: "\<And>r. unat (apr_revision row1) < unat r \<Longrightarrow> unat r \<le> unat (apr_revision row2) \<Longrightarrow> bt_get (db_audit db'') (app, r) \<noteq> None"
    unfolding application_follows_def by blast
  have "bt_get (db_audit db'') (app, r) \<noteq> None"
    if "unat (apr_revision row) < unat r" "unat r \<le> unat (apr_revision row2)" for r
  proof (cases "unat r \<le> unat (apr_revision row1)")
    case True
    with audit1 that assms(3) show ?thesis by (metis extendsD not_Some_eq)
  next
    case False
    with audit2 that show ?thesis by simp
  qed
  with row1 row2 show "\<exists>row'. bt_get (db_applications db'') app = Some row' \<and> apr_spec_identity row' = apr_spec_identity row
      \<and> unat (apr_revision row) \<le> unat (apr_revision row')
      \<and> (\<forall>r. unat (apr_revision row) < unat r \<and> unat r \<le> unat (apr_revision row') \<longrightarrow> bt_get (db_audit db'') (app, r) \<noteq> None)"
    by (intro exI [of _ row2]) auto
qed

lemma application_follows_same:
  assumes "\<And>app row. bt_get (db_applications db) app = Some row \<Longrightarrow> bt_get (db_applications db') app = Some row"
  shows "application_follows db db'"
  unfolding application_follows_def
proof (intro allI impI)
  fix app row assume "bt_get (db_applications db) app = Some row"
  then show "\<exists>row'. bt_get (db_applications db') app = Some row' \<and> apr_spec_identity row' = apr_spec_identity row
      \<and> unat (apr_revision row) \<le> unat (apr_revision row')
      \<and> (\<forall>r. unat (apr_revision row) < unat r \<and> unat r \<le> unat (apr_revision row') \<longrightarrow> bt_get (db_audit db') (app, r) \<noteq> None)"
    by (intro exI [of _ row]) (auto dest: assms)
qed

lemma store_step_extends:
  assumes "store_step J Q S db db'"
  shows "history_extends db db'"
  using assms
proof (cases rule: store_step_cases)
  case (idle schema metadata)
  then show ?thesis by (simp add: history_extends_def application_follows_same)
next
  case (started app identity spec_json facts_json)
  then have "application_follows db db'" by (intro application_follows_same) (auto split: if_splits)
  with started show ?thesis by (simp add: history_extends_def)
next
  case (commit V c ctx snap request p intent batch new_facts receipt)
  from commit(6) obtain row facts_json audit where
    rev: "unat (crc_revision receipt) = Suc (unat (snp_revision snap))"
    and row: "bt_get (db_applications db) (as_str (app_id (scl_scope c))) = Some row" "apr_revision row = snp_revision snap"
    and apps: "db_applications db' = bt_insert (as_str (app_id (scl_scope c)))
        (row\<lparr>apr_facts_json := facts_json, apr_revision := crc_revision receipt\<rparr>) (db_applications db)"
    and audit: "db_audit db' = bt_insert (as_str (app_id (scl_scope c)), crc_revision receipt) audit (db_audit db)"
    and tables: "extends (db_releases db) (db_releases db')" "extends (db_receipts db) (db_receipts db')"
      "extends (db_events db) (db_events db')" "extends (db_audit db) (db_audit db')"
    by (auto simp: committed_def Let_def extends_def)
  have "application_follows db db'"
    unfolding application_follows_def
  proof (intro allI impI)
    fix app old assume old: "bt_get (db_applications db) app = Some old"
    show "\<exists>row'. bt_get (db_applications db') app = Some row' \<and> apr_spec_identity row' = apr_spec_identity old
      \<and> unat (apr_revision old) \<le> unat (apr_revision row')
      \<and> (\<forall>r. unat (apr_revision old) < unat r \<and> unat r \<le> unat (apr_revision row') \<longrightarrow> bt_get (db_audit db') (app, r) \<noteq> None)"
    proof (cases "app = as_str (app_id (scl_scope c))")
      case True
      have "r = crc_revision receipt" if "unat (snp_revision snap) < unat r" "unat r \<le> unat (crc_revision receipt)" for r
        using that rev by (simp add: word_unat_eq_iff)
      with True old row rev show ?thesis by (auto simp: apps audit)
    next
      case False
      with old show ?thesis by (auto simp: apps)
    qed
  qed
  with tables show ?thesis by (simp add: history_extends_def)
qed

lemma store_steps_extend:
  assumes "(store_step J Q S)\<^sup>*\<^sup>* db db'"
  shows "history_extends db db'"
  using assms
proof (induction rule: rtranclp_induct)
  case base
  show ?case by (simp add: history_extends_def application_follows_same)
next
  case (step db1 db2)
  note last = store_step_extends [OF step.hyps(2)]
  with step.IH show ?case
    unfolding history_extends_def by (meson application_follows_trans extends_trans)
qed

text \<open>
  The store's history is append-only. Whatever calls are made, by whomever, with whatever failures:
  a release, a receipt, an event or an audit entry is never changed or removed; an application is never
  removed and keeps its release; its revision never decreases; and every revision it has moved through
  has its audit entry.
\<close>

theorem store_history_append_only:
  assumes "(store_step J Q S)\<^sup>*\<^sup>* db db'"
  shows "(\<forall>k v. bt_get (db_releases db) k = Some v \<longrightarrow> bt_get (db_releases db') k = Some v)
    \<and> (\<forall>k v. bt_get (db_receipts db) k = Some v \<longrightarrow> bt_get (db_receipts db') k = Some v)
    \<and> (\<forall>k v. bt_get (db_events db) k = Some v \<longrightarrow> bt_get (db_events db') k = Some v)
    \<and> (\<forall>k v. bt_get (db_audit db) k = Some v \<longrightarrow> bt_get (db_audit db') k = Some v)
    \<and> (\<forall>app row. bt_get (db_applications db) app = Some row \<longrightarrow>
         (\<exists>row'. bt_get (db_applications db') app = Some row' \<and> apr_spec_identity row' = apr_spec_identity row
            \<and> unat (apr_revision row) \<le> unat (apr_revision row')
            \<and> (\<forall>r. unat (apr_revision row) < unat r \<and> unat r \<le> unat (apr_revision row') \<longrightarrow>
                 bt_get (db_audit db') (app, r) \<noteq> None)))"
  using store_steps_extend [OF assms]
  unfolding history_extends_def application_follows_def extends_def by blast

section \<open>The store implements the workflow\<close>

text \<open>What the JSON library must do: a document it wrote within the bounds is read back as it was.\<close>

definition json_reads_back :: "serde \<Rightarrow> bool" where
  "json_reads_back J \<longleftrightarrow>
     (\<forall>d bytes. bounded_encode (ser_spec J) d = Ok bytes \<longrightarrow> de_spec J bytes = Ok d)
     \<and> (\<forall>rows bytes. bounded_encode (ser_records J) rows = Ok bytes \<longrightarrow> de_records J bytes = Ok rows)"

lemma decode_encoded_records:
  assumes "json_reads_back J" and "facts_ok J spec facts" and "checked_records_encode J facts = Ok bytes"
  shows "decode_records J spec (crs_scope facts) bytes = Ok facts"
proof -
  from assms(3) have "preflight bytes = Ok ()" by (auto simp: checked_records_encode_def bounded_encode_Ok_iff)
  moreover have "de_records J bytes = Ok (to_raw facts)"
    using assms(1,3) by (simp add: json_reads_back_def checked_records_encode_def)
  ultimately show ?thesis
    using assms(2) by (simp add: decode_records_def bounded_decode_def facts_ok_def)
qed

lemma u64_of_i64_small: "unat a < 2 ^ 63 \<Longrightarrow> u64_of_i64 a = Some a"
proof -
  assume "unat a < 2 ^ 63"
  then have "int (unat a) < int (2 ^ 63)" by (simp only: of_nat_less_iff)
  then have u: "uint a < 2 ^ 63" by simp
  have "sint a = signed_take_bit 63 (uint a)" by (simp add: sint_uint)
  also have "\<dots> = uint a" using u by (intro signed_take_bit_int_eq_self) (auto intro: order_trans [OF _ unsigned_greater_eq])
  finally show ?thesis by (simp add: u64_of_i64_def)
qed

lemma load_after_commit:
  assumes J: "json_reads_back J" and load: "store_load J Q no_faults db (scl_scope c) = Ok snap"
    and new: "facts_ok J (snp_spec snap) new_facts" "crs_scope new_facts = scl_scope c"
    and "committed J Q c snap request intent batch new_facts receipt db db'"
  shows "store_load J Q no_faults db' (scl_scope c) = Ok (snap\<lparr>snp_facts := new_facts, snp_revision := crc_revision receipt\<rparr>)"
proof -
  from assms(5) obtain row facts_json where
    rev: "unat (crc_revision receipt) = Suc (unat (snp_revision snap))" "unat (crc_revision receipt) < 2 ^ 63"
    and json: "checked_records_encode J new_facts = Ok facts_json"
    and row: "bt_get (db_applications db) (as_str (app_id (scl_scope c))) = Some row"
    and db': "db_releases db' = db_releases db" "db_applications db' = bt_insert (as_str (app_id (scl_scope c)))
        (row\<lparr>apr_facts_json := facts_json, apr_revision := crc_revision receipt\<rparr>) (db_applications db)"
    by (auto simp: committed_def Let_def)
  have "u64_of_i64 (crc_revision receipt) = Some (crc_revision receipt)" "crc_revision receipt \<noteq> 0"
    using rev by (auto simp: u64_of_i64_small)
  moreover have "decode_records J (snp_spec snap) (scl_scope c) facts_json = Ok new_facts"
    using decode_encoded_records [OF J new(1) json] by (simp add: new(2))
  ultimately show ?thesis
    using load row json by (auto simp: store_load_Ok db')
qed

lemma load_other_application:
  assumes "committed J Q c snap request intent batch new_facts receipt db db'" and "app_id scope \<noteq> app_id (scl_scope c)"
  shows "store_load J Q F db' scope = store_load J Q F db scope"
proof -
  from assms(2) have "as_str (app_id scope) \<noteq> as_str (app_id (scl_scope c))"
    by (cases "app_id scope"; cases "app_id (scl_scope c)") auto
  with assms(1) show ?thesis
    by (auto simp: store_load_def committed_def Let_def)
qed


text \<open>A step of the store is, for one application, no step of the workflow or exactly one.\<close>

lemma store_step_refines:
  assumes J: "json_reads_back J" and step: "store_step J Q S db db'"
    and tenant: "tenant_id scope = str_tenant_id S" and load: "store_load J Q no_faults db scope = Ok snap"
  shows "\<exists>snap'. store_load J Q no_faults db' scope = Ok snap' \<and> snp_spec snap' = snp_spec snap
    \<and> snp_spec_identity snap' = snp_spec_identity snap
    \<and> (snap' = snap \<or> (command_step J (snp_spec snap) (snp_facts snap) (snp_facts snap')
         \<and> unat (snp_revision snap') = Suc (unat (snp_revision snap))))"
  using step
proof (cases rule: store_step_cases)
  case (idle schema metadata)
  with load show ?thesis by (simp add: store_load_def)
next
  case (started app identity spec_json facts_json)
  from load obtain row spec_json' where "bt_get (db_applications db) (as_str (app_id scope)) = Some row"
    "bt_get (db_releases db) (as_str (app_id scope), apr_spec_identity row) = Some spec_json'"
    by (auto simp: store_load_Ok)
  with started have "store_load J Q no_faults db' scope = store_load J Q no_faults db scope"
    by (auto simp: store_load_def)
  with load show ?thesis by simp
next
  case (commit V c ctx mid request p intent batch new_facts receipt)
  show ?thesis
  proof (cases "app_id scope = app_id (scl_scope c)")
    case False
    with load load_other_application [OF commit(6) False] show ?thesis by simp
  next
    case True
    with tenant commit(1) have scope: "scope = scl_scope c"
      by (cases scope; cases "scl_scope c") simp
    with load commit(2) have snap: "mid = snap" by simp
    note prep = store_prepare_Ok [OF commit(3,2)] and valid = store_load_valid [OF commit(2)]
    have new: "facts_ok J (snp_spec snap) new_facts" "crs_scope new_facts = scl_scope c"
      using commit(5) snap by (auto intro: validate_records_facts_ok validate_records_scope)
    have "command_step J (snp_spec mid) (snp_facts mid) new_facts"
      using command_step [of J "V AtPrepare" "scl_credential c" "snp_facts mid" "scl_channel c" "scl_now c" "snp_spec mid"
          request p "snp_revision mid" batch new_facts] prep(1) commit(4,5) valid(3) by simp
    moreover have "unat (crc_revision receipt) = Suc (unat (snp_revision mid))"
      using commit(6) by (simp add: committed_def Let_def)
    moreover have "store_load J Q no_faults db' scope
        = Ok (snap\<lparr>snp_facts := new_facts, snp_revision := crc_revision receipt\<rparr>)"
      using load_after_commit [OF J commit(2) _ _ commit(6)] new snap scope by simp
    ultimately show ?thesis using snap by simp
  qed
qed

text \<open>
  C3. The store refines the workflow. Once an application loads, it loads after any calls by anyone, with
  whatever failures of the database, at the same release; and the facts the calls led to are facts that
  prepared and decided commands of the application lead to, in as many steps as its revision has moved.
  So what \<open>workflow_respects_machine\<close> says of commands, the database keeps.
\<close>

theorem store_refines_workflow:
  assumes "json_reads_back J" and "(store_step J Q S)\<^sup>*\<^sup>* db db'"
    and "tenant_id scope = str_tenant_id S" and "store_load J Q no_faults db scope = Ok snap"
  shows "\<exists>snap'. store_load J Q no_faults db' scope = Ok snap' \<and> snp_spec snap' = snp_spec snap
    \<and> snp_spec_identity snap' = snp_spec_identity snap
    \<and> (\<exists>n. (command_step J (snp_spec snap) ^^ n) (snp_facts snap) (snp_facts snap')
         \<and> unat (snp_revision snap') = unat (snp_revision snap) + n)"
  using assms(2)
proof (induction rule: rtranclp_induct)
  case base
  show ?case by (rule exI [of _ snap]) (auto simp: assms(4) intro: exI [of _ 0])
next
  case (step db1 db2)
  from step.IH obtain snap1 n where load1: "store_load J Q no_faults db1 scope = Ok snap1"
    and same1: "snp_spec snap1 = snp_spec snap" "snp_spec_identity snap1 = snp_spec_identity snap"
    and n: "(command_step J (snp_spec snap) ^^ n) (snp_facts snap) (snp_facts snap1)"
      "unat (snp_revision snap1) = unat (snp_revision snap) + n" by blast
  from store_step_refines [OF assms(1) step.hyps(2) assms(3) load1] obtain snap2 where
    load2: "store_load J Q no_faults db2 scope = Ok snap2"
    and same2: "snp_spec snap2 = snp_spec snap1" "snp_spec_identity snap2 = snp_spec_identity snap1"
    and move: "snap2 = snap1 \<or> (command_step J (snp_spec snap1) (snp_facts snap1) (snp_facts snap2)
       \<and> unat (snp_revision snap2) = Suc (unat (snp_revision snap1)))" by blast
  from move show ?case
  proof
    assume "snap2 = snap1"
    with load2 same1 n show ?thesis by blast
  next
    assume "command_step J (snp_spec snap1) (snp_facts snap1) (snp_facts snap2)
      \<and> unat (snp_revision snap2) = Suc (unat (snp_revision snap1))"
    with n same1 have "(command_step J (snp_spec snap) ^^ Suc n) (snp_facts snap) (snp_facts snap2)"
      "unat (snp_revision snap2) = unat (snp_revision snap) + Suc n" by auto
    with load2 same1 same2 show ?thesis by metis
  qed
qed

section \<open>Every command is applied at most once\<close>

definition receipts_read_back :: "store_json \<Rightarrow> bool" where
  "receipts_read_back Q \<longleftrightarrow>
     (\<forall>r bytes. to_receipt Q r = Some bytes \<longrightarrow> of_receipt Q bytes = Some r)
     \<and> (\<forall>e bytes. to_envelope Q e = Some bytes \<longrightarrow> of_envelope Q bytes = Some e)"

text \<open>The receipt a commit stored is what a later call with its key finds.\<close>

lemma load_committed_receipt:
  assumes Q: "receipts_read_back Q" and "committed J Q c snap request intent batch new_facts receipt db1 db2"
    and "extends (db_receipts db2) (db_receipts db)"
    and "load_receipt Q F db scope actor (req_idempotency_key request) = Ok found"
    and "app_id scope = app_id (scl_scope c)" and "actor = as_str (ctx_actor (pre_context (ctb_prepared batch)))"
  shows "found = Some (intent, receipt, \<lparr>env_expected_revision = snp_revision snap, env_request = request\<rparr>)"
proof -
  from assms(2) obtain request_json receipt_json where
    json: "to_envelope Q \<lparr>env_expected_revision = snp_revision snap, env_request = request\<rparr> = Some request_json"
      "to_receipt Q receipt = Some receipt_json"
      "length request_json \<le> MAX_BYTES" "length receipt_json \<le> MAX_BYTES" "length intent \<le> MAX_BYTES"
    and row: "bt_get (db_receipts db2) (as_str (app_id scope), actor, req_idempotency_key request)
      = Some \<lparr>rcr_intent_json = intent, rcr_request_json = request_json, rcr_receipt_json = receipt_json\<rparr>"
    using assms(5,6) by (auto simp: committed_def Let_def)
  from Q json have "of_envelope Q request_json = Some \<lparr>env_expected_revision = snp_revision snap, env_request = request\<rparr>"
    "of_receipt Q receipt_json = Some receipt" by (simp_all add: receipts_read_back_def)
  with assms(4) extendsD [OF assms(3) row] json show ?thesis
    by (simp add: load_receipt_def db_run_def split: if_splits)
qed

text \<open>
  C5. A command is applied at most once. After a commit for a request key, and whatever calls came in
  between, an execution by the same actor with that key in the same application, if it succeeds at all,
  answers with the stored receipt marked as a replay and changes no table.
\<close>

theorem command_applied_once:
  assumes Q: "receipts_read_back Q"
    and first: "execute_at J Q F S V c expected request fault db = (Ok receipt, db1)" "\<not> crc_replayed receipt"
    and between: "(store_step J Q S)\<^sup>*\<^sup>* db1 db2"
    and again: "execute_at J Q F' S V' c' expected' request' fault' db2 = (Ok receipt', db3)"
    and same: "app_id (scl_scope c') = app_id (scl_scope c)" "req_idempotency_key request' = req_idempotency_key request"
      "store_resolve V AtStart c = Ok ctx" "store_resolve V' AtStart c' = Ok ctx'" "ctx_actor ctx' = ctx_actor ctx"
  shows "db3 = db2 \<and> receipt' = receipt\<lparr>crc_replayed := True\<rparr>"
proof -
  from first have "execute_in J Q F S V c expected request fault db = Ok (receipt, db1)" by (simp add: execute_at_Ok)
  then obtain snap p intent batch new_facts where
    snap: "store_load J Q F db (scl_scope c) = Ok snap" and prep: "store_prepare J V c ctx snap request = Ok p"
    and batch: "decide_command J p (snp_revision snap) = Ok batch"
    and commit: "committed J Q c snap request intent batch new_facts receipt db db1"
    by (cases rule: execute_in_Ok) (use first(2) same(3) in auto)
  note prep = store_prepare_Ok [OF prep snap]
  have "ctb_prepared batch = p" by (rule decide_command_Ok [OF batch prep(2)])
  with prep(3) have actor: "as_str (ctx_actor (pre_context (ctb_prepared batch))) = as_str (ctx_actor ctx')"
    using same(5) by simp
  have kept: "extends (db_receipts db1) (db_receipts db2)"
    using store_steps_extend [OF between] by (simp add: history_extends_def)
  have find: "found = Some (intent, receipt, \<lparr>env_expected_revision = snp_revision snap, env_request = request\<rparr>)"
    if "load_receipt Q F' db2 (scl_scope c') (as_str (ctx_actor ctx')) (req_idempotency_key request') = Ok found" for found
    by (rule load_committed_receipt [OF Q commit kept,
        where F = F' and scope = "scl_scope c'" and actor = "as_str (ctx_actor ctx')"]) (use that same actor in simp_all)
  from again have "execute_in J Q F' S V' c' expected' request' fault' db2 = Ok (receipt', db3)"
    by (simp add: execute_at_Ok)
  then show ?thesis
  proof (cases rule: execute_in_Ok)
    case (replayed ctx1 snap1 p1 intent1 original envelope)
    from replayed(1) same(4) have "ctx1 = ctx'" by simp
    with find [of "Some (intent1, original, envelope)"] replayed show ?thesis by simp
  next
    case (fresh ctx1 snap1 p1 intent1 batch1 new_facts1)
    from fresh(1) same(4) have ctx1: "ctx1 = ctx'" by simp
    note prep1 = store_prepare_Ok [OF fresh(4,3)]
    have "ctb_prepared batch1 = p1" by (rule decide_command_Ok [OF fresh(7) prep1(2)])
    with fresh(9) prep1(3) ctx1 have "bt_get (db_receipts db2)
        (as_str (app_id (scl_scope c')), as_str (ctx_actor ctx'), req_idempotency_key request') = None"
      by (auto simp: committed_def Let_def)
    moreover have "bt_get (db_receipts db1)
        (as_str (app_id (scl_scope c)), as_str (ctx_actor ctx'), req_idempotency_key request) \<noteq> None"
      using commit actor by (auto simp: committed_def Let_def)
    ultimately show ?thesis using kept same(1,2) by (auto simp: extends_def)
  qed
qed


section \<open>A lost answer can be recovered\<close>

text \<open>Preparation succeeds again on other valid facts that still let the actor write the row.\<close>

lemma prepare_again:
  assumes "prepare_command J V credential scope channel now spec facts request = Ok p"
    and "facts_ok J spec facts'" and "crs_scope facts' = scope"
    and "find_record facts' (sm_table_id (pre_machine p)) (req_record_id request) = Some row"
    and "allows (pre_policy p) (pre_context p) row Write"
  shows "prepare_command J V credential scope channel now spec facts' request = Ok (p\<lparr>pre_facts := facts'\<rparr>)"
proof -
  have "is_ok (validate_records J (orp_definition policy) (crs_scope facts') (to_raw facts'))"
    if "policy_check spec rule = Ok policy" for rule policy
    using policy_check_Ok [OF that] assms(2) by (simp add: facts_ok_def)
  with assms(1,3,4,5) show ?thesis
    by (auto simp: prepare_command_def outcome_simps split: if_splits)
qed

lemma prepared_key_valid:
  "prepare_command J V credential scope channel now spec facts request = Ok p \<Longrightarrow>
     request_key_valid (req_idempotency_key request)"
  by (auto simp: prepare_command_def check_request_def outcome_simps split: if_splits)

text \<open>Everything a retry checks holds after the commit.\<close>

lemma commit_allows_retry:
  assumes J: "json_reads_back J" and Q: "receipts_read_back Q"
    and commit: "execute_at J Q F S V c expected request fault db = (Ok receipt, db1)" "\<not> crc_replayed receipt"
  obtains ctx snap1 p1 intent where
    "store_resolve V AtStart c = Ok ctx" "check_binding S ctx = Ok ()" "revalidate S V c ctx = Ok ()"
    "store_load J Q no_faults db1 (scl_scope c) = Ok snap1" "store_prepare J V c ctx snap1 request = Ok p1"
    "normalized_identity Q snap1 expected (pre_intent_bytes p1) = Ok intent"
    "load_receipt Q no_faults db1 (scl_scope c) (as_str (ctx_actor ctx)) (req_idempotency_key request)
       = Ok (Some (intent, receipt, \<lparr>env_expected_revision = expected, env_request = request\<rparr>))"
    "validate_receipt snap1 request expected receipt = Ok ()" "pre_request p1 = request"
proof -
  from commit have "execute_in J Q F S V c expected request fault db = Ok (receipt, db1)" by (simp add: execute_at_Ok)
  then obtain ctx snap p intent batch new_facts where
    ctx: "store_resolve V AtStart c = Ok ctx" "check_binding S ctx = Ok ()" "revalidate S V c ctx = Ok ()"
    and load: "store_load J Q F db (scl_scope c) = Ok snap" and prep: "store_prepare J V c ctx snap request = Ok p"
    and intent: "normalized_identity Q snap expected (pre_intent_bytes p) = Ok intent"
    and expected: "expected = snp_revision snap" and batch: "decide_command J p (snp_revision snap) = Ok batch"
    and facts: "validate_records J (snp_spec snap) (scl_scope c) (fold put_row (ctb_writes batch) (to_raw (snp_facts snap)))
      = Ok new_facts"
    and committed: "committed J Q c snap request intent batch new_facts receipt db db1"
    by (cases rule: execute_in_Ok) (use commit(2) in auto)
  note p = store_prepare_Ok [OF prep load]
  note snap = store_load_no_faults [OF load] and valid = store_load_valid [OF load]
  have new: "facts_ok J (snp_spec snap) new_facts" "crs_scope new_facts = scl_scope c"
    using facts by (auto intro: validate_records_facts_ok validate_records_scope)
  let ?snap1 = "snap\<lparr>snp_facts := new_facts, snp_revision := crc_revision receipt\<rparr>"
  from batch p(2) obtain row facts' where
    row: "find_record (pre_facts p) (sm_table_id (pre_machine p)) (req_record_id (pre_request p)) = Some row"
    and writes: "ctb_writes batch = [normalize_record (pre_spec p) (proposed_row p row)]"
    and allowed: "allows (pre_policy p) (pre_context p) (CheckedRecord (normalize_record (pre_spec p) (proposed_row p row))) Write"
    and of: "ctb_prepared batch = p"
    and rec: "ctb_receipt batch = \<lparr>trc_command_id = cmd_command_id (pre_command p),
           trc_record_id = req_record_id (pre_request p), trc_state = cmd_to_state (pre_command p)\<rparr>"
    by (rule decide_command_Ok)
  have key: "record_key (normalize_record (snp_spec snap) (proposed_row p row))
      = (sm_table_id (pre_machine p), req_record_id request)"
    using find_record_Some [OF row] p(4) by (simp add: record_key_def cr_defs)
  have mem: "record_key (normalize_record (snp_spec snap) (proposed_row p row)) \<in> record_key ` set (to_raw (snp_facts snap))"
    using find_record_Some [OF row] p(6) by (simp add: to_raw_def)
  have "find_record new_facts (sm_table_id (pre_machine p)) (req_record_id request)
      = Some (CheckedRecord (normalize_record (snp_spec snap) (proposed_row p row)))"
    using validate_put_row [OF valid(1) mem, of new_facts] facts writes p(5) valid(3) key by (simp add: normalize_idem)
  with prepare_again [OF p(1) new] allowed p(5)
  have "store_prepare J V c ctx ?snap1 request = Ok (p\<lparr>pre_facts := new_facts\<rparr>)"
    using p(3) by (simp add: store_prepare_def)
  moreover have "normalized_identity Q ?snap1 expected (pre_intent_bytes (p\<lparr>pre_facts := new_facts\<rparr>)) = Ok intent"
    using intent by (simp add: normalized_identity_def)
  moreover have "store_load J Q no_faults db1 (scl_scope c) = Ok ?snap1"
    by (rule load_after_commit [OF J snap new committed])
  moreover have "validate_receipt ?snap1 request expected receipt = Ok ()"
  proof -
    have "pre_command p \<in> set (app_commands (spec_def (snp_spec snap)))"
      using p(2,5) by (simp add: prepared_ok_def)
    moreover from committed have "receipt = \<lparr>crc_transition = ctb_receipt batch, crc_request_key = req_idempotency_key request,
            crc_replayed = False, crc_revision = crc_revision receipt, crc_expected_revision = expected,
            crc_spec_identity = snp_spec_identity snap\<rparr>"
      and "checked_add_u64 expected 1 = Some (crc_revision receipt)"
      by (simp_all add: committed_def Let_def expected checked_add_u64_one)
    ultimately show ?thesis
      using rec p(4,7) by (cases receipt) (auto simp: validate_receipt_def list_ex_iff)
  qed
  moreover have "load_receipt Q no_faults db1 (scl_scope c) (as_str (ctx_actor ctx)) (req_idempotency_key request)
       = Ok (Some (intent, receipt, \<lparr>env_expected_revision = expected, env_request = request\<rparr>))"
    using committed of p(3) Q
    by (auto simp: committed_def Let_def load_receipt_def db_run_def receipts_read_back_def expected)
  ultimately show ?thesis
    using that ctx p(4) by simp
qed

lemma retry_answers:
  assumes "json_reads_back J" and "receipts_read_back Q"
    and "execute_at J Q F S V c expected request fault db = (Ok receipt, db1)" and "\<not> crc_replayed receipt"
  shows "store_execute J Q no_faults S V c expected request db1 = (Ok (receipt\<lparr>crc_replayed := True\<rparr>), db1)
    \<and> store_receipt J Q no_faults S V c (req_idempotency_key request) db1 = Ok (Some (receipt\<lparr>crc_replayed := True\<rparr>))"
proof -
  from assms obtain ctx snap1 p1 intent where
    steps: "store_resolve V AtStart c = Ok ctx" "check_binding S ctx = Ok ()" "revalidate S V c ctx = Ok ()"
    "store_load J Q no_faults db1 (scl_scope c) = Ok snap1" "store_prepare J V c ctx snap1 request = Ok p1"
    "normalized_identity Q snap1 expected (pre_intent_bytes p1) = Ok intent"
    "load_receipt Q no_faults db1 (scl_scope c) (as_str (ctx_actor ctx)) (req_idempotency_key request)
       = Ok (Some (intent, receipt, \<lparr>env_expected_revision = expected, env_request = request\<rparr>))"
    "validate_receipt snap1 request expected receipt = Ok ()" "pre_request p1 = request"
    by (rule commit_allows_retry)
  from assms(3) have tenant: "tenant_id (scl_scope c) = str_tenant_id S" by (simp add: execute_at_Ok)
  have "execute_in J Q no_faults S V c expected request None db1 = Ok (receipt\<lparr>crc_replayed := True\<rparr>, db1)"
    using steps by (simp add: execute_in_def replay_receipt_def)
  moreover have "receipt_in J Q no_faults S V c ctx (req_idempotency_key request) db1
      = Ok (Some (receipt\<lparr>crc_replayed := True\<rparr>))"
    using steps by (simp add: receipt_in_def)
  moreover have "request_key_valid (req_idempotency_key request)"
    using prepared_key_valid store_prepare_Ok(1) [OF steps(5,4)] by blast
  ultimately show ?thesis
    using tenant steps(1,2)
    by (simp add: store_execute_def execute_at_Ok store_receipt_def store_check_scope_def db_run_def)
qed


text \<open>
  C35. Retrying is safe and useful. If a commit succeeded and its answer was lost, the same call again,
  under the same authority and with a working database, succeeds: it answers with the receipt of the
  commit, marked as a replay, and changes nothing; so does asking for the receipt by its key.
\<close>

theorem retry_returns_receipt:
  assumes "json_reads_back J" and "receipts_read_back Q"
    and "execute_at J Q F S V c expected request fault db = (Ok receipt, db1)" and "\<not> crc_replayed receipt"
  shows "store_execute J Q no_faults S V c expected request db1 = (Ok (receipt\<lparr>crc_replayed := True\<rparr>), db1)
    \<and> store_receipt J Q no_faults S V c (req_idempotency_key request) db1 = Ok (Some (receipt\<lparr>crc_replayed := True\<rparr>))"
  by (rule retry_answers [OF assms])

section \<open>Bootstrapping\<close>

lemma checked_records_eq:
  "to_raw a = to_raw b \<Longrightarrow> crs_scope a = crs_scope b \<Longrightarrow> a = (b :: checked_records)"
proof -
  have inj: "inj as_raw" by (rule injI) (metis checked_record.expand)
  assume "to_raw a = to_raw b" "crs_scope a = crs_scope b"
  with inj show "a = b" by (cases a; cases b) (simp add: to_raw_def inj_map_eq_map)
qed

lemma bootstrap_Ok:
  assumes "bootstrap J Q F S db spec facts = (Ok snap, db')"
  obtains checked spec_json facts_json where
    "tenant_id (crs_scope facts) = str_tenant_id S"
    "validate_records J spec (crs_scope facts) (to_raw facts) = Ok checked"
    "spec_encode J spec = Ok spec_json" "checked_records_encode J checked = Ok facts_json"
    "bootstrap_in J Q F spec (crs_scope facts) spec_json facts_json db = Ok (snap, db')"
  using assms
  by (auto simp: bootstrap_def store_check_scope_def outcome_simps transaction_Ok split: outcome.splits prod.splits)

text \<open>
  C36. Bootstrapping stores what it is given. A successful bootstrap answers with the validated facts, under
  the digest of the encoded definition, and a snapshot of the application reads the same; on a new
  application the definition is the given one and the revision is 1, on an existing one nothing changes.
  Repeating the call is safe: it succeeds with the same answer and changes nothing.
\<close>

theorem bootstrap_round_trip:
  assumes J: "json_reads_back J" and spec: "compile J (spec_def spec) = Ok spec"
    and boot: "bootstrap J Q F S db spec facts = (Ok snap, db')"
  shows "validate_records J spec (crs_scope facts) (to_raw facts) = Ok (snp_facts snap)
    \<and> (\<exists>bytes. spec_encode J spec = Ok bytes \<and> snp_spec_identity snap = spec_identity Q bytes)
    \<and> store_snapshot J Q no_faults S db' (crs_scope facts) = Ok snap
    \<and> (if bt_get (db_applications db) (as_str (spec_app_id spec)) = None
       then snp_spec snap = spec \<and> snp_revision snap = 1 else db' = db)
    \<and> bootstrap J Q no_faults S db' spec facts = (Ok snap, db')"
proof -
  from boot obtain checked spec_json facts_json where tenant: "tenant_id (crs_scope facts) = str_tenant_id S"
    and checked: "validate_records J spec (crs_scope facts) (to_raw facts) = Ok checked"
    and json: "spec_encode J spec = Ok spec_json" "checked_records_encode J checked = Ok facts_json"
    and body: "bootstrap_in J Q F spec (crs_scope facts) spec_json facts_json db = Ok (snap, db')"
    by (rule bootstrap_Ok)
  have app: "app_id (crs_scope facts) = spec_app_id spec" and scope: "crs_scope checked = crs_scope facts"
    using validate_records_facts_ok [OF checked] validate_records_scope [OF checked] by (simp_all add: facts_ok_iff)
  let ?app = "as_str (spec_app_id spec)" and ?id = "spec_identity Q spec_json"
  from body have load: "store_load J Q no_faults db' (crs_scope facts) = Ok snap"
    by (auto simp: bootstrap_in_def Let_def outcome_simps intro: store_load_no_faults split: option.splits)
  have row: "\<exists>row. bt_get (db_applications db') ?app = Some row \<and> apr_spec_identity row = ?id \<and> apr_facts_json row = facts_json"
    using body by (auto simp: bootstrap_in_def Let_def insert_application_def outcome_simps split: option.splits if_splits)
  have facts: "snp_facts snap = checked"
  proof -
    from load row app have readback: "decode_records J (snp_spec snap) (crs_scope facts) facts_json = Ok (snp_facts snap)"
      and "checked_records_encode J (snp_facts snap) = Ok facts_json" by (auto simp: store_load_Ok)
    then have "Ok (to_raw (snp_facts snap)) = (Ok (to_raw checked) :: (string, _) outcome)"
      using J json(2) by (metis checked_records_encode_def json_reads_back_def)
    moreover have "crs_scope (snp_facts snap) = crs_scope checked"
      using readback scope by (auto simp: decode_records_def and_then_Ok_iff dest: validate_records_scope)
    ultimately show ?thesis by (simp add: checked_records_eq)
  qed
  have kept: "if bt_get (db_applications db) ?app = None then snp_spec snap = spec \<and> snp_revision snap = 1 else db' = db"
  proof (cases "bt_get (db_applications db) ?app")
    case None
    with body have "bt_get (db_releases db') (?app, ?id) = Some spec_json"
      and "bt_get (db_applications db') ?app = Some \<lparr>apr_spec_identity = ?id, apr_revision = 1, apr_facts_json = facts_json\<rparr>"
      by (auto simp: bootstrap_in_def Let_def insert_application_def outcome_simps)
    with load app have "spec_decode J spec_json = Ok (snp_spec snap)" "u64_of_i64 1 = Some (snp_revision snap)"
      by (auto simp: store_load_Ok)
    moreover have "spec_decode J spec_json = Ok spec"
      using J json(1) spec
      by (auto simp: spec_decode_def spec_encode_def bounded_decode_def json_reads_back_def bounded_encode_Ok_iff)
    ultimately show ?thesis using None by (simp add: u64_of_i64_def)
  next
    case (Some row)
    with body show ?thesis
      by (auto simp: bootstrap_in_def Let_def outcome_simps split: if_splits)
  qed
  have "snp_spec_identity snap = ?id" using load row app by (auto simp: store_load_Ok)
  moreover have "bootstrap_in J Q no_faults spec (crs_scope facts) spec_json facts_json db' = Ok (snap, db')"
    using row load by (auto simp: bootstrap_in_def Let_def db_run_def)
  ultimately show ?thesis
    using checked facts json kept load tenant
    by (simp add: store_snapshot_def store_check_scope_def db_run_def bootstrap_def transaction_Ok)
qed


section \<open>Witnesses\<close>

text \<open>A JSON library that writes and reads the documents of one application, and a host bound to its store.\<close>

definition resolved_rows :: "raw_record list" where
  "resolved_rows = map (\<lambda>row. if rec_id row = Ident ''rec_request_1''
     then row\<lparr>rec_values := bt_insert (Ident ''fld_request_state'') (Text ''resolved'')
       (bt_insert (Ident ''fld_request_note'') (Text ''done'') (rec_values row))\<rparr> else row) (to_raw support_facts)"

definition too_deep :: string where
  "too_deep = replicate 99 (CHR 0x5B)"

definition store_serde :: serde where
  "store_serde = plain_serde\<lparr>
     ser_spec := (\<lambda>d. if d = spec_def support_spec then [''{}''] else [too_deep]),
     de_spec := (\<lambda>bytes. if bytes = ''{}'' then Ok (spec_def support_spec) else Err ''syntax''),
     ser_records := (\<lambda>rows. if rows = to_raw support_facts then [''[]'']
       else if rows = resolved_rows then [''[1]''] else [too_deep]),
     de_records := (\<lambda>bytes. if bytes = ''[]'' then Ok (to_raw support_facts)
       else if bytes = ''[1]'' then Ok resolved_rows else Err ''syntax'')\<rparr>"

definition resolved_receipt :: commit_receipt where
  "resolved_receipt = \<lparr>crc_transition = \<lparr>trc_command_id = Ident ''cmd_resolve_request'',
       trc_record_id = Ident ''rec_request_1'', trc_state = ''resolved''\<rparr>, crc_request_key = ''key_1'',
     crc_replayed = False, crc_revision = 2, crc_expected_revision = 1, crc_spec_identity = ''sha256:00''\<rparr>"

definition support_envelope :: request_envelope where
  "support_envelope = \<lparr>env_expected_revision = 1, env_request = support_request\<rparr>"

definition store_documents :: store_json where
  "store_documents = \<lparr>sha256_hex = (\<lambda>_. ''00''),
     to_receipt = (\<lambda>r. if r = resolved_receipt then Some ''receipt'' else None),
     of_receipt = (\<lambda>b. if b = ''receipt'' then Some resolved_receipt else None),
     to_envelope = (\<lambda>e. if e = support_envelope then Some ''envelope'' else None),
     of_envelope = (\<lambda>b. if b = ''envelope'' then Some support_envelope else None),
     to_audit = (\<lambda>_. Some ''audit''), to_event = (\<lambda>_. Some ''event''),
     parse_intent = Some, to_identity = (\<lambda>_ _ intent. Some intent)\<rparr>"

definition support_store :: evo_store where
  "support_store = \<lparr>str_tenant_id = ''tenant_a'', str_binding_id = ''store:tenant_a''\<rparr>"

definition support_authority :: session_verifier where
  "support_authority = (let membership = (\<lambda>who where. Ok (fixture_membership support_scope ''actor_alice''));
       binding = (\<lambda>where. Ok ((fixture_binding support_scope)\<lparr>bnd_binding_id := ''store:tenant_a''\<rparr>)) in
     support_host\<lparr>current_membership := membership, registry_binding := binding,
       access_snapshot := default_access_snapshot (verify_session support_host) membership binding\<rparr>)"

definition support_caller :: store_caller where
  "support_caller = \<lparr>scl_credential = ''secret'', scl_scope = support_scope, scl_channel = NativeBearer, scl_now = 1\<rparr>"

abbreviation support_bootstrap :: "(store_error, snapshot) outcome \<times> store_db" where
  "support_bootstrap \<equiv> bootstrap store_serde store_documents no_faults support_store empty_db support_spec support_facts"

abbreviation support_execute :: "store_db \<Rightarrow> (store_error, commit_receipt) outcome \<times> store_db" where
  "support_execute db \<equiv> execute_at store_serde store_documents no_faults support_store (\<lambda>_. support_authority)
     support_caller 1 support_request None db"


definition support_db :: store_db where
  "support_db = empty_db\<lparr>db_releases := bt_insert (''app_support'', ''sha256:00'') ''{}'' bt_empty,
     db_applications := bt_insert ''app_support''
       \<lparr>apr_spec_identity = ''sha256:00'', apr_revision = 1, apr_facts_json = ''[]''\<rparr> bt_empty\<rparr>"

abbreviation support_moments :: "moment \<Rightarrow> session_verifier" where
  "support_moments \<equiv> (\<lambda>_. support_authority)"

lemma store_serde_reads_back: "json_reads_back store_serde"
proof -
  have "preflight too_deep \<noteq> Ok ()" by code_simp
  then show ?thesis
    by (auto simp: json_reads_back_def bounded_encode_Ok_iff store_serde_def)
qed

lemma store_documents_read_back: "receipts_read_back store_documents"
  by (auto simp: receipts_read_back_def store_documents_def split: if_splits)

text \<open>The store's examples, evaluated together, so that the definitions are prepared for evaluation once.\<close>

lemma support_store_evaluated:
  "is_ok (store_load store_serde store_documents no_faults support_db support_scope)
   \<and> fst (support_execute support_db) = Ok resolved_receipt
   \<and> is_ok (fst support_bootstrap)
   \<and> compile store_serde (spec_def support_spec) = Ok support_spec"
  by code_simp

lemmas support_db_loads = support_store_evaluated [THEN conjunct1]
  and support_commit = support_store_evaluated [THEN conjunct2, THEN conjunct1]
  and support_bootstraps = support_store_evaluated [THEN conjunct2, THEN conjunct2, THEN conjunct1]
  and support_recompiles = support_store_evaluated [THEN conjunct2, THEN conjunct2, THEN conjunct2]

lemma support_committed:
  obtains db' where "support_execute support_db = (Ok resolved_receipt, db')"
    and "store_step store_serde store_documents support_store support_db db'"
proof -
  obtain db' where "support_execute support_db = (Ok resolved_receipt, db')"
    using support_commit by (cases "support_execute support_db") simp
  with that execute_step [OF this] show ?thesis by blast
qed

lemma resolved_fresh: "\<not> crc_replayed resolved_receipt"
  by (simp add: resolved_receipt_def)

theorem store_execute_atomic_witness:
  "\<exists>db' snap batch new_facts intent. support_execute support_db = (Ok resolved_receipt, db')
     \<and> store_load store_serde store_documents no_faults support_db support_scope = Ok snap
     \<and> committed store_serde store_documents support_caller snap support_request intent batch new_facts
         resolved_receipt support_db db'"
proof -
  obtain db' where db': "support_execute support_db = (Ok resolved_receipt, db')" by (rule support_committed)
  have "scl_scope support_caller = support_scope" by (simp add: support_caller_def)
  with store_execute_atomic [OF db'] db' resolved_fresh show ?thesis by metis
qed

theorem store_history_append_only_witness:
  "\<exists>db'. support_execute support_db = (Ok resolved_receipt, db')
     \<and> bt_get (db_releases db') (''app_support'', ''sha256:00'') = Some ''{}''"
proof -
  obtain db' where db': "support_execute support_db = (Ok resolved_receipt, db')"
    and step: "store_step store_serde store_documents support_store support_db db'" by (rule support_committed)
  have "bt_get (db_releases support_db) (''app_support'', ''sha256:00'') = Some ''{}''" by (simp add: support_db_def)
  with store_history_append_only [OF r_into_rtranclp [of "store_step _ _ _", OF step]] db' show ?thesis by blast
qed

theorem store_refines_workflow_witness:
  "\<exists>db' snap snap' n. support_execute support_db = (Ok resolved_receipt, db')
     \<and> store_load store_serde store_documents no_faults support_db support_scope = Ok snap
     \<and> store_load store_serde store_documents no_faults db' support_scope = Ok snap'
     \<and> (command_step store_serde (snp_spec snap) ^^ n) (snp_facts snap) (snp_facts snap')"
proof -
  obtain db' where db': "support_execute support_db = (Ok resolved_receipt, db')"
    and step: "store_step store_serde store_documents support_store support_db db'" by (rule support_committed)
  obtain snap where load: "store_load store_serde store_documents no_faults support_db support_scope = Ok snap"
    using support_db_loads by (auto simp: is_ok_iff)
  have "tenant_id support_scope = str_tenant_id support_store" by (simp add: support_scope_def support_store_def)
  from store_refines_workflow [OF store_serde_reads_back r_into_rtranclp [of "store_step _ _ _", OF step] this load]
    db' load show ?thesis by blast
qed

theorem command_applied_once_witness:
  "\<exists>db'. support_execute support_db = (Ok resolved_receipt, db')
     \<and> (\<forall>receipt db''. support_execute db' = (Ok receipt, db'') \<longrightarrow> db'' = db')
     \<and> support_execute db' = (Ok (resolved_receipt\<lparr>crc_replayed := True\<rparr>), db')"
proof -
  obtain db' where db': "support_execute support_db = (Ok resolved_receipt, db')" by (rule support_committed)
  from retry_answers [OF store_serde_reads_back store_documents_read_back db' resolved_fresh]
  have again: "support_execute db' = (Ok (resolved_receipt\<lparr>crc_replayed := True\<rparr>), db')"
    by (simp add: store_execute_def)
  have "is_ok (store_resolve support_moments AtStart support_caller)" by code_simp
  then obtain ctx where "store_resolve support_moments AtStart support_caller = Ok ctx" by (auto simp: is_ok_iff)
  then have "db'' = db'" if "support_execute db' = (Ok receipt, db'')" for receipt db''
    using command_applied_once [OF store_documents_read_back db' resolved_fresh rtranclp.rtrancl_refl that] by simp
  with db' again show ?thesis by blast
qed

theorem retry_returns_receipt_witness:
  "\<exists>db'. support_execute support_db = (Ok resolved_receipt, db')
     \<and> store_receipt store_serde store_documents no_faults support_store support_moments support_caller ''key_1'' db'
       = Ok (Some (resolved_receipt\<lparr>crc_replayed := True\<rparr>))"
proof -
  obtain db' where db': "support_execute support_db = (Ok resolved_receipt, db')" by (rule support_committed)
  have "req_idempotency_key support_request = ''key_1''" by (simp add: support_request_def)
  with db' retry_returns_receipt [OF store_serde_reads_back store_documents_read_back db' resolved_fresh]
  show ?thesis by auto
qed

theorem bootstrap_round_trip_witness:
  "\<exists>snap db'. support_bootstrap = (Ok snap, db') \<and> snp_spec snap = support_spec \<and> snp_revision snap = 1
     \<and> store_snapshot store_serde store_documents no_faults support_store db' support_scope = Ok snap"
proof -
  obtain snap db' where boot: "support_bootstrap = (Ok snap, db')"
    using support_bootstraps by (cases support_bootstrap) (auto simp: is_ok_iff)
  note compiles = support_recompiles
  have "bt_get (db_applications empty_db) (as_str (spec_app_id support_spec)) = None"
    "crs_scope support_facts = support_scope" by (simp_all add: empty_db_def support_facts_def)
  with bootstrap_round_trip [OF store_serde_reads_back compiles boot] boot show ?thesis by auto
qed

end
