(* ===== verification/Access.thy ===== *)
theory Access
  imports Authority
begin

text \<open>
  The access facts of a pilot host (\<open>apps/evobase-host/src/access.rs\<close>): operator-issued credentials read
  anew for every resolution, and the \<open>SessionVerifier\<close> built on them. What a host must provide for the
  core to be total is the locale \<open>total_host\<close>, interpreted on that verifier.
\<close>

section \<open>Digests in hexadecimal\<close>

definition lower_hex :: "char \<Rightarrow> bool" where
  "lower_hex c \<longleftrightarrow> is_ascii_digit c \<or> (CHR ''a'' \<le> c \<and> c \<le> CHR ''f'')"

text \<open>\<open>u8::from_str_radix(_, 16)\<close> on two characters: an optional sign, then digits of either case.\<close>

definition hex_value :: "char \<Rightarrow> nat option" where
  "hex_value c = (if is_ascii_digit c then Some (of_char c - 48)
     else if CHR ''a'' \<le> c \<and> c \<le> CHR ''f'' then Some (of_char c - 87)
     else if CHR ''A'' \<le> c \<and> c \<le> CHR ''F'' then Some (of_char c - 55) else None)"

definition hex_byte :: "string \<Rightarrow> char option" where
  "hex_byte s = (case s of
       [c, d] \<Rightarrow>
         (case hex_value d of
            None \<Rightarrow> None
          | Some l \<Rightarrow> if c = CHR ''+'' then Some (char_of l)
                     else map_option (\<lambda>h. char_of (16 * h + l)) (hex_value c))
     | _ \<Rightarrow> None)"

definition hex_digest :: "string \<Rightarrow> (authority_error, string) outcome" where
  "hex_digest v =
     (if length v \<noteq> 64 \<or> \<not> list_all lower_hex v then Err InvalidIdentity
      else map_m (\<lambda>i. ok_or InvalidIdentity (hex_byte (take 2 (drop (i * 2) v)))) [0..<32])"

section \<open>Access facts\<close>

datatype pilot_grant = PilotDesign | PilotPublish | PilotManage | PilotRead | PilotWrite | PilotSubmit

fun grant_of :: "pilot_grant \<Rightarrow> grant" where
  "grant_of PilotDesign = Design"
| "grant_of PilotPublish = Publish"
| "grant_of PilotManage = Manage"
| "grant_of PilotRead = Read"
| "grant_of PilotWrite = Write"
| "grant_of PilotSubmit = Submit"

record pilot_access =
  pac_token_sha256 :: string
  pac_actor_id :: string
  pac_expires_at :: u64
  pac_revoked :: bool
  pac_active :: bool
  pac_membership_revision :: u64
  pac_roles :: "string list"
  pac_grants :: "pilot_grant list"

definition validate_access :: "pilot_access \<Rightarrow> (authority_error, unit) outcome" where
  "validate_access a =
     and_then (hex_digest (pac_token_sha256 a)) (\<lambda>_.
     and_then (actor_id_new (pac_actor_id a)) (\<lambda>_.
     if length (pac_roles a) > 64 \<or> length (pac_grants a) > 6 \<or> pac_expires_at a = 0 then Err InvalidIdentity
     else for_each (\<lambda>role. and_then (role_id_new role) (\<lambda>_. Ok ())) (pac_roles a)))"

text \<open>
  What the host reads at one instant. A file cannot be opened or read, or has a content; the lock around
  facts in memory is poisoned, or holds them. \<open>serde_json\<close>'s reader, \<open>sha2\<close> and the clock, which is
  before the epoch or counts seconds, are parameters.
\<close>

definition MAX_ACCESS_BYTES :: nat where
  "MAX_ACCESS_BYTES = 16384"

record access_env =
  env_of_access :: "string \<Rightarrow> pilot_access option"
  env_sha256 :: "string \<Rightarrow> string"
  env_clock :: "u64 option"

datatype access_source = FileSource "string option" | MemorySource "pilot_access option"

fun read_source :: "access_env \<Rightarrow> access_source \<Rightarrow> (authority_error, pilot_access) outcome" where
  "read_source E (MemorySource facts) = ok_or BindingUnavailable facts"
| "read_source E (FileSource file) =
     and_then (ok_or BindingUnavailable file) (\<lambda>content.
     let bytes = take (MAX_ACCESS_BYTES + 1) content in
     if length bytes > MAX_ACCESS_BYTES then Err BindingUnavailable
     else ok_or BindingUnavailable (env_of_access E bytes))"

definition source_current :: "access_env \<Rightarrow> access_source \<Rightarrow> (authority_error, pilot_access) outcome" where
  "source_current E source =
     and_then (read_source E source) (\<lambda>access. and_then (validate_access access) (\<lambda>_. Ok access))"

section \<open>The verifier\<close>

record pilot_verifier =
  pv_source :: access_source
  pv_scope :: scope
  pv_binding_id :: string
  pv_origins :: "string btree_set"

definition origin_well_formed :: "string \<Rightarrow> bool" where
  "origin_well_formed o' \<longleftrightarrow>
     \<not> (length o' > 256 \<or> \<not> (starts_with o' ''http://'' \<or> starts_with o' ''https://'')
        \<or> list_ex (\<lambda>c. c = CHR 0x0D \<or> c = CHR 0x0A \<or> c = CHR ''*'') o')"

definition pilot_new ::
  "access_env \<Rightarrow> access_source \<Rightarrow> scope \<Rightarrow> string \<Rightarrow> string btree_set \<Rightarrow> (authority_error, pilot_verifier) outcome" where
  "pilot_new E source scope binding_id origins =
     and_then (source_current E source) (\<lambda>_.
     if binding_id = [] \<or> length binding_id > 96 \<or> bt_len origins > 8
        \<or> list_ex (\<lambda>o'. \<not> origin_well_formed o') (bs_list origins)
     then Err BindingUnavailable
     else Ok \<lparr>pv_source = source, pv_scope = scope, pv_binding_id = binding_id, pv_origins = origins\<rparr>)"

definition allows_origin :: "pilot_verifier \<Rightarrow> string \<Rightarrow> bool" where
  "allows_origin v o' \<longleftrightarrow> bs_contains (pv_origins v) o'"

definition snapshot_for_operation :: "access_env \<Rightarrow> pilot_verifier \<Rightarrow> (authority_error, pilot_verifier) outcome" where
  "snapshot_for_operation E v =
     and_then (source_current E (pv_source v)) (\<lambda>access. Ok (v\<lparr>pv_source := MemorySource (Some access)\<rparr>))"

definition session_from :: "access_env \<Rightarrow> pilot_access \<Rightarrow> string \<Rightarrow> (authority_error, session_facts) outcome" where
  "session_from E current credential =
     (if length credential \<noteq> 64 \<or> \<not> list_all lower_hex credential then Err Unverified
      else and_then (hex_digest (pac_token_sha256 current)) (\<lambda>expected.
        if env_sha256 E credential \<noteq> expected then Err Unverified
        else and_then (actor_id_new (pac_actor_id current)) (\<lambda>actor.
          Ok \<lparr>ses_actor = actor, ses_expires_at = pac_expires_at current, ses_revoked = pac_revoked current\<rparr>)))"

definition membership_from :: "pilot_access \<Rightarrow> scope \<Rightarrow> (authority_error, membership_facts) outcome" where
  "membership_from current scope =
     and_then (actor_id_new (pac_actor_id current)) (\<lambda>actor.
     and_then (map_m role_id_new (pac_roles current)) (\<lambda>roles.
     Ok \<lparr>mem_actor = actor, mem_scope = scope, mem_active = pac_active current,
         mem_revision = pac_membership_revision current,
         mem_grants = bs_of_list (map grant_of (pac_grants current)), mem_roles = bs_of_list roles\<rparr>))"

definition pilot_time :: "access_env \<Rightarrow> u64 \<Rightarrow> u64" where
  "pilot_time E fallback_now = (case env_clock E of Some seconds \<Rightarrow> seconds | None \<Rightarrow> - 1)"

definition pilot_verify_session ::
  "access_env \<Rightarrow> pilot_verifier \<Rightarrow> string \<Rightarrow> (authority_error, session_facts) outcome" where
  "pilot_verify_session E v credential =
     and_then (source_current E (pv_source v)) (\<lambda>current. session_from E current credential)"

definition pilot_current_membership ::
  "access_env \<Rightarrow> pilot_verifier \<Rightarrow> actor_id \<Rightarrow> scope \<Rightarrow> (authority_error, membership_facts) outcome" where
  "pilot_current_membership E v actor scope =
     (if scope \<noteq> pv_scope v then Err WrongScope
      else and_then (source_current E (pv_source v)) (\<lambda>current.
        and_then (actor_id_new (pac_actor_id current)) (\<lambda>canonical.
        if actor \<noteq> canonical \<or> pac_revoked current then Err Revoked else membership_from current (pv_scope v))))"

definition pilot_registry_binding :: "pilot_verifier \<Rightarrow> scope \<Rightarrow> (authority_error, binding_facts) outcome" where
  "pilot_registry_binding v scope =
     (if scope \<noteq> pv_scope v then Err WrongScope
      else Ok \<lparr>bnd_scope = pv_scope v, bnd_binding_id = pv_binding_id v,
               bnd_allowed_mutation_origins = pv_origins v\<rparr>)"

definition pilot_access_snapshot ::
  "access_env \<Rightarrow> pilot_verifier \<Rightarrow> string \<Rightarrow> scope \<Rightarrow>
     (authority_error, session_facts \<times> membership_facts \<times> binding_facts) outcome" where
  "pilot_access_snapshot E v credential scope =
     and_then (source_current E (pv_source v)) (\<lambda>current.
     and_then (session_from E current credential) (\<lambda>session.
     if scope \<noteq> pv_scope v then Err WrongScope
     else and_then (membership_from current (pv_scope v)) (\<lambda>membership.
       and_then (pilot_registry_binding v scope) (\<lambda>binding. Ok (session, membership, binding)))))"

definition pilot_host :: "access_env \<Rightarrow> pilot_verifier \<Rightarrow> session_verifier" where
  "pilot_host E v = \<lparr>current_time = pilot_time E, verify_session = pilot_verify_session E v,
     current_membership = pilot_current_membership E v, registry_binding = pilot_registry_binding v,
     access_snapshot = pilot_access_snapshot E v\<rparr>"

section \<open>Reading digests\<close>

definition hex_char :: "nat \<Rightarrow> char" where
  "hex_char n = (if n < 10 then char_of (48 + n) else char_of (87 + n))"

definition hex_encode :: "string \<Rightarrow> string" where
  "hex_encode bytes = concat (map (\<lambda>b. [hex_char (of_char b div 16), hex_char (of_char b mod 16)]) bytes)"

lemma hex_char_lower: "n < 16 \<Longrightarrow> lower_hex (hex_char n)"
  by (simp add: lower_hex_def hex_char_def is_ascii_digit_def less_eq_char_def)
lemma hex_value_char: "n < 16 \<Longrightarrow> hex_value (hex_char n) = Some n"
  by (simp add: hex_value_def hex_char_def is_ascii_digit_def less_eq_char_def)
lemma lower_hex_value: "lower_hex c \<Longrightarrow> \<exists>n<16. hex_value c = Some n \<and> c = hex_char n"
proof -
  assume "lower_hex c"
  then have "(48 \<le> (of_char c :: nat) \<and> of_char c \<le> (57::nat)) \<or> (97 \<le> (of_char c :: nat) \<and> of_char c \<le> (102 :: nat))"
    by (auto simp: lower_hex_def is_ascii_digit_def less_eq_char_def)
  then obtain n where "n < 16" and c: "c = hex_char n"
  proof
    assume a: "48 \<le> (of_char c :: nat) \<and> of_char c \<le> (57::nat)"
    show ?thesis by (rule that [of "of_char c - 48"]) (use a in \<open>auto simp: hex_char_def\<close>)
  next
    assume a: "97 \<le> (of_char c :: nat) \<and> of_char c \<le> (102 :: nat)"
    show ?thesis by (rule that [of "of_char c - 87"]) (use a in \<open>auto simp: hex_char_def\<close>)
  qed
  with hex_value_char show ?thesis by blast
qed

lemma hex_char_not_plus [simp]: "n < 16 \<Longrightarrow> hex_char n \<noteq> CHR ''+''"
  using hex_char_lower [of n] by (auto simp: lower_hex_def is_ascii_digit_def less_eq_char_def)

lemma of_char_bound: "(of_char c :: nat) < 256"
  by (simp add: of_char_def)

lemma hex_byte_chars: "hex_byte [hex_char (of_char c div 16), hex_char (of_char c mod 16)] = Some c"
  using of_char_bound [of c] by (simp add: hex_byte_def hex_value_char less_mult_imp_div_less)

lemma length_hex_encode [simp]: "length (hex_encode bytes) = 2 * length bytes"
  by (induction bytes) (simp_all add: hex_encode_def)

lemma hex_encode_lower: "list_all lower_hex (hex_encode bytes)"
  using of_char_bound
  by (induction bytes) (simp_all add: hex_encode_def hex_char_lower less_mult_imp_div_less)

lemma hex_encode_nth:
  "i < length bytes \<Longrightarrow> take 2 (drop (i * 2) (hex_encode bytes))
     = [hex_char (of_char (bytes ! i) div 16), hex_char (of_char (bytes ! i) mod 16)]"
proof (induction bytes arbitrary: i)
  case (Cons b bytes)
  have "hex_encode (b # bytes) = [hex_char (of_char b div 16), hex_char (of_char b mod 16)] @ hex_encode bytes"
    by (simp add: hex_encode_def)
  with Cons show ?case by (cases i) simp_all
qed simp

lemma hex_encode_surj:
  "length s = 2 * n \<Longrightarrow> list_all lower_hex s \<Longrightarrow> \<exists>bytes. length bytes = n \<and> s = hex_encode bytes"
proof (induction n arbitrary: s)
  case (Suc n)
  then obtain c d r where s: "s = c # d # r" by (cases s; cases "tl s") auto
  with Suc.prems obtain h l where digits: "h < 16" "c = hex_char h" "l < 16" "d = hex_char l"
    using lower_hex_value [of c] lower_hex_value [of d] by auto
  from Suc.IH [of r] Suc.prems s obtain bytes where r: "length bytes = n" "r = hex_encode bytes" by auto
  have "(of_char (char_of (16 * h + l) :: char) :: nat) = 16 * h + l" using digits by simp
  then have "s = hex_encode (char_of (16 * h + l) # bytes)"
    using digits r by (simp add: s hex_encode_def)
  with r(1) show ?case by (intro exI [of _ "char_of (16 * h + l) # bytes"]) simp
qed (simp add: hex_encode_def)

lemma hex_digest_encode: "length bytes = 32 \<Longrightarrow> hex_digest (hex_encode bytes) = Ok bytes"
  using hex_encode_lower [of bytes]
  by (simp add: hex_digest_def map_m_Ok_iff list_all2_conv_all_nth hex_encode_nth hex_byte_chars)

lemma hex_digest_Ok_iff: "hex_digest s = Ok bytes \<longleftrightarrow> length bytes = 32 \<and> s = hex_encode bytes"
proof
  assume ok: "hex_digest s = Ok bytes"
  then have "length s = 2 * 32" "list_all lower_hex s" by (simp_all add: hex_digest_def split: if_splits)
  then obtain bytes' where "length bytes' = 32" "s = hex_encode bytes'" using hex_encode_surj by blast
  with ok hex_digest_encode [of bytes'] show "length bytes = 32 \<and> s = hex_encode bytes" by simp
qed (use hex_digest_encode in blast)


text \<open>
  A token digest is read exactly: what is accepted are the 64 lower-case hexadecimal digits of some 32
  bytes, and those bytes are the result.
\<close>

theorem hex_digest_exact: "hex_digest s = Ok bytes \<longleftrightarrow> length bytes = 32 \<and> s = hex_encode bytes"
  by (rule hex_digest_Ok_iff)

section \<open>What the core needs of a host\<close>

locale total_host =
  fixes V :: session_verifier
  assumes snapshot_total: "access_snapshot V credential scope \<noteq> Panic"
begin

lemma resolve_total: "resolve V credential scope channel now grant \<noteq> Panic"
  using snapshot_total by (auto simp: resolve_def Let_def and_then_Panic_iff split: prod.splits)

end

lemma hex_digest_not_Panic [simp]: "hex_digest s \<noteq> Panic"
  by (auto simp: hex_digest_def intro!: map_m_not_Panic)

lemma identity_not_Panic [simp]: "actor_id_new s \<noteq> Panic" "role_id_new s \<noteq> Panic"
  by (simp_all add: actor_id_new_def role_id_new_def and_then_Panic_iff)

lemma validate_access_not_Panic [simp]: "validate_access a \<noteq> Panic"
  by (auto simp: validate_access_def and_then_Panic_iff intro!: for_each_not_Panic)

lemma source_current_not_Panic [simp]: "source_current E source \<noteq> Panic"
  by (cases source) (auto simp: source_current_def Let_def and_then_Panic_iff)

lemma session_from_not_Panic [simp]: "session_from E current credential \<noteq> Panic"
  by (auto simp: session_from_def and_then_Panic_iff)

lemma membership_from_not_Panic [simp]: "membership_from current scope \<noteq> Panic"
  by (auto simp: membership_from_def and_then_Panic_iff intro!: map_m_not_Panic)

lemma pilot_snapshot_not_Panic: "access_snapshot (pilot_host E v) credential scope \<noteq> Panic"
  by (auto simp: pilot_host_def pilot_access_snapshot_def pilot_registry_binding_def and_then_Panic_iff)

interpretation pilot: total_host "pilot_host E v" for E v
  by unfold_locales (rule pilot_snapshot_not_Panic)

interpretation fixture: total_host "fixture_host scope actor" for scope actor
  by unfold_locales (auto simp: fixture_host_def default_access_snapshot_def Let_def and_then_Panic_iff)

section \<open>Who a pilot host lets in\<close>

lemma source_current_valid:
  assumes "source_current E source = Ok current"
  shows "\<exists>digest. hex_digest (pac_token_sha256 current) = Ok digest"
    and "actor_id_new (pac_actor_id current) = Ok (Ident (pac_actor_id current))"
    and "map_m role_id_new (pac_roles current) = Ok (map Ident (pac_roles current))"
proof -
  from assms have valid: "validate_access current = Ok ()" by (auto simp: source_current_def and_then_Ok_iff)
  then show "\<exists>digest. hex_digest (pac_token_sha256 current) = Ok digest"
    and "actor_id_new (pac_actor_id current) = Ok (Ident (pac_actor_id current))"
    by (auto simp: validate_access_def and_then_Ok_iff actor_id_new_Ok_iff)
  from valid have "\<forall>role\<in>set (pac_roles current). role_id_new role = Ok (Ident role)"
    by (auto simp: validate_access_def outcome_simps role_id_new_def split: if_splits)
  then show "map_m role_id_new (pac_roles current) = Ok (map Ident (pac_roles current))"
    by (intro map_m_Ok_map) simp
qed

lemma session_from_Ok:
  assumes "source_current E source = Ok current"
  shows "session_from E current credential = Ok session \<longleftrightarrow>
     length credential = 64 \<and> list_all lower_hex credential
     \<and> hex_digest (pac_token_sha256 current) = Ok (env_sha256 E credential)
     \<and> session = \<lparr>ses_actor = Ident (pac_actor_id current), ses_expires_at = pac_expires_at current,
          ses_revoked = pac_revoked current\<rparr>"
  using source_current_valid [OF assms] by (auto simp: session_from_def split: if_splits)

lemma pilot_snapshot_Ok:
  "access_snapshot (pilot_host E v) credential scope = Ok x \<longleftrightarrow>
     (\<exists>current. source_current E (pv_source v) = Ok current
        \<and> length credential = 64 \<and> list_all lower_hex credential
        \<and> length (env_sha256 E credential) = 32 \<and> pac_token_sha256 current = hex_encode (env_sha256 E credential)
        \<and> scope = pv_scope v
        \<and> x = (\<lparr>ses_actor = Ident (pac_actor_id current), ses_expires_at = pac_expires_at current,
                ses_revoked = pac_revoked current\<rparr>,
               \<lparr>mem_actor = Ident (pac_actor_id current), mem_scope = scope, mem_active = pac_active current,
                mem_revision = pac_membership_revision current,
                mem_grants = bs_of_list (map grant_of (pac_grants current)),
                mem_roles = bs_of_list (map Ident (pac_roles current))\<rparr>,
               \<lparr>bnd_scope = scope, bnd_binding_id = pv_binding_id v, bnd_allowed_mutation_origins = pv_origins v\<rparr>))"
proof (cases "source_current E (pv_source v)")
  case (Ok current)
  note valid = source_current_valid [OF Ok]
  have member: "membership_from current sc = Ok \<lparr>mem_actor = Ident (pac_actor_id current), mem_scope = sc,
      mem_active = pac_active current, mem_revision = pac_membership_revision current,
      mem_grants = bs_of_list (map grant_of (pac_grants current)),
      mem_roles = bs_of_list (map Ident (pac_roles current))\<rparr>" for sc
    using valid(2,3) by (simp add: membership_from_def)
  have "access_snapshot (pilot_host E v) credential scope = Ok x \<longleftrightarrow>
      (\<exists>session. session_from E current credential = Ok session \<and> scope = pv_scope v
         \<and> (\<exists>membership. membership_from current scope = Ok membership
         \<and> x = (session, membership, \<lparr>bnd_scope = scope, bnd_binding_id = pv_binding_id v,
                  bnd_allowed_mutation_origins = pv_origins v\<rparr>)))"
    by (auto simp: pilot_host_def pilot_access_snapshot_def pilot_registry_binding_def Ok and_then_Ok_iff)
  with Ok show ?thesis
    by (auto simp: session_from_Ok [OF Ok] hex_digest_Ok_iff member)
qed (auto simp: pilot_host_def pilot_access_snapshot_def)

lemma pilot_clock: "current_time (pilot_host E v) = pilot_time E"
  by (simp add: pilot_host_def)

lemma pilot_time_less:
  "pilot_time E now < t \<longleftrightarrow> (case env_clock E of None \<Rightarrow> False | Some seconds \<Rightarrow> seconds < t)"
proof (cases "env_clock E")
  case None
  have "\<not> (- 1 :: u64) < t" by (simp add: not_less)
  with None show ?thesis by (simp add: pilot_time_def)
qed (simp add: pilot_time_def)

lemma pilot_resolve_Ok:
  "resolve (pilot_host E v) credential scope channel now grant = Ok ctx \<longleftrightarrow>
     (\<exists>current. source_current E (pv_source v) = Ok current
        \<and> length credential = 64 \<and> list_all lower_hex credential
        \<and> length (env_sha256 E credential) = 32 \<and> pac_token_sha256 current = hex_encode (env_sha256 E credential)
        \<and> \<not> pac_revoked current
        \<and> (case env_clock E of None \<Rightarrow> False | Some seconds \<Rightarrow> seconds < pac_expires_at current)
        \<and> pac_active current \<and> pac_membership_revision current \<noteq> 0
        \<and> grant \<in> grant_of ` set (pac_grants current)
        \<and> scope = pv_scope v \<and> pv_binding_id v \<noteq> [] \<and> length (pv_binding_id v) \<le> 96
        \<and> (case channel of NativeBearer \<Rightarrow> True
           | BrowserMutation origin \<Rightarrow> \<exists>x. origin = Some x \<and> allows_origin v x)
        \<and> ctx = \<lparr>ctx_actor = Ident (pac_actor_id current), ctx_scope = scope,
             ctx_roles = bs_of_list (map Ident (pac_roles current)),
             ctx_membership_revision = pac_membership_revision current, ctx_binding_id = pv_binding_id v\<rparr>)"
  by (auto simp: resolve_Ok_iff pilot_snapshot_Ok check_access_Ok_iff pilot_clock pilot_time_less
      origin_allowed_def allows_origin_def split: request_channel.splits option.splits)

text \<open>
  Who gets in. A pilot host lets a credential act exactly when the access facts read for this very
  request say so: the credential is 64 lower-case hexadecimal digits whose digest is the stored one, in the
  host's own scope; not revoked, active, with a non-zero revision; not expired by the host's clock, and
  never when that clock is broken; with the grant asked for; from an allowed origin where a browser
  mutates. The context says no more than those facts.
\<close>

theorem pilot_resolve_exact:
  "resolve (pilot_host E v) credential scope channel now grant = Ok ctx \<longleftrightarrow>
     (\<exists>current. source_current E (pv_source v) = Ok current
        \<and> length credential = 64 \<and> list_all lower_hex credential
        \<and> length (env_sha256 E credential) = 32 \<and> pac_token_sha256 current = hex_encode (env_sha256 E credential)
        \<and> \<not> pac_revoked current
        \<and> (case env_clock E of None \<Rightarrow> False | Some seconds \<Rightarrow> seconds < pac_expires_at current)
        \<and> pac_active current \<and> pac_membership_revision current \<noteq> 0
        \<and> grant \<in> grant_of ` set (pac_grants current)
        \<and> scope = pv_scope v \<and> pv_binding_id v \<noteq> [] \<and> length (pv_binding_id v) \<le> 96
        \<and> (case channel of NativeBearer \<Rightarrow> True
           | BrowserMutation origin \<Rightarrow> \<exists>x. origin = Some x \<and> allows_origin v x)
        \<and> ctx = \<lparr>ctx_actor = Ident (pac_actor_id current), ctx_scope = scope,
             ctx_roles = bs_of_list (map Ident (pac_roles current)),
             ctx_membership_revision = pac_membership_revision current, ctx_binding_id = pv_binding_id v\<rparr>)"
  by (rule pilot_resolve_Ok)

text \<open>On one reading of the access facts, two resolutions of a credential give the same context.\<close>

lemma snapshot_for_operation_source:
  "snapshot_for_operation E v = Ok frozen \<Longrightarrow> \<exists>access. frozen = v\<lparr>pv_source := MemorySource (Some access)\<rparr>"
  by (auto simp: snapshot_for_operation_def and_then_Ok_iff)

lemma source_current_memory: "source_current E (MemorySource (Some a)) = Ok b \<Longrightarrow> b = a"
  by (auto simp: source_current_def and_then_Ok_iff)

lemma pilot_resolve_frozen:
  assumes "pv_source v = MemorySource (Some a)"
    and "resolve (pilot_host E v) credential scope channel now grant = Ok ctx"
    and "resolve (pilot_host E' v) credential' scope channel' now' grant' = Ok ctx'"
  shows "ctx' = ctx"
proof -
  have "ctx = \<lparr>ctx_actor = Ident (pac_actor_id a), ctx_scope = scope, ctx_roles = bs_of_list (map Ident (pac_roles a)),
      ctx_membership_revision = pac_membership_revision a, ctx_binding_id = pv_binding_id v\<rparr>"
    using assms(1,2) by (auto simp: pilot_resolve_Ok dest!: source_current_memory)
  moreover have "ctx' = \<lparr>ctx_actor = Ident (pac_actor_id a), ctx_scope = scope, ctx_roles = bs_of_list (map Ident (pac_roles a)),
      ctx_membership_revision = pac_membership_revision a, ctx_binding_id = pv_binding_id v\<rparr>"
    using assms(1,3) by (auto simp: pilot_resolve_Ok dest!: source_current_memory)
  ultimately show ?thesis by simp
qed

end
