(* ===== verification/Wire.thy ===== *)
theory Wire
  imports Compile
begin

text \<open>
  The transport of the generic host (\<open>crates/evobase-protocol/src/appspec.rs\<close>): messages, their bounds,
  and the decoding and encoding of every message. \<open>serde_json\<close> is a parameter: the document a text holds
  as its parser walks it, the typed readers and the writers.
\<close>

definition API_VERSION :: u32 where "API_VERSION = 1"
definition MAX_WIRE_BYTES :: nat where "MAX_WIRE_BYTES = 1048576"
definition MAX_WIRE_DEPTH :: nat where "MAX_WIRE_DEPTH = 16"
definition MAX_WIRE_NODES :: nat where "MAX_WIRE_NODES = 20000"
definition MAX_REQUEST_KEY_BYTES :: nat where "MAX_REQUEST_KEY_BYTES = 96"
definition MAX_RELEASE_ID_BYTES :: nat where "MAX_RELEASE_ID_BYTES = 128"
definition MAX_LIST_LIMIT :: nat where "MAX_LIST_LIMIT = 256"

lemmas wire_limit_defs = API_VERSION_def MAX_WIRE_BYTES_def MAX_WIRE_DEPTH_def MAX_WIRE_NODES_def
  MAX_REQUEST_KEY_BYTES_def MAX_RELEASE_ID_BYTES_def MAX_LIST_LIMIT_def

datatype wire_error =
    WireVersion u32
  | WireLimit string nat
  | WireDuplicateKey string
  | WireInvalidJson string
  | WireValidation string string

section \<open>Data\<close>

text \<open>A data revision is a canonical decimal string.\<close>

datatype revision_dto = RevisionDto (revision_get: u64)

definition revision_serialize :: "revision_dto \<Rightarrow> string" where
  "revision_serialize r = show_nat (unat (revision_get r))"

definition revision_deserialize :: "string \<Rightarrow> (string, revision_dto) outcome" where
  "revision_deserialize text =
     (if text = [] \<or> length text > 20 \<or> \<not> list_all is_ascii_digit text
         \<or> (length text > 1 \<and> starts_with text ''0'')
      then Err ''revision must be a canonical u64 decimal string''
      else map_err (\<lambda>_. ''revision exceeds u64'') (and_then (parse_u64 text) (\<lambda>n. Ok (RevisionDto n))))"

record ref_dto =
  rfd_table_id :: table_id
  rfd_record_id :: record_id

datatype value_dto =
    DtoBlank
  | DtoNull
  | DtoText string
  | DtoInteger i64
  | DtoBool bool
  | DtoMoney i64
  | DtoRef ref_dto

fun to_domain :: "value_dto \<Rightarrow> scope \<Rightarrow> value" where
  "to_domain DtoBlank scope = Blank"
| "to_domain DtoNull scope = Null"
| "to_domain (DtoText s) scope = Text s"
| "to_domain (DtoInteger n) scope = Integer n"
| "to_domain (DtoBool b) scope = Bool b"
| "to_domain (DtoMoney n) scope = Money n"
| "to_domain (DtoRef r) scope =
     Ref \<lparr>ref_scope = scope, ref_table_id = rfd_table_id r, ref_record_id = rfd_record_id r\<rparr>"

fun from_domain :: "value \<Rightarrow> scope \<Rightarrow> (wire_error, value_dto) outcome" where
  "from_domain Blank scope = Ok DtoBlank"
| "from_domain Null scope = Ok DtoNull"
| "from_domain (Text s) scope = Ok (DtoText s)"
| "from_domain (Integer n) scope = Ok (DtoInteger n)"
| "from_domain (Bool b) scope = Ok (DtoBool b)"
| "from_domain (Money n) scope = Ok (DtoMoney n)"
| "from_domain (Ref r) scope =
     (if ref_scope r = scope
      then Ok (DtoRef \<lparr>rfd_table_id = ref_table_id r, rfd_record_id = ref_record_id r\<rparr>)
      else Err (WireValidation ''value'' ''cross-scope Ref''))"

record command_request_dto =
  crd_api_version :: u32
  crd_command_id :: string
  crd_record_id :: record_id
  crd_params :: "(field_id, value_dto) btree_map"
  crd_request_key :: string
  crd_expected_revision :: revision_dto
  crd_release_id :: string

record field_metadata_dto =
  fmd_field_id :: field_id
  fmd_name :: string
  fmd_field_type :: field_type
  fmd_required :: bool

record table_metadata_dto =
  tmd_table_id :: table_id
  tmd_name :: string
  tmd_fields :: "field_metadata_dto list"

record command_metadata_dto =
  cmd'_command_id :: string
  cmd'_name :: string
  cmd'_table_id :: table_id
  cmd'_input_fields :: "field_metadata_dto list"
  cmd'_eligible_record_ids :: "record_id list"

record metadata_response_dto =
  mrd_api_version :: u32
  mrd_app_id :: app_id
  mrd_release_id :: string
  mrd_revision :: revision_dto
  mrd_canonical_appspec :: "string option"
  mrd_supported :: "string list"
  mrd_tables :: "table_metadata_dto list"
  mrd_commands :: "command_metadata_dto list"

record record_dto =
  rcd_record_id :: record_id
  rcd_values :: "(field_id, value_dto) btree_map"

record list_response_dto =
  lrd_api_version :: u32
  lrd_app_id :: app_id
  lrd_table_id :: table_id
  lrd_release_id :: string
  lrd_revision :: revision_dto
  lrd_records :: "record_dto list"
  lrd_has_more :: bool

record receipt_response_dto =
  rrd_api_version :: u32
  rrd_app_id :: app_id
  rrd_command_id :: string
  rrd_record_id :: record_id
  rrd_release_id :: string
  rrd_request_key :: string
  rrd_revision :: revision_dto
  rrd_replayed :: bool

datatype error_code_dto = CodeDenied | CodeUnsupported | CodeConflict | CodeValidation | CodeNotFound | CodeInternal

record api_error_dto =
  aed_api_version :: u32
  aed_code :: error_code_dto
  aed_message :: string
  aed_field :: "string option"

section \<open>Validation\<close>

definition wire_limit :: "nat \<Rightarrow> nat \<Rightarrow> string \<Rightarrow> (wire_error, unit) outcome" where
  "wire_limit n bound resource = (if n > bound then Err (WireLimit resource bound) else Ok ())"

definition list_limit :: "nat option \<Rightarrow> (wire_error, nat) outcome" where
  "list_limit limit =
     (let n = (case limit of None \<Rightarrow> 100 | Some l \<Rightarrow> l) in
      if n = 0 \<or> n > MAX_LIST_LIMIT then Err (WireValidation ''limit'' ''expected 1..256'') else Ok n)"

definition validate_value :: "value_dto \<Rightarrow> (wire_error, unit) outcome" where
  "validate_value v = (case v of DtoText s \<Rightarrow> wire_limit (length s) MAX_TEXT_BYTES ''text bytes'' | _ \<Rightarrow> Ok ())"

definition wire_command_id :: "string \<Rightarrow> (wire_error, unit) outcome" where
  "wire_command_id v =
     (if length v \<le> 4 \<or> length v > 80 \<or> \<not> starts_with v ''cmd_'' \<or> \<not> list_all id_byte v
      then Err (WireValidation ''command_id'' ''expected a stable cmd_ identity'') else Ok ())"

definition wire_request_key :: "string \<Rightarrow> (wire_error, unit) outcome" where
  "wire_request_key v =
     (if v = [] \<or> length v > MAX_REQUEST_KEY_BYTES \<or> \<not> list_all id_byte v
      then Err (WireValidation ''request_key'' (''expected 1..96 ASCII letters, digits, '_' or '-'' @ [CHR 0x27])) else Ok ())"

definition wire_release_id :: "string \<Rightarrow> (wire_error, unit) outcome" where
  "wire_release_id v =
     (if v = [] \<or> length v > MAX_RELEASE_ID_BYTES \<or> \<not> list_all (\<lambda>b. id_byte b \<or> b = CHR '':'') v
      then Err (WireValidation ''release_id'' ''invalid release identity'') else Ok ())"

definition wire_name :: "string \<Rightarrow> (wire_error, unit) outcome" where
  "wire_name v =
     (if v = [] \<or> list_ex is_control (str_chars v) then Err (WireValidation ''name'' ''invalid display name'')
      else wire_limit (length v) MAX_NAME_BYTES ''name bytes'')"

definition validate_values :: "(field_id, value_dto) btree_map \<Rightarrow> (wire_error, unit) outcome" where
  "validate_values values =
     and_then (wire_limit (bt_len values) MAX_FIELDS_PER_TABLE ''field values'') (\<lambda>_.
     for_each validate_value (bt_values values))"

definition metadata_fields :: "field_metadata_dto list \<Rightarrow> (wire_error, unit) outcome" where
  "metadata_fields fs =
     and_then (wire_limit (length fs) MAX_FIELDS_PER_TABLE ''fields per table'') (\<lambda>_.
     unique_loop {} fmd_field_id (\<lambda>_. WireValidation ''fields'' ''duplicate field identity'')
       (\<lambda>field. wire_name (fmd_name field)) fs)"

definition validate_command_request :: "command_request_dto \<Rightarrow> (wire_error, unit) outcome" where
  "validate_command_request m =
     and_then (wire_command_id (crd_command_id m)) (\<lambda>_.
     and_then (wire_request_key (crd_request_key m)) (\<lambda>_.
     and_then (wire_release_id (crd_release_id m)) (\<lambda>_.
     validate_values (crd_params m))))"

text \<open>The loop over the tables carries the tables and fields seen and the number of fields.\<close>

definition validate_table ::
  "table_id set \<times> field_id set \<times> nat \<Rightarrow> table_metadata_dto \<Rightarrow>
     (wire_error, table_id set \<times> field_id set \<times> nat) outcome" where
  "validate_table = (\<lambda>(tables, fs, n) table.
     if tmd_table_id table \<in> tables then Err (WireValidation ''tables'' ''duplicate table identity'')
     else and_then (wire_name (tmd_name table)) (\<lambda>_.
       and_then (metadata_fields (tmd_fields table)) (\<lambda>_.
       and_then (fold_m (\<lambda>seen field.
           if fmd_field_id field \<in> seen then Err (WireValidation ''fields'' ''duplicate field identity'')
           else Ok (insert (fmd_field_id field) seen)) fs (tmd_fields table)) (\<lambda>fs.
       Ok (insert (tmd_table_id table) tables, fs, n + length (tmd_fields table))))))"

definition validate_command :: "command_metadata_dto \<Rightarrow> (wire_error, unit) outcome" where
  "validate_command command =
     and_then (wire_command_id (cmd'_command_id command)) (\<lambda>_.
     and_then (wire_name (cmd'_name command)) (\<lambda>_.
     and_then (metadata_fields (cmd'_input_fields command)) (\<lambda>_.
     and_then (wire_limit (length (cmd'_eligible_record_ids command)) MAX_RECORDS ''eligible records'') (\<lambda>_.
     unique_loop {} id (\<lambda>_. WireValidation ''eligible_record_ids'' ''duplicate record identity'') (\<lambda>_. Ok ())
       (cmd'_eligible_record_ids command)))))"

definition validate_metadata :: "metadata_response_dto \<Rightarrow> (wire_error, unit) outcome" where
  "validate_metadata m =
     and_then (wire_release_id (mrd_release_id m)) (\<lambda>_.
     and_then (wire_limit (length (mrd_tables m)) MAX_TABLES ''tables'') (\<lambda>_.
     and_then (wire_limit (length (mrd_commands m)) 64 ''commands'') (\<lambda>_.
     and_then (wire_limit (length (mrd_supported m)) 64 ''supported capabilities'') (\<lambda>_.
     and_then (for_each (\<lambda>capability. wire_limit (length capability) 256 ''capability bytes'') (mrd_supported m)) (\<lambda>_.
     and_then (fold_m validate_table ({}, {}, 0) (mrd_tables m)) (\<lambda>(_, _, field_count).
     and_then (wire_limit field_count MAX_FIELDS ''fields'') (\<lambda>_.
     unique_loop {} cmd'_command_id (\<lambda>_. WireValidation ''commands'' ''duplicate command identity'')
       validate_command (mrd_commands m))))))))"

definition validate_list :: "list_response_dto \<Rightarrow> (wire_error, unit) outcome" where
  "validate_list m =
     and_then (wire_release_id (lrd_release_id m)) (\<lambda>_.
     and_then (wire_limit (length (lrd_records m)) MAX_LIST_LIMIT ''records'') (\<lambda>_.
     unique_loop {} rcd_record_id (\<lambda>_. WireValidation ''records'' ''duplicate record identity'')
       (\<lambda>record'. validate_values (rcd_values record')) (lrd_records m)))"

definition validate_receipt_response :: "receipt_response_dto \<Rightarrow> (wire_error, unit) outcome" where
  "validate_receipt_response m =
     and_then (wire_command_id (rrd_command_id m)) (\<lambda>_.
     and_then (wire_request_key (rrd_request_key m)) (\<lambda>_.
     wire_release_id (rrd_release_id m)))"

definition validate_api_error :: "api_error_dto \<Rightarrow> (wire_error, unit) outcome" where
  "validate_api_error m =
     and_then (wire_limit (length (aed_message m)) 1024 ''error message bytes'') (\<lambda>_.
     case aed_field m of Some field \<Rightarrow> wire_limit (length field) 256 ''error field bytes'' | None \<Rightarrow> Ok ())"


section \<open>Bounds before parsing\<close>

definition wire_scan_byte :: "scan \<Rightarrow> char \<Rightarrow> (wire_error, scan) outcome" where
  "wire_scan_byte s c =
     (if c = CHR 0x22 then Ok (s\<lparr>sc_string := True, sc_atom := False, sc_nodes := sc_nodes s + 1\<rparr>)
      else if is_open c then
        (let s' = s\<lparr>sc_depth := sc_depth s + 1, sc_nodes := sc_nodes s + 1, sc_atom := False\<rparr>
         in and_then (wire_limit (sc_depth s') MAX_WIRE_DEPTH ''depth'') (\<lambda>_. Ok s'))
      else if is_close c then Ok (s\<lparr>sc_depth := sc_depth s - 1, sc_atom := False\<rparr>)
      else if is_separator c then Ok (s\<lparr>sc_atom := False\<rparr>)
      else if \<not> sc_atom s then Ok (s\<lparr>sc_nodes := sc_nodes s + 1, sc_atom := True\<rparr>)
      else Ok s)"

definition wire_scan_step :: "scan \<Rightarrow> char \<Rightarrow> (wire_error, scan) outcome" where
  "wire_scan_step s c =
     (if sc_string s then
        Ok (if sc_escape s then s\<lparr>sc_escape := False\<rparr>
            else if c = CHR 0x5C then s\<lparr>sc_escape := True\<rparr>
            else if c = CHR 0x22 then s\<lparr>sc_string := False\<rparr>
            else s)
      else and_then (wire_scan_byte s c) (\<lambda>s'.
        and_then (wire_limit (sc_nodes s') MAX_WIRE_NODES ''nodes'') (\<lambda>_. Ok s')))"

definition wire_preflight :: "string \<Rightarrow> (wire_error, unit) outcome" where
  "wire_preflight bytes =
     and_then (wire_limit (length bytes) MAX_WIRE_BYTES ''bytes'') (\<lambda>_.
     and_then (fold_m wire_scan_step scan_init bytes) (\<lambda>_. Ok ()))"

section \<open>Decoding and encoding\<close>

text \<open>
  A text as the parser of \<open>serde_json\<close> walks it: the values it meets in order, and where it stops with an
  error. An array or an object that ends well has the tail \<open>None\<close>.
\<close>

datatype json_doc =
    JScalar
  | JArray "json_doc list" "string option"
  | JObject "(string \<times> json_doc) list" "string option"
  | JBroken string

datatype key_failure = DuplicateKeyFound string | SyntaxError string

lemma json_doc_entry_size:
  "(k, d) \<in> set es \<Longrightarrow> size d < Suc (size_list (size_prod (\<lambda>_. 0) size) es + n)"
  by (induction es) auto

definition json_tail :: "string option \<Rightarrow> (key_failure, unit) outcome" where
  "json_tail tail = (case tail of None \<Rightarrow> Ok () | Some message \<Rightarrow> Err (SyntaxError message))"

text \<open>The visitor \<open>UniqueKeys\<close>: a key repeated in one object stops the walk before its value.\<close>

function unique_keys :: "json_doc \<Rightarrow> (key_failure, unit) outcome" where
  "unique_keys JScalar = Ok ()"
| "unique_keys (JBroken message) = Err (SyntaxError message)"
| "unique_keys (JArray ds tail) = and_then (for_each unique_keys ds) (\<lambda>_. json_tail tail)"
| "unique_keys (JObject es tail) =
     and_then (fold_m (\<lambda>keys (key, d).
         if key \<in> keys then Err (DuplicateKeyFound key)
         else and_then (unique_keys d) (\<lambda>_. Ok (insert key keys))) {} es)
       (\<lambda>_. json_tail tail)"
  by pat_completeness auto
termination
  by (relation "measure size") (auto simp: json_doc_entry_size le_imp_less_Suc size_list_estimation')

text \<open>Messages are shortened at a character boundary.\<close>

definition char_boundary :: "string \<Rightarrow> nat \<Rightarrow> bool" where
  "char_boundary s i \<longleftrightarrow> i = 0 \<or> i = length s
     \<or> (i < length s \<and> \<not> (128 \<le> (of_char (s ! i) :: nat) \<and> (of_char (s ! i) :: nat) < 192))"

fun boundary_floor :: "string \<Rightarrow> nat \<Rightarrow> nat" where
  "boundary_floor s 0 = 0"
| "boundary_floor s (Suc i) = (if char_boundary s (Suc i) then Suc i else boundary_floor s i)"

definition diagnostic :: "string \<Rightarrow> nat \<Rightarrow> string" where
  "diagnostic message limit =
     (if length message > limit then take (boundary_floor message (limit - 3)) message @ ''...'' else message)"

definition wire_json_error :: "string \<Rightarrow> wire_error" where
  "wire_json_error message =
     (if starts_with message ''too many field values'' then WireLimit ''field values'' MAX_FIELDS_PER_TABLE
      else WireInvalidJson (diagnostic message 1024))"

text \<open>The visitor \<open>unique_values\<close> of the typed readers, over the entries it is given.\<close>

definition wire_unique_values :: "(field_id \<times> value_dto) list \<Rightarrow> (string, (field_id, value_dto) btree_map) outcome" where
  "wire_unique_values = fold_m (\<lambda>values (field, v).
     if bt_contains_key values field then Err ''duplicate field value''
     else let values = bt_insert field v values in
       if bt_len values > MAX_FIELDS_PER_TABLE then Err ''too many field values'' else Ok values) bt_empty"

text \<open>What \<open>serde_json\<close> does for one type of message.\<close>

record 'a wire_json =
  wj_document :: "string \<Rightarrow> json_doc"
  wj_trailing :: "string \<Rightarrow> string option"
  wj_reader :: "string \<Rightarrow> (string, 'a) outcome"
  wj_writer :: "'a \<Rightarrow> string list"

definition check_version :: "u32 \<Rightarrow> (wire_error, unit) outcome" where
  "check_version version = (if version = API_VERSION then Ok () else Err (WireVersion version))"

definition wire_decode ::
  "('a \<Rightarrow> u32) \<Rightarrow> ('a \<Rightarrow> (wire_error, unit) outcome) \<Rightarrow> 'a wire_json \<Rightarrow> string \<Rightarrow> (wire_error, 'a) outcome" where
  "wire_decode version validate W bytes =
     and_then (wire_preflight bytes) (\<lambda>_.
     and_then (map_err (\<lambda>failure. case failure of
           DuplicateKeyFound key \<Rightarrow> WireDuplicateKey (diagnostic key 256)
         | SyntaxError message \<Rightarrow> wire_json_error message) (unique_keys (wj_document W bytes))) (\<lambda>_.
     and_then (case wj_trailing W bytes of None \<Rightarrow> Ok () | Some message \<Rightarrow> Err (wire_json_error message)) (\<lambda>_.
     and_then (map_err wire_json_error (wj_reader W bytes)) (\<lambda>dto.
     and_then (check_version (version dto)) (\<lambda>_.
     and_then (validate dto) (\<lambda>_. Ok dto))))))"

definition wire_buffer :: "string \<Rightarrow> string \<Rightarrow> (wire_error, string) outcome" where
  "wire_buffer buffer bytes =
     (if length buffer + length bytes > MAX_WIRE_BYTES then Err (WireLimit ''bytes'' MAX_WIRE_BYTES)
      else Ok (buffer @ bytes))"

definition wire_encode ::
  "('a \<Rightarrow> u32) \<Rightarrow> ('a \<Rightarrow> (wire_error, unit) outcome) \<Rightarrow> 'a wire_json \<Rightarrow> 'a \<Rightarrow> (wire_error, string) outcome" where
  "wire_encode version validate W dto =
     and_then (check_version (version dto)) (\<lambda>_.
     and_then (validate dto) (\<lambda>_.
     and_then (fold_m wire_buffer [] (wj_writer W dto)) (\<lambda>buffer.
     and_then (wire_preflight buffer) (\<lambda>_. Ok buffer))))"

definition decode_command_request where
  "decode_command_request = wire_decode crd_api_version validate_command_request"
definition encode_metadata where "encode_metadata = wire_encode mrd_api_version validate_metadata"
definition encode_list where "encode_list = wire_encode lrd_api_version validate_list"
definition encode_receipt where "encode_receipt = wire_encode rrd_api_version validate_receipt_response"
definition encode_api_error where "encode_api_error = wire_encode aed_api_version validate_api_error"


section \<open>Revisions\<close>

lemma parse_digits_value:
  assumes "parse_digits ok 1 (int n) s = Ok m" and "ok (int n)"
  shows "m = int (foldl (\<lambda>n c. 10 * n + digit_value c) n s) \<and> ok m"
  using assms
proof (induction s arbitrary: n)
  case (Cons c s)
  have eq: "int (10 * n + digit_value c) = int n * 10 + int (digit_value c)" by simp
  from Cons.prems(1) have "ok (int (10 * n + digit_value c))"
    and "parse_digits ok 1 (int (10 * n + digit_value c)) s = Ok m"
    unfolding eq by (simp_all split: if_splits)
  from Cons.IH [OF this(2,1)] show ?case by auto
qed simp

lemma digit_char_value: "is_ascii_digit c \<Longrightarrow> digit_char (digit_value c) = c \<and> digit_value c < 10"
  by (auto simp: digit_char_def digit_value_def is_ascii_digit_def less_eq_char_def)

lemma digits_value_pos:
  assumes "s \<noteq> []" and "list_all is_ascii_digit s" and "hd s \<noteq> CHR ''0''"
  shows "0 < digits_value s"
  using assms
proof (induction s rule: rev_induct)
  case (snoc c s)
  show ?case
  proof (cases s)
    case Nil
    with snoc.prems have "digit_char (digit_value c) = c" "digit_value c < 10" "c \<noteq> CHR ''0''"
      using digit_char_value [of c] by simp_all
    then have "digit_value c \<noteq> 0" using digit_char_eq_0_iff by metis
    with Nil show ?thesis by (simp add: digits_value_def)
  next
    case (Cons d r)
    with snoc have "0 < digits_value s" by simp
    then show ?thesis by (simp add: digits_value_snoc)
  qed
qed simp

lemma show_nat_canonical:
  assumes "s \<noteq> []" and "list_all is_ascii_digit s" and "length s > 1 \<Longrightarrow> hd s \<noteq> CHR ''0''"
  shows "show_nat (digits_value s) = s"
  using assms
proof (induction s rule: rev_induct)
  case (snoc c s)
  from snoc.prems have c: "digit_char (digit_value c) = c" "digit_value c < 10"
    using digit_char_value [of c] by simp_all
  show ?case
  proof (cases "s = []")
    case True
    with c show ?thesis by (subst show_nat.simps) (simp add: digits_value_def)
  next
    case False
    with snoc.prems have hd: "hd s \<noteq> CHR ''0''" by (cases s) simp_all
    have "0 < digits_value s" by (rule digits_value_pos) (use False snoc.prems hd in simp_all)
    moreover have "show_nat (digits_value s) = s" by (rule snoc.IH) (use False snoc.prems hd in simp_all)
    ultimately show ?thesis
      using c by (subst show_nat.simps) (simp add: digits_value_snoc)
  qed
qed simp

text \<open>
  A revision crosses the wire exactly. The accepted texts are the canonical decimals of 64-bit numbers:
  no sign, no leading zero, no rounding, no second spelling of a revision.
\<close>

theorem revision_canonical: "revision_deserialize s = Ok r \<longleftrightarrow> s = revision_serialize r"
proof
  assume ok: "revision_deserialize s = Ok r"
  then obtain n where str: "s \<noteq> []" "list_all is_ascii_digit s" "length s > 1 \<Longrightarrow> \<not> starts_with s ''0''"
    and parse: "parse_u64 s = Ok n" and r: "r = RevisionDto n"
    by (auto simp: revision_deserialize_def outcome_simps split: if_splits)
  have hd: "hd s \<noteq> CHR ''0''" if "length s > 1"
    using str(1) str(3) [OF that] by (cases s) (simp_all add: starts_with_def)
  have first: "hd s \<noteq> CHR ''+''" "hd s \<noteq> CHR ''-''"
    using str(1,2) by (cases s; auto simp: is_ascii_digit_def)+
  with str(1) parse obtain m where m: "parse_digits u64_range 1 (int 0) s = Ok m" and n: "n = word_of_int m"
    by (cases s) (auto simp: parse_u64_def and_then_Ok_iff)
  from parse_digits_value [OF m] have m: "m = int (digits_value s)" "u64_range m"
    by (simp_all add: digits_value_def u64_range_def)
  then have "unat n = digits_value s"
    by (simp add: n u64_range_def unsigned_of_nat take_bit_nat_eq_self)
  with show_nat_canonical [OF str(1,2) hd] r show "s = revision_serialize r"
    by (simp add: revision_serialize_def)
next
  assume str: "s = revision_serialize r"
  let ?n = "unat (revision_get r)"
  have small: "?n < 2 ^ 64" by (rule order_less_le_trans [OF unsigned_less]) simp
  then have "?n < 10 ^ Suc 19" by simp
  then have "length (show_nat ?n) \<le> 20" using length_show_nat_le [of ?n 19] by simp
  moreover have "\<not> (length (show_nat ?n) > 1 \<and> starts_with (show_nat ?n) ''0'')"
  proof
    assume a: "length (show_nat ?n) > 1 \<and> starts_with (show_nat ?n) ''0''"
    then have "hd (show_nat ?n) = CHR ''0''" by (cases "show_nat ?n") (simp_all add: starts_with_def)
    then have "?n = 0" by (simp only: hd_show_nat)
    with a show False by (subst (asm) show_nat.simps) simp
  qed
  moreover have "list_all is_ascii_digit (show_nat ?n)" using show_nat_digits by (auto simp: list_all_iff)
  moreover have "parse_u64 (show_nat ?n) = Ok (revision_get r)" using parse_u64_show_nat [OF small] by simp
  ultimately show "revision_deserialize s = Ok r"
    by (auto simp: str revision_serialize_def revision_deserialize_def)
qed

section \<open>Values\<close>

lemma to_domain_from_domain: "from_domain v scope = Ok d \<longleftrightarrow> to_domain d scope = v"
proof
  show "to_domain d scope = v" if "from_domain v scope = Ok d"
    using that by (cases v) (auto split: if_splits)
  show "from_domain v scope = Ok d" if "to_domain d scope = v"
    using that by (cases d) auto
qed

section \<open>Agreement with the core\<close>

lemma wire_limit_Ok [outcome_simps]: "wire_limit n bound resource = Ok u \<longleftrightarrow> n \<le> bound"
  by (auto simp: wire_limit_def)

lemma wire_scan_step_Ok: "wire_scan_step s c = Ok s' \<longleftrightarrow> scan_step s c = Ok s'"
  by (auto simp: wire_scan_step_def scan_step_def wire_scan_byte_def scan_byte_def Let_def outcome_simps
      wire_limit_defs limit_defs)

lemma fold_m_Ok_transfer:
  assumes "\<And>s x s'. f s x = Ok s' \<longleftrightarrow> g s x = Ok s'"
  shows "fold_m f s xs = Ok t \<longleftrightarrow> fold_m g s xs = Ok t"
  by (induction xs arbitrary: s) (auto simp: and_then_Ok_iff assms)

lemma wire_preflight_iff: "wire_preflight bytes = Ok () \<longleftrightarrow> preflight bytes = Ok ()"
  by (auto simp: wire_preflight_def preflight_def outcome_simps fold_m_Ok_transfer [OF wire_scan_step_Ok]
      wire_limit_defs limit_defs)

lemma wire_command_id_iff: "wire_command_id v = Ok () \<longleftrightarrow> command_id_new v = Ok (Ident v)"
  by (auto simp: wire_command_id_def command_id_new_def ident_new_Ok_iff starts_with_def)


text \<open>
  The transport and the core agree. A text passes the transport's lexical bounds exactly when it passes
  the core's; a command identity or a request key is accepted on the wire exactly when the core accepts
  it, so no request is refused inside for a form the transport let through.
\<close>

theorem wire_agrees_with_core:
  "(wire_preflight bytes = Ok () \<longleftrightarrow> preflight bytes = Ok ())
    \<and> (wire_command_id v = Ok () \<longleftrightarrow> command_id_new v = Ok (Ident v))
    \<and> (wire_request_key key = Ok () \<longleftrightarrow> key \<noteq> [] \<and> length key \<le> 96 \<and> list_all id_byte key)"
  by (auto simp: wire_preflight_iff wire_command_id_iff wire_request_key_def wire_limit_defs not_le)

section \<open>Duplicate keys\<close>

text \<open>The documents inside a document, in any depth.\<close>

inductive within :: "json_doc \<Rightarrow> json_doc \<Rightarrow> bool" where
  within_self: "within d d"
| within_array: "within d e \<Longrightarrow> e \<in> set ds \<Longrightarrow> within d (JArray ds tail)"
| within_object: "within d e \<Longrightarrow> (k, e) \<in> set es \<Longrightarrow> within d (JObject es tail)"

inductive_simps within_simps [simp]: "within d JScalar" "within d (JBroken m)" "within d (JArray ds tail)"
  "within d (JObject es tail)"

fun node_ok :: "json_doc \<Rightarrow> bool" where
  "node_ok JScalar = True"
| "node_ok (JBroken m) = False"
| "node_ok (JArray ds tail) = (tail = None)"
| "node_ok (JObject es tail) = (tail = None \<and> distinct (map fst es))"

lemma json_tail_Ok [outcome_simps]: "json_tail tail = Ok u \<longleftrightarrow> tail = None"
  by (simp add: json_tail_def split: option.split)

lemma unique_keys_Ok_iff: "unique_keys doc = Ok () \<longleftrightarrow> (\<forall>d. within d doc \<longrightarrow> node_ok d)"
proof (induction doc rule: unique_keys.induct)
  case (3 ds tail)
  then show ?case by (auto simp: outcome_simps)
next
  case (4 es tail)
  have loop: "fold_m (\<lambda>keys (key, d). if key \<in> keys then Err (DuplicateKeyFound key)
         else and_then (unique_keys d) (\<lambda>_. Ok (insert key keys))) keys xs = Ok keys' \<longleftrightarrow>
      distinct (map fst xs) \<and> fst ` set xs \<inter> keys = {} \<and> (\<forall>x\<in>set xs. unique_keys (snd x) = Ok ())
        \<and> keys' = keys \<union> fst ` set xs" for keys keys' xs
    by (rule seen_fold_Ok_iff) (auto simp: and_then_Ok_iff split: if_splits)
  have IH: "unique_keys d = Ok () \<longleftrightarrow> (\<forall>d'. within d' d \<longrightarrow> node_ok d')" if "(k, d) \<in> set es" for k d
    using 4 [OF that] that by blast
  show ?case
  proof
    assume "unique_keys (JObject es tail) = Ok ()"
    then show "\<forall>d. within d (JObject es tail) \<longrightarrow> node_ok d"
      by (auto simp: outcome_simps loop IH)
  next
    assume all: "\<forall>d. within d (JObject es tail) \<longrightarrow> node_ok d"
    have "node_ok (JObject es tail)" using all within_self by metis
    moreover have "unique_keys (snd x) = Ok ()" if "x \<in> set es" for x
    proof -
      obtain k d where x: "x = (k, d)" by (cases x)
      have "node_ok d'" if "within d' d" for d'
        using all within_object [OF that] \<open>x \<in> set es\<close> x by metis
      with IH \<open>x \<in> set es\<close> x show ?thesis by simp
    qed
    ultimately show "unique_keys (JObject es tail) = Ok ()"
      by (simp add: outcome_simps loop)
  qed
qed auto

text \<open>
  The streaming pass over a message accepts it exactly when the parser finds no error in it and no
  object in it, however deep inside the tagged values, names a key twice.
\<close>

theorem unique_keys_exact: "unique_keys doc = Ok () \<longleftrightarrow> (\<forall>d. within d doc \<longrightarrow> node_ok d)"
  by (rule unique_keys_Ok_iff)

section \<open>Round trips\<close>

text \<open>What \<open>serde_json\<close> must do for a message: the text it writes is well formed and read back as it was.\<close>

definition wire_reads_back :: "'a wire_json \<Rightarrow> 'a \<Rightarrow> bool" where
  "wire_reads_back W m \<longleftrightarrow> (let bytes = concat (wj_writer W m) in
     unique_keys (wj_document W bytes) = Ok () \<and> wj_trailing W bytes = None \<and> wj_reader W bytes = Ok m)"

lemma fold_wire_buffer:
  "fold_m wire_buffer buf chunks = Ok out \<longleftrightarrow>
     out = buf @ concat chunks \<and> (chunks = [] \<or> length out \<le> MAX_WIRE_BYTES)"
proof (induction chunks arbitrary: buf)
  case (Cons c cs)
  have step: "wire_buffer buf c = Ok buf' \<longleftrightarrow> buf' = buf @ c \<and> length buf' \<le> MAX_WIRE_BYTES" for buf'
    by (auto simp: wire_buffer_def)
  show ?case by (auto simp: Cons.IH step and_then_Ok_iff)
qed auto

lemma wire_encode_Ok:
  "wire_encode version validate W m = Ok bytes \<longleftrightarrow>
     version m = API_VERSION \<and> validate m = Ok () \<and> bytes = concat (wj_writer W m) \<and> wire_preflight bytes = Ok ()"
  by (auto simp: wire_encode_def outcome_simps check_version_def fold_wire_buffer wire_preflight_def)

text \<open>
  A message is accepted by the receiver exactly as the sender meant it: what any of the message types
  encodes is of the one supported version and within its bounds, and decoding the bytes yields it.
\<close>

theorem wire_round_trip:
  assumes "wire_encode version validate W m = Ok bytes" and "wire_reads_back W m"
  shows "wire_decode version validate W bytes = Ok m \<and> version m = API_VERSION \<and> length bytes \<le> MAX_WIRE_BYTES"
proof -
  from assms(1) have enc: "version m = API_VERSION" "validate m = Ok ()" "bytes = concat (wj_writer W m)"
    "wire_preflight bytes = Ok ()" by (auto simp: wire_encode_Ok)
  from enc(4) have "length bytes \<le> MAX_WIRE_BYTES" by (auto simp: wire_preflight_def outcome_simps)
  with enc assms(2) show ?thesis
    by (simp add: wire_decode_def wire_reads_back_def Let_def check_version_def)
qed

text \<open>What a decoded command request guarantees to the host.\<close>

lemma decoded_command_request:
  assumes "decode_command_request W bytes = Ok m"
  shows "crd_api_version m = API_VERSION" and "command_id_new (crd_command_id m) = Ok (Ident (crd_command_id m))"
    and "validate_command_request m = Ok ()"
  using assms
  by (auto simp: decode_command_request_def wire_decode_def outcome_simps check_version_def wire_command_id_iff
      validate_command_request_def split: if_splits option.splits)

section \<open>Witnesses\<close>

definition example_api_error :: api_error_dto where
  "example_api_error = \<lparr>aed_api_version = 1, aed_code = CodeDenied, aed_message = ''Access denied'', aed_field = None\<rparr>"

definition example_error_json :: "api_error_dto wire_json" where
  "example_error_json = \<lparr>wj_document = (\<lambda>_. JObject [(''api_version'', JScalar), (''code'', JScalar)] None),
     wj_trailing = (\<lambda>_. None), wj_reader = (\<lambda>_. Ok example_api_error), wj_writer = (\<lambda>_. [''{'', ''}''])\<rparr>"

theorem unique_keys_exact_witness:
  "\<exists>d. within d (JArray [JScalar, JObject [(''a'', JScalar), (''b'', JObject [] None), (''a'', JScalar)] None] None) \<and> \<not> node_ok d"
proof -
  have "unique_keys (JArray [JScalar, JObject [(''a'', JScalar), (''b'', JObject [] None), (''a'', JScalar)] None] None) \<noteq> Ok ()"
    by code_simp
  with unique_keys_exact show ?thesis by blast
qed

theorem wire_round_trip_witness:
  "\<exists>bytes. encode_api_error example_error_json example_api_error = Ok bytes
     \<and> wire_decode aed_api_version validate_api_error example_error_json bytes = Ok example_api_error"
proof -
  have "encode_api_error example_error_json example_api_error = Ok ''{}''" by code_simp
  then have enc: "wire_encode aed_api_version validate_api_error example_error_json example_api_error = Ok ''{}''"
    by (simp add: encode_api_error_def)
  have "wire_reads_back example_error_json example_api_error"
    by (simp add: wire_reads_back_def example_error_json_def Let_def json_tail_def)
  with wire_round_trip [OF enc] enc show ?thesis by (simp add: encode_api_error_def)
qed

end
