(* ===== verification/Host.thy ===== *)
theory Host
  imports Store_Laws Access Wire
begin

text \<open>
  The HTTP adapter (\<open>apps/evobase-host/src/lib.rs\<close>): one application of one tenant behind operator-issued
  credentials. A handler is a function of the request and of the tables of the store; what the host reads
  of its access facts and clock may change between the moments a handler asks. \<open>axum\<close>'s routing and
  extraction are outside: a request arrives with its route, its headers and its body.
\<close>

definition MAX_RESPONSE_BYTES :: nat where "MAX_RESPONSE_BYTES = 1048576"
definition MAX_HEADERS :: nat where "MAX_HEADERS = 32"
definition MAX_HEADER_BYTES :: nat where "MAX_HEADER_BYTES = 8192"
definition MAX_URI_BYTES :: nat where "MAX_URI_BYTES = 512"

section \<open>Requests, responses, failures\<close>

text \<open>Header names are in lower case; a name may occur several times. The body is absent when the extractor refused it.\<close>

type_synonym headers = "(string \<times> string) list"

definition header_all :: "headers \<Rightarrow> string \<Rightarrow> string list" where
  "header_all hs name = map snd (filter (\<lambda>h. fst h = name) hs)"

definition header_first :: "headers \<Rightarrow> string \<Rightarrow> string option" where
  "header_first hs name = map_of hs name"

record http_request =
  htr_method :: string
  htr_uri :: string
  htr_headers :: headers
  htr_query :: "string option"
  htr_body :: "string option"

record http_response =
  rsp_status :: nat
  rsp_headers :: headers
  rsp_body :: string

record api_failure =
  apf_status :: nat
  apf_code :: error_code_dto
  apf_message :: string
  apf_field :: "string option"

definition api_denied :: api_failure where
  "api_denied = \<lparr>apf_status = 403, apf_code = CodeDenied, apf_message = ''Access denied'', apf_field = None\<rparr>"
definition api_validation :: api_failure where
  "api_validation = \<lparr>apf_status = 400, apf_code = CodeValidation, apf_message = ''Invalid request'', apf_field = None\<rparr>"
definition api_unsupported :: api_failure where
  "api_unsupported = \<lparr>apf_status = 400, apf_code = CodeUnsupported, apf_message = ''Unsupported request'', apf_field = None\<rparr>"
definition api_conflict :: api_failure where
  "api_conflict = \<lparr>apf_status = 409, apf_code = CodeConflict, apf_message = ''Revision or intent conflict'', apf_field = None\<rparr>"
definition api_not_found :: api_failure where
  "api_not_found = \<lparr>apf_status = 404, apf_code = CodeNotFound, apf_message = ''Receipt unavailable'', apf_field = None\<rparr>"
definition api_internal :: api_failure where
  "api_internal = \<lparr>apf_status = 500, apf_code = CodeInternal, apf_message = ''Operation unavailable'', apf_field = None\<rparr>"

definition validation_field :: "field_id option \<Rightarrow> api_failure" where
  "validation_field field = api_validation\<lparr>apf_field := map_option as_str field\<rparr>"

fun api_command_error :: "command_error \<Rightarrow> api_failure" where
  "api_command_error (CmdAuthority _) = api_denied"
| "api_command_error (CmdPolicy _) = api_denied"
| "api_command_error (UnknownCommand _) = api_unsupported"
| "api_command_error (CmdInvalidInput field _) = validation_field field"
| "api_command_error (CmdImmutableField field) = validation_field (Some field)"
| "api_command_error (GuardFailed field) = validation_field (Some field)"
| "api_command_error (Kernel e) =
     (case e of
        WrongType _ field _ \<Rightarrow> validation_field (Some field)
      | Required _ field \<Rightarrow> validation_field (Some field)
      | ConstraintViolation _ field _ \<Rightarrow> validation_field (Some field)
      | InvalidStateValue _ field _ \<Rightarrow> validation_field (Some field)
      | _ \<Rightarrow> api_validation)"
| "api_command_error (InvalidTransition _ _) = api_validation"
| "api_command_error RevisionRequired = api_validation"

fun api_storage :: "store_error \<Rightarrow> api_failure" where
  "api_storage StoreScopeMismatch = api_denied"
| "api_storage (StoreAuthority _) = api_denied"
| "api_storage BindingMismatch = api_denied"
| "api_storage AuthorityChanged = api_denied"
| "api_storage (Conflict _ _) = api_conflict"
| "api_storage StoreIntentConflict = api_conflict"
| "api_storage (StoreCommand e) = api_command_error e"
| "api_storage AppNotFound = api_not_found"
| "api_storage _ = api_internal"

section \<open>The host\<close>

record host_state =
  hos_store :: evo_store
  hos_scope :: scope
  hos_verifier :: pilot_verifier
  hos_release_id :: string

text \<open>The points of a handler at which it asks the host; the store has its own three.\<close>

datatype host_moment =
    HAuthorize | HAgain | HFreeze | HResolve | HTable nat | HActionsRead | HActionsWrite | HFinal | HFinalWrite
  | HStore moment

text \<open>
  What surrounds a handler: the JSON library for each message, \<open>HeaderValue::to_str\<close>, the failures of the
  database, and at each moment the access environment and the content of the access source.
\<close>

record host_env =
  hen_json :: serde
  hen_docs :: store_json
  hen_metadata :: "metadata_response_dto wire_json"
  hen_list :: "list_response_dto wire_json"
  hen_receipt :: "receipt_response_dto wire_json"
  hen_command :: "command_request_dto wire_json"
  hen_error :: "api_error_dto wire_json"
  hen_header_text :: "string \<Rightarrow> string option"
  hen_faults :: db_faults
  hen_access :: "host_moment \<Rightarrow> access_env"
  hen_source :: "host_moment \<Rightarrow> access_source"

definition verifier_at :: "host_env \<Rightarrow> host_state \<Rightarrow> host_moment \<Rightarrow> session_verifier" where
  "verifier_at E st m = pilot_host (hen_access E m) ((hos_verifier st)\<lparr>pv_source := hen_source E m\<rparr>)"

definition host_new ::
  "host_env \<Rightarrow> evo_store \<Rightarrow> scope \<Rightarrow> pilot_verifier \<Rightarrow> store_db \<Rightarrow> (store_error, host_state) outcome" where
  "host_new E store scope verifier db =
     and_then (store_snapshot (hen_json E) (hen_docs E) (hen_faults E) store db scope) (\<lambda>snapshot.
     Ok \<lparr>hos_store = store, hos_scope = scope, hos_verifier = verifier,
         hos_release_id = snp_spec_identity snapshot\<rparr>)"

definition host_credential :: "host_env \<Rightarrow> headers \<Rightarrow> (api_failure, string) outcome" where
  "host_credential E hs =
     (case header_all hs ''authorization'' of
        [v] \<Rightarrow>
          and_then (ok_or api_denied (hen_header_text E v)) (\<lambda>v.
          and_then (ok_or api_denied (strip_prefix v ''Bearer '')) (\<lambda>token.
          if length token \<noteq> 64 then Err api_denied else Ok token))
      | _ \<Rightarrow> Err api_denied)"

definition host_authorize ::
  "host_env \<Rightarrow> host_state \<Rightarrow> host_moment \<Rightarrow> string \<Rightarrow> headers \<Rightarrow> grant \<Rightarrow> bool \<Rightarrow>
     (api_failure, string \<times> request_channel \<times> u64) outcome" where
  "host_authorize E st m app hs grant mutation =
     and_then (host_credential E hs) (\<lambda>token.
     and_then (case header_first hs ''origin'' of
         None \<Rightarrow> Ok None
       | Some v \<Rightarrow> and_then (ok_or api_denied (hen_header_text E v)) (\<lambda>v. Ok (Some v))) (\<lambda>origin.
     if (case origin of None \<Rightarrow> False | Some v \<Rightarrow> \<not> allows_origin (hos_verifier st) v) then Err api_denied
     else
       let channel = (if mutation \<and> origin \<noteq> None then BrowserMutation origin else NativeBearer) in
       and_then (ok_or api_internal (env_clock (hen_access E m))) (\<lambda>now.
       and_then (map_err (\<lambda>_. api_denied) (resolve (verifier_at E st m) token (hos_scope st) channel now grant)) (\<lambda>_.
       if app \<noteq> as_str (app_id (hos_scope st)) then Err api_denied
       else Ok (token, channel, now)))))"

definition host_snapshot :: "host_env \<Rightarrow> host_state \<Rightarrow> store_db \<Rightarrow> (api_failure, snapshot) outcome" where
  "host_snapshot E st db =
     and_then (map_err api_storage (store_snapshot (hen_json E) (hen_docs E) (hen_faults E) (hos_store st) db (hos_scope st)))
       (\<lambda>snapshot. if snp_spec_identity snapshot \<noteq> hos_release_id st then Err api_conflict else Ok snapshot)"

definition no_query :: "string option \<Rightarrow> (api_failure, unit) outcome" where
  "no_query query = (if query \<noteq> None then Err api_unsupported else Ok ())"

definition json_bytes :: "string \<Rightarrow> (api_failure, http_response) outcome" where
  "json_bytes bytes =
     (if length bytes > MAX_RESPONSE_BYTES then Err api_unsupported
      else Ok \<lparr>rsp_status = 200, rsp_headers = [(''content-type'', ''application/json'')], rsp_body = bytes\<rparr>)"

section \<open>Metadata\<close>

definition field_metadata :: "raw_field \<Rightarrow> field_metadata_dto" where
  "field_metadata field = \<lparr>fmd_field_id = fld_id field, fmd_name = fld_name field,
     fmd_field_type = fld_type field, fmd_required = fld_required field\<rparr>"

text \<open>The verifier frozen on one reading of the access facts; its clock still runs.\<close>

definition frozen_at :: "host_env \<Rightarrow> pilot_verifier \<Rightarrow> host_moment \<Rightarrow> session_verifier" where
  "frozen_at E frozen m = pilot_host (hen_access E m) frozen"

definition table_metadata ::
  "host_env \<Rightarrow> host_state \<Rightarrow> snapshot \<Rightarrow> bool \<Rightarrow> pilot_verifier \<Rightarrow> string \<Rightarrow> request_channel \<Rightarrow> u64 \<Rightarrow>
     nat \<times> raw_table \<Rightarrow> (api_failure, table_metadata_dto list) outcome" where
  "table_metadata E st snap design frozen token channel now = (\<lambda>(index, table).
     let policy = List.find (\<lambda>p. pol_table_id p = tbl_id table) (app_policies (spec_def (snp_spec snap))) in
     and_then (if design then Ok True
       else case policy of
         None \<Rightarrow> Ok False
       | Some raw_policy \<Rightarrow>
           and_then (map_err (\<lambda>_. api_internal) (policy_check (snp_spec snap) raw_policy)) (\<lambda>checked_policy.
           and_then (map_err (\<lambda>_. api_denied) (project (hen_json E) (frozen_at E frozen (HTable index)) token
               (hos_scope st) channel now (snp_facts snap) checked_policy Query)) (\<lambda>visible.
           Ok (prj_rows visible \<noteq> [])))) (\<lambda>listed.
     Ok (if listed
       then [\<lparr>tmd_table_id = tbl_id table, tmd_name = tbl_name table,
              tmd_fields = map field_metadata (filter (\<lambda>field. design \<or>
                (case policy of None \<Rightarrow> False | Some p \<Rightarrow> bs_contains (pol_read_fields p) (fld_id field)))
                (tbl_fields table))\<rparr>]
       else [])))"

definition command_declarations ::
  "host_env \<Rightarrow> host_state \<Rightarrow> snapshot \<Rightarrow> bool \<Rightarrow> pilot_verifier \<Rightarrow> string \<Rightarrow> request_channel \<Rightarrow> u64 \<Rightarrow>
     (api_failure, (raw_command \<times> record_id list) list) outcome" where
  "command_declarations E st snap design frozen token channel now =
     (if design then Ok (map (\<lambda>command. (command, [])) (app_commands (spec_def (snp_spec snap))))
      else case available_command_records (hen_json E) (frozen_at E frozen HActionsRead) (frozen_at E frozen HActionsWrite)
          token (hos_scope st) channel now (snp_spec snap) (snp_facts snap) of
        Ok commands \<Rightarrow> Ok commands
      | Err e \<Rightarrow> if e = CmdAuthority MissingGrant then Ok [] else Err (api_command_error e)
      | Panic \<Rightarrow> Panic)"

definition command_metadata ::
  "checked_app_spec \<Rightarrow> table_metadata_dto list \<Rightarrow> raw_command \<times> record_id list \<Rightarrow> command_metadata_dto option" where
  "command_metadata spec tables = (\<lambda>(command, eligible_record_ids).
     Option.bind (List.find (\<lambda>m. sm_machine_id m = cmd_state_machine_id command) (app_state_machines (spec_def spec)))
       (\<lambda>machine.
     Option.bind (List.find (\<lambda>t. tmd_table_id t = sm_table_id machine) tables) (\<lambda>table.
     Option.bind (those (map (\<lambda>input.
         map_option (\<lambda>field. field\<lparr>fmd_required := inp_required input\<rparr>)
           (List.find (\<lambda>f. fmd_field_id f = inp_field_id input) (tmd_fields table))) (cmd_inputs command)))
       (\<lambda>input_fields.
     Some \<lparr>cmd'_command_id = as_str (cmd_command_id command), cmd'_name = as_str (cmd_command_id command),
           cmd'_table_id = sm_table_id machine, cmd'_input_fields = input_fields,
           cmd'_eligible_record_ids = eligible_record_ids\<rparr>))))"

definition metadata_message ::
  "host_state \<Rightarrow> snapshot \<Rightarrow> string option \<Rightarrow> table_metadata_dto list \<Rightarrow> command_metadata_dto list \<Rightarrow>
     metadata_response_dto" where
  "metadata_message st snap canonical tables commands =
     \<lparr>mrd_api_version = API_VERSION, mrd_app_id = app_id (hos_scope st), mrd_release_id = snp_spec_identity snap,
      mrd_revision = RevisionDto (snp_revision snap), mrd_canonical_appspec = canonical,
      mrd_supported = [''owner_role_scalar_read'', ''first_page_limit_1_256'', ''declared_commands'', ''receipt_recovery''],
      mrd_tables = tables, mrd_commands = commands\<rparr>"

definition offered_commands ::
  "host_env \<Rightarrow> host_state \<Rightarrow> bool \<Rightarrow> string \<Rightarrow> request_channel \<Rightarrow> u64 \<Rightarrow> trusted_context \<Rightarrow>
     command_metadata_dto list \<Rightarrow> (api_failure, command_metadata_dto list) outcome" where
  "offered_commands E st design token channel now original commands =
     (if \<not> design \<and> commands \<noteq> []
      then (case resolve (verifier_at E st HFinalWrite) token (hos_scope st) channel now Write of
          Ok ctx \<Rightarrow> if ctx = original then Ok commands else Err api_denied
        | Err e \<Rightarrow> if e = MissingGrant then Ok [] else Err api_denied
        | Panic \<Rightarrow> Panic)
      else Ok commands)"

definition metadata_dto ::
  "host_env \<Rightarrow> host_state \<Rightarrow> snapshot \<Rightarrow> bool \<Rightarrow> string \<Rightarrow> request_channel \<Rightarrow> u64 \<Rightarrow>
     (api_failure, metadata_response_dto) outcome" where
  "metadata_dto E st snap design token channel now =
     (let grant = (if design then Design else Read) in
      and_then (map_err (\<lambda>_. api_denied) (snapshot_for_operation (hen_access E HFreeze)
          ((hos_verifier st)\<lparr>pv_source := hen_source E HFreeze\<rparr>))) (\<lambda>frozen.
      and_then (map_err (\<lambda>_. api_denied) (resolve (frozen_at E frozen HResolve) token (hos_scope st) channel now grant))
        (\<lambda>original.
      and_then (map_m (table_metadata E st snap design frozen token channel now)
          (enumerate 0 (app_tables (spec_def (snp_spec snap))))) (\<lambda>parts.
      let tables = concat parts in
      and_then (command_declarations E st snap design frozen token channel now) (\<lambda>declarations.
      let commands = List.map_filter (command_metadata (snp_spec snap) tables) declarations in
      and_then (map_err (\<lambda>_. api_denied) (resolve (verifier_at E st HFinal) token (hos_scope st) channel now grant))
        (\<lambda>current.
      if current \<noteq> original then Err api_denied
      else
        and_then (offered_commands E st design token channel now original commands) (\<lambda>commands.
        and_then (if design then and_then (map_err (\<lambda>_. api_internal) (spec_encode (hen_json E) (snp_spec snap)))
              (\<lambda>bytes. if utf8_valid bytes then Ok (Some bytes) else Err api_internal) else Ok None) (\<lambda>canonical.
        Ok (metadata_message st snap canonical tables commands)))))))))"

definition metadata_response ::
  "host_env \<Rightarrow> host_state \<Rightarrow> snapshot \<Rightarrow> bool \<Rightarrow> string \<Rightarrow> request_channel \<Rightarrow> u64 \<Rightarrow>
     (api_failure, http_response) outcome" where
  "metadata_response E st snap design token channel now =
     and_then (metadata_dto E st snap design token channel now) (\<lambda>response.
     and_then (map_err (\<lambda>_. api_internal) (encode_metadata (hen_metadata E) response)) json_bytes)"

definition metadata_handler ::
  "grant \<Rightarrow> bool \<Rightarrow> host_env \<Rightarrow> host_state \<Rightarrow> string \<Rightarrow> http_request \<Rightarrow> store_db \<Rightarrow>
     (api_failure, http_response) outcome" where
  "metadata_handler grant design E st app req db =
     and_then (host_authorize E st HAuthorize app (htr_headers req) grant False) (\<lambda>_.
     and_then (no_query (htr_query req)) (\<lambda>_.
     and_then (host_snapshot E st db) (\<lambda>snapshot.
     and_then (host_authorize E st HAgain app (htr_headers req) grant False) (\<lambda>(token, channel, now).
     metadata_response E st snapshot design token channel now))))"

definition design_metadata where "design_metadata = metadata_handler Design True"
definition runtime_metadata where "runtime_metadata = metadata_handler Read False"


section \<open>Lists\<close>

definition parse_limit :: "string option \<Rightarrow> (api_failure, nat) outcome" where
  "parse_limit query =
     (case query of
        None \<Rightarrow> Ok 100
      | Some q \<Rightarrow>
          (case strip_prefix q ''limit='' of
             None \<Rightarrow> Err api_unsupported
           | Some digits \<Rightarrow>
               if digits = [] \<or> \<not> list_all is_ascii_digit digits then Err api_unsupported
               else (case parse_u64 digits of
                   Ok n \<Rightarrow> if 1 \<le> unat n \<and> unat n \<le> MAX_LIST_LIMIT then Ok (unat n) else Err api_unsupported
                 | _ \<Rightarrow> Err api_unsupported)))"

definition record_message :: "scope \<Rightarrow> visible_record \<Rightarrow> (api_failure, record_dto) outcome" where
  "record_message scope row =
     and_then (map_err (\<lambda>_. api_internal)
         (map_m (\<lambda>(field, v). and_then (from_domain v scope) (\<lambda>v. Ok (field, v))) (entries (vis_values row)))) (\<lambda>values.
     Ok \<lparr>rcd_record_id = vis_id row, rcd_values = bt_of_list values\<rparr>)"

definition list_dto ::
  "host_env \<Rightarrow> host_state \<Rightarrow> snapshot \<Rightarrow> table_id \<Rightarrow> nat \<Rightarrow> string \<Rightarrow> request_channel \<Rightarrow> u64 \<Rightarrow>
     (api_failure, list_response_dto) outcome" where
  "list_dto E st snap table limit token channel now =
     and_then (ok_or api_denied (List.find (\<lambda>p. pol_table_id p = table) (app_policies (spec_def (snp_spec snap)))))
       (\<lambda>raw_policy.
     and_then (map_err (\<lambda>_. api_internal) (policy_check (snp_spec snap) raw_policy)) (\<lambda>policy.
     and_then (map_err (\<lambda>_. api_denied) (snapshot_for_operation (hen_access E HFreeze)
         ((hos_verifier st)\<lparr>pv_source := hen_source E HFreeze\<rparr>))) (\<lambda>frozen.
     and_then (map_err (\<lambda>_. api_denied) (resolve (frozen_at E frozen HResolve) token (hos_scope st) channel now Read))
       (\<lambda>original.
     and_then (map_err (\<lambda>_. api_denied) (project (hen_json E) (frozen_at E frozen (HTable 0)) token (hos_scope st) channel
         now (snp_facts snap) policy Query)) (\<lambda>projection.
     and_then (map_m (record_message (hos_scope st)) (take limit (prj_rows projection))) (\<lambda>records.
     and_then (map_err (\<lambda>_. api_denied) (resolve (verifier_at E st HFinal) token (hos_scope st) channel now Read))
       (\<lambda>current.
     if current \<noteq> original then Err api_denied
     else Ok \<lparr>lrd_api_version = API_VERSION, lrd_app_id = app_id (hos_scope st), lrd_table_id = table,
            lrd_release_id = snp_spec_identity snap, lrd_revision = RevisionDto (snp_revision snap),
            lrd_records = records, lrd_has_more = (length (prj_rows projection) > limit)\<rparr>)))))))"

definition list_handler ::
  "host_env \<Rightarrow> host_state \<Rightarrow> string \<Rightarrow> string \<Rightarrow> http_request \<Rightarrow> store_db \<Rightarrow> (api_failure, http_response) outcome" where
  "list_handler E st app table req db =
     and_then (host_authorize E st HAuthorize app (htr_headers req) Read False) (\<lambda>(token, channel, now).
     and_then (parse_limit (htr_query req)) (\<lambda>limit.
     and_then (map_err (\<lambda>_. api_validation) (table_id_new table)) (\<lambda>table.
     and_then (host_snapshot E st db) (\<lambda>snapshot.
     and_then (list_dto E st snapshot table limit token channel now) (\<lambda>response.
     and_then (map_err (\<lambda>_. api_internal) (encode_list (hen_list E) response)) json_bytes)))))"

section \<open>Commands and receipts\<close>

definition receipt_message :: "host_state \<Rightarrow> commit_receipt \<Rightarrow> receipt_response_dto" where
  "receipt_message st receipt =
     \<lparr>rrd_api_version = API_VERSION, rrd_app_id = app_id (hos_scope st),
      rrd_command_id = as_str (trc_command_id (crc_transition receipt)),
      rrd_record_id = trc_record_id (crc_transition receipt), rrd_release_id = crc_spec_identity receipt,
      rrd_request_key = crc_request_key receipt, rrd_revision = RevisionDto (crc_revision receipt),
      rrd_replayed = crc_replayed receipt\<rparr>"

definition receipt_response :: "host_env \<Rightarrow> host_state \<Rightarrow> commit_receipt \<Rightarrow> (api_failure, http_response) outcome" where
  "receipt_response E st receipt =
     (if crc_spec_identity receipt \<noteq> hos_release_id st then Err api_conflict
      else and_then (map_err (\<lambda>_. api_internal) (encode_receipt (hen_receipt E) (receipt_message st receipt))) json_bytes)"

definition raw_request :: "scope \<Rightarrow> command_request_dto \<Rightarrow> (api_failure, raw_command_request) outcome" where
  "raw_request scope request =
     and_then (map_err (\<lambda>_. api_validation) (command_id_new (crd_command_id request))) (\<lambda>command.
     Ok \<lparr>req_command_id = command, req_record_id = crd_record_id request,
         req_idempotency_key = crd_request_key request,
         req_inputs = bt_of_list (map (\<lambda>(i, v). (i, to_domain v scope)) (entries (crd_params request)))\<rparr>)"

text \<open>What a command handler does before the store: authority, form, the pinned release.\<close>

definition command_request ::
  "host_env \<Rightarrow> host_state \<Rightarrow> string \<Rightarrow> http_request \<Rightarrow>
     (api_failure, string \<times> request_channel \<times> u64 \<times> u64 \<times> raw_command_request) outcome" where
  "command_request E st app req =
     and_then (host_authorize E st HAuthorize app (htr_headers req) Write True) (\<lambda>(token, channel, now).
     and_then (no_query (htr_query req)) (\<lambda>_.
     if Option.bind (header_first (htr_headers req) ''content-type'') (hen_header_text E) \<noteq> Some ''application/json''
     then Err api_validation
     else
       and_then (ok_or api_validation (htr_body req)) (\<lambda>body.
       and_then (map_err (\<lambda>_. api_validation) (decode_command_request (hen_command E) body)) (\<lambda>request.
       if crd_release_id request \<noteq> hos_release_id st then Err api_conflict
       else and_then (raw_request (hos_scope st) request) (\<lambda>raw.
         Ok (token, channel, now, revision_get (crd_expected_revision request), raw))))))"

definition store_call :: "host_state \<Rightarrow> string \<Rightarrow> request_channel \<Rightarrow> u64 \<Rightarrow> store_caller" where
  "store_call st token channel now =
     \<lparr>scl_credential = token, scl_scope = hos_scope st, scl_channel = channel, scl_now = now\<rparr>"

definition command_handler ::
  "host_env \<Rightarrow> host_state \<Rightarrow> string \<Rightarrow> http_request \<Rightarrow> store_db \<Rightarrow> (api_failure, http_response) outcome \<times> store_db" where
  "command_handler E st app req db =
     (case command_request E st app req of
        Err e \<Rightarrow> (Err e, db)
      | Panic \<Rightarrow> (Panic, db)
      | Ok (token, channel, now, expected, raw) \<Rightarrow>
          (case store_execute (hen_json E) (hen_docs E) (hen_faults E) (hos_store st) (\<lambda>m. verifier_at E st (HStore m))
             (store_call st token channel now) expected raw db of
             (answer, db) \<Rightarrow>
               (and_then (map_err api_storage answer) (receipt_response E st), db)))"

definition receipt_handler ::
  "host_env \<Rightarrow> host_state \<Rightarrow> string \<Rightarrow> string \<Rightarrow> http_request \<Rightarrow> store_db \<Rightarrow> (api_failure, http_response) outcome" where
  "receipt_handler E st app key req db =
     and_then (host_authorize E st HAuthorize app (htr_headers req) Write False) (\<lambda>(token, channel, now).
     and_then (no_query (htr_query req)) (\<lambda>_.
     if \<not> request_key_valid key then Err api_validation
     else
       and_then (map_err api_storage (store_receipt (hen_json E) (hen_docs E) (hen_faults E) (hos_store st)
           (\<lambda>m. verifier_at E st (HStore m)) (store_call st token channel now) key db)) (\<lambda>found.
       and_then (ok_or api_not_found found) (receipt_response E st))))"

section \<open>The service\<close>

datatype route =
    DesignRoute string
  | RuntimeRoute string
  | TableRoute string string
  | CommandRoute string
  | ReceiptRoute string string
  | OtherRoute

definition handle ::
  "host_env \<Rightarrow> host_state \<Rightarrow> route \<Rightarrow> http_request \<Rightarrow> store_db \<Rightarrow> (api_failure, http_response) outcome \<times> store_db" where
  "handle E st route req db =
     (case route of
        DesignRoute app \<Rightarrow> (design_metadata E st app req db, db)
      | RuntimeRoute app \<Rightarrow> (runtime_metadata E st app req db, db)
      | TableRoute app table \<Rightarrow> (list_handler E st app table req db, db)
      | CommandRoute app \<Rightarrow> command_handler E st app req db
      | ReceiptRoute app key \<Rightarrow> (receipt_handler E st app key req db, db)
      | OtherRoute \<Rightarrow> (Err api_unsupported, db))"

definition put_header :: "string \<Rightarrow> string \<Rightarrow> headers \<Rightarrow> headers" where
  "put_header name v hs = filter (\<lambda>h. fst h \<noteq> name) hs @ [(name, v)]"

definition add_response_headers :: "string option \<Rightarrow> http_response \<Rightarrow> http_response" where
  "add_response_headers origin response =
     (let hs = put_header ''x-content-type-options'' ''nosniff''
                 (put_header ''cache-control'' ''no-store'' (rsp_headers response)) in
      response\<lparr>rsp_headers := (case origin of
         None \<Rightarrow> hs
       | Some o' \<Rightarrow> put_header ''vary'' ''Origin'' (put_header ''access-control-allow-origin'' o' hs))\<rparr>)"

definition fallback_error_body :: string where
  "fallback_error_body = (let q = [CHR 0x22] in
     ''{'' @ q @ ''api_version'' @ q @ '':1,'' @ q @ ''code'' @ q @ '':'' @ q @ ''internal'' @ q @ '','' @
     q @ ''message'' @ q @ '':'' @ q @ ''Operation unavailable'' @ q @ '','' @ q @ ''field'' @ q @ '':null}'')"

definition failure_response :: "host_env \<Rightarrow> api_failure \<Rightarrow> http_response" where
  "failure_response E e =
     (let dto = \<lparr>aed_api_version = API_VERSION, aed_code = apf_code e, aed_message = apf_message e,
                 aed_field = apf_field e\<rparr>;
          bytes = (case encode_api_error (hen_error E) dto of Ok bytes \<Rightarrow> bytes | _ \<Rightarrow> fallback_error_body) in
      add_response_headers None
        \<lparr>rsp_status = apf_status e, rsp_headers = [(''content-type'', ''application/json'')], rsp_body = bytes\<rparr>)"

text \<open>The middleware around every route. A panic of a handler answers nothing.\<close>

definition budget_exceeded :: "http_request \<Rightarrow> bool" where
  "budget_exceeded req \<longleftrightarrow> length (htr_headers req) > MAX_HEADERS
     \<or> sum_list (map (\<lambda>(name, v). length name + length v) (htr_headers req)) > MAX_HEADER_BYTES
     \<or> length (htr_uri req) > MAX_URI_BYTES
     \<or> length (header_all (htr_headers req) ''origin'') > 1
     \<or> length (header_all (htr_headers req) ''content-type'') > 1"

definition preflight_response :: http_response where
  "preflight_response = \<lparr>rsp_status = 204,
     rsp_headers = [(''access-control-allow-methods'', ''GET, POST, OPTIONS''),
                    (''access-control-allow-headers'', ''authorization, content-type'')], rsp_body = []\<rparr>"

definition serve ::
  "host_env \<Rightarrow> host_state \<Rightarrow> route \<Rightarrow> http_request \<Rightarrow> store_db \<Rightarrow> http_response option \<times> store_db" where
  "serve E st route req db =
     (let origin = header_first (htr_headers req) ''origin'' in
      if budget_exceeded req then (Some (failure_response E api_validation), db)
      else if (case origin of None \<Rightarrow> False
          | Some v \<Rightarrow> (case hen_header_text E v of None \<Rightarrow> True | Some v \<Rightarrow> \<not> allows_origin (hos_verifier st) v))
      then (Some (failure_response E api_denied), db)
      else if htr_method req = ''OPTIONS'' then
        (case origin of
           None \<Rightarrow> (Some (failure_response E api_denied), db)
         | Some v \<Rightarrow> (Some (add_response_headers (Some v) preflight_response), db))
      else
        (case handle E st route req db of
           (Ok response, db) \<Rightarrow> (Some (add_response_headers origin response), db)
         | (Err e, db) \<Rightarrow> (Some (add_response_headers origin (failure_response E e)), db)
         | (Panic, db) \<Rightarrow> (None, db)))"


section \<open>Authority of a request\<close>

lemma host_authorize_Ok:
  assumes "host_authorize E st m app hs grant mutation = Ok (token, channel, now)"
  shows "host_credential E hs = Ok token" and "app = as_str (app_id (hos_scope st))"
    and "\<exists>ctx. resolve (verifier_at E st m) token (hos_scope st) channel now grant = Ok ctx"
  using assms by (auto simp: host_authorize_def Let_def outcome_simps split: if_splits)

lemma host_authorize_refused:
  assumes "\<And>token channel now ctx. host_credential E hs = Ok token \<Longrightarrow>
      resolve (verifier_at E st m) token (hos_scope st) channel now grant \<noteq> Ok ctx"
  shows "\<exists>e. host_authorize E st m app hs grant mutation = Err e \<or> host_authorize E st m app hs grant mutation = Panic"
proof (cases "host_authorize E st m app hs grant mutation")
  case (Ok x)
  then obtain token channel now where "host_authorize E st m app hs grant mutation = Ok (token, channel, now)"
    by (cases x) auto
  from host_authorize_Ok(1,3) [OF this] assms show ?thesis by blast
qed auto

text \<open>A frozen reading gives one context for the whole of a handler.\<close>

lemma frozen_context:
  assumes "snapshot_for_operation E' v = Ok frozen"
    and "resolve (frozen_at E frozen m) token scope channel now grant = Ok ctx"
    and "resolve (frozen_at E frozen m') token' scope channel' now' grant' = Ok ctx'"
  shows "ctx' = ctx"
proof -
  obtain a where "pv_source frozen = MemorySource (Some a)"
    using snapshot_for_operation_source [OF assms(1)] by auto
  from pilot_resolve_frozen [OF this assms(2,3) [unfolded frozen_at_def]] show ?thesis .
qed

section \<open>What a list discloses\<close>

lemma vis_id_visible: "vis_id (visible_record policy row) = cr_id row"
  by (simp add: visible_record_def)

lemma record_message_Ok:
  assumes "record_message scope row = Ok message"
  shows "rcd_record_id message = vis_id row"
    and "map_option (\<lambda>d. to_domain d scope) (bt_get (rcd_values message) f) = bt_get (vis_values row) f"
proof -
  from assms obtain written where
    vals: "list_all2 (\<lambda>x y. (case x of (field, v) \<Rightarrow> and_then (from_domain v scope) (\<lambda>v. Ok (field, v))) = Ok y)
      (entries (vis_values row)) written"
    and message: "message = \<lparr>rcd_record_id = vis_id row, rcd_values = bt_of_list written\<rparr>"
    by (auto simp: record_message_def outcome_simps)
  show "rcd_record_id message = vis_id row" by (simp add: message)
  have pair: "list_all2 (\<lambda>x y. fst y = fst x \<and> to_domain (snd y) scope = snd x) (entries (vis_values row)) written"
    using vals by (rule list_all2_mono) (auto simp: and_then_Ok_iff to_domain_from_domain)
  then have keys: "map fst written = map fst (entries (vis_values row))"
    by (induction rule: list_all2_induct) auto
  have lookup: "map_option (\<lambda>d. to_domain d scope) (map_of ys f) = map_of xs f"
    if "list_all2 (\<lambda>x y. fst y = fst x \<and> to_domain (snd y) scope = snd x) xs ys" for xs ys
    using that by (induction rule: list_all2_induct) auto
  have "distinct (map fst written)" using bt_keys_distinct [of "vis_values row"] by (simp add: keys bt_keys_def)
  then have "bt_get (rcd_values message) f = map_of written f"
    by (simp add: message bt_get_of_list_distinct)
  with lookup [OF pair] show "map_option (\<lambda>d. to_domain d scope) (bt_get (rcd_values message) f) = bt_get (vis_values row) f"
    by (simp add: bt_get_def)
qed

lemma list_dto_Ok:
  assumes "list_dto E st snap table limit token channel now = Ok m"
  obtains ctx rule policy where
    "resolve (verifier_at E st HFinal) token (hos_scope st) channel now Read = Ok ctx"
    "List.find (\<lambda>p. pol_table_id p = table) (app_policies (spec_def (snp_spec snap))) = Some rule"
    "policy_check (snp_spec snap) rule = Ok policy"
    "list_all2 (\<lambda>row record'. record_message (hos_scope st) (visible_record policy row) = Ok record')
       (take limit (filter (\<lambda>row. allows policy ctx row Read) (crs_records (snp_facts snap)))) (lrd_records m)"
    "lrd_has_more m \<longleftrightarrow> limit < length (filter (\<lambda>row. allows policy ctx row Read) (crs_records (snp_facts snap)))"
    "lrd_table_id m = table" "lrd_release_id m = snp_spec_identity snap" "lrd_revision m = RevisionDto (snp_revision snap)"
    "lrd_app_id m = app_id (hos_scope st)"
proof -
  from assms obtain rule policy frozen ctx projection records where
    rule: "List.find (\<lambda>p. pol_table_id p = table) (app_policies (spec_def (snp_spec snap))) = Some rule"
    and policy: "policy_check (snp_spec snap) rule = Ok policy"
    and frozen: "snapshot_for_operation (hen_access E HFreeze) ((hos_verifier st)\<lparr>pv_source := hen_source E HFreeze\<rparr>) = Ok frozen"
    and ctx: "resolve (frozen_at E frozen HResolve) token (hos_scope st) channel now Read = Ok ctx"
    and proj: "project (hen_json E) (frozen_at E frozen (HTable 0)) token (hos_scope st) channel
         now (snp_facts snap) policy Query = Ok projection"
    and records: "map_m (record_message (hos_scope st)) (take limit (prj_rows projection)) = Ok records"
    and final: "resolve (verifier_at E st HFinal) token (hos_scope st) channel now Read = Ok ctx"
    and m: "m = \<lparr>lrd_api_version = API_VERSION, lrd_app_id = app_id (hos_scope st), lrd_table_id = table,
            lrd_release_id = snp_spec_identity snap, lrd_revision = RevisionDto (snp_revision snap),
            lrd_records = records, lrd_has_more = (length (prj_rows projection) > limit)\<rparr>"
    by (auto simp: list_dto_def outcome_simps split: if_splits)
  from proj obtain ctx' where ctx': "resolve (frozen_at E frozen (HTable 0)) token (hos_scope st) channel now Read = Ok ctx'"
    and rows: "prj_rows projection = map (visible_record policy)
      (filter (\<lambda>row. allows policy ctx' row Read) (crs_records (snp_facts snap)))"
    by (auto simp: project_Ok_iff)
  have "ctx' = ctx" by (rule frozen_context [OF frozen ctx ctx'])
  with rows records have "list_all2 (\<lambda>row record'. record_message (hos_scope st) (visible_record policy row) = Ok record')
       (take limit (filter (\<lambda>row. allows policy ctx row Read) (crs_records (snp_facts snap)))) records"
    by (simp add: map_m_Ok_iff take_map list_all2_map1)
  with \<open>ctx' = ctx\<close> rows show ?thesis
    by (intro that [OF final rule policy]) (simp_all add: m)
qed

text \<open>
  C7. A list discloses exactly the page it promises. A successful list answers, of the table asked for, the
  first at most 256 rows the caller may read under the policy of the table, of each row exactly the
  readable fields with the stored values, and whether more such rows exist; the caller's authority is the
  one in force when the rows were chosen and still in force at the end of the request.
\<close>

theorem list_discloses_exactly:
  assumes "list_handler E st app table req db = Ok response"
  shows "\<exists>token channel now snap ctx rule policy limit m.
    host_credential E (htr_headers req) = Ok token \<and> host_snapshot E st db = Ok snap
    \<and> resolve (verifier_at E st HFinal) token (hos_scope st) channel now Read = Ok ctx
    \<and> rule \<in> set (app_policies (spec_def (snp_spec snap))) \<and> as_str (pol_table_id rule) = table
    \<and> policy_check (snp_spec snap) rule = Ok policy
    \<and> parse_limit (htr_query req) = Ok limit \<and> 1 \<le> limit \<and> limit \<le> MAX_LIST_LIMIT
    \<and> encode_list (hen_list E) m = Ok (rsp_body response) \<and> rsp_status response = 200
    \<and> (let rows = filter (\<lambda>row. allows policy ctx row Read) (crs_records (snp_facts snap)) in
         length (lrd_records m) = min limit (length rows) \<and> (lrd_has_more m \<longleftrightarrow> limit < length rows)
         \<and> (\<forall>i < length (lrd_records m).
              rcd_record_id (lrd_records m ! i) = cr_id (rows ! i)
              \<and> (\<forall>f. map_option (\<lambda>d. to_domain d (hos_scope st)) (bt_get (rcd_values (lrd_records m ! i)) f)
                   = (if f \<in> set (bs_list (pol_read_fields rule)) then bt_get (cr_values (rows ! i)) f else None))))"
proof -
  from assms obtain token channel now limit tid snap m where
    auth: "host_authorize E st HAuthorize app (htr_headers req) Read False = Ok (token, channel, now)"
    and limit: "parse_limit (htr_query req) = Ok limit" and tid: "table_id_new table = Ok tid"
    and snap: "host_snapshot E st db = Ok snap"
    and dto: "list_dto E st snap tid limit token channel now = Ok m"
    and enc: "encode_list (hen_list E) m = Ok (rsp_body response)" and status: "rsp_status response = 200"
    by (auto simp: list_handler_def outcome_simps json_bytes_def split: prod.splits if_splits)
  have tid: "as_str tid = table" using tid by (auto simp: table_id_new_def ident_new_Ok_iff)
  have bound: "1 \<le> limit \<and> limit \<le> MAX_LIST_LIMIT"
    using limit by (auto simp: parse_limit_def MAX_LIST_LIMIT_def split: option.splits if_splits outcome.splits)
  from dto obtain ctx rule policy where
    ctx: "resolve (verifier_at E st HFinal) token (hos_scope st) channel now Read = Ok ctx"
    and rule: "List.find (\<lambda>p. pol_table_id p = tid) (app_policies (spec_def (snp_spec snap))) = Some rule"
    and policy: "policy_check (snp_spec snap) rule = Ok policy"
    and rows: "list_all2 (\<lambda>row record'. record_message (hos_scope st) (visible_record policy row) = Ok record')
       (take limit (filter (\<lambda>row. allows policy ctx row Read) (crs_records (snp_facts snap)))) (lrd_records m)"
    and more: "lrd_has_more m \<longleftrightarrow> limit < length (filter (\<lambda>row. allows policy ctx row Read) (crs_records (snp_facts snap)))"
    by (rule list_dto_Ok)
  let ?rows = "filter (\<lambda>row. allows policy ctx row Read) (crs_records (snp_facts snap))"
  have orp: "orp_rule policy = rule" using policy_check_Ok [OF policy] by simp
  have len: "length (lrd_records m) = min limit (length ?rows)" using list_all2_lengthD [OF rows] by simp
  have each: "rcd_record_id (lrd_records m ! i) = cr_id (?rows ! i)
      \<and> (\<forall>f. map_option (\<lambda>d. to_domain d (hos_scope st)) (bt_get (rcd_values (lrd_records m ! i)) f)
           = (if f \<in> set (bs_list (pol_read_fields rule)) then bt_get (cr_values (?rows ! i)) f else None))"
    if "i < length (lrd_records m)" for i
  proof -
    have "record_message (hos_scope st) (visible_record policy (?rows ! i)) = Ok (lrd_records m ! i)"
      using list_all2_nthD2 [OF rows that] that len by simp
    from record_message_Ok [OF this] show ?thesis
      by (simp add: vis_values_get orp vis_id_visible)
  qed
  from find_Some_mem [OF rule] have "rule \<in> set (app_policies (spec_def (snp_spec snap)))" "as_str (pol_table_id rule) = table"
    using tid by simp_all
  with host_authorize_Ok(1) [OF auth] snap ctx policy limit bound enc status more len each show ?thesis
    unfolding Let_def by blast
qed


section \<open>What metadata discloses\<close>

lemma table_metadata_runtime:
  assumes "table_metadata E st snap False frozen token channel now (index, table) = Ok part" and "t \<in> set part"
  obtains rule policy ctx row where
    "rule \<in> set (app_policies (spec_def (snp_spec snap)))" "pol_table_id rule = tbl_id table"
    "policy_check (snp_spec snap) rule = Ok policy"
    "resolve (frozen_at E frozen (HTable index)) token (hos_scope st) channel now Read = Ok ctx"
    "row \<in> set (crs_records (snp_facts snap))" "allows policy ctx row Read"
    "tmd_table_id t = tbl_id table"
    "\<forall>f\<in>set (tmd_fields t). fmd_field_id f \<in> set (bs_list (pol_read_fields rule))"
proof -
  obtain rule policy visible where
    rule: "List.find (\<lambda>p. pol_table_id p = tbl_id table) (app_policies (spec_def (snp_spec snap))) = Some rule"
    and policy: "policy_check (snp_spec snap) rule = Ok policy"
    and visible: "project (hen_json E) (frozen_at E frozen (HTable index)) token
               (hos_scope st) channel now (snp_facts snap) policy Query = Ok visible" "prj_rows visible \<noteq> []"
    and t: "t = \<lparr>tmd_table_id = tbl_id table, tmd_name = tbl_name table,
        tmd_fields = map field_metadata (filter (\<lambda>field. bs_contains (pol_read_fields rule) (fld_id field)) (tbl_fields table))\<rparr>"
    using assms
    by (cases "List.find (\<lambda>p. pol_table_id p = tbl_id table) (app_policies (spec_def (snp_spec snap)))")
      (auto simp: table_metadata_def Let_def outcome_simps split: if_splits)
  from visible obtain ctx row where "resolve (frozen_at E frozen (HTable index)) token (hos_scope st) channel now Read = Ok ctx"
    "row \<in> set (crs_records (snp_facts snap))" "allows policy ctx row Read"
    by (auto simp: project_Ok_iff filter_empty_conv)
  then show ?thesis
    using that find_Some_mem [OF rule] policy by (auto simp: t field_metadata_def bs_contains_iff)
qed

lemma command_metadata_Some:
  assumes "command_metadata spec tables (command, ids) = Some c"
  shows "cmd'_command_id c = as_str (cmd_command_id command)" and "cmd'_eligible_record_ids c = ids"
    and "\<exists>table\<in>set tables. tmd_table_id table = cmd'_table_id c"
  using assms
  by (auto simp: command_metadata_def bind_eq_Some_conv dest!: find_Some_mem)

lemma runtime_dto_discloses:
  assumes "metadata_dto E st snap False token channel now = Ok m"
  shows "\<exists>ctx. resolve (verifier_at E st HFinal) token (hos_scope st) channel now Read = Ok ctx
    \<and> mrd_canonical_appspec m = None
    \<and> (\<forall>t\<in>set (mrd_tables m). \<exists>rule\<in>set (app_policies (spec_def (snp_spec snap))). \<exists>policy row.
         pol_table_id rule = tmd_table_id t \<and> policy_check (snp_spec snap) rule = Ok policy
         \<and> row \<in> set (crs_records (snp_facts snap)) \<and> allows policy ctx row Read
         \<and> (\<forall>f\<in>set (tmd_fields t). fmd_field_id f \<in> set (bs_list (pol_read_fields rule))))
    \<and> (\<forall>c\<in>set (mrd_commands m).
         resolve (verifier_at E st HFinalWrite) token (hos_scope st) channel now Write = Ok ctx
         \<and> (\<exists>table\<in>set (mrd_tables m). tmd_table_id table = cmd'_table_id c)
         \<and> (\<exists>command\<in>set (app_commands (spec_def (snp_spec snap))).
              cmd'_command_id c = as_str (cmd_command_id command)
              \<and> set (cmd'_eligible_record_ids c) = listed (snp_spec snap) (snp_facts snap) ctx command
              \<and> cmd'_eligible_record_ids c \<noteq> []))"
proof -
  from assms obtain frozen ctx parts declarations commands where
    frozen: "snapshot_for_operation (hen_access E HFreeze) ((hos_verifier st)\<lparr>pv_source := hen_source E HFreeze\<rparr>) = Ok frozen"
    and ctx: "resolve (frozen_at E frozen HResolve) token (hos_scope st) channel now Read = Ok ctx"
    and parts: "map_m (table_metadata E st snap False frozen token channel now)
      (enumerate 0 (app_tables (spec_def (snp_spec snap)))) = Ok parts"
    and decl: "command_declarations E st snap False frozen token channel now = Ok declarations"
    and final: "resolve (verifier_at E st HFinal) token (hos_scope st) channel now Read = Ok ctx"
    and commands: "offered_commands E st False token channel now ctx
      (List.map_filter (command_metadata (snp_spec snap) (concat parts)) declarations) = Ok commands"
    and m: "m = metadata_message st snap None (concat parts) commands"
    by (auto simp: metadata_dto_def Let_def and_then_Ok_iff map_err_Ok_iff split: if_split_asm)
  have tables: "mrd_tables m = concat parts" "mrd_commands m = commands" "mrd_canonical_appspec m = None"
    by (simp_all add: m metadata_message_def)
  have table: "\<exists>rule\<in>set (app_policies (spec_def (snp_spec snap))). \<exists>policy row.
         pol_table_id rule = tmd_table_id t \<and> policy_check (snp_spec snap) rule = Ok policy
         \<and> row \<in> set (crs_records (snp_facts snap)) \<and> allows policy ctx row Read
         \<and> (\<forall>f\<in>set (tmd_fields t). fmd_field_id f \<in> set (bs_list (pol_read_fields rule)))"
    if "t \<in> set (concat parts)" for t
  proof -
    from that obtain part where part: "part \<in> set parts" "t \<in> set part" by auto
    with parts obtain x where x: "table_metadata E st snap False frozen token channel now x = Ok part"
      by (auto simp: map_m_Ok_iff dest: list_all2_source)
    obtain index tab where "x = (index, tab)" by (cases x)
    with x have "table_metadata E st snap False frozen token channel now (index, tab) = Ok part" by simp
    from this part(2) obtain rule policy ctx' row where
      *: "rule \<in> set (app_policies (spec_def (snp_spec snap)))" "pol_table_id rule = tbl_id tab"
      "policy_check (snp_spec snap) rule = Ok policy"
      "resolve (frozen_at E frozen (HTable index)) token (hos_scope st) channel now Read = Ok ctx'"
      "row \<in> set (crs_records (snp_facts snap))" "allows policy ctx' row Read"
      "tmd_table_id t = tbl_id tab"
      "\<forall>f\<in>set (tmd_fields t). fmd_field_id f \<in> set (bs_list (pol_read_fields rule))"
      by (rule table_metadata_runtime)
    moreover have "ctx' = ctx" by (rule frozen_context [OF frozen ctx *(4)])
    ultimately show ?thesis by (intro bexI [OF _ *(1)]) auto
  qed
  have command: "resolve (verifier_at E st HFinalWrite) token (hos_scope st) channel now Write = Ok ctx
         \<and> (\<exists>table\<in>set (concat parts). tmd_table_id table = cmd'_table_id c)
         \<and> (\<exists>command\<in>set (app_commands (spec_def (snp_spec snap))).
              cmd'_command_id c = as_str (cmd_command_id command)
              \<and> set (cmd'_eligible_record_ids c) = listed (snp_spec snap) (snp_facts snap) ctx command
              \<and> cmd'_eligible_record_ids c \<noteq> [])"
    if "c \<in> set commands" for c
  proof -
    from that commands have writer: "resolve (verifier_at E st HFinalWrite) token (hos_scope st) channel now Write = Ok ctx"
      and c: "c \<in> set (List.map_filter (command_metadata (snp_spec snap) (concat parts)) declarations)"
      by (auto simp: offered_commands_def split: if_splits outcome.splits)
    then obtain command ids where mem: "(command, ids) \<in> set declarations"
      and some: "command_metadata (snp_spec snap) (concat parts) (command, ids) = Some c"
      by (auto simp: List.map_filter_def)
    from decl mem obtain ctx' where ctx': "resolve (frozen_at E frozen HActionsRead) token (hos_scope st) channel now Read = Ok ctx'"
      and loop: "fold_m (available_step (hen_json E) (hos_scope st) (snp_spec snap) (snp_facts snap) ctx' ctx') []
        (app_commands (spec_def (snp_spec snap))) = Ok declarations"
      by (auto simp: command_declarations_def available_command_records_def outcome_simps
          split: outcome.splits if_splits)
    have "ctx' = ctx" by (rule frozen_context [OF frozen ctx ctx'])
    with available_loop(1) [OF loop] mem have "command \<in> set (app_commands (spec_def (snp_spec snap)))" "ids \<noteq> []"
      "set ids = listed (snp_spec snap) (snp_facts snap) ctx command" by auto
    with writer command_metadata_Some [OF some] show ?thesis by blast
  qed
  from final tables table command show ?thesis by (intro exI [of _ ctx]) simp
qed


text \<open>
  C8. Runtime metadata discloses no more than the caller may use. It never carries the definition; it lists
  a table only if some row of it is readable by the caller, and of it only readable fields; and it
  offers a command only to a caller who may write, on a listed table, with exactly the rows of the
  table that the caller may read and write and whose state and guards pass the command's transition
  check. (Executing it there may still be refused for its inputs or by the validation of the result;
  and a row the caller may write but not read is not offered.) The authority is the one in force at
  the end of the request.
\<close>

theorem runtime_metadata_discloses_only:
  assumes "runtime_metadata E st app req db = Ok response"
  shows "\<exists>token channel now snap ctx m.
    host_credential E (htr_headers req) = Ok token \<and> host_snapshot E st db = Ok snap
    \<and> encode_metadata (hen_metadata E) m = Ok (rsp_body response) \<and> rsp_status response = 200
    \<and> resolve (verifier_at E st HFinal) token (hos_scope st) channel now Read = Ok ctx
    \<and> mrd_canonical_appspec m = None
    \<and> (\<forall>t\<in>set (mrd_tables m). \<exists>rule\<in>set (app_policies (spec_def (snp_spec snap))). \<exists>policy row.
         pol_table_id rule = tmd_table_id t \<and> policy_check (snp_spec snap) rule = Ok policy
         \<and> row \<in> set (crs_records (snp_facts snap)) \<and> allows policy ctx row Read
         \<and> (\<forall>f\<in>set (tmd_fields t). fmd_field_id f \<in> set (bs_list (pol_read_fields rule))))
    \<and> (\<forall>c\<in>set (mrd_commands m).
         resolve (verifier_at E st HFinalWrite) token (hos_scope st) channel now Write = Ok ctx
         \<and> (\<exists>table\<in>set (mrd_tables m). tmd_table_id table = cmd'_table_id c)
         \<and> (\<exists>command\<in>set (app_commands (spec_def (snp_spec snap))).
              cmd'_command_id c = as_str (cmd_command_id command)
              \<and> set (cmd'_eligible_record_ids c) = listed (snp_spec snap) (snp_facts snap) ctx command
              \<and> cmd'_eligible_record_ids c \<noteq> []))"
proof -
  from assms obtain snap token channel now m where snap: "host_snapshot E st db = Ok snap"
    and auth: "host_authorize E st HAgain app (htr_headers req) Read False = Ok (token, channel, now)"
    and dto: "metadata_dto E st snap False token channel now = Ok m"
    and enc: "encode_metadata (hen_metadata E) m = Ok (rsp_body response)" "rsp_status response = 200"
    by (auto simp: runtime_metadata_def metadata_handler_def metadata_response_def json_bytes_def outcome_simps
        split: prod.splits if_splits)
  show ?thesis
    by (rule exE [OF runtime_dto_discloses [OF dto]], rule exI [of _ token], rule exI [of _ channel],
        rule exI [of _ now], rule exI [of _ snap], rule exI, rule exI [of _ m], intro conjI)
      ((rule host_authorize_Ok(1) [OF auth] snap enc | (elim conjE, assumption))+)
qed

section \<open>What changes the database\<close>

lemma command_request_Ok:
  assumes "command_request E st app req = Ok (token, channel, now, expected, raw)"
  shows "\<exists>body request. htr_body req = Some body \<and> decode_command_request (hen_command E) body = Ok request
      \<and> crd_release_id request = hos_release_id st \<and> expected = revision_get (crd_expected_revision request)
      \<and> raw_request (hos_scope st) request = Ok raw"
    and "host_authorize E st HAuthorize app (htr_headers req) Write True = Ok (token, channel, now)"
  using assms by (auto simp: command_request_def outcome_simps split: prod.splits if_splits)

lemma raw_request_Ok:
  assumes "raw_request scope request = Ok raw"
  shows "as_str (req_command_id raw) = crd_command_id request" and "req_record_id raw = crd_record_id request"
    and "req_idempotency_key raw = crd_request_key request"
    and "bt_get (req_inputs raw) f = map_option (\<lambda>d. to_domain d scope) (bt_get (crd_params request) f)"
proof -
  from assms have raw: "raw = \<lparr>req_command_id = Ident (crd_command_id request), req_record_id = crd_record_id request,
         req_idempotency_key = crd_request_key request,
         req_inputs = bt_of_list (map (\<lambda>(i, v). (i, to_domain v scope)) (entries (crd_params request)))\<rparr>"
    by (auto simp: raw_request_def command_id_new_def outcome_simps)
  then show "as_str (req_command_id raw) = crd_command_id request" "req_record_id raw = crd_record_id request"
    "req_idempotency_key raw = crd_request_key request" by simp_all
  have keys: "map fst (map (\<lambda>(i, v). (i, to_domain v scope)) (entries (crd_params request))) = bt_keys (crd_params request)"
    by (simp add: bt_keys_def comp_def split_def)
  have "map_of (map (\<lambda>(i, v). (i, to_domain v scope)) xs) f = map_option (\<lambda>d. to_domain d scope) (map_of xs f)" for xs
    by (induction xs) auto
  moreover have "bt_get (req_inputs raw) f = map_of (map (\<lambda>(i, v). (i, to_domain v scope)) (entries (crd_params request))) f"
    unfolding raw raw_command_request.select_convs
    by (rule bt_get_of_list_distinct) (simp only: keys bt_keys_distinct)
  ultimately show "bt_get (req_inputs raw) f = map_option (\<lambda>d. to_domain d scope) (bt_get (crd_params request) f)"
    by (simp add: bt_get_def)
qed

text \<open>
  C6. Only an authorized command changes the database. Whatever is asked of the service on whatever route:
  if any table changed, then the request was a command of the host's own application, its credential was
  entitled to write when it arrived and still at the end of the store's transaction, its body was a valid message
  for the pinned release, and the change is the commit of exactly that message's command at the
  revision it expected.
\<close>

theorem only_authorized_commands_change:
  assumes "serve E st route req db = (response, db')" and "db' \<noteq> db"
  shows "\<exists>token channel now body request raw receipt ctx.
    route = CommandRoute (as_str (app_id (hos_scope st)))
    \<and> host_credential E (htr_headers req) = Ok token
    \<and> resolve (verifier_at E st HAuthorize) token (hos_scope st) channel now Write = Ok ctx
    \<and> is_ok (resolve (verifier_at E st (HStore AtEnd)) token (hos_scope st) channel now Write)
    \<and> htr_body req = Some body \<and> decode_command_request (hen_command E) body = Ok request
    \<and> crd_release_id request = hos_release_id st
    \<and> as_str (req_command_id raw) = crd_command_id request \<and> req_record_id raw = crd_record_id request
    \<and> (\<forall>f. bt_get (req_inputs raw) f = map_option (\<lambda>d. to_domain d (hos_scope st)) (bt_get (crd_params request) f))
    \<and> store_execute (hen_json E) (hen_docs E) (hen_faults E) (hos_store st) (\<lambda>m. verifier_at E st (HStore m))
        (store_call st token channel now) (revision_get (crd_expected_revision request)) raw db = (Ok receipt, db')
    \<and> \<not> crc_replayed receipt"
proof -
  from assms obtain answer where handled: "handle E st route req db = (answer, db')"
    by (auto simp: serve_def Let_def split: if_splits option.splits prod.splits outcome.splits)
  with assms(2) obtain app where route: "route = CommandRoute app"
    and cmd: "command_handler E st app req db = (answer, db')"
    by (auto simp: handle_def split: route.splits)
  with assms(2) obtain token channel now expected raw committed' where
    request: "command_request E st app req = Ok (token, channel, now, expected, raw)"
    and ex: "store_execute (hen_json E) (hen_docs E) (hen_faults E) (hos_store st) (\<lambda>m. verifier_at E st (HStore m))
             (store_call st token channel now) expected raw db = (committed', db')"
    by (auto simp: command_handler_def split: outcome.splits prod.splits)
  note auth = command_request_Ok(2) [OF request]
  from ex assms(2) execute_at_failed obtain receipt where receipt: "committed' = Ok receipt"
    unfolding store_execute_def by (metis is_ok_iff)
  from ex receipt have "execute_in (hen_json E) (hen_docs E) (hen_faults E) (hos_store st) (\<lambda>m. verifier_at E st (HStore m))
      (store_call st token channel now) expected raw None db = Ok (receipt, db')"
    by (simp add: store_execute_def execute_at_Ok)
  then have fresh: "\<not> crc_replayed receipt
      \<and> is_ok (resolve (verifier_at E st (HStore AtEnd)) token (hos_scope st) channel now Write)"
  proof (cases rule: execute_in_Ok)
    case replayed
    with assms(2) show ?thesis by simp
  next
    case (fresh ctx snap p intent batch new_facts)
    from fresh(9) have "\<not> crc_replayed receipt"
      unfolding committed_def Let_def by (metis (no_types) commit_receipt.select_convs(3))
    with fresh(10) show ?thesis
      by (auto simp: revalidate_def store_resolve_def store_call_def outcome_simps)
  qed
  from command_request_Ok(1) [OF request] obtain body dto where
    "htr_body req = Some body" "decode_command_request (hen_command E) body = Ok dto"
    "crd_release_id dto = hos_release_id st" "expected = revision_get (crd_expected_revision dto)"
    and raw: "raw_request (hos_scope st) dto = Ok raw" by blast
  with host_authorize_Ok [OF auth] route fresh ex receipt raw_request_Ok [OF raw] show ?thesis by blast
qed

section \<open>What a stranger learns\<close>

lemma handle_unauthorized:
  assumes "\<And>token channel now grant ctx. host_credential E (htr_headers req) = Ok token \<Longrightarrow>
      resolve (verifier_at E st HAuthorize) token (hos_scope st) channel now grant \<noteq> Ok ctx"
  shows "\<exists>answer. \<forall>db. handle E st route req db = (answer, db)"
proof -
  have refused: "(\<exists>e. host_authorize E st HAuthorize app (htr_headers req) grant mutation = Err e)
      \<or> host_authorize E st HAuthorize app (htr_headers req) grant mutation = Panic" for app grant mutation
    using host_authorize_refused [of E "htr_headers req" st HAuthorize grant app mutation] assms by blast
  show ?thesis
  proof (cases route)
    case (DesignRoute app)
    with refused [of app Design False] show ?thesis
      by (auto simp: handle_def design_metadata_def metadata_handler_def)
  next
    case (RuntimeRoute app)
    with refused [of app Read False] show ?thesis
      by (auto simp: handle_def runtime_metadata_def metadata_handler_def)
  next
    case (TableRoute app table)
    with refused [of app Read False] show ?thesis by (auto simp: handle_def list_handler_def)
  next
    case (CommandRoute app)
    with refused [of app Write True] show ?thesis
      by (auto simp: handle_def command_handler_def command_request_def)
  next
    case (ReceiptRoute app key)
    with refused [of app Write False] show ?thesis by (auto simp: handle_def receipt_handler_def)
  qed (auto simp: handle_def)
qed

text \<open>
  A caller without authority learns nothing of the data. If the request's credential resolves for no
  grant, the answer on any route is one and the same for every content of the store, and nothing
  changes.
\<close>

theorem stranger_learns_nothing:
  assumes "\<And>token channel now grant ctx. host_credential E (htr_headers req) = Ok token \<Longrightarrow>
      resolve (verifier_at E st HAuthorize) token (hos_scope st) channel now grant \<noteq> Ok ctx"
  shows "serve E st route req db = (fst (serve E st route req db'), db)"
proof -
  from handle_unauthorized [OF assms] obtain answer where "\<And>db. handle E st route req db = (answer, db)" by blast
  then show ?thesis
    by (auto simp: serve_def Let_def split: option.split outcome.split)
qed

end
