(* ===== verification/Wire_Totality.thy ===== *)
theory Wire_Totality
  imports Wire
begin

text \<open>No message, and no text in place of one, makes the transport panic, at either end.\<close>

section \<open>Messages\<close>

lemma unique_loop_total: "(\<And>x. g x \<noteq> Panic) \<Longrightarrow> unique_loop seen k e g xs \<noteq> Panic"
  by (rule unique_loop_not_Panic) simp

lemma wire_limit_total [simp]: "wire_limit n bound resource \<noteq> Panic"
  by (simp add: wire_limit_def)

lemma wire_names_total [simp]: "wire_name v \<noteq> Panic" "wire_command_id v \<noteq> Panic" "wire_request_key v \<noteq> Panic"
  "wire_release_id v \<noteq> Panic" "check_version n \<noteq> Panic"
  by (simp_all add: wire_name_def wire_command_id_def wire_request_key_def wire_release_id_def check_version_def)

lemma validate_values_total [simp]: "validate_values vs \<noteq> Panic"
proof -
  have "validate_value v \<noteq> Panic" for v by (cases v) (simp_all add: validate_value_def)
  then show ?thesis by (simp add: validate_values_def and_then_Panic_iff for_each_not_Panic)
qed

lemma metadata_fields_total [simp]: "metadata_fields fs \<noteq> Panic"
  by (simp add: metadata_fields_def and_then_Panic_iff unique_loop_total)

lemma validate_command_request_total [simp]: "validate_command_request m \<noteq> Panic"
  by (simp add: validate_command_request_def and_then_Panic_iff)

lemma validate_metadata_total [simp]: "validate_metadata m \<noteq> Panic"
proof -
  have "validate_table s table \<noteq> Panic" for s table
    by (cases s) (auto simp: validate_table_def and_then_Panic_iff fold_m_not_Panic)
  moreover have "validate_command command \<noteq> Panic" for command
    by (simp add: validate_command_def and_then_Panic_iff unique_loop_total)
  ultimately show ?thesis
    by (auto simp: validate_metadata_def and_then_Panic_iff for_each_not_Panic fold_m_not_Panic unique_loop_total)
qed

lemma validate_list_total [simp]: "validate_list m \<noteq> Panic"
  by (simp add: validate_list_def and_then_Panic_iff unique_loop_total)

lemma validate_receipt_response_total [simp]: "validate_receipt_response m \<noteq> Panic"
  by (simp add: validate_receipt_response_def and_then_Panic_iff)

lemma wire_preflight_total [simp]: "wire_preflight bytes \<noteq> Panic"
proof -
  have "wire_scan_step s c \<noteq> Panic" for s c
    by (auto simp: wire_scan_step_def wire_scan_byte_def Let_def and_then_Panic_iff)
  then show ?thesis by (simp add: wire_preflight_def and_then_Panic_iff fold_m_not_Panic)
qed

lemma wire_encode_total: "validate m \<noteq> Panic \<Longrightarrow> wire_encode version validate W m \<noteq> Panic"
  by (simp add: wire_encode_def and_then_Panic_iff fold_m_not_Panic wire_buffer_def)

lemma encode_total [simp]: "encode_metadata W1 m1 \<noteq> Panic" "encode_list W2 m2 \<noteq> Panic" "encode_receipt W3 m3 \<noteq> Panic"
  by (simp_all add: encode_metadata_def encode_list_def encode_receipt_def wire_encode_total)

lemma unique_keys_total [simp]: "unique_keys doc \<noteq> Panic"
proof (induction doc rule: unique_keys.induct)
  case (3 ds tail)
  then show ?case
    by (auto simp: and_then_Panic_iff json_tail_def intro!: for_each_not_Panic split: option.splits)
next
  case (4 es tail)
  have "fold_m (\<lambda>keys (key, d). if key \<in> keys then Err (DuplicateKeyFound key)
         else and_then (unique_keys d) (\<lambda>_. Ok (insert key keys))) {} es \<noteq> Panic"
    using 4 by (intro fold_m_not_Panic) (auto simp: and_then_Panic_iff split: prod.splits)
  then show ?case by (auto simp: and_then_Panic_iff json_tail_def split: option.splits)
qed auto

lemma wire_decode_total:
  "(\<And>bytes. wj_reader W bytes \<noteq> Panic) \<Longrightarrow> (\<And>m. validate m \<noteq> Panic) \<Longrightarrow>
     wire_decode version validate W bytes \<noteq> Panic"
  by (auto simp: wire_decode_def and_then_Panic_iff map_err_Panic_iff split: option.splits)

lemma decode_command_request_total:
  "(\<And>bytes. wj_reader W bytes \<noteq> Panic) \<Longrightarrow> decode_command_request W bytes \<noteq> Panic"
  by (simp add: decode_command_request_def wire_decode_total)

lemma validate_api_error_total [simp]: "validate_api_error m \<noteq> Panic"
  by (simp add: validate_api_error_def and_then_Panic_iff split: option.split)

end
