(* ===== verification/Service.thy ===== *)
theory Service
  imports Host Wire_Totality
begin

text \<open>
  The service as a whole: no request, no content of the database and no failure of it makes the host
  panic; and one concrete host, on which the theorems about the service are exercised.
\<close>

section \<open>No panic\<close>

text \<open>The typed readers of \<open>serde_json\<close> answer a value or an error.\<close>

definition readers_total :: "serde \<Rightarrow> bool" where
  "readers_total J \<longleftrightarrow> (\<forall>bytes. de_spec J bytes \<noteq> Panic \<and> de_records J bytes \<noteq> Panic)"

named_theorems no_panic \<open>operations that never panic\<close>

lemma and_then_total: "m \<noteq> Panic \<Longrightarrow> (\<And>x. m = Ok x \<Longrightarrow> f x \<noteq> Panic) \<Longrightarrow> and_then m f \<noteq> Panic"
  by (cases m) auto

lemma map_err_total [simp]: "map_err g m \<noteq> Panic \<longleftrightarrow> m \<noteq> Panic"
  by (cases m) auto

lemma bounded_decode_total: "(\<And>bytes. r bytes \<noteq> Panic) \<Longrightarrow> bounded_decode r bytes \<noteq> Panic"
  by (simp add: bounded_decode_def and_then_Panic_iff map_err_Panic_iff)

lemma db_run_total [simp]: "db_run F call r \<noteq> Panic \<longleftrightarrow> F call \<or> r \<noteq> Panic"
  by (simp add: db_run_def)

lemma store_load_total:
  assumes "readers_total J"
  shows "store_load J Q F db scope \<noteq> Panic"
proof -
  have "spec_decode J bytes \<noteq> Panic" for bytes
    using assms bounded_decode_total [of "de_spec J"] compile_never_panics
    by (auto simp: spec_decode_def readers_total_def and_then_Panic_iff)
  moreover have "decode_records J spec scope bytes \<noteq> Panic" for spec bytes
    using assms bounded_decode_total [of "de_records J"]
    by (auto simp: decode_records_def readers_total_def and_then_Panic_iff)
  ultimately show ?thesis
    by (auto simp: store_load_def and_then_Panic_iff map_err_Panic_iff spec_encode_def checked_records_encode_def db_run_def)
qed

lemma store_resolve_total: "total_host (V m) \<Longrightarrow> store_resolve V m c \<noteq> Panic"
  by (simp add: store_resolve_def map_err_Panic_iff total_host.resolve_total)

lemma check_binding_total [simp]: "check_binding S ctx \<noteq> Panic"
  by (simp add: check_binding_def)

lemma revalidate_total: "total_host (V AtEnd) \<Longrightarrow> revalidate S V c ctx \<noteq> Panic"
  by (auto simp: revalidate_def and_then_Panic_iff store_resolve_total)

lemma store_prepare_total:
  assumes "total_host (V AtPrepare)" and "store_load J Q F db scope = Ok snap"
  shows "store_prepare J V c ctx snap request \<noteq> Panic"
  using prepare_command_not_Panic [OF total_host.snapshot_total [OF assms(1)] store_load_valid(2) [OF assms(2)]]
  by (auto simp: store_prepare_def and_then_Panic_iff map_err_Panic_iff)

lemma store_encode_total [simp]: "store_encode written \<noteq> Panic"
  by (auto simp: store_encode_def and_then_Panic_iff)

lemma normalized_identity_total [simp]: "normalized_identity Q snap expected semantic \<noteq> Panic"
  by (auto simp: normalized_identity_def and_then_Panic_iff)

lemma load_receipt_total [simp]: "load_receipt Q F db scope actor key \<noteq> Panic"
  by (auto simp: load_receipt_def db_run_def and_then_Panic_iff split: option.split)

lemma validate_receipt_total [simp]: "validate_receipt snap request expected receipt \<noteq> Panic"
  by (auto simp: validate_receipt_def and_then_Panic_iff)

lemma sql_insert_total [simp]: "sql_insert check key row table \<noteq> Panic"
  by (simp add: sql_insert_def)

lemma fail_at_total [simp]: "fail_at fault stage \<noteq> Panic"
  by (simp add: fail_at_def)

lemma commit_batch_total [simp]: "commit_batch J Q F c snap expected request fault intent batch new_facts db \<noteq> Panic"
proof -
  have "insert_event Q F app revision sql identity table x \<noteq> Panic" for app revision sql identity table x
    by (cases x) (auto simp: insert_event_def and_then_Panic_iff db_run_def)
  then have "write_events Q F scope snap fault batch revision sql db \<noteq> Panic" for scope revision sql db
    by (auto simp: write_events_def and_then_Panic_iff fold_m_not_Panic)
  moreover have "write_facts J F scope snap expected fault new_facts db \<noteq> Panic" for scope db
    by (auto simp: write_facts_def and_then_Panic_iff map_err_Panic_iff checked_records_encode_def db_run_def)
  moreover have "write_audit Q F c snap expected request fault batch revision sql db \<noteq> Panic" for revision sql db
    by (auto simp: write_audit_def and_then_Panic_iff db_run_def)
  moreover have "write_receipt Q F scope snap expected request fault intent batch revision db \<noteq> Panic" for scope revision db
    by (auto simp: write_receipt_def Let_def and_then_Panic_iff db_run_def)
  ultimately show ?thesis by (auto simp: commit_batch_def and_then_Panic_iff)
qed

lemma execute_at_total:
  assumes J: "readers_total J" and V: "\<And>m. total_host (V m)"
  shows "fst (execute_at J Q F S V c expected request fault db) \<noteq> Panic"
proof -
  have fresh: "execute_fresh J Q F S V c expected request fault ctx snap p intent db \<noteq> Panic"
    if "store_load J Q F db (scl_scope c) = Ok snap" "store_prepare J V c ctx snap request = Ok p" for ctx snap p intent
  proof -
    have "decide_command J p (snp_revision snap) \<noteq> Panic"
      by (rule decide_command_not_Panic) (rule store_prepare_Ok(2) [OF that(2,1)])
    moreover have "fold_m (\<lambda>rows w. ok_or CorruptSnapshot (replace_row rows w)) rows ws \<noteq> Panic" for rows ws
      by (rule fold_m_not_Panic) simp
    ultimately show ?thesis
      using revalidate_total [OF V] by (auto simp: execute_fresh_def and_then_Panic_iff map_err_Panic_iff)
  qed
  have "replay_receipt S V c expected request ctx snap intent previous receipt \<noteq> Panic" for ctx snap intent previous receipt
    using revalidate_total [OF V] by (auto simp: replay_receipt_def and_then_Panic_iff)
  with fresh have "execute_in J Q F S V c expected request fault db \<noteq> Panic"
    using store_resolve_total [OF V] store_load_total [OF J] store_prepare_total [OF V]
    unfolding execute_in_def
    by (intro and_then_total) (auto simp: and_then_Panic_iff split: option.split)
  then show ?thesis
    by (auto simp: execute_at_def transaction_def store_check_scope_def db_run_def split: outcome.splits prod.splits)
qed

lemma store_receipt_total:
  assumes J: "readers_total J" and V: "\<And>m. total_host (V m)"
  shows "store_receipt J Q F S V c key db \<noteq> Panic"
proof -
  have "receipt_in J Q F S V c ctx key db \<noteq> Panic" for ctx
    unfolding receipt_in_def
    using store_load_total [OF J] store_prepare_total [OF V] revalidate_total [OF V]
    by (intro and_then_total) (auto simp: and_then_Panic_iff split: option.split)
  then show ?thesis
    using store_resolve_total [OF V]
    by (auto simp: store_receipt_def store_check_scope_def db_run_def and_then_Panic_iff)
qed


section \<open>Handlers\<close>

definition host_env_total :: "host_env \<Rightarrow> bool" where
  "host_env_total E \<longleftrightarrow> readers_total (hen_json E) \<and> (\<forall>bytes. wj_reader (hen_command E) bytes \<noteq> Panic)"

lemma resolve_at_total [simp]: "resolve (verifier_at E st m) token scope channel now grant \<noteq> Panic"
  "resolve (frozen_at E frozen m) token scope channel now grant \<noteq> Panic"
  by (simp_all add: verifier_at_def frozen_at_def pilot.resolve_total)

lemma snapshot_for_operation_total [simp]: "snapshot_for_operation E' v \<noteq> Panic"
  by (simp add: snapshot_for_operation_def and_then_Panic_iff)

lemma policy_check_total [simp]: "policy_check spec rule \<noteq> Panic"
  by (simp add: policy_check_def)

lemma project_at_total [simp]: "project J (frozen_at E frozen m) token scope channel now facts policy purpose \<noteq> Panic"
  by (auto simp: project_def Let_def and_then_Panic_iff map_err_Panic_iff)

lemma host_credential_total [simp]: "host_credential E hs \<noteq> Panic"
  by (auto simp: host_credential_def and_then_Panic_iff split: list.split)

lemma host_authorize_total [simp]: "host_authorize E st m app hs grant mutation \<noteq> Panic"
  by (auto simp: host_authorize_def Let_def and_then_Panic_iff map_err_Panic_iff split: option.split)

lemma host_snapshot_total: "readers_total (hen_json E) \<Longrightarrow> host_snapshot E st db \<noteq> Panic"
  by (auto simp: host_snapshot_def store_snapshot_def store_check_scope_def and_then_Panic_iff map_err_Panic_iff
      db_run_def store_load_total)

lemma host_snapshot_declarations: "host_snapshot E st db = Ok snap \<Longrightarrow> declarations_ok (snp_spec snap)"
  by (auto simp: host_snapshot_def store_snapshot_def db_run_def outcome_simps split: if_splits dest: store_load_valid(2))

lemma replies_total [simp]: "no_query query \<noteq> Panic" "json_bytes bytes \<noteq> Panic" "parse_limit query \<noteq> Panic"
  by (auto simp: no_query_def json_bytes_def parse_limit_def split: option.split outcome.split)

lemma available_records_total:
  assumes "declarations_ok spec"
  shows "available_command_records J (frozen_at E frozen m) (frozen_at E frozen m') token scope channel now spec facts \<noteq> Panic"
proof -
  have "available_step J scope spec facts c c' available command \<noteq> Panic"
    if "command \<in> set (app_commands (spec_def spec))" for c c' available command
  proof -
    from that assms obtain machine policy where "command_ok spec machine policy command"
      by (auto simp: declarations_ok_def)
    then show ?thesis
      by (auto simp: available_step_def Let_def command_ok_def and_then_Panic_iff map_err_Panic_iff)
  qed
  then show ?thesis
    by (auto simp: available_command_records_def and_then_Panic_iff map_err_Panic_iff fold_m_not_Panic)
qed

lemma metadata_dto_total:
  assumes "declarations_ok (snp_spec snap)"
  shows "metadata_dto E st snap design token channel now \<noteq> Panic"
proof -
  have "table_metadata E st snap design frozen token channel now x \<noteq> Panic" for frozen x
    by (cases x) (auto simp: table_metadata_def Let_def and_then_Panic_iff map_err_Panic_iff split: option.split)
  then have "map_m (table_metadata E st snap design frozen token channel now) xs \<noteq> Panic" for frozen xs
    by (simp add: map_m_not_Panic)
  moreover have "command_declarations E st snap design frozen token channel now \<noteq> Panic" for frozen
    using available_records_total [OF assms] by (auto simp: command_declarations_def split: outcome.split)
  moreover have "offered_commands E st design token channel now original commands \<noteq> Panic" for original commands
    by (auto simp: offered_commands_def split: outcome.split)
  ultimately show ?thesis
    by (auto simp: metadata_dto_def Let_def and_then_Panic_iff map_err_Panic_iff spec_encode_def)
qed

lemma metadata_handler_total:
  assumes "readers_total (hen_json E)"
  shows "metadata_handler grant design E st app req db \<noteq> Panic"
  using metadata_dto_total [OF host_snapshot_declarations] host_snapshot_total [OF assms]
  by (auto simp: metadata_handler_def metadata_response_def and_then_Panic_iff map_err_Panic_iff split: prod.splits)

lemma from_domain_total [simp]: "from_domain v scope \<noteq> Panic"
  by (cases v) auto

lemma list_handler_total:
  assumes "readers_total (hen_json E)"
  shows "list_handler E st app table req db \<noteq> Panic"
proof -
  have "record_message scope row \<noteq> Panic" for scope row
    by (auto simp: record_message_def and_then_Panic_iff map_err_Panic_iff intro!: map_m_not_Panic)
  then have "map_m (record_message scope) rows \<noteq> Panic" for scope rows by (simp add: map_m_not_Panic)
  then have "list_dto E st snap tid limit token channel now \<noteq> Panic" for snap tid limit token channel now
    by (auto simp: list_dto_def and_then_Panic_iff map_err_Panic_iff)
  then show ?thesis
    using host_snapshot_total [OF assms]
    by (auto simp: list_handler_def table_id_new_def and_then_Panic_iff map_err_Panic_iff split: prod.splits)
qed

lemma receipt_response_total [simp]: "receipt_response E st receipt \<noteq> Panic"
  by (auto simp: receipt_response_def and_then_Panic_iff map_err_Panic_iff)

lemma verifier_at_total: "total_host (verifier_at E st m)"
  unfolding verifier_at_def by (rule pilot.total_host_axioms)

lemma command_handler_total:
  assumes "host_env_total E"
  shows "fst (command_handler E st app req db) \<noteq> Panic"
proof -
  have "command_request E st app req \<noteq> Panic"
    using assms decode_command_request_total [of "hen_command E"]
    by (auto simp: host_env_total_def command_request_def raw_request_def command_id_new_def and_then_Panic_iff
        map_err_Panic_iff split: prod.splits)
  moreover have "fst (store_execute (hen_json E) docs F S (\<lambda>m. verifier_at E st (HStore m)) c expected raw db) \<noteq> Panic"
    for docs F S c expected raw
    using execute_at_total [of "hen_json E"] assms verifier_at_total
    by (simp add: store_execute_def host_env_total_def)
  ultimately show ?thesis
    by (auto simp: command_handler_def and_then_Panic_iff map_err_Panic_iff split: outcome.split prod.split)
       (metis fst_conv)
qed

lemma receipt_handler_total:
  assumes "readers_total (hen_json E)"
  shows "receipt_handler E st app key req db \<noteq> Panic"
  using store_receipt_total [OF assms verifier_at_total]
  by (auto simp: receipt_handler_def and_then_Panic_iff map_err_Panic_iff split: prod.splits)

text \<open>
  C9. The service answers every request. Whatever the route, the headers, the body, the content of the
  database, its failures, the access facts at any moment and the clock, some response is sent: no
  operation below panics.
\<close>

theorem service_never_panics:
  assumes "host_env_total E"
  shows "\<exists>response. fst (serve E st route req db) = Some response"
proof -
  have "fst (handle E st route req db) \<noteq> Panic"
    using assms metadata_handler_total list_handler_total command_handler_total receipt_handler_total
    by (auto simp: handle_def design_metadata_def runtime_metadata_def host_env_total_def split: route.split)
  then show ?thesis
    by (auto simp: serve_def Let_def split: prod.splits outcome.splits option.splits)
qed


section \<open>One host\<close>

text \<open>
  The support application behind one credential: alice may read and write. What the JSON library writes
  does not matter here; the reader of command requests knows one request.
\<close>

definition example_token :: string where "example_token = replicate 64 (CHR ''a'')"

definition example_access :: pilot_access where
  "example_access = \<lparr>pac_token_sha256 = replicate 64 (CHR ''0''), pac_actor_id = ''actor_alice'', pac_expires_at = 100,
     pac_revoked = False, pac_active = True, pac_membership_revision = 7, pac_roles = [],
     pac_grants = [PilotRead, PilotWrite]\<rparr>"

definition example_command :: command_request_dto where
  "example_command = \<lparr>crd_api_version = 1, crd_command_id = ''cmd_resolve_request'', crd_record_id = Ident ''rec_request_1'',
     crd_params = bt_of_list [(Ident ''fld_request_note'', DtoText ''done'')], crd_request_key = ''key_1'',
     crd_expected_revision = RevisionDto 1, crd_release_id = ''sha256:00''\<rparr>"

definition constant_json :: "'a \<Rightarrow> 'a wire_json" where
  "constant_json m = \<lparr>wj_document = (\<lambda>_. JObject [] None), wj_trailing = (\<lambda>_. None), wj_reader = (\<lambda>_. Ok m),
     wj_writer = (\<lambda>_. [''{'', ''}''])\<rparr>"

definition refusing_json :: "'a wire_json" where
  "refusing_json = \<lparr>wj_document = (\<lambda>_. JBroken ''unsupported''), wj_trailing = (\<lambda>_. None),
     wj_reader = (\<lambda>_. Err ''unsupported''), wj_writer = (\<lambda>_. [''{'', ''}''])\<rparr>"

definition example_env :: host_env where
  "example_env = \<lparr>hen_json = store_serde, hen_docs = store_documents, hen_metadata = refusing_json,
     hen_list = refusing_json, hen_receipt = refusing_json, hen_command = constant_json example_command,
     hen_error = refusing_json, hen_header_text = Some, hen_faults = no_faults,
     hen_access = (\<lambda>_. \<lparr>env_of_access = (\<lambda>_. None), env_sha256 = (\<lambda>_. replicate 32 (CHR 0x00)), env_clock = Some 1\<rparr>),
     hen_source = (\<lambda>_. MemorySource (Some example_access))\<rparr>"

definition example_state :: host_state where
  "example_state = \<lparr>hos_store = support_store, hos_scope = support_scope,
     hos_verifier = \<lparr>pv_source = MemorySource (Some example_access), pv_scope = support_scope,
       pv_binding_id = ''store:tenant_a'', pv_origins = bt_empty\<rparr>,
     hos_release_id = ''sha256:00''\<rparr>"

definition example_get :: "string \<Rightarrow> http_request" where
  "example_get token = \<lparr>htr_method = ''GET'', htr_uri = ''/'', htr_headers = [(''authorization'', ''Bearer '' @ token)],
     htr_query = None, htr_body = Some []\<rparr>"

definition example_post :: http_request where
  "example_post = \<lparr>htr_method = ''POST'', htr_uri = ''/'',
     htr_headers = [(''authorization'', ''Bearer '' @ example_token), (''content-type'', ''application/json'')],
     htr_query = None, htr_body = Some ''{}''\<rparr>"

theorem service_never_panics_witness:
  "\<exists>response. fst (serve example_env example_state OtherRoute (example_get example_token) empty_db) = Some response"
  by (rule service_never_panics)
    (simp add: host_env_total_def readers_total_def example_env_def constant_json_def store_serde_def)

definition support_snapshot :: snapshot where
  "support_snapshot = \<lparr>snp_spec = support_spec, snp_facts = support_facts, snp_revision = 1,
     snp_spec_identity = ''sha256:00''\<rparr>"

definition support_table :: table_metadata_dto where
  "support_table = \<lparr>tmd_table_id = Ident ''tbl_requests'', tmd_name = ''Support requests'',
     tmd_fields = map field_metadata (filter (\<lambda>field. fld_id field \<noteq> Ident ''fld_request_owner'')
       (tbl_fields (hd (app_tables (spec_def support_spec)))))\<rparr>"

definition support_actions :: "(raw_command \<times> record_id list) list" where
  "support_actions = [(hd (app_commands (spec_def support_spec)), [Ident ''rec_request_1'', Ident ''rec_request_2''])]"

definition support_offer :: "command_metadata_dto list" where
  "support_offer = List.map_filter (command_metadata support_spec [support_table]) support_actions"

definition support_metadata :: metadata_response_dto where
  "support_metadata = metadata_message example_state support_snapshot None [support_table] support_offer"

abbreviation support_context :: trusted_context where
  "support_context \<equiv> \<lparr>ctx_actor = Ident ''actor_alice'', ctx_scope = support_scope, ctx_roles = bt_empty,
     ctx_membership_revision = 7, ctx_binding_id = ''store:tenant_a''\<rparr>"

abbreviation support_frozen :: pilot_verifier where
  "support_frozen \<equiv> hos_verifier example_state"

text \<open>The parts of a request, evaluated together, so that the definitions are prepared for evaluation once.\<close>

lemma support_runs:
  "(host_snapshot example_env example_state support_db = Ok support_snapshot)
   \<and> (host_authorize example_env example_state m ''app_support'' (htr_headers (example_get example_token)) Read False
     = Ok (example_token, NativeBearer, 1))
   \<and> (map_m (table_metadata example_env example_state support_snapshot False support_frozen example_token NativeBearer 1)
     (enumerate 0 (app_tables (spec_def (snp_spec support_snapshot)))) = Ok [[support_table]])
   \<and> (command_declarations example_env example_state support_snapshot False support_frozen example_token NativeBearer 1
     = Ok support_actions)
   \<and> (snapshot_for_operation (hen_access example_env HFreeze)
     ((hos_verifier example_state)\<lparr>pv_source := hen_source example_env HFreeze\<rparr>) = Ok support_frozen)
   \<and> (resolve (frozen_at example_env support_frozen HResolve) example_token support_scope NativeBearer 1 Read
     = Ok support_context)
   \<and> (resolve (verifier_at example_env example_state HFinal) example_token support_scope NativeBearer 1 Read
     = Ok support_context)
   \<and> (resolve (verifier_at example_env example_state HFinalWrite) example_token support_scope NativeBearer 1 Write
     = Ok support_context)
   \<and> (support_offer \<noteq> [])
   \<and> (encode_metadata (hen_metadata example_env) support_metadata = Ok ''{}'')
   \<and> (is_ok (list_handler example_env example_state ''app_support'' ''tbl_requests'' (example_get example_token) support_db))
   \<and> (command_request example_env example_state ''app_support'' example_post
     = Ok (example_token, NativeBearer, 1, 1, support_request))
   \<and> (resolve (verifier_at example_env example_state (HStore k)) example_token support_scope NativeBearer 1 Write
     = Ok support_context)
   \<and> (resolve support_authority ''secret'' support_scope NativeBearer 1 Write = Ok support_context)"
  by code_simp

lemmas support_runs_1 = support_runs [THEN conjunct2]
lemmas support_runs_2 = support_runs_1 [THEN conjunct2]
lemmas support_runs_3 = support_runs_2 [THEN conjunct2]
lemmas support_runs_4 = support_runs_3 [THEN conjunct2]
lemmas support_runs_5 = support_runs_4 [THEN conjunct2]
lemmas support_runs_6 = support_runs_5 [THEN conjunct2]
lemmas support_runs_7 = support_runs_6 [THEN conjunct2]
lemmas support_runs_8 = support_runs_7 [THEN conjunct2]
lemmas support_runs_9 = support_runs_8 [THEN conjunct2]
lemmas support_runs_10 = support_runs_9 [THEN conjunct2]
lemmas support_runs_11 = support_runs_10 [THEN conjunct2]
lemmas support_runs_12 = support_runs_11 [THEN conjunct2]
lemmas support_runs_13 = support_runs_12 [THEN conjunct2]

lemmas support_host_snapshot = support_runs [THEN conjunct1]
  and support_authorized = support_runs_1 [THEN conjunct1]
  and support_tables = support_runs_2 [THEN conjunct1]
  and support_declared = support_runs_3 [THEN conjunct1]
  and support_frozen_facts = support_runs_4 [THEN conjunct1]
  and support_resolves = support_runs_5 [THEN conjunct1] support_runs_6 [THEN conjunct1] support_runs_7 [THEN conjunct1]
  and support_offers = support_runs_8 [THEN conjunct1]
  and support_encodes = support_runs_9 [THEN conjunct1]
  and support_lists = support_runs_10 [THEN conjunct1]
  and support_request_read = support_runs_11 [THEN conjunct1]
  and support_store_resolves = support_runs_12 [THEN conjunct1]
  and support_authority_resolves = support_runs_13

lemma support_metadata_dto:
  "metadata_dto example_env example_state support_snapshot False example_token NativeBearer 1 = Ok support_metadata"
proof -
  have scope: "hos_scope example_state = support_scope" and spec: "snp_spec support_snapshot = support_spec"
    by (simp_all add: example_state_def support_snapshot_def)
  show ?thesis
    using support_tables
    by (simp add: metadata_dto_def Let_def support_frozen_facts support_resolves support_declared scope spec
        offered_commands_def support_metadata_def support_offer_def [symmetric])
qed

lemma support_runtime_metadata:
  "runtime_metadata example_env example_state ''app_support'' (example_get example_token) support_db
     = Ok \<lparr>rsp_status = 200, rsp_headers = [(''content-type'', ''application/json'')], rsp_body = ''{}''\<rparr>"
  by (simp add: runtime_metadata_def metadata_handler_def metadata_response_def support_authorized support_host_snapshot
      support_metadata_dto support_encodes no_query_def json_bytes_def MAX_RESPONSE_BYTES_def)
    (simp add: example_get_def)

theorem runtime_metadata_discloses_only_witness:
  "\<exists>response snap m. runtime_metadata example_env example_state ''app_support'' (example_get example_token) support_db
       = Ok response
     \<and> host_snapshot example_env example_state support_db = Ok snap
     \<and> encode_metadata (hen_metadata example_env) m = Ok (rsp_body response) \<and> mrd_canonical_appspec m = None"
  using runtime_metadata_discloses_only [OF support_runtime_metadata] support_runtime_metadata by blast

theorem list_discloses_exactly_witness:
  "\<exists>response limit m. list_handler example_env example_state ''app_support'' ''tbl_requests'' (example_get example_token)
       support_db = Ok response
     \<and> parse_limit (htr_query (example_get example_token)) = Ok limit
     \<and> encode_list (hen_list example_env) m = Ok (rsp_body response) \<and> length (lrd_records m) \<le> limit"
proof -
  from support_lists obtain response where list: "list_handler example_env example_state ''app_support'' ''tbl_requests''
      (example_get example_token) support_db = Ok response" by (auto simp: is_ok_iff)
  from list_discloses_exactly [OF list] obtain limit m n where "parse_limit (htr_query (example_get example_token)) = Ok limit"
    "encode_list (hen_list example_env) m = Ok (rsp_body response)" "length (lrd_records m) = min limit n"
    unfolding Let_def by blast
  with list show ?thesis by (metis min.cobounded1)
qed

text \<open>The store knows of the caller only what the host says of the credential.\<close>

lemma execute_at_caller:
  assumes "\<And>m. resolve (V m) (scl_credential c) (scl_scope c) (scl_channel c) (scl_now c) Write
      = resolve (V' m) (scl_credential c') (scl_scope c) (scl_channel c') (scl_now c) Write"
    and "scl_scope c' = scl_scope c" and "scl_now c' = scl_now c"
  shows "execute_at J Q F S V c expected request fault db = execute_at J Q F S V' c' expected request fault db"
proof -
  have resolve: "store_resolve V m c = store_resolve V' m c'" for m
    by (simp add: store_resolve_def assms)
  have "store_prepare J V c ctx snap request = store_prepare J V' c' ctx snap request" for ctx snap
    by (simp add: store_prepare_def prepare_command_def assms)
  moreover have final: "revalidate S V c ctx = revalidate S V' c' ctx" for ctx
    by (simp add: revalidate_def resolve)
  moreover have "replay_receipt S V c expected request ctx snap intent previous receipt
      = replay_receipt S V' c' expected request ctx snap intent previous receipt" for ctx snap intent previous receipt
    by (simp add: replay_receipt_def final)
  moreover have commit: "commit_batch J Q F c snap revision request fault intent batch facts db
      = commit_batch J Q F c' snap revision request fault intent batch facts db"
    for snap revision intent batch facts db
    by (simp add: commit_batch_def write_audit_def audit_of_def assms)
  moreover have "execute_fresh J Q F S V c expected request fault ctx snap p intent db
      = execute_fresh J Q F S V' c' expected request fault ctx snap p intent db" for ctx snap p intent db
    by (simp add: execute_fresh_def final commit assms)
  ultimately have "execute_in J Q F S V c expected request fault = execute_in J Q F S V' c' expected request fault"
    by (intro ext) (simp add: execute_in_def resolve assms cong: option.case_cong)
  then show ?thesis by (simp add: execute_at_def assms cong: outcome.case_cong)
qed

lemma example_parts: "hen_json example_env = store_serde" "hen_docs example_env = store_documents"
  "hen_faults example_env = no_faults" "hos_store example_state = support_store" "hos_scope example_state = support_scope"
  by (simp_all add: example_env_def example_state_def)

lemma support_changes:
  "store_execute (hen_json example_env) (hen_docs example_env) (hen_faults example_env) (hos_store example_state)
      (\<lambda>m. verifier_at example_env example_state (HStore m)) (store_call example_state example_token NativeBearer 1) 1
      support_request support_db = support_execute support_db"
proof -
  let ?call = "store_call example_state example_token NativeBearer 1"
  have call: "scl_credential ?call = example_token" "scl_scope ?call = support_scope" "scl_channel ?call = NativeBearer"
    "scl_now ?call = 1" by (simp_all add: store_call_def example_parts)
  have caller: "scl_credential support_caller = ''secret''" "scl_scope support_caller = support_scope"
    "scl_channel support_caller = NativeBearer" "scl_now support_caller = 1" by (simp_all add: support_caller_def)
  show ?thesis
    unfolding store_execute_def example_parts
  proof (rule execute_at_caller)
    show "resolve (verifier_at example_env example_state (HStore m)) (scl_credential ?call) (scl_scope ?call)
        (scl_channel ?call) (scl_now ?call) Write
      = resolve support_authority (scl_credential support_caller) (scl_scope ?call) (scl_channel support_caller)
        (scl_now ?call) Write" for m
      unfolding call caller support_store_resolves support_authority_resolves ..
  qed (simp_all only: call caller)
qed

lemma committed_changes: "committed J Q c snap request intent batch new_facts receipt db db' \<Longrightarrow> db' \<noteq> db"
proof
  assume "committed J Q c snap request intent batch new_facts receipt db db'" and "db' = db"
  then obtain k audit where "bt_get (db_audit db) k = None" and "db_audit db = bt_insert k audit (db_audit db)"
    unfolding committed_def Let_def by blast
  then show False by (metis bt_get_insert option.distinct(1))
qed

lemma execute_at_changes:
  assumes "execute_at J Q F S V c expected request fault db = (Ok receipt, db')" and "\<not> crc_replayed receipt"
  shows "db' \<noteq> db"
proof -
  from assms(1) have "execute_in J Q F S V c expected request fault db = Ok (receipt, db')" by (simp add: execute_at_Ok)
  then show ?thesis
  proof (cases rule: execute_in_Ok)
    case replayed
    with assms(2) show ?thesis by simp
  next
    case fresh
    from fresh(9) show ?thesis by (rule committed_changes)
  qed
qed

theorem only_authorized_commands_change_witness:
  "\<exists>response db' receipt. serve example_env example_state (CommandRoute ''app_support'') example_post support_db = (response, db')
     \<and> db' \<noteq> support_db \<and> \<not> crc_replayed (receipt :: commit_receipt)"
proof -
  obtain response db' where served:
    "serve example_env example_state (CommandRoute ''app_support'') example_post support_db = (response, db')"
    by (meson surj_pair)
  have "\<not> budget_exceeded example_post" by code_simp
  then have db': "db' = snd (command_handler example_env example_state ''app_support'' example_post support_db)"
    using served by (simp add: serve_def handle_def example_post_def header_first_def split: prod.splits outcome.splits)
  obtain db2 where commit: "support_execute support_db = (Ok resolved_receipt, db2)"
    and "store_step store_serde store_documents support_store support_db db2" by (rule support_committed)
  with db' have "support_execute support_db = (Ok resolved_receipt, db')"
    by (simp add: command_handler_def support_request_read support_changes)
  then have changed: "db' \<noteq> support_db" using resolved_fresh by (rule execute_at_changes)
  from only_authorized_commands_change [OF served changed] served changed show ?thesis by blast
qed

theorem stranger_learns_nothing_witness:
  "serve example_env example_state (RuntimeRoute ''app_support'') (example_get (replicate 64 (CHR ''G''))) support_db
     = (fst (serve example_env example_state (RuntimeRoute ''app_support'') (example_get (replicate 64 (CHR ''G''))) empty_db), support_db)"
proof (rule stranger_learns_nothing)
  fix token channel now grant ctx
  assume "host_credential example_env (htr_headers (example_get (replicate 64 (CHR ''G'')))) = Ok token"
  moreover have "host_credential example_env (htr_headers (example_get (replicate 64 (CHR ''G'')))) = Ok (replicate 64 (CHR ''G''))"
    by code_simp
  moreover have "\<not> list_all lower_hex (replicate 64 (CHR ''G''))" by code_simp
  ultimately show "resolve (verifier_at example_env example_state HAuthorize) token (hos_scope example_state) channel now grant \<noteq> Ok ctx"
    by (auto simp: verifier_at_def pilot_resolve_Ok)
qed
end
