(* ===== verification/Rest.thy ===== *)
theory Rest
  imports Ordered_Maps
begin

text \<open>
  Requests of the REST gateway: the errors of the core crate (\<open>crates/evobase-core/src/error.rs\<close>), identifiers,
  tables and filters (\<open>rest.rs\<close>), and the reading of requests (\<open>crates/evobase-gateway/src/rest.rs\<close>).
  The url crate's form decoding and \<open>serde_json\<close>'s values are parameters.
\<close>

section \<open>Errors\<close>

datatype app_error =
    AppConfig string
  | AppBadRequest string
  | AppUnauthorized
  | AppNotFound string
  | AppConflict string
  | AppDatabase string
  | AppInternal string

fun status_code :: "app_error \<Rightarrow> nat" where
  "status_code (AppConfig _) = 500"
| "status_code (AppInternal _) = 500"
| "status_code (AppBadRequest _) = 400"
| "status_code AppUnauthorized = 401"
| "status_code (AppNotFound _) = 404"
| "status_code (AppConflict _) = 409"
| "status_code (AppDatabase _) = 502"

fun public_message :: "app_error \<Rightarrow> string" where
  "public_message (AppConfig message) = message"
| "public_message (AppBadRequest message) = message"
| "public_message (AppNotFound message) = message"
| "public_message (AppConflict message) = message"
| "public_message AppUnauthorized = ''unauthorized''"
| "public_message (AppDatabase _) = ''database error''"
| "public_message (AppInternal _) = ''internal server error''"

text \<open>The \<open>Display\<close> of an error.\<close>

fun error_text :: "app_error \<Rightarrow> string" where
  "error_text (AppConfig message) = ''configuration error: '' @ message"
| "error_text (AppBadRequest message) = ''bad request: '' @ message"
| "error_text AppUnauthorized = ''unauthorized''"
| "error_text (AppNotFound message) = ''not found: '' @ message"
| "error_text (AppConflict message) = ''conflict: '' @ message"
| "error_text (AppDatabase _) = ''database error''"
| "error_text (AppInternal _) = ''internal server error''"

section \<open>Strings\<close>

text \<open>\<open>str::split_once\<close> on a character, and \<open>char::is_ascii_alphabetic\<close>.\<close>

fun split_once :: "char \<Rightarrow> string \<Rightarrow> (string \<times> string) option" where
  "split_once sep [] = None"
| "split_once sep (c # cs) =
     (if c = sep then Some ([], cs) else map_option (\<lambda>(a, b). (c # a, b)) (split_once sep cs))"

definition is_ascii_alphabetic :: "char \<Rightarrow> bool" where
  "is_ascii_alphabetic c \<longleftrightarrow> is_ascii_uppercase c \<or> is_ascii_lowercase c"

definition ticked :: "string \<Rightarrow> string" where
  "ticked s = [CHR 0x60] @ s @ [CHR 0x60]"

section \<open>Identifiers and tables\<close>

text \<open>Only ASCII can pass, so the checks on characters are checks on bytes.\<close>

definition validate_identifier :: "string \<Rightarrow> (app_error, unit) outcome" where
  "validate_identifier identifier =
     (case identifier of
        [] \<Rightarrow> Err (AppBadRequest ''identifier cannot be empty'')
      | first # chars \<Rightarrow>
          if \<not> (is_ascii_alphabetic first \<or> first = CHR ''_'')
          then Err (AppBadRequest (''identifier '' @ ticked identifier @ '' must start with a letter or underscore''))
          else if list_ex (\<lambda>ch. \<not> (is_ascii_alphanumeric ch \<or> ch = CHR ''_'')) chars
          then Err (AppBadRequest (''identifier '' @ ticked identifier @ '' contains unsupported characters''))
          else Ok ())"

definition quoted_identifier :: "string \<Rightarrow> string" where
  "quoted_identifier identifier = [CHR 0x22] @ identifier @ [CHR 0x22]"

record qualified_table =
  qt_schema :: "string option"
  qt_table :: string

definition qualified_parse :: "string \<Rightarrow> (app_error, qualified_table) outcome" where
  "qualified_parse input =
     (case split_on (CHR ''.'') input of
        [table] \<Rightarrow>
          and_then (validate_identifier table) (\<lambda>_. Ok \<lparr>qt_schema = None, qt_table = table\<rparr>)
      | [schema, table] \<Rightarrow>
          and_then (validate_identifier schema) (\<lambda>_.
          and_then (validate_identifier table) (\<lambda>_. Ok \<lparr>qt_schema = Some schema, qt_table = table\<rparr>))
      | _ \<Rightarrow> Err (AppBadRequest (''invalid table path '' @ ticked input @ ''; expected '' @ ticked ''table'' @ '' or ''
               @ ticked ''schema.table'')))"

definition table_quoted :: "qualified_table \<Rightarrow> string" where
  "table_quoted t =
     (case qt_schema t of
        Some schema \<Rightarrow> quoted_identifier schema @ ''.'' @ quoted_identifier (qt_table t)
      | None \<Rightarrow> quoted_identifier (qt_table t))"

section \<open>Requests\<close>

datatype select_list = SelectAll | SelectColumns "string list"

datatype filter_operator = OpEq | OpNeq | OpGt | OpGte | OpLt | OpLte | OpLike | OpILike

definition operator_parse :: "string \<Rightarrow> (app_error, filter_operator) outcome" where
  "operator_parse v =
     (if v = ''eq'' then Ok OpEq
      else if v = ''neq'' then Ok OpNeq
      else if v = ''gt'' then Ok OpGt
      else if v = ''gte'' then Ok OpGte
      else if v = ''lt'' then Ok OpLt
      else if v = ''lte'' then Ok OpLte
      else if v = ''like'' then Ok OpLike
      else if v = ''ilike'' then Ok OpILike
      else Err (AppBadRequest (''unsupported filter operator '' @ ticked v)))"

fun sql_operator :: "filter_operator \<Rightarrow> string" where
  "sql_operator OpEq = ''=''"
| "sql_operator OpNeq = ''!=''"
| "sql_operator OpGt = ''>''"
| "sql_operator OpGte = ''>=''"
| "sql_operator OpLt = ''<''"
| "sql_operator OpLte = ''<=''"
| "sql_operator OpLike = ''LIKE''"
| "sql_operator OpILike = ''ILIKE''"

record rest_filter =
  rf_column :: string
  rf_operator :: filter_operator
  rf_value :: string

record order_by =
  ob_column :: string
  ob_descending :: bool

record table_select =
  tsl_table :: qualified_table
  tsl_select :: select_list
  tsl_filters :: "rest_filter list"
  tsl_order_by :: "order_by list"
  tsl_limit :: "i64 option"
  tsl_offset :: "i64 option"

text \<open>A JSON object is a map of the values \<open>'j\<close> of \<open>serde_json\<close>.\<close>

type_synonym 'j json_object = "(string, 'j) btree_map"

record 'j table_insert =
  tin_table :: qualified_table
  tin_rows :: "'j json_object list"

record 'j table_update =
  tup_table :: qualified_table
  tup_patch :: "'j json_object"
  tup_filters :: "rest_filter list"

record table_delete =
  tdl_table :: qualified_table
  tdl_filters :: "rest_filter list"

section \<open>Reading requests\<close>

text \<open>\<open>form_urlencoded::parse\<close> gives the pairs of a query; a JSON body is an object, an array or something else.\<close>

type_synonym form_parse = "string \<Rightarrow> (string \<times> string) list"

datatype 'j json_shape = ShapeObject "'j json_object" | ShapeArray "'j list" | ShapeOther

definition parse_select_list :: "string \<Rightarrow> (app_error, select_list) outcome" where
  "parse_select_list v =
     (if v = ''*'' then Ok SelectAll
      else
        and_then (map_m (\<lambda>column. and_then (validate_identifier column) (\<lambda>_. Ok column))
            (filter (\<lambda>column. column \<noteq> []) (map trim (split_on (CHR '','') v)))) (\<lambda>columns.
        if columns = [] then Err (AppBadRequest ''select must contain at least one column'')
        else Ok (SelectColumns columns)))"

definition parse_order_part :: "string \<Rightarrow> (app_error, order_by) outcome" where
  "parse_order_part part =
     (let (column, direction) = (case split_once (CHR ''.'') part of Some p \<Rightarrow> p | None \<Rightarrow> (part, ''asc'')) in
      and_then (validate_identifier column) (\<lambda>_.
      and_then (if direction = ''asc'' then Ok False
         else if direction = ''desc'' then Ok True
         else Err (AppBadRequest (''unsupported order direction '' @ ticked direction))) (\<lambda>descending.
      Ok \<lparr>ob_column = column, ob_descending = descending\<rparr>)))"

definition parse_order_by :: "string \<Rightarrow> (app_error, order_by list) outcome" where
  "parse_order_by v = map_m parse_order_part (filter (\<lambda>part. part \<noteq> []) (map trim (split_on (CHR '','') v)))"

definition parse_filter :: "string \<Rightarrow> string \<Rightarrow> (app_error, rest_filter) outcome" where
  "parse_filter column raw_value =
     and_then (case split_once (CHR ''.'') raw_value of
         Some (operator, v) \<Rightarrow> and_then (operator_parse operator) (\<lambda>operator. Ok (operator, v))
       | None \<Rightarrow> Ok (OpEq, raw_value)) (\<lambda>(operator, v).
     if v = [] then Err (AppBadRequest (''filter for column '' @ ticked column @ '' is missing a value''))
     else Ok \<lparr>rf_column = column, rf_operator = operator, rf_value = v\<rparr>)"

text \<open>The \<open>Display\<close> of \<open>ParseIntError\<close>: the kind of overflow follows the sign.\<close>

fun int_error_text :: "string \<Rightarrow> int_error \<Rightarrow> string" where
  "int_error_text s IntEmpty = ''cannot parse integer from empty string''"
| "int_error_text s IntInvalidDigit = ''invalid digit found in string''"
| "int_error_text s IntOverflow = (if starts_with s ''-'' then ''number too small to fit in target type''
     else ''number too large to fit in target type'')"

definition parse_non_negative :: "string \<Rightarrow> string \<Rightarrow> (app_error, i64) outcome" where
  "parse_non_negative v field =
     and_then (map_err (\<lambda>e. AppBadRequest (''invalid '' @ field @ '': '' @ int_error_text v e)) (parse_i64 v)) (\<lambda>parsed.
     if sint parsed < 0 then Err (AppBadRequest (field @ '' must be non-negative'')) else Ok parsed)"

definition select_step :: "table_select \<Rightarrow> string \<times> string \<Rightarrow> (app_error, table_select) outcome" where
  "select_step request = (\<lambda>(key, v).
     if key = ''select'' then and_then (parse_select_list v) (\<lambda>select. Ok (request\<lparr>tsl_select := select\<rparr>))
     else if key = ''order'' then and_then (parse_order_by v) (\<lambda>order. Ok (request\<lparr>tsl_order_by := order\<rparr>))
     else if key = ''limit'' then and_then (parse_non_negative v ''limit'') (\<lambda>limit. Ok (request\<lparr>tsl_limit := Some limit\<rparr>))
     else if key = ''offset'' then and_then (parse_non_negative v ''offset'') (\<lambda>offset. Ok (request\<lparr>tsl_offset := Some offset\<rparr>))
     else and_then (validate_identifier key) (\<lambda>_.
       and_then (parse_filter key v) (\<lambda>f. Ok (request\<lparr>tsl_filters := tsl_filters request @ [f]\<rparr>))))"

definition parse_select_request ::
  "form_parse \<Rightarrow> string \<Rightarrow> string option \<Rightarrow> (app_error, table_select) outcome" where
  "parse_select_request form table raw_query =
     and_then (qualified_parse table) (\<lambda>table.
     fold_m select_step
       \<lparr>tsl_table = table, tsl_select = SelectAll, tsl_filters = [], tsl_order_by = [], tsl_limit = None, tsl_offset = None\<rparr>
       (case raw_query of None \<Rightarrow> [] | Some q \<Rightarrow> form q))"

definition parse_insert_request ::
  "('j \<Rightarrow> 'j json_shape) \<Rightarrow> string \<Rightarrow> 'j \<Rightarrow> (app_error, 'j table_insert) outcome" where
  "parse_insert_request shape table body =
     and_then (qualified_parse table) (\<lambda>table.
     and_then (case shape body of
         ShapeObject object \<Rightarrow> Ok [object]
       | ShapeArray vs \<Rightarrow> map_m (\<lambda>v. case shape v of
             ShapeObject object \<Rightarrow> Ok object
           | _ \<Rightarrow> Err (AppBadRequest ''insert payload arrays must contain objects'')) vs
       | ShapeOther \<Rightarrow> Err (AppBadRequest ''insert payload must be an object or array of objects'')) (\<lambda>rows.
     Ok \<lparr>tin_table = table, tin_rows = rows\<rparr>))"

definition filter_step :: "rest_filter list \<Rightarrow> string \<times> string \<Rightarrow> (app_error, rest_filter list) outcome" where
  "filter_step filters = (\<lambda>(key, v).
     if key = ''select'' \<or> key = ''order'' \<or> key = ''limit'' \<or> key = ''offset'' then Ok filters
     else and_then (validate_identifier key) (\<lambda>_. and_then (parse_filter key v) (\<lambda>f. Ok (filters @ [f]))))"

definition parse_filters :: "form_parse \<Rightarrow> string option \<Rightarrow> (app_error, rest_filter list) outcome" where
  "parse_filters form raw_query = fold_m filter_step [] (case raw_query of None \<Rightarrow> [] | Some q \<Rightarrow> form q)"

definition parse_update_request ::
  "('j \<Rightarrow> 'j json_shape) \<Rightarrow> form_parse \<Rightarrow> string \<Rightarrow> string option \<Rightarrow> 'j \<Rightarrow> (app_error, 'j table_update) outcome" where
  "parse_update_request shape form table raw_query body =
     and_then (qualified_parse table) (\<lambda>table.
     and_then (parse_filters form raw_query) (\<lambda>filters.
     if filters = [] then Err (AppBadRequest ''update requests require at least one filter'')
     else case shape body of
         ShapeObject patch \<Rightarrow> Ok \<lparr>tup_table = table, tup_patch = patch, tup_filters = filters\<rparr>
       | _ \<Rightarrow> Err (AppBadRequest ''update payload must be a JSON object'')))"

definition parse_delete_request ::
  "form_parse \<Rightarrow> string \<Rightarrow> string option \<Rightarrow> (app_error, table_delete) outcome" where
  "parse_delete_request form table raw_query =
     and_then (qualified_parse table) (\<lambda>table.
     and_then (parse_filters form raw_query) (\<lambda>filters.
     if filters = [] then Err (AppBadRequest ''delete requests require at least one filter'')
     else Ok \<lparr>tdl_table = table, tdl_filters = filters\<rparr>))"

section \<open>What a parsed request contains\<close>

definition identifier_ok :: "string \<Rightarrow> bool" where
  "identifier_ok s \<longleftrightarrow> s \<noteq> [] \<and> (is_ascii_alphabetic (hd s) \<or> hd s = CHR ''_'')
     \<and> list_all (\<lambda>c. is_ascii_alphanumeric c \<or> c = CHR ''_'') s"

lemma validate_identifier_Ok_iff [outcome_simps]: "validate_identifier s = Ok u \<longleftrightarrow> identifier_ok s"
  by (auto simp: validate_identifier_def identifier_ok_def list_ex_iff list_all_iff is_ascii_alphabetic_def
      is_ascii_alphanumeric_def split: list.splits if_splits)

lemma validate_identifier_not_Panic [simp]: "validate_identifier s \<noteq> Panic"
  by (simp add: validate_identifier_def split: list.split)

definition table_ok :: "qualified_table \<Rightarrow> bool" where
  "table_ok t \<longleftrightarrow> identifier_ok (qt_table t) \<and> (case qt_schema t of None \<Rightarrow> True | Some s \<Rightarrow> identifier_ok s)"

definition filters_ok :: "rest_filter list \<Rightarrow> bool" where
  "filters_ok fs \<longleftrightarrow> (\<forall>f\<in>set fs. identifier_ok (rf_column f) \<and> rf_value f \<noteq> [])"

fun select_list_ok :: "select_list \<Rightarrow> bool" where
  "select_list_ok SelectAll = True"
| "select_list_ok (SelectColumns columns) = (columns \<noteq> [] \<and> (\<forall>c\<in>set columns. identifier_ok c))"

definition select_ok :: "table_select \<Rightarrow> bool" where
  "select_ok r \<longleftrightarrow> table_ok (tsl_table r) \<and> select_list_ok (tsl_select r) \<and> filters_ok (tsl_filters r)
     \<and> (\<forall>o'\<in>set (tsl_order_by r). identifier_ok (ob_column o'))
     \<and> (\<forall>n. tsl_limit r = Some n \<longrightarrow> 0 \<le> sint n) \<and> (\<forall>n. tsl_offset r = Some n \<longrightarrow> 0 \<le> sint n)"

lemma qualified_parse_Ok: "qualified_parse s = Ok t \<Longrightarrow> table_ok t"
  by (auto simp: qualified_parse_def table_ok_def outcome_simps split: list.splits)

lemma parse_filter_Ok: "parse_filter column raw = Ok f \<Longrightarrow> rf_column f = column \<and> rf_value f \<noteq> []"
  by (auto simp: parse_filter_def outcome_simps split: if_splits prod.splits)

lemma map_m_each: "map_m f xs = Ok ys \<Longrightarrow> (\<And>x y. f x = Ok y \<Longrightarrow> P y) \<Longrightarrow> \<forall>y\<in>set ys. P y"
  by (induction xs arbitrary: ys) (auto simp: and_then_Ok_iff)

lemma parse_select_list_Ok: "parse_select_list v = Ok s \<Longrightarrow> select_list_ok s"
proof -
  assume ok: "parse_select_list v = Ok s"
  show "select_list_ok s"
  proof (cases "v = ''*''")
    case False
    with ok obtain columns where "map_m (\<lambda>column. and_then (validate_identifier column) (\<lambda>_. Ok column))
        (filter (\<lambda>column. column \<noteq> []) (map trim (split_on (CHR '','') v))) = Ok columns"
      and "columns \<noteq> []" "s = SelectColumns columns"
      by (auto simp: parse_select_list_def and_then_Ok_iff split: if_splits)
    moreover from this(1) have "\<forall>c\<in>set columns. identifier_ok c"
      by (rule map_m_each) (auto simp: and_then_Ok_iff validate_identifier_Ok_iff)
    ultimately show ?thesis by simp
  qed (use ok in \<open>simp add: parse_select_list_def\<close>)
qed

lemma parse_order_by_Ok: "parse_order_by v = Ok os \<Longrightarrow> \<forall>o'\<in>set os. identifier_ok (ob_column o')"
  unfolding parse_order_by_def
  by (erule map_m_each) (auto simp: parse_order_part_def Let_def outcome_simps split: prod.splits)

lemma parse_non_negative_Ok: "parse_non_negative v f = Ok n \<Longrightarrow> 0 \<le> sint n"
  by (auto simp: parse_non_negative_def outcome_simps split: if_splits)

lemma select_step_ok: "select_ok r \<Longrightarrow> select_step r kv = Ok r' \<Longrightarrow> select_ok r'"
  by (auto simp: select_step_def select_ok_def filters_ok_def and_then_Ok_iff validate_identifier_Ok_iff
      split: if_splits prod.splits
      dest: parse_select_list_Ok parse_order_by_Ok parse_non_negative_Ok parse_filter_Ok)

lemma parse_select_request_Ok: "parse_select_request form table q = Ok r \<Longrightarrow> select_ok r"
proof -
  assume "parse_select_request form table q = Ok r"
  then obtain t where t: "qualified_parse table = Ok t"
    and loop: "fold_m select_step \<lparr>tsl_table = t, tsl_select = SelectAll, tsl_filters = [], tsl_order_by = [],
      tsl_limit = None, tsl_offset = None\<rparr> (case q of None \<Rightarrow> [] | Some q \<Rightarrow> form q) = Ok r"
    by (auto simp: parse_select_request_def and_then_Ok_iff)
  from loop show "select_ok r"
  proof (rule fold_m_invariant [where P = select_ok])
    show "select_ok \<lparr>tsl_table = t, tsl_select = SelectAll, tsl_filters = [], tsl_order_by = [], tsl_limit = None,
        tsl_offset = None\<rparr>" using qualified_parse_Ok [OF t] by (simp add: select_ok_def filters_ok_def)
  qed (rule select_step_ok)
qed

lemma parse_filters_Ok: "parse_filters form q = Ok fs \<Longrightarrow> filters_ok fs"
  unfolding parse_filters_def
  by (erule fold_m_invariant)
    (auto simp: filters_ok_def filter_step_def and_then_Ok_iff validate_identifier_Ok_iff
      split: if_splits prod.splits dest: parse_filter_Ok)

lemma parse_update_request_Ok:
  "parse_update_request shape form table q body = Ok r \<Longrightarrow>
     table_ok (tup_table r) \<and> filters_ok (tup_filters r) \<and> tup_filters r \<noteq> []"
  by (auto simp: parse_update_request_def and_then_Ok_iff dest: qualified_parse_Ok parse_filters_Ok
      split: if_splits json_shape.splits)

lemma parse_delete_request_Ok:
  "parse_delete_request form table q = Ok r \<Longrightarrow> table_ok (tdl_table r) \<and> filters_ok (tdl_filters r) \<and> tdl_filters r \<noteq> []"
  by (auto simp: parse_delete_request_def and_then_Ok_iff dest: qualified_parse_Ok parse_filters_Ok split: if_splits)

lemma parse_insert_request_Ok: "parse_insert_request shape table body = Ok r \<Longrightarrow> table_ok (tin_table r)"
  by (auto simp: parse_insert_request_def and_then_Ok_iff dest: qualified_parse_Ok)

end
