(* ===== verification/Postgres.thy ===== *)
theory Postgres
  imports Rest
begin

text \<open>
  The PostgreSQL backend (\<open>crates/evobase-db/src/postgres.rs\<close>): the statements it builds, the transactions it runs
  them in, the documentation it assembles from the catalog, and the provisioning of databases. The server
  behind \<open>sqlx\<close> is a parameter that answers calls and keeps a state of its own.
\<close>

section \<open>Building statements\<close>

text \<open>\<open>sqlx::QueryBuilder\<close>: text with a numbered placeholder for every bound value.\<close>

datatype 'j sql_bind =
    BindText string
  | BindInt i64
  | BindRows "'j json_object list"
  | BindObject "'j json_object"

record 'j sql_query =
  sq_text :: string
  sq_binds :: "'j sql_bind list"

definition sql_new :: "string \<Rightarrow> 'j sql_query" where
  "sql_new s = \<lparr>sq_text = s, sq_binds = []\<rparr>"

definition push :: "string \<Rightarrow> 'j sql_query \<Rightarrow> 'j sql_query" where
  "push s q = q\<lparr>sq_text := sq_text q @ s\<rparr>"

definition push_bind :: "'j sql_bind \<Rightarrow> 'j sql_query \<Rightarrow> 'j sql_query" where
  "push_bind b q = \<lparr>sq_text = sq_text q @ ''$'' @ show_nat (length (sq_binds q) + 1), sq_binds = sq_binds q @ [b]\<rparr>"

text \<open>The loops over \<open>enumerate()\<close> that push a separator before every element but the first.\<close>

definition push_separated :: "string \<Rightarrow> ('a \<Rightarrow> 'j sql_query \<Rightarrow> 'j sql_query) \<Rightarrow> 'a list \<Rightarrow> 'j sql_query \<Rightarrow> 'j sql_query" where
  "push_separated sep f xs q = fold (\<lambda>(index, x) q. f x (if index > (0 :: nat) then push sep q else q)) (enumerate 0 xs) q"

fun push_select_list :: "select_list \<Rightarrow> 'j sql_query \<Rightarrow> 'j sql_query" where
  "push_select_list SelectAll q = push ''t.*'' q"
| "push_select_list (SelectColumns columns) q =
     push_separated '', '' (\<lambda>column q. push (quoted_identifier column) (push ''t.'' q)) columns q"

definition push_columns :: "string list \<Rightarrow> string option \<Rightarrow> 'j sql_query \<Rightarrow> 'j sql_query" where
  "push_columns columns alias q =
     push_separated '', '' (\<lambda>column q.
       push (quoted_identifier column)
         (case alias of Some alias \<Rightarrow> push ''.'' (push alias q) | None \<Rightarrow> q)) columns q"

definition push_table :: "qualified_table \<Rightarrow> 'j sql_query \<Rightarrow> 'j sql_query" where
  "push_table table q = push (table_quoted table) q"

definition push_order_by :: "order_by list \<Rightarrow> 'j sql_query \<Rightarrow> 'j sql_query" where
  "push_order_by order q =
     (if order = [] then q
      else push_separated '', '' (\<lambda>o' q.
          push (if ob_descending o' then '' DESC'' else '' ASC'') (push (quoted_identifier (ob_column o')) (push ''t.'' q)))
        order (push '' ORDER BY '' q))"

definition push_filter :: "qualified_table \<Rightarrow> string \<Rightarrow> rest_filter \<Rightarrow> 'j sql_query \<Rightarrow> 'j sql_query" where
  "push_filter table alias f q =
     (let q = push (quoted_identifier (rf_column f)) (push ''.'' (push alias q)) in
      if rf_operator f = OpLike \<or> rf_operator f = OpILike
      then push_bind (BindText (rf_value f)) (push '' '' (push (sql_operator (rf_operator f)) (push ''::text '' q)))
      else
        let q = push (quoted_identifier (rf_column f))
              (push '' (SELECT x.'' (push (sql_operator (rf_operator f)) (push '' '' q)));
            q = push '', jsonb_build_object('' (push (table_quoted table) (push '' FROM jsonb_populate_record(NULL::'' q));
            q = push '', to_jsonb('' (push_bind (BindText (rf_column f)) q)
        in push ''))) AS x)'' (push_bind (BindText (rf_value f)) q))"

definition push_filters :: "qualified_table \<Rightarrow> rest_filter list \<Rightarrow> string \<Rightarrow> 'j sql_query \<Rightarrow> 'j sql_query" where
  "push_filters table filters alias q =
     (if filters = [] then q
      else push_separated '' AND '' (push_filter table alias) filters (push '' WHERE '' q))"

definition select_query :: "table_select \<Rightarrow> 'j sql_query" where
  "select_query request =
     (let q = push_select_list (tsl_select request) (sql_new ''select to_jsonb(t) as row from (select '');
          q = push '' as t'' (push_table (tsl_table request) (push '' from '' q));
          q = push_filters (tsl_table request) (tsl_filters request) ''t'' q;
          q = push_order_by (tsl_order_by request) q;
          q = (case tsl_limit request of Some limit \<Rightarrow> push_bind (BindInt limit) (push '' limit '' q) | None \<Rightarrow> q);
          q = (case tsl_offset request of Some offset \<Rightarrow> push_bind (BindInt offset) (push '' offset '' q) | None \<Rightarrow> q)
      in push '') as t'' q)"

definition insert_query :: "string list \<Rightarrow> 'j table_insert \<Rightarrow> 'j sql_query" where
  "insert_query columns request =
     (let q = push_columns columns None (sql_new ''with input_rows as (select '');
          q = push '', '' (push_table (tin_table request) (push '' from jsonb_populate_recordset(NULL::'' q));
          q = push '')) insert into '' (push_bind (BindRows (tin_rows request)) q);
          q = push '' as inserted ('' (push_table (tin_table request) q);
          q = push '') select '' (push_columns columns None q)
      in push '' from input_rows returning to_jsonb(inserted.*)'' (push_columns columns None q))"

definition update_query :: "string list \<Rightarrow> 'j table_update \<Rightarrow> 'j sql_query" where
  "update_query columns request =
     (let q = push_columns columns None (sql_new ''with patch as (select '');
          q = push '', '' (push_table (tup_table request) (push '' from jsonb_populate_record(NULL::'' q));
          q = push '')) update '' (push_bind (BindObject (tup_patch request)) q);
          q = push '' as t set '' (push_table (tup_table request) q);
          q = push_separated '', '' (\<lambda>column q.
                push (quoted_identifier column) (push '' = patch.'' (push (quoted_identifier column) q))) columns q;
          q = push_filters (tup_table request) (tup_filters request) ''t'' (push '' from patch'' q)
      in push '' returning to_jsonb(t.*)'' q)"

definition delete_query :: "table_delete \<Rightarrow> 'j sql_query" where
  "delete_query request =
     (let q = push '' as t'' (push_table (tdl_table request) (sql_new ''delete from ''))
      in push '' returning to_jsonb(t.*)'' (push_filters (tdl_table request) (tdl_filters request) ''t'' q))"

section \<open>The shape of rows\<close>

text \<open>The keys of an object are in order; sorting them again changes nothing.\<close>

definition validate_insert_rows :: "'j json_object list \<Rightarrow> (app_error, string list) outcome" where
  "validate_insert_rows rows =
     (case rows of
        [] \<Rightarrow> Err (AppBadRequest ''insert payload must contain at least one object'')
      | first_row # others \<Rightarrow>
          if bt_len first_row = 0 then Err (AppBadRequest ''insert payload objects cannot be empty'')
          else
            let columns = sort (bt_keys first_row) in
            and_then (for_each validate_identifier columns) (\<lambda>_.
            and_then (for_each (\<lambda>row. if sort (bt_keys row) \<noteq> columns
                 then Err (AppBadRequest ''all insert objects must share the same shape'') else Ok ()) others) (\<lambda>_.
            Ok columns)))"

definition validate_patch :: "'j json_object \<Rightarrow> (app_error, string list) outcome" where
  "validate_patch patch =
     (if bt_len patch = 0 then Err (AppBadRequest ''update payload cannot be empty'')
      else
        let columns = sort (bt_keys patch) in
        and_then (for_each validate_identifier columns) (\<lambda>_. Ok columns))"

section \<open>Transactions\<close>

text \<open>
  The calls the server answers with rows or the text of an error. Dropping a transaction without commit
  rolls it back, whatever the server answers to that.
\<close>

datatype 'j pg_call = PgBegin | PgSetUser string | PgQuery "'j sql_query" | PgCommit | PgRollback

type_synonym ('j, 's) pg_server = "'j pg_call \<Rightarrow> 's \<Rightarrow> (string, 'j list) outcome \<times> 's"

definition pg_call :: "('j, 's) pg_server \<Rightarrow> 'j pg_call \<Rightarrow> 's \<Rightarrow> (app_error, 'j list) outcome \<times> 's" where
  "pg_call G call s = (let (answer, s') = G call s in (map_err AppDatabase answer, s'))"

text \<open>Everything of a handler between \<open>begin\<close> and the end of the transaction.\<close>

definition apply_auth_context ::
  "('j, 's) pg_server \<Rightarrow> string option \<Rightarrow> 's \<Rightarrow> (app_error, 'j list) outcome \<times> 's" where
  "apply_auth_context G auth s = (case auth of None \<Rightarrow> (Ok [], s) | Some user \<Rightarrow> pg_call G (PgSetUser user) s)"

definition pg_rollback :: "('j, 's) pg_server \<Rightarrow> 's \<Rightarrow> 's" where
  "pg_rollback G s = snd (G PgRollback s)"

definition or_rollback ::
  "('j, 's) pg_server \<Rightarrow> ('e, 'a) outcome \<times> 's \<Rightarrow> ('a \<Rightarrow> 's \<Rightarrow> ('e, 'b) outcome \<times> 's) \<Rightarrow> ('e, 'b) outcome \<times> 's" where
  "or_rollback G r k =
     (case r of
        (Ok x, s) \<Rightarrow> k x s
      | (Err e, s) \<Rightarrow> (Err e, pg_rollback G s)
      | (Panic, s) \<Rightarrow> (Panic, pg_rollback G s))"

definition pg_transaction ::
  "('j, 's) pg_server \<Rightarrow> string option \<Rightarrow> (app_error, 'j sql_query) outcome \<Rightarrow> 's \<Rightarrow>
     (app_error, 'j list) outcome \<times> 's" where
  "pg_transaction G auth query s =
     (case pg_call G PgBegin s of
        (Ok _, s) \<Rightarrow>
          or_rollback G (apply_auth_context G auth s) (\<lambda>_ s.
          or_rollback G (query, s) (\<lambda>q s.
          or_rollback G (pg_call G (PgQuery q) s) (\<lambda>rows s.
          or_rollback G (pg_call G PgCommit s) (\<lambda>_ s. (Ok rows, s)))))
      | (Err e, s) \<Rightarrow> (Err e, s)
      | (Panic, s) \<Rightarrow> (Panic, s))"

definition pg_select_rows where
  "pg_select_rows G request auth = pg_transaction G auth (Ok (select_query request))"

definition pg_insert_rows where
  "pg_insert_rows G request auth = pg_transaction G auth
     (and_then (validate_insert_rows (tin_rows request)) (\<lambda>columns. Ok (insert_query columns request)))"

definition pg_update_rows where
  "pg_update_rows G request auth = pg_transaction G auth
     (and_then (validate_patch (tup_patch request)) (\<lambda>columns. Ok (update_query columns request)))"

definition pg_delete_rows where
  "pg_delete_rows G request auth = pg_transaction G auth (Ok (delete_query request))"

section \<open>Handlers of the gateway\<close>

text \<open>
  \<open>crates/evobase-gateway/src/handlers/rest.rs\<close>: every handler runs for the authenticated user. The catalog
  query behind \<open>describe_detail_fields\<close> is a parameter of its own.
\<close>

definition rest_select where
  "rest_select form G user table query s =
     (case parse_select_request form table query of
        Ok request \<Rightarrow> pg_select_rows G request (Some user) s | Err e \<Rightarrow> (Err e, s) | Panic \<Rightarrow> (Panic, s))"

definition rest_insert where
  "rest_insert shape G user table body s =
     (case parse_insert_request shape table body of
        Ok request \<Rightarrow> pg_insert_rows G request (Some user) s | Err e \<Rightarrow> (Err e, s) | Panic \<Rightarrow> (Panic, s))"

definition rest_update where
  "rest_update shape form G user table query body s =
     (case parse_update_request shape form table query body of
        Ok request \<Rightarrow> pg_update_rows G request (Some user) s | Err e \<Rightarrow> (Err e, s) | Panic \<Rightarrow> (Panic, s))"

definition rest_delete where
  "rest_delete form G user table query s =
     (case parse_delete_request form table query of
        Ok request \<Rightarrow> pg_delete_rows G request (Some user) s | Err e \<Rightarrow> (Err e, s) | Panic \<Rightarrow> (Panic, s))"

record table_detail_fields =
  tdf_schema :: string
  tdf_table :: string
  tdf_primary_key :: "string list"
  tdf_unique_fields :: "string list"

definition table_name :: "qualified_table \<Rightarrow> string" where
  "table_name t = (case qt_schema t of Some schema \<Rightarrow> schema @ ''.'' @ qt_table t | None \<Rightarrow> qt_table t)"

definition parse_lookup_field :: "string \<Rightarrow> (app_error, string) outcome" where
  "parse_lookup_field lookup =
     and_then (ok_or (AppNotFound ''detail endpoint not found'') (strip_prefix lookup ''by-'')) (\<lambda>field.
     and_then (validate_identifier field) (\<lambda>_. Ok field))"

definition resolve_primary_key_field :: "qualified_table \<Rightarrow> table_detail_fields \<Rightarrow> (app_error, string) outcome" where
  "resolve_primary_key_field t detail_fields =
     (case tdf_primary_key detail_fields of
        [field] \<Rightarrow> Ok field
      | [] \<Rightarrow> Err (AppBadRequest (''table '' @ ticked (table_name t) @ '' has no primary key detail endpoint''))
      | _ \<Rightarrow> Err (AppBadRequest (''table '' @ ticked (table_name t)
              @ '' has a composite primary key; use unique by-field detail endpoints'')))"

definition resolve_detail_fields ::
  "qualified_table \<Rightarrow> table_detail_fields list \<Rightarrow> (app_error, table_detail_fields) outcome" where
  "resolve_detail_fields t found =
     (case found of
        [] \<Rightarrow> Err (AppNotFound (''table '' @ ticked (table_name t) @ '' was not found''))
      | [detail] \<Rightarrow> Ok detail
      | _ \<Rightarrow> if qt_schema t = None then Err (AppBadRequest ''table name is ambiguous; use schema.table'')
             else Err (AppInternal ''multiple table metadata entries matched a schema-qualified name''))"

definition field_request :: "qualified_table \<Rightarrow> string \<Rightarrow> string \<Rightarrow> table_select" where
  "field_request t field v =
     \<lparr>tsl_table = t, tsl_select = SelectAll, tsl_filters = [\<lparr>rf_column = field, rf_operator = OpEq, rf_value = v\<rparr>],
      tsl_order_by = [], tsl_limit = Some 1, tsl_offset = None\<rparr>"

definition get_by_field where
  "get_by_field G user t field v s =
     (case pg_select_rows G (field_request t field v) (Some user) s of
        (Ok rows, s) \<Rightarrow> (Ok (if rows = [] then None else Some (last rows)), s)
      | (Err e, s) \<Rightarrow> (Err e, s)
      | (Panic, s) \<Rightarrow> (Panic, s))"

text \<open>The catalog answers the detail fields of a table, and may change the state of the server.\<close>

type_synonym 's pg_catalog = "qualified_table \<Rightarrow> 's \<Rightarrow> (app_error, table_detail_fields list) outcome \<times> 's"

definition detail_handler where
  "detail_handler D G user t pick v s =
     (let (found, s) = D t s in
      case and_then found (\<lambda>found. and_then (resolve_detail_fields t found) pick) of
        Ok field \<Rightarrow>
          (case get_by_field G user t field v s of
             (answer, s) \<Rightarrow>
               (and_then answer (ok_or (AppNotFound (''record not found in '' @ ticked (table_name t)))), s))
      | Err e \<Rightarrow> (Err e, s)
      | Panic \<Rightarrow> (Panic, s))"

definition select_row_by_primary_key where
  "select_row_by_primary_key D G user table v s =
     (case qualified_parse table of
        Ok t \<Rightarrow> detail_handler D G user t (resolve_primary_key_field t) v s
      | Err e \<Rightarrow> (Err e, s)
      | Panic \<Rightarrow> (Panic, s))"

definition select_row_by_unique_field where
  "select_row_by_unique_field D G user table lookup v s =
     (case and_then (qualified_parse table) (\<lambda>t. and_then (parse_lookup_field lookup) (\<lambda>field. Ok (t, field))) of
        Ok (t, field) \<Rightarrow>
          detail_handler D G user t (\<lambda>detail.
            if field \<notin> set (tdf_unique_fields detail)
            then Err (AppBadRequest (''field '' @ ticked field @ '' is not a unique field on table '' @ ticked (table_name t)))
            else Ok field) v s
      | Err e \<Rightarrow> (Err e, s)
      | Panic \<Rightarrow> (Panic, s))"

section \<open>Statements are templates\<close>

text \<open>
  What a statement may be made of: fixed words of the code, checked identifiers between double quotes, and
  placeholders. No value of a request is ever part of the text.
\<close>

datatype sql_piece = Word string | Name string | Placeholder nat

fun piece_text :: "sql_piece \<Rightarrow> string" where
  "piece_text (Word w) = w"
| "piece_text (Name i) = quoted_identifier i"
| "piece_text (Placeholder n) = ''$'' @ show_nat n"

definition sql_words :: "string list" where
  "sql_words = [''t.*'', ''t.'', ''t'', ''.'', '', '', '' DESC'', '' ASC'', '' ORDER BY '', ''::text '', '' '',
     ''='', ''!='', ''>'', ''>='', ''<'', ''<='', ''LIKE'', ''ILIKE'', '' (SELECT x.'',
     '' FROM jsonb_populate_record(NULL::'', '', jsonb_build_object('', '', to_jsonb('', ''))) AS x)'',
     '' AND '', '' WHERE '', ''select to_jsonb(t) as row from (select '', '' from '', '' as t'', '' limit '', '' offset '',
     '') as t'', ''with input_rows as (select '', '' from jsonb_populate_recordset(NULL::'', '')) insert into '',
     '' as inserted ('', '') select '', '' from input_rows returning to_jsonb(inserted.*)'',
     ''with patch as (select '', '' from jsonb_populate_record(NULL::'', '')) update '', '' as t set '', '' = patch.'',
     '' from patch'', '' returning to_jsonb(t.*)'', ''delete from '']"

fun piece_ok :: "sql_piece \<Rightarrow> bool" where
  "piece_ok (Word w) = (w \<in> set sql_words)"
| "piece_ok (Name i) = identifier_ok i"
| "piece_ok (Placeholder n) = True"

fun is_name :: "sql_piece \<Rightarrow> bool" where
  "is_name (Name i) = True"
| "is_name _ = False"

fun names_apart :: "sql_piece list \<Rightarrow> bool" where
  "names_apart (p # p' # ps) = (\<not> (is_name p \<and> is_name p') \<and> names_apart (p' # ps))"
| "names_apart _ = True"

definition placeholders :: "sql_piece list \<Rightarrow> nat list" where
  "placeholders = List.map_filter (\<lambda>p. case p of Placeholder n \<Rightarrow> Some n | _ \<Rightarrow> None)"

definition templated :: "'j sql_query \<Rightarrow> sql_piece list \<Rightarrow> bool" where
  "templated q ps \<longleftrightarrow> sq_text q = concat (map piece_text ps) \<and> list_all piece_ok ps \<and> names_apart ps
     \<and> placeholders ps = [1..<Suc (length (sq_binds q))]"

text \<open>A statement so far, and one that does not end in a name, so that a name may follow.\<close>

definition template :: "'j sql_query \<Rightarrow> bool" where
  "template q \<longleftrightarrow> (\<exists>ps. templated q ps)"

definition open_template :: "'j sql_query \<Rightarrow> bool" where
  "open_template q \<longleftrightarrow> (\<exists>ps. templated q ps \<and> (ps \<noteq> [] \<longrightarrow> \<not> is_name (last ps)))"

lemma names_apart_snoc:
  "names_apart (ps @ [p]) \<longleftrightarrow> names_apart ps \<and> (ps \<noteq> [] \<longrightarrow> \<not> (is_name (last ps) \<and> is_name p))"
  by (induction ps rule: names_apart.induct) auto

lemma placeholders_snoc: "placeholders (ps @ [p]) = placeholders ps @ (case p of Placeholder n \<Rightarrow> [n] | _ \<Rightarrow> [])"
  by (simp add: placeholders_def map_filter_def split: sql_piece.split)

lemma template_new: "s \<in> set sql_words \<Longrightarrow> open_template (sql_new s)"
  unfolding open_template_def templated_def
  by (intro exI [of _ "[Word s]"]) (simp add: sql_new_def placeholders_def map_filter_def)

lemma template_word: "template q \<Longrightarrow> s \<in> set sql_words \<Longrightarrow> open_template (push s q)"
  unfolding template_def
proof (elim exE)
  fix ps assume "templated q ps" and "s \<in> set sql_words"
  then show "open_template (push s q)"
    unfolding open_template_def templated_def
    by (intro exI [of _ "ps @ [Word s]"]) (auto simp: push_def placeholders_snoc names_apart_snoc)
qed

lemma template_name: "open_template q \<Longrightarrow> identifier_ok i \<Longrightarrow> template (push (quoted_identifier i) q)"
  unfolding open_template_def
proof (elim exE conjE)
  fix ps assume "templated q ps" and "identifier_ok i" and "ps \<noteq> [] \<longrightarrow> \<not> is_name (last ps)"
  then show "template (push (quoted_identifier i) q)"
    unfolding template_def templated_def
    by (intro exI [of _ "ps @ [Name i]"]) (auto simp: push_def placeholders_snoc names_apart_snoc)
qed

lemma template_bind: "template q \<Longrightarrow> open_template (push_bind b q)"
  unfolding template_def
proof (elim exE)
  fix ps assume "templated q ps"
  then show "open_template (push_bind b q)"
    unfolding open_template_def templated_def
    by (intro exI [of _ "ps @ [Placeholder (length (sq_binds q) + 1)]"])
      (auto simp: push_bind_def placeholders_snoc names_apart_snoc)
qed

lemma open_template: "open_template q \<Longrightarrow> template q"
  by (auto simp: open_template_def template_def)

lemma open_word: "open_template q \<Longrightarrow> s \<in> set sql_words \<Longrightarrow> open_template (push s q)"
  by (rule template_word [OF open_template])

lemma word_closed: "template q \<Longrightarrow> s \<in> set sql_words \<Longrightarrow> template (push s q)"
  by (rule open_template [OF template_word])

lemma bind_closed: "template q \<Longrightarrow> template (push_bind b q)"
  by (rule open_template [OF template_bind])

lemma template_table:
  assumes "table_ok t" and "open_template q"
  shows "template (push (table_quoted t) q)"
proof (cases "qt_schema t")
  case None
  with assms show ?thesis by (simp add: table_quoted_def table_ok_def template_name)
next
  case (Some schema)
  have "''.'' \<in> set sql_words" by (simp add: sql_words_def)
  moreover have "push (table_quoted t) q
      = push (quoted_identifier (qt_table t)) (push ''.'' (push (quoted_identifier schema) q))"
    using Some by (simp add: table_quoted_def push_def)
  ultimately show ?thesis
    using Some assms by (simp add: table_ok_def template_name template_word)
qed

lemma template_separated:
  assumes "xs \<noteq> []" and "open_template q" and sep: "sep \<in> set sql_words"
    and f: "\<And>x q. x \<in> set xs \<Longrightarrow> open_template q \<Longrightarrow> template (f x q)"
  shows "template (push_separated sep f xs q)"
proof -
  have rest: "template (fold (\<lambda>(index, x) q. f x (if index > 0 then push sep q else q)) (enumerate (Suc n) ys) q)"
    if "template q" "set ys \<subseteq> set xs" for n ys q
    using that by (induction ys arbitrary: n q) (auto intro!: f template_word sep)
  from assms(1) obtain y ys where xs: "xs = y # ys" by (cases xs) auto
  with rest [of "f y q" ys 0] f [of y q] assms(2) show ?thesis
    by (auto simp: push_separated_def)
qed

lemma operator_word: "sql_operator op \<in> set sql_words"
  by (cases op) (simp_all add: sql_words_def)

lemma template_columns:
  assumes "columns \<noteq> []" and "\<forall>c\<in>set columns. identifier_ok c" and "open_template q"
  shows "template (push_columns columns None q)"
  unfolding push_columns_def
  by (rule template_separated) (use assms in \<open>auto simp: sql_words_def intro!: template_name\<close>)

lemma template_select_list:
  assumes "select_list_ok select" and "open_template q"
  shows "template (push_select_list select q)"
proof (cases select)
  case SelectAll
  have "''t.*'' \<in> set sql_words" by (simp add: sql_words_def)
  with SelectAll assms show ?thesis by (simp add: open_template open_word)
next
  case (SelectColumns columns)
  with assms show ?thesis
    unfolding SelectColumns push_select_list.simps
    by (intro template_separated template_name open_word) (auto simp: sql_words_def)
qed

lemma template_order_by:
  assumes "\<forall>o'\<in>set order. identifier_ok (ob_column o')" and "template q"
  shows "template (push_order_by order q)"
proof (cases "order = []")
  case False
  have one: "template (push (if ob_descending x then '' DESC'' else '' ASC'') (push (quoted_identifier (ob_column x)) (push ''t.'' q)))"
    if "x \<in> set order" "open_template q" for x and q :: "'a sql_query"
  proof -
    have "template (push (quoted_identifier (ob_column x)) (push ''t.'' q))"
      using that assms(1) by (intro template_name open_word) (auto simp: sql_words_def)
    then show ?thesis by (rule word_closed) (simp add: sql_words_def)
  qed
  show ?thesis
    unfolding push_order_by_def if_not_P [OF False]
    by (rule template_separated [OF False template_word [OF assms(2)]]) (use one in \<open>auto simp: sql_words_def\<close>)
qed (use assms in \<open>simp add: push_order_by_def\<close>)

lemma template_filter:
  assumes "identifier_ok (rf_column f)" and "table_ok t" and "open_template q"
  shows "template (push_filter t ''t'' f q)"
proof -
  have column: "template (push (quoted_identifier (rf_column f)) (push ''.'' (push ''t'' q)))"
    by (intro template_name open_word assms) (simp_all add: sql_words_def)
  show ?thesis
  proof (cases "rf_operator f = OpLike \<or> rf_operator f = OpILike")
    case True
    show ?thesis
      unfolding push_filter_def Let_def if_P [OF True]
      by (rule bind_closed, rule word_closed, rule word_closed, rule word_closed, rule column)
        (simp_all only: operator_word, simp_all add: sql_words_def)
  next
    case False
    let ?head = "push (quoted_identifier (rf_column f)) (push '' (SELECT x.'' (push (sql_operator (rf_operator f)) (push '' ''
        (push (quoted_identifier (rf_column f)) (push ''.'' (push ''t'' q))))))"
    have head: "template ?head"
      by (rule template_name, rule open_word, rule open_word, rule template_word, rule column)
        (simp_all only: operator_word assms, simp_all add: sql_words_def)
    have body: "template (push (table_quoted t) (push '' FROM jsonb_populate_record(NULL::'' ?head))"
      by (rule template_table, rule assms, rule template_word, rule head) (simp add: sql_words_def)
    show ?thesis
      unfolding push_filter_def Let_def if_not_P [OF False]
      by (rule word_closed, rule bind_closed, rule word_closed, rule bind_closed, rule word_closed, rule body)
        (simp_all add: sql_words_def)
  qed
qed

lemma template_filters:
  assumes "filters_ok fs" and "table_ok t" and "template q"
  shows "template (push_filters t fs ''t'' q)"
proof (cases "fs = []")
  case False
  show ?thesis
    unfolding push_filters_def if_not_P [OF False]
    by (rule template_separated [OF False template_word [OF assms(3)]])
      (use assms in \<open>auto simp: sql_words_def filters_ok_def intro!: template_filter\<close>)
qed (use assms in \<open>simp add: push_filters_def\<close>)

text \<open>Every statement is a template.\<close>

lemma template_select:
  assumes "select_ok r"
  shows "template (select_query r)"
proof -
  let ?q = "push_select_list (tsl_select r) (sql_new ''select to_jsonb(t) as row from (select '')"
  have "template ?q"
    by (rule template_select_list, use assms in \<open>simp add: select_ok_def\<close>, rule template_new) (simp add: sql_words_def)
  then have "template (push_table (tsl_table r) (push '' from '' ?q))"
    unfolding push_table_def using assms
    by (intro template_table template_word) (simp_all add: sql_words_def select_ok_def)
  then have "template (push '' as t'' (push_table (tsl_table r) (push '' from '' ?q)))"
    by (rule word_closed) (simp add: sql_words_def)
  then have q: "template (push_order_by (tsl_order_by r) (push_filters (tsl_table r) (tsl_filters r) ''t''
      (push '' as t'' (push_table (tsl_table r) (push '' from '' ?q)))))"
    using assms by (intro template_order_by template_filters) (simp_all add: select_ok_def)
  have bound: "template (case n of Some n \<Rightarrow> push_bind (BindInt n) (push w q) | None \<Rightarrow> q)"
    if "template q" "w \<in> set sql_words" for n w and q :: "'j sql_query"
    using that by (auto split: option.split intro: bind_closed word_closed)
  show ?thesis
    unfolding select_query_def Let_def
    by (rule word_closed, rule bound, rule bound, rule q) (simp_all add: sql_words_def)
qed

lemma template_insert:
  assumes "table_ok (tin_table r)" and "validate_insert_rows (tin_rows r) = Ok columns"
  shows "template (insert_query columns r)"
proof -
  from assms(2) obtain row rows where rows: "tin_rows r = row # rows" "bt_len row \<noteq> 0"
    and columns: "columns = sort (bt_keys row)" "\<forall>c\<in>set columns. identifier_ok c"
    by (auto simp: validate_insert_rows_def Let_def outcome_simps for_each_Ok_iff split: list.splits if_splits)
  have ne: "columns \<noteq> []"
    using rows(2) columns(1) by (metis bt_len_def length_sort list.size(3) bt_keys_def length_map)
  let ?q1 = "push_columns columns None (sql_new ''with input_rows as (select '')"
  have "template ?q1" by (rule template_columns [OF ne columns(2) template_new]) (simp add: sql_words_def)
  then have "template (push_table (tin_table r) (push '' from jsonb_populate_recordset(NULL::'' ?q1))"
    unfolding push_table_def by (intro template_table template_word assms(1)) (simp_all add: sql_words_def)
  then have "open_template (push '')) insert into '' (push_bind (BindRows (tin_rows r)) (push '', ''
      (push_table (tin_table r) (push '' from jsonb_populate_recordset(NULL::'' ?q1)))))"
    by (intro open_word template_bind word_closed) (simp_all add: sql_words_def)
  then have "template (push_table (tin_table r) (push '')) insert into '' (push_bind (BindRows (tin_rows r)) (push '', ''
      (push_table (tin_table r) (push '' from jsonb_populate_recordset(NULL::'' ?q1))))))"
    unfolding push_table_def by (intro template_table assms(1))
  then have "template (push_columns columns None (push '' as inserted ('' (push_table (tin_table r) (push '')) insert into ''
      (push_bind (BindRows (tin_rows r)) (push '', '' (push_table (tin_table r)
      (push '' from jsonb_populate_recordset(NULL::'' ?q1))))))))"
    by (intro template_columns [OF ne columns(2)] template_word) (simp_all add: sql_words_def)
  then show ?thesis
    unfolding insert_query_def Let_def
    by (intro word_closed [OF template_columns [OF ne columns(2) template_word]]) (simp_all add: sql_words_def)
qed

lemma template_update:
  assumes "table_ok (tup_table r)" and "filters_ok (tup_filters r)" and "validate_patch (tup_patch r) = Ok columns"
  shows "template (update_query columns r)"
proof -
  from assms(3) have ne: "bt_len (tup_patch r) \<noteq> 0" and columns: "columns = sort (bt_keys (tup_patch r))"
    and ids: "\<forall>c\<in>set columns. identifier_ok c"
    by (auto simp: validate_patch_def Let_def outcome_simps for_each_Ok_iff split: if_splits)
  from ne columns have ne: "columns \<noteq> []" by (metis bt_len_def length_sort list.size(3) bt_keys_def length_map)
  let ?q1 = "push_columns columns None (sql_new ''with patch as (select '')"
  have "template ?q1" by (rule template_columns [OF ne ids template_new]) (simp add: sql_words_def)
  then have "template (push_table (tup_table r) (push '' from jsonb_populate_record(NULL::'' ?q1))"
    unfolding push_table_def by (intro template_table template_word assms(1)) (simp_all add: sql_words_def)
  then have "open_template (push '')) update '' (push_bind (BindObject (tup_patch r)) (push '', ''
      (push_table (tup_table r) (push '' from jsonb_populate_record(NULL::'' ?q1)))))"
    by (intro open_word template_bind word_closed) (simp_all add: sql_words_def)
  then have "open_template (push '' as t set '' (push_table (tup_table r) (push '')) update '' (push_bind (BindObject (tup_patch r))
      (push '', '' (push_table (tup_table r) (push '' from jsonb_populate_record(NULL::'' ?q1)))))))"
    unfolding push_table_def
    by (intro template_word [OF template_table [OF assms(1)]]) (assumption, simp add: sql_words_def)
  then have "template (push_separated '', '' (\<lambda>column q.
      push (quoted_identifier column) (push '' = patch.'' (push (quoted_identifier column) q))) columns
      (push '' as t set '' (push_table (tup_table r) (push '')) update '' (push_bind (BindObject (tup_patch r))
      (push '', '' (push_table (tup_table r) (push '' from jsonb_populate_record(NULL::'' ?q1))))))))"
    by (rule template_separated [OF ne])
      (use ids in \<open>auto simp: sql_words_def intro!: template_name template_word [OF template_name]\<close>)
  then show ?thesis
    unfolding update_query_def Let_def
    by (intro word_closed [OF template_filters [OF assms(2,1) word_closed]]) (simp_all add: sql_words_def)
qed

lemma template_delete:
  assumes "table_ok (tdl_table r)" and "filters_ok (tdl_filters r)"
  shows "template (delete_query r)"
  unfolding delete_query_def Let_def push_table_def
  by (intro word_closed [OF template_filters [OF assms(2,1) word_closed [OF template_table [OF assms(1) template_new]]]])
    (simp_all add: sql_words_def)

section \<open>Statements of requests\<close>

lemma identifier_no_quote: "identifier_ok i \<Longrightarrow> CHR 0x22 \<notin> set i"
  by (auto simp: identifier_ok_def list_all_iff ascii_defs less_eq_char_def)

lemma word_no_quote: "w \<in> set sql_words \<Longrightarrow> CHR 0x22 \<notin> set w"
  by (auto simp: sql_words_def)

text \<open>
  What the server may be asked to run: words of the code, which hold no double quote; names between double
  quotes, which are checked identifiers, hold no double quote, and never follow one another; and a placeholder
  for every bound value, in order.
\<close>

definition statement_safe :: "'j sql_query \<Rightarrow> bool" where
  "statement_safe q \<longleftrightarrow> (\<exists>ps. sq_text q = concat (map piece_text ps)
     \<and> (\<forall>p\<in>set ps. case p of Word w \<Rightarrow> w \<in> set sql_words \<and> CHR 0x22 \<notin> set w
          | Name i \<Rightarrow> identifier_ok i \<and> CHR 0x22 \<notin> set i | Placeholder n \<Rightarrow> True)
     \<and> names_apart ps \<and> placeholders ps = [1..<Suc (length (sq_binds q))])"

lemma template_safe: "template q \<Longrightarrow> statement_safe q"
proof -
  assume "template q"
  then obtain ps where ps: "templated q ps" by (auto simp: template_def)
  have "case p of Word w \<Rightarrow> w \<in> set sql_words \<and> CHR 0x22 \<notin> set w
      | Name i \<Rightarrow> identifier_ok i \<and> CHR 0x22 \<notin> set i | Placeholder n \<Rightarrow> True" if "p \<in> set ps" for p
    using ps that word_no_quote identifier_no_quote by (cases p) (auto simp: templated_def list_all_iff)
  with ps show ?thesis unfolding statement_safe_def templated_def by blast
qed

text \<open>The requests without their values: what is left decides the text.\<close>

definition blank_filters :: "rest_filter list \<Rightarrow> rest_filter list" where
  "blank_filters = map (\<lambda>f. f\<lparr>rf_value := []\<rparr>)"

definition blank_select :: "table_select \<Rightarrow> table_select" where
  "blank_select r = r\<lparr>tsl_filters := blank_filters (tsl_filters r), tsl_limit := map_option (\<lambda>_. 0) (tsl_limit r),
     tsl_offset := map_option (\<lambda>_. 0) (tsl_offset r)\<rparr>"

definition blank_insert :: "'j table_insert \<Rightarrow> 'j table_insert" where
  "blank_insert r = r\<lparr>tin_rows := []\<rparr>"

definition blank_update :: "'j table_update \<Rightarrow> 'j table_update" where
  "blank_update r = r\<lparr>tup_patch := bt_empty, tup_filters := blank_filters (tup_filters r)\<rparr>"

definition blank_delete :: "table_delete \<Rightarrow> table_delete" where
  "blank_delete r = r\<lparr>tdl_filters := blank_filters (tdl_filters r)\<rparr>"

text \<open>The same text with the same number of values.\<close>

definition alike :: "'j sql_query \<Rightarrow> 'j sql_query \<Rightarrow> bool" where
  "alike q q' \<longleftrightarrow> sq_text q = sq_text q' \<and> length (sq_binds q) = length (sq_binds q')"

lemma alike_refl [simp]: "alike q q"
  by (simp add: alike_def)

lemma alike_push: "alike q q' \<Longrightarrow> alike (push s q) (push s q')"
  by (simp add: alike_def push_def)

lemma alike_bind: "alike q q' \<Longrightarrow> alike (push_bind b q) (push_bind b' q')"
  by (simp add: alike_def push_bind_def)

lemma alike_separated:
  assumes f: "\<And>x q q'. alike q q' \<Longrightarrow> alike (f x q) (f (g x) q')" and "alike q q'"
  shows "alike (push_separated sep f xs q) (push_separated sep f (map g xs) q')"
proof -
  have "alike (fold (\<lambda>(index, x) q. f x (if index > 0 then push sep q else q)) (enumerate n xs) q)
      (fold (\<lambda>(index, x) q. f x (if index > 0 then push sep q else q)) (enumerate n (map g xs)) q')" for n
    using assms(2) by (induction xs arbitrary: n q q') (simp_all add: f alike_push)
  then show ?thesis by (simp add: push_separated_def)
qed

lemma alike_same_separated:
  assumes "\<And>x q q'. alike q q' \<Longrightarrow> alike (f x q) (f x q')" and "alike q q'"
  shows "alike (push_separated sep f xs q) (push_separated sep f xs q')"
  using alike_separated [of f "\<lambda>x. x" q q' sep xs] assms by simp

lemma alike_filters: "alike q q' \<Longrightarrow> alike (push_filters t fs a q) (push_filters t (blank_filters fs) a q')"
  unfolding push_filters_def blank_filters_def
  by (auto simp: push_filter_def Let_def intro!: alike_separated alike_push alike_bind)

lemma alike_columns: "alike q q' \<Longrightarrow> alike (push_columns columns a q) (push_columns columns a q')"
  unfolding push_columns_def by (auto intro!: alike_same_separated alike_push split: option.split)

lemma alike_order_by: "alike q q' \<Longrightarrow> alike (push_order_by order q) (push_order_by order q')"
  unfolding push_order_by_def by (auto intro!: alike_same_separated alike_push)

lemma select_text: "sq_text (select_query (blank_select r) :: 'j sql_query) = sq_text (select_query r :: 'j sql_query)"
proof -
  have "alike (select_query r :: 'j sql_query) (select_query (blank_select r))"
    unfolding select_query_def blank_select_def Let_def push_table_def
    by (cases "tsl_limit r"; cases "tsl_offset r")
      (simp_all, (intro alike_push alike_bind alike_order_by alike_filters alike_refl)+)
  then show ?thesis by (simp add: alike_def)
qed

lemma insert_text: "sq_text (insert_query columns (blank_insert r)) = sq_text (insert_query columns r)"
proof -
  have "alike (insert_query columns r) (insert_query columns (blank_insert r))"
    unfolding insert_query_def blank_insert_def Let_def push_table_def
    by (simp, intro alike_push alike_bind alike_columns alike_refl)
  then show ?thesis by (simp add: alike_def)
qed

lemma update_text: "sq_text (update_query columns (blank_update r)) = sq_text (update_query columns r)"
proof -
  have "alike (update_query columns r) (update_query columns (blank_update r))"
    unfolding update_query_def blank_update_def Let_def push_table_def
    by (simp, intro alike_push alike_filters alike_same_separated alike_bind alike_refl)
  then show ?thesis by (simp add: alike_def)
qed

lemma delete_text: "sq_text (delete_query (blank_delete r) :: 'j sql_query) = sq_text (delete_query r :: 'j sql_query)"
proof -
  have "alike (delete_query r :: 'j sql_query) (delete_query (blank_delete r))"
    unfolding delete_query_def blank_delete_def Let_def
    by (simp, intro alike_push alike_filters alike_refl)
  then show ?thesis by (simp add: alike_def)
qed

section \<open>Sessions\<close>

text \<open>A server that also keeps the calls it was asked, and what they may be.\<close>

definition logged :: "('j, 's) pg_server \<Rightarrow> ('j, 's \<times> 'j pg_call list) pg_server" where
  "logged G call = (\<lambda>(s, log). case G call s of (answer, s') \<Rightarrow> (answer, (s', log @ [call])))"

definition session_safe :: "string \<Rightarrow> ('j sql_query \<Rightarrow> bool) \<Rightarrow> 'j pg_call list \<Rightarrow> bool" where
  "session_safe user statement log \<longleftrightarrow> log = [] \<or> log = [PgBegin]
     \<or> (\<exists>rest. log = PgBegin # PgSetUser user # rest
          \<and> (rest = [PgRollback]
             \<or> (\<exists>q. statement q \<and> statement_safe q \<and> rest \<in> {[PgQuery q, PgRollback], [PgQuery q, PgCommit], [PgQuery q, PgCommit, PgRollback]})))"

definition session_log :: "('e, 'a) outcome \<times> 's \<times> 'j pg_call list \<Rightarrow> 'j pg_call list" where
  "session_log r = snd (snd r)"

lemma pg_transaction_session:
  assumes "\<And>q. query = Ok q \<Longrightarrow> statement_safe q \<and> statement q"
  shows "session_safe user statement (session_log (pg_transaction (logged G) (Some user) query (s, [])))"
proof -
  obtain a1 s1 where c1: "G PgBegin s = (a1, s1)" by fastforce
  obtain a2 s2 where c2: "G (PgSetUser user) s1 = (a2, s2)" by fastforce
  show ?thesis
  proof (cases query)
    case (Ok q)
    note safe = assms [OF Ok]
    obtain a3 s3 where c3: "G (PgQuery q) s2 = (a3, s3)" by fastforce
    obtain a4 s4 where c4: "G PgCommit s3 = (a4, s4)" by fastforce
    show ?thesis
      using safe
      by (cases a1; cases a2; cases a3; cases a4)
        (auto simp: pg_transaction_def pg_call_def apply_auth_context_def or_rollback_def pg_rollback_def logged_def
          session_log_def session_safe_def Ok c1 c2 c3 c4 Let_def split: prod.splits)
  qed (cases a1; cases a2; auto simp: pg_transaction_def pg_call_def apply_auth_context_def or_rollback_def
      pg_rollback_def logged_def session_log_def session_safe_def c1 c2 Let_def split: prod.splits)+
qed

lemma session_none: "session_safe user statement (session_log (r, s, []))"
  by (simp add: session_log_def session_safe_def)

text \<open>
  C21. Requests of the gateway reach the server in one shape. Whatever the table path, query and body of a select,
  insert, update or delete request, and whatever the server answers, the server is asked nothing, or runs
  one transaction that first takes on the identity of the authenticated user, for row-level security,
  then runs at most one statement, that of the parsed request, and ends in a commit or a roll-back. The text
  of that statement is made of words of the code, of checked identifiers between double quotes, and of
  placeholders for all bound values in order; a double quote occurs around an identifier only. No value of a
  request is part of the text: without the values of its filters, limit, offset, rows and patch the
  request has the same text.
\<close>

theorem rest_sessions_safe:
  "session_safe user (\<lambda>q. \<exists>r. parse_select_request form table query = Ok r \<and> q = select_query r)
     (session_log (rest_select form (logged G) user table query (s, [])))
   \<and> session_safe user (\<lambda>q. \<exists>r columns. parse_insert_request shape table body = Ok r
        \<and> validate_insert_rows (tin_rows r) = Ok columns \<and> q = insert_query columns r)
     (session_log (rest_insert shape (logged G) user table body (s, [])))
   \<and> session_safe user (\<lambda>q. \<exists>r columns. parse_update_request shape form table query body = Ok r
        \<and> validate_patch (tup_patch r) = Ok columns \<and> q = update_query columns r)
     (session_log (rest_update shape form (logged G) user table query body (s, [])))
   \<and> session_safe user (\<lambda>q. \<exists>r. parse_delete_request form table query = Ok r \<and> q = delete_query r)
     (session_log (rest_delete form (logged G) user table query (s, [])))
   \<and> sq_text (select_query (blank_select select) :: 'q sql_query) = sq_text (select_query select :: 'q sql_query)
   \<and> sq_text (insert_query columns (blank_insert rows)) = sq_text (insert_query columns rows)
   \<and> sq_text (update_query columns (blank_update patch)) = sq_text (update_query columns patch)
   \<and> sq_text (delete_query (blank_delete delete) :: 'q sql_query) = sq_text (delete_query delete :: 'q sql_query)"
proof (intro conjI select_text insert_text update_text delete_text)
  show "session_safe user (\<lambda>q. \<exists>r. parse_select_request form table query = Ok r \<and> q = select_query r)
     (session_log (rest_select form (logged G) user table query (s, [])))"
  proof (cases "parse_select_request form table query")
    case (Ok r)
    then show ?thesis
      unfolding rest_select_def pg_select_rows_def
      by (auto intro!: pg_transaction_session template_safe template_select parse_select_request_Ok)
  qed (simp_all add: rest_select_def session_none)
  show "session_safe user (\<lambda>q. \<exists>r columns. parse_insert_request shape table body = Ok r
        \<and> validate_insert_rows (tin_rows r) = Ok columns \<and> q = insert_query columns r)
     (session_log (rest_insert shape (logged G) user table body (s, [])))"
  proof (cases "parse_insert_request shape table body")
    case (Ok r)
    then show ?thesis
      unfolding rest_insert_def pg_insert_rows_def
      by (auto simp: and_then_Ok_iff intro!: pg_transaction_session template_safe template_insert parse_insert_request_Ok)
  qed (simp_all add: rest_insert_def session_none)
  show "session_safe user (\<lambda>q. \<exists>r columns. parse_update_request shape form table query body = Ok r
        \<and> validate_patch (tup_patch r) = Ok columns \<and> q = update_query columns r)
     (session_log (rest_update shape form (logged G) user table query body (s, [])))"
  proof (cases "parse_update_request shape form table query body")
    case (Ok r)
    then show ?thesis
      unfolding rest_update_def pg_update_rows_def using parse_update_request_Ok [OF Ok]
      by (auto simp: and_then_Ok_iff intro!: pg_transaction_session template_safe template_update)
  qed (simp_all add: rest_update_def session_none)
  show "session_safe user (\<lambda>q. \<exists>r. parse_delete_request form table query = Ok r \<and> q = delete_query r)
     (session_log (rest_delete form (logged G) user table query (s, [])))"
  proof (cases "parse_delete_request form table query")
    case (Ok r)
    then show ?thesis
      unfolding rest_delete_def pg_delete_rows_def using parse_delete_request_Ok [OF Ok]
      by (auto intro!: pg_transaction_session template_safe template_delete)
  qed (simp_all add: rest_delete_def session_none)
qed

text \<open>
  The server must confirm before a client is told of success: rows are answered only after the statement
  and the commit succeeded, in that order and from the state the user's identity was set in.
\<close>

theorem pg_answers_committed:
  "pg_transaction G (Some user) query s = (Ok rows, s') \<longleftrightarrow>
     (\<exists>x s1 y s2 q s3 z. G PgBegin s = (Ok x, s1) \<and> G (PgSetUser user) s1 = (Ok y, s2) \<and> query = Ok q
        \<and> G (PgQuery q) s2 = (Ok rows, s3) \<and> G PgCommit s3 = (Ok z, s'))"
proof -
  obtain a1 s1 where c1: "G PgBegin s = (a1, s1)" by fastforce
  obtain a2 s2 where c2: "G (PgSetUser user) s1 = (a2, s2)" by fastforce
  show ?thesis
  proof (cases query)
    case (Ok q)
    obtain a3 s3 where c3: "G (PgQuery q) s2 = (a3, s3)" by fastforce
    obtain a4 s4 where c4: "G PgCommit s3 = (a4, s4)" by fastforce
    show ?thesis
      by (cases a1; cases a2; cases a3; cases a4)
        (auto simp: pg_transaction_def pg_call_def apply_auth_context_def or_rollback_def Ok c1 c2 c3 c4 Let_def)
  qed (cases a1; cases a2; auto simp: pg_transaction_def pg_call_def apply_auth_context_def or_rollback_def c1 c2 Let_def)+
qed

definition odd_key :: string where
  "odd_key = ''id'' @ [CHR 0x22]"

definition odd_detail :: table_detail_fields where
  "odd_detail = \<lparr>tdf_schema = ''public'', tdf_table = ''notes'', tdf_primary_key = [odd_key], tdf_unique_fields = []\<rparr>"

text \<open>
  The primary key endpoint trusts the catalog. It puts the name of the primary key between double quotes as the
  catalog has it, unchecked and without doubling quotes: for a table whose key column has a quote in its name,
  the name is no checked identifier and ends in the middle of what was put between the quotes.
\<close>

theorem primary_key_name_unchecked:
  "\<exists>q before after. session_log (select_row_by_primary_key (\<lambda>t s. (Ok [odd_detail], s)) (logged (\<lambda>call s. (Ok [], s))) ''user'' ''notes'' ''1''
        (((), []) :: unit \<times> unit pg_call list)) = [PgBegin, PgSetUser ''user'', PgQuery q, PgCommit]
     \<and> sq_text q = before @ [CHR 0x22] @ odd_key @ [CHR 0x22] @ after \<and> CHR 0x22 \<in> set odd_key \<and> \<not> identifier_ok odd_key"
proof -
  let ?t = "\<lparr>qt_schema = None, qt_table = ''notes''\<rparr>"
  let ?q = "select_query (field_request ?t odd_key ''1'') :: unit sql_query"
  have "qualified_parse ''notes'' = Ok ?t" by code_simp
  then have "session_log (select_row_by_primary_key (\<lambda>t s. (Ok [odd_detail], s)) (logged (\<lambda>call s. (Ok [], s))) ''user'' ''notes'' ''1''
        (((), []) :: unit \<times> unit pg_call list)) = [PgBegin, PgSetUser ''user'', PgQuery ?q, PgCommit]"
    by (simp add: select_row_by_primary_key_def detail_handler_def resolve_detail_fields_def resolve_primary_key_field_def
        odd_detail_def get_by_field_def pg_select_rows_def pg_transaction_def pg_call_def apply_auth_context_def
        or_rollback_def logged_def session_log_def Let_def)
  moreover have "sq_text ?q = (''select to_jsonb(t) as row from (select t.* from '' @ quoted_identifier ''notes'' @ '' as t WHERE t.'')
      @ [CHR 0x22] @ odd_key @ [CHR 0x22] @ '' = (SELECT x.'' @ quoted_identifier odd_key
      @ '' FROM jsonb_populate_record(NULL::'' @ quoted_identifier ''notes''
      @ '', jsonb_build_object($1, to_jsonb($2))) AS x) limit $3) as t''" by code_simp
  then have "\<exists>before after. sq_text ?q = before @ [CHR 0x22] @ odd_key @ [CHR 0x22] @ after" by blast
  moreover have "CHR 0x22 \<in> set odd_key" by (simp add: odd_key_def)
  moreover from this have "\<not> identifier_ok odd_key" using identifier_no_quote by blast
  ultimately show ?thesis by blast
qed

end
