(* ===== verification/Catalog.thy ===== *)
theory Catalog
  imports Postgres
begin

text \<open>
  The documentation the PostgreSQL backend assembles from rows of the catalog (\<open>build_table_docs\<close> and
  \<open>build_table_detail_fields\<close> in \<open>crates/evobase-db/src/postgres.rs\<close>), with the data of
  \<open>crates/evobase-core/src/docs.rs\<close>; both are proved equal to reference definitions.
\<close>

section \<open>Data\<close>

record column_doc =
  cdc_name :: string
  cdc_data_type :: string
  cdc_nullable :: bool
  cdc_has_default :: bool

record table_methods =
  tmt_get :: bool
  tmt_post :: bool
  tmt_patch :: bool
  tmt_delete :: bool

definition methods_any :: "table_methods \<Rightarrow> bool" where
  "methods_any m \<longleftrightarrow> tmt_get m \<or> tmt_post m \<or> tmt_patch m \<or> tmt_delete m"

record rls_policy_doc =
  rpd_name :: string
  rpd_command :: string
  rpd_using :: "string option"
  rpd_with_check :: "string option"

record rls_doc =
  rld_enabled :: bool
  rld_policies :: "rls_policy_doc list"

record query_doc =
  qdc_selectable_columns :: "string list"
  qdc_filter_operators :: "string list"
  qdc_order_supported :: bool
  qdc_limit_supported :: bool
  qdc_offset_supported :: bool

definition query_from_columns :: "column_doc list \<Rightarrow> query_doc" where
  "query_from_columns columns = \<lparr>qdc_selectable_columns = map cdc_name columns,
     qdc_filter_operators = [''eq'', ''neq'', ''gt'', ''gte'', ''lt'', ''lte'', ''like'', ''ilike''],
     qdc_order_supported = True, qdc_limit_supported = True, qdc_offset_supported = True\<rparr>"

record table_doc =
  tdc_name :: string
  tdc_schema :: string
  tdc_table :: string
  tdc_endpoint :: string
  tdc_columns :: "column_doc list"
  tdc_methods :: table_methods
  tdc_rls :: rls_doc
  tdc_query :: query_doc

record column_row =
  crw_schema :: string
  crw_table :: string
  crw_column :: string
  crw_data_type :: string
  crw_nullable :: bool
  crw_has_default :: bool

record grant_row =
  grw_schema :: string
  grw_table :: string
  grw_privilege :: string

record rls_row =
  rlw_schema :: string
  rlw_table :: string
  rlw_enabled :: bool

record policy_row =
  prw_schema :: string
  prw_table :: string
  prw_name :: string
  prw_command :: string
  prw_using_expr :: "string option"
  prw_with_check :: "string option"

record constraint_column_row =
  ccr_schema :: string
  ccr_table :: string
  ccr_constraint_type :: string
  ccr_column :: string
  ccr_constraint_column_count :: i64

section \<open>Assembling\<close>

text \<open>\<open>entry().or_insert_with()\<close> followed by a change, and \<open>get_mut()\<close> with \<open>continue\<close>.\<close>

definition upsert :: "'k \<Rightarrow> 'v \<Rightarrow> ('v \<Rightarrow> 'v) \<Rightarrow> ('k::linorder, 'v) btree_map \<Rightarrow> ('k, 'v) btree_map" where
  "upsert k new f m = bt_insert k (f (case bt_get m k of None \<Rightarrow> new | Some v \<Rightarrow> v)) m"

definition update_at :: "'k \<Rightarrow> ('v \<Rightarrow> 'v) \<Rightarrow> ('k::linorder, 'v) btree_map \<Rightarrow> ('k, 'v) btree_map" where
  "update_at k f m = (case bt_get m k of None \<Rightarrow> m | Some v \<Rightarrow> bt_insert k (f v) m)"

definition empty_table_doc :: "string \<times> string \<Rightarrow> table_doc" where
  "empty_table_doc key = (let name = fst key @ ''.'' @ snd key in
     \<lparr>tdc_name = name, tdc_schema = fst key, tdc_table = snd key, tdc_endpoint = ''/rest/'' @ name, tdc_columns = [],
      tdc_methods = \<lparr>tmt_get = False, tmt_post = False, tmt_patch = False, tmt_delete = False\<rparr>,
      tdc_rls = \<lparr>rld_enabled = False, rld_policies = []\<rparr>, tdc_query = query_from_columns []\<rparr>)"

definition add_column :: "column_row \<Rightarrow> table_doc \<Rightarrow> table_doc" where
  "add_column column doc = doc\<lparr>tdc_columns := tdc_columns doc @
     [\<lparr>cdc_name = crw_column column, cdc_data_type = crw_data_type column, cdc_nullable = crw_nullable column,
       cdc_has_default = crw_has_default column\<rparr>]\<rparr>"

definition add_grant :: "grant_row \<Rightarrow> table_doc \<Rightarrow> table_doc" where
  "add_grant row doc =
     (let p = grw_privilege row; m = tdc_methods doc in
      doc\<lparr>tdc_methods := if p = ''SELECT'' then m\<lparr>tmt_get := True\<rparr>
        else if p = ''INSERT'' then m\<lparr>tmt_post := True\<rparr>
        else if p = ''UPDATE'' then m\<lparr>tmt_patch := True\<rparr>
        else if p = ''DELETE'' then m\<lparr>tmt_delete := True\<rparr>
        else m\<rparr>)"

definition add_rls :: "rls_row \<Rightarrow> table_doc \<Rightarrow> table_doc" where
  "add_rls row doc = doc\<lparr>tdc_rls := (tdc_rls doc)\<lparr>rld_enabled := rlw_enabled row\<rparr>\<rparr>"

definition add_policy :: "policy_row \<Rightarrow> table_doc \<Rightarrow> table_doc" where
  "add_policy row doc = doc\<lparr>tdc_rls := (tdc_rls doc)\<lparr>rld_policies := rld_policies (tdc_rls doc) @
     [\<lparr>rpd_name = prw_name row, rpd_command = prw_command row, rpd_using = prw_using_expr row,
       rpd_with_check = prw_with_check row\<rparr>]\<rparr>\<rparr>"

definition build_table_docs ::
  "column_row list \<Rightarrow> grant_row list \<Rightarrow> rls_row list \<Rightarrow> policy_row list \<Rightarrow> table_doc list" where
  "build_table_docs columns grants rls_rows policies =
     (let tables = fold (\<lambda>c. let key = (crw_schema c, crw_table c) in upsert key (empty_table_doc key) (add_column c))
            columns bt_empty;
          tables = fold (\<lambda>g. update_at (grw_schema g, grw_table g) (add_grant g)) grants tables;
          tables = fold (\<lambda>r. update_at (rlw_schema r, rlw_table r) (add_rls r)) rls_rows tables;
          tables = fold (\<lambda>p. update_at (prw_schema p, prw_table p) (add_policy p)) policies tables;
          docs = map (\<lambda>doc. doc\<lparr>tdc_query := query_from_columns (tdc_columns doc)\<rparr>) (bt_values tables)
      in filter (\<lambda>doc. methods_any (tdc_methods doc)) docs)"

definition add_constraint :: "constraint_column_row \<Rightarrow> table_detail_fields \<Rightarrow> table_detail_fields" where
  "add_constraint row d =
     (if ccr_constraint_type row = ''PRIMARY KEY'' then d\<lparr>tdf_primary_key := tdf_primary_key d @ [ccr_column row]\<rparr>
      else if ccr_constraint_type row = ''UNIQUE'' \<and> ccr_constraint_column_count row = 1 then
        if ccr_column row \<notin> set (tdf_unique_fields d) then d\<lparr>tdf_unique_fields := tdf_unique_fields d @ [ccr_column row]\<rparr>
        else d
      else d)"

definition build_table_detail_fields :: "constraint_column_row list \<Rightarrow> table_detail_fields list" where
  "build_table_detail_fields rows =
     bt_values (fold (\<lambda>row. upsert (ccr_schema row, ccr_table row)
       \<lparr>tdf_schema = ccr_schema row, tdf_table = ccr_table row, tdf_primary_key = [], tdf_unique_fields = []\<rparr>
       (add_constraint row)) rows bt_empty)"

section \<open>Maps built row by row\<close>

lemma upsert_get:
  "bt_get (upsert k new f m) k' = (if k' = k then Some (f (case bt_get m k of None \<Rightarrow> new | Some v \<Rightarrow> v)) else bt_get m k')"
  by (simp add: upsert_def)

lemma update_at_get: "bt_get (update_at k f m) k' = (if k' = k then map_option f (bt_get m k) else bt_get m k')"
  by (simp add: update_at_def split: option.split)

lemma fold_upsert_get:
  "bt_get (fold (\<lambda>x. upsert (key x) (new (key x)) (f x)) xs m) k =
     (if filter (\<lambda>x. key x = k) xs = [] then bt_get m k
      else Some (fold f (filter (\<lambda>x. key x = k) xs) (case bt_get m k of None \<Rightarrow> new k | Some v \<Rightarrow> v)))"
  by (induction xs arbitrary: m) (auto simp: upsert_get)

lemma fold_update_at_get:
  "bt_get (fold (\<lambda>x. update_at (key x) (f x)) xs m) k = map_option (fold f (filter (\<lambda>x. key x = k) xs)) (bt_get m k)"
  by (induction xs arbitrary: m) (auto simp: update_at_get option.map_comp comp_def option.map_ident id_def)

text \<open>The values of a map, in the order of its keys.\<close>

lemma bt_values_of:
  assumes "\<And>k. bt_get m k = (if k \<in> set ks then Some (v k) else None)"
  shows "bt_values m = map v (sorted_list_of_set (set ks))"
proof -
  have keys: "set (bt_keys m) = set ks"
    using assms bt_get_None_iff [of m] by (auto split: if_splits) (metis option.distinct(1))+
  have "bt_keys m = sorted_list_of_set (set (bt_keys m))"
    by (metis bt_keys_sorted sorted_list_of_set.idem_if_sorted_distinct strict_sorted_iff)
  then have ks: "bt_keys m = sorted_list_of_set (set ks)" using keys by simp
  have "bt_values m = map v (bt_keys m)"
  proof -
    have "v (fst e) = snd e" if "e \<in> set (entries m)" for e
      using that assms [of "fst e"] bt_get_iff [of m "fst e" "snd e"] by (auto split: if_splits)
    then show ?thesis by (auto simp: bt_values_def bt_keys_def)
  qed
  with ks show ?thesis by simp
qed

section \<open>What is documented\<close>

definition column_doc_of :: "column_row \<Rightarrow> column_doc" where
  "column_doc_of c = \<lparr>cdc_name = crw_column c, cdc_data_type = crw_data_type c, cdc_nullable = crw_nullable c,
     cdc_has_default = crw_has_default c\<rparr>"

definition rls_policy_of :: "policy_row \<Rightarrow> rls_policy_doc" where
  "rls_policy_of p = \<lparr>rpd_name = prw_name p, rpd_command = prw_command p, rpd_using = prw_using_expr p,
     rpd_with_check = prw_with_check p\<rparr>"

definition methods_of :: "string set \<Rightarrow> table_methods" where
  "methods_of privileges = \<lparr>tmt_get = ''SELECT'' \<in> privileges, tmt_post = ''INSERT'' \<in> privileges,
     tmt_patch = ''UPDATE'' \<in> privileges, tmt_delete = ''DELETE'' \<in> privileges\<rparr>"

definition columns_of :: "column_row list \<Rightarrow> string \<times> string \<Rightarrow> column_row list" where
  "columns_of columns key = filter (\<lambda>c. (crw_schema c, crw_table c) = key) columns"

definition privileges_of :: "grant_row list \<Rightarrow> string \<times> string \<Rightarrow> string set" where
  "privileges_of grants key = grw_privilege ` {g \<in> set grants. (grw_schema g, grw_table g) = key}"

definition rls_of :: "rls_row list \<Rightarrow> string \<times> string \<Rightarrow> bool" where
  "rls_of rows key = (case rev (filter (\<lambda>r. (rlw_schema r, rlw_table r) = key) rows) of [] \<Rightarrow> False | r # _ \<Rightarrow> rlw_enabled r)"

definition table_doc_of ::
  "column_row list \<Rightarrow> grant_row list \<Rightarrow> rls_row list \<Rightarrow> policy_row list \<Rightarrow> string \<times> string \<Rightarrow> table_doc" where
  "table_doc_of columns grants rls_rows policies key =
     (let name = fst key @ ''.'' @ snd key; cs = map column_doc_of (columns_of columns key) in
      \<lparr>tdc_name = name, tdc_schema = fst key, tdc_table = snd key, tdc_endpoint = ''/rest/'' @ name, tdc_columns = cs,
       tdc_methods = methods_of (privileges_of grants key),
       tdc_rls = \<lparr>rld_enabled = rls_of rls_rows key,
         rld_policies = map rls_policy_of (filter (\<lambda>p. (prw_schema p, prw_table p) = key) policies)\<rparr>,
       tdc_query = query_from_columns cs\<rparr>)"

lemma fold_add_column: "fold add_column cs d = d\<lparr>tdc_columns := tdc_columns d @ map column_doc_of cs\<rparr>"
  by (induction cs arbitrary: d) (simp_all add: add_column_def column_doc_of_def)

lemma fold_add_policy:
  "fold add_policy ps d = d\<lparr>tdc_rls := (tdc_rls d)\<lparr>rld_policies := rld_policies (tdc_rls d) @ map rls_policy_of ps\<rparr>\<rparr>"
  by (induction ps arbitrary: d) (simp_all add: add_policy_def rls_policy_of_def)

lemma fold_add_rls:
  "fold add_rls rs d = d\<lparr>tdc_rls := (tdc_rls d)\<lparr>rld_enabled :=
     (case rev rs of [] \<Rightarrow> rld_enabled (tdc_rls d) | r # _ \<Rightarrow> rlw_enabled r)\<rparr>\<rparr>"
  by (induction rs rule: rev_induct) (simp_all add: add_rls_def)

lemma fold_add_grant:
  "fold add_grant gs d = d\<lparr>tdc_methods :=
     \<lparr>tmt_get = tmt_get (tdc_methods d) \<or> ''SELECT'' \<in> grw_privilege ` set gs,
      tmt_post = tmt_post (tdc_methods d) \<or> ''INSERT'' \<in> grw_privilege ` set gs,
      tmt_patch = tmt_patch (tdc_methods d) \<or> ''UPDATE'' \<in> grw_privilege ` set gs,
      tmt_delete = tmt_delete (tdc_methods d) \<or> ''DELETE'' \<in> grw_privilege ` set gs\<rparr>\<rparr>"
  by (induction gs arbitrary: d) (auto simp: add_grant_def Let_def)

lemma columns_of_empty: "columns_of columns key = [] \<longleftrightarrow> key \<notin> (\<lambda>c. (crw_schema c, crw_table c)) ` set columns"
  by (auto simp: columns_of_def filter_empty_conv)

text \<open>
  The documentation is exactly what the catalog grants. It lists, in the order of schema and name, the
  tables that have a column and on which the role holds a privilege a method needs; of each its columns in
  the order of the catalog, a method exactly for each privilege held, whether row-level security is on, and
  the policies of that very table.
\<close>

theorem table_docs_exact:
  "build_table_docs columns grants rls_rows policies =
     filter (\<lambda>doc. methods_any (tdc_methods doc))
       (map (table_doc_of columns grants rls_rows policies)
         (sorted_list_of_set ((\<lambda>c. (crw_schema c, crw_table c)) ` set columns)))"
proof -
  let ?key = "\<lambda>c. (crw_schema c, crw_table c)"
  define tables where "tables =
    fold (\<lambda>p. update_at (prw_schema p, prw_table p) (add_policy p)) policies
      (fold (\<lambda>r. update_at (rlw_schema r, rlw_table r) (add_rls r)) rls_rows
        (fold (\<lambda>g. update_at (grw_schema g, grw_table g) (add_grant g)) grants
          (fold (\<lambda>c. upsert (?key c) (empty_table_doc (?key c)) (add_column c)) columns bt_empty)))"
  define doc where "doc key = fold add_policy (filter (\<lambda>p. (prw_schema p, prw_table p) = key) policies)
    (fold add_rls (filter (\<lambda>r. (rlw_schema r, rlw_table r) = key) rls_rows)
      (fold add_grant (filter (\<lambda>g. (grw_schema g, grw_table g) = key) grants)
        (fold add_column (columns_of columns key) (empty_table_doc key))))" for key
  have first: "bt_get (fold (\<lambda>c. upsert (?key c) (empty_table_doc (?key c)) (add_column c)) columns bt_empty) key
      = (if columns_of columns key = [] then None else Some (fold add_column (columns_of columns key) (empty_table_doc key)))"
    for key
    by (simp only: fold_upsert_get [of ?key empty_table_doc add_column columns bt_empty key] columns_of_def
        bt_get_empty option.case)
  have get: "bt_get tables key = (if key \<in> set (map ?key columns) then Some (doc key) else None)" for key
    using columns_of_empty [of columns key]
    by (simp add: tables_def doc_def fold_update_at_get first)
  have doc: "(doc key)\<lparr>tdc_query := query_from_columns (tdc_columns (doc key))\<rparr>
      = table_doc_of columns grants rls_rows policies key" for key
    by (auto simp: doc_def fold_add_column fold_add_grant fold_add_rls fold_add_policy empty_table_doc_def Let_def
        table_doc_of_def methods_of_def privileges_of_def rls_of_def split: list.split)
  have "build_table_docs columns grants rls_rows policies = filter (\<lambda>d. methods_any (tdc_methods d))
      (map (\<lambda>d. d\<lparr>tdc_query := query_from_columns (tdc_columns d)\<rparr>) (bt_values tables))"
    by (simp add: build_table_docs_def Let_def tables_def)
  also have "bt_values tables = map doc (sorted_list_of_set (?key ` set columns))"
    using bt_values_of [OF get] by simp
  finally show ?thesis by (simp add: comp_def doc)
qed

text \<open>The detail fields of a table: its key columns, and its columns that alone are unique, once each.\<close>

definition detail_fields_of :: "constraint_column_row list \<Rightarrow> string \<times> string \<Rightarrow> table_detail_fields" where
  "detail_fields_of rows key =
     (let mine = filter (\<lambda>r. (ccr_schema r, ccr_table r) = key) rows in
      \<lparr>tdf_schema = fst key, tdf_table = snd key,
       tdf_primary_key = map ccr_column (filter (\<lambda>r. ccr_constraint_type r = ''PRIMARY KEY'') mine),
       tdf_unique_fields = rev (remdups (rev (map ccr_column
         (filter (\<lambda>r. ccr_constraint_type r = ''UNIQUE'' \<and> ccr_constraint_column_count r = 1) mine))))\<rparr>)"

lemma fold_add_constraint:
  "fold add_constraint rows \<lparr>tdf_schema = s, tdf_table = t, tdf_primary_key = [], tdf_unique_fields = []\<rparr> =
     \<lparr>tdf_schema = s, tdf_table = t,
      tdf_primary_key = map ccr_column (filter (\<lambda>r. ccr_constraint_type r = ''PRIMARY KEY'') rows),
      tdf_unique_fields = rev (remdups (rev (map ccr_column
        (filter (\<lambda>r. ccr_constraint_type r = ''UNIQUE'' \<and> ccr_constraint_column_count r = 1) rows))))\<rparr>"
  by (induction rows rule: rev_induct) (auto simp: add_constraint_def)

text \<open>
  The detail endpoints learn exactly the keys of the catalog: for each table with a constraint, in the order
  of schema and name, the columns of its primary key in order, and each column that is unique on its own
  once; a column that is unique only together with others is never offered as a lookup.
\<close>

theorem detail_fields_exact:
  "build_table_detail_fields rows =
     map (detail_fields_of rows) (sorted_list_of_set ((\<lambda>r. (ccr_schema r, ccr_table r)) ` set rows))"
proof -
  let ?key = "\<lambda>r. (ccr_schema r, ccr_table r)"
  let ?new = "\<lambda>key. \<lparr>tdf_schema = fst key, tdf_table = snd key, tdf_primary_key = [], tdf_unique_fields = []\<rparr>"
  have "bt_get (fold (\<lambda>row. upsert (?key row) (?new (?key row)) (add_constraint row)) rows bt_empty) key
      = (if key \<in> set (map ?key rows) then Some (detail_fields_of rows key) else None)" for key
  proof -
    have "filter (\<lambda>r. ?key r = key) rows = [] \<longleftrightarrow> key \<notin> set (map ?key rows)" by (auto simp: filter_empty_conv)
    then show ?thesis
      unfolding fold_upsert_get [of ?key ?new add_constraint rows bt_empty key]
      by (simp add: fold_add_constraint detail_fields_of_def Let_def)
  qed
  from bt_values_of [OF this] show ?thesis by (simp add: build_table_detail_fields_def)
qed

end
