(* ===== verification/Registry.thy ===== *)
theory Registry
  imports Catalog
begin

text \<open>
  The databases a server manages (\<open>crates/evobase-core/src/database.rs\<close>): requests to bootstrap one and their
  validation, the registry, the manager, and the provisioning on the PostgreSQL server
  (\<open>crates/evobase-db/src/postgres.rs\<close>). A storage adapter is a value of a type \<open>'a\<close> with the operation the
  manager uses of it; the server is a parameter that answers calls and changes its state.
\<close>

section \<open>Data\<close>

datatype database_kind = KindDefault | KindBootstrapped
datatype database_status = DbReady | DbBootstrapFailed
datatype existing_database_policy = FailExisting | UseExisting
datatype bootstrap_failure_stage = CreateDatabase | ConnectDatabase | ExecuteScript | IntrospectSchema

record bootstrap_failure =
  bfl_stage :: bootstrap_failure_stage
  bfl_message :: string
  bfl_script_name :: "string option"
  bfl_script_index :: "nat option"

record bootstrap_script =
  bsc_name :: string
  bsc_sql :: string

record bootstrap_request =
  brq_database_id :: string
  brq_postgres_database :: string
  brq_scripts :: "bootstrap_script list"
  brq_description :: "string option"
  brq_tags :: "string list"
  brq_owner :: "string option"
  brq_existing_database_policy :: existing_database_policy

record managed_database =
  mdb_database_id :: string
  mdb_postgres_database :: string
  mdb_description :: "string option"
  mdb_tags :: "string list"
  mdb_owner :: "string option"
  mdb_kind :: database_kind
  mdb_status :: database_status
  mdb_script_count :: nat
  mdb_failure :: "bootstrap_failure option"

record 'a database_entry =
  dbe_database :: managed_database
  dbe_storage :: "'a option"

record 'a database_registry =
  drg_default_database_id :: string
  drg_entries :: "(string, 'a database_entry) btree_map"

datatype 'a provision_outcome = ProvisionReady 'a | ProvisionFailed bootstrap_failure

section \<open>Validation of a request\<close>

definition dashed :: "char \<Rightarrow> bool" where
  "dashed ch \<longleftrightarrow> is_ascii_alphanumeric ch \<or> ch = CHR ''_'' \<or> ch = CHR ''-''"

definition validate_database_id :: "string \<Rightarrow> (app_error, unit) outcome" where
  "validate_database_id database_id =
     (case database_id of
        [] \<Rightarrow> Err (AppBadRequest ''database_id cannot be empty'')
      | first # chars \<Rightarrow>
          if \<not> (is_ascii_alphabetic first \<or> first = CHR ''_'')
          then Err (AppBadRequest (''database_id '' @ ticked database_id @ '' must start with a letter or underscore''))
          else if list_ex (\<lambda>ch. \<not> dashed ch) chars
          then Err (AppBadRequest (''database_id '' @ ticked database_id @ '' contains unsupported characters''))
          else Ok ())"

definition validate_optional_text :: "string \<Rightarrow> string option \<Rightarrow> nat \<Rightarrow> (app_error, unit) outcome" where
  "validate_optional_text field v max_chars =
     (case v of
        None \<Rightarrow> Ok ()
      | Some v \<Rightarrow>
          let trimmed = trim v in
          if trimmed = [] then Err (AppBadRequest (field @ '' cannot be blank''))
          else if length (str_chars trimmed) > max_chars
          then Err (AppBadRequest (field @ '' is too long; max '' @ show_nat max_chars @ '' characters''))
          else Ok ())"

definition validate_tag :: "string \<Rightarrow> (app_error, unit) outcome" where
  "validate_tag tag =
     (let trimmed = trim tag in
      if trimmed = [] then Err (AppBadRequest ''tags cannot contain blank values'')
      else if length (str_chars trimmed) > 32
      then Err (AppBadRequest (''tag '' @ ticked trimmed @ '' is too long; max 32 characters''))
      else if list_ex (\<lambda>ch. \<not> dashed ch) trimmed
      then Err (AppBadRequest (''tag '' @ ticked trimmed @ '' contains unsupported characters''))
      else Ok ())"

definition validate_script :: "nat \<times> bootstrap_script \<Rightarrow> (app_error, unit) outcome" where
  "validate_script = (\<lambda>(index, script).
     let script_name = trim (bsc_name script) in
     if script_name = []
     then Err (AppBadRequest (''script #'' @ show_nat (index + 1) @ '' must have a non-empty name''))
     else if length (str_chars script_name) > 128
     then Err (AppBadRequest (''script '' @ ticked script_name @ '' is too long; max 128 characters''))
     else if trim (bsc_sql script) = []
     then Err (AppBadRequest (''script '' @ ticked script_name @ '' cannot be empty''))
     else Ok ())"

definition validate_bootstrap_request :: "bootstrap_request \<Rightarrow> (app_error, unit) outcome" where
  "validate_bootstrap_request request =
     and_then (validate_database_id (brq_database_id request)) (\<lambda>_.
     and_then (validate_identifier (brq_postgres_database request)) (\<lambda>_.
     if brq_scripts request = []
     then Err (AppBadRequest ''bootstrap request must contain at least one SQL script'')
     else
       and_then (validate_optional_text ''description'' (brq_description request) 512) (\<lambda>_.
       and_then (validate_optional_text ''owner'' (brq_owner request) 128) (\<lambda>_.
       and_then (for_each validate_tag (brq_tags request)) (\<lambda>_.
       for_each validate_script (enumerate 0 (brq_scripts request)))))))"

section \<open>The registry\<close>

definition default_database :: "string \<Rightarrow> string \<Rightarrow> managed_database" where
  "default_database database_id postgres_database =
     \<lparr>mdb_database_id = database_id, mdb_postgres_database = postgres_database,
      mdb_description = Some ''Default database from DATABASE_URL'', mdb_tags = [], mdb_owner = None,
      mdb_kind = KindDefault, mdb_status = DbReady, mdb_script_count = 0, mdb_failure = None\<rparr>"

definition from_bootstrap_request ::
  "bootstrap_request \<Rightarrow> database_status \<Rightarrow> bootstrap_failure option \<Rightarrow> managed_database" where
  "from_bootstrap_request request status failure =
     \<lparr>mdb_database_id = brq_database_id request, mdb_postgres_database = brq_postgres_database request,
      mdb_description = brq_description request, mdb_tags = brq_tags request, mdb_owner = brq_owner request,
      mdb_kind = KindBootstrapped, mdb_status = status, mdb_script_count = length (brq_scripts request),
      mdb_failure = failure\<rparr>"

definition docs_available :: "managed_database \<Rightarrow> bool" where
  "docs_available database \<longleftrightarrow> mdb_status database = DbReady"

definition registry_new :: "managed_database \<Rightarrow> 'a \<Rightarrow> 'a database_registry" where
  "registry_new database storage = \<lparr>drg_default_database_id = mdb_database_id database,
     drg_entries = bt_insert (mdb_database_id database) \<lparr>dbe_database = database, dbe_storage = Some storage\<rparr> bt_empty\<rparr>"

text \<open>\<open>sort_by\<close> with the default first is the stable sort by whether an id is another, then by the id.\<close>

definition registry_list :: "'a database_registry \<Rightarrow> managed_database list" where
  "registry_list r = sort_key (\<lambda>d. (mdb_database_id d \<noteq> drg_default_database_id r, mdb_database_id d))
     (map dbe_database (bt_values (drg_entries r)))"

definition registry_get :: "string \<Rightarrow> 'a database_registry \<Rightarrow> managed_database option" where
  "registry_get database_id r = map_option dbe_database (bt_get (drg_entries r) database_id)"

definition registry_contains :: "string \<Rightarrow> 'a database_registry \<Rightarrow> bool" where
  "registry_contains database_id r \<longleftrightarrow> bt_contains_key (drg_entries r) database_id"

definition already_registered :: "string \<Rightarrow> app_error" where
  "already_registered database_id = AppConflict (''database '' @ ticked database_id @ '' is already registered'')"

definition registry_register ::
  "managed_database \<Rightarrow> 'a option \<Rightarrow> 'a database_registry \<Rightarrow> (app_error, unit) outcome \<times> 'a database_registry" where
  "registry_register database storage r =
     (if bt_contains_key (drg_entries r) (mdb_database_id database)
      then (Err (already_registered (mdb_database_id database)), r)
      else (Ok (), r\<lparr>drg_entries := bt_insert (mdb_database_id database)
              \<lparr>dbe_database = database, dbe_storage = storage\<rparr> (drg_entries r)\<rparr>))"

definition registry_resolve :: "string option \<Rightarrow> 'a database_registry \<Rightarrow> (app_error, managed_database \<times> 'a) outcome" where
  "registry_resolve database_id r =
     (let resolved_id = (case database_id of Some i \<Rightarrow> i | None \<Rightarrow> drg_default_database_id r) in
      case bt_get (drg_entries r) resolved_id of
        None \<Rightarrow> Err (AppNotFound (''database '' @ ticked resolved_id @ '' was not found''))
      | Some e \<Rightarrow>
          if mdb_status (dbe_database e) \<noteq> DbReady
          then Err (AppConflict (''database '' @ ticked resolved_id @ '' is not ready: '' @
            (case mdb_failure (dbe_database e) of Some failure \<Rightarrow> bfl_message failure
             | None \<Rightarrow> ''bootstrap has not completed successfully'')))
          else (case dbe_storage e of
              None \<Rightarrow> Err (AppInternal (''database '' @ ticked resolved_id @ '' is ready but no storage adapter is attached''))
            | Some storage \<Rightarrow> Ok (dbe_database e, storage)))"

section \<open>The manager\<close>

text \<open>
  What the manager uses of a storage adapter, \<open>describe_tables\<close>, and of a provisioner; both act on the state
  \<open>'s\<close> of the server.
\<close>

type_synonym ('a, 's) describe = "'a \<Rightarrow> qualified_table option \<Rightarrow> 's \<Rightarrow> (app_error, table_doc list) outcome \<times> 's"
type_synonym ('a, 's) provisioner = "bootstrap_request \<Rightarrow> 's \<Rightarrow> (app_error, 'a provision_outcome) outcome \<times> 's"

definition get_database :: "string \<Rightarrow> 'a database_registry \<Rightarrow> (app_error, managed_database) outcome" where
  "get_database database_id r =
     ok_or (AppNotFound (''database '' @ ticked database_id @ '' was not found'')) (registry_get database_id r)"

definition manager_describe_tables ::
  "('a, 's) describe \<Rightarrow> string option \<Rightarrow> qualified_table option \<Rightarrow> 'a database_registry \<Rightarrow> 's
     \<Rightarrow> (app_error, managed_database \<times> table_doc list) outcome \<times> 's" where
  "manager_describe_tables D database_id table r s =
     (case registry_resolve database_id r of
        Ok (database, storage) \<Rightarrow>
          (let (tables, s) = D storage table s in (and_then tables (\<lambda>tables. Ok (database, tables)), s))
      | Err e \<Rightarrow> (Err e, s)
      | Panic \<Rightarrow> (Panic, s))"

text \<open>\<open>register(database.clone(), storage)?; Ok(database)\<close>.\<close>

definition register_and_return ::
  "managed_database \<Rightarrow> 'a option \<Rightarrow> 'a database_registry \<Rightarrow> 's
     \<Rightarrow> (app_error, managed_database) outcome \<times> 'a database_registry \<times> 's" where
  "register_and_return database storage r s =
     (let (answer, r) = registry_register database storage r in (and_then answer (\<lambda>_. Ok database), r, s))"

definition introspect_failure :: "app_error \<Rightarrow> bootstrap_failure" where
  "introspect_failure error = \<lparr>bfl_stage = IntrospectSchema, bfl_message = error_text error, bfl_script_name = None,
     bfl_script_index = None\<rparr>"

text \<open>
  One whole call: \<open>bootstrap_lock\<close> is held from the check of the registry to the end, and nothing else writes it.
\<close>

definition bootstrap_database ::
  "('a, 's) provisioner \<Rightarrow> ('a, 's) describe \<Rightarrow> bootstrap_request \<Rightarrow> 'a database_registry \<Rightarrow> 's
     \<Rightarrow> (app_error, managed_database) outcome \<times> 'a database_registry \<times> 's" where
  "bootstrap_database P D request r s =
     (case validate_bootstrap_request request of
        Err e \<Rightarrow> (Err e, r, s)
      | Panic \<Rightarrow> (Panic, r, s)
      | Ok _ \<Rightarrow>
          if registry_contains (brq_database_id request) r
          then (Err (already_registered (brq_database_id request)), r, s)
          else
            (case P request s of
               (Err e, s) \<Rightarrow> (Err e, r, s)
             | (Panic, s) \<Rightarrow> (Panic, r, s)
             | (Ok (ProvisionReady storage), s) \<Rightarrow>
                 (case D storage None s of
                    (Err error, s) \<Rightarrow>
                      register_and_return
                        (from_bootstrap_request request DbBootstrapFailed (Some (introspect_failure error))) None r s
                  | (Panic, s) \<Rightarrow> (Panic, r, s)
                  | (Ok _, s) \<Rightarrow>
                      register_and_return (from_bootstrap_request request DbReady None) (Some storage) r s)
             | (Ok (ProvisionFailed failure), s) \<Rightarrow>
                 register_and_return (from_bootstrap_request request DbBootstrapFailed (Some failure)) None r s))"

section \<open>Provisioning\<close>

text \<open>The calls on the server: connecting, asking whether a database exists, and running SQL.\<close>

datatype admin_call =
    ConnectTo string
  | DatabaseExists string
  | ExecuteSql string

type_synonym 's admin_server = "admin_call \<Rightarrow> 's \<Rightarrow> (string, bool) outcome \<times> 's"

definition failed_at :: "bootstrap_failure_stage \<Rightarrow> app_error \<Rightarrow> bootstrap_failure" where
  "failed_at stage error = \<lparr>bfl_stage = stage, bfl_message = error_text error, bfl_script_name = None, bfl_script_index = None\<rparr>"

text \<open>Run one call; if it fails, \<open>return\<close> the failure of the stage as the outcome.\<close>

definition or_failed ::
  "'s admin_server \<Rightarrow> admin_call \<Rightarrow> bootstrap_failure_stage \<Rightarrow> 's
     \<Rightarrow> (bool \<Rightarrow> 's \<Rightarrow> (app_error, 'a provision_outcome) outcome \<times> 's) \<Rightarrow> (app_error, 'a provision_outcome) outcome \<times> 's" where
  "or_failed G call stage s k =
     (case G call s of
        (Ok b, s) \<Rightarrow> k b s
      | (Err e, s) \<Rightarrow> (Ok (ProvisionFailed (failed_at stage (AppDatabase e))), s)
      | (Panic, s) \<Rightarrow> (Panic, s))"

fun execute_scripts ::
  "'s admin_server \<Rightarrow> (nat \<times> bootstrap_script) list \<Rightarrow> 's \<Rightarrow> (bootstrap_failure, unit) outcome \<times> 's" where
  "execute_scripts G [] s = (Ok (), s)"
| "execute_scripts G ((index, script) # scripts) s =
     (case G (ExecuteSql (bsc_sql script)) s of
        (Ok _, s) \<Rightarrow> execute_scripts G scripts s
      | (Err e, s) \<Rightarrow> (Err \<lparr>bfl_stage = ExecuteScript, bfl_message = e, bfl_script_name = Some (bsc_name script),
          bfl_script_index = Some index\<rparr>, s)
      | (Panic, s) \<Rightarrow> (Panic, s))"

text \<open>\<open>Url::parse\<close> with \<open>set_path\<close>, of the url crate: the URL with its path replaced, or why it is none.\<close>

type_synonym url_with_path = "string \<Rightarrow> string \<Rightarrow> (string, string) outcome"

definition target_database_url :: "url_with_path \<Rightarrow> string \<Rightarrow> string \<Rightarrow> (app_error, string) outcome" where
  "target_database_url U admin_database_url database_name =
     map_err (\<lambda>error. AppConfig (''invalid DATABASE_ADMIN_URL: '' @ error)) (U admin_database_url (''/'' @ database_name))"

definition create_statement :: "string \<Rightarrow> string" where
  "create_statement database_name = ''create database '' @ quoted_identifier database_name"

text \<open>The storage is the adapter for the target's URL.\<close>

definition provision_after_create ::
  "url_with_path \<Rightarrow> 's admin_server \<Rightarrow> (string \<Rightarrow> 'a) \<Rightarrow> string \<Rightarrow> bootstrap_request \<Rightarrow> 's
     \<Rightarrow> (app_error, 'a provision_outcome) outcome \<times> 's" where
  "provision_after_create U G storage_at admin_database_url request s =
     (case target_database_url U admin_database_url (brq_postgres_database request) of
        Err e \<Rightarrow> (Err e, s)
      | Panic \<Rightarrow> (Panic, s)
      | Ok url \<Rightarrow>
          or_failed G (ConnectTo url) ConnectDatabase s (\<lambda>_ s.
          case execute_scripts G (enumerate 0 (brq_scripts request)) s of
            (Err failure, s) \<Rightarrow> (Ok (ProvisionFailed failure), s)
          | (Panic, s) \<Rightarrow> (Panic, s)
          | (Ok _, s) \<Rightarrow> (Ok (ProvisionReady (storage_at url)), s)))"

definition provision_database ::
  "url_with_path \<Rightarrow> 's admin_server \<Rightarrow> (string \<Rightarrow> 'a) \<Rightarrow> string \<Rightarrow> ('a, 's) provisioner" where
  "provision_database U G storage_at admin_database_url request s =
     or_failed G (ConnectTo admin_database_url) CreateDatabase s (\<lambda>_ s.
     or_failed G (DatabaseExists (brq_postgres_database request)) CreateDatabase s (\<lambda>database_exists s.
     if database_exists \<and> brq_existing_database_policy request = FailExisting
     then (Err (AppConflict (''postgres database '' @ ticked (brq_postgres_database request) @ '' already exists'')), s)
     else if \<not> database_exists
     then or_failed G (ExecuteSql (create_statement (brq_postgres_database request))) CreateDatabase s
       (\<lambda>_ s. provision_after_create U G storage_at admin_database_url request s)
     else provision_after_create U G storage_at admin_database_url request s))"

section \<open>Handlers\<close>

definition resolve_single_table_doc :: "table_doc list \<Rightarrow> bool \<Rightarrow> (app_error, table_doc) outcome" where
  "resolve_single_table_doc tables schema_was_specified =
     (case tables of
        [] \<Rightarrow> Err (AppNotFound ''table docs not found'')
      | [doc] \<Rightarrow> Ok doc
      | _ \<Rightarrow> if \<not> schema_was_specified then Err (AppBadRequest ''table name is ambiguous; use schema.table'')
             else Err (AppInternal ''multiple table docs matched a schema-qualified name''))"

definition table_docs_handler ::
  "('a, 's) describe \<Rightarrow> string option \<Rightarrow> string \<Rightarrow> 'a database_registry \<Rightarrow> 's \<Rightarrow> (app_error, table_doc) outcome \<times> 's" where
  "table_docs_handler D database_id table r s =
     (case qualified_parse table of
        Ok table \<Rightarrow>
          (let (found, s) = manager_describe_tables D database_id (Some table) r s in
           (and_then found (\<lambda>(_, tables). resolve_single_table_doc tables (qt_schema table \<noteq> None)), s))
      | Err e \<Rightarrow> (Err e, s)
      | Panic \<Rightarrow> (Panic, s))"

section \<open>The invariant of the registry\<close>

text \<open>
  Entries are stored under the id of their database; the default database is there, ready, with its storage; a
  database is ready exactly if it has a storage and exactly if it has no failure; every other one came from a
  valid request.
\<close>

definition entry_ok :: "string \<Rightarrow> string \<Rightarrow> 'a database_entry \<Rightarrow> bool" where
  "entry_ok default_id k e \<longleftrightarrow> mdb_database_id (dbe_database e) = k
     \<and> (mdb_status (dbe_database e) = DbReady \<longleftrightarrow> dbe_storage e \<noteq> None)
     \<and> (mdb_status (dbe_database e) = DbReady \<longleftrightarrow> mdb_failure (dbe_database e) = None)
     \<and> (mdb_kind (dbe_database e) = KindDefault \<longleftrightarrow> k = default_id)
     \<and> (k \<noteq> default_id \<longrightarrow> validate_database_id k = Ok () \<and> identifier_ok (mdb_postgres_database (dbe_database e)))"

definition registry_ok :: "string \<Rightarrow> string \<Rightarrow> 'a \<Rightarrow> 'a database_registry \<Rightarrow> bool" where
  "registry_ok database_id postgres_database storage r \<longleftrightarrow>
     drg_default_database_id r = database_id
     \<and> bt_get (drg_entries r) database_id
         = Some \<lparr>dbe_database = default_database database_id postgres_database, dbe_storage = Some storage\<rparr>
     \<and> (\<forall>k e. bt_get (drg_entries r) k = Some e \<longrightarrow> entry_ok database_id k e)"

lemma registry_okD:
  assumes "registry_ok i p storage r" and "bt_get (drg_entries r) k = Some e"
  shows "entry_ok i k e"
  using assms by (simp add: registry_ok_def)

lemma registry_new_ok: "registry_ok i p storage (registry_new (default_database i p) storage)"
  by (simp add: registry_ok_def registry_new_def default_database_def entry_ok_def)

lemma validate_bootstrap_request_Ok:
  assumes "validate_bootstrap_request request = Ok x"
  shows "validate_database_id (brq_database_id request) = Ok () \<and> identifier_ok (brq_postgres_database request)"
  using assms by (auto simp: validate_bootstrap_request_def outcome_simps)

text \<open>
  What a bootstrap call does to the registry: nothing, or it adds the database it answers, under an id that was
  free.
\<close>

lemma bootstrap_cases:
  assumes "bootstrap_database P D request r s = (answer, r', s')"
  obtains (unchanged) "r' = r" and "\<And>db. answer \<noteq> Ok db"
  | (registered) storage status failure where "bt_get (drg_entries r) (brq_database_id request) = None"
      and "answer = Ok (from_bootstrap_request request status failure)"
      and "r' = r\<lparr>drg_entries := bt_insert (brq_database_id request)
        \<lparr>dbe_database = from_bootstrap_request request status failure, dbe_storage = storage\<rparr> (drg_entries r)\<rparr>"
      and "status = DbReady \<longleftrightarrow> storage \<noteq> None" and "status = DbReady \<longleftrightarrow> failure = None"
      and "validate_bootstrap_request request = Ok ()"
proof (cases "validate_bootstrap_request request = Ok () \<and> \<not> registry_contains (brq_database_id request) r")
  case False
  then show ?thesis using assms
    by (intro unchanged) (auto simp: bootstrap_database_def split: outcome.splits if_splits)
next
  case True
  then have free: "bt_get (drg_entries r) (brq_database_id request) = None" and valid: "validate_bootstrap_request request = Ok ()"
    by (auto simp: registry_contains_def bt_contains_key_def)
  have reg: "register_and_return (from_bootstrap_request request status failure) storage r t
      = (Ok (from_bootstrap_request request status failure),
         r\<lparr>drg_entries := bt_insert (brq_database_id request)
           \<lparr>dbe_database = from_bootstrap_request request status failure, dbe_storage = storage\<rparr> (drg_entries r)\<rparr>, t)"
    for status failure storage and t :: 'b
    using free by (simp add: register_and_return_def registry_register_def bt_contains_key_def from_bootstrap_request_def)
  have free': "\<not> registry_contains (brq_database_id request) r" using True by simp
  show ?thesis
  proof (cases "P request s")
    case (Pair outcome s1)
    note run = assms [unfolded bootstrap_database_def valid outcome.case if_not_P [OF free'] Pair prod.case]
    show ?thesis
    proof (cases outcome)
      case (Ok po)
      show ?thesis
      proof (cases po)
        case (ProvisionReady st)
        show ?thesis
        proof (cases "D st None s1")
          case (Pair d s2)
          then show ?thesis using run Ok ProvisionReady
            by (cases d) (auto simp: reg intro: unchanged registered [OF free _ _ _ _ valid])
        qed
      next
        case (ProvisionFailed failure)
        then show ?thesis using run Ok by (auto simp: reg intro!: registered [OF free _ _ _ _ valid])
      qed
    qed (use run in \<open>auto intro: unchanged\<close>)
  qed
qed

lemma bootstrap_ok:
  assumes "registry_ok i p storage r" and "bootstrap_database P D request r s = (answer, r', s')"
  shows "registry_ok i p storage r'"
  using assms(2)
proof (cases rule: bootstrap_cases)
  case (registered st status failure)
  then have "brq_database_id request \<noteq> i" using assms(1) by (auto simp: registry_ok_def)
  then show ?thesis using registered assms(1) validate_bootstrap_request_Ok [OF registered(6)]
    by (auto simp: registry_ok_def entry_ok_def from_bootstrap_request_def)
qed (use assms(1) in simp)

text \<open>
  The registry over time: bootstrap calls one after another, and anything else that happens on the server,
  calls that are dropped before they end included.
\<close>

inductive registry_step ::
  "('a, 's) provisioner \<Rightarrow> ('a, 's) describe \<Rightarrow> 'a database_registry \<times> 's \<Rightarrow> 'a database_registry \<times> 's \<Rightarrow> bool"
  for P D where
  step_bootstrap: "bootstrap_database P D request r s = (answer, r', s') \<Longrightarrow> registry_step P D (r, s) (r', s')"
| step_outside: "registry_step P D (r, s) (r, s')"

definition registry_run ::
  "('a, 's) provisioner \<Rightarrow> ('a, 's) describe \<Rightarrow> 'a database_registry \<times> 's \<Rightarrow> 'a database_registry \<times> 's \<Rightarrow> bool" where
  "registry_run P D = (registry_step P D)\<^sup>*\<^sup>*"

lemma registry_run_ok:
  "registry_run P D rs rs' \<Longrightarrow> registry_ok i p storage (fst rs) \<Longrightarrow> registry_ok i p storage (fst rs')"
  unfolding registry_run_def
  by (induction rule: rtranclp_induct) (auto elim!: registry_step.cases intro: bootstrap_ok)

lemma registry_run_keeps:
  "registry_run P D rs rs' \<Longrightarrow> bt_get (drg_entries (fst rs)) k = Some e \<Longrightarrow> bt_get (drg_entries (fst rs')) k = Some e"
  unfolding registry_run_def
proof (induction rule: rtranclp_induct)
  case (step rs1 rs2)
  then have e: "bt_get (drg_entries (fst rs1)) k = Some e" by simp
  from step(2) show ?case
  proof cases
    case (step_bootstrap request r s answer r' s')
    from step_bootstrap(3) show ?thesis by (cases rule: bootstrap_cases) (use e step_bootstrap in auto)
  qed (use e in simp)
qed simp

section \<open>Properties of the registry\<close>

text \<open>
  C20. The registry stays coherent, and nothing registered is ever lost or changed. From the state the server starts in,
  whatever bootstrap requests come, whatever the server answers and whichever calls are dropped: the default
  database stays registered, ready, with its own storage and as the only one of its kind; every entry is under the id of
  its database; a database is ready exactly if it has a storage, and failed exactly if it has a failure; and an entry
  that is there at one moment is there, the same, at every later one.
\<close>

theorem registry_invariant:
  assumes "registry_run P D (registry_new (default_database i p) storage, s) (r, s')" and "registry_run P D (r, s') (r', s'')"
  shows "registry_ok i p storage r' \<and> (\<forall>k e. bt_get (drg_entries r) k = Some e \<longrightarrow> bt_get (drg_entries r') k = Some e)"
  using registry_run_ok [OF assms(2)] registry_run_ok [OF assms(1)] registry_run_keeps [OF assms(2)]
  by (simp add: registry_new_ok)

text \<open>
  A bootstrap registers what it answers. A call answers a database exactly if it registers one: under the
  requested id, which was free, with the values of the request, attached to a storage if and only if it is ready.
  Any error leaves the registry as it was; and a request that is invalid or whose id is taken never reaches the server.
\<close>

theorem bootstrap_registers_what_it_answers:
  assumes "bootstrap_database P D request r s = (answer, r', s')"
  shows "(case answer of
      Ok db \<Rightarrow> db = from_bootstrap_request request (mdb_status db) (mdb_failure db)
        \<and> registry_get (brq_database_id request) r = None
        \<and> (\<forall>k. registry_get k r' = (if k = brq_database_id request then Some db else registry_get k r))
        \<and> (mdb_status db = DbReady \<longleftrightarrow> (\<exists>a. registry_resolve (Some (brq_database_id request)) r' = Ok (db, a)))
    | _ \<Rightarrow> r' = r)
    \<and> (validate_bootstrap_request request \<noteq> Ok () \<or> registry_get (brq_database_id request) r \<noteq> None \<longrightarrow> s' = s \<and> \<not> is_ok answer)"
proof -
  have "s' = s \<and> \<not> is_ok answer"
    if "validate_bootstrap_request request \<noteq> Ok () \<or> registry_get (brq_database_id request) r \<noteq> None"
    using that assms
    by (auto simp: bootstrap_database_def registry_contains_def bt_contains_key_def registry_get_def
        split: outcome.splits if_splits)
  moreover from assms have "case answer of
      Ok db \<Rightarrow> db = from_bootstrap_request request (mdb_status db) (mdb_failure db)
        \<and> registry_get (brq_database_id request) r = None
        \<and> (\<forall>k. registry_get k r' = (if k = brq_database_id request then Some db else registry_get k r))
        \<and> (mdb_status db = DbReady \<longleftrightarrow> (\<exists>a. registry_resolve (Some (brq_database_id request)) r' = Ok (db, a)))
    | _ \<Rightarrow> r' = r"
  proof (cases rule: bootstrap_cases)
    case unchanged
    then show ?thesis by (cases answer) auto
  next
    case (registered st status failure)
    then show ?thesis
      by (auto simp: registry_get_def registry_resolve_def from_bootstrap_request_def Let_def split: option.splits)
  qed
  ultimately show ?thesis by blast
qed

text \<open>
  Only ready databases are described, and from their own storage. In any reachable registry, a description is
  answered exactly if the requested database (the default one when none is named) is registered and ready
  and its own storage describes its tables; in every other case the storages are not called, and the answer is \<open>404\<close> for
  an unknown and \<open>409\<close> for a failed database. The branch for a ready database without storage is never taken.
\<close>

theorem described_from_own_storage:
  assumes "registry_run P D (registry_new (default_database i p) storage, s0) (r, s)"
  shows "manager_describe_tables D database_id table r s =
    (let k = (case database_id of Some k \<Rightarrow> k | None \<Rightarrow> i) in
     case bt_get (drg_entries r) k of
       None \<Rightarrow> (Err (AppNotFound (''database '' @ ticked k @ '' was not found'')), s)
     | Some e \<Rightarrow>
         (case dbe_storage e of
            None \<Rightarrow> (Err (AppConflict (''database '' @ ticked k @ '' is not ready: '' @ bfl_message (the (mdb_failure (dbe_database e))))), s)
          | Some st \<Rightarrow> (and_then (fst (D st table s)) (\<lambda>tables. Ok (dbe_database e, tables)), snd (D st table s))))"
proof -
  have ok: "registry_ok i p storage r"
    using registry_run_ok [OF assms] by (simp add: registry_new_ok)
  then have i: "drg_default_database_id r = i" by (simp add: registry_ok_def)
  define k where "k = (case database_id of Some k \<Rightarrow> k | None \<Rightarrow> i)"
  then have k: "(case database_id of Some k \<Rightarrow> k | None \<Rightarrow> i) = k"
    "(case database_id of Some k \<Rightarrow> k | None \<Rightarrow> drg_default_database_id r) = k"
    by (auto simp: i split: option.split)
  show ?thesis
  proof (cases "bt_get (drg_entries r) k")
    case None
    then show ?thesis by (simp add: manager_describe_tables_def registry_resolve_def k Let_def)
  next
    case (Some e)
    from registry_okD [OF ok this] have "(mdb_status (dbe_database e) = DbReady) = (dbe_storage e \<noteq> None)"
      "(mdb_status (dbe_database e) = DbReady) = (mdb_failure (dbe_database e) = None)"
      unfolding entry_ok_def by blast+
    then show ?thesis using Some
      by (auto simp: manager_describe_tables_def registry_resolve_def k Let_def case_prod_unfold split: option.splits)
  qed
qed

lemma sort_key_eqI:
  assumes "mset ys = mset xs" and "sorted (map f ys)" and "inj_on f (set xs)"
  shows "sort_key f xs = ys"
proof (rule properties_for_sort_key [OF assms(1) _ assms(2)])
  fix k assume "k \<in> set ys"
  then have k: "k \<in> set xs" using assms(1) by (metis set_mset_mset)
  have same: "filter (\<lambda>x. f k = f x) zs = replicate (count (mset zs) k) k" if "set zs \<subseteq> set xs" for zs
    using that k assms(3) by (induction zs) (auto simp: inj_on_eq_iff)
  have "set ys = set xs" using assms(1) by (metis set_mset_mset)
  then show "filter (\<lambda>x. f k = f x) ys = filter (\<lambda>x. f k = f x) xs"
    by (simp add: same assms(1))
qed

lemma filter_key_eq: "distinct (map f xs) \<Longrightarrow> x \<in> set xs \<Longrightarrow> filter (\<lambda>y. f y = f x) xs = [x]"
  by (induction xs) (auto simp: filter_empty_conv image_iff)

lemma mset_filter_one: "filter P xs = [x] \<Longrightarrow> mset (x # filter (\<lambda>y. \<not> P y) xs) = mset xs"
proof -
  assume one: "filter P xs = [x]"
  have "mset xs = mset (filter P xs) + mset (filter (\<lambda>y. \<not> P y) xs)" by (induction xs) auto
  then show ?thesis using one by simp
qed

lemma sorted_others:
  "sorted_wrt (<) (map g xs) \<Longrightarrow> sorted (map (\<lambda>d. (g d \<noteq> i, g d)) (filter (\<lambda>d. g d \<noteq> i) xs))"
  by (induction xs) (auto simp: less_imp_le)

text \<open>
  The list of databases, against a reference: the default database first, then all others in the order of
  their ids, each once, in every reachable registry.
\<close>

theorem list_databases_exact:
  assumes "registry_run P D (registry_new (default_database i p) storage, s0) (r, s)"
  shows "registry_list r = default_database i p
    # filter (\<lambda>d. mdb_database_id d \<noteq> i) (map (\<lambda>k. the (registry_get k r)) (bt_keys (drg_entries r)))"
proof -
  have ok: "registry_ok i p storage r"
    using registry_run_ok [OF assms] by (simp add: registry_new_ok)
  then have i: "drg_default_database_id r = i"
    and d: "bt_get (drg_entries r) i = Some \<lparr>dbe_database = default_database i p, dbe_storage = Some storage\<rparr>"
    by (simp_all add: registry_ok_def)
  let ?xs = "map dbe_database (bt_values (drg_entries r))"
  let ?rest = "filter (\<lambda>d. mdb_database_id d \<noteq> i) ?xs"
  let ?f = "\<lambda>d. (mdb_database_id d \<noteq> i, mdb_database_id d)"
  have keys: "map mdb_database_id ?xs = bt_keys (drg_entries r)"
    using ok by (auto simp: bt_values_def bt_keys_def registry_ok_def entry_ok_def bt_get_iff)
  have inj: "inj_on mdb_database_id (set ?xs)"
    using bt_keys_distinct [of "drg_entries r"] unfolding keys [symmetric] by (simp only: distinct_map)
  have mem: "default_database i p \<in> set ?xs"
    using d by (force simp: bt_values_def bt_get_iff)
  have "filter (\<lambda>d. mdb_database_id d = i) ?xs = [default_database i p]"
    using filter_key_eq [OF _ mem, of mdb_database_id] keys by (simp add: default_database_def)
  then have "mset (default_database i p # ?rest) = mset ?xs"
    by (rule mset_filter_one)
  moreover have "sorted (map ?f (default_database i p # ?rest))"
    using sorted_others [of mdb_database_id ?xs i] keys by (simp add: default_database_def less_eq_prod_def)
  moreover have "inj_on ?f (set ?xs)" using inj by (auto simp: inj_on_def)
  ultimately have "registry_list r = default_database i p # ?rest"
    unfolding registry_list_def i by (rule sort_key_eqI)
  moreover have "map (\<lambda>k. the (registry_get k r)) (bt_keys (drg_entries r)) = ?xs"
    by (auto simp: registry_get_def bt_keys_def bt_values_def bt_get_def)
  ultimately show ?thesis by simp
qed

section \<open>Properties of provisioning\<close>

text \<open>The calls a provisioning that runs to its end makes, and a server that records the calls it gets.\<close>

definition script_calls :: "bootstrap_script list \<Rightarrow> admin_call list" where
  "script_calls scripts = map (\<lambda>script. ExecuteSql (bsc_sql script)) scripts"

definition provision_prologue :: "string \<Rightarrow> string \<Rightarrow> bool \<Rightarrow> string \<Rightarrow> admin_call list" where
  "provision_prologue admin_database_url url existing database =
     [ConnectTo admin_database_url, DatabaseExists database]
     @ (if existing then [] else [ExecuteSql (create_statement database)]) @ [ConnectTo url]"

definition logged_admin :: "'s admin_server \<Rightarrow> ('s \<times> admin_call list) admin_server" where
  "logged_admin G call = (\<lambda>(s, log). case G call s of (answer, s') \<Rightarrow> (answer, (s', log @ [call])))"

lemma logged_admin_apply: "logged_admin G call (s, log) = (fst (G call s), snd (G call s), log @ [call])"
  by (simp add: logged_admin_def case_prod_unfold)

lemma execute_scripts_log:
  "execute_scripts (logged_admin G) (enumerate k scripts) (s, log) = (answer, s', log') \<Longrightarrow>
     \<exists>n \<le> length scripts. log' = log @ take n (script_calls scripts)
       \<and> (answer = Ok () \<longrightarrow> n = length scripts)
       \<and> (\<forall>f. answer = Err f \<longrightarrow> bfl_stage f = ExecuteScript \<and> (\<exists>i. n = Suc i \<and> bfl_script_index f = Some (k + i)
            \<and> bfl_script_name f = Some (bsc_name (scripts ! i))))"
proof (induction scripts arbitrary: k s log)
  case Nil
  then show ?case by (auto simp: script_calls_def)
next
  case (Cons script scripts)
  let ?call = "ExecuteSql (bsc_sql script)"
  obtain a s1 where call: "G ?call s = (a, s1)" by (cases "G ?call s")
  show ?case
  proof (cases a)
    case (Ok b)
    then have "execute_scripts (logged_admin G) (enumerate (Suc k) scripts) (s1, log @ [?call]) = (answer, s', log')"
      using Cons.prems call by (simp add: logged_admin_apply)
    from Cons.IH [OF this] obtain n where n: "n \<le> length scripts" "log' = log @ [?call] @ take n (script_calls scripts)"
      "answer = Ok () \<longrightarrow> n = length scripts"
      "\<forall>f. answer = Err f \<longrightarrow> bfl_stage f = ExecuteScript \<and> (\<exists>i. n = Suc i \<and> bfl_script_index f = Some (Suc k + i)
        \<and> bfl_script_name f = Some (bsc_name (scripts ! i)))"
      by auto
    show ?thesis
      by (rule exI [of _ "Suc n"]) (use n in \<open>fastforce simp: script_calls_def\<close>)
  next
    case (Err e)
    then show ?thesis using Cons.prems call
      by (intro exI [of _ 1]) (auto simp: logged_admin_apply script_calls_def)
  next
    case Panic
    then show ?thesis using Cons.prems call
      by (intro exI [of _ 1]) (auto simp: logged_admin_apply script_calls_def)
  qed
qed

lemma after_create_log:
  assumes run: "provision_after_create U (logged_admin G) storage_at admin_database_url request (s, log) = (answer, s', log')"
    and url: "U admin_database_url (''/'' @ brq_postgres_database request) = Ok url"
  shows "\<exists>n \<le> length (brq_scripts request). log' = log @ ConnectTo url # take n (script_calls (brq_scripts request))
    \<and> (\<forall>a. answer = Ok (ProvisionReady a) \<longrightarrow> n = length (brq_scripts request) \<and> a = storage_at url)
    \<and> (\<forall>f i. answer = Ok (ProvisionFailed f) \<and> bfl_script_index f = Some i \<longrightarrow>
         bfl_stage f = ExecuteScript \<and> bfl_script_name f = Some (bsc_name (brq_scripts request ! i)) \<and> n = Suc i)"
proof -
  obtain a s1 where call: "G (ConnectTo url) s = (a, s1)" by (cases "G (ConnectTo url) s")
  show ?thesis
  proof (cases a)
    case (Ok b)
    obtain d s2 log2 where scripts:
      "execute_scripts (logged_admin G) (enumerate 0 (brq_scripts request)) (s1, log @ [ConnectTo url]) = (d, s2, log2)"
      by (metis prod_cases3)
    from execute_scripts_log [OF this] obtain n where n: "n \<le> length (brq_scripts request)"
      "log2 = log @ ConnectTo url # take n (script_calls (brq_scripts request))"
      "d = Ok () \<longrightarrow> n = length (brq_scripts request)"
      "\<forall>f. d = Err f \<longrightarrow> bfl_stage f = ExecuteScript \<and> (\<exists>i. n = Suc i \<and> bfl_script_index f = Some i
        \<and> bfl_script_name f = Some (bsc_name (brq_scripts request ! i)))"
      by auto
    have "(answer, s', log') = (case d of Err f \<Rightarrow> (Ok (ProvisionFailed f), s2, log2) | Panic \<Rightarrow> (Panic, s2, log2)
        | Ok _ \<Rightarrow> (Ok (ProvisionReady (storage_at url)), s2, log2))"
      using run url call Ok scripts
      by (cases d) (simp_all add: provision_after_create_def target_database_url_def or_failed_def logged_admin_apply)
    then show ?thesis using n by (intro exI [of _ n]) (auto split: outcome.splits)
  qed (use run url call in \<open>auto simp: provision_after_create_def target_database_url_def or_failed_def logged_admin_apply
      failed_at_def intro!: exI [of _ 0]\<close>)
qed

text \<open>
  Provisioning makes its calls in order, stops at the first that fails, and reports where. On any server: the calls
  made are a prefix of connecting to the administration database, asking whether the database exists, creating it if and only if
  it does not, connecting to it, and its scripts in order; if a storage is returned, all were made and the storage is the one at the
  target's URL; if a script is named in a failure, it is the last one that was run; and an existing database is
  neither connected to nor changed unless the request says to use it.
\<close>

theorem provision_calls_in_order:
  assumes run: "provision_database U (logged_admin G) storage_at admin_database_url request (s, []) = (answer, s', log)"
    and existing: "existing \<longleftrightarrow> fst (G (DatabaseExists (brq_postgres_database request))
          (snd (G (ConnectTo admin_database_url) s))) = Ok True"
    and url: "U admin_database_url (''/'' @ brq_postgres_database request) = Ok url"
    and prologue: "prologue = provision_prologue admin_database_url url existing (brq_postgres_database request)"
  shows "(\<exists>rest. log @ rest = prologue @ script_calls (brq_scripts request))
    \<and> (\<forall>a. answer = Ok (ProvisionReady a) \<longrightarrow> log = prologue @ script_calls (brq_scripts request) \<and> a = storage_at url)
    \<and> (\<forall>f i. answer = Ok (ProvisionFailed f) \<and> bfl_script_index f = Some i \<longrightarrow>
         bfl_stage f = ExecuteScript \<and> bfl_script_name f = Some (bsc_name (brq_scripts request ! i))
         \<and> log = prologue @ script_calls (take (Suc i) (brq_scripts request)))
    \<and> (existing \<and> brq_existing_database_policy request = FailExisting \<longrightarrow>
         length log \<le> 2 \<and> (\<forall>a. answer \<noteq> Ok (ProvisionReady a)))"
proof -
  let ?connect = "ConnectTo admin_database_url" and ?ask = "DatabaseExists (brq_postgres_database request)"
    and ?create = "ExecuteSql (create_statement (brq_postgres_database request))"
    and ?calls = "script_calls (brq_scripts request)"
  obtain a1 s1 where c1: "G ?connect s = (a1, s1)" by (cases "G ?connect s")
  obtain a2 s2 where c2: "G ?ask s1 = (a2, s2)" by (cases "G ?ask s1")
  obtain a3 s3 where c3: "G ?create s2 = (a3, s3)" by (cases "G ?create s2")
  have short: ?thesis if "log = take m prologue" "m \<le> 3" "\<not> existing \<or> m \<le> 2" "\<And>a. answer \<noteq> Ok (ProvisionReady a)"
    "\<And>f. answer = Ok (ProvisionFailed f) \<Longrightarrow> bfl_script_index f = None" for m
    using that append_take_drop_id [of m prologue]
    by (auto intro: exI [of _ "drop m prologue @ ?calls"])
  have long: ?thesis if "provision_after_create U (logged_admin G) storage_at admin_database_url request (t, log0) = (answer, s', log)"
    "log0 @ [ConnectTo url] = prologue" "\<not> (existing \<and> brq_existing_database_policy request = FailExisting)" for t log0
  proof -
    note pro = that(2) and go = that(3)
    from after_create_log [OF that(1) url] obtain n where "n \<le> length (brq_scripts request)"
      "log = log0 @ ConnectTo url # take n ?calls"
      "\<forall>a. answer = Ok (ProvisionReady a) \<longrightarrow> n = length (brq_scripts request) \<and> a = storage_at url"
      "\<forall>f i. answer = Ok (ProvisionFailed f) \<and> bfl_script_index f = Some i \<longrightarrow>
         bfl_stage f = ExecuteScript \<and> bfl_script_name f = Some (bsc_name (brq_scripts request ! i)) \<and> n = Suc i"
      by blast
    moreover from this(2) have n: "log = prologue @ take n ?calls" unfolding pro [symmetric] by simp
    moreover have "\<exists>rest. log @ rest = prologue @ ?calls" by (rule exI [of _ "drop n ?calls"]) (simp add: n)
    ultimately show ?thesis using go by (auto simp: script_calls_def take_map)
  qed
  note defs = provision_database_def or_failed_def logged_admin_apply failed_at_def c1 c2 c3
  have ex: "existing \<longleftrightarrow> a2 = Ok True" using existing c1 c2 by simp
  show ?thesis
  proof (cases a1)
    case (Ok b1)
    show ?thesis
    proof (cases a2)
      case a2: (Ok b2)
      show ?thesis
      proof (cases "b2 \<and> brq_existing_database_policy request = FailExisting")
        case True
        then show ?thesis using run Ok a2 ex prologue
          by (intro short [of 2]) (auto simp: defs provision_prologue_def)
      next
        case unblocked: False
        show ?thesis
        proof (cases b2)
          case True
          then show ?thesis using run Ok a2 ex prologue unblocked
            by (intro long [of s2 "[?connect, ?ask]"]) (auto simp: defs provision_prologue_def)
        next
          case False
          show ?thesis
          proof (cases a3)
            case a3: (Ok b3)
            then show ?thesis using run Ok a2 ex prologue False
              by (intro long [of s3 "[?connect, ?ask, ?create]"]) (auto simp: defs provision_prologue_def)
          qed (use run Ok a2 ex prologue False in \<open>intro short [of 3], auto simp: defs provision_prologue_def\<close>)
        qed
      qed
    qed (use run Ok ex prologue in \<open>intro short [of 2], auto simp: defs provision_prologue_def\<close>)
  qed (use run ex prologue in \<open>intro short [of 1], auto simp: defs provision_prologue_def\<close>)
qed

text \<open>The statement that creates a database names it between double quotes, the only ones of the statement.\<close>

lemma create_statement_safe:
  assumes "identifier_ok database"
  shows "create_statement database = ''create database '' @ [CHR 0x22] @ database @ [CHR 0x22] \<and> CHR 0x22 \<notin> set database"
  using identifier_no_quote [OF assms] by (simp add: create_statement_def quoted_identifier_def)

section \<open>Witnesses\<close>

definition shop_request :: bootstrap_request where
  "shop_request = \<lparr>brq_database_id = ''shop'', brq_postgres_database = ''shop_db'', brq_scripts = [\<lparr>bsc_name = ''init'', bsc_sql = ''x''\<rparr>],
     brq_description = None, brq_tags = [], brq_owner = None, brq_existing_database_policy = FailExisting\<rparr>"

text \<open>A provisioner that counts its calls and succeeds with storage \<open>7\<close>, which describes no tables.\<close>

definition counting_provisioner :: "(nat, nat) provisioner" where
  "counting_provisioner request s = (Ok (ProvisionReady 7), s + 1)"

definition no_tables :: "(nat, nat) describe" where
  "no_tables storage table s = (Ok [], s)"

definition main_registry :: "nat database_registry" where
  "main_registry = registry_new (default_database ''main'' ''postgres'') 1"

definition shop_registry :: "nat database_registry" where
  "shop_registry = main_registry\<lparr>drg_entries := bt_insert ''shop''
     \<lparr>dbe_database = from_bootstrap_request shop_request DbReady None, dbe_storage = Some 7\<rparr> (drg_entries main_registry)\<rparr>"

lemma shop_request_valid: "validate_bootstrap_request shop_request = Ok ()"
  by code_simp

lemma shop_bootstrap:
  "bootstrap_database counting_provisioner no_tables shop_request main_registry 0
     = (Ok (from_bootstrap_request shop_request DbReady None), shop_registry, 1)"
proof -
  have "brq_database_id shop_request = ''shop''" by (simp add: shop_request_def)
  moreover have "\<not> bt_contains_key (drg_entries main_registry) ''shop''"
    by (simp add: main_registry_def registry_new_def default_database_def bt_contains_key_def)
  ultimately show ?thesis
    by (simp add: bootstrap_database_def shop_request_valid registry_contains_def counting_provisioner_def no_tables_def
        register_and_return_def registry_register_def from_bootstrap_request_def shop_registry_def)
qed

lemma main_run: "registry_run counting_provisioner no_tables (main_registry, 0) (main_registry, 0)"
  by (simp add: registry_run_def)

lemma shop_run: "registry_run counting_provisioner no_tables (main_registry, 0) (shop_registry, 1)"
  unfolding registry_run_def by (rule r_into_rtranclp) (rule step_bootstrap [OF shop_bootstrap])

lemma registry_invariant_witness: "registry_ok ''main'' ''postgres'' 1 shop_registry"
  using registry_invariant [OF main_run [unfolded main_registry_def] shop_run [unfolded main_registry_def]] by blast

lemma bootstrap_registers_what_it_answers_witness:
  "registry_get ''shop'' shop_registry = Some (from_bootstrap_request shop_request DbReady None)"
  using bootstrap_registers_what_it_answers [OF shop_bootstrap] by (simp add: shop_request_def)

lemma described_from_own_storage_witness:
  "fst (manager_describe_tables no_tables (Some ''shop'') None shop_registry 1)
     = Ok (from_bootstrap_request shop_request DbReady None, [])"
  using described_from_own_storage [OF shop_run [unfolded main_registry_def], of "Some ''shop''" None]
  by (simp add: shop_registry_def no_tables_def)

lemma list_databases_exact_witness:
  "registry_list shop_registry = [default_database ''main'' ''postgres'', from_bootstrap_request shop_request DbReady None]"
proof -
  have "bt_keys (drg_entries shop_registry) = [''main'', ''shop'']" by code_simp
  moreover have "registry_get ''main'' shop_registry = Some (default_database ''main'' ''postgres'')"
    "registry_get ''shop'' shop_registry = Some (from_bootstrap_request shop_request DbReady None)"
    by (simp_all add: registry_get_def shop_registry_def main_registry_def registry_new_def default_database_def)
  ultimately show ?thesis
    using list_databases_exact [OF shop_run [unfolded main_registry_def]]
    by (simp add: from_bootstrap_request_def shop_request_def default_database_def)
qed

text \<open>A server on which the database is new and its script fails.\<close>

definition failing_server :: "nat admin_server" where
  "failing_server call s = (case call of ExecuteSql sql \<Rightarrow> if sql = ''x'' then (Err ''syntax'', s + 1) else (Ok False, s + 1)
     | _ \<Rightarrow> (Ok False, s + 1))"

definition joined_url :: url_with_path where
  "joined_url url path = Ok (url @ path)"

lemma provision_calls_in_order_witness:
  "\<exists>s' f. provision_database joined_url (logged_admin failing_server) (\<lambda>url. url) ''pg:'' shop_request (0, [])
      = (Ok (ProvisionFailed f), s', provision_prologue ''pg:'' ''pg:/shop_db'' False ''shop_db'' @ [ExecuteSql ''x''])
    \<and> bfl_script_name f = Some ''init''"
proof -
  let ?f = "\<lparr>bfl_stage = ExecuteScript, bfl_message = ''syntax'', bfl_script_name = Some ''init'', bfl_script_index = Some 0\<rparr>"
  let ?log = "provision_prologue ''pg:'' ''pg:/shop_db'' False ''shop_db'' @ [ExecuteSql ''x'']"
  have run: "provision_database joined_url (logged_admin failing_server) (\<lambda>url. url) ''pg:'' shop_request (0, [])
      = (Ok (ProvisionFailed ?f), 5, ?log)"
    by (simp add: provision_database_def provision_after_create_def or_failed_def logged_admin_apply failing_server_def shop_request_def
        target_database_url_def joined_url_def provision_prologue_def create_statement_def quoted_identifier_def)
  have "\<exists>s' f. provision_database joined_url (logged_admin failing_server) (\<lambda>url. url) ''pg:'' shop_request (0, [])
      = (Ok (ProvisionFailed f), s', ?log) \<and> bfl_script_index f = Some 0"
    using run by simp
  moreover have "False \<longleftrightarrow> fst (failing_server (DatabaseExists (brq_postgres_database shop_request))
      (snd (failing_server (ConnectTo ''pg:'') 0))) = Ok True"
    by (simp add: failing_server_def)
  moreover have "joined_url ''pg:'' (''/'' @ brq_postgres_database shop_request) = Ok ''pg:/shop_db''"
    by (simp add: joined_url_def shop_request_def)
  ultimately show ?thesis
    using provision_calls_in_order [of joined_url failing_server "\<lambda>url. url" "''pg:''" shop_request 0 _ _ _ False "''pg:/shop_db''"]
    by (fastforce simp: shop_request_def)
qed

end
