(* ===== verification/Database_Api.thy ===== *)
theory Database_Api
  imports Registry
begin

text \<open>
  How the gateway answers about databases: the messages of \<open>crates/evobase-protocol/src/databases.rs\<close> and
  \<open>docs.rs\<close>, and the handlers of \<open>crates/evobase-gateway/src/handlers/databases.rs\<close> and \<open>docs.rs\<close>.
\<close>

section \<open>Messages\<close>

datatype existing_database_policy_dto = DtoFail | DtoUseExisting
datatype database_kind_dto = DtoDefault | DtoBootstrapped
datatype database_status_dto = DtoReady | DtoBootstrapFailed
datatype bootstrap_failure_stage_dto = DtoCreateDatabase | DtoConnectDatabase | DtoExecuteScript | DtoIntrospectSchema

record bootstrap_script_dto =
  bsd_name :: string
  bsd_sql :: string

record bootstrap_request_dto =
  brd_database_id :: string
  brd_postgres_database :: string
  brd_scripts :: "bootstrap_script_dto list"
  brd_description :: "string option"
  brd_tags :: "string list"
  brd_owner :: "string option"
  brd_existing_database_policy :: existing_database_policy_dto

record bootstrap_failure_dto =
  bfd_stage :: bootstrap_failure_stage_dto
  bfd_message :: string
  bfd_script_name :: "string option"
  bfd_script_index :: "nat option"

record database_dto =
  ddo_database_id :: string
  ddo_postgres_database :: string
  ddo_description :: "string option"
  ddo_tags :: "string list"
  ddo_owner :: "string option"
  ddo_kind :: database_kind_dto
  ddo_status :: database_status_dto
  ddo_docs_available :: bool
  ddo_is_default :: bool
  ddo_script_count :: nat
  ddo_failure :: "bootstrap_failure_dto option"

record database_catalog_dto =
  dcd_default_database_id :: string
  dcd_databases :: "database_dto list"

fun policy_from_dto :: "existing_database_policy_dto \<Rightarrow> existing_database_policy" where
  "policy_from_dto DtoFail = FailExisting"
| "policy_from_dto DtoUseExisting = UseExisting"

fun kind_to_dto :: "database_kind \<Rightarrow> database_kind_dto" where
  "kind_to_dto KindDefault = DtoDefault"
| "kind_to_dto KindBootstrapped = DtoBootstrapped"

fun status_to_dto :: "database_status \<Rightarrow> database_status_dto" where
  "status_to_dto DbReady = DtoReady"
| "status_to_dto DbBootstrapFailed = DtoBootstrapFailed"

fun stage_to_dto :: "bootstrap_failure_stage \<Rightarrow> bootstrap_failure_stage_dto" where
  "stage_to_dto CreateDatabase = DtoCreateDatabase"
| "stage_to_dto ConnectDatabase = DtoConnectDatabase"
| "stage_to_dto ExecuteScript = DtoExecuteScript"
| "stage_to_dto IntrospectSchema = DtoIntrospectSchema"

definition script_from_dto :: "bootstrap_script_dto \<Rightarrow> bootstrap_script" where
  "script_from_dto v = \<lparr>bsc_name = bsd_name v, bsc_sql = bsd_sql v\<rparr>"

definition request_from_dto :: "bootstrap_request_dto \<Rightarrow> bootstrap_request" where
  "request_from_dto v =
     \<lparr>brq_database_id = brd_database_id v, brq_postgres_database = brd_postgres_database v,
      brq_scripts = map script_from_dto (brd_scripts v), brq_description = brd_description v, brq_tags = brd_tags v,
      brq_owner = brd_owner v, brq_existing_database_policy = policy_from_dto (brd_existing_database_policy v)\<rparr>"

definition failure_to_dto :: "bootstrap_failure \<Rightarrow> bootstrap_failure_dto" where
  "failure_to_dto v = \<lparr>bfd_stage = stage_to_dto (bfl_stage v), bfd_message = bfl_message v,
     bfd_script_name = bfl_script_name v, bfd_script_index = bfl_script_index v\<rparr>"

definition database_to_dto :: "string \<Rightarrow> managed_database \<Rightarrow> database_dto" where
  "database_to_dto default_database_id database =
     \<lparr>ddo_database_id = mdb_database_id database, ddo_postgres_database = mdb_postgres_database database,
      ddo_description = mdb_description database, ddo_tags = mdb_tags database, ddo_owner = mdb_owner database,
      ddo_kind = kind_to_dto (mdb_kind database), ddo_status = status_to_dto (mdb_status database),
      ddo_docs_available = docs_available database, ddo_is_default = (mdb_database_id database = default_database_id),
      ddo_script_count = mdb_script_count database, ddo_failure = map_option failure_to_dto (mdb_failure database)\<rparr>"

definition catalog_to_dto :: "string \<Rightarrow> managed_database list \<Rightarrow> database_catalog_dto" where
  "catalog_to_dto default_database_id databases =
     \<lparr>dcd_default_database_id = default_database_id,
      dcd_databases = map (database_to_dto default_database_id) databases\<rparr>"

text \<open>The documentation of tables.\<close>

record column_doc_dto =
  ccd_name :: string
  ccd_data_type :: string
  ccd_nullable :: bool
  ccd_has_default :: bool

record rls_policy_doc_dto =
  rpo_name :: string
  rpo_command :: string
  rpo_using :: "string option"
  rpo_with_check :: "string option"

record rls_doc_dto =
  rdd_enabled :: bool
  rdd_policies :: "rls_policy_doc_dto list"

record table_methods_dto =
  tmd_get :: bool
  tmd_post :: bool
  tmd_patch :: bool
  tmd_delete :: bool

record query_doc_dto =
  qdd_selectable_columns :: "string list"
  qdd_filter_operators :: "string list"
  qdd_order_supported :: bool
  qdd_limit_supported :: bool
  qdd_offset_supported :: bool

record table_doc_dto =
  tdd_name :: string
  tdd_schema :: string
  tdd_table :: string
  tdd_endpoint :: string
  tdd_columns :: "column_doc_dto list"
  tdd_methods :: table_methods_dto
  tdd_rls :: rls_doc_dto
  tdd_query :: query_doc_dto

record api_docs_dto =
  add_database :: database_dto
  add_tables :: "table_doc_dto list"

definition column_to_dto :: "column_doc \<Rightarrow> column_doc_dto" where
  "column_to_dto col = \<lparr>ccd_name = cdc_name col, ccd_data_type = cdc_data_type col, ccd_nullable = cdc_nullable col,
     ccd_has_default = cdc_has_default col\<rparr>"

definition policy_to_dto :: "rls_policy_doc \<Rightarrow> rls_policy_doc_dto" where
  "policy_to_dto p = \<lparr>rpo_name = rpd_name p, rpo_command = rpd_command p, rpo_using = rpd_using p,
     rpo_with_check = rpd_with_check p\<rparr>"

definition rls_to_dto :: "rls_doc \<Rightarrow> rls_doc_dto" where
  "rls_to_dto rls = \<lparr>rdd_enabled = rld_enabled rls, rdd_policies = map policy_to_dto (rld_policies rls)\<rparr>"

definition methods_to_dto :: "table_methods \<Rightarrow> table_methods_dto" where
  "methods_to_dto m = \<lparr>tmd_get = tmt_get m, tmd_post = tmt_post m, tmd_patch = tmt_patch m, tmd_delete = tmt_delete m\<rparr>"

definition query_to_dto :: "query_doc \<Rightarrow> query_doc_dto" where
  "query_to_dto q = \<lparr>qdd_selectable_columns = qdc_selectable_columns q, qdd_filter_operators = qdc_filter_operators q,
     qdd_order_supported = qdc_order_supported q, qdd_limit_supported = qdc_limit_supported q,
     qdd_offset_supported = qdc_offset_supported q\<rparr>"

definition table_doc_to_dto :: "table_doc \<Rightarrow> table_doc_dto" where
  "table_doc_to_dto doc =
     \<lparr>tdd_name = tdc_name doc, tdd_schema = tdc_schema doc, tdd_table = tdc_table doc, tdd_endpoint = tdc_endpoint doc,
      tdd_columns = map column_to_dto (tdc_columns doc), tdd_methods = methods_to_dto (tdc_methods doc),
      tdd_rls = rls_to_dto (tdc_rls doc), tdd_query = query_to_dto (tdc_query doc)\<rparr>"

section \<open>Handlers\<close>

definition list_databases_handler :: "'a database_registry \<Rightarrow> database_catalog_dto" where
  "list_databases_handler r = catalog_to_dto (drg_default_database_id r) (registry_list r)"

definition get_database_handler :: "string \<Rightarrow> 'a database_registry \<Rightarrow> (app_error, database_dto) outcome" where
  "get_database_handler database_id r =
     and_then (get_database database_id r) (\<lambda>database. Ok (database_to_dto (drg_default_database_id r) database))"

definition bootstrap_database_handler ::
  "('a, 's) provisioner \<Rightarrow> ('a, 's) describe \<Rightarrow> bootstrap_request_dto \<Rightarrow> 'a database_registry \<Rightarrow> 's
     \<Rightarrow> (app_error, database_dto) outcome \<times> 'a database_registry \<times> 's" where
  "bootstrap_database_handler P D request r s =
     (let (answer, r, s) = bootstrap_database P D (request_from_dto request) r s in
      (and_then answer (\<lambda>database. Ok (database_to_dto (drg_default_database_id r) database)), r, s))"

text \<open>\<open>list_docs\<close> asks for the default database, \<open>list_database_docs\<close> for a named one.\<close>

definition list_docs_handler ::
  "('a, 's) describe \<Rightarrow> string option \<Rightarrow> 'a database_registry \<Rightarrow> 's \<Rightarrow> (app_error, api_docs_dto) outcome \<times> 's" where
  "list_docs_handler D database_id r s =
     (let (found, s) = manager_describe_tables D database_id None r s in
      (and_then found (\<lambda>(database, tables). Ok \<lparr>add_database = database_to_dto (drg_default_database_id r) database,
         add_tables = map table_doc_to_dto tables\<rparr>), s))"

definition get_table_docs_handler ::
  "('a, 's) describe \<Rightarrow> string option \<Rightarrow> string \<Rightarrow> 'a database_registry \<Rightarrow> 's \<Rightarrow> (app_error, table_doc_dto) outcome \<times> 's" where
  "get_table_docs_handler D database_id table r s =
     (let (found, s) = table_docs_handler D database_id table r s in
      (and_then found (\<lambda>doc. Ok (table_doc_to_dto doc)), s))"

section \<open>Properties\<close>

text \<open>
  The catalog of databases is truthful. In every reachable registry, the catalog lists each registered database
  exactly once and marks exactly the default one as default; and what it says of a database is what the other
  endpoints do: its documentation is marked available exactly if \<open>list_docs\<close> for it does not answer \<open>404\<close> or \<open>409\<close>
  before the storage is asked, which is exactly if no failure is shown.
\<close>

theorem catalog_truthful:
  assumes "registry_run P D (registry_new (default_database i p) storage, s0) (r, s)"
  shows "distinct (map ddo_database_id (dcd_databases (list_databases_handler r)))
    \<and> set (map ddo_database_id (dcd_databases (list_databases_handler r))) = set (bt_keys (drg_entries r))
    \<and> (\<forall>d \<in> set (dcd_databases (list_databases_handler r)).
         get_database_handler (ddo_database_id d) r = Ok d
         \<and> (ddo_is_default d \<longleftrightarrow> ddo_database_id d = i)
         \<and> (ddo_docs_available d \<longleftrightarrow> is_ok (registry_resolve (Some (ddo_database_id d)) r))
         \<and> (ddo_docs_available d \<longleftrightarrow> ddo_failure d = None))"
proof -
  have ok: "registry_ok i p storage r"
    using registry_run_ok [OF assms] by (simp add: registry_new_ok)
  then have i: "drg_default_database_id r = i" by (simp add: registry_ok_def)
  let ?xs = "map dbe_database (bt_values (drg_entries r))"
  have keys: "map mdb_database_id ?xs = bt_keys (drg_entries r)"
    using ok by (auto simp: bt_values_def bt_keys_def registry_ok_def entry_ok_def bt_get_iff)
  have ids: "map ddo_database_id (dcd_databases (list_databases_handler r)) = map mdb_database_id (registry_list r)"
    by (simp add: list_databases_handler_def catalog_to_dto_def database_to_dto_def comp_def)
  have perm: "mset (registry_list r) = mset ?xs" by (simp add: registry_list_def)
  then have "mset (map mdb_database_id (registry_list r)) = mset (bt_keys (drg_entries r))"
    unfolding keys [symmetric] by (metis mset_map)
  then have "distinct (map mdb_database_id (registry_list r))"
    "set (map mdb_database_id (registry_list r)) = set (bt_keys (drg_entries r))"
    by (metis bt_keys_distinct mset_eq_imp_distinct_iff) (metis \<open>mset (map mdb_database_id (registry_list r)) = mset (bt_keys (drg_entries r))\<close> mset_eq_setD)
  moreover have "get_database_handler (ddo_database_id d) r = Ok d \<and> (ddo_is_default d \<longleftrightarrow> ddo_database_id d = i)
      \<and> (ddo_docs_available d \<longleftrightarrow> is_ok (registry_resolve (Some (ddo_database_id d)) r))
      \<and> (ddo_docs_available d \<longleftrightarrow> ddo_failure d = None)"
    if "d \<in> set (dcd_databases (list_databases_handler r))" for d
  proof -
    obtain db where d: "d = database_to_dto i db" and "db \<in> set (registry_list r)"
      using \<open>d \<in> set (dcd_databases (list_databases_handler r))\<close> by (auto simp: list_databases_handler_def catalog_to_dto_def i)
    then have "db \<in> set ?xs" using perm by (metis mset_eq_setD)
    then obtain k e where e: "bt_get (drg_entries r) k = Some e" and db: "db = dbe_database e"
      by (auto simp: bt_values_def bt_get_iff)
    have "mdb_database_id db = k" "(mdb_status db = DbReady) = (dbe_storage e \<noteq> None)" "(mdb_status db = DbReady) = (mdb_failure db = None)"
      using registry_okD [OF ok e] unfolding entry_ok_def db by blast+
    then show ?thesis using e
      by (auto simp: d db database_to_dto_def get_database_handler_def get_database_def registry_get_def i docs_available_def
          registry_resolve_def ok_or_def Let_def split: option.splits)
  qed
  ultimately show ?thesis unfolding ids by blast
qed

lemma catalog_truthful_witness:
  "distinct (map ddo_database_id (dcd_databases (list_databases_handler shop_registry)))"
  using catalog_truthful [OF shop_run [unfolded main_registry_def]] by blast

end
