(* ===== verification/Hub.thy ===== *)
theory Hub
  imports Rest
begin

text \<open>
  The messaging hub (\<open>crates/evobase-messaging/src/hub.rs\<close>): messages fan out to the live connections of a user and
  wait for one while there is none. The maps are hash maps whose order the results do not depend on; the topics of the gateway (\<open>topic_messaging.rs\<close>). Both keep their
  state behind one lock; what happens while it is held is one step, and \<open>connect\<close> is several.
\<close>

section \<open>Data\<close>

type_synonym uuid = "128 word"

text \<open>The payload is a value of \<open>serde_json\<close>.\<close>

record 'p server_event =
  sev_event :: string
  sev_payload :: 'p

record messaging_delivery =
  mdl_delivered_connections :: nat
  mdl_queued_messages :: nat

text \<open>
  An unbounded channel of \<open>tokio\<close>: a send succeeds while the receiver exists. What the receiver has already
  taken is kept beside what waits. Channels are named by the order of their creation.
\<close>

record 'e channel =
  chn_open :: bool
  chn_received :: "'e list"
  chn_waiting :: "'e list"

record 'e queued_message =
  qmg_event :: 'e
  qmg_expires_at :: nat

record 'e hub_state =
  hub_connections :: "(uuid, (uuid, nat) btree_map) btree_map"
  hub_queued_messages :: "(uuid, 'e queued_message list) btree_map"

text \<open>
  The hub and its surroundings: the state behind the lock, whether the lock is poisoned, the monotone clock
  in nanoseconds, the channels, and the messages that calls of \<open>connect\<close> still have to replay.
\<close>

record 'e hub_world =
  hwd_state :: "'e hub_state"
  hwd_poisoned :: bool
  hwd_now :: nat
  hwd_channels :: "(nat, 'e channel) btree_map"
  hwd_replays :: "(nat, 'e list) btree_map"

definition hub_new :: "'e hub_world" where
  "hub_new = \<lparr>hwd_state = \<lparr>hub_connections = bt_empty, hub_queued_messages = bt_empty\<rparr>, hwd_poisoned = False,
     hwd_now = 0, hwd_channels = bt_empty, hwd_replays = bt_empty\<rparr>"

section \<open>Operations behind the lock\<close>

definition prune_expired_messages :: "nat \<Rightarrow> 'e hub_state \<Rightarrow> nat \<times> 'e hub_state" where
  "prune_expired_messages now st =
     (let pruned = map (\<lambda>(user, messages). (user, messages, filter (\<lambda>m. qmg_expires_at m > now) messages))
            (entries (hub_queued_messages st));
          expired_messages = sum_list (map (\<lambda>(_, messages, kept). length messages - length kept) pruned);
          retained = filter (\<lambda>(_, messages). messages \<noteq> []) (map (\<lambda>(user, _, kept). (user, kept)) pruned)
      in (expired_messages, st\<lparr>hub_queued_messages := bt_of_list retained\<rparr>))"

definition take_queued_messages :: "uuid \<Rightarrow> 'e hub_state \<Rightarrow> 'e list \<times> 'e hub_state" where
  "take_queued_messages user st =
     (case bt_get (hub_queued_messages st) user of
        Some messages \<Rightarrow> (map qmg_event messages, st\<lparr>hub_queued_messages := bt_remove user (hub_queued_messages st)\<rparr>)
      | None \<Rightarrow> ([], st))"

definition queue_message :: "uuid \<Rightarrow> 'e \<Rightarrow> nat \<Rightarrow> 'e hub_state \<Rightarrow> 'e hub_state" where
  "queue_message user event expires_at st =
     st\<lparr>hub_queued_messages := bt_insert user
       ((case bt_get (hub_queued_messages st) user of Some messages \<Rightarrow> messages | None \<Rightarrow> [])
         @ [\<lparr>qmg_event = event, qmg_expires_at = expires_at\<rparr>]) (hub_queued_messages st)\<rparr>"

definition channel_send :: "nat \<Rightarrow> 'e \<Rightarrow> (nat, 'e channel) btree_map \<Rightarrow> bool \<times> (nat, 'e channel) btree_map" where
  "channel_send c event channels =
     (case bt_get channels c of
        Some ch \<Rightarrow> if chn_open ch then (True, bt_insert c (ch\<lparr>chn_waiting := chn_waiting ch @ [event]\<rparr>) channels)
                   else (False, channels)
      | None \<Rightarrow> (False, channels))"

text \<open>One turn of the loop over a user's connections: how many were reached, which are stale, the channels.\<close>

definition deliver_step ::
  "'e \<Rightarrow> nat \<times> uuid list \<times> (nat, 'e channel) btree_map \<Rightarrow> uuid \<times> nat \<Rightarrow> nat \<times> uuid list \<times> (nat, 'e channel) btree_map" where
  "deliver_step event = (\<lambda>(delivered, stale, channels) (connection, c).
     case channel_send c event channels of
       (True, channels) \<Rightarrow> (delivered + 1, stale, channels)
     | (False, channels) \<Rightarrow> (delivered, stale @ [connection], channels))"

definition deliver_to_active_connections ::
  "uuid \<Rightarrow> 'e \<Rightarrow> 'e hub_state \<Rightarrow> (nat, 'e channel) btree_map \<Rightarrow> nat \<times> 'e hub_state \<times> (nat, 'e channel) btree_map" where
  "deliver_to_active_connections user event st channels =
     (case bt_get (hub_connections st) user of
        None \<Rightarrow> (0, st, channels)
      | Some user_connections \<Rightarrow>
          (let (delivered, stale_ids, channels) = foldl (deliver_step event) (0, [], channels) (entries user_connections);
               user_connections = fold bt_remove stale_ids user_connections
           in (delivered,
               st\<lparr>hub_connections := if bt_len user_connections = 0 then bt_remove user (hub_connections st)
                 else bt_insert user user_connections (hub_connections st)\<rparr>,
               channels)))"

text \<open>\<open>Instant + Duration\<close> panics when the sum is no instant: 64-bit seconds on the platforms supported.\<close>

definition instant_add :: "nat \<Rightarrow> nat \<Rightarrow> nat option" where
  "instant_add now d = (if now + d < 2 ^ 63 * 1000000000 then Some (now + d) else None)"

section \<open>The service\<close>

text \<open>\<open>connect\<close> up to the release of the lock; the messages taken are replayed afterwards, one by one.\<close>

definition hub_register ::
  "uuid \<Rightarrow> uuid \<Rightarrow> 'e hub_world \<Rightarrow> (app_error, nat \<times> 'e list) outcome \<times> 'e hub_world" where
  "hub_register user connection w =
     (if hwd_poisoned w then (Err (AppInternal ''messaging hub lock poisoned''), w)
      else
        let c = bt_len (hwd_channels w);
            (_, st) = prune_expired_messages (hwd_now w) (hwd_state w);
            mine = (case bt_get (hub_connections st) user of Some cs \<Rightarrow> cs | None \<Rightarrow> bt_empty);
            st = st\<lparr>hub_connections := bt_insert user (bt_insert connection c mine) (hub_connections st)\<rparr>;
            (queued, st) = take_queued_messages user st
        in (Ok (c, queued),
            w\<lparr>hwd_state := st, hwd_channels := bt_insert c \<lparr>chn_open = True, chn_received = [], chn_waiting = []\<rparr> (hwd_channels w),
              hwd_replays := bt_insert c queued (hwd_replays w)\<rparr>))"

text \<open>The next message of a replay; a failed send would end it. With none left, \<open>connect\<close> returns.\<close>

definition hub_replay :: "nat \<Rightarrow> 'e hub_world \<Rightarrow> 'e hub_world" where
  "hub_replay c w =
     (case bt_get (hwd_replays w) c of
        None \<Rightarrow> w
      | Some [] \<Rightarrow> w\<lparr>hwd_replays := bt_remove c (hwd_replays w)\<rparr>
      | Some (m # ms) \<Rightarrow>
          (case channel_send c m (hwd_channels w) of
             (True, channels) \<Rightarrow> w\<lparr>hwd_channels := channels, hwd_replays := bt_insert c ms (hwd_replays w)\<rparr>
           | (False, channels) \<Rightarrow> w\<lparr>hwd_channels := channels, hwd_replays := bt_insert c [] (hwd_replays w)\<rparr>))"

definition hub_disconnect :: "uuid \<Rightarrow> uuid \<Rightarrow> 'e hub_world \<Rightarrow> 'e hub_world" where
  "hub_disconnect user connection w =
     (if hwd_poisoned w then w
      else
        let (_, st) = prune_expired_messages (hwd_now w) (hwd_state w) in
        w\<lparr>hwd_state := (case bt_get (hub_connections st) user of
            None \<Rightarrow> st
          | Some user_connections \<Rightarrow>
              let user_connections = bt_remove connection user_connections in
              st\<lparr>hub_connections := if bt_len user_connections = 0 then bt_remove user (hub_connections st)
                else bt_insert user user_connections (hub_connections st)\<rparr>)\<rparr>)"

text \<open>A panic while the lock is held poisons it; what was changed stays changed.\<close>

definition hub_send :: "nat \<Rightarrow> uuid \<Rightarrow> 'e \<Rightarrow> 'e hub_world \<Rightarrow> (app_error, messaging_delivery) outcome \<times> 'e hub_world" where
  "hub_send ttl user event w =
     (if hwd_poisoned w then (Err (AppInternal ''messaging hub lock poisoned''), w)
      else
        let now = hwd_now w;
            (_, st) = prune_expired_messages now (hwd_state w);
            (delivered, st, channels) = deliver_to_active_connections user event st (hwd_channels w);
            w = w\<lparr>hwd_state := st, hwd_channels := channels\<rparr>
        in if delivered = 0
           then (case instant_add now ttl of
               Some expires_at \<Rightarrow>
                 (Ok \<lparr>mdl_delivered_connections = 0, mdl_queued_messages = 1\<rparr>,
                  w\<lparr>hwd_state := queue_message user event expires_at st\<rparr>)
             | None \<Rightarrow> (Panic, w\<lparr>hwd_poisoned := True\<rparr>))
           else (Ok \<lparr>mdl_delivered_connections = delivered, mdl_queued_messages = 0\<rparr>, w))"

text \<open>The periodic task, which a poisoned lock does not stop but keeps idle, and its interval in nanoseconds.\<close>

definition hub_cleanup :: "'e hub_world \<Rightarrow> 'e hub_world" where
  "hub_cleanup w = (if hwd_poisoned w then w else w\<lparr>hwd_state := snd (prune_expired_messages (hwd_now w) (hwd_state w))\<rparr>)"

definition cleanup_interval :: "nat \<Rightarrow> nat" where
  "cleanup_interval ttl = max 1000000000 (min ttl 60000000000)"

text \<open>What the owner of a receiver does: take the next message, or drop the receiver.\<close>

definition hub_receive :: "nat \<Rightarrow> 'e hub_world \<Rightarrow> 'e hub_world" where
  "hub_receive c w =
     (case bt_get (hwd_channels w) c of
        None \<Rightarrow> w
      | Some ch \<Rightarrow>
          (case chn_waiting ch of
             [] \<Rightarrow> w
           | m # ms \<Rightarrow> w\<lparr>hwd_channels := bt_insert c (ch\<lparr>chn_received := chn_received ch @ [m], chn_waiting := ms\<rparr>) (hwd_channels w)\<rparr>))"

definition hub_drop_receiver :: "nat \<Rightarrow> 'e hub_world \<Rightarrow> 'e hub_world" where
  "hub_drop_receiver c w =
     (case bt_get (hwd_channels w) c of
        None \<Rightarrow> w
      | Some ch \<Rightarrow> w\<lparr>hwd_channels := bt_insert c (ch\<lparr>chn_open := False\<rparr>) (hwd_channels w)\<rparr>)"

section \<open>Steps\<close>

text \<open>
  The hub is called from many tasks. While \<open>connect\<close> replays, the receiver is its own: only then returned
  can it be read or dropped.
\<close>

datatype 'e hub_action =
    Register uuid uuid
  | ReplayNext nat
  | Disconnect uuid uuid
  | SendTo uuid 'e
  | Cleanup
  | Receive nat
  | DropReceiver nat
  | Advance nat

inductive hub_step :: "nat \<Rightarrow> 'e hub_world \<Rightarrow> 'e hub_action \<Rightarrow> 'e hub_world \<Rightarrow> bool" for ttl where
  step_register: "hub_register user connection w = (answer, w') \<Longrightarrow> hub_step ttl w (Register user connection) w'"
| step_replay: "bt_get (hwd_replays w) c \<noteq> None \<Longrightarrow> hub_step ttl w (ReplayNext c) (hub_replay c w)"
| step_disconnect: "hub_step ttl w (Disconnect user connection) (hub_disconnect user connection w)"
| step_send: "hub_send ttl user event w = (answer, w') \<Longrightarrow> hub_step ttl w (SendTo user event) w'"
| step_cleanup: "hub_step ttl w Cleanup (hub_cleanup w)"
| step_receive: "bt_get (hwd_replays w) c = None \<Longrightarrow> hub_step ttl w (Receive c) (hub_receive c w)"
| step_drop: "bt_get (hwd_replays w) c = None \<Longrightarrow> hub_step ttl w (DropReceiver c) (hub_drop_receiver c w)"
| step_advance: "hub_step ttl w (Advance d) (w\<lparr>hwd_now := hwd_now w + d\<rparr>)"

inductive_cases hub_stepE: "hub_step ttl w action w'"

inductive hub_run :: "nat \<Rightarrow> 'e hub_world \<Rightarrow> 'e hub_action list \<Rightarrow> 'e hub_world \<Rightarrow> bool" for ttl where
  run_nil: "hub_run ttl w [] w"
| run_cons: "hub_step ttl w action w' \<Longrightarrow> hub_run ttl w' actions w'' \<Longrightarrow> hub_run ttl w (action # actions) w''"


section \<open>Lemmas about the operations\<close>

definition queue_of :: "'e hub_state \<Rightarrow> uuid \<Rightarrow> 'e queued_message list" where
  "queue_of st user = (case bt_get (hub_queued_messages st) user of Some messages \<Rightarrow> messages | None \<Rightarrow> [])"

definition connections_of :: "'e hub_state \<Rightarrow> uuid \<Rightarrow> (uuid, nat) btree_map" where
  "connections_of st user = (case bt_get (hub_connections st) user of Some cs \<Rightarrow> cs | None \<Rightarrow> bt_empty)"

definition channel_open :: "(nat, 'e channel) btree_map \<Rightarrow> nat \<Rightarrow> bool" where
  "channel_open channels c = (case bt_get channels c of Some ch \<Rightarrow> chn_open ch | None \<Rightarrow> False)"

definition push_event :: "'e \<Rightarrow> 'e channel \<Rightarrow> 'e channel" where
  "push_event event ch = ch\<lparr>chn_waiting := chn_waiting ch @ [event]\<rparr>"

lemma push_event_open [simp]: "chn_open (push_event event ch) = chn_open ch"
  by (simp add: push_event_def)

lemma prune_connections [simp]: "hub_connections (snd (prune_expired_messages now st)) = hub_connections st"
  by (simp add: prune_expired_messages_def Let_def)

lemma map_of_pruned:
  assumes "distinct (map fst xs)"
  shows "map_of (filter (\<lambda>(_, ms). ms \<noteq> []) (map (\<lambda>(u, ms). (u, filter P ms)) xs)) u
    = (case map_of xs u of None \<Rightarrow> None | Some ms \<Rightarrow> if filter P ms = [] then None else Some (filter P ms))"
  using assms
proof (induction xs)
  case (Cons x xs)
  obtain u' ms where x: "x = (u', ms)" by (cases x)
  show ?case
  proof (cases "u' = u")
    case True
    then have "map_of xs u = None" using Cons.prems x by (simp add: map_of_eq_None_iff)
    then show ?thesis using Cons x True by simp
  next
    case False
    then show ?thesis using Cons x by simp
  qed
qed simp

lemma prune_get:
  "bt_get (hub_queued_messages (snd (prune_expired_messages now st))) u
     = (case bt_get (hub_queued_messages st) u of None \<Rightarrow> None
        | Some ms \<Rightarrow> let kept = filter (\<lambda>m. qmg_expires_at m > now) ms in if kept = [] then None else Some kept)"
proof -
  let ?xs = "entries (hub_queued_messages st)"
  let ?ys = "filter (\<lambda>(_, ms). ms \<noteq> []) (map (\<lambda>(u, ms). (u, filter (\<lambda>m. qmg_expires_at m > now) ms)) ?xs)"
  have eq: "hub_queued_messages (snd (prune_expired_messages now st)) = bt_of_list ?ys"
    by (simp add: prune_expired_messages_def Let_def comp_def case_prod_unfold)
  have "map fst ?ys = map fst (filter (\<lambda>(_, ms). filter (\<lambda>m. qmg_expires_at m > now) ms \<noteq> []) ?xs)"
    by (simp add: filter_map comp_def case_prod_unfold)
  then have "distinct (map fst ?ys)"
    by (simp add: distinct_map_filter)
  then show ?thesis
    unfolding eq by (simp only: bt_get_of_list_distinct map_of_pruned [OF entries_distinct])
      (simp add: bt_get_def Let_def split: option.split)
qed

lemma queue_of_prune [simp]:
  "queue_of (snd (prune_expired_messages now st)) u = filter (\<lambda>m. qmg_expires_at m > now) (queue_of st u)"
  by (auto simp: queue_of_def prune_get Let_def split: option.splits)

lemma channel_send_eq:
  "channel_send c event channels =
     (if channel_open channels c
      then (True, bt_insert c (push_event event (the (bt_get channels c))) channels) else (False, channels))"
  by (auto simp: channel_send_def channel_open_def push_event_def split: option.splits)

lemma deliver_fold:
  assumes "distinct (map snd xs)"
  shows "\<exists>channels'. foldl (deliver_step event) (n, stale, channels) xs
      = (n + length (filter (\<lambda>(_, c). channel_open channels c) xs),
         stale @ map fst (filter (\<lambda>(_, c). \<not> channel_open channels c) xs), channels')
    \<and> (\<forall>c. bt_get channels' c = (if c \<in> snd ` set xs \<and> channel_open channels c
          then Some (push_event event (the (bt_get channels c))) else bt_get channels c))"
  using assms
proof (induction xs arbitrary: n stale channels)
  case (Cons x xs)
  obtain connection c where [simp]: "x = (connection, c)" by (cases x)
  have fresh: "c \<notin> snd ` set xs" and dist: "distinct (map snd xs)" using Cons.prems by auto
  show ?case
  proof (cases "channel_open channels c")
    case True
    let ?ch = "bt_insert c (push_event event (the (bt_get channels c))) channels"
    have same: "channel_open ?ch c' = channel_open channels c'" for c'
      using True by (auto simp: channel_open_def split: option.splits)
    show ?thesis
      using Cons.IH [OF dist, of "n + 1" stale ?ch] True fresh
      by (fastforce simp: deliver_step_def channel_send_eq same)
  next
    case False
    then show ?thesis
      using Cons.IH [OF dist, of n "stale @ [connection]" channels] fresh
      by (fastforce simp: deliver_step_def channel_send_eq)
  qed
qed simp

text \<open>Sizes of maps and repeated removal.\<close>

lemma set_bt_keys: "set (bt_keys m) = {k. bt_get m k \<noteq> None}"
  by (auto simp: bt_get_None_iff)

lemma bt_len_card: "bt_len m = card (set (bt_keys m))"
  by (simp add: distinct_card) (simp add: bt_len_def bt_keys_def)

lemma bt_len_cong: "(\<And>k. bt_get m k = None \<longleftrightarrow> bt_get n k = None) \<Longrightarrow> bt_len m = bt_len n"
  by (simp add: bt_len_card set_bt_keys del: distinct_card)

lemma len_insert_fresh: "bt_get m k = None \<Longrightarrow> bt_len (bt_insert k v m) = Suc (bt_len m)"
  by (metis List.finite_set bt_get_None_iff bt_keys_insert bt_len_card card_insert_disjoint)

lemma len_insert_known: "bt_get m k \<noteq> None \<Longrightarrow> bt_len (bt_insert k v m) = bt_len m"
  by (simp only: bt_len_card bt_keys_insert bt_get_None_iff not_not insert_absorb)

lemma no_entries_iff: "bt_len m = 0 \<longleftrightarrow> m = bt_empty"
  by (simp add: bt_len_def bt_eq_iff)

lemma bt_get_fold_remove: "bt_get (fold bt_remove ks m) k = (if k \<in> set ks then None else bt_get m k)"
  by (induction ks arbitrary: m) auto

lemma fold_remove_filter:
  "fold bt_remove (map fst (filter (\<lambda>(_, v). \<not> P v) (entries m))) m = bt_filter (\<lambda>_. P) m"
proof (rule bt_eqI)
  fix k
  show "bt_get (fold bt_remove (map fst (filter (\<lambda>(_, v). \<not> P v) (entries m))) m) k = bt_get (bt_filter (\<lambda>_. P) m) k"
  proof (cases "bt_get m k")
    case None
    then show ?thesis by (simp add: bt_get_fold_remove)
  next
    case (Some v)
    have "k \<in> fst ` {x \<in> set (entries m). \<not> P (snd x)} \<longleftrightarrow> (\<exists>v'. bt_get m k = Some v' \<and> \<not> P v')"
      by (auto simp: bt_get_iff image_iff Bex_def)
    then show ?thesis using Some by (simp add: bt_get_fold_remove case_prod_unfold)
  qed
qed

text \<open>Connections after storing or dropping a user's map, as every operation does.\<close>

definition store_connections :: "uuid \<Rightarrow> (uuid, nat) btree_map \<Rightarrow> 'e hub_state \<Rightarrow> 'e hub_state" where
  "store_connections user cs st = st\<lparr>hub_connections := if bt_len cs = 0 then bt_remove user (hub_connections st)
     else bt_insert user cs (hub_connections st)\<rparr>"

lemma store_connections_simps [simp]:
  "hub_queued_messages (store_connections user cs st) = hub_queued_messages st"
  "connections_of (store_connections user cs st) u = (if u = user then cs else connections_of st u)"
  "bt_get (hub_connections (store_connections user cs st)) u
     = (if u = user then if cs = bt_empty then None else Some cs else bt_get (hub_connections st) u)"
  by (auto simp: store_connections_def connections_of_def no_entries_iff)

lemma deliver_exact:
  assumes dist: "distinct (map snd (entries (connections_of st user)))"
    and stored: "bt_get (hub_connections st) user \<noteq> Some bt_empty"
  obtains channels' where
    "deliver_to_active_connections user event st channels =
       (length (filter (\<lambda>(_, c). channel_open channels c) (entries (connections_of st user))),
        store_connections user (bt_filter (\<lambda>_. channel_open channels) (connections_of st user)) st, channels')"
    and "\<And>c. bt_get channels' c = (if c \<in> snd ` set (entries (connections_of st user)) \<and> channel_open channels c
       then Some (push_event event (the (bt_get channels c))) else bt_get channels c)"
proof (cases "bt_get (hub_connections st) user")
  case None
  then have none: "connections_of st user = bt_empty" by (simp add: connections_of_def)
  have "bt_filter (\<lambda>_. channel_open channels) (bt_empty :: (uuid, nat) btree_map) = bt_empty"
    by (rule bt_eqI) simp
  moreover have "bt_remove user (hub_connections st) = hub_connections st"
    using None by (intro bt_eqI) simp
  ultimately have "store_connections user (bt_filter (\<lambda>_. channel_open channels) (connections_of st user)) st = st"
    by (simp add: store_connections_def none bt_len_def)
  then show ?thesis using None none by (intro that) (simp_all add: deliver_to_active_connections_def)
next
  case (Some cs)
  then have cs: "connections_of st user = cs" by (simp add: connections_of_def)
  obtain channels' where folded: "foldl (deliver_step event) (0, [], channels) (entries cs)
      = (0 + length (filter (\<lambda>(_, c). channel_open channels c) (entries cs)),
         [] @ map fst (filter (\<lambda>(_, c). \<not> channel_open channels c) (entries cs)), channels')"
    and get: "\<And>c. bt_get channels' c = (if c \<in> snd ` set (entries cs) \<and> channel_open channels c
          then Some (push_event event (the (bt_get channels c))) else bt_get channels c)"
    using deliver_fold [OF dist [unfolded cs], of event 0 "[]" channels] by blast
  show ?thesis
  proof (rule that [of channels'])
    show "deliver_to_active_connections user event st channels =
       (length (filter (\<lambda>(_, c). channel_open channels c) (entries (connections_of st user))),
        store_connections user (bt_filter (\<lambda>_. channel_open channels) (connections_of st user)) st, channels')"
      using Some by (simp add: deliver_to_active_connections_def folded cs store_connections_def fold_remove_filter)
  qed (use get cs in simp)
qed

section \<open>The invariant\<close>

text \<open>
  Queues are ordered by expiry and expire in time, no user both waits and is connected, no map is kept empty,
  every connection has a channel of its own, and a channel that is being replayed to is open.
\<close>

definition queues_ok :: "nat \<Rightarrow> 'e hub_world \<Rightarrow> bool" where
  "queues_ok ttl w \<longleftrightarrow> (\<forall>u ms. bt_get (hub_queued_messages (hwd_state w)) u = Some ms \<longrightarrow>
     ms \<noteq> [] \<and> sorted (map qmg_expires_at ms) \<and> (\<forall>m \<in> set ms. qmg_expires_at m \<le> hwd_now w + ttl)
     \<and> bt_get (hub_connections (hwd_state w)) u = None)"

definition connections_ok :: "'e hub_world \<Rightarrow> bool" where
  "connections_ok w \<longleftrightarrow> (\<forall>u. bt_get (hub_connections (hwd_state w)) u \<noteq> Some bt_empty)
     \<and> (\<forall>u k c. bt_get (connections_of (hwd_state w) u) k = Some c \<longrightarrow> c < bt_len (hwd_channels w))
     \<and> (\<forall>u k u' k' c. bt_get (connections_of (hwd_state w) u) k = Some c
          \<longrightarrow> bt_get (connections_of (hwd_state w) u') k' = Some c \<longrightarrow> u = u' \<and> k = k')"

lemma connections_okD:
  assumes "connections_ok w" and "bt_get (connections_of (hwd_state w) u) k = Some c"
  shows "c < bt_len (hwd_channels w)" and "bt_get (connections_of (hwd_state w) u') k' = Some c \<Longrightarrow> u = u' \<and> k = k'"
  using assms unfolding connections_ok_def by blast+

definition channels_ok :: "'e hub_world \<Rightarrow> bool" where
  "channels_ok w \<longleftrightarrow> (\<forall>c. bt_get (hwd_channels w) c \<noteq> None \<longleftrightarrow> c < bt_len (hwd_channels w))
     \<and> (\<forall>c. bt_get (hwd_replays w) c \<noteq> None \<longrightarrow> channel_open (hwd_channels w) c)"

definition hub_ok :: "nat \<Rightarrow> 'e hub_world \<Rightarrow> bool" where
  "hub_ok ttl w \<longleftrightarrow> queues_ok ttl w \<and> connections_ok w \<and> channels_ok w"

lemma hub_ok_new: "hub_ok ttl hub_new"
  by (simp add: hub_ok_def queues_ok_def connections_ok_def channels_ok_def hub_new_def connections_of_def bt_len_def)

text \<open>Pruning keeps it.\<close>

lemma sorted_map_filter_le: "sorted (map f xs) \<Longrightarrow> sorted (map f (filter P xs))"
  by (induction xs) auto

lemma connections_of_prune [simp]: "connections_of (snd (prune_expired_messages now st)) = connections_of st"
  by (simp add: connections_of_def fun_eq_iff)

lemma hub_ok_prune:
  assumes "hub_ok ttl w"
  shows "hub_ok ttl (w\<lparr>hwd_state := snd (prune_expired_messages now (hwd_state w))\<rparr>)"
proof -
  have "queues_ok ttl (w\<lparr>hwd_state := snd (prune_expired_messages now (hwd_state w))\<rparr>)"
    using assms unfolding hub_ok_def queues_ok_def
    by (fastforce simp: prune_get Let_def sorted_map_filter_le split: option.splits if_splits)
  then show ?thesis using assms
    by (simp add: hub_ok_def connections_ok_def channels_ok_def)
qed

text \<open>A user's connections may shrink.\<close>

lemma hub_ok_shrink:
  assumes ok: "hub_ok ttl w" and sub: "\<And>k c. bt_get cs k = Some c \<Longrightarrow> bt_get (connections_of (hwd_state w) user) k = Some c"
    and was: "bt_get (hub_connections (hwd_state w)) user = None \<Longrightarrow> cs = bt_empty"
  shows "hub_ok ttl (w\<lparr>hwd_state := store_connections user cs (hwd_state w)\<rparr>)"
proof -
  have "queues_ok ttl (w\<lparr>hwd_state := store_connections user cs (hwd_state w)\<rparr>)"
    using ok was unfolding hub_ok_def queues_ok_def by fastforce
  moreover have "connections_ok (w\<lparr>hwd_state := store_connections user cs (hwd_state w)\<rparr>)" (is "connections_ok ?w")
  proof -
    have old: "bt_get (connections_of (hwd_state w) u) k = Some c"
      if "bt_get (connections_of (hwd_state ?w) u) k = Some c" for u k c
      using that sub by (simp split: if_splits)
    have "connections_ok w" using ok by (simp add: hub_ok_def)
    then have "bt_get (hub_connections (hwd_state ?w)) u \<noteq> Some bt_empty" for u
      by (simp add: connections_ok_def)
    moreover have "c < bt_len (hwd_channels ?w)" if "bt_get (connections_of (hwd_state ?w) u) k = Some c" for u k c
      using connections_okD(1) [OF \<open>connections_ok w\<close> old [OF that]] by simp
    moreover have "u = u' \<and> k = k'" if "bt_get (connections_of (hwd_state ?w) u) k = Some c"
      "bt_get (connections_of (hwd_state ?w) u') k' = Some c" for u k u' k' c
      using connections_okD(2) [OF \<open>connections_ok w\<close> old [OF that(1)] old [OF that(2)]] .
    ultimately show ?thesis unfolding connections_ok_def by blast
  qed
  ultimately show ?thesis using ok by (simp add: hub_ok_def channels_ok_def)
qed

text \<open>The channels may change as long as they stay open where they are being replayed to.\<close>

lemma hub_ok_channels:
  assumes "hub_ok ttl w" and "\<And>c. bt_get channels c = None \<longleftrightarrow> bt_get (hwd_channels w) c = None"
    and "\<And>c. bt_get replays c \<noteq> None \<Longrightarrow> bt_get (hwd_replays w) c \<noteq> None \<and> (channel_open (hwd_channels w) c \<longrightarrow> channel_open channels c)"
  shows "hub_ok ttl (w\<lparr>hwd_channels := channels, hwd_replays := replays\<rparr>)"
proof -
  have "bt_len channels = bt_len (hwd_channels w)" by (rule bt_len_cong) (rule assms(2))
  then show ?thesis using assms
    by (simp add: hub_ok_def queues_ok_def connections_ok_def channels_ok_def)
qed

lemma hub_ok_channels_only:
  assumes "hub_ok ttl w" and "\<And>c. bt_get channels c = None \<longleftrightarrow> bt_get (hwd_channels w) c = None"
    and "\<And>c. bt_get (hwd_replays w) c \<noteq> None \<Longrightarrow> channel_open (hwd_channels w) c \<Longrightarrow> channel_open channels c"
  shows "hub_ok ttl (w\<lparr>hwd_channels := channels\<rparr>)"
  using hub_ok_channels [OF assms(1,2), of "hwd_replays w"] assms(3) by simp

text \<open>Each operation keeps it.\<close>

lemma hub_ok_distinct:
  assumes "hub_ok ttl w"
  shows "distinct (map snd (entries (connections_of (hwd_state w) u)))"
proof -
  have "distinct (entries (connections_of (hwd_state w) u))"
    using entries_distinct [of "connections_of (hwd_state w) u"] by (simp add: distinct_map)
  moreover have "inj_on snd (set (entries (connections_of (hwd_state w) u)))"
    using assms by (auto simp: inj_on_def hub_ok_def simp flip: bt_get_iff dest: connections_okD(2))
  ultimately show ?thesis by (simp add: distinct_map)
qed

lemma deliver_ok:
  assumes ok: "hub_ok ttl w"
    and run: "deliver_to_active_connections user event (hwd_state w) (hwd_channels w) = (delivered, st, channels)"
  shows "hub_ok ttl (w\<lparr>hwd_state := st, hwd_channels := channels\<rparr>)"
    and "delivered = 0 \<Longrightarrow> bt_get (hub_connections st) user = None"
    and "hub_queued_messages st = hub_queued_messages (hwd_state w)"
proof -
  let ?cs = "connections_of (hwd_state w) user" and ?open = "channel_open (hwd_channels w)"
  have stored: "bt_get (hub_connections (hwd_state w)) user \<noteq> Some bt_empty"
    using ok by (simp add: hub_ok_def connections_ok_def)
  have st: "st = store_connections user (bt_filter (\<lambda>_. ?open) ?cs) (hwd_state w)"
    and n: "delivered = length (filter (\<lambda>(_, c). ?open c) (entries ?cs))"
    and get: "bt_get channels c = (if c \<in> snd ` set (entries ?cs) \<and> ?open c
       then Some (push_event event (the (bt_get (hwd_channels w) c))) else bt_get (hwd_channels w) c)" for c
    using deliver_exact [OF hub_ok_distinct [OF ok] stored, of event "hwd_channels w"] run by (metis prod.inject)+
  show "hub_queued_messages st = hub_queued_messages (hwd_state w)" by (simp add: st)
  show "bt_get (hub_connections st) user = None" if "delivered = 0"
    using that n by (simp add: st bt_eq_iff)
  have "hub_ok ttl (w\<lparr>hwd_state := st\<rparr>)" unfolding st
  proof (rule hub_ok_shrink [OF ok])
    show "bt_filter (\<lambda>_. ?open) ?cs = bt_empty" if "bt_get (hub_connections (hwd_state w)) user = None"
      using that by (intro bt_eqI) (simp add: connections_of_def)
  qed (auto split: option.splits if_splits)
  then have "hub_ok ttl (w\<lparr>hwd_state := st\<rparr>\<lparr>hwd_channels := channels\<rparr>)"
    by (rule hub_ok_channels_only) (auto simp: get channel_open_def split: option.splits)
  then show "hub_ok ttl (w\<lparr>hwd_state := st, hwd_channels := channels\<rparr>)" by simp
qed

lemma queue_message_simps [simp]:
  "hub_connections (queue_message user event t st) = hub_connections st"
  "connections_of (queue_message user event t st) = connections_of st"
  "bt_get (hub_queued_messages (queue_message user event t st)) u
     = (if u = user then Some (queue_of st user @ [\<lparr>qmg_event = event, qmg_expires_at = t\<rparr>]) else bt_get (hub_queued_messages st) u)"
  by (auto simp: queue_message_def connections_of_def queue_of_def fun_eq_iff)

lemma queue_message_ok:
  assumes "hub_ok ttl w" and "bt_get (hub_connections (hwd_state w)) user = None"
  shows "hub_ok ttl (w\<lparr>hwd_state := queue_message user event (hwd_now w + ttl) (hwd_state w)\<rparr>)"
proof -
  have "queues_ok ttl (w\<lparr>hwd_state := queue_message user event (hwd_now w + ttl) (hwd_state w)\<rparr>)"
    using assms by (auto simp: hub_ok_def queues_ok_def queue_of_def sorted_append split: option.splits)
  then show ?thesis using assms by (simp add: hub_ok_def connections_ok_def channels_ok_def)
qed

lemma hub_send_ok:
  assumes ok: "hub_ok ttl w" and run: "hub_send ttl user event w = (answer, w')"
  shows "hub_ok ttl w'"
proof (cases "hwd_poisoned w")
  case False
  let ?pruned = "snd (prune_expired_messages (hwd_now w) (hwd_state w))"
  obtain delivered st channels where d:
    "deliver_to_active_connections user event ?pruned (hwd_channels w) = (delivered, st, channels)"
    by (metis prod_cases3)
  let ?w = "w\<lparr>hwd_state := st, hwd_channels := channels\<rparr>"
  note pruned = hub_ok_prune [OF ok, of "hwd_now w"]
  have w: "hub_ok ttl ?w" and off: "delivered = 0 \<Longrightarrow> bt_get (hub_connections st) user = None"
    using deliver_ok [OF pruned, of user event delivered st channels] d by simp_all
  have poison: "hub_ok ttl (?w\<lparr>hwd_poisoned := True\<rparr>)"
    using w by (simp add: hub_ok_def queues_ok_def connections_ok_def channels_ok_def)
  show ?thesis
    using run False w off poison queue_message_ok [OF w, of user event]
    by (auto simp: hub_send_def Let_def d instant_add_def case_prod_unfold split: if_splits)
qed (use assms in \<open>auto simp: hub_send_def\<close>)

lemma hub_register_ok:
  assumes ok: "hub_ok ttl w" and run: "hub_register user connection w = (answer, w')"
  shows "hub_ok ttl w'"
proof (cases "hwd_poisoned w")
  case False
  let ?c = "bt_len (hwd_channels w)" and ?st = "snd (prune_expired_messages (hwd_now w) (hwd_state w))"
  let ?mine = "bt_insert connection ?c (connections_of (hwd_state w) user)"
  have p: "queues_ok ttl (w\<lparr>hwd_state := ?st\<rparr>)" "connections_ok w" "channels_ok w"
    using hub_ok_prune [OF ok, of "hwd_now w"] ok by (simp_all add: hub_ok_def)
  have free: "bt_get (hwd_channels w) ?c = None" using p(3) by (auto simp: channels_ok_def)
  have new: "?mine \<noteq> bt_empty"
    using bt_get_insert [of connection ?c "connections_of (hwd_state w) user" connection] by (metis bt_get_empty option.distinct(1))
  have conns: "bt_get (hub_connections (hwd_state w')) u = (if u = user then Some ?mine else bt_get (hub_connections (hwd_state w)) u)"
    and conn_of: "connections_of (hwd_state w') u = (if u = user then ?mine else connections_of (hwd_state w) u)"
    and queued: "bt_get (hub_queued_messages (hwd_state w')) u = (if u = user then None else bt_get (hub_queued_messages ?st) u)"
    and chans: "hwd_channels w' = bt_insert ?c \<lparr>chn_open = True, chn_received = [], chn_waiting = []\<rparr> (hwd_channels w)"
    and reps: "bt_get (hwd_replays w') c \<noteq> None \<longleftrightarrow> c = ?c \<or> bt_get (hwd_replays w) c \<noteq> None"
    and now: "hwd_now w' = hwd_now w" for u c
    using run False
    by (auto simp: hub_register_def Let_def case_prod_unfold take_queued_messages_def connections_of_def split: option.splits if_splits)
  have len: "bt_len (hwd_channels w') = Suc ?c" unfolding chans by (rule len_insert_fresh [OF free])
  have "queues_ok ttl w'" using p(1) by (simp add: queues_ok_def queued conns now)
  moreover have "connections_ok w'"
    unfolding connections_ok_def
  proof (intro conjI allI impI)
    show "bt_get (hub_connections (hwd_state w')) u \<noteq> Some bt_empty" for u
      using p(2) new by (simp add: conns connections_ok_def)
    have small: "bt_get (connections_of (hwd_state w) u) k = Some c \<Longrightarrow> c < ?c" for u k c
      by (rule connections_okD(1) [OF p(2)])
    show "c < bt_len (hwd_channels w')" if "bt_get (connections_of (hwd_state w') u) k = Some c" for u k c
      using that small unfolding len by (auto simp: conn_of less_Suc_eq split: if_splits)
    show "u = u'" if "bt_get (connections_of (hwd_state w') u) k = Some c"
      "bt_get (connections_of (hwd_state w') u') k' = Some c" for u k u' k' c
      using that small connections_okD(2) [OF p(2)] by (auto simp: conn_of split: if_splits)
    show "k = k'" if "bt_get (connections_of (hwd_state w') u) k = Some c"
      "bt_get (connections_of (hwd_state w') u') k' = Some c" for u k u' k' c
      using that small connections_okD(2) [OF p(2)] by (auto simp: conn_of split: if_splits)
  qed
  moreover have "channels_ok w'"
  proof -
    have "channel_open (hwd_channels w') c" if "bt_get (hwd_replays w') c \<noteq> None" for c
      using that p(3) reps [of c] by (cases "c = ?c") (simp_all add: chans channel_open_def channels_ok_def)
    then show ?thesis using p(3) free unfolding channels_ok_def len by (auto simp: chans less_Suc_eq)
  qed
  ultimately show ?thesis by (simp add: hub_ok_def)
qed (use assms in \<open>auto simp: hub_register_def\<close>)

lemma hub_disconnect_ok:
  assumes ok: "hub_ok ttl w"
  shows "hub_ok ttl (hub_disconnect user connection w)"
proof (cases "hwd_poisoned w \<or> bt_get (hub_connections (hwd_state w)) user = None")
  case True
  then show ?thesis using ok hub_ok_prune [OF ok, of "hwd_now w"]
    by (auto simp: hub_disconnect_def Let_def case_prod_unfold)
next
  case False
  let ?w = "w\<lparr>hwd_state := snd (prune_expired_messages (hwd_now w) (hwd_state w))\<rparr>"
  let ?cs = "bt_remove connection (connections_of (hwd_state w) user)"
  have "hub_ok ttl (?w\<lparr>hwd_state := store_connections user ?cs (hwd_state ?w)\<rparr>)"
    by (rule hub_ok_shrink [OF hub_ok_prune [OF ok]]) (use False in \<open>auto split: if_splits\<close>)
  moreover have "hub_disconnect user connection w = ?w\<lparr>hwd_state := store_connections user ?cs (hwd_state ?w)\<rparr>"
    using False by (auto simp: hub_disconnect_def Let_def case_prod_unfold store_connections_def connections_of_def)
  ultimately show ?thesis by simp
qed

lemma hub_cleanup_ok: "hub_ok ttl w \<Longrightarrow> hub_ok ttl (hub_cleanup w)"
  by (simp add: hub_cleanup_def hub_ok_prune)

lemma hub_replay_ok:
  assumes ok: "hub_ok ttl w"
  shows "hub_ok ttl (hub_replay c w)"
proof -
  let ?ch = "\<lambda>m. bt_insert c (push_event m (the (bt_get (hwd_channels w) c))) (hwd_channels w)"
  have "hub_ok ttl (w\<lparr>hwd_channels := hwd_channels w, hwd_replays := bt_remove c (hwd_replays w)\<rparr>)"
    by (rule hub_ok_channels [OF ok]) (auto split: if_splits)
  moreover have "hub_ok ttl (w\<lparr>hwd_channels := hwd_channels w, hwd_replays := bt_insert c [] (hwd_replays w)\<rparr>)"
    if "bt_get (hwd_replays w) c \<noteq> None"
    by (rule hub_ok_channels [OF ok]) (use that in \<open>auto split: if_splits\<close>)
  moreover have "hub_ok ttl (w\<lparr>hwd_channels := ?ch m, hwd_replays := bt_insert c ms (hwd_replays w)\<rparr>)"
    if "bt_get (hwd_replays w) c \<noteq> None" "channel_open (hwd_channels w) c" for m ms
    by (rule hub_ok_channels [OF ok]) (use that in \<open>auto simp: channel_open_def split: if_splits option.splits\<close>)
  ultimately show ?thesis using ok
    by (auto simp: hub_replay_def channel_send_eq split: option.splits list.splits if_splits)
qed

lemma hub_receive_ok:
  assumes ok: "hub_ok ttl w"
  shows "hub_ok ttl (hub_receive c w)"
proof -
  have "hub_ok ttl (w\<lparr>hwd_channels := bt_insert c (ch\<lparr>chn_received := r, chn_waiting := ms\<rparr>) (hwd_channels w)\<rparr>)"
    if "bt_get (hwd_channels w) c = Some ch" for ch r ms
    by (rule hub_ok_channels_only [OF ok]) (use that in \<open>auto simp: channel_open_def split: if_splits option.splits\<close>)
  then show ?thesis using ok by (auto simp: hub_receive_def split: option.splits list.splits)
qed

lemma hub_drop_ok:
  assumes ok: "hub_ok ttl w" and free: "bt_get (hwd_replays w) c = None"
  shows "hub_ok ttl (hub_drop_receiver c w)"
proof -
  have "hub_ok ttl (w\<lparr>hwd_channels := bt_insert c (ch\<lparr>chn_open := False\<rparr>) (hwd_channels w)\<rparr>)"
    if "bt_get (hwd_channels w) c = Some ch" for ch
    by (rule hub_ok_channels_only [OF ok]) (use that free in \<open>auto simp: channel_open_def split: if_splits option.splits\<close>)
  then show ?thesis using ok by (auto simp: hub_drop_receiver_def split: option.splits)
qed

lemma hub_step_ok:
  assumes "hub_step ttl w action w'" and "hub_ok ttl w"
  shows "hub_ok ttl w'"
  using assms
proof cases
  case (step_advance d)
  then show ?thesis using assms(2)
    by (fastforce simp: hub_ok_def queues_ok_def connections_ok_def channels_ok_def)
qed (use assms(2) in \<open>auto intro: hub_register_ok hub_send_ok hub_replay_ok hub_disconnect_ok hub_cleanup_ok hub_receive_ok hub_drop_ok\<close>)

lemma hub_run_ok: "hub_run ttl w actions w' \<Longrightarrow> hub_ok ttl w \<Longrightarrow> hub_ok ttl w'"
  by (induction rule: hub_run.induct) (auto dest: hub_step_ok)

section \<open>What waits for a user\<close>

definition waiting_for :: "'e hub_world \<Rightarrow> uuid \<Rightarrow> 'e queued_message list" where
  "waiting_for w user = filter (\<lambda>m. qmg_expires_at m > hwd_now w) (queue_of (hwd_state w) user)"

lemma queue_of_queue_message [simp]:
  "queue_of (queue_message user event t st) u
     = queue_of st u @ (if u = user then [\<lparr>qmg_event = event, qmg_expires_at = t\<rparr>] else [])"
  by (auto simp: queue_of_def [of "queue_message user event t st"] split: option.splits)
    (auto simp: queue_of_def)

lemma queue_of_store_connections [simp]: "queue_of (store_connections user cs st) u = queue_of st u"
  by (simp add: queue_of_def)

lemma filter_later: "now \<le> now' \<Longrightarrow>
    filter (\<lambda>m. qmg_expires_at m > now') (filter (\<lambda>m. qmg_expires_at m > now) ms) = filter (\<lambda>m. qmg_expires_at m > now') ms"
  by (induction ms) auto

text \<open>The delivery of \<open>send\<close>, which only the first of its two cases lets into the queue.\<close>

lemma hub_send_cases:
  assumes ok: "hub_ok ttl w" and run: "hub_send ttl user event w = (answer, w')" and calm: "\<not> hwd_poisoned w"
  obtains st channels delivered where
    "delivered = length (filter (\<lambda>(_, c). channel_open (hwd_channels w) c) (entries (connections_of (hwd_state w) user)))"
    and "st = store_connections user (bt_filter (\<lambda>_. channel_open (hwd_channels w)) (connections_of (hwd_state w) user))
        (snd (prune_expired_messages (hwd_now w) (hwd_state w)))"
    and "\<And>c. bt_get channels c = (if c \<in> snd ` set (entries (connections_of (hwd_state w) user)) \<and> channel_open (hwd_channels w) c
       then Some (push_event event (the (bt_get (hwd_channels w) c))) else bt_get (hwd_channels w) c)"
    and "hwd_channels w' = channels" and "hwd_now w' = hwd_now w" and "hwd_replays w' = hwd_replays w"
    and "(answer, hwd_state w') = (if delivered > 0 then (Ok \<lparr>mdl_delivered_connections = delivered, mdl_queued_messages = 0\<rparr>, st)
       else case instant_add (hwd_now w) ttl of None \<Rightarrow> (Panic, st)
         | Some t \<Rightarrow> (Ok \<lparr>mdl_delivered_connections = 0, mdl_queued_messages = 1\<rparr>, queue_message user event t st))"
    and "hwd_poisoned w' \<longleftrightarrow> answer = Panic"
proof -
  let ?pruned = "snd (prune_expired_messages (hwd_now w) (hwd_state w))"
  have pruned: "hub_ok ttl (w\<lparr>hwd_state := ?pruned\<rparr>)" by (rule hub_ok_prune [OF ok])
  have "bt_get (hub_connections ?pruned) user \<noteq> Some bt_empty"
    using ok by (simp add: hub_ok_def connections_ok_def)
  then obtain channels where d: "deliver_to_active_connections user event ?pruned (hwd_channels w)
      = (length (filter (\<lambda>(_, c). channel_open (hwd_channels w) c) (entries (connections_of (hwd_state w) user))),
         store_connections user (bt_filter (\<lambda>_. channel_open (hwd_channels w)) (connections_of (hwd_state w) user)) ?pruned, channels)"
    and get: "\<And>c. bt_get channels c = (if c \<in> snd ` set (entries (connections_of (hwd_state w) user)) \<and> channel_open (hwd_channels w) c
       then Some (push_event event (the (bt_get (hwd_channels w) c))) else bt_get (hwd_channels w) c)"
    using deliver_exact [of ?pruned user event "hwd_channels w"] hub_ok_distinct [OF pruned, of user] by auto
  show ?thesis
    by (rule that [OF refl refl get])
      (use run calm in \<open>auto simp: hub_send_def Let_def case_prod_unfold d split: option.splits if_splits\<close>)
qed

lemma waiting_for_step:
  assumes step: "hub_step ttl w action w'" and ok: "hub_ok ttl w" and other: "\<And>k. action \<noteq> Register user k"
  shows "hwd_now w \<le> hwd_now w' \<and> (\<exists>new. waiting_for w' user = filter (\<lambda>m. qmg_expires_at m > hwd_now w') (waiting_for w user) @ new)"
  using step
proof cases
  case (step_register u k answer)
  then have "u \<noteq> user" using other by auto
  moreover have "hwd_now w' = hwd_now w" "u \<noteq> user \<Longrightarrow> waiting_for w' user = waiting_for w user"
    using step_register(2)
    by (auto simp: hub_register_def Let_def case_prod_unfold take_queued_messages_def waiting_for_def queue_of_def prune_get
        split: if_splits option.splits)
  ultimately show ?thesis by (simp add: waiting_for_def)
next
  case (step_send u event answer)
  show ?thesis
  proof (cases "hwd_poisoned w")
    case True
    then show ?thesis using step_send by (simp add: hub_send_def waiting_for_def)
  next
    case False
    show ?thesis
    proof (rule hub_send_cases [OF ok step_send(2) False])
      fix st :: "'a hub_state" and channels delivered
      assume st: "st = store_connections u (bt_filter (\<lambda>_. channel_open (hwd_channels w)) (connections_of (hwd_state w) u))
          (snd (prune_expired_messages (hwd_now w) (hwd_state w)))"
        and now: "hwd_now w' = hwd_now w"
        and answer: "(answer, hwd_state w') = (if delivered > 0 then (Ok \<lparr>mdl_delivered_connections = delivered, mdl_queued_messages = 0\<rparr>, st)
           else case instant_add (hwd_now w) ttl of None \<Rightarrow> (Panic, st)
             | Some t \<Rightarrow> (Ok \<lparr>mdl_delivered_connections = 0, mdl_queued_messages = 1\<rparr>, queue_message u event t st))"
      have "queue_of st user = waiting_for w user"
        by (simp add: st waiting_for_def)
      then show ?thesis using answer
        by (auto simp: waiting_for_def [of w'] now waiting_for_def [of w] split: if_splits option.splits)
    qed
  qed
next
  case (step_replay c)
  then have "hwd_now w' = hwd_now w" "hwd_state w' = hwd_state w"
    by (auto simp: hub_replay_def split: option.splits list.splits prod.splits bool.splits)
  then show ?thesis by (simp add: waiting_for_def)
next
  case (step_disconnect u k)
  then have "hwd_now w' = hwd_now w" "waiting_for w' user = waiting_for w user"
    by (auto simp: hub_disconnect_def Let_def case_prod_unfold waiting_for_def queue_of_def prune_get split: option.splits)
  then show ?thesis by (simp add: waiting_for_def)
next
  case step_cleanup
  then show ?thesis by (simp add: hub_cleanup_def waiting_for_def)
next
  case (step_receive c)
  then have "hwd_now w' = hwd_now w" "hwd_state w' = hwd_state w"
    by (auto simp: hub_receive_def split: option.splits list.splits)
  then show ?thesis by (simp add: waiting_for_def)
next
  case (step_drop c)
  then have "hwd_now w' = hwd_now w" "hwd_state w' = hwd_state w"
    by (auto simp: hub_drop_receiver_def split: option.splits)
  then show ?thesis by (simp add: waiting_for_def)
next
  case (step_advance d)
  then show ?thesis
    by (intro conjI exI [of _ "[]"]) (simp_all add: waiting_for_def filter_later del: filter_filter)
qed

lemma waiting_for_run:
  "hub_run ttl w actions w' \<Longrightarrow> hub_ok ttl w \<Longrightarrow> \<forall>action \<in> set actions. \<forall>k. action \<noteq> Register user k \<Longrightarrow>
     hwd_now w \<le> hwd_now w'
     \<and> (\<exists>new. waiting_for w' user = filter (\<lambda>m. qmg_expires_at m > hwd_now w') (waiting_for w user) @ new)"
proof (induction rule: hub_run.induct)
  case (run_nil w)
  then show ?case by (simp add: waiting_for_def)
next
  case (run_cons w action w' actions w'')
  obtain new where now: "hwd_now w \<le> hwd_now w'"
    and new: "waiting_for w' user = filter (\<lambda>m. qmg_expires_at m > hwd_now w') (waiting_for w user) @ new"
    using waiting_for_step [OF run_cons.hyps(1) run_cons.prems(1), of user] run_cons.prems(2) by auto
  obtain new' where now': "hwd_now w' \<le> hwd_now w''"
    and new': "waiting_for w'' user = filter (\<lambda>m. qmg_expires_at m > hwd_now w'') (waiting_for w' user) @ new'"
    using run_cons.IH hub_step_ok [OF run_cons.hyps(1) run_cons.prems(1)] run_cons.prems(2) by auto
  have "waiting_for w'' user = filter (\<lambda>m. qmg_expires_at m > hwd_now w'') (waiting_for w user)
      @ filter (\<lambda>m. qmg_expires_at m > hwd_now w'') new @ new'"
    by (simp add: new' new filter_later [OF now'] del: filter_filter)
  then show ?case using now now' by auto
qed

text \<open>The replay of a connection whose channel stays open hands over all of it.\<close>

lemma replay_all:
  assumes "bt_get (hwd_replays w) c = Some ms" and "bt_get (hwd_channels w) c = Some ch" and "chn_open ch"
  shows "bt_get (hwd_channels ((hub_replay c ^^ length ms) w)) c = Some (ch\<lparr>chn_waiting := chn_waiting ch @ ms\<rparr>)"
  using assms
proof (induction ms arbitrary: w ch)
  case (Cons m ms)
  let ?w = "hub_replay c w"
  have w: "bt_get (hwd_replays ?w) c = Some ms" "bt_get (hwd_channels ?w) c = Some (push_event m ch)"
    using Cons.prems by (simp_all add: hub_replay_def channel_send_eq channel_open_def)
  have "chn_open (push_event m ch)" using Cons.prems(3) by simp
  from Cons.IH [OF w this] show ?case by (simp add: funpow_swap1 push_event_def)
qed simp

section \<open>Properties\<close>

text \<open>
  C22. The hub's state stays coherent under any interleaving of its callers. Whatever sequence of connects,
  replays, disconnects, sends, cleanups, receives, drops and passing time leads to a state: the queue of a user
  is not empty, is ordered by expiry and expires within the time to live, nobody is connected and waits at once,
  no user keeps an empty map of connections, no two connections share a channel, and a channel that is being
  replayed to is open, so that the branch of \<open>connect\<close> in which a replay fails is never taken.
\<close>

theorem hub_invariant:
  assumes "hub_run ttl hub_new actions w"
  shows "hub_ok ttl w"
  by (rule hub_run_ok [OF assms hub_ok_new])

text \<open>
  C23. What \<open>send\<close> does, in full. In any reachable state whose lock is not poisoned, with \<open>live\<close> the channels of the
  user's connections whose receiver still exists: if there is any, each of them gets the event once, behind what
  already waits, no other channel changes and the answer counts them; if there is none, no channel changes and the
  event is queued, behind the messages of the user that have not expired, until the time to live has passed
  (a deadline that is no instant panics and queues nothing). Either way only the live connections remain
  registered, and for every other user connections and messages are what they were, the expired ones apart.
\<close>

theorem send_exact:
  fixes user :: uuid
  assumes "hub_run ttl hub_new actions w" and "\<not> hwd_poisoned w" and "hub_send ttl user event w = (answer, w')"
    and live: "live = filter (channel_open (hwd_channels w)) (bt_values (connections_of (hwd_state w) user))"
    and old: "old = filter (\<lambda>m. qmg_expires_at m > hwd_now w) (queue_of (hwd_state w) user)"
  shows "bt_get (hwd_channels w') c = (if c \<in> set live then Some (push_event event (the (bt_get (hwd_channels w) c)))
        else bt_get (hwd_channels w) c)
    \<and> (answer, queue_of (hwd_state w') user) =
       (if live \<noteq> [] then (Ok \<lparr>mdl_delivered_connections = length live, mdl_queued_messages = 0\<rparr>, old)
        else if hwd_now w + ttl < 2 ^ 63 * 1000000000 then (Ok \<lparr>mdl_delivered_connections = 0, mdl_queued_messages = 1\<rparr>,
            old @ [\<lparr>qmg_event = event, qmg_expires_at = hwd_now w + ttl\<rparr>])
        else (Panic, old))
    \<and> (live \<noteq> [] \<longrightarrow> old = [])
    \<and> connections_of (hwd_state w') u = (if u = user then bt_filter (\<lambda>_. channel_open (hwd_channels w)) (connections_of (hwd_state w) user)
        else connections_of (hwd_state w) u)
    \<and> (u \<noteq> user \<longrightarrow> queue_of (hwd_state w') u = filter (\<lambda>m. qmg_expires_at m > hwd_now w) (queue_of (hwd_state w) u))"
proof -
  have ok: "hub_ok ttl w" by (rule hub_run_ok [OF assms(1) hub_ok_new])
  let ?cs = "connections_of (hwd_state w) user" and ?open = "channel_open (hwd_channels w)"
  have members: "c \<in> set live \<longleftrightarrow> c \<in> snd ` set (entries ?cs) \<and> ?open c" for c
    by (auto simp: live bt_values_def)
  have len: "length live = length (filter (\<lambda>(_, c). ?open c) (entries ?cs))"
    by (simp add: live bt_values_def filter_map comp_def case_prod_unfold)
  have idle: "old = []" if "live \<noteq> []"
  proof -
    have "bt_get (hub_connections (hwd_state w)) user \<noteq> None"
      using that by (auto simp: live bt_values_def connections_of_def split: option.splits)
    then have "bt_get (hub_queued_messages (hwd_state w)) user = None"
      using ok by (cases "bt_get (hub_queued_messages (hwd_state w)) user") (auto simp: hub_ok_def queues_ok_def)
    then show ?thesis by (simp add: old queue_of_def)
  qed
  show ?thesis
  proof (rule hub_send_cases [OF ok assms(3,2)])
    fix st :: "'a hub_state" and channels delivered
    assume n: "delivered = length (filter (\<lambda>(_, c). ?open c) (entries ?cs))"
      and st: "st = store_connections user (bt_filter (\<lambda>_. ?open) ?cs) (snd (prune_expired_messages (hwd_now w) (hwd_state w)))"
      and get: "\<And>c. bt_get channels c = (if c \<in> snd ` set (entries ?cs) \<and> ?open c
         then Some (push_event event (the (bt_get (hwd_channels w) c))) else bt_get (hwd_channels w) c)"
      and chans: "hwd_channels w' = channels"
      and answer: "(answer, hwd_state w') = (if delivered > 0 then (Ok \<lparr>mdl_delivered_connections = delivered, mdl_queued_messages = 0\<rparr>, st)
         else case instant_add (hwd_now w) ttl of None \<Rightarrow> (Panic, st)
           | Some t \<Rightarrow> (Ok \<lparr>mdl_delivered_connections = 0, mdl_queued_messages = 1\<rparr>, queue_message user event t st))"
    have q: "queue_of st v = filter (\<lambda>m. qmg_expires_at m > hwd_now w) (queue_of (hwd_state w) v)" for v
      by (simp add: st)
    have c: "connections_of st v = (if v = user then bt_filter (\<lambda>_. ?open) ?cs else connections_of (hwd_state w) v)" for v
      by (simp add: st)
    have state: "connections_of (hwd_state w') v = connections_of st v"
      "v \<noteq> user \<Longrightarrow> queue_of (hwd_state w') v = queue_of st v" for v
      using answer by (auto split: if_splits option.splits)
    have deli: "delivered = length live" by (simp add: len n)
    have "(answer, queue_of (hwd_state w') user) =
       (if live \<noteq> [] then (Ok \<lparr>mdl_delivered_connections = length live, mdl_queued_messages = 0\<rparr>, old)
        else if hwd_now w + ttl < 2 ^ 63 * 1000000000 then (Ok \<lparr>mdl_delivered_connections = 0, mdl_queued_messages = 1\<rparr>,
            old @ [\<lparr>qmg_event = event, qmg_expires_at = hwd_now w + ttl\<rparr>])
        else (Panic, old))"
      using answer by (auto simp: deli instant_add_def q old split: if_splits)
    then show ?thesis using idle state by (simp add: chans get members c q)
  qed
qed

text \<open>
  A queued message is not lost and is not handed out twice. If \<open>send\<close> answers that it queued a message, then
  whatever other steps follow, until the user connects and as long as less than the time to live has passed, the
  next \<open>connect\<close> of the user (if the lock was not poisoned in between) gets it, behind the messages that were
  queued before and still live; the queue is empty afterwards, so no other connection gets it; and the replay
  puts exactly these messages, in this order, into the new channel, which no one can close before.
\<close>

theorem queued_until_connected:
  assumes "hub_run ttl hub_new before w" and "hub_send ttl user event w = (Ok delivery, w1)"
    and "mdl_queued_messages delivery = 1"
    and "hub_run ttl w1 between w2" and "\<forall>action \<in> set between. \<forall>k. action \<noteq> Register user k"
    and "hwd_now w2 < hwd_now w1 + ttl" and "hub_register user connection w2 = (answer, w3)" and "\<not> hwd_poisoned w2"
  shows "\<exists>c later. let replayed = map qmg_event (filter (\<lambda>m. qmg_expires_at m > hwd_now w2) (queue_of (hwd_state w) user))
        @ event # later in
      answer = Ok (c, replayed) \<and> queue_of (hwd_state w3) user = []
      \<and> bt_get (hwd_replays w3) c = Some replayed \<and> channel_open (hwd_channels w3) c
      \<and> bt_get (hwd_channels ((hub_replay c ^^ length replayed) w3)) c
          = Some \<lparr>chn_open = True, chn_received = [], chn_waiting = replayed\<rparr>"
proof -
  let ?alive = "\<lambda>now. filter (\<lambda>m. qmg_expires_at m > now)" and ?m = "\<lparr>qmg_event = event, qmg_expires_at = hwd_now w + ttl\<rparr>"
  have ok: "hub_ok ttl w" by (rule hub_run_ok [OF assms(1) hub_ok_new])
  have calm: "\<not> hwd_poisoned w" using assms(2) by (auto simp: hub_send_def)
  have ok1: "hub_ok ttl w1" by (rule hub_send_ok [OF ok assms(2)])
  have sent: "queue_of (hwd_state w1) user = ?alive (hwd_now w) (queue_of (hwd_state w) user) @ [?m] \<and> hwd_now w1 = hwd_now w"
    by (rule hub_send_cases [OF ok assms(2) calm])
      (use assms(3) in \<open>auto simp: instant_add_def split: if_splits\<close>)
  obtain new where now: "hwd_now w \<le> hwd_now w2"
    and run: "waiting_for w2 user = ?alive (hwd_now w2) (waiting_for w1 user) @ new"
    using waiting_for_run [OF assms(4) ok1 assms(5)] sent by auto
  have waiting: "waiting_for w2 user = ?alive (hwd_now w2) (queue_of (hwd_state w) user) @ ?m # new"
    unfolding run using assms(6) sent now by (simp add: waiting_for_def filter_later del: filter_filter)
  let ?c = "bt_len (hwd_channels w2)" and ?replayed = "map qmg_event (waiting_for w2 user)"
  let ?ch = "\<lparr>chn_open = True, chn_received = [], chn_waiting = []\<rparr>"
  have taken: "take_queued_messages user st = (map qmg_event (queue_of st user),
      st\<lparr>hub_queued_messages := bt_remove user (hub_queued_messages st)\<rparr>)" for st :: "'a hub_state"
    by (auto simp: take_queued_messages_def queue_of_def intro!: hub_state.equality bt_eqI split: option.splits)
  have queue: "queue_of (st\<lparr>hub_connections := x\<rparr>) user = queue_of st user" for st :: "'a hub_state" and x
    by (simp add: queue_of_def)
  have answer: "answer = Ok (?c, ?replayed)" and gone: "queue_of (hwd_state w3) user = []"
    and replay: "bt_get (hwd_replays w3) ?c = Some ?replayed" and chan: "bt_get (hwd_channels w3) ?c = Some ?ch"
    using assms(7,8) by (auto simp: hub_register_def Let_def case_prod_unfold taken queue queue_of_def [of "_\<lparr>hub_queued_messages := _\<rparr>"] waiting_for_def)
  show ?thesis
    using answer gone replay chan replay_all [OF replay chan] waiting
    by (intro exI [of _ ?c] exI [of _ "map qmg_event new"]) (simp add: channel_open_def)
qed

section \<open>Witnesses\<close>

text \<open>A message to an absent user, another user's message, time, and then the connection.\<close>

definition hub_example :: "string hub_world" where
  "hub_example = snd (hub_send 100 1 ''a'' hub_new)"

definition hub_example_later :: "string hub_world" where
  "hub_example_later = snd (hub_send 100 2 ''b'' hub_example)\<lparr>hwd_now := 5\<rparr>"

lemma hub_send_fst_snd: "hub_step ttl w (SendTo user event) (snd (hub_send ttl user event w))"
  by (rule step_send) (rule prod.collapse [symmetric])

lemma hub_example_now [simp]: "hwd_now hub_example = 0"
  by (simp add: hub_example_def hub_send_def Let_def hub_new_def prune_expired_messages_def bt_of_list_def bt_extend_list_def
      deliver_to_active_connections_def instant_add_def)

lemma hub_example_run: "hub_run 100 hub_new [SendTo 1 ''a''] hub_example"
  unfolding hub_example_def by (rule run_cons [OF hub_send_fst_snd run_nil])

lemma hub_example_later_run: "hub_run 100 hub_example [SendTo 2 ''b'', Advance 5] hub_example_later"
proof -
  have "hwd_now (snd (hub_send 100 2 ''b'' hub_example)) = 0"
    by (simp add: hub_send_def Let_def case_prod_unfold instant_add_def)
  then have "hub_step 100 (snd (hub_send 100 2 ''b'' hub_example)) (Advance 5) hub_example_later"
    using step_advance [of 100 "snd (hub_send 100 2 ''b'' hub_example)" 5] by (simp add: hub_example_later_def)
  then show ?thesis by (rule run_cons [OF hub_send_fst_snd run_cons [OF _ run_nil]])
qed

lemma hub_example_sent: "hub_send 100 1 ''a'' hub_new = (Ok \<lparr>mdl_delivered_connections = 0, mdl_queued_messages = 1\<rparr>, hub_example)"
  unfolding hub_example_def
  by (rule prod_eqI) (simp_all add: hub_send_def Let_def hub_new_def prune_expired_messages_def bt_of_list_def bt_extend_list_def
      deliver_to_active_connections_def instant_add_def)

lemma hub_invariant_witness: "hub_ok 100 hub_example"
  by (rule hub_invariant [OF hub_example_run])

lemma send_exact_witness:
  "queue_of (hwd_state hub_example) 1 = [\<lparr>qmg_event = ''a'', qmg_expires_at = 100\<rparr>]"
proof -
  have "\<not> hwd_poisoned (hub_new :: string hub_world)" by (simp add: hub_new_def)
  from send_exact [OF run_nil this hub_example_sent refl refl] show ?thesis
    by (simp add: hub_new_def connections_of_def bt_values_def queue_of_def)
qed

lemma queued_until_connected_witness:
  "\<exists>c later. fst (hub_register 1 9 hub_example_later) = Ok (c, ''a'' # later)"
proof -
  have calm: "\<not> hwd_poisoned hub_example_later"
    by code_simp
  have "\<forall>action \<in> set [SendTo 2 ''b'', Advance 5]. \<forall>k. action \<noteq> Register 1 k" by simp
  from queued_until_connected [OF run_nil hub_example_sent _ hub_example_later_run this _ prod.collapse [symmetric] calm]
  show ?thesis by (fastforce simp: hub_example_later_def hub_new_def queue_of_def Let_def)
qed

text \<open>
  \<open>connect\<close> registers the connection and takes the queued messages under the lock, but replays them after it
  has released the lock. A message sent in between reaches the connection before the older, queued one.
\<close>

theorem connect_can_reorder:
  "\<exists>w. hub_run 100 hub_new [SendTo 1 ''first'', Register 1 9, SendTo 1 ''second'', ReplayNext 0] w
     \<and> map_option chn_waiting (bt_get (hwd_channels w) 0) = Some [''second'', ''first'']"
proof -
  let ?w1 = "snd (hub_send 100 1 ''first'' (hub_new :: string hub_world))"
  let ?w2 = "snd (hub_register 1 9 ?w1)"
  let ?w3 = "snd (hub_send 100 1 ''second'' ?w2)"
  have "\<not> Option.is_none (bt_get (hwd_replays ?w3) 0)" by code_simp
  then have "bt_get (hwd_replays ?w3) 0 \<noteq> None" by (simp add: Option.is_none_def)
  then have "hub_run 100 hub_new [SendTo 1 ''first'', Register 1 9, SendTo 1 ''second'', ReplayNext 0] (hub_replay 0 ?w3)"
    by (rule run_cons [OF hub_send_fst_snd run_cons [OF step_register [OF prod.collapse [symmetric]]
          run_cons [OF hub_send_fst_snd run_cons [OF step_replay run_nil]]]])
  moreover have "map_option chn_waiting (bt_get (hwd_channels (hub_replay 0 ?w3)) 0) = Some [''second'', ''first'']"
    by code_simp
  ultimately show ?thesis by blast
qed

end
