(* ===== verification/Topics.thy ===== *)
theory Topics
  imports Rest
begin

text \<open>
  The topics of the gateway (\<open>crates/evobase-gateway/src/topic_messaging.rs\<close> and
  \<open>handlers/topic_messaging.rs\<close>). A topic without subscribers keeps its latest messages for the next one;
  subscribers read a broadcast channel of \<open>tokio\<close>, which keeps the latest messages that a receiver has not read.
\<close>

section \<open>Data\<close>

definition TOPIC_CHANNEL_CAPACITY :: nat where "TOPIC_CHANNEL_CAPACITY = 256"
definition TOPIC_QUEUE_CAPACITY :: nat where "TOPIC_QUEUE_CAPACITY = 200"

record 'p topic_message =
  tms_event :: string
  tms_payload :: 'p

text \<open>
  The receivers of the channel with what each can still read; what it missed is gone, its next read is
  \<open>Lagged\<close> and is skipped. Receivers are named by the order of their creation.
\<close>

record 'm topic_state =
  tps_receivers :: "(nat, 'm list) btree_map"
  tps_queued_messages :: "'m list"

text \<open>The hub, whether its lock is poisoned, and how many receivers there have been.\<close>

record 'm topic_hub =
  tph_topics :: "(string, 'm topic_state) btree_map"
  tph_poisoned :: bool
  tph_created :: nat

definition topic_hub_new :: "'m topic_hub" where
  "topic_hub_new = \<lparr>tph_topics = bt_empty, tph_poisoned = False, tph_created = 0\<rparr>"

definition topic_new :: "'m topic_state" where
  "topic_new = \<lparr>tps_receivers = bt_empty, tps_queued_messages = []\<rparr>"

definition topic_or_new :: "string \<Rightarrow> 'm topic_hub \<Rightarrow> 'm topic_state" where
  "topic_or_new topic h = (case bt_get (tph_topics h) topic of Some st \<Rightarrow> st | None \<Rightarrow> topic_new)"

section \<open>Operations\<close>

definition latest :: "nat \<Rightarrow> 'm list \<Rightarrow> 'm list" where
  "latest n ms = drop (length ms - n) ms"

text \<open>
  \<open>broadcast::Sender::send\<close> as documented: a channel retains as many messages as the capacity it was created
  with (256, a power of two, so it is not rounded up), and a receiver that falls further behind loses the oldest.
\<close>

definition broadcast :: "'m \<Rightarrow> (nat, 'm list) btree_map \<Rightarrow> (nat, 'm list) btree_map" where
  "broadcast m receivers = bt_of_list (map (\<lambda>(r, unread). (r, latest TOPIC_CHANNEL_CAPACITY (unread @ [m]))) (entries receivers))"

definition topic_publish :: "string \<Rightarrow> 'm \<Rightarrow> 'm topic_hub \<Rightarrow> (app_error, unit) outcome \<times> 'm topic_hub" where
  "topic_publish topic m h =
     (if tph_poisoned h then (Err (AppInternal ''topic messaging lock poisoned''), h)
      else
        let st = topic_or_new topic h;
            st = (if bt_len (tps_receivers st) = 0
                  then let queued = (if length (tps_queued_messages st) \<ge> TOPIC_QUEUE_CAPACITY
                                     then tl (tps_queued_messages st) else tps_queued_messages st)
                       in st\<lparr>tps_queued_messages := queued @ [m]\<rparr>
                  else st\<lparr>tps_receivers := broadcast m (tps_receivers st)\<rparr>)
        in (Ok (), h\<lparr>tph_topics := bt_insert topic st (tph_topics h)\<rparr>))"

definition topic_subscribe :: "string \<Rightarrow> 'm topic_hub \<Rightarrow> (app_error, nat \<times> 'm list) outcome \<times> 'm topic_hub" where
  "topic_subscribe topic h =
     (if tph_poisoned h then (Err (AppInternal ''topic messaging lock poisoned''), h)
      else
        let st = topic_or_new topic h; r = tph_created h in
        (Ok (r, tps_queued_messages st),
         h\<lparr>tph_topics := bt_insert topic \<lparr>tps_receivers = bt_insert r [] (tps_receivers st), tps_queued_messages = []\<rparr> (tph_topics h),
           tph_created := r + 1\<rparr>))"

text \<open>A subscriber reads the next message, or its stream is dropped, and its receiver with it.\<close>

definition topic_recv :: "string \<Rightarrow> nat \<Rightarrow> 'm topic_hub \<Rightarrow> 'm option \<times> 'm topic_hub" where
  "topic_recv topic r h =
     (case bt_get (tph_topics h) topic of
        None \<Rightarrow> (None, h)
      | Some st \<Rightarrow>
          (case bt_get (tps_receivers st) r of
             Some (m # ms) \<Rightarrow>
               (Some m, h\<lparr>tph_topics := bt_insert topic (st\<lparr>tps_receivers := bt_insert r ms (tps_receivers st)\<rparr>) (tph_topics h)\<rparr>)
           | _ \<Rightarrow> (None, h)))"

definition topic_unsubscribe :: "string \<Rightarrow> nat \<Rightarrow> 'm topic_hub \<Rightarrow> 'm topic_hub" where
  "topic_unsubscribe topic r h =
     (case bt_get (tph_topics h) topic of
        None \<Rightarrow> h
      | Some st \<Rightarrow> h\<lparr>tph_topics := bt_insert topic (st\<lparr>tps_receivers := bt_remove r (tps_receivers st)\<rparr>) (tph_topics h)\<rparr>)"

section \<open>Handlers\<close>

definition non_blank :: "string option \<Rightarrow> string option" where
  "non_blank v = (case map_option trim v of Some t \<Rightarrow> if t \<noteq> [] then Some t else None | None \<Rightarrow> None)"

definition resolve_topic :: "string option \<Rightarrow> string option \<Rightarrow> (app_error, string) outcome" where
  "resolve_topic topic to_user_id =
     (case non_blank to_user_id of
        Some to_user_id \<Rightarrow> Ok (''user:'' @ to_user_id)
      | None \<Rightarrow> ok_or (AppBadRequest ''topic is required when to_user_id is empty'') (non_blank topic))"

record 'p topic_publish_request =
  tpr_event :: string
  tpr_payload :: 'p
  tpr_topic :: "string option"
  tpr_to_user_id :: "string option"

definition publish_handler ::
  "'p topic_publish_request \<Rightarrow> 'p topic_message topic_hub \<Rightarrow> (app_error, unit) outcome \<times> 'p topic_message topic_hub" where
  "publish_handler request h =
     (let event = trim (tpr_event request) in
      if event = [] then (Err (AppBadRequest ''event is required''), h)
      else case resolve_topic (tpr_topic request) (tpr_to_user_id request) of
          Ok topic \<Rightarrow> topic_publish topic \<lparr>tms_event = event, tms_payload = tpr_payload request\<rparr> h
        | Err e \<Rightarrow> (Err e, h)
        | Panic \<Rightarrow> (Panic, h))"

text \<open>The answer is the stream's receiver and the messages it yields before it reads the channel.\<close>

definition subscribe_handler ::
  "string \<Rightarrow> 'p topic_message topic_hub \<Rightarrow> (app_error, nat \<times> 'p topic_message list) outcome \<times> 'p topic_message topic_hub" where
  "subscribe_handler query_topic h =
     (let topic = trim query_topic in
      if topic = [] then (Err (AppBadRequest ''topic is required''), h) else topic_subscribe topic h)"

section \<open>Steps\<close>

datatype 'm topic_action =
    Publish string 'm
  | Subscribe string
  | Recv string nat
  | Unsubscribe string nat

fun topic_do :: "'m topic_action \<Rightarrow> 'm topic_hub \<Rightarrow> 'm topic_hub" where
  "topic_do (Publish topic m) h = snd (topic_publish topic m h)"
| "topic_do (Subscribe topic) h = snd (topic_subscribe topic h)"
| "topic_do (Recv topic r) h = snd (topic_recv topic r h)"
| "topic_do (Unsubscribe topic r) h = topic_unsubscribe topic r h"

section \<open>Lemmas\<close>

lemma latest_length [simp]: "length (latest n ms) = min (length ms) n"
  by (simp add: latest_def)

lemma latest_latest: "latest n (latest n ms @ ks) = latest n (ms @ ks)"
proof (cases "length ms \<le> n")
  case False
  then have "latest n ms @ ks = drop (length ms - n) (ms @ ks)" by (simp add: latest_def)
  then show ?thesis using False by (simp add: latest_def add.commute)
qed (simp add: latest_def)

lemma bt_get_broadcast [simp]:
  "bt_get (broadcast m receivers) r = map_option (\<lambda>unread. latest TOPIC_CHANNEL_CAPACITY (unread @ [m])) (bt_get receivers r)"
proof -
  have "map fst (map (\<lambda>(r, unread). (r, latest TOPIC_CHANNEL_CAPACITY (unread @ [m]))) (entries receivers)) = map fst (entries receivers)"
    by (simp add: comp_def case_prod_unfold)
  then show ?thesis
    by (simp only: broadcast_def bt_get_of_list_distinct entries_distinct) (simp add: map_of_map bt_get_def)
qed

lemma bt_len_0_get: "bt_len m = 0 \<longleftrightarrow> (\<forall>k. bt_get m k = None)"
  by (auto simp: bt_len_def bt_get_def intro: ccontr) (metis list.set_intros(1) map_of_eq_None_iff neq_Nil_conv rev_image_eqI option.simps(3))

text \<open>
  What the hub keeps aside and what a receiver has not read is bounded, and a topic with subscribers keeps nothing
  aside. (What a subscriber is handed when it subscribes is its stream's from then on and not counted here.)
\<close>

definition topic_ok :: "nat \<Rightarrow> 'm topic_state \<Rightarrow> bool" where
  "topic_ok created st \<longleftrightarrow> length (tps_queued_messages st) \<le> TOPIC_QUEUE_CAPACITY
     \<and> (\<forall>r unread. bt_get (tps_receivers st) r = Some unread \<longrightarrow>
          length unread \<le> TOPIC_CHANNEL_CAPACITY \<and> r < created \<and> tps_queued_messages st = [])"

definition topics_ok :: "'m topic_hub \<Rightarrow> bool" where
  "topics_ok h \<longleftrightarrow> \<not> tph_poisoned h \<and> (\<forall>topic st. bt_get (tph_topics h) topic = Some st \<longrightarrow> topic_ok (tph_created h) st)"

lemma topics_okD: "topics_ok h \<Longrightarrow> topic_ok (tph_created h) (topic_or_new topic h)"
  by (cases "bt_get (tph_topics h) topic")
    (simp_all add: topics_ok_def topic_or_new_def topic_new_def topic_ok_def)

lemma topics_ok_insert:
  assumes "topics_ok h" and "topic_ok n st" and "tph_created h \<le> n"
  shows "topics_ok (h\<lparr>tph_topics := bt_insert topic st (tph_topics h), tph_created := n\<rparr>)"
  using assms by (fastforce simp: topics_ok_def topic_ok_def)

lemma topics_ok_insert_same:
  "topics_ok h \<Longrightarrow> topic_ok (tph_created h) st \<Longrightarrow> topics_ok (h\<lparr>tph_topics := bt_insert topic st (tph_topics h)\<rparr>)"
  using topics_ok_insert [of h "tph_created h" st topic] by simp

lemma topic_do_ok: "topics_ok h \<Longrightarrow> topics_ok (topic_do action h)"
proof (induction action)
  case (Publish topic m)
  have "\<not> tph_poisoned h" using Publish by (simp add: topics_ok_def)
  then show ?case using Publish topics_okD [OF Publish, of topic]
    by (auto simp: topic_publish_def Let_def topic_ok_def bt_len_0_get TOPIC_QUEUE_CAPACITY_def
        intro!: topics_ok_insert_same)
next
  case (Subscribe topic)
  have "\<not> tph_poisoned h" using Subscribe by (simp add: topics_ok_def)
  then show ?case using Subscribe topics_okD [OF Subscribe, of topic]
    by (fastforce simp: topic_subscribe_def Let_def topic_ok_def intro!: topics_ok_insert split: if_splits)
next
  case (Recv topic r)
  then show ?case using topics_okD [OF Recv, of topic]
    by (fastforce simp: topic_recv_def topic_ok_def topic_or_new_def intro!: topics_ok_insert_same
        split: option.splits list.splits if_splits)
next
  case (Unsubscribe topic r)
  then show ?case using topics_okD [OF Unsubscribe, of topic]
    by (fastforce simp: topic_unsubscribe_def topic_ok_def topic_or_new_def intro!: topics_ok_insert_same
        split: option.splits if_splits)
qed

lemma topics_run_ok: "topics_ok h \<Longrightarrow> topics_ok (fold topic_do actions h)"
  by (induction actions arbitrary: h) (simp_all add: topic_do_ok)

lemma topic_hub_new_ok: "topics_ok topic_hub_new"
  by (simp add: topics_ok_def topic_hub_new_def)

text \<open>What a receiver can still read, and what was published on a topic.\<close>

definition unread :: "string \<Rightarrow> nat \<Rightarrow> 'm topic_hub \<Rightarrow> 'm list option" where
  "unread topic r h = bt_get (tps_receivers (topic_or_new topic h)) r"

fun published :: "string \<Rightarrow> 'm topic_action list \<Rightarrow> 'm list" where
  "published topic [] = []"
| "published topic (Publish t m # actions) = (if t = topic then m # published topic actions else published topic actions)"
| "published topic (_ # actions) = published topic actions"

fun reads :: "string \<Rightarrow> nat \<Rightarrow> 'm topic_action \<Rightarrow> bool" where
  "reads topic r (Recv t r') = (t = topic \<and> r' = r)"
| "reads topic r (Unsubscribe t r') = (t = topic \<and> r' = r)"
| "reads topic r _ = False"

lemma topic_or_new_insert [simp]:
  "topic_or_new t (h\<lparr>tph_topics := bt_insert topic st (tph_topics h)\<rparr>) = (if t = topic then st else topic_or_new t h)"
  by (simp add: topic_or_new_def)

lemma topic_or_new_created [simp]: "topic_or_new t (h\<lparr>tph_created := n\<rparr>) = topic_or_new t h"
  by (simp add: topic_or_new_def)

lemma unread_do:
  assumes ok: "topics_ok h" and u: "unread topic r h = Some u" and idle: "\<not> reads topic r action"
  shows "unread topic r (topic_do action h) = Some (latest TOPIC_CHANNEL_CAPACITY (u @ published topic [action]))"
proof -
  have calm: "\<not> tph_poisoned h" using ok by (simp add: topics_ok_def)
  have old: "r < tph_created h" and short: "latest TOPIC_CHANNEL_CAPACITY u = u"
    using topics_okD [OF ok, of topic] u by (auto simp: unread_def topic_ok_def latest_def)
  have ne: "bt_len (tps_receivers (topic_or_new topic h)) \<noteq> 0"
    using u by (auto simp: unread_def bt_len_0_get)
  show ?thesis
  proof (cases action)
    case (Publish t m)
    then show ?thesis using u calm ne short by (auto simp: unread_def topic_publish_def Let_def)
  next
    case (Subscribe t)
    have "topic_or_new topic (h\<lparr>tph_topics := bt_insert t st (tph_topics h), tph_created := n\<rparr>)
        = (if topic = t then st else topic_or_new topic h)" for st n
      by (simp add: topic_or_new_def)
    then show ?thesis using Subscribe u calm old short by (auto simp: unread_def topic_subscribe_def Let_def)
  next
    case (Recv t r')
    then show ?thesis using u idle short
      by (auto simp: unread_def topic_recv_def topic_or_new_def [of t] split: option.splits list.splits)
  next
    case (Unsubscribe t r')
    then show ?thesis using u idle short
      by (auto simp: unread_def topic_unsubscribe_def topic_or_new_def [of t] split: option.splits)
  qed
qed

lemma published_Cons: "published topic (action # actions) = published topic [action] @ published topic actions"
  by (cases action) simp_all

lemma unread_run:
  "topics_ok h \<Longrightarrow> unread topic r h = Some u \<Longrightarrow> list_all (\<lambda>action. \<not> reads topic r action) actions \<Longrightarrow>
     unread topic r (fold topic_do actions h) = Some (latest TOPIC_CHANNEL_CAPACITY (u @ published topic actions))"
proof (induction actions arbitrary: h u)
  case Nil
  then show ?case using topics_okD [OF Nil(1), of topic] by (auto simp: unread_def topic_ok_def latest_def)
next
  case (Cons action actions)
  have idle: "\<not> reads topic r action" and rest: "list_all (\<lambda>action. \<not> reads topic r action) actions"
    using Cons.prems(3) by simp_all
  show ?case
    using Cons.IH [OF topic_do_ok [OF Cons.prems(1)] unread_do [OF Cons.prems(1,2) idle] rest]
    by (simp add: latest_latest published_Cons [of topic action actions])
qed

text \<open>The queue of a topic that nobody reads.\<close>

lemma queue_step: "length qs \<le> n \<Longrightarrow> 0 < n \<Longrightarrow> (if length qs \<ge> n then tl qs else qs) @ [m] = latest n (qs @ [m])"
  by (cases qs) (auto simp: latest_def)

lemma queue_do:
  assumes ok: "topics_ok h" and empty: "\<And>r. bt_get (tps_receivers (topic_or_new topic h)) r = None" and other: "action \<noteq> Subscribe topic"
  shows "bt_get (tps_receivers (topic_or_new topic (topic_do action h))) r = None
    \<and> tps_queued_messages (topic_or_new topic (topic_do action h))
        = latest TOPIC_QUEUE_CAPACITY (tps_queued_messages (topic_or_new topic h) @ published topic [action])"
proof -
  have calm: "\<not> tph_poisoned h" using ok by (simp add: topics_ok_def)
  have short: "length (tps_queued_messages (topic_or_new topic h)) \<le> TOPIC_QUEUE_CAPACITY"
    using topics_okD [OF ok, of topic] by (simp add: topic_ok_def)
  then have same: "latest TOPIC_QUEUE_CAPACITY (tps_queued_messages (topic_or_new topic h)) = tps_queued_messages (topic_or_new topic h)"
    by (simp add: latest_def)
  have len: "bt_len (tps_receivers (topic_or_new topic h)) = 0" using empty by (simp add: bt_len_0_get)
  show ?thesis
  proof (cases action)
    case (Publish t m)
    have "0 < TOPIC_QUEUE_CAPACITY" by (simp add: TOPIC_QUEUE_CAPACITY_def)
    from queue_step [OF short this, of m] show ?thesis using Publish calm empty len same
      by (cases "t = topic") (auto simp: topic_publish_def Let_def)
  next
    case (Subscribe t)
    then have "t \<noteq> topic" using other by simp
    then have "topic_or_new topic (h\<lparr>tph_topics := bt_insert t st (tph_topics h), tph_created := n\<rparr>) = topic_or_new topic h" for st n
      by (simp add: topic_or_new_def)
    then show ?thesis using Subscribe calm empty same by (simp add: topic_subscribe_def Let_def)
  next
    case (Recv t r')
    then show ?thesis using empty same
      by (auto simp: topic_recv_def topic_or_new_def [of t] split: option.splits list.splits)
  next
    case (Unsubscribe t r')
    then show ?thesis using empty same
      by (auto simp: topic_unsubscribe_def topic_or_new_def [of t] split: option.splits)
  qed
qed

lemma queue_run:
  "topics_ok h \<Longrightarrow> (\<And>r. bt_get (tps_receivers (topic_or_new topic h)) r = None) \<Longrightarrow> Subscribe topic \<notin> set actions \<Longrightarrow>
     tps_queued_messages (topic_or_new topic (fold topic_do actions h))
       = latest TOPIC_QUEUE_CAPACITY (tps_queued_messages (topic_or_new topic h) @ published topic actions)"
proof (induction actions arbitrary: h)
  case Nil
  then show ?case using topics_okD [OF Nil(1), of topic] by (simp add: topic_ok_def latest_def)
next
  case (Cons action actions)
  have other: "action \<noteq> Subscribe topic" and rest: "Subscribe topic \<notin> set actions" using Cons.prems(3) by auto
  note step = queue_do [OF Cons.prems(1,2) other]
  have "tps_queued_messages (topic_or_new topic (fold topic_do actions (topic_do action h)))
      = latest TOPIC_QUEUE_CAPACITY (tps_queued_messages (topic_or_new topic (topic_do action h)) @ published topic actions)"
    using step by (intro Cons.IH topic_do_ok Cons.prems(1) rest) auto
  then show ?case using step by (simp add: latest_latest published_Cons [of topic action actions])
qed

section \<open>Properties\<close>

text \<open>
  C24. What a subscriber is given. If nobody has subscribed to a topic before, its first subscriber is handed the
  latest 200 of the messages that were published on it, in order, and no one is handed them again; and whatever
  happens then, to this topic or others, as long as the subscriber has not read its receiver and is not gone, what
  it can read there, beside the messages it was handed, is the latest 256 messages that were published on the
  topic since, in order. Other topics never interfere.
\<close>

theorem topic_delivery:
  assumes "Subscribe topic \<notin> set before" and "h = fold topic_do before topic_hub_new"
    and "list_all (\<lambda>action. \<not> reads topic (tph_created h) action) after"
  shows "fst (topic_subscribe topic h) = Ok (tph_created h, latest 200 (published topic before))
    \<and> tps_queued_messages (topic_or_new topic (topic_do (Subscribe topic) h)) = []
    \<and> unread topic (tph_created h) (fold topic_do after (topic_do (Subscribe topic) h))
      = Some (latest 256 (published topic after))"
proof -
  have ok: "topics_ok h" unfolding assms(2) by (rule topics_run_ok [OF topic_hub_new_ok])
  then have calm: "\<not> tph_poisoned h" by (simp add: topics_ok_def)
  have fresh: "topic_or_new topic (topic_hub_new :: 'a topic_hub) = topic_new"
    by (simp add: topic_or_new_def topic_hub_new_def)
  have "tps_queued_messages (topic_or_new topic h) = latest 200 (published topic before)"
    unfolding assms(2) using queue_run [OF topic_hub_new_ok _ assms(1)]
    by (simp add: fresh topic_new_def TOPIC_QUEUE_CAPACITY_def)
  then have answer: "fst (topic_subscribe topic h) = Ok (tph_created h, latest 200 (published topic before))"
    using calm by (simp add: topic_subscribe_def Let_def)
  have st: "topic_or_new topic (topic_do (Subscribe topic) h)
      = \<lparr>tps_receivers = bt_insert (tph_created h) [] (tps_receivers (topic_or_new topic h)), tps_queued_messages = []\<rparr>"
    using calm by (simp add: topic_subscribe_def Let_def topic_or_new_def)
  have "unread topic (tph_created h) (topic_do (Subscribe topic) h) = Some []" by (simp only: unread_def st) simp
  from unread_run [OF topic_do_ok [OF ok] this assms(3)]
  show ?thesis using answer by (simp add: TOPIC_CHANNEL_CAPACITY_def st del: topic_do.simps)
qed

lemma topic_delivery_witness:
  "fst (topic_subscribe ''t'' (topic_do (Publish ''t'' (7 :: nat)) topic_hub_new)) = Ok (0, [7])"
  using topic_delivery [of "''t''" "[Publish ''t'' (7 :: nat)]" _ "[Publish ''t'' 8]", OF _ refl]
  by (simp add: topic_publish_def Let_def topic_hub_new_def latest_def)

end
