(* ===== verification/Auth.thy ===== *)
theory Auth
  imports Rest
begin

text \<open>
  Accounts and tokens: the configuration a server reads from its environment (\<open>crates/evobase-core/src/config.rs\<close>),
  the service that registers users and issues tokens (\<open>crates/evobase-auth/src/service.rs\<close>), the table of users behind
  it, and the guards of the gateway's routes (\<open>crates/evobase-gateway/src/middleware.rs\<close> and \<open>routes.rs\<close>).
  Argon2, the JWT crate, the url crate and the Unicode tables of \<open>to_lowercase\<close> are parameters.
\<close>

section \<open>Configuration\<close>

record database_config =
  dcf_url :: string
  dcf_admin_url :: string
  dcf_default_id :: string
  dcf_default_postgres_database :: string

record token_config =
  tcf_access_secret :: string
  tcf_refresh_secret :: string
  tcf_notification_secret :: string
  tcf_access_ttl_secs :: u64
  tcf_refresh_ttl_secs :: u64
  tcf_notification_ttl_secs :: u64

record 'addr app_config =
  acf_server_addr :: 'addr
  acf_database :: database_config
  acf_tokens :: token_config
  acf_admin_token :: string

text \<open>\<open>std::env::var\<close>.\<close>

datatype env_var = NotPresent | NotUnicode | Present string

type_synonym environment = "string \<Rightarrow> env_var"

definition env_required :: "environment \<Rightarrow> string \<Rightarrow> (app_error, string) outcome" where
  "env_required env name =
     (case env name of Present v \<Rightarrow> Ok v | _ \<Rightarrow> Err (AppConfig (''missing required env var '' @ name)))"

definition env_optional :: "environment \<Rightarrow> string \<Rightarrow> (app_error, string option) outcome" where
  "env_optional env name =
     (case env name of
        Present v \<Rightarrow> Ok (Some v)
      | NotPresent \<Rightarrow> Ok None
      | NotUnicode \<Rightarrow> Err (AppConfig (''env var '' @ name @ '' is not valid unicode'')))"

text \<open>The parser returns the \<open>Display\<close> of its error.\<close>

definition env_optional_parse ::
  "(string \<Rightarrow> (string, 'a) outcome) \<Rightarrow> environment \<Rightarrow> string \<Rightarrow> (app_error, 'a option) outcome" where
  "env_optional_parse parse env name =
     (case env name of
        Present v \<Rightarrow> and_then (map_err (\<lambda>e. AppConfig (''invalid value for '' @ name @ '': '' @ e)) (parse v)) (\<lambda>x. Ok (Some x))
      | NotPresent \<Rightarrow> Ok None
      | NotUnicode \<Rightarrow> Err (AppConfig (''env var '' @ name @ '' is not valid unicode'')))"

definition parse_seconds :: "string \<Rightarrow> (string, u64) outcome" where
  "parse_seconds v = map_err (int_error_text v) (parse_u64 v)"

text \<open>\<open>Url::parse\<close> followed by \<open>path\<close> is a parameter; \<open>trim_start_matches\<close> drops the leading slashes.\<close>

definition extract_database_name :: "(string \<Rightarrow> (string, string) outcome) \<Rightarrow> string \<Rightarrow> (app_error, string) outcome" where
  "extract_database_name url_path database_url =
     and_then (map_err (\<lambda>e. AppConfig (''invalid DATABASE_URL: '' @ e)) (url_path database_url)) (\<lambda>path.
     let database_name = trim (dropWhile (\<lambda>c. c = CHR ''/'') path) in
     if database_name = [] then Err (AppConfig ''DATABASE_URL must include a PostgreSQL database name'') else Ok database_name)"

definition or_default :: "'a \<Rightarrow> ('e, 'a option) outcome \<Rightarrow> ('e, 'a) outcome" where
  "or_default d r = and_then r (\<lambda>x. Ok (case x of Some v \<Rightarrow> v | None \<Rightarrow> d))"

definition tokens_from_env :: "environment \<Rightarrow> (app_error, token_config) outcome" where
  "tokens_from_env env =
     and_then (env_required env ''ACCESS_TOKEN_SECRET'') (\<lambda>access_secret.
     and_then (env_required env ''REFRESH_TOKEN_SECRET'') (\<lambda>refresh_secret.
     and_then (env_required env ''NOTIFICATION_TOKEN_SECRET'') (\<lambda>notification_secret.
     and_then (or_default 900 (env_optional_parse parse_seconds env ''ACCESS_TOKEN_TTL_SECS'')) (\<lambda>access_ttl_secs.
     and_then (or_default (60 * 60 * 24 * 30) (env_optional_parse parse_seconds env ''REFRESH_TOKEN_TTL_SECS'')) (\<lambda>refresh_ttl_secs.
     and_then (or_default (60 * 60 * 24 * 30) (env_optional_parse parse_seconds env ''NOTIFICATION_TOKEN_TTL_SECS''))
       (\<lambda>notification_ttl_secs.
     Ok \<lparr>tcf_access_secret = access_secret, tcf_refresh_secret = refresh_secret,
         tcf_notification_secret = notification_secret, tcf_access_ttl_secs = access_ttl_secs,
         tcf_refresh_ttl_secs = refresh_ttl_secs, tcf_notification_ttl_secs = notification_ttl_secs\<rparr>))))))"

definition from_env_reader ::
  "(string \<Rightarrow> (string, string) outcome) \<Rightarrow> (string \<Rightarrow> (string, 'addr) outcome) \<Rightarrow> 'addr \<Rightarrow> environment
     \<Rightarrow> (app_error, 'addr app_config) outcome" where
  "from_env_reader url_path parse_addr default_addr env =
     and_then (env_required env ''DATABASE_URL'') (\<lambda>database_url.
     and_then (or_default default_addr (env_optional_parse parse_addr env ''SERVER_ADDR'')) (\<lambda>addr.
     and_then (or_default database_url (env_optional env ''DATABASE_ADMIN_URL'')) (\<lambda>admin_url.
     and_then (or_default ''default'' (env_optional env ''DATABASE_DEFAULT_ID'')) (\<lambda>default_id.
     and_then (extract_database_name url_path database_url) (\<lambda>default_postgres_database.
     and_then (tokens_from_env env) (\<lambda>tokens.
     and_then (env_required env ''ADMIN_TOKEN'') (\<lambda>admin_token.
     Ok \<lparr>acf_server_addr = addr,
         acf_database = \<lparr>dcf_url = database_url, dcf_admin_url = admin_url, dcf_default_id = default_id,
           dcf_default_postgres_database = default_postgres_database\<rparr>,
         acf_tokens = tokens, acf_admin_token = admin_token\<rparr>)))))))"

section \<open>Accounts\<close>

record user_record =
  usr_id :: "128 word"
  usr_username :: string
  usr_password_hash :: string

record credentials =
  crd_username :: string
  crd_password :: string

record token_claims =
  tcl_sub :: "128 word"
  tcl_exp :: u64

record token_bundle =
  tbn_access_token :: string
  tbn_refresh_token :: string
  tbn_notification_token :: string
  tbn_token_type :: string
  tbn_expires_in :: u64

record auth_response =
  ars_user_id :: "128 word"
  ars_username :: string
  ars_tokens :: token_bundle

text \<open>
  What the service uses of the crates: hashing with a salt, the comparison with a stored hash, and the encoding and
  decoding of claims under a secret. \<open>decode\<close> reads the clock; the clock is the seconds since the epoch, if it is not before.
  \<open>acr_header_str\<close> is \<open>HeaderValue::to_str\<close>, which reads some header values only.
\<close>

datatype hash_check = HashInvalid string | HashDiffers | HashMatches

record auth_crates =
  acr_lowercase :: "string \<Rightarrow> string"
  acr_hash :: "string \<Rightarrow> string \<Rightarrow> (string, string) outcome"
  acr_verify :: "string \<Rightarrow> string \<Rightarrow> hash_check"
  acr_encode :: "string \<Rightarrow> token_claims \<Rightarrow> (string, string) outcome"
  acr_decode :: "string \<Rightarrow> nat option \<Rightarrow> string \<Rightarrow> (string, token_claims) outcome"
  acr_header_str :: "string \<Rightarrow> string option"

text \<open>What it uses of the storage.\<close>

record 's user_store =
  ust_create_user :: "string \<Rightarrow> string \<Rightarrow> 's \<Rightarrow> (app_error, user_record) outcome \<times> 's"
  ust_find_user_by_username :: "string \<Rightarrow> 's \<Rightarrow> (app_error, user_record option) outcome"
  ust_find_user_by_id :: "128 word \<Rightarrow> 's \<Rightarrow> (app_error, user_record option) outcome"

definition validate_credentials :: "string \<Rightarrow> string \<Rightarrow> (app_error, unit) outcome" where
  "validate_credentials username password =
     (let username = trim username in
      if length username < 3 \<or> length username > 64
      then Err (AppBadRequest ''username must be between 3 and 64 characters'')
      else if \<not> list_all (\<lambda>ch. is_ascii_alphanumeric ch \<or> ch = CHR ''_'' \<or> ch = CHR ''-'') username
      then Err (AppBadRequest (''username may only contain letters, numbers, '' @ ticked ''_'' @ '', and '' @ ticked ''-''))
      else if length password < 8 then Err (AppBadRequest ''password must be at least 8 characters'')
      else Ok ())"

definition hash_password :: "auth_crates \<Rightarrow> string \<Rightarrow> string \<Rightarrow> (app_error, string) outcome" where
  "hash_password C salt password =
     map_err (\<lambda>e. AppInternal (''failed to hash password: '' @ e)) (acr_hash C salt password)"

definition verify_password :: "auth_crates \<Rightarrow> string \<Rightarrow> string \<Rightarrow> (app_error, unit) outcome" where
  "verify_password C password password_hash =
     (case acr_verify C password password_hash of
        HashInvalid e \<Rightarrow> Err (AppInternal (''stored password hash is invalid: '' @ e))
      | HashDiffers \<Rightarrow> Err AppUnauthorized
      | HashMatches \<Rightarrow> Ok ())"

definition saturating_add_u64 :: "nat \<Rightarrow> u64 \<Rightarrow> u64" where
  "saturating_add_u64 a b = word_of_nat (min (a + unat b) (2 ^ 64 - 1))"

definition issue_token :: "auth_crates \<Rightarrow> nat option \<Rightarrow> 128 word \<Rightarrow> u64 \<Rightarrow> string \<Rightarrow> (app_error, string) outcome" where
  "issue_token C clock user_id ttl_secs secret =
     (case clock of
        None \<Rightarrow> Err (AppInternal ''system clock error: second time provided was later than self'')
      | Some now \<Rightarrow> map_err (\<lambda>e. AppInternal (''failed to encode token: '' @ e))
          (acr_encode C secret \<lparr>tcl_sub = user_id, tcl_exp = saturating_add_u64 now ttl_secs\<rparr>))"

definition issue_bundle :: "auth_crates \<Rightarrow> token_config \<Rightarrow> nat option \<Rightarrow> 128 word \<Rightarrow> (app_error, token_bundle) outcome" where
  "issue_bundle C cfg clock user_id =
     and_then (issue_token C clock user_id (tcf_access_ttl_secs cfg) (tcf_access_secret cfg)) (\<lambda>access_token.
     and_then (issue_token C clock user_id (tcf_refresh_ttl_secs cfg) (tcf_refresh_secret cfg)) (\<lambda>refresh_token.
     and_then (issue_token C clock user_id (tcf_notification_ttl_secs cfg) (tcf_notification_secret cfg)) (\<lambda>notification_token.
     Ok \<lparr>tbn_access_token = access_token, tbn_refresh_token = refresh_token, tbn_notification_token = notification_token,
         tbn_token_type = ''Bearer'', tbn_expires_in = tcf_access_ttl_secs cfg\<rparr>)))"

definition decode_token :: "auth_crates \<Rightarrow> nat option \<Rightarrow> string \<Rightarrow> string \<Rightarrow> (app_error, 128 word) outcome" where
  "decode_token C clock token secret =
     and_then (map_err (\<lambda>_. AppUnauthorized) (acr_decode C secret clock token)) (\<lambda>claims. Ok (tcl_sub claims))"

definition build_auth_response ::
  "auth_crates \<Rightarrow> token_config \<Rightarrow> nat option \<Rightarrow> 128 word \<Rightarrow> string \<Rightarrow> (app_error, auth_response) outcome" where
  "build_auth_response C cfg clock user_id username =
     and_then (issue_bundle C cfg clock user_id) (\<lambda>tokens.
     Ok \<lparr>ars_user_id = user_id, ars_username = username, ars_tokens = tokens\<rparr>)"

definition auth_register ::
  "auth_crates \<Rightarrow> token_config \<Rightarrow> 's user_store \<Rightarrow> nat option \<Rightarrow> string \<Rightarrow> credentials \<Rightarrow> 's
     \<Rightarrow> (app_error, auth_response) outcome \<times> 's" where
  "auth_register C cfg S clock salt request s =
     (let username = acr_lowercase C (trim (crd_username request)) in
      case and_then (validate_credentials username (crd_password request)) (\<lambda>_. hash_password C salt (crd_password request)) of
        Err e \<Rightarrow> (Err e, s)
      | Panic \<Rightarrow> (Panic, s)
      | Ok password_hash \<Rightarrow>
          (let (created, s) = ust_create_user S username password_hash s in
           (and_then created (\<lambda>user. build_auth_response C cfg clock (usr_id user) (usr_username user)), s)))"

definition auth_login ::
  "auth_crates \<Rightarrow> token_config \<Rightarrow> 's user_store \<Rightarrow> nat option \<Rightarrow> credentials \<Rightarrow> 's \<Rightarrow> (app_error, auth_response) outcome" where
  "auth_login C cfg S clock request s =
     and_then (ust_find_user_by_username S (acr_lowercase C (trim (crd_username request))) s) (\<lambda>user.
     case user of
       None \<Rightarrow> Err AppUnauthorized
     | Some user \<Rightarrow>
         and_then (verify_password C (crd_password request) (usr_password_hash user)) (\<lambda>_.
         build_auth_response C cfg clock (usr_id user) (usr_username user)))"

definition auth_refresh ::
  "auth_crates \<Rightarrow> token_config \<Rightarrow> 's user_store \<Rightarrow> nat option \<Rightarrow> string \<Rightarrow> 's \<Rightarrow> (app_error, auth_response) outcome" where
  "auth_refresh C cfg S clock refresh_token s =
     and_then (decode_token C clock refresh_token (tcf_refresh_secret cfg)) (\<lambda>user_id.
     and_then (ust_find_user_by_id S user_id s) (\<lambda>user.
     case user of
       None \<Rightarrow> Err AppUnauthorized
     | Some user \<Rightarrow> build_auth_response C cfg clock (usr_id user) (usr_username user)))"

definition verify_access_token :: "auth_crates \<Rightarrow> token_config \<Rightarrow> nat option \<Rightarrow> string \<Rightarrow> (app_error, 128 word) outcome" where
  "verify_access_token C cfg clock token = decode_token C clock token (tcf_access_secret cfg)"

definition verify_notification_token :: "auth_crates \<Rightarrow> token_config \<Rightarrow> nat option \<Rightarrow> string \<Rightarrow> (app_error, 128 word) outcome" where
  "verify_notification_token C cfg clock token = decode_token C clock token (tcf_notification_secret cfg)"

section \<open>The table of users\<close>

text \<open>
  The storage's queries on \<open>auth.users\<close> (\<open>crates/evobase-db/src/postgres.rs\<close>), over any way to run the insertion.
\<close>

datatype sqlx_error = DatabaseError "string option" string | OtherError string

definition map_create_error :: "sqlx_error \<Rightarrow> app_error" where
  "map_create_error e =
     (case e of
        DatabaseError code m \<Rightarrow> if code = Some ''23505'' then AppConflict ''username is already registered'' else AppDatabase m
      | OtherError m \<Rightarrow> AppDatabase m)"

definition pg_create_user ::
  "(string \<Rightarrow> string \<Rightarrow> 's \<Rightarrow> (sqlx_error, user_record) outcome \<times> 's) \<Rightarrow> string \<Rightarrow> string \<Rightarrow> 's
     \<Rightarrow> (app_error, user_record) outcome \<times> 's" where
  "pg_create_user insert_row username password_hash s =
     (let (answer, s) = insert_row username password_hash s in (map_err map_create_error answer, s))"

text \<open>
  The table of \<open>db/migrations/0001_init.sql\<close>: the id is the primary key and generated, the username is unique. The
  generator is a parameter and sees the rows.
\<close>

definition users_insert ::
  "(user_record list \<Rightarrow> 128 word) \<Rightarrow> string \<Rightarrow> string \<Rightarrow> user_record list \<Rightarrow> (sqlx_error, user_record) outcome \<times> user_record list" where
  "users_insert gen_random_uuid username password_hash rows =
     (let row = \<lparr>usr_id = gen_random_uuid rows, usr_username = username, usr_password_hash = password_hash\<rparr> in
      if list_ex (\<lambda>r. usr_username r = username \<or> usr_id r = usr_id row) rows
      then (Err (DatabaseError (Some ''23505'') ''duplicate key value violates unique constraint''), rows)
      else (Ok row, rows @ [row]))"

definition users_table :: "(user_record list \<Rightarrow> 128 word) \<Rightarrow> user_record list user_store" where
  "users_table gen_random_uuid =
     \<lparr>ust_create_user = pg_create_user (users_insert gen_random_uuid),
      ust_find_user_by_username = (\<lambda>username rows. Ok (List.find (\<lambda>r. usr_username r = username) rows)),
      ust_find_user_by_id = (\<lambda>user_id rows. Ok (List.find (\<lambda>r. usr_id r = user_id) rows))\<rparr>"

section \<open>Guards of the routes\<close>



definition extract_bearer_token :: "string \<Rightarrow> (app_error, string) outcome" where
  "extract_bearer_token header =
     (case strip_prefix header ''Bearer '' of
        None \<Rightarrow> Err AppUnauthorized
      | Some token \<Rightarrow> if token = [] then Err AppUnauthorized else Ok token)"

text \<open>The \<open>Authorization\<close> header of a request, if it has one and \<open>to_str\<close> reads it.\<close>

definition authorization :: "auth_crates \<Rightarrow> string option \<Rightarrow> string option" where
  "authorization C header = Option.bind header (acr_header_str C)"



definition extract_notification_token ::
  "auth_crates \<Rightarrow> string option \<Rightarrow> string option \<Rightarrow> (app_error, string) outcome" where
  "extract_notification_token C header query_token =
     (case authorization C header of
        Some header \<Rightarrow> extract_bearer_token header
      | None \<Rightarrow> (case query_token of
            None \<Rightarrow> Err AppUnauthorized
          | Some token \<Rightarrow> if token \<noteq> [] then Ok token else Err AppUnauthorized))"


section \<open>Accounts over any store\<close>

text \<open>What the accounts need of a store of users.\<close>

locale user_accounts =
  fixes S :: "'s user_store"
  assumes created: "ust_create_user S n h s = (Ok u, s') \<Longrightarrow> usr_username u = n \<and> usr_password_hash u = h
      \<and> ust_find_user_by_username S n s' = Ok (Some u) \<and> ust_find_user_by_id S (usr_id u) s' = Ok (Some u)"
    and kept: "ust_create_user S n h s = (answer, s') \<Longrightarrow> ust_find_user_by_username S m s = Ok (Some v) \<Longrightarrow>
      ust_find_user_by_username S m s' = Ok (Some v)"
    and kept_id: "ust_create_user S n h s = (answer, s') \<Longrightarrow> ust_find_user_by_id S i s = Ok (Some v) \<Longrightarrow>
      ust_find_user_by_id S i s' = Ok (Some v)"
    and taken: "ust_find_user_by_username S n s = Ok (Some v) \<Longrightarrow>
      ust_create_user S n h s = (Err (AppConflict ''username is already registered''), s)"
begin

lemma register_Ok:
  assumes "auth_register C cfg S clock salt request s = (Ok r, s')"
  obtains u where "ust_find_user_by_username S (acr_lowercase C (trim (crd_username request))) s' = Ok (Some u)"
    and "ust_find_user_by_id S (usr_id u) s' = Ok (Some u)"
    and "acr_hash C salt (crd_password request) = Ok (usr_password_hash u)"
    and "build_auth_response C cfg clock (usr_id u) (usr_username u) = Ok r"
    and "usr_username u = acr_lowercase C (trim (crd_username request))"
proof -
  let ?n = "acr_lowercase C (trim (crd_username request))"
  from assms obtain h where h: "acr_hash C salt (crd_password request) = Ok h"
    "auth_register C cfg S clock salt request s = (let (created, s) = ust_create_user S ?n h s in
       (and_then created (\<lambda>user. build_auth_response C cfg clock (usr_id user) (usr_username user)), s))"
    by (auto simp: auth_register_def Let_def hash_password_def outcome_simps split: outcome.splits)
  obtain answer s1 where c: "ust_create_user S ?n h s = (answer, s1)" by (cases "ust_create_user S ?n h s")
  with h assms obtain u where u: "answer = Ok u" "build_auth_response C cfg clock (usr_id u) (usr_username u) = Ok r" "s1 = s'"
    by (cases answer) auto
  show ?thesis using that created [OF c [unfolded u]] u h(1) by auto
qed

lemma register_keeps:
  "ust_find_user_by_username S m s = Ok (Some v) \<Longrightarrow>
     ust_find_user_by_username S m (snd (auth_register C cfg S clock salt request s)) = Ok (Some v)"
  using kept [OF prod.collapse [symmetric]] by (auto simp: auth_register_def Let_def case_prod_unfold split: outcome.splits)

lemma registrations_keep:
  "ust_find_user_by_username S m s = Ok (Some v) \<Longrightarrow>
     ust_find_user_by_username S m
       (fold (\<lambda>(clock, salt, request) s. snd (auth_register C cfg S clock salt request s)) later s) = Ok (Some v)"
  by (induction later arbitrary: s) (auto simp: register_keeps)

lemma login_of_known:
  assumes "ust_find_user_by_username S (acr_lowercase C (trim (crd_username request))) s = Ok (Some u)"
    and "acr_verify C (crd_password request) (usr_password_hash u) = HashMatches"
  shows "auth_login C cfg S clock request s = build_auth_response C cfg clock (usr_id u) (usr_username u)"
  using assms by (simp add: auth_login_def verify_password_def)

lemma register_taken:
  assumes "ust_find_user_by_username S (acr_lowercase C (trim (crd_username request))) s = Ok (Some u)"
  shows "\<not> is_ok (fst (auth_register C cfg S clock salt request s)) \<and> snd (auth_register C cfg S clock salt request s) = s"
  using taken [OF assms] by (auto simp: auth_register_def Let_def split: outcome.splits)

end

lemma find_append: "List.find P (xs @ ys) = (case List.find P xs of Some x \<Rightarrow> Some x | None \<Rightarrow> List.find P ys)"
  by (induction xs) auto

lemma find_absent: "\<not> list_ex P xs \<Longrightarrow> List.find P xs = None"
  by (simp add: find_None_iff list_ex_iff)

interpretation table: user_accounts "users_table gen" for gen
proof
  fix n h s u s'
  assume "ust_create_user (users_table gen) n h s = (Ok u, s')"
  then show "usr_username u = n \<and> usr_password_hash u = h
      \<and> ust_find_user_by_username (users_table gen) n s' = Ok (Some u)
      \<and> ust_find_user_by_id (users_table gen) (usr_id u) s' = Ok (Some u)"
    by (auto simp: users_table_def pg_create_user_def users_insert_def Let_def find_append find_absent list_ex_iff
        split: if_splits)
next
  fix n h s answer s' m v
  assume "ust_create_user (users_table gen) n h s = (answer, s')"
    and "ust_find_user_by_username (users_table gen) m s = Ok (Some v)"
  then show "ust_find_user_by_username (users_table gen) m s' = Ok (Some v)"
    by (auto simp: users_table_def pg_create_user_def users_insert_def Let_def find_append split: if_splits)
next
  fix n h s answer s' i v
  assume "ust_create_user (users_table gen) n h s = (answer, s')"
    and "ust_find_user_by_id (users_table gen) i s = Ok (Some v)"
  then show "ust_find_user_by_id (users_table gen) i s' = Ok (Some v)"
    by (auto simp: users_table_def pg_create_user_def users_insert_def Let_def find_append split: if_splits)
next
  fix n s v h
  assume "ust_find_user_by_username (users_table gen) n s = Ok (Some v)"
  then have "list_ex (\<lambda>r. usr_username r = n) s"
    by (auto simp: users_table_def find_Some_iff list_ex_iff)
  then show "ust_create_user (users_table gen) n h s = (Err (AppConflict ''username is already registered''), s)"
    by (auto simp: users_table_def pg_create_user_def users_insert_def Let_def map_create_error_def list_ex_iff)
qed

section \<open>Properties\<close>

text \<open>
  Who has registered can log in, and the name is theirs. On the table of users, after a registration that succeeded and
  any further registrations, whether they succeed or not: a login with the same name (up to case and surrounding
  spaces) and password answers for the same user what issuing tokens at that time answers; and no one can
  register under that name again, which changes nothing. It relies on a password matching its own hash.
\<close>

theorem registered_users_can_log_in:
  assumes matches: "\<And>salt password h. acr_hash C salt password = Ok h \<Longrightarrow> acr_verify C password h = HashMatches"
    and registered: "auth_register C cfg (users_table gen) clock salt request rows = (Ok r, rows')"
    and later: "rows'' = fold (\<lambda>(clock, salt, request) s. snd (auth_register C cfg (users_table gen) clock salt request s)) others rows'"
    and name: "acr_lowercase C (trim (crd_username again)) = acr_lowercase C (trim (crd_username request))"
  shows "(crd_password again = crd_password request \<longrightarrow> auth_login C cfg (users_table gen) clock' again rows''
        = build_auth_response C cfg clock' (ars_user_id r) (ars_username r))
    \<and> \<not> is_ok (fst (auth_register C cfg (users_table gen) clock' salt' again rows''))
    \<and> snd (auth_register C cfg (users_table gen) clock' salt' again rows'') = rows''"
proof -
  from registered obtain u where u: "ust_find_user_by_username (users_table gen) (acr_lowercase C (trim (crd_username request))) rows' = Ok (Some u)"
    and h: "acr_hash C salt (crd_password request) = Ok (usr_password_hash u)"
    and r: "build_auth_response C cfg clock (usr_id u) (usr_username u) = Ok r"
    by (rule table.register_Ok)
  have ids: "ars_user_id r = usr_id u" "ars_username r = usr_username u"
    using r by (auto simp: build_auth_response_def outcome_simps)
  have "ust_find_user_by_username (users_table gen) (acr_lowercase C (trim (crd_username again))) rows'' = Ok (Some u)"
    unfolding later name by (rule table.registrations_keep [OF u])
  then show ?thesis
    using table.login_of_known table.register_taken matches [OF h] ids by metis
qed

lemma issued_tokens:
  assumes "issue_bundle C cfg (Some now) user_id = Ok bundle"
    and "(token, secret, ttl) \<in> {(tbn_access_token bundle, tcf_access_secret cfg, tcf_access_ttl_secs cfg),
      (tbn_refresh_token bundle, tcf_refresh_secret cfg, tcf_refresh_ttl_secs cfg),
      (tbn_notification_token bundle, tcf_notification_secret cfg, tcf_notification_ttl_secs cfg)}"
  shows "acr_encode C secret \<lparr>tcl_sub = user_id, tcl_exp = saturating_add_u64 now ttl\<rparr> = Ok token"
  using assms by (auto simp: issue_bundle_def issue_token_def outcome_simps)

lemma unat_saturating_add_u64: "unat (saturating_add_u64 a b) = min (a + unat b) (2 ^ 64 - 1)"
proof -
  have "min (a + unat b) (2 ^ 64 - 1) < 2 ^ 64" by (auto simp: min_def)
  then show ?thesis by (simp add: saturating_add_u64_def unat_of_nat take_bit_nat_eq_self del: power.simps)
qed

text \<open>
  C26. A token serves its purpose only, if the secrets differ. For any decoder that accepts a token only under the
  secret it was encoded with and returns its claims, and that accepts it there while it has not expired, take each of
  the three tokens of an issued bundle, with the secret and the lifetime of its kind. As an access token, as a
  notification token and for a refresh, it is accepted only where its secret is the secret of that purpose, and then as
  the user it was issued to: a refresh looks up that user, and what it answers are new tokens for the user found. While the
  token lives and its secret is the one of the purpose, it is accepted. Nothing in a token says what it is for, so
  nothing but the secrets tells the kinds apart.
\<close>

theorem token_serves_its_purpose:
  assumes sound: "\<And>k k' claims claims' token clk. acr_encode C k claims = Ok token \<Longrightarrow>
        acr_decode C k' clk token = Ok claims' \<Longrightarrow> k' = k \<and> claims' = claims"
    and complete: "\<And>k claims token now. acr_encode C k claims = Ok token \<Longrightarrow> now \<le> unat (tcl_exp claims) \<Longrightarrow>
        acr_decode C k (Some now) token = Ok claims"
    and issued: "issue_bundle C cfg (Some now) user_id = Ok bundle"
    and kind: "(token, secret, ttl) \<in> {(tbn_access_token bundle, tcf_access_secret cfg, tcf_access_ttl_secs cfg),
      (tbn_refresh_token bundle, tcf_refresh_secret cfg, tcf_refresh_ttl_secs cfg),
      (tbn_notification_token bundle, tcf_notification_secret cfg, tcf_notification_ttl_secs cfg)}"
  shows "(\<forall>clk u. verify_access_token C cfg clk token = Ok u \<longrightarrow> u = user_id \<and> secret = tcf_access_secret cfg)
    \<and> (\<forall>clk u. verify_notification_token C cfg clk token = Ok u \<longrightarrow> u = user_id \<and> secret = tcf_notification_secret cfg)
    \<and> (\<forall>clk r. auth_refresh C cfg S clk token s = Ok r \<longrightarrow> secret = tcf_refresh_secret cfg
         \<and> (\<exists>user. ust_find_user_by_id S user_id s = Ok (Some user) \<and> ars_user_id r = usr_id user
              \<and> ars_username r = usr_username user \<and> issue_bundle C cfg clk (usr_id user) = Ok (ars_tokens r)))
    \<and> (\<forall>later \<le> min (now + unat ttl) (2 ^ 64 - 1).
         (secret = tcf_access_secret cfg \<longrightarrow> verify_access_token C cfg (Some later) token = Ok user_id)
         \<and> (secret = tcf_notification_secret cfg \<longrightarrow> verify_notification_token C cfg (Some later) token = Ok user_id)
         \<and> (secret = tcf_refresh_secret cfg \<longrightarrow> (\<forall>user. ust_find_user_by_id S user_id s = Ok (Some user) \<longrightarrow>
              auth_refresh C cfg S (Some later) token s
                = build_auth_response C cfg (Some later) (usr_id user) (usr_username user))))"
proof -
  note enc = issued_tokens [OF issued kind]
  have only: "u = user_id \<and> k = secret" if "decode_token C clk token k = Ok u" for k clk u
  proof -
    from that obtain claims where "acr_decode C k clk token = Ok claims" and "u = tcl_sub claims"
      by (auto simp: decode_token_def outcome_simps)
    with sound [OF enc this(1)] show ?thesis by simp
  qed
  have lives: "decode_token C (Some later) token secret = Ok user_id" if "later \<le> min (now + unat ttl) (2 ^ 64 - 1)" for later
    using complete [OF enc, of later] that by (simp add: decode_token_def unat_saturating_add_u64)
  have refreshed: "secret = tcf_refresh_secret cfg
         \<and> (\<exists>user. ust_find_user_by_id S user_id s = Ok (Some user) \<and> ars_user_id r = usr_id user
              \<and> ars_username r = usr_username user \<and> issue_bundle C cfg clk (usr_id user) = Ok (ars_tokens r))"
    if refresh: "auth_refresh C cfg S clk token s = Ok r" for clk r
  proof -
    from refresh obtain u user where u: "decode_token C clk token (tcf_refresh_secret cfg) = Ok u"
      and "ust_find_user_by_id S u s = Ok (Some user)" "build_auth_response C cfg clk (usr_id user) (usr_username user) = Ok r"
      by (auto simp: auth_refresh_def and_then_Ok_iff split: option.splits)
    with only [OF u] show ?thesis by (auto simp: build_auth_response_def and_then_Ok_iff)
  qed
  show ?thesis
    using only refreshed lives
    by (auto simp: verify_access_token_def verify_notification_token_def auth_refresh_def)
qed




lemma extract_bearer_token_not_Panic [simp]: "extract_bearer_token h \<noteq> Panic"
  by (simp add: extract_bearer_token_def split: option.split)

lemma extract_notification_token_not_Panic [simp]: "extract_notification_token C h q \<noteq> Panic"
  by (simp add: extract_notification_token_def split: option.split)














section \<open>Witnesses\<close>

text \<open>Crates for evaluation: a token is the subject, the expiry and the secret, separated by dots.\<close>

definition plain_encode :: "string \<Rightarrow> token_claims \<Rightarrow> (string, string) outcome" where
  "plain_encode secret claims =
     Ok (show_nat (unat (tcl_sub claims)) @ ''.'' @ show_nat (unat (tcl_exp claims)) @ ''.'' @ secret)"

definition plain_decode :: "string \<Rightarrow> nat option \<Rightarrow> string \<Rightarrow> (string, token_claims) outcome" where
  "plain_decode secret clock token =
     (case split_once (CHR ''.'') token of
        None \<Rightarrow> Err ''malformed''
      | Some (sub, rest) \<Rightarrow>
          (case split_once (CHR ''.'') rest of
             None \<Rightarrow> Err ''malformed''
           | Some (expiry, key) \<Rightarrow>
               if key \<noteq> secret then Err ''signature''
               else (case clock of
                   None \<Rightarrow> Panic
                 | Some now \<Rightarrow> if digits_value expiry < now then Err ''expired''
                     else Ok \<lparr>tcl_sub = word_of_nat (digits_value sub), tcl_exp = word_of_nat (digits_value expiry)\<rparr>)))"

definition plain_crates :: auth_crates where
  "plain_crates = \<lparr>acr_lowercase = (\<lambda>s. s), acr_hash = (\<lambda>salt password. Ok (''$'' @ password)),
     acr_verify = (\<lambda>password h. if h = ''$'' @ password then HashMatches else HashDiffers),
     acr_encode = plain_encode, acr_decode = plain_decode, acr_header_str = Some\<rparr>"

lemma plain_crates_simps:
  "acr_lowercase plain_crates s = s" "acr_hash plain_crates salt password = Ok (''$'' @ password)"
  by (simp_all add: plain_crates_def)

definition plain_tokens :: token_config where
  "plain_tokens = \<lparr>tcf_access_secret = ''a'', tcf_refresh_secret = ''r'', tcf_notification_secret = ''n'',
     tcf_access_ttl_secs = 900, tcf_refresh_ttl_secs = 2592000, tcf_notification_ttl_secs = 2592000\<rparr>"

lemma split_once_append: "c \<notin> set w \<Longrightarrow> split_once c (w @ c # rest) = Some (w, rest)"
  by (induction w) auto

lemma split_once_dot: "split_once (CHR ''.'') (show_nat n @ CHR ''.'' # rest) = Some (show_nat n, rest)"
  using show_nat_digits [of n] by (intro split_once_append) (auto simp: is_ascii_digit_def)

lemma plain_decode_encode:
  assumes "plain_encode k claims = Ok token" and "plain_decode k' clk token = Ok claims'"
  shows "k' = k \<and> claims' = claims"
  using assms by (auto simp: plain_encode_def plain_decode_def split_once_dot split: option.splits if_splits)

lemma plain_hash_matches: "acr_hash plain_crates salt password = Ok h \<Longrightarrow> acr_verify plain_crates password h = HashMatches"
  by (auto simp: plain_crates_def)

definition plain_bundle :: "nat \<Rightarrow> 128 word \<Rightarrow> token_bundle" where
  "plain_bundle now user_id = (case issue_bundle plain_crates plain_tokens (Some now) user_id of Ok bundle \<Rightarrow> bundle)"

lemma plain_bundle_issued: "issue_bundle plain_crates plain_tokens (Some now) user_id = Ok (plain_bundle now user_id)"
  by (simp add: plain_bundle_def) (simp add: issue_bundle_def issue_token_def plain_crates_def plain_encode_def)

lemma plain_decode_live:
  assumes "plain_encode k claims = Ok token" and "now \<le> unat (tcl_exp claims)"
  shows "plain_decode k (Some now) token = Ok claims"
  using assms by (auto simp: plain_encode_def plain_decode_def split_once_dot digits_value_show_nat)

lemma token_serves_its_purpose_witness:
  "verify_access_token plain_crates plain_tokens (Some 10) (tbn_refresh_token (plain_bundle 0 7)) \<noteq> Ok 7
   \<and> auth_refresh plain_crates plain_tokens (users_table (\<lambda>_. 7)) (Some 10) (tbn_refresh_token (plain_bundle 0 7))
        [\<lparr>usr_id = 7, usr_username = ''eve'', usr_password_hash = []\<rparr>]
      = build_auth_response plain_crates plain_tokens (Some 10) 7 ''eve''"
proof -
  let ?S = "users_table (\<lambda>_. 7)" and ?rows = "[\<lparr>usr_id = 7, usr_username = ''eve'', usr_password_hash = []\<rparr>]"
  have sound: "k' = k \<and> claims' = claims"
    if "acr_encode plain_crates k claims = Ok token" "acr_decode plain_crates k' clk token = Ok claims'" for k k' claims claims' token clk
    using that by (intro plain_decode_encode) (simp_all add: plain_crates_def)
  have complete: "acr_decode plain_crates k (Some now) token = Ok claims"
    if "acr_encode plain_crates k claims = Ok token" "now \<le> unat (tcl_exp claims)" for k claims token now
    using that plain_decode_live by (simp add: plain_crates_def)
  have kind: "(tbn_refresh_token (plain_bundle 0 7), ''r'', 2592000) \<in>
      {(tbn_access_token (plain_bundle 0 7), tcf_access_secret plain_tokens, tcf_access_ttl_secs plain_tokens),
       (tbn_refresh_token (plain_bundle 0 7), tcf_refresh_secret plain_tokens, tcf_refresh_ttl_secs plain_tokens),
       (tbn_notification_token (plain_bundle 0 7), tcf_notification_secret plain_tokens, tcf_notification_ttl_secs plain_tokens)}"
    by (simp add: plain_tokens_def)
  have found: "ust_find_user_by_id ?S 7 ?rows = Ok (Some (hd ?rows))" by (simp add: users_table_def)
  note purpose = token_serves_its_purpose [OF sound complete plain_bundle_issued kind, where S = ?S and s = ?rows]
  have "verify_access_token plain_crates plain_tokens (Some 10) (tbn_refresh_token (plain_bundle 0 7)) \<noteq> Ok 7"
    using purpose [THEN conjunct1] by (auto simp: plain_tokens_def)
  moreover have "(10 :: nat) \<le> min (0 + unat (2592000 :: u64)) (2 ^ 64 - 1)" by simp
  ultimately show ?thesis
    using purpose [THEN conjunct2, THEN conjunct2, THEN conjunct2, THEN spec [of _ 10]] found by (simp add: plain_tokens_def)
qed

definition alice :: credentials where
  "alice = \<lparr>crd_username = ''alice'', crd_password = ''correct-horse''\<rparr>"

definition alice_row :: user_record where
  "alice_row = \<lparr>usr_id = 1, usr_username = ''alice'', usr_password_hash = ''$correct-horse''\<rparr>"

definition next_id :: "user_record list \<Rightarrow> 128 word" where
  "next_id rows = word_of_nat (length rows + 1)"

lemma alice_registered:
  "auth_register plain_crates plain_tokens (users_table next_id) (Some 0) ''salt'' alice []
     = (Ok \<lparr>ars_user_id = 1, ars_username = ''alice'', ars_tokens = plain_bundle 0 1\<rparr>, [alice_row])"
proof -
  have trimmed: "trim ''alice'' = ''alice''" by code_simp
  have "validate_credentials ''alice'' ''correct-horse'' = Ok ()" by code_simp
  then show ?thesis
    by (simp add: auth_register_def alice_def trimmed hash_password_def users_table_def pg_create_user_def users_insert_def
        next_id_def alice_row_def Let_def build_auth_response_def plain_bundle_issued plain_crates_simps)
qed

lemma registered_users_can_log_in_witness:
  "auth_login plain_crates plain_tokens (users_table next_id) (Some 5) alice [alice_row]
     = Ok \<lparr>ars_user_id = 1, ars_username = ''alice'', ars_tokens = plain_bundle 5 1\<rparr>"
proof -
  have "[alice_row] = fold (\<lambda>(clock, salt, request) s.
      snd (auth_register plain_crates plain_tokens (users_table next_id) clock salt request s)) [] [alice_row]" by simp
  from registered_users_can_log_in [OF plain_hash_matches alice_registered this refl]
  have "auth_login plain_crates plain_tokens (users_table next_id) (Some 5) alice [alice_row]
      = build_auth_response plain_crates plain_tokens (Some 5) 1 ''alice''"
    by simp
  then show ?thesis by (simp add: build_auth_response_def plain_bundle_issued)
qed

section \<open>What the configuration does not rule out\<close>

text \<open>
  With one secret for two purposes, which the configuration accepts, a refresh token opens the access routes for as long as
  the refresh token lives.
\<close>

theorem equal_secrets_confuse_tokens:
  assumes complete: "\<And>k claims token now. acr_encode C k claims = Ok token \<Longrightarrow> now \<le> unat (tcl_exp claims) \<Longrightarrow>
        acr_decode C k (Some now) token = Ok claims"
    and issued: "issue_bundle C cfg (Some now) user_id = Ok bundle"
    and same: "tcf_access_secret cfg = tcf_refresh_secret cfg"
    and time: "now' \<le> now + unat (tcf_refresh_ttl_secs cfg)" and far: "now + unat (tcf_refresh_ttl_secs cfg) < 2 ^ 64"
  shows "verify_access_token C cfg (Some now') (tbn_refresh_token bundle) = Ok user_id"
proof -
  let ?claims = "\<lparr>tcl_sub = user_id, tcl_exp = saturating_add_u64 now (tcf_refresh_ttl_secs cfg)\<rparr>"
  have "acr_encode C (tcf_access_secret cfg) ?claims = Ok (tbn_refresh_token bundle)"
    using issued same by (auto simp: issue_bundle_def issue_token_def outcome_simps)
  moreover have "now' \<le> unat (tcl_exp ?claims)"
    using time far by (simp add: unat_saturating_add_u64)
  ultimately show ?thesis using complete by (simp add: verify_access_token_def decode_token_def)
qed

end
