(* ===== verification/Draft.thy ===== *)
theory Draft
  imports Relations Cells
begin

text \<open>
  The drafts of the local Builder (\<open>apps/evobase-builder/src/lib.rs\<close>, the functions ahead of the user
  interface): the saved snapshot and its text, the spelling of a cell, diagnostics, the change of a
  draft through one checked batch, pending cell edits and the import of tab-separated rows. The
  Vietnamese wording of a message is not in the model: a \<open>language\<close> carries it, keyed by the English
  text that stands beside it in the code.
\<close>

definition MAX_IMPORT_BYTES :: nat where "MAX_IMPORT_BYTES = 65536"
definition MAX_IMPORT_ROWS :: nat where "MAX_IMPORT_ROWS = 100"

type_synonym buffers = "(string, string) btree_map"

text \<open>\<open>Result::expect\<close>.\<close>

fun expect_ok :: "('e, 'a) outcome \<Rightarrow> ('f, 'a) outcome" where
  "expect_ok (Ok x) = Ok x"
| "expect_ok (Err _) = Panic"
| "expect_ok Panic = Panic"

lemma expect_ok_Ok_iff [outcome_simps]: "expect_ok m = Ok x \<longleftrightarrow> m = Ok x"
  by (cases m) simp_all

section \<open>Messages\<close>

record language =
  lang_vi :: bool
  lang_vi_text :: "string \<Rightarrow> string"

definition tr :: "language \<Rightarrow> string \<Rightarrow> string" where
  "tr L en = (if lang_vi L then lang_vi_text L en else en)"

definition type_label :: "language \<Rightarrow> field_type \<Rightarrow> string" where
  "type_label L kind =
     (case kind of
        FText \<Rightarrow> tr L ''Text''
      | FInteger \<Rightarrow> tr L ''Integer''
      | FBool \<Rightarrow> tr L ''Boolean''
      | FMoney \<Rightarrow> tr L (''Money '' @ [CHR 0xC2, CHR 0xB7] @ '' minor units'')
      | FRef _ \<Rightarrow> tr L (''Reference '' @ [CHR 0xC2, CHR 0xB7] @ '' identity''))"

definition draft_diagnostic :: "language \<Rightarrow> error \<Rightarrow> string" where
  "draft_diagnostic L e =
     (case e of
        Required _ _ \<Rightarrow> tr L ''Required fields cannot be blank or null.''
      | ConstraintViolation _ _ _ \<Rightarrow> tr L (''Value does not satisfy this field'' @ [CHR 0x27] @ ''s data rule.'')
      | InvalidConstraint _ _ \<Rightarrow> tr L ''The rule is incompatible with the field type or its bounds are invalid.''
      | AmbiguousReference _ _ \<Rightarrow> tr L ''Reference label is ambiguous. Enter an explicit record identity.''
      | MissingReference _ _ \<Rightarrow> tr L ''No matching record in the target table.''
      | InvalidCell expected _ \<Rightarrow> tr L ''Expected input type:'' @ '' '' @ expected @ ''.''
      | WrongType _ _ expected \<Rightarrow> tr L ''Expected input type:'' @ '' '' @ expected @ ''.''
      | Overflow _ \<Rightarrow> tr L ''Value exceeds the signed 64-bit range.''
      | LimitExceeded _ limit \<Rightarrow> tr L ''Limit exceeded:'' @ '' '' @ show_nat limit @ ''.''
      | _ \<Rightarrow> tr L ''Data does not satisfy the AppSpec. See technical details.'')"

definition relation_diagnostic :: "language \<Rightarrow> relation_error \<Rightarrow> string" where
  "relation_diagnostic L e =
     (case e of
        RelKernel error \<Rightarrow> draft_diagnostic L error
      | CaptureInputForbidden _ \<Rightarrow>
          tr L ''Captured prices are derived when creating a line; leave this column empty.''
      | CapturedValueImmutable _ \<Rightarrow> tr L ''Captured historical prices cannot be edited.''
      | CapturedReferenceImmutable _ \<Rightarrow> tr L ''Create a new line to choose another product.''
      | CaptureSourceInvalid _ \<Rightarrow> tr L ''The capture source has no valid money value.''
      | BatchLimit \<Rightarrow> tr L ''Too many changes in one checked batch.''
      | _ \<Rightarrow> tr L ''This change does not satisfy the draft relation rules. Prior data is preserved.'')"

section \<open>The saved snapshot\<close>

record draft_snapshot =
  dsn_revision :: u64
  dsn_spec :: raw_app_spec
  dsn_records :: "raw_record list"

text \<open>The tenant is fixed and valid, so \<open>Scope::new(\<dots>).expect(\<dots>)\<close> is this scope (\<open>scope_for_new\<close>).\<close>

definition scope_for :: "raw_app_spec \<Rightarrow> scope" where
  "scope_for spec = Scope ''tenant_local_fixture'' (app_app_id spec)"

record stored_snapshot =
  sts_format :: u32
  sts_revision :: string
  sts_definition_json :: string
  sts_records_json :: string

text \<open>\<open>serde_json\<close> on the envelope: its reader and its writer.\<close>

record snapshot_json =
  snj_read :: "string \<Rightarrow> (string, stored_snapshot) outcome"
  snj_write :: "stored_snapshot \<Rightarrow> (string, string) outcome"

text \<open>Messages of the codec: its own, or the text of a kernel error.\<close>

datatype saved_error = SavedText string | SavedKernel error

definition decode_saved :: "serde \<Rightarrow> snapshot_json \<Rightarrow> string \<Rightarrow> (saved_error, draft_snapshot) outcome" where
  "decode_saved J N raw =
     (if length raw > MAX_BYTES then Err (SavedText ''local snapshot exceeds limit'')
      else and_then (map_err (\<lambda>_. SavedText ''local snapshot is invalid'') (snj_read N raw)) (\<lambda>stored.
        if sts_format stored \<noteq> 1 then Err (SavedText ''unsupported local snapshot'')
        else and_then (map_err SavedKernel (spec_decode J (sts_definition_json stored))) (\<lambda>checked.
        let spec = spec_def checked in
        if app_tables spec = [] then Err (SavedText ''local Builder needs a table'')
        else and_then (map_err SavedKernel (decode_records J checked (scope_for spec) (sts_records_json stored))) (\<lambda>records.
        and_then (map_err (\<lambda>_. SavedText ''invalid local revision'') (parse_u64 (sts_revision stored))) (\<lambda>revision.
        Ok \<lparr>dsn_revision = revision, dsn_spec = spec, dsn_records = to_raw records\<rparr>)))))"

definition from_utf8 :: "string \<Rightarrow> string \<Rightarrow> (saved_error, string) outcome" where
  "from_utf8 message bytes = (if utf8_valid bytes then Ok bytes else Err (SavedText message))"

definition encode_saved :: "serde \<Rightarrow> snapshot_json \<Rightarrow> draft_snapshot \<Rightarrow> (saved_error, string) outcome" where
  "encode_saved J N snapshot =
     and_then (map_err SavedKernel (compile J (dsn_spec snapshot))) (\<lambda>checked.
     and_then (map_err SavedKernel
       (validate_records J checked (scope_for (dsn_spec snapshot)) (dsn_records snapshot))) (\<lambda>rows.
     and_then (map_err SavedKernel (spec_encode J checked)) (\<lambda>definition_bytes.
     and_then (from_utf8 ''definition encoding'' definition_bytes) (\<lambda>definition_json.
     and_then (map_err SavedKernel (checked_records_encode J rows)) (\<lambda>record_bytes.
     and_then (from_utf8 ''record encoding'' record_bytes) (\<lambda>records_json.
     and_then (map_err (\<lambda>_. SavedText ''snapshot encoding'')
       (snj_write N \<lparr>sts_format = 1, sts_revision = show_nat (unat (dsn_revision snapshot)),
          sts_definition_json = definition_json, sts_records_json = records_json\<rparr>)) (\<lambda>raw.
     if length raw > MAX_BYTES then Err (SavedText ''snapshot exceeds limit'') else Ok raw)))))))"

definition canonical_content :: "serde \<Rightarrow> draft_snapshot \<Rightarrow> (error, string \<times> string) outcome" where
  "canonical_content J snapshot =
     and_then (compile J (dsn_spec snapshot)) (\<lambda>definition.
     and_then (validate_records J definition (scope_for (dsn_spec snapshot)) (dsn_records snapshot)) (\<lambda>records.
     and_then (spec_encode J definition) (\<lambda>a. and_then (checked_records_encode J records) (\<lambda>b. Ok (a, b)))))"

definition same_content :: "serde \<Rightarrow> draft_snapshot \<Rightarrow> draft_snapshot \<Rightarrow> bool" where
  "same_content J a b \<longleftrightarrow>
     (case (canonical_content J a, canonical_content J b) of (Ok a, Ok b) \<Rightarrow> a = b | _ \<Rightarrow> False)"

section \<open>Cells\<close>

definition cell_key :: "table_id \<Rightarrow> record_id \<Rightarrow> field_id \<Rightarrow> string" where
  "cell_key table record field = as_str table @ ''/'' @ as_str record @ ''/'' @ as_str field"

definition value_input :: "value option \<Rightarrow> string" where
  "value_input v =
     (case v of
        None \<Rightarrow> []
      | Some Blank \<Rightarrow> []
      | Some Null \<Rightarrow> ''null''
      | Some (Text s) \<Rightarrow> if s = [] \<or> s = ''null'' \<or> starts_with s ''text:'' then ''text:'' @ s else s
      | Some (Integer n) \<Rightarrow> show_i64 n
      | Some (Money n) \<Rightarrow> show_i64 n
      | Some (Bool b) \<Rightarrow> if b then ''true'' else ''false''
      | Some (Ref r) \<Rightarrow> as_str (ref_record_id r))"

section \<open>One checked batch\<close>

text \<open>The body of the loop over the next rows; the state holds the keys seen and the changes.\<close>

definition draft_change ::
  "row_map \<Rightarrow> row_key set \<times> batch_change list \<Rightarrow> raw_record \<Rightarrow>
     (relation_error, row_key set \<times> batch_change list) outcome" where
  "draft_change original = (\<lambda>(seen, changes) row.
     let key = record_key row in
     if key \<in> seen then Err (DuplicateMutation (fst key) (snd key))
     else Ok (insert key seen,
       case bt_get original key of
         Some old \<Rightarrow> if old = row then changes else changes @ [Replace row]
       | None \<Rightarrow> changes @ [Insert row]))"

definition draft_changes :: "raw_record list \<Rightarrow> raw_record list \<Rightarrow> (relation_error, batch_change list) outcome" where
  "draft_changes before next =
     (let original = bt_of_list (map (\<lambda>row. (record_key row, row)) before) in
      and_then (fold_m (draft_change original) ({}, []) next) (\<lambda>(seen, changes).
      Ok (changes @ map (\<lambda>key. Delete (fst key) (snd key)) (filter (\<lambda>key. key \<notin> seen) (bt_keys original)))))"

definition apply_draft_changes ::
  "serde \<Rightarrow> checked_app_spec \<Rightarrow> scope \<Rightarrow> raw_record list \<Rightarrow> raw_record list \<Rightarrow>
     (relation_error, raw_record list) outcome" where
  "apply_draft_changes J checked scope before next =
     and_then (map_err RelKernel (validate_records J checked scope before)) (\<lambda>history.
     and_then (from_checked_snapshot J checked history) (\<lambda>store.
     and_then (draft_changes before next) (\<lambda>changes.
     and_then (apply_batch J store changes) (\<lambda>store'.
     Ok (to_raw (rst_records store'))))))"

section \<open>Pending edits\<close>

text \<open>The two nested loops: over the rows, and over the fields of the row's table.\<close>

definition edit_cell ::
  "language \<Rightarrow> checked_app_spec \<Rightarrow> scope \<Rightarrow> raw_record list \<Rightarrow> buffers \<Rightarrow> raw_record \<times> buffers \<Rightarrow> raw_field \<Rightarrow>
     (buffers, raw_record \<times> buffers) outcome" where
  "edit_cell L checked scope records buffers = (\<lambda>(row, errors) field.
     let key = cell_key (rec_table_id row) (rec_id row) (fld_id field) in
     case bt_get buffers key of
       None \<Rightarrow> Ok (row, errors)
     | Some text \<Rightarrow>
         (case parse_cell checked scope (rec_table_id row) (fld_id field) text records of
            Ok v \<Rightarrow> Ok (row\<lparr>rec_values := bt_insert (fld_id field) v (rec_values row)\<rparr>, errors)
          | Err e \<Rightarrow> Ok (row, bt_insert key (draft_diagnostic L e) errors)
          | Panic \<Rightarrow> Panic))"

definition edit_row ::
  "language \<Rightarrow> raw_app_spec \<Rightarrow> checked_app_spec \<Rightarrow> raw_record list \<Rightarrow> buffers \<Rightarrow>
     raw_record list \<times> buffers \<Rightarrow> raw_record \<Rightarrow> (buffers, raw_record list \<times> buffers) outcome" where
  "edit_row L spec checked records buffers = (\<lambda>(output, errors) row.
     case List.find (\<lambda>t. tbl_id t = rec_table_id row) (app_tables spec) of
       None \<Rightarrow> Ok (output @ [row], errors)
     | Some table \<Rightarrow>
         and_then (fold_m (edit_cell L checked (scope_for spec) records buffers) (row, errors) (tbl_fields table))
           (\<lambda>(row, errors). Ok (output @ [row], errors)))"

text \<open>The cell a failure of the whole batch is shown at.\<close>

definition candidate_error_key :: "raw_record list \<Rightarrow> buffers \<Rightarrow> relation_error \<Rightarrow> string" where
  "candidate_error_key records buffers e =
     (let at = (\<lambda>record field.
        case List.find (\<lambda>r. rec_id r = record) records of
          Some r \<Rightarrow> cell_key (rec_table_id r) record field
        | None \<Rightarrow> ''dataset'');
      buffered = (\<lambda>field.
        case List.find (\<lambda>key. ends_with key (''/'' @ as_str field)) (bt_keys buffers) of
          Some key \<Rightarrow> key | None \<Rightarrow> ''dataset'') in
      case e of
        RelKernel (Required record field) \<Rightarrow> at record field
      | RelKernel (WrongType record field _) \<Rightarrow> at record field
      | RelKernel (ConstraintViolation record field _) \<Rightarrow> at record field
      | CapturedValueImmutable field \<Rightarrow> buffered field
      | CapturedReferenceImmutable field \<Rightarrow> buffered field
      | _ \<Rightarrow> ''dataset'')"

definition candidate ::
  "serde \<Rightarrow> language \<Rightarrow> raw_app_spec \<Rightarrow> raw_record list \<Rightarrow> buffers \<Rightarrow> (buffers, raw_record list) outcome" where
  "candidate J L spec records buffers =
     and_then (map_err (\<lambda>e. bt_of_list [(''definition'', draft_diagnostic L e)]) (compile J spec)) (\<lambda>checked.
     and_then (fold_m (edit_row L spec checked records buffers) ([], bt_empty) records) (\<lambda>(output, errors).
     if entries errors \<noteq> [] then Err errors
     else map_err (\<lambda>e. bt_of_list [(candidate_error_key records buffers e, relation_diagnostic L e)])
       (apply_draft_changes J checked (scope_for spec) records output)))"

section \<open>Importing rows\<close>

text \<open>The header names fields of the table, each at most once.\<close>

definition import_column ::
  "language \<Rightarrow> raw_table \<Rightarrow> raw_field list \<times> string list \<Rightarrow> nat \<times> string \<Rightarrow> raw_field list \<times> string list" where
  "import_column L table = (\<lambda>(chosen, diagnostics) (column, header).
     let unknown = tr L ''Column'' @ '' '' @ show_nat (column + 1) @ '': ''
       @ tr L ''unknown or duplicate field identity.'' in
     case List.find (\<lambda>f. as_str (fld_id f) = header) (tbl_fields table) of
       Some field \<Rightarrow>
         if list_ex (\<lambda>existing. fld_id existing = fld_id field) chosen then (chosen, diagnostics @ [unknown])
         else (chosen @ [field], diagnostics)
     | None \<Rightarrow> (chosen, diagnostics @ [unknown]))"

definition import_columns :: "language \<Rightarrow> raw_table \<Rightarrow> string list \<Rightarrow> raw_field list \<times> string list" where
  "import_columns L table headers =
     foldl (import_column L table) ([], []) (List.enumerate 0 headers)"

text \<open>Row \<open>index\<close> counts the data lines from zero.\<close>

definition import_cell ::
  "language \<Rightarrow> checked_app_spec \<Rightarrow> scope \<Rightarrow> raw_table \<Rightarrow> raw_record list \<Rightarrow> nat \<Rightarrow>
     (field_id, value) btree_map \<times> string list \<Rightarrow> nat \<times> raw_field \<times> string \<Rightarrow>
     (string list, (field_id, value) btree_map \<times> string list) outcome" where
  "import_cell L checked scope table baseline index = (\<lambda>(values, diagnostics) (column, field, text).
     case parse_cell checked scope (tbl_id table) (fld_id field) text baseline of
       Ok v \<Rightarrow> Ok (bt_insert (fld_id field) v values, diagnostics)
     | Err e \<Rightarrow> Ok (values, diagnostics @ [tr L ''Row'' @ '' '' @ show_nat (index + 2) @ '', '' @ tr L ''column''
         @ '' '' @ show_nat (column + 1) @ '' ('' @ fld_name field @ ''): '' @ draft_diagnostic L e])
     | Panic \<Rightarrow> Panic)"

definition import_suffix :: "raw_record list \<Rightarrow> nat" where
  "import_suffix next = next_free (length next)
     (\<lambda>n. ''rec_import_'' @ show_nat n \<in> set (map (\<lambda>r. as_str (rec_id r)) next)) 1"

definition import_row ::
  "language \<Rightarrow> checked_app_spec \<Rightarrow> scope \<Rightarrow> raw_table \<Rightarrow> raw_field list \<Rightarrow> raw_record list \<Rightarrow>
     raw_record list \<times> string list \<Rightarrow> nat \<times> string \<Rightarrow> (string list, raw_record list \<times> string list) outcome" where
  "import_row L checked scope table chosen baseline = (\<lambda>(next, diagnostics) (index, line).
     let cells = split_on (CHR 0x09) line in
     if length cells \<noteq> length chosen then
       Ok (next, diagnostics @ [tr L ''Row'' @ '' '' @ show_nat (index + 2) @ '': ''
         @ tr L ''column count differs from the header.''])
     else and_then (fold_m (import_cell L checked scope table baseline index) (bt_empty, diagnostics)
         (List.enumerate 0 (zip chosen cells))) (\<lambda>(values, diagnostics).
       and_then (expect_ok (record_id_new (''rec_import_'' @ show_nat (import_suffix next)))) (\<lambda>i.
       Ok (next @ [\<lparr>rec_scope = scope, rec_id = i, rec_table_id = tbl_id table, rec_values = values\<rparr>],
         diagnostics))))"

text \<open>Where a failure of the whole batch is reported: the offending row and field, if the error names them.\<close>

definition import_error_at :: "raw_record list \<Rightarrow> relation_error \<Rightarrow> record_id option \<times> field_id option" where
  "import_error_at imported e =
     (let supplied = (\<lambda>field. map_option rec_id (List.find (\<lambda>r.
        case bt_get (rec_values r) field of None \<Rightarrow> False | Some v \<Rightarrow> \<not> absent v) imported)) in
      case e of
        RelKernel (Required record field) \<Rightarrow> (Some record, Some field)
      | RelKernel (WrongType record field _) \<Rightarrow> (Some record, Some field)
      | RelKernel (ConstraintViolation record field _) \<Rightarrow> (Some record, Some field)
      | CaptureInputForbidden field \<Rightarrow> (supplied field, Some field)
      | CaptureSourceInvalid field \<Rightarrow> (supplied field, Some field)
      | _ \<Rightarrow> (None, None))"

text \<open>\<open>Iterator::position\<close>.\<close>

fun position :: "('a \<Rightarrow> bool) \<Rightarrow> 'a list \<Rightarrow> nat option" where
  "position P [] = None"
| "position P (x # xs) = (if P x then Some 0 else map_option Suc (position P xs))"

definition import_location ::
  "language \<Rightarrow> raw_table \<Rightarrow> string list \<Rightarrow> raw_record list \<Rightarrow> relation_error \<Rightarrow> string" where
  "import_location L table headers imported e =
     (case import_error_at imported e of
        (_, None) \<Rightarrow> []
      | (record, Some field) \<Rightarrow>
          let row = (case Option.bind record (\<lambda>record. position (\<lambda>r. rec_id r = record) imported) of
                Some row \<Rightarrow> row | None \<Rightarrow> 0);
              name = (case List.find (\<lambda>f. fld_id f = field) (tbl_fields table) of
                Some f \<Rightarrow> fld_name f | None \<Rightarrow> as_str field);
              column = (case position (\<lambda>h. h = as_str field) headers of
                Some c \<Rightarrow> show_nat (c + 1) | None \<Rightarrow> tr L ''missing'') in
          tr L ''Row'' @ '' '' @ show_nat (row + 2) @ '', '' @ tr L ''column'' @ '' '' @ column
            @ '' ('' @ name @ ''): '')"

definition prepare_import ::
  "serde \<Rightarrow> language \<Rightarrow> raw_app_spec \<Rightarrow> raw_record list \<Rightarrow> table_id \<Rightarrow> string \<Rightarrow>
     (string list, raw_record list) outcome" where
  "prepare_import J L current records table_id source =
     (case List.find (\<lambda>t. tbl_id t = table_id) (app_tables current) of
        None \<Rightarrow> Err [tr L ''Unknown table.'']
      | Some table \<Rightarrow>
          if length source > MAX_IMPORT_BYTES then Err [tr L ''Input exceeds the 64 KiB limit.'']
          else let lines = str_lines source in
            if length lines < 2 \<or> length lines > MAX_IMPORT_ROWS + 1
            then Err [tr L ''Use a header and at most 100 data rows.'']
            else let headers = split_on (CHR 0x09) (hd lines) in
            let (chosen, diagnostics) = import_columns L table headers in
            if diagnostics \<noteq> [] then Err diagnostics
            else and_then (map_err (\<lambda>e. [draft_diagnostic L e]) (compile J current)) (\<lambda>checked.
              let scope = scope_for current in
              and_then (fold_m (import_row L checked scope table chosen records) (records, [])
                  (List.enumerate 0 (tl lines))) (\<lambda>(next, diagnostics).
              if diagnostics \<noteq> [] then Err diagnostics
              else map_err (\<lambda>e. [import_location L table headers (drop (length records) next) e
                    @ relation_diagnostic L e])
                (apply_draft_changes J checked scope records next))))"

section \<open>The changes of a draft\<close>

text \<open>The change one row asks for, if any.\<close>

definition row_change :: "row_map \<Rightarrow> raw_record \<Rightarrow> batch_change option" where
  "row_change original row =
     (case bt_get original (record_key row) of
        Some old \<Rightarrow> if old = row then None else Some (Replace row)
      | None \<Rightarrow> Some (Insert row))"

lemma row_change_key: "row_change original row = Some c \<Longrightarrow> change_key c = record_key row"
  by (auto simp: row_change_def split: option.splits if_splits)

lemma fold_draft_change:
  "fold_m (draft_change original) (seen, changes) next = Ok (seen', changes') \<Longrightarrow>
     distinct (map record_key next) \<and> record_key ` set next \<inter> seen = {}
     \<and> seen' = seen \<union> record_key ` set next
     \<and> changes' = changes @ List.map_filter (row_change original) next"
proof (induction "next" arbitrary: seen changes)
  case (Cons row rows)
  let ?changes = "changes @ List.map_filter (row_change original) [row]"
  have step: "draft_change original (seen, changes) row =
      (if record_key row \<in> seen then Err (DuplicateMutation (fst (record_key row)) (snd (record_key row)))
       else Ok (insert (record_key row) seen, ?changes))"
    by (auto simp: draft_change_def row_change_def Let_def map_filter_simps split: option.split)
  with Cons.prems have new: "record_key row \<notin> seen"
    and rest: "fold_m (draft_change original) (insert (record_key row) seen, ?changes) rows = Ok (seen', changes')"
    by (auto simp: and_then_Ok_iff split: if_splits)
  from Cons.IH [OF rest] new show ?case
    by (auto simp: map_filter_simps split: option.splits)
qed (simp add: map_filter_simps)

lemma find_map_filter_none:
  "k \<notin> record_key ` set next \<Longrightarrow> change_at (List.map_filter (row_change original) next) k = None"
  by (induction "next") (auto simp: change_at_def map_filter_simps split: option.split dest: row_change_key)

lemma find_map_filter_row:
  assumes "distinct (map record_key next)" and "row \<in> set next"
  shows "change_at (List.map_filter (row_change original) next) (record_key row) = row_change original row"
  using assms
proof (induction "next")
  case (Cons r rows)
  show ?case
  proof (cases "r = row")
    case True
    with Cons.prems have "record_key row \<notin> record_key ` set rows" by simp
    from find_map_filter_none [OF this] True show ?thesis
      by (cases "row_change original row")
        (auto simp: change_at_def map_filter_simps dest: row_change_key)
  next
    case False
    with Cons.prems have "row \<in> set rows" "record_key row \<noteq> record_key r" by (auto simp: rev_image_eqI)
    with Cons show ?thesis
      by (cases "row_change original r") (auto simp: change_at_def map_filter_simps dest: row_change_key)
  qed
qed simp

lemma change_at_append:
  "change_at (cs @ ds) k = (case change_at cs k of None \<Rightarrow> change_at ds k | Some c \<Rightarrow> Some c)"
  by (induction cs) (auto simp: change_at_def)

lemma change_at_deletes:
  "change_at (map (\<lambda>key. Delete (fst key) (snd key)) ks) k = (if k \<in> set ks then Some (Delete (fst k) (snd k)) else None)"
  by (induction ks) (auto simp: change_at_def)

definition row_map_of :: "raw_record list \<Rightarrow> row_map" where
  "row_map_of rows = bt_of_list (map (\<lambda>row. (record_key row, row)) rows)"

lemma row_map_of_get:
  assumes "distinct (map record_key rows)"
  shows "bt_get (row_map_of rows) k = Some r \<longleftrightarrow> r \<in> set rows \<and> record_key r = k"
proof -
  have "distinct (map fst (map (\<lambda>row. (record_key row, row)) rows))" using assms by (simp add: comp_def)
  from bt_get_of_list_distinct [OF this, of k] this show ?thesis
    by (auto simp: row_map_of_def)
qed

lemma row_map_of_get_None: "bt_get (row_map_of rows) k = None \<longleftrightarrow> k \<notin> record_key ` set rows"
  by (auto simp: row_map_of_def bt_get_of_list map_of_eq_None_iff image_image)

lemma draft_changes_Ok:
  assumes "draft_changes before next = Ok changes"
  shows "distinct (map record_key next)"
    and "row \<in> set next \<Longrightarrow> change_at changes (record_key row) = row_change (row_map_of before) row"
    and "k \<notin> record_key ` set next \<Longrightarrow> change_at changes k =
       (if k \<in> record_key ` set before then Some (Delete (fst k) (snd k)) else None)"
proof -
  let ?o = "row_map_of before"
  from assms obtain seen cs where loop: "fold_m (draft_change ?o) ({}, []) next = Ok (seen, cs)"
    and changes: "changes = cs @ map (\<lambda>key. Delete (fst key) (snd key)) (filter (\<lambda>key. key \<notin> seen) (bt_keys ?o))"
    by (auto simp: draft_changes_def Let_def and_then_Ok_iff row_map_of_def)
  from fold_draft_change [OF loop] have dist: "distinct (map record_key next)"
    and seen: "seen = record_key ` set next" and cs: "cs = List.map_filter (row_change ?o) next" by auto
  show "distinct (map record_key next)" by (rule dist)
  show "change_at changes (record_key row) = row_change ?o row" if "row \<in> set next"
    using find_map_filter_row [OF dist that, of ?o] that
    by (auto simp: changes cs seen change_at_append change_at_deletes split: option.split)
  show "change_at changes k = (if k \<in> record_key ` set before then Some (Delete (fst k) (snd k)) else None)"
    if "k \<notin> record_key ` set next"
    using find_map_filter_none [OF that, of ?o] that bt_get_None_iff [of ?o k] row_map_of_get_None [of before k]
    by (auto simp: changes cs seen change_at_append change_at_deletes)
qed

text \<open>What a successful validation of rows finds.\<close>

lemma validated_find:
  assumes "validate_records J spec scope rows = Ok facts"
  shows "find_record facts t i = map_option (CheckedRecord \<circ> normalize_record spec) (bt_get (row_map_of rows) (t, i))"
proof -
  have ok: "facts_ok J spec facts" by (rule validate_records_facts_ok [OF assms])
  from assms have dist: "distinct (map record_key rows)"
    and mem: "set (crs_records facts) = CheckedRecord ` normalize_record spec ` set rows"
    by (auto simp: validate_records_Ok_iff valid_facts_def normalized_def)
  have "find_record facts t i = Some c \<longleftrightarrow>
      map_option (CheckedRecord \<circ> normalize_record spec) (bt_get (row_map_of rows) (t, i)) = Some c" for c
    unfolding find_record_iff [OF ok] mem
    by (auto simp: row_map_of_get [OF dist] cr_defs record_key_def image_iff)
  then show ?thesis by (metis not_None_eq)
qed

lemma from_checked_snapshot_validated:
  "validate_records J spec scope rows = Ok facts \<Longrightarrow>
     from_checked_snapshot J spec facts = Ok \<lparr>rst_spec = spec, rst_records = facts\<rparr>"
  using validate_records_facts_ok by (auto simp: from_checked_snapshot_def facts_ok_def)

lemma apply_draft_changes_Ok:
  assumes "apply_draft_changes J spec scope before next = Ok out" and wf: "wf_spec spec"
  obtains facts where "validate_records J spec scope out = Ok facts" and "out = to_raw facts"
    and "distinct (map record_key next)" and "record_key ` set out = record_key ` set next"
    and "\<And>r. r \<in> set next \<Longrightarrow> \<exists>r'. same_uncaptured spec r r'
           \<and> (record_key r \<in> record_key ` set before \<longrightarrow> r' = r) \<and> normalize_record spec r' \<in> set out"
proof -
  from assms(1) obtain history changes store' where
    history: "validate_records J spec scope before = Ok history"
    and changes: "draft_changes before next = Ok changes"
    and batch: "apply_batch J \<lparr>rst_spec = spec, rst_records = history\<rparr> changes = Ok store'"
    and out: "out = to_raw (rst_records store')"
    by (auto simp: apply_draft_changes_def outcome_simps from_checked_snapshot_validated)
  let ?store = "\<lparr>rst_spec = spec, rst_records = history\<rparr>"
  let ?facts = "rst_records store'"
  have store: "wf_spec (rst_spec ?store)" "facts_ok J (rst_spec ?store) (rst_records ?store)"
    using wf validate_records_facts_ok [OF history] by simp_all
  obtain rows where "validate_records J spec scope rows = Ok ?facts"
    by (rule apply_batch_Ok [OF batch store]) (use validate_records_scope [OF history] in \<open>auto intro: that\<close>)
  then have ok: "facts_ok J spec ?facts" and sc: "crs_scope ?facts = scope"
    by (blast dest: validate_records_facts_ok validate_records_scope)+
  note effect = apply_batch_find [OF batch store, simplified]
  note old = validated_find [OF history]
  note change = draft_changes_Ok [OF changes]
  have dist: "distinct (map record_key before)"
    using history by (auto simp: validate_records_Ok_iff valid_facts_def)
  have kept: "\<exists>r'. same_uncaptured spec r r' \<and> (record_key r \<in> record_key ` set before \<longrightarrow> r' = r)
      \<and> find_record ?facts (rec_table_id r) (rec_id r) = Some (CheckedRecord (normalize_record spec r'))"
    if r: "r \<in> set next" for r
  proof (cases "bt_get (row_map_of before) (record_key r)")
    case None
    then have "row_change (row_map_of before) r = Some (Insert r)" by (simp add: row_change_def)
    with change(2) [OF r] None effect [of "rec_table_id r" "rec_id r"] show ?thesis
      by (auto simp: record_key_def row_map_of_get_None)
  next
    case (Some o)
    with change(2) [OF r] old [of "rec_table_id r" "rec_id r"] effect [of "rec_table_id r" "rec_id r"] show ?thesis
      by (intro exI [of _ r]) (auto simp: record_key_def row_change_def split: if_splits)
  qed
  have gone: "find_record ?facts t i = None" if "(t, i) \<notin> record_key ` set next" for t i
    using change(3) [OF that] effect [of t i] old [of t i] row_map_of_get_None [of before "(t, i)"]
    by (auto split: if_splits)
  have present: "find_record ?facts t i \<noteq> None" if "(t, i) \<in> record_key ` set next" for t i
    using that kept by (force simp: record_key_def)
  show ?thesis
  proof (rule that [of ?facts])
    show "validate_records J spec scope out = Ok ?facts" using ok sc by (simp add: out facts_ok_def)
    show "out = to_raw ?facts" by (rule out)
    show "distinct (map record_key next)" by (rule change(1))
    have "(t, i) \<in> record_key ` set out \<longleftrightarrow> (t, i) \<in> record_key ` set next" for t i
      unfolding out find_record_exists using gone [of t i] present [of t i] by argo
    then show "record_key ` set out = record_key ` set next" by (metis prod.exhaust subsetI subset_antisym)
    fix r assume "r \<in> set next"
    from kept [OF this] obtain r' where r': "same_uncaptured spec r r'" "record_key r \<in> record_key ` set before \<longrightarrow> r' = r"
      and "find_record ?facts (rec_table_id r) (rec_id r) = Some (CheckedRecord (normalize_record spec r'))" by blast
    then have "normalize_record spec r' \<in> set out"
      by (auto simp: out to_raw_def image_iff dest!: find_record_Some intro!: bexI)
    with r' show "\<exists>r'. same_uncaptured spec r r'
        \<and> (record_key r \<in> record_key ` set before \<longrightarrow> r' = r) \<and> normalize_record spec r' \<in> set out" by blast
  qed
qed

lemma list_all2_target: "list_all2 P xs ys \<Longrightarrow> x \<in> set xs \<Longrightarrow> \<exists>y\<in>set ys. P x y"
  by (induction rule: list_all2_induct) auto

section \<open>Pending edits write exactly the edited cells\<close>

definition cell_edited ::
  "checked_app_spec \<Rightarrow> scope \<Rightarrow> raw_record list \<Rightarrow> buffers \<Rightarrow> raw_record \<Rightarrow> raw_record \<Rightarrow> field_id \<Rightarrow> bool" where
  "cell_edited checked scope records buffers row row' f \<longleftrightarrow>
     (case bt_get buffers (cell_key (rec_table_id row) (rec_id row) f) of
        None \<Rightarrow> row_value row' f = row_value row f
      | Some text \<Rightarrow> parse_cell checked scope (rec_table_id row) f text records = Ok (row_value row' f))"

lemma ins_list_nonempty [simp]: "ins_list k v xs \<noteq> []"
  by (cases xs) (auto split: if_splits)

lemma row_value_insert: "row_value (r\<lparr>rec_values := bt_insert f v (rec_values r)\<rparr>) g = (if g = f then v else row_value r g)"
  by (simp add: row_value_def)

lemma edit_cell_Ok:
  assumes "edit_cell L checked scope records buffers (row, errors) field = Ok (row', errors')"
    and "entries errors' = []"
  shows "errors' = errors \<and> record_key row' = record_key row \<and> rec_scope row' = rec_scope row
    \<and> cell_edited checked scope records buffers row row' (fld_id field)
    \<and> (\<forall>f. f \<noteq> fld_id field \<longrightarrow> row_value row' f = row_value row f)"
  using assms
  by (auto simp: edit_cell_def cell_edited_def Let_def row_value_insert record_key_def split: option.splits outcome.splits)

lemma edit_cells_Ok:
  assumes "fold_m (edit_cell L checked scope records buffers) (row, errors) fs = Ok (row', errors')"
    and "entries errors' = []" and "distinct (map fld_id fs)"
  shows "errors' = errors \<and> record_key row' = record_key row \<and> rec_scope row' = rec_scope row
    \<and> (\<forall>f. if f \<in> fld_id ` set fs then cell_edited checked scope records buffers row row' f
           else row_value row' f = row_value row f)"
  using assms
proof (induction fs arbitrary: row errors)
  case (Cons field fs)
  from Cons.prems(1) obtain row1 errors1 where
    step: "edit_cell L checked scope records buffers (row, errors) field = Ok (row1, errors1)"
    and rest: "fold_m (edit_cell L checked scope records buffers) (row1, errors1) fs = Ok (row', errors')"
    by (auto simp: and_then_Ok_iff)
  have IH: "errors' = errors1 \<and> record_key row' = record_key row1 \<and> rec_scope row' = rec_scope row1
    \<and> (\<forall>f. if f \<in> fld_id ` set fs then cell_edited checked scope records buffers row1 row' f
           else row_value row' f = row_value row1 f)"
    by (rule Cons.IH [OF rest]) (use Cons.prems in auto)
  with Cons.prems(2) have "entries errors1 = []" by simp
  note one = edit_cell_Ok [OF step this]
  from one have key: "rec_table_id row1 = rec_table_id row" "rec_id row1 = rec_id row" by (simp_all add: record_key_def)
  show ?case
  proof (intro conjI allI)
    fix f
    have "fld_id field \<notin> fld_id ` set fs" using Cons.prems(3) by simp
    with IH [THEN conjunct2, THEN conjunct2, THEN conjunct2, rule_format, of f] one key
    show "if f \<in> fld_id ` set (field # fs) then cell_edited checked scope records buffers row row' f
        else row_value row' f = row_value row f"
      by (cases "f = fld_id field") (auto simp: cell_edited_def split: if_splits option.splits)
  qed (use IH one in auto)
qed simp

text \<open>The table a row is edited by is the checked one, in the order the draft lists its fields.\<close>

lemma compiled_table:
  assumes "compile J d = Ok checked"
  shows "spec_table checked t = map_option sort_fields (List.find (\<lambda>table. tbl_id table = t) (app_tables d))"
proof -
  have checked: "checked = CheckedAppSpec (normalize_definition d)" using assms by (simp add: compile_Ok_iff)
  from compile_wf [OF assms] have dist: "distinct (map tbl_id (map sort_fields (sort_key tbl_id (app_tables d))))"
    by (simp add: wf_spec_def checked normalize_definition_def)
  then have dist': "distinct (map tbl_id (app_tables d))" by (simp add: comp_def distinct_sort_key)
  have find: "List.find (\<lambda>x. k x = t) xs = Some x \<longleftrightarrow> x \<in> set xs \<and> k x = t"
    if "distinct (map k xs)" for k :: "raw_table \<Rightarrow> table_id" and xs x
    using that find_distinct_key [OF that, of x] by (auto dest: find_Some_mem)
  have "spec_table checked t = Some table \<longleftrightarrow>
      map_option sort_fields (List.find (\<lambda>table. tbl_id table = t) (app_tables d)) = Some table" for table
    using find [OF dist'] find [OF dist]
    by (auto simp: spec_table_def checked normalize_definition_def)
  then show ?thesis by (metis not_None_eq)
qed

lemma compiled_fields_distinct:
  assumes "compile J d = Ok checked" and "List.find (\<lambda>table. tbl_id table = t) (app_tables d) = Some table"
  shows "distinct (map fld_id (tbl_fields table))"
proof -
  have "spec_table checked t = Some (sort_fields table)" using assms by (simp add: compiled_table)
  then have "sort_fields table \<in> set (app_tables (spec_def checked))" by (auto dest: spec_table_Some)
  moreover have "distinct (concat (map (\<lambda>table. map fld_id (tbl_fields table)) (app_tables (spec_def checked))))"
    using compile_wf [OF assms(1)] by (simp add: wf_spec_def map_concat comp_def)
  ultimately have "distinct (map fld_id (tbl_fields (sort_fields table)))"
    by (auto simp: distinct_concat_iff)
  then show ?thesis by (simp add: sort_fields_def distinct_sort_key)
qed

definition row_edited ::
  "checked_app_spec \<Rightarrow> scope \<Rightarrow> raw_record list \<Rightarrow> buffers \<Rightarrow> raw_record \<Rightarrow> raw_record \<Rightarrow> bool" where
  "row_edited checked scope records buffers row row' \<longleftrightarrow> record_key row' = record_key row \<and> rec_scope row' = rec_scope row
     \<and> (\<forall>table. spec_table checked (rec_table_id row) = Some table \<longrightarrow>
          (\<forall>f\<in>fld_id ` set (tbl_fields table). cell_edited checked scope records buffers row row' f))"

lemma cell_edited_same:
  "cell_edited checked scope records buffers row r f \<Longrightarrow> row_value r' f = row_value r f \<Longrightarrow>
     cell_edited checked scope records buffers row r' f"
  by (auto simp: cell_edited_def split: option.splits)

lemma row_edited_normalize:
  assumes "row_edited checked scope records buffers row r"
  shows "row_edited checked scope records buffers row (normalize_record checked r)"
  unfolding row_edited_def
proof (intro conjI allI impI ballI)
  from assms show "record_key (normalize_record checked r) = record_key row"
    "rec_scope (normalize_record checked r) = rec_scope row" by (simp_all add: row_edited_def)
  fix table f
  assume table: "spec_table checked (rec_table_id row) = Some table" and f: "f \<in> fld_id ` set (tbl_fields table)"
  from assms have "rec_table_id r = rec_table_id row" by (simp add: row_edited_def record_key_def)
  with table f have "row_value (normalize_record checked r) f = row_value r f" by (simp add: row_value_normalize)
  moreover from assms table f have "cell_edited checked scope records buffers row r f"
    unfolding row_edited_def by blast
  ultimately show "cell_edited checked scope records buffers row (normalize_record checked r) f"
    by (rule cell_edited_same [rotated])
qed

lemma edit_row_Ok:
  assumes spec: "compile J d = Ok checked"
    and "edit_row L d checked records buffers (acc, errors) row = Ok (acc', errors')" and "entries errors' = []"
  shows "errors' = errors \<and> (\<exists>row'. acc' = acc @ [row'] \<and> row_edited checked (scope_for d) records buffers row row')"
proof (cases "List.find (\<lambda>t. tbl_id t = rec_table_id row) (app_tables d)")
  case None
  with assms show ?thesis
    by (intro conjI exI [of _ row]) (auto simp: edit_row_def row_edited_def compiled_table [OF spec])
next
  case (Some table)
  with assms(2) obtain row' where
    cells: "fold_m (edit_cell L checked (scope_for d) records buffers) (row, errors) (tbl_fields table) = Ok (row', errors')"
    and out: "acc' = acc @ [row']"
    by (auto simp: edit_row_def and_then_Ok_iff)
  from edit_cells_Ok [OF cells assms(3) compiled_fields_distinct [OF spec Some]] out Some show ?thesis
    by (auto simp: row_edited_def compiled_table [OF spec])
qed

lemma edit_rows_Ok:
  assumes "compile J d = Ok checked"
    and "fold_m (edit_row L d checked records buffers) (acc, errors) rows = Ok (acc', errors')"
    and "entries errors' = []"
  shows "errors' = errors \<and> (\<exists>rows'. acc' = acc @ rows' \<and> list_all2 (row_edited checked (scope_for d) records buffers) rows rows')"
  using assms(2,3)
proof (induction rows arbitrary: acc errors)
  case (Cons row rows)
  from Cons.prems(1) obtain acc1 errors1 where
    step: "edit_row L d checked records buffers (acc, errors) row = Ok (acc1, errors1)"
    and rest: "fold_m (edit_row L d checked records buffers) (acc1, errors1) rows = Ok (acc', errors')"
    by (auto simp: and_then_Ok_iff)
  from Cons.IH [OF rest Cons.prems(2)] edit_row_Ok [OF assms(1) step] Cons.prems(2) show ?case by fastforce
qed simp

lemma candidate_edits:
  assumes "candidate J L d records buffers = Ok out"
  shows "\<exists>checked facts. compile J d = Ok checked \<and> validate_records J checked (scope_for d) out = Ok facts
    \<and> out = to_raw facts \<and> record_key ` set out = record_key ` set records
    \<and> (\<forall>row\<in>set records. \<exists>row'\<in>set out. row_edited checked (scope_for d) records buffers row row')"
proof -
  from assms obtain checked rows where spec: "compile J d = Ok checked"
    and edits: "fold_m (edit_row L d checked records buffers) ([], bt_empty) records = Ok (rows, bt_empty)"
    and batch: "apply_draft_changes J checked (scope_for d) records rows = Ok out"
    by (auto simp: candidate_def outcome_simps bt_eq_iff)
  have "list_all2 (row_edited checked (scope_for d) records buffers) records rows"
    using edit_rows_Ok [OF spec edits] by simp
  then have edited: "\<exists>row'\<in>set rows. row_edited checked (scope_for d) records buffers row row'" if "row \<in> set records" for row
    using that by (rule list_all2_target)
  from \<open>list_all2 _ records rows\<close> have keys: "map record_key rows = map record_key records"
    by (auto simp: list_all2_conv_all_nth row_edited_def intro: nth_equalityI)
  then have same_keys: "record_key ` set rows = record_key ` set records" by (metis list.set_map)
  obtain facts where
    facts: "validate_records J checked (scope_for d) out = Ok facts" "out = to_raw facts"
    and out: "record_key ` set out = record_key ` set rows"
    and kept: "\<And>r. r \<in> set rows \<Longrightarrow> \<exists>r'. same_uncaptured checked r r'
           \<and> (record_key r \<in> record_key ` set records \<longrightarrow> r' = r) \<and> normalize_record checked r' \<in> set out"
    by (rule apply_draft_changes_Ok [OF batch compile_wf [OF spec]]) (rule that)
  have all: "\<forall>row\<in>set records. \<exists>row'\<in>set out. row_edited checked (scope_for d) records buffers row row'"
  proof
    fix row assume "row \<in> set records"
    from edited [OF this] obtain r where r: "r \<in> set rows" "row_edited checked (scope_for d) records buffers row r" ..
    then have "record_key r \<in> record_key ` set records" using same_keys by blast
    with kept [OF r(1)] have "normalize_record checked r \<in> set out" by blast
    moreover have "row_edited checked (scope_for d) records buffers row (normalize_record checked r)"
      using r(2) by (rule row_edited_normalize)
    ultimately show "\<exists>row'\<in>set out. row_edited checked (scope_for d) records buffers row row'" by blast
  qed
  from out same_keys have "record_key ` set out = record_key ` set records" by simp
  with spec facts all show ?thesis by (intro exI [of _ checked] exI [of _ facts] conjI)
qed

text \<open>
  C19. Saving pending edits writes exactly the edited cells. When the candidate is accepted the definition
  compiles and the result is a valid dataset over the same rows; in every row, a cell with pending input
  holds the value its text parses to against the rows before the edit, and every other cell is untouched.
\<close>

theorem candidate_writes_edited_cells:
  assumes "candidate J L d records buffers = Ok out"
  shows "\<exists>checked facts. compile J d = Ok checked \<and> validate_records J checked (scope_for d) out = Ok facts
    \<and> out = to_raw facts \<and> record_key ` set out = record_key ` set records
    \<and> (\<forall>row\<in>set records. \<exists>row'\<in>set out. row_edited checked (scope_for d) records buffers row row')"
  using assms by (rule candidate_edits)

section \<open>A cell shows what typing it would write\<close>

text \<open>
  C33. The text the Builder shows in a cell is an input for it: typed back into the field, it parses to the
  very value it was shown for. That covers the reserved words, which are escaped, the extreme integers
  and references, which are shown by identity; a missing value shows as the empty cell, which parses to a
  blank.
\<close>

theorem value_input_round_trip:
  assumes "app_id scope = spec_app_id spec" and "spec_field spec table field = Some def"
    and "cell_ok scope records (fld_type def) v" and "length records \<le> MAX_RECORDS"
    and "\<forall>r. v = Ref r \<longrightarrow> record_id_new (as_str (ref_record_id r)) = Ok (ref_record_id r)"
  shows "parse_cell spec scope table field (value_input (Some v)) records = Ok v
    \<and> parse_cell spec scope table field (value_input None) records = Ok Blank"
proof
  note complete = parse_cell_complete [OF assms]
  show "parse_cell spec scope table field (value_input (Some v)) records = Ok v"
  proof (cases v)
    case (Text s)
    show ?thesis
    proof (cases "s = [] \<or> s = ''null'' \<or> starts_with s ''text:''")
      case False
      from Text assms(3) have "fld_type def = FText" "length s \<le> MAX_TEXT_BYTES"
        by (cases "fld_type def"; simp add: cell_ok_def)+
      with False assms(1,2) Text show ?thesis
        by (auto simp: value_input_def parse_cell_def parse_present_def bounded_text_def strip_prefix_def)
    qed (use complete Text in \<open>auto simp: value_input_def\<close>)
  qed (use complete in \<open>auto simp: value_input_def\<close>)
  show "parse_cell spec scope table field (value_input None) records = Ok Blank"
    using assms(1,2) by (simp add: value_input_def parse_cell_def strip_prefix_def starts_with_def)
qed

section \<open>The snapshot's text\<close>

lemma scope_for_new: "scope_new ''tenant_local_fixture'' (app_app_id d) = Ok (scope_for d)"
  unfolding scope_for_def scope_new_def by simp code_simp

text \<open>What reading a snapshot back gives: the definition and the rows in canonical order.\<close>

definition canonical_snapshot :: "draft_snapshot \<Rightarrow> draft_snapshot" where
  "canonical_snapshot s = (let spec = CheckedAppSpec (normalize_definition (dsn_spec s)) in
     s\<lparr>dsn_spec := spec_def spec, dsn_records := normalized spec (dsn_records s)\<rparr>)"

text \<open>The JSON library reads the three documents it wrote for this snapshot.\<close>

definition reads_back :: "serde \<Rightarrow> snapshot_json \<Rightarrow> draft_snapshot \<Rightarrow> bool" where
  "reads_back J N s \<longleftrightarrow>
     (let c = canonical_snapshot s in
      de_spec J (concat (ser_spec J (dsn_spec c))) = Ok (dsn_spec c)
      \<and> de_records J (concat (ser_records J (dsn_records c))) = Ok (dsn_records c)
      \<and> (\<forall>stored raw. sts_format stored = 1 \<and> sts_revision stored = show_nat (unat (dsn_revision c))
          \<and> sts_definition_json stored = concat (ser_spec J (dsn_spec c))
          \<and> sts_records_json stored = concat (ser_records J (dsn_records c))
          \<and> snj_write N stored = Ok raw \<longrightarrow> snj_read N raw = Ok stored))"

lemma encode_saved_Ok:
  assumes "encode_saved J N s = Ok raw"
  obtains checked rows where "compile J (dsn_spec s) = Ok checked"
    and "checked = CheckedAppSpec (normalize_definition (dsn_spec s))"
    and "validate_records J checked (scope_for (dsn_spec s)) (dsn_records s) = Ok rows"
    and "to_raw rows = normalized checked (dsn_records s)"
    and "spec_encode J checked = Ok (concat (ser_spec J (spec_def checked)))"
    and "checked_records_encode J rows = Ok (concat (ser_records J (to_raw rows)))"
    and "snj_write N \<lparr>sts_format = 1, sts_revision = show_nat (unat (dsn_revision s)),
          sts_definition_json = concat (ser_spec J (spec_def checked)),
          sts_records_json = concat (ser_records J (to_raw rows))\<rparr> = Ok raw"
    and "length raw \<le> MAX_BYTES"
proof -
  from assms obtain checked rows a b where spec: "compile J (dsn_spec s) = Ok checked"
    and rows: "validate_records J checked (scope_for (dsn_spec s)) (dsn_records s) = Ok rows"
    and a: "spec_encode J checked = Ok a" and b: "checked_records_encode J rows = Ok b"
    and raw: "snj_write N \<lparr>sts_format = 1, sts_revision = show_nat (unat (dsn_revision s)),
          sts_definition_json = a, sts_records_json = b\<rparr> = Ok raw" and len: "length raw \<le> MAX_BYTES"
    by (auto simp: encode_saved_def outcome_simps from_utf8_def split: if_splits)
  from a have a': "a = concat (ser_spec J (spec_def checked))" by (simp add: spec_encode_def bounded_encode_Ok_iff)
  from b have b': "b = concat (ser_records J (to_raw rows))"
    by (simp add: checked_records_encode_def bounded_encode_Ok_iff)
  show ?thesis
    by (rule that [OF spec _ rows]) (use spec rows a b raw len a' b' in
      \<open>auto simp: compile_Ok_iff validate_records_Ok_iff\<close>)
qed

lemma saved_round_trip:
  assumes "encode_saved J N s = Ok raw" and "reads_back J N s" and "app_tables (dsn_spec s) \<noteq> []"
  shows "decode_saved J N raw = Ok (canonical_snapshot s) \<and> same_content J (canonical_snapshot s) s"
proof -
  from encode_saved_Ok [OF assms(1)] obtain checked rows where
    spec: "compile J (dsn_spec s) = Ok checked" and checked: "checked = CheckedAppSpec (normalize_definition (dsn_spec s))"
    and rows: "validate_records J checked (scope_for (dsn_spec s)) (dsn_records s) = Ok rows"
    and raw_rows: "to_raw rows = normalized checked (dsn_records s)"
    and a: "spec_encode J checked = Ok (concat (ser_spec J (spec_def checked)))"
    and b: "checked_records_encode J rows = Ok (concat (ser_records J (to_raw rows)))"
    and raw: "snj_write N \<lparr>sts_format = 1, sts_revision = show_nat (unat (dsn_revision s)),
          sts_definition_json = concat (ser_spec J (spec_def checked)),
          sts_records_json = concat (ser_records J (to_raw rows))\<rparr> = Ok raw" and len: "length raw \<le> MAX_BYTES"
    by metis
  let ?c = "canonical_snapshot s"
  have c': "?c = \<lparr>dsn_revision = dsn_revision s, dsn_spec = spec_def checked, dsn_records = to_raw rows\<rparr>"
    by (cases s) (simp add: canonical_snapshot_def Let_def checked raw_rows)
  then have c: "dsn_spec ?c = spec_def checked" "dsn_records ?c = to_raw rows" "dsn_revision ?c = dsn_revision s"
    by simp_all
  have scope: "scope_for (spec_def checked) = scope_for (dsn_spec s)"
    by (simp add: scope_for_def checked normalize_definition_def)
  note spec' = compile_normalized [OF spec]
  have rows': "validate_records J checked (scope_for (dsn_spec s)) (to_raw rows) = Ok rows"
    using validate_records_facts_ok [OF rows] validate_records_scope [OF rows] by (simp add: facts_ok_def)
  from assms(2) have read: "de_spec J (concat (ser_spec J (spec_def checked))) = Ok (spec_def checked)"
    "de_records J (concat (ser_records J (to_raw rows))) = Ok (to_raw rows)"
    "snj_read N raw = Ok \<lparr>sts_format = 1, sts_revision = show_nat (unat (dsn_revision s)),
          sts_definition_json = concat (ser_spec J (spec_def checked)),
          sts_records_json = concat (ser_records J (to_raw rows))\<rparr>"
    using raw by (auto simp: reads_back_def Let_def c)
  have tables: "app_tables (spec_def checked) \<noteq> []"
    using assms(3) by (simp add: checked normalize_definition_def)
  have revision: "parse_u64 (show_nat (unat (dsn_revision s))) = Ok (dsn_revision s)"
    using parse_u64_show_nat [of "unat (dsn_revision s)"] unsigned_less [of "dsn_revision s"] by simp
  have "decode_saved J N raw = Ok ?c"
    using len read spec' rows' tables revision a b
    by (simp add: decode_saved_def spec_decode_def decode_records_def bounded_decode_def spec_encode_def
        checked_records_encode_def bounded_encode_Ok_iff Let_def scope c')
  moreover have "same_content J ?c s"
    using spec spec' rows rows' a b by (simp add: same_content_def canonical_content_def c scope)
  ultimately show ?thesis ..
qed

text \<open>
  C32. A saved draft is restored as it was: what \<open>encode_saved\<close> writes, \<open>decode_saved\<close> reads back as the
  same revision, definition and rows, in canonical order, and as the same content.
\<close>

theorem saved_snapshot_round_trip:
  assumes "encode_saved J N s = Ok raw" and "reads_back J N s" and "app_tables (dsn_spec s) \<noteq> []"
  shows "decode_saved J N raw = Ok (canonical_snapshot s) \<and> same_content J (canonical_snapshot s) s"
  using assms by (rule saved_round_trip)

section \<open>An import adds exactly its rows\<close>

lemma import_column_cases:
  assumes "import_column L table (chosen, diagnostics) (column, header) = (chosen', [])"
  shows "diagnostics = [] \<and> (\<exists>field\<in>set (tbl_fields table). chosen' = chosen @ [field]
    \<and> as_str (fld_id field) = header \<and> fld_id field \<notin> fld_id ` set chosen)"
  using assms
  by (auto simp: import_column_def Let_def list_ex_iff dest!: find_Some_mem split: option.splits if_splits) metis

lemma import_columns_loop:
  assumes "foldl (import_column L table) (chosen, diagnostics) (List.enumerate n headers) = (chosen', [])"
  shows "diagnostics = [] \<and> (\<exists>new. chosen' = chosen @ new \<and> map (\<lambda>f. as_str (fld_id f)) new = headers
    \<and> set new \<subseteq> set (tbl_fields table) \<and> (distinct (map fld_id chosen) \<longrightarrow> distinct (map fld_id chosen')))"
  using assms
proof (induction headers arbitrary: n chosen diagnostics)
  case (Cons header headers)
  obtain chosen1 diagnostics1 where
    step: "import_column L table (chosen, diagnostics) (n, header) = (chosen1, diagnostics1)" by fastforce
  from Cons.prems have "foldl (import_column L table) (chosen1, diagnostics1) (List.enumerate (Suc n) headers) = (chosen', [])"
    by (simp add: step)
  note IH = Cons.IH [OF this]
  with step have "import_column L table (chosen, diagnostics) (n, header) = (chosen1, [])" by simp
  from import_column_cases [OF this] obtain field where "diagnostics = []" "field \<in> set (tbl_fields table)"
    "chosen1 = chosen @ [field]" "as_str (fld_id field) = header" "fld_id field \<notin> fld_id ` set chosen" by blast
  with IH show ?case by (auto simp: image_iff)
qed simp

lemma import_columns_Ok:
  assumes "import_columns L table headers = (chosen, [])"
  shows "map (\<lambda>f. as_str (fld_id f)) chosen = headers" and "set chosen \<subseteq> set (tbl_fields table)"
    and "distinct (map fld_id chosen)"
  using import_columns_loop [OF assms [unfolded import_columns_def]] by auto

lemma import_cells_Ok:
  assumes "fold_m (import_cell L checked scope table baseline index) (vs, diagnostics) (List.enumerate n cells) = Ok (vs', [])"
    and "distinct (map (fld_id \<circ> fst) cells)"
  shows "diagnostics = []
    \<and> (\<forall>(field, text)\<in>set cells. \<exists>v. parse_cell checked scope (tbl_id table) (fld_id field) text baseline = Ok v
         \<and> bt_get vs' (fld_id field) = Some v)
    \<and> (\<forall>f. f \<notin> fld_id ` fst ` set cells \<longrightarrow> bt_get vs' f = bt_get vs f)"
  using assms
proof (induction cells arbitrary: n vs diagnostics)
  case (Cons cell cells)
  obtain field t where cell: "cell = (field, t)" by fastforce
  from Cons.prems(1) obtain vs1 diagnostics1 where
    step: "import_cell L checked scope table baseline index (vs, diagnostics) (n, field, t) = Ok (vs1, diagnostics1)"
    and rest: "fold_m (import_cell L checked scope table baseline index) (vs1, diagnostics1)
        (List.enumerate (Suc n) cells) = Ok (vs', [])"
    by (auto simp: and_then_Ok_iff cell)
  note IH = Cons.IH [OF rest]
  have new: "fld_id field \<notin> fld_id ` fst ` set cells" using Cons.prems(2) by (auto simp: cell image_image)
  from IH Cons.prems(2) have "diagnostics1 = []" by simp
  with step obtain v where "parse_cell checked scope (tbl_id table) (fld_id field) t baseline = Ok v"
    "vs1 = bt_insert (fld_id field) v vs" "diagnostics = []"
    by (auto simp: import_cell_def split: outcome.splits)
  with IH new Cons.prems(2) show ?case by (auto simp: cell)
qed simp

text \<open>What one line of the source becomes: the row's cells parse from the line's, nothing else is set.\<close>

definition line_imported ::
  "checked_app_spec \<Rightarrow> scope \<Rightarrow> raw_table \<Rightarrow> raw_field list \<Rightarrow> raw_record list \<Rightarrow> string \<Rightarrow> raw_record \<Rightarrow> bool" where
  "line_imported checked scope table chosen baseline line r \<longleftrightarrow>
     rec_scope r = scope \<and> rec_table_id r = tbl_id table \<and> length (split_on (CHR 0x09) line) = length chosen
     \<and> (\<forall>(field, text)\<in>set (zip chosen (split_on (CHR 0x09) line)).
          parse_cell checked scope (tbl_id table) (fld_id field) text baseline = Ok (row_value r (fld_id field)))
     \<and> (\<forall>f. f \<notin> fld_id ` set chosen \<longrightarrow> bt_get (rec_values r) f = None)"

lemma import_row_Ok:
  assumes "import_row L checked scope table chosen baseline (next, diagnostics) (index, line) = Ok (next', [])"
    and "distinct (map fld_id chosen)"
  shows "diagnostics = [] \<and> (\<exists>r. next' = next @ [r] \<and> line_imported checked scope table chosen baseline line r
    \<and> as_str (rec_id r) = ''rec_import_'' @ show_nat (import_suffix next))"
proof -
  let ?cells = "split_on (CHR 0x09) line"
  from assms(1) obtain vs i where len: "length ?cells = length chosen"
    and cells: "fold_m (import_cell L checked scope table baseline index) (bt_empty, diagnostics)
        (List.enumerate 0 (zip chosen ?cells)) = Ok (vs, [])"
    and i: "record_id_new (''rec_import_'' @ show_nat (import_suffix next)) = Ok i"
    and next': "next' = next @ [\<lparr>rec_scope = scope, rec_id = i, rec_table_id = tbl_id table, rec_values = vs\<rparr>]"
    unfolding import_row_def Let_def prod.case
    by (simp only: if_Ok_Err_simps outcome_simps split: if_splits prod.splits) auto
  have zip: "map (fld_id \<circ> fst) (zip chosen ?cells) = map fld_id chosen"
    using len by (simp flip: map_map)
  then have keys: "fld_id ` fst ` set (zip chosen ?cells) = fld_id ` set chosen"
    by (metis image_comp list.set_map)
  from import_cells_Ok [OF cells] assms(2) zip have ok: "diagnostics = []"
    "\<forall>(field, text)\<in>set (zip chosen ?cells). \<exists>v. parse_cell checked scope (tbl_id table) (fld_id field) text baseline = Ok v
         \<and> bt_get vs (fld_id field) = Some v"
    "\<forall>f. f \<notin> fld_id ` set chosen \<longrightarrow> bt_get vs f = None"
    by (simp_all add: keys)
  from i have "as_str i = ''rec_import_'' @ show_nat (import_suffix next)"
    by (auto simp: record_id_new_def ident_new_Ok_iff)
  with ok len show ?thesis
    by (auto simp: next' line_imported_def row_value_def split: option.split)
qed

lemma import_rows_Ok:
  assumes "fold_m (import_row L checked scope table chosen baseline) (next, diagnostics) (List.enumerate n lines) = Ok (next', [])"
    and "distinct (map fld_id chosen)"
  shows "diagnostics = [] \<and> (\<exists>new. next' = next @ new \<and> list_all2 (line_imported checked scope table chosen baseline) lines new)"
  using assms(1)
proof (induction lines arbitrary: n "next" diagnostics)
  case (Cons line lines)
  from Cons.prems obtain next1 diagnostics1 where
    step: "import_row L checked scope table chosen baseline (next, diagnostics) (n, line) = Ok (next1, diagnostics1)"
    and rest: "fold_m (import_row L checked scope table chosen baseline) (next1, diagnostics1)
        (List.enumerate (Suc n) lines) = Ok (next', [])"
    by (auto simp: and_then_Ok_iff)
  from Cons.IH [OF rest] obtain new where "diagnostics1 = []" "next' = next1 @ new"
    "list_all2 (line_imported checked scope table chosen baseline) lines new" by blast
  moreover from import_row_Ok [of L checked scope table chosen baseline "next" diagnostics n line] step \<open>diagnostics1 = []\<close> assms(2)
  obtain r where "diagnostics = []" "next1 = next @ [r]" "line_imported checked scope table chosen baseline line r" by blast
  ultimately show ?case by (intro conjI exI [of _ "r # new"]) simp_all
qed simp

lemma import_adds_rows:
  assumes "prepare_import J L d records t source = Ok out"
  shows "\<exists>checked facts table chosen new. compile J d = Ok checked
    \<and> List.find (\<lambda>table. tbl_id table = t) (app_tables d) = Some table
    \<and> map (\<lambda>f. as_str (fld_id f)) chosen = split_on (CHR 0x09) (hd (str_lines source))
    \<and> distinct (map fld_id chosen) \<and> set chosen \<subseteq> set (tbl_fields table)
    \<and> list_all2 (line_imported checked (scope_for d) table chosen records) (tl (str_lines source)) new
    \<and> 1 \<le> length new \<and> length new \<le> MAX_IMPORT_ROWS
    \<and> validate_records J checked (scope_for d) out = Ok facts \<and> out = to_raw facts
    \<and> distinct (map record_key (records @ new)) \<and> record_key ` set out = record_key ` set (records @ new)
    \<and> (\<forall>r\<in>set records. normalize_record checked r \<in> set out)
    \<and> (\<forall>r\<in>set new. \<exists>r'. same_uncaptured checked r r' \<and> normalize_record checked r' \<in> set out)"
proof -
  let ?lines = "str_lines source"
  from assms obtain table chosen checked rows where
    table: "List.find (\<lambda>table. tbl_id table = t) (app_tables d) = Some table"
    and lines: "2 \<le> length ?lines" "length ?lines \<le> MAX_IMPORT_ROWS + 1"
    and columns: "import_columns L table (split_on (CHR 0x09) (hd ?lines)) = (chosen, [])"
    and spec: "compile J d = Ok checked"
    and loop: "fold_m (import_row L checked (scope_for d) table chosen records) (records, [])
        (List.enumerate 0 (tl ?lines)) = Ok (rows, [])"
    and batch: "apply_draft_changes J checked (scope_for d) records rows = Ok out"
    by (auto simp: prepare_import_def Let_def outcome_simps split: option.splits if_splits prod.splits)
  note header = import_columns_Ok [OF columns]
  from import_rows_Ok [OF loop header(3)] obtain new where rows: "rows = records @ new"
    and new: "list_all2 (line_imported checked (scope_for d) table chosen records) (tl ?lines) new" by auto
  from list_all2_lengthD [OF new] lines have len: "1 \<le> length new" "length new \<le> MAX_IMPORT_ROWS" by simp_all
  obtain facts where facts: "validate_records J checked (scope_for d) out = Ok facts" "out = to_raw facts"
    and dist: "distinct (map record_key rows)" and keys: "record_key ` set out = record_key ` set rows"
    and kept: "\<And>r. r \<in> set rows \<Longrightarrow> \<exists>r'. same_uncaptured checked r r'
           \<and> (record_key r \<in> record_key ` set records \<longrightarrow> r' = r) \<and> normalize_record checked r' \<in> set out"
    by (rule apply_draft_changes_Ok [OF batch compile_wf [OF spec]]) (rule that)
  have old: "\<forall>r\<in>set records. normalize_record checked r \<in> set out"
    using kept unfolding rows by (metis UnCI image_eqI set_append)
  have added: "\<forall>r\<in>set new. \<exists>r'. same_uncaptured checked r r' \<and> normalize_record checked r' \<in> set out"
    using kept unfolding rows by (metis UnCI set_append)
  show ?thesis
    by (rule exI [of _ checked], rule exI [of _ facts], rule exI [of _ table], rule exI [of _ chosen], rule exI [of _ new])
      (use spec table header new len facts dist keys old added in \<open>simp only: rows\<close>)
qed

text \<open>
  C31. An import is all or nothing, and adds exactly what it shows. When it is accepted there is a header of
  distinct fields of the selected table and between one and a hundred data lines, each with a cell per
  column; the result is a valid dataset that holds every earlier row unchanged (in canonical form) and one
  new row per line, under fresh identities, whose cells are what the line's texts parse to. Nothing else
  of a new row is set but its captured prices, and there is no other row.
\<close>

theorem import_adds_exactly_its_rows:
  assumes "prepare_import J L d records t source = Ok out"
  shows "\<exists>checked facts table chosen new. compile J d = Ok checked
    \<and> List.find (\<lambda>table. tbl_id table = t) (app_tables d) = Some table
    \<and> map (\<lambda>f. as_str (fld_id f)) chosen = split_on (CHR 0x09) (hd (str_lines source))
    \<and> distinct (map fld_id chosen) \<and> set chosen \<subseteq> set (tbl_fields table)
    \<and> list_all2 (line_imported checked (scope_for d) table chosen records) (tl (str_lines source)) new
    \<and> 1 \<le> length new \<and> length new \<le> MAX_IMPORT_ROWS
    \<and> validate_records J checked (scope_for d) out = Ok facts \<and> out = to_raw facts
    \<and> distinct (map record_key (records @ new)) \<and> record_key ` set out = record_key ` set (records @ new)
    \<and> (\<forall>r\<in>set records. normalize_record checked r \<in> set out)
    \<and> (\<forall>r\<in>set new. \<exists>r'. same_uncaptured checked r r' \<and> normalize_record checked r' \<in> set out)"
  using assms by (rule import_adds_rows)

section \<open>Witnesses\<close>

definition english :: language where
  "english = \<lparr>lang_vi = False, lang_vi_text = (\<lambda>s. s)\<rparr>"

definition draft_scope :: scope where "draft_scope = scope_for example_spec"

definition draft_rows :: "raw_record list" where "draft_rows = example_records draft_scope"

text \<open>The products of the example alone, for the witnesses that evaluate a whole batch.\<close>

definition price_list :: raw_app_spec where
  "price_list = example_spec\<lparr>app_tables := drop 3 (app_tables example_spec), app_capture_rules := []\<rparr>"

definition price_rows :: "raw_record list" where "price_rows = [draft_rows ! 2]"

definition price_edit :: buffers where
  "price_edit = bt_of_list [(''tbl_products/rec_product_1/fld_product_price'', ''1999'')]"

definition import_text :: string where
  "import_text = ''fld_product_name'' @ [CHR 0x09] @ ''fld_product_price'' @ [CHR 0x0A]
     @ ''text:null'' @ [CHR 0x09] @ ''-5'' @ [CHR 0x0D, CHR 0x0A]"

text \<open>A JSON library that writes and reads these documents.\<close>

definition draft_start :: draft_snapshot where
  "draft_start = \<lparr>dsn_revision = 7, dsn_spec = example_spec, dsn_records = draft_rows\<rparr>"

definition draft_serde :: serde where
  "draft_serde = plain_serde\<lparr>de_spec := (\<lambda>_. Ok (normalize_definition example_spec)),
     de_records := (\<lambda>_. Ok (normalized (CheckedAppSpec (normalize_definition example_spec)) draft_rows))\<rparr>"

definition draft_json :: snapshot_json where
  "draft_json = \<lparr>snj_read = (\<lambda>raw. Ok \<lparr>sts_format = 1, sts_revision = raw, sts_definition_json = ''{}'',
       sts_records_json = ''[]''\<rparr>), snj_write = (\<lambda>stored. Ok (sts_revision stored))\<rparr>"

definition demo_rows :: "raw_record list" where
  "demo_rows = normalized (CheckedAppSpec (normalize_definition example_spec)) draft_rows"

text \<open>The examples are evaluated together, so that the definitions are prepared for evaluation once.\<close>

lemma draft_examples:
  "is_ok (candidate plain_serde english price_list price_rows price_edit)
   \<and> is_ok (prepare_import plain_serde english price_list price_rows (Ident ''tbl_products'') import_text)
   \<and> encode_saved draft_serde draft_json draft_start = Ok ''7''
   \<and> candidate draft_serde \<lparr>lang_vi = True, lang_vi_text = (\<lambda>s. s)\<rparr> example_spec draft_rows bt_empty = Ok demo_rows"
  by code_simp

lemmas price_edit_accepted = draft_examples [THEN conjunct1]
  and import_accepted = draft_examples [THEN conjunct2, THEN conjunct1]
  and draft_start_encodes = draft_examples [THEN conjunct2, THEN conjunct2, THEN conjunct1]
  and demo_candidate = draft_examples [THEN conjunct2, THEN conjunct2, THEN conjunct2]

theorem candidate_writes_edited_cells_witness:
  "\<exists>out. candidate plain_serde english price_list price_rows price_edit = Ok out
     \<and> (\<exists>row\<in>set out. row_value row (Ident ''fld_product_price'') = Money 1999)"
proof -
  from price_edit_accepted obtain out where out: "candidate plain_serde english price_list price_rows price_edit = Ok out"
    by (auto simp: is_ok_iff)
  define product where "product = price_rows ! 0"
  have product: "product \<in> set price_rows" "rec_table_id product = Ident ''tbl_products''"
    "bt_get price_edit (cell_key (rec_table_id product) (rec_id product) (Ident ''fld_product_price'')) = Some ''1999''"
    unfolding product_def by code_simp+
  from candidate_writes_edited_cells [OF out] product(1) obtain checked row where
    spec: "compile plain_serde price_list = Ok checked" and row: "row \<in> set out"
    "row_edited checked (scope_for price_list) price_rows price_edit product row" by blast
  from spec have checked: "checked = CheckedAppSpec (normalize_definition price_list)" by (simp add: compile_Ok_iff)
  have "spec_field checked (Ident ''tbl_products'') (Ident ''fld_product_price'')
      = Some (fixture_field ''fld_product_price'' ''Price'' True FMoney)"
    unfolding checked by code_simp
  from spec_field_Some [OF this] obtain table where "spec_table checked (Ident ''tbl_products'') = Some table"
    "Ident ''fld_product_price'' \<in> fld_id ` set (tbl_fields table)" by (force simp: fixture_field_def)
  then have field: "\<exists>table. spec_table checked (Ident ''tbl_products'') = Some table
      \<and> Ident ''fld_product_price'' \<in> fld_id ` set (tbl_fields table)" by blast
  have "cell_edited checked (scope_for price_list) price_rows price_edit product row (Ident ''fld_product_price'')"
    using row(2) field product(2) by (auto simp: row_edited_def)
  then have "parse_cell checked (scope_for price_list) (Ident ''tbl_products'') (Ident ''fld_product_price'')
      ''1999'' price_rows = Ok (row_value row (Ident ''fld_product_price''))"
    using product(2,3) by (simp add: cell_edited_def)
  moreover have "parse_cell checked (scope_for price_list) (Ident ''tbl_products'') (Ident ''fld_product_price'')
      ''1999'' price_rows = Ok (Money 1999)" unfolding checked by code_simp
  ultimately show ?thesis using out row(1) by auto
qed

theorem value_input_round_trip_witness:
  "parse_cell (CheckedAppSpec example_spec) draft_scope (Ident ''tbl_products'') (Ident ''fld_product_name'')
     (value_input (Some (Text ''null''))) draft_rows = Ok (Text ''null'')"
proof (rule value_input_round_trip [THEN conjunct1])
  show "app_id draft_scope = spec_app_id (CheckedAppSpec example_spec)" by code_simp
  show "spec_field (CheckedAppSpec example_spec) (Ident ''tbl_products'') (Ident ''fld_product_name'')
      = Some (fixture_field ''fld_product_name'' ''Name'' True FText)" by code_simp
  show "length draft_rows \<le> MAX_RECORDS" by code_simp
qed (auto simp: cell_ok_def reference_ok_def fixture_field_def MAX_TEXT_BYTES_def)

theorem saved_snapshot_round_trip_witness:
  "decode_saved draft_serde draft_json ''7'' = Ok (canonical_snapshot draft_start)"
proof (rule saved_snapshot_round_trip [OF draft_start_encodes, THEN conjunct1])
  show "reads_back draft_serde draft_json draft_start"
    by (auto simp: reads_back_def canonical_snapshot_def Let_def draft_serde_def draft_json_def plain_serde_def
        draft_start_def)
  show "app_tables (dsn_spec draft_start) \<noteq> []" by code_simp
qed

theorem import_adds_exactly_its_rows_witness:
  "\<exists>out new. prepare_import plain_serde english price_list price_rows (Ident ''tbl_products'') import_text = Ok out
     \<and> length new = 1 \<and> record_key ` set out = record_key ` set (price_rows @ new)"
proof -
  from import_accepted obtain out where
    out: "prepare_import plain_serde english price_list price_rows (Ident ''tbl_products'') import_text = Ok out"
    by (auto simp: is_ok_iff)
  from import_adds_exactly_its_rows [OF out] obtain checked table chosen new where
    new: "list_all2 (line_imported checked (scope_for price_list) table chosen price_rows) (tl (str_lines import_text)) new"
    and keys: "record_key ` set out = record_key ` set (price_rows @ new)" by blast
  have "length (tl (str_lines import_text)) = 1" by code_simp
  with list_all2_lengthD [OF new] have "length new = 1" by simp
  with out keys show ?thesis by blast
qed

end
