(* ===== verification/Builder.thy ===== *)
theory Builder
  imports Draft
begin

text \<open>
  The mounted Builder (\<open>apps/evobase-builder/src/lib.rs\<close>: \<open>FieldEditor\<close> and \<open>App\<close>; \<open>constraints.rs\<close>; the
  two editors of the policy source in \<open>policy.rs\<close>) as a state machine: the signals of a tab are a record,
  every event handler is a function on it, and the local storage the tabs share is written under the web
  lock. Rendering, focus and the page's history are left out.
\<close>

section \<open>State\<close>

datatype status =
    Clean | Dirty | Saving | Saved | Invalid | Conflict | Expired | StorageError | Unsupported

text \<open>The task \<open>save\<close> spawns: the draft it saves, the bytes it expects in storage and the bytes it writes.\<close>

record save_task =
  svt_draft :: draft_snapshot
  svt_expected :: string
  svt_raw :: string

text \<open>The signals of one tab, and the saves it has spawned that are still waiting.\<close>

record builder =
  bld_restoration_failed :: bool
  bld_persisted :: "string option"
  bld_saved :: draft_snapshot
  bld_spec :: raw_app_spec
  bld_records :: "raw_record list"
  bld_table :: table_id
  bld_vi :: bool
  bld_buffers :: buffers
  bld_errors :: buffers
  bld_status :: status
  bld_paused :: bool
  bld_composing :: bool
  bld_saving :: bool
  bld_app_name :: string
  bld_field_name :: string
  bld_field_type :: string
  bld_import_source :: string
  bld_import_errors :: "string list"
  bld_form_mode :: bool
  bld_task :: "save_task option"

record builder_env =
  ben_json :: serde
  ben_snapshot :: snapshot_json
  ben_vi_text :: "string \<Rightarrow> string"

definition language_of :: "builder_env \<Rightarrow> builder \<Rightarrow> language" where
  "language_of E b = \<lparr>lang_vi = bld_vi b, lang_vi_text = ben_vi_text E\<rparr>"

section \<open>Starting\<close>

text \<open>The location's hash, where there is one, names a table of the definition.\<close>

definition table_from_hash :: "raw_app_spec \<Rightarrow> string option \<Rightarrow> table_id option" where
  "table_from_hash spec location_hash =
     Option.bind location_hash (\<lambda>hash.
     case table_id_new (dropWhile (\<lambda>c. c = CHR ''#'') hash) of
       Ok i \<Rightarrow> if list_ex (\<lambda>t. tbl_id t = i) (app_tables spec) then Some i else None
     | _ \<Rightarrow> None)"

definition selected_table :: "raw_app_spec \<Rightarrow> string option \<Rightarrow> table_id" where
  "selected_table spec location_hash =
     (case table_from_hash spec location_hash of Some i \<Rightarrow> i | None \<Rightarrow> tbl_id (hd (app_tables spec)))"

definition default_snapshot :: draft_snapshot where
  "default_snapshot = \<lparr>dsn_revision = 0, dsn_spec = example_spec,
     dsn_records = example_records (scope_for example_spec)\<rparr>"

text \<open>\<open>stored_bytes\<close> is what reading the storage gave: an error, nothing, or the saved text.\<close>

definition builder_start ::
  "builder_env \<Rightarrow> (string, string option) outcome \<Rightarrow> string option \<Rightarrow> builder" where
  "builder_start E stored_bytes location_hash =
     (let (initial, load_failed) = (case stored_bytes of
            Ok (Some raw) \<Rightarrow> (case decode_saved (ben_json E) (ben_snapshot E) raw of
              Ok snapshot \<Rightarrow> (snapshot, False) | _ \<Rightarrow> (default_snapshot, True))
          | Ok None \<Rightarrow> (default_snapshot, False)
          | _ \<Rightarrow> (default_snapshot, True)) in
      \<lparr>bld_restoration_failed = load_failed,
       bld_persisted = (case stored_bytes of Ok bytes \<Rightarrow> bytes | _ \<Rightarrow> None),
       bld_saved = initial, bld_spec = dsn_spec initial, bld_records = dsn_records initial,
       bld_table = selected_table (dsn_spec initial) location_hash, bld_vi = True,
       bld_buffers = bt_empty, bld_errors = bt_empty,
       bld_status = (if load_failed then StorageError else Clean),
       bld_paused = False, bld_composing = False, bld_saving = False,
       bld_app_name = app_name (dsn_spec initial), bld_field_name = [], bld_field_type = ''text'',
       bld_import_source = [], bld_import_errors = [], bld_form_mode = False, bld_task = None\<rparr>)"

section \<open>Cells\<close>

definition type_cell :: "string \<Rightarrow> string \<Rightarrow> builder \<Rightarrow> builder" where
  "type_cell key text b = b\<lparr>bld_buffers := bt_insert key text (bld_buffers b), bld_status := Dirty\<rparr>"

definition commit_cells :: "builder_env \<Rightarrow> builder \<Rightarrow> builder" where
  "commit_cells E b =
     (if bld_composing b then b
      else if entries (bld_buffers b) = [] then b
      else case candidate (ben_json E) (language_of E b) (bld_spec b) (bld_records b) (bld_buffers b) of
        Ok next \<Rightarrow> b\<lparr>bld_records := next, bld_buffers := bt_empty, bld_errors := bt_empty, bld_status := Dirty\<rparr>
      | Err diagnostics \<Rightarrow> b\<lparr>bld_errors := diagnostics, bld_status := Invalid\<rparr>
      | Panic \<Rightarrow> b)"

definition escape_cell :: "string \<Rightarrow> builder \<Rightarrow> builder" where
  "escape_cell key b =
     (if bld_composing b then b
      else b\<lparr>bld_buffers := bt_remove key (bld_buffers b), bld_errors := bt_remove key (bld_errors b),
             bld_status := Dirty\<rparr>)"

text \<open>The text shown in a cell, and whether a capture rule manages it.\<close>

definition shown_cell :: "builder \<Rightarrow> table_id \<Rightarrow> record_id \<Rightarrow> field_id \<Rightarrow> string" where
  "shown_cell b table record field =
     (case bt_get (bld_buffers b) (cell_key table record field) of
        Some text \<Rightarrow> text
      | None \<Rightarrow> (case List.find (\<lambda>r. rec_table_id r = table \<and> rec_id r = record) (bld_records b) of
          Some r \<Rightarrow> value_input (bt_get (rec_values r) field) | None \<Rightarrow> []))"

definition managed_cell :: "builder \<Rightarrow> table_id \<Rightarrow> field_id \<Rightarrow> bool" where
  "managed_cell b table field = list_ex (\<lambda>rule. cap_line_table rule = table
     \<and> (cap_captured_price_field rule = field \<or> cap_product_ref_field rule = field)) (app_capture_rules (bld_spec b))"

section \<open>Saving\<close>

text \<open>The first key of the diagnostics whose first segment is a table.\<close>

definition diagnostic_table :: "buffers \<Rightarrow> table_id option" where
  "diagnostic_table diagnostics =
     (case List.map_filter (\<lambda>key. case table_id_new (hd (split_on (CHR ''/'') key)) of Ok i \<Rightarrow> Some i | _ \<Rightarrow> None)
        (bt_keys diagnostics) of [] \<Rightarrow> None | i # _ \<Rightarrow> Some i)"

definition show_diagnostics :: "buffers \<Rightarrow> builder \<Rightarrow> builder" where
  "show_diagnostics diagnostics b =
     (let b = (case diagnostic_table diagnostics of
                 Some i \<Rightarrow> b\<lparr>bld_table := i, bld_form_mode := False\<rparr> | None \<Rightarrow> b) in
      b\<lparr>bld_errors := diagnostics, bld_status := Invalid\<rparr>)"

text \<open>The draft \<open>save\<close> writes: its revision moves only when its content does.\<close>

definition next_draft :: "serde \<Rightarrow> draft_snapshot \<Rightarrow> raw_app_spec \<Rightarrow> raw_record list \<Rightarrow> draft_snapshot option" where
  "next_draft J baseline definition rows =
     (let draft = \<lparr>dsn_revision = dsn_revision baseline, dsn_spec = definition, dsn_records = rows\<rparr> in
      if \<not> same_content J draft baseline
      then map_option (\<lambda>revision. draft\<lparr>dsn_revision := revision\<rparr>) (checked_add_u64 (dsn_revision baseline) 1)
      else Some draft)"

definition save :: "builder_env \<Rightarrow> builder \<Rightarrow> builder" where
  "save E b =
     (if bld_restoration_failed b \<or> bld_paused b \<or> bld_composing b \<or> bld_saving b then b
      else let definition = (bld_spec b)\<lparr>app_name := bld_app_name b\<rparr> in
        case candidate (ben_json E) (language_of E b) definition (bld_records b) (bld_buffers b) of
          Err diagnostics \<Rightarrow> show_diagnostics diagnostics b
        | Panic \<Rightarrow> b
        | Ok rows \<Rightarrow>
            (case next_draft (ben_json E) (bld_saved b) definition rows of
               None \<Rightarrow> b\<lparr>bld_status := StorageError\<rparr>
             | Some draft \<Rightarrow>
                 (case encode_saved (ben_json E) (ben_snapshot E) draft of
                    Ok raw \<Rightarrow> b\<lparr>bld_saving := True, bld_status := Saving,
                      bld_task := Some \<lparr>svt_draft = draft,
                        svt_expected = (case bld_persisted b of Some bytes \<Rightarrow> bytes | None \<Rightarrow> []), svt_raw = raw\<rparr>\<rparr>
                  | _ \<Rightarrow> b\<lparr>bld_status := StorageError\<rparr>)))"

text \<open>
  \<open>writeLocalSnapshot\<close>, whole, under the lock: compare with the expected bytes, write, read back. The
  browser may have no locks, and may refuse the write.
\<close>

definition write_local_snapshot ::
  "bool \<Rightarrow> bool \<Rightarrow> string option \<Rightarrow> string \<Rightarrow> string \<Rightarrow> string option \<times> (string, string) outcome" where
  "write_local_snapshot locks writable storage expected serialized =
     (if \<not> locks then (storage, Err ''unsupported'')
      else if storage \<noteq> (if expected = [] then None else Some expected) then (storage, Err ''conflict'')
      else if \<not> writable then (storage, Err ''quota'')
      else let storage = Some serialized in
        (storage, case storage of Some receipt \<Rightarrow> if receipt \<noteq> serialized then Err ''conflict'' else Ok receipt
                  | None \<Rightarrow> Err ''conflict''))"

definition finish_save :: "builder_env \<Rightarrow> (string, string) outcome \<Rightarrow> builder \<Rightarrow> builder" where
  "finish_save E result b =
     (case bld_task b of
        None \<Rightarrow> b
      | Some task \<Rightarrow>
          (let b = (case result of
               Ok value \<Rightarrow> (case decode_saved (ben_json E) (ben_snapshot E) value of
                   Ok receipt \<Rightarrow>
                     if dsn_revision receipt = dsn_revision (svt_draft task)
                        \<and> same_content (ben_json E) receipt (svt_draft task)
                     then b\<lparr>bld_persisted := Some (svt_raw task), bld_spec := dsn_spec receipt,
                            bld_records := dsn_records receipt, bld_saved := receipt,
                            bld_buffers := bt_empty, bld_errors := bt_empty, bld_status := Saved\<rparr>
                     else b\<lparr>bld_status := StorageError\<rparr>
                 | _ \<Rightarrow> b\<lparr>bld_status := StorageError\<rparr>)
             | Err message \<Rightarrow> b\<lparr>bld_status := if message = ''conflict'' then Conflict
                 else if message = ''unsupported'' then Unsupported else StorageError\<rparr>
             | Panic \<Rightarrow> b\<lparr>bld_status := StorageError\<rparr>) in
           b\<lparr>bld_saving := False, bld_task := None\<rparr>))"

definition cancel :: "builder \<Rightarrow> builder" where
  "cancel b = (let snapshot = bld_saved b in
     b\<lparr>bld_app_name := app_name (dsn_spec snapshot), bld_spec := dsn_spec snapshot,
       bld_records := dsn_records snapshot, bld_buffers := bt_empty, bld_errors := bt_empty,
       bld_import_errors := [], bld_status := Clean\<rparr>)"

section \<open>The definition\<close>

definition rename :: "builder_env \<Rightarrow> builder \<Rightarrow> builder" where
  "rename E b = (let next = (bld_spec b)\<lparr>app_name := bld_app_name b\<rparr> in
     case compile (ben_json E) next of
       Ok _ \<Rightarrow> b\<lparr>bld_spec := next, bld_errors := bt_remove ''definition'' (bld_errors b), bld_status := Dirty\<rparr>
     | Err e \<Rightarrow> b\<lparr>bld_errors := bt_of_list [(''definition'', draft_diagnostic (language_of E b) e)],
                   bld_status := Invalid\<rparr>
     | Panic \<Rightarrow> b)"

text \<open>\<open>Iterator::find\<close> on a mutable iterator: the first element that qualifies is updated.\<close>

fun update_first :: "('a \<Rightarrow> bool) \<Rightarrow> ('a \<Rightarrow> 'a) \<Rightarrow> 'a list \<Rightarrow> 'a list" where
  "update_first P f [] = []"
| "update_first P f (x # xs) = (if P x then f x # xs else x # update_first P f xs)"

text \<open>The number is at most one more than the number of fields, so the identity is valid.\<close>

definition local_field_index :: "raw_app_spec \<Rightarrow> nat" where
  "local_field_index spec =
     (let names = concat (map (\<lambda>t. map (\<lambda>f. as_str (fld_id f)) (tbl_fields t)) (app_tables spec)) in
      next_free (length names) (\<lambda>n. ''fld_local_'' @ show_nat n \<in> set names) 1)"

definition local_field_kind :: "string \<Rightarrow> field_type" where
  "local_field_kind kind =
     (if kind = ''integer'' then FInteger else if kind = ''bool'' then FBool
      else if kind = ''money'' then FMoney else FText)"

definition new_field :: "raw_app_spec \<Rightarrow> string \<Rightarrow> string \<Rightarrow> raw_field" where
  "new_field spec name kind = \<lparr>fld_id = Ident (''fld_local_'' @ show_nat (local_field_index spec)),
     fld_name = name, fld_required = False, fld_type = local_field_kind kind\<rparr>"

definition with_field :: "raw_app_spec \<Rightarrow> table_id \<Rightarrow> raw_field \<Rightarrow> raw_app_spec" where
  "with_field spec table field = spec\<lparr>app_tables :=
     update_first (\<lambda>t. tbl_id t = table) (\<lambda>t. t\<lparr>tbl_fields := tbl_fields t @ [field]\<rparr>) (app_tables spec)\<rparr>"

definition add_field :: "builder_env \<Rightarrow> builder \<Rightarrow> builder" where
  "add_field E b =
     (if \<not> list_ex (\<lambda>t. tbl_id t = bld_table b) (app_tables (bld_spec b)) then b
      else if trim (bld_field_name b) = []
      then b\<lparr>bld_errors := bt_of_list [(''field'', tr (language_of E b) ''Enter a field name.'')]\<rparr>
      else let next = with_field (bld_spec b) (bld_table b)
             (new_field (bld_spec b) (bld_field_name b) (bld_field_type b)) in
        case compile (ben_json E) next of
          Ok _ \<Rightarrow> b\<lparr>bld_spec := next, bld_field_name := [], bld_errors := bt_empty, bld_status := Dirty\<rparr>
        | Err e \<Rightarrow> b\<lparr>bld_errors := bt_of_list [(''field'', draft_diagnostic (language_of E b) e)]\<rparr>
        | Panic \<Rightarrow> b)"

definition import_rows :: "builder_env \<Rightarrow> builder \<Rightarrow> builder" where
  "import_rows E b =
     (case prepare_import (ben_json E) (language_of E b) (bld_spec b) (bld_records b) (bld_table b)
        (bld_import_source b) of
        Ok next \<Rightarrow> b\<lparr>bld_records := next, bld_import_errors := [], bld_status := Dirty\<rparr>
      | Err diagnostics \<Rightarrow> b\<lparr>bld_import_errors := diagnostics, bld_status := Invalid\<rparr>
      | Panic \<Rightarrow> b)"

section \<open>Changing the language\<close>

text \<open>The diagnostics on the screen are worked out again in the new language.\<close>

definition retell_errors :: "builder_env \<Rightarrow> builder \<Rightarrow> builder" where
  "retell_errors E b =
     (if entries (bld_errors b) = [] then b
      else case candidate (ben_json E) (language_of E b) ((bld_spec b)\<lparr>app_name := bld_app_name b\<rparr>)
          (bld_records b) (bld_buffers b) of
        Err diagnostics \<Rightarrow> b\<lparr>bld_errors := diagnostics\<rparr>
      | Panic \<Rightarrow> b
      | Ok _ \<Rightarrow>
          if bt_get (bld_errors b) ''field'' \<noteq> None \<and> trim (bld_field_name b) = []
          then b\<lparr>bld_errors := bt_of_list [(''field'', tr (language_of E b) ''Enter a field name.'')]\<rparr> else b)"

definition retell_import :: "builder_env \<Rightarrow> builder \<Rightarrow> builder" where
  "retell_import E b =
     (if bld_import_errors b = [] then b
      else case prepare_import (ben_json E) (language_of E b) (bld_spec b) (bld_records b) (bld_table b)
          (bld_import_source b) of
        Ok _ \<Rightarrow> b\<lparr>bld_import_errors := []\<rparr>
      | Err diagnostics \<Rightarrow> b\<lparr>bld_import_errors := diagnostics\<rparr>
      | Panic \<Rightarrow> b)"

definition toggle_locale :: "builder_env \<Rightarrow> builder \<Rightarrow> builder" where
  "toggle_locale E b = retell_import E (retell_errors E (b\<lparr>bld_vi := \<not> bld_vi b\<rparr>))"

section \<open>Data rules\<close>

datatype rule_notice = RuleReady | RuleApplied | RuleRemoved | InvalidBounds | RuleError error

definition eligible_field :: "raw_field \<Rightarrow> bool" where
  "eligible_field field \<longleftrightarrow> (case fld_type field of FText \<Rightarrow> True | FInteger \<Rightarrow> True | FMoney \<Rightarrow> True | _ \<Rightarrow> False)"

definition selected_field :: "raw_app_spec \<Rightarrow> table_id \<Rightarrow> string \<Rightarrow> raw_field option" where
  "selected_field spec table selected =
     Option.bind (List.find (\<lambda>t. tbl_id t = table) (app_tables spec)) (\<lambda>t.
     case List.find (\<lambda>field. as_str (fld_id field) = selected) (filter eligible_field (tbl_fields t)) of
       Some field \<Rightarrow> Some field
     | None \<Rightarrow> List.find eligible_field (tbl_fields t))"

definition validate_source :: "serde \<Rightarrow> raw_app_spec \<Rightarrow> raw_record list \<Rightarrow> (error, raw_app_spec) outcome" where
  "validate_source J next rows =
     and_then (compile J next) (\<lambda>checked.
     and_then (validate_records J checked (scope_for (spec_def checked)) rows) (\<lambda>_. Ok (spec_def checked)))"

definition constraint_label :: "language \<Rightarrow> constraint \<Rightarrow> string" where
  "constraint_label L rule =
     (let dash = [CHR 0xE2, CHR 0x80, CHR 0x93] in
      case rule of
        NonEmpty \<Rightarrow> tr L ''Contains non-whitespace text''
      | TextLength lo hi \<Rightarrow> tr L ''Character length:'' @ '' '' @ show_nat lo @ dash @ show_nat hi
      | NumericRange lo hi \<Rightarrow> tr L ''Value range:'' @ '' '' @ show_i64 lo @ dash @ show_i64 hi)"

text \<open>\<open>str::parse::<usize>\<close> in the browser, where a \<open>usize\<close> has 32 bits.\<close>

definition parse_usize :: "string \<Rightarrow> nat option" where
  "parse_usize s = (case parse_u64 s of Ok n \<Rightarrow> if unat n < 2 ^ 32 then Some (unat n) else None | _ \<Rightarrow> None)"

text \<open>The rule the panel describes: nothing to add, bounds that are no integers, or a constraint.\<close>

definition panel_constraint ::
  "field_type \<Rightarrow> string \<Rightarrow> string \<Rightarrow> string \<Rightarrow> (rule_notice option, constraint) outcome" where
  "panel_constraint ft kind lower upper =
     (case ft of
        FText \<Rightarrow>
          if kind \<noteq> ''text_length'' then Ok NonEmpty
          else (case (parse_usize lower, parse_usize upper) of
            (Some lo, Some hi) \<Rightarrow> Ok (TextLength lo hi) | _ \<Rightarrow> Err (Some InvalidBounds))
      | FInteger \<Rightarrow> (case (parse_i64 lower, parse_i64 upper) of
            (Ok lo, Ok hi) \<Rightarrow> Ok (NumericRange lo hi) | _ \<Rightarrow> Err (Some InvalidBounds))
      | FMoney \<Rightarrow> (case (parse_i64 lower, parse_i64 upper) of
            (Ok lo, Ok hi) \<Rightarrow> Ok (NumericRange lo hi) | _ \<Rightarrow> Err (Some InvalidBounds))
      | _ \<Rightarrow> Err None)"

definition local_constraint_index :: "raw_app_spec \<Rightarrow> nat" where
  "local_constraint_index spec =
     next_free (length (app_constraints spec))
       (\<lambda>n. ''constraint_local_'' @ show_nat n \<in> set (map (\<lambda>rule. as_str (fc_constraint_id rule)) (app_constraints spec))) 1"

definition with_constraint :: "raw_app_spec \<Rightarrow> table_id \<Rightarrow> field_id \<Rightarrow> constraint \<Rightarrow> raw_app_spec" where
  "with_constraint spec table field rule = spec\<lparr>app_version := FORMAT_VERSION,
     app_constraints := app_constraints spec @ [\<lparr>
       fc_constraint_id = Ident (''constraint_local_'' @ show_nat (local_constraint_index spec)),
       fc_table_id = table, fc_field_id = field, fc_constraint = rule\<rparr>]\<rparr>"

text \<open>\<open>disabled\<close> of the panels; a new notice, if there is one, and the tab.\<close>

definition editing_disabled :: "builder \<Rightarrow> bool" where
  "editing_disabled b \<longleftrightarrow> bld_saving b \<or> bld_paused b"

definition install_source ::
  "(error, raw_app_spec) outcome \<Rightarrow> rule_notice \<Rightarrow> builder \<Rightarrow> rule_notice option \<times> builder" where
  "install_source result notice b =
     (case result of
        Ok next \<Rightarrow> (Some notice, b\<lparr>bld_spec := next, bld_status := Dirty\<rparr>)
      | Err e \<Rightarrow> (Some (RuleError e), b)
      | Panic \<Rightarrow> (None, b))"

definition add_constraint ::
  "builder_env \<Rightarrow> string \<Rightarrow> string \<Rightarrow> string \<Rightarrow> string \<Rightarrow> builder \<Rightarrow> rule_notice option \<times> builder" where
  "add_constraint E selected kind lower upper b =
     (if editing_disabled b then (None, b)
      else case selected_field (bld_spec b) (bld_table b) selected of
        None \<Rightarrow> (None, b)
      | Some field \<Rightarrow>
          (case panel_constraint (fld_type field) kind lower upper of
             Err notice \<Rightarrow> (notice, b)
           | Panic \<Rightarrow> (None, b)
           | Ok rule \<Rightarrow> install_source (validate_source (ben_json E)
               (with_constraint (bld_spec b) (bld_table b) (fld_id field) rule) (bld_records b)) RuleApplied b))"

definition remove_constraint :: "builder_env \<Rightarrow> constraint_id \<Rightarrow> builder \<Rightarrow> rule_notice option \<times> builder" where
  "remove_constraint E i b =
     (if editing_disabled b then (None, b)
      else install_source (validate_source (ben_json E)
        ((bld_spec b)\<lparr>app_constraints := filter (\<lambda>rule. fc_constraint_id rule \<noteq> i) (app_constraints (bld_spec b))\<rparr>)
        (bld_records b)) RuleRemoved b)"

section \<open>The policy source\<close>

datatype source_notice = SourceAdded | SourceEdited | SourceError policy_error

definition install_policy :: "serde \<Rightarrow> raw_app_spec \<Rightarrow> source_notice \<Rightarrow> builder \<Rightarrow> source_notice option \<times> builder" where
  "install_policy J definition notice b =
     (case compile J definition of
        Ok _ \<Rightarrow> (Some notice, b\<lparr>bld_spec := definition, bld_status := Dirty\<rparr>)
      | Err _ \<Rightarrow> (Some (SourceError PolicyNotValid), b)
      | Panic \<Rightarrow> (None, b))"

definition add_source :: "builder_env \<Rightarrow> builder \<Rightarrow> source_notice option \<times> builder" where
  "add_source E b =
     (if editing_disabled b then (None, b)
      else case List.find (\<lambda>rule. pol_table_id rule = bld_table b) (app_policies example_policy_spec) of
        None \<Rightarrow> (Some (SourceError PolicyNotValid), b)
      | Some rule \<Rightarrow>
          if list_ex (\<lambda>existing. pol_table_id existing = bld_table b) (app_policies (bld_spec b)) then (None, b)
          else install_policy (ben_json E) ((bld_spec b)\<lparr>
              app_policies := app_policies (bld_spec b) @ [rule],
              app_submit_rules := app_submit_rules (bld_spec b)
                @ filter (\<lambda>submit. sub_policy_rule_id submit = pol_rule_id rule) (app_submit_rules example_policy_spec)\<rparr>)
            SourceAdded b)"

definition toggle_role :: "role_id \<Rightarrow> role_id btree_set \<Rightarrow> role_id btree_set" where
  "toggle_role role roles = (if bs_contains roles role then bt_remove role roles else bt_insert role () roles)"

definition edit_policy :: "bool \<Rightarrow> raw_owner_role_policy \<Rightarrow> raw_owner_role_policy" where
  "edit_policy submit rule =
     (if submit then rule\<lparr>pol_submit_roles := toggle_role (Ident ''role_operator'') (pol_submit_roles rule)\<rparr>
      else rule\<lparr>pol_read_roles := toggle_role (Ident ''role_auditor'') (pol_read_roles rule)\<rparr>)"

definition edit_role :: "builder_env \<Rightarrow> bool \<Rightarrow> builder \<Rightarrow> source_notice option \<times> builder" where
  "edit_role E submit b =
     (if editing_disabled b then (None, b)
      else case List.find (\<lambda>rule. pol_table_id rule = bld_table b) (app_policies (bld_spec b)) of
        None \<Rightarrow> (None, b)
      | Some rule \<Rightarrow>
          (case checked_add_u64 (pol_revision rule) 1 of
             None \<Rightarrow> (Some (SourceError NumericOverflow), b)
           | Some revision \<Rightarrow> install_policy (ben_json E) ((bld_spec b)\<lparr>app_policies :=
                update_first (\<lambda>rule. pol_table_id rule = bld_table b)
                  (\<lambda>rule. (edit_policy submit rule)\<lparr>pol_revision := revision\<rparr>) (app_policies (bld_spec b))\<rparr>)
               SourceEdited b))"

section \<open>Events\<close>

datatype builder_event =
    TypeCell string string
  | CommitCells
  | EscapeCell string
  | CompositionStart
  | CompositionEnd
  | SelectTable table_id
  | PopState "string option"
  | ToggleLocale
  | ShowForm bool
  | TypeName string
  | Rename
  | TypeFieldName string
  | ChooseFieldType string
  | AddField
  | TypeImport string
  | ImportRows
  | Cancel
  | ToggleSession
  | AddConstraint string string string string
  | RemoveConstraint constraint_id
  | AddSource
  | EditRole bool
  | Save

text \<open>The \<open>disabled\<close> attributes: a disabled control raises no event.\<close>

fun enabled :: "builder \<Rightarrow> builder_event \<Rightarrow> bool" where
  "enabled b (TypeCell _ _) = (\<not> bld_saving b \<and> \<not> bld_paused b)"
| "enabled b CommitCells = (\<not> bld_saving b \<and> \<not> bld_paused b)"
| "enabled b (EscapeCell _) = (\<not> bld_saving b \<and> \<not> bld_paused b)"
| "enabled b (TypeName _) = (\<not> bld_saving b \<and> \<not> bld_paused b)"
| "enabled b Rename = (\<not> bld_saving b \<and> \<not> bld_paused b)"
| "enabled b AddField = (\<not> bld_paused b \<and> \<not> bld_saving b)"
| "enabled b ImportRows = (\<not> bld_paused b \<and> \<not> bld_saving b)"
| "enabled b Cancel = (\<not> bld_saving b)"
| "enabled b ToggleSession = (\<not> bld_saving b)"
| "enabled b _ = True"

fun perform :: "builder_env \<Rightarrow> builder_event \<Rightarrow> builder \<Rightarrow> builder" where
  "perform E (TypeCell key text) b = type_cell key text b"
| "perform E CommitCells b = commit_cells E b"
| "perform E (EscapeCell key) b = escape_cell key b"
| "perform E CompositionStart b = b\<lparr>bld_composing := True\<rparr>"
| "perform E CompositionEnd b = b\<lparr>bld_composing := False\<rparr>"
| "perform E (SelectTable i) b = b\<lparr>bld_table := i\<rparr>"
| "perform E (PopState location_hash) b = b\<lparr>bld_table := selected_table (bld_spec b) location_hash\<rparr>"
| "perform E ToggleLocale b = toggle_locale E b"
| "perform E (ShowForm form) b = b\<lparr>bld_form_mode := form\<rparr>"
| "perform E (TypeName name) b = b\<lparr>bld_app_name := name, bld_status := Dirty\<rparr>"
| "perform E Rename b = rename E b"
| "perform E (TypeFieldName name) b = b\<lparr>bld_field_name := name\<rparr>"
| "perform E (ChooseFieldType kind) b = b\<lparr>bld_field_type := kind\<rparr>"
| "perform E AddField b = add_field E b"
| "perform E (TypeImport source) b = b\<lparr>bld_import_source := source\<rparr>"
| "perform E ImportRows b = import_rows E b"
| "perform E Cancel b = cancel b"
| "perform E ToggleSession b = b\<lparr>bld_paused := \<not> bld_paused b,
     bld_status := if \<not> bld_paused b then Expired else Dirty\<rparr>"
| "perform E (AddConstraint selected kind lower upper) b = snd (add_constraint E selected kind lower upper b)"
| "perform E (RemoveConstraint i) b = snd (remove_constraint E i b)"
| "perform E AddSource b = snd (add_source E b)"
| "perform E (EditRole submit) b = snd (edit_role E submit b)"
| "perform E Save b = save E b"

text \<open>The tabs of one browser share the entry of the local storage.\<close>

record browser =
  brw_storage :: "string option"
  brw_tabs :: "builder list"

inductive browser_step :: "builder_env \<Rightarrow> browser \<Rightarrow> browser \<Rightarrow> bool" for E where
  OpenTab: "stored = Ok (brw_storage w) \<or> stored = Err reason \<Longrightarrow>
     browser_step E w (w\<lparr>brw_tabs := brw_tabs w @ [builder_start E stored location_hash]\<rparr>)"
| Event: "i < length (brw_tabs w) \<Longrightarrow> enabled (brw_tabs w ! i) event \<Longrightarrow>
     browser_step E w (w\<lparr>brw_tabs := (brw_tabs w)[i := perform E event (brw_tabs w ! i)]\<rparr>)"
| Write: "i < length (brw_tabs w) \<Longrightarrow> bld_task (brw_tabs w ! i) = Some task \<Longrightarrow>
     write_local_snapshot locks writable (brw_storage w) (svt_expected task) (svt_raw task) = (storage, result) \<Longrightarrow>
     browser_step E w (w\<lparr>brw_storage := storage,
       brw_tabs := (brw_tabs w)[i := finish_save E result (brw_tabs w ! i)]\<rparr>)"

section \<open>Valid drafts\<close>

text \<open>
  What every draft a tab works on satisfies: the definition compiles, has a table, and the rows are valid
  under it. Only whether the rows' text fits the limits of the codec is left to the next batch.
\<close>

definition draft_valid :: "serde \<Rightarrow> raw_app_spec \<Rightarrow> raw_record list \<Rightarrow> bool" where
  "draft_valid J d records \<longleftrightarrow> app_tables d \<noteq> [] \<and> length records \<le> MAX_RECORDS
     \<and> (\<exists>checked. compile J d = Ok checked \<and> valid_facts checked (scope_for d) records)"

lemma validated_draft:
  assumes "compile J d = Ok checked" and "validate_records J checked (scope_for d) records = Ok facts"
    and "app_tables d \<noteq> []"
  shows "draft_valid J d records" and "draft_valid J d (to_raw facts)"
proof -
  show "draft_valid J d records" using assms by (auto simp: draft_valid_def validate_records_Ok_iff)
  have "facts_ok J checked facts" "crs_scope facts = scope_for d"
    using assms(2) by (blast dest: validate_records_facts_ok validate_records_scope)+
  then have "validate_records J checked (scope_for d) (to_raw facts) = Ok facts" by (simp add: facts_ok_def)
  with assms show "draft_valid J d (to_raw facts)" by (auto simp: draft_valid_def validate_records_Ok_iff)
qed

lemma scope_for_compiled: "compile J d = Ok checked \<Longrightarrow> scope_for (spec_def checked) = scope_for d"
  by (auto simp: compile_Ok_iff scope_for_def normalize_definition_def)

lemma compiled_tables_empty: "compile J d = Ok checked \<Longrightarrow> app_tables (spec_def checked) = [] \<longleftrightarrow> app_tables d = []"
  by (auto simp: compile_Ok_iff normalize_definition_def simp flip: length_0_conv)

lemma decoded_draft:
  assumes "decode_saved J N raw = Ok s"
  shows "draft_valid J (dsn_spec s) (dsn_records s)"
proof -
  from assms obtain checked d facts where decoded: "compile J d = Ok checked"
    and tables: "app_tables (spec_def checked) \<noteq> []"
    and records: "\<exists>rows. validate_records J checked (scope_for (spec_def checked)) rows = Ok facts"
    and s: "dsn_spec s = spec_def checked" "dsn_records s = to_raw facts"
    by (auto simp: decode_saved_def spec_decode_def decode_records_def Let_def outcome_simps split: if_splits) blast
  from records obtain rows where "validate_records J checked (scope_for (spec_def checked)) rows = Ok facts" ..
  from validated_draft(2) [OF compile_normalized [OF decoded] this tables] show ?thesis by (simp add: s)
qed

lemma candidate_draft:
  assumes "candidate J L d records buffers = Ok out" and "app_tables d \<noteq> []"
  shows "draft_valid J d out"
  using candidate_edits [OF assms(1)] validated_draft(1) [OF _ _ assms(2)] by metis

lemma import_draft:
  assumes "prepare_import J L d records t source = Ok out"
  shows "draft_valid J d out"
proof -
  from import_adds_rows [OF assms] obtain checked facts table where "compile J d = Ok checked"
    "validate_records J checked (scope_for d) out = Ok facts" "List.find (\<lambda>table. tbl_id table = t) (app_tables d) = Some table"
    by metis
  then show ?thesis by (auto intro: validated_draft(1))
qed

lemma validated_source_draft:
  assumes "validate_source J d records = Ok d'" and "app_tables d \<noteq> []"
  shows "draft_valid J d' records"
proof -
  from assms(1) obtain checked facts where spec: "compile J d = Ok checked"
    and facts: "validate_records J checked (scope_for (spec_def checked)) records = Ok facts"
    and d': "d' = spec_def checked"
    by (auto simp: validate_source_def outcome_simps)
  from validated_draft(1) [OF compile_normalized [OF spec] facts] assms(2) show ?thesis
    by (simp add: d' compiled_tables_empty [OF spec])
qed

text \<open>The validity of rows depends on the tables, the constraints and the machines only.\<close>

lemma valid_facts_cong:
  assumes "app_tables (spec_def a) = app_tables (spec_def b)" and "app_constraints (spec_def a) = app_constraints (spec_def b)"
    and "app_state_machines (spec_def a) = app_state_machines (spec_def b)"
  shows "valid_facts a scope records \<longleftrightarrow> valid_facts b scope records"
  using assms by (simp add: valid_facts_def record_ok_def value_ok_def spec_table_def constraints_at_def machines_at_def)

lemma same_data_draft:
  assumes "draft_valid J d records" and "compile J d' = Ok checked'"
    and "app_tables d' = app_tables d" "app_constraints d' = app_constraints d"
    and "app_state_machines d' = app_state_machines d" "app_app_id d' = app_app_id d"
  shows "draft_valid J d' records"
proof -
  from assms(1) obtain checked where spec: "compile J d = Ok checked" and valid: "valid_facts checked (scope_for d) records"
    by (auto simp: draft_valid_def)
  have "valid_facts checked' (scope_for d') records"
    using valid valid_facts_cong [of checked' checked] assms spec
    by (auto simp: compile_Ok_iff normalize_definition_def scope_for_def)
  with assms show ?thesis by (auto simp: draft_valid_def)
qed

lemma find_update_first:
  assumes "\<And>x. k (f x) = k x"
  shows "List.find (\<lambda>x. k x = t) (update_first (\<lambda>x. k x = t') f xs) =
    map_option (\<lambda>x. if t = t' then f x else x) (List.find (\<lambda>x. k x = t) xs)"
  by (induction xs) (auto simp: assms option.map_ident)

lemma with_field_table:
  assumes "compile J (with_field d t field) = Ok checked'" and "compile J d = Ok checked"
  shows "spec_table checked' i = map_option sort_fields (map_option
      (\<lambda>table. if i = t then table\<lparr>tbl_fields := tbl_fields table @ [field]\<rparr> else table)
      (List.find (\<lambda>table. tbl_id table = i) (app_tables d)))"
  using find_update_first [of tbl_id "\<lambda>table. table\<lparr>tbl_fields := tbl_fields table @ [field]\<rparr>" i t "app_tables d"]
  by (simp add: compiled_table [OF assms(1)] with_field_def)

text \<open>No machine can watch a field that is not required.\<close>

lemma no_machine_on_optional:
  assumes spec: "compile J d = Ok checked" and table: "spec_table checked t = Some table"
    and field: "field \<in> set (tbl_fields table)" "\<not> fld_required field"
  shows "machines_at checked t (fld_id field) = {}"
proof -
  have "table \<in> set (app_tables (spec_def checked))" using table by (auto dest: spec_table_Some)
  moreover have "distinct (concat (map (\<lambda>table. map fld_id (tbl_fields table)) (app_tables (spec_def checked))))"
    using compile_wf [OF spec] by (simp add: wf_spec_def map_concat comp_def)
  ultimately have "distinct (map fld_id (tbl_fields table))" by (auto simp: distinct_concat_iff)
  from find_distinct_key [OF this field(1)] have "spec_field checked t (fld_id field) = Some field"
    by (simp add: spec_field_def table)
  moreover have "\<exists>f. spec_field checked (sm_table_id m) (sm_state_field m) = Some f \<and> fld_required f"
    if "m \<in> set (app_state_machines (spec_def checked))" for m
    using compile_wf [OF spec] that by (auto simp: wf_spec_def declarations_ok_def machine_ok_def)
  ultimately show ?thesis using field(2) by (force simp: machines_at_def)
qed

lemma with_field_draft:
  assumes "draft_valid J d records" and spec': "compile J (with_field d t field) = Ok checked'"
    and optional: "\<not> fld_required field"
  shows "draft_valid J (with_field d t field) records"
proof -
  from assms(1) obtain checked where spec: "compile J d = Ok checked" and valid: "valid_facts checked (scope_for d) records"
    by (auto simp: draft_valid_def)
  have same: "constraints_at checked' = constraints_at checked" "machines_at checked' = machines_at checked"
    using spec spec' by (auto simp: compile_Ok_iff normalize_definition_def with_field_def constraints_at_def machines_at_def fun_eq_iff)
  have row: "record_ok checked' scope keys r" if r: "record_ok checked scope keys r" for scope keys r
  proof -
    from r obtain table where table: "spec_table checked (rec_table_id r) = Some table"
      and keys: "set (bt_keys (rec_values r)) \<subseteq> fld_id ` set (tbl_fields table)"
      and cells: "\<forall>f\<in>set (tbl_fields table). value_ok checked scope keys (rec_table_id r) f (row_value r (fld_id f))"
      and sc: "rec_scope r = scope" by (auto simp: record_ok_def)
    then obtain raw where raw: "List.find (\<lambda>table. tbl_id table = rec_table_id r) (app_tables d) = Some raw"
      "table = sort_fields raw" by (auto simp: compiled_table [OF spec])
    let ?raw' = "if rec_table_id r = t then raw\<lparr>tbl_fields := tbl_fields raw @ [field]\<rparr> else raw"
    have table': "spec_table checked' (rec_table_id r) = Some (sort_fields ?raw')"
      by (simp add: with_field_table [OF spec' spec] raw)
    have "List.find (\<lambda>table. tbl_id table = rec_table_id r) (app_tables (with_field d t field)) = Some ?raw'"
      using find_update_first [of tbl_id "\<lambda>table. table\<lparr>tbl_fields := tbl_fields table @ [field]\<rparr>" "rec_table_id r" t "app_tables d"]
      by (simp add: with_field_def raw)
    from compiled_fields_distinct [OF spec' this]
    have new: "rec_table_id r = t \<Longrightarrow> fld_id field \<notin> fld_id ` set (tbl_fields raw)" by auto
    have "value_ok checked' scope keys (rec_table_id r) f (row_value r (fld_id f))"
      if f: "f \<in> set (tbl_fields (sort_fields ?raw'))" for f
    proof (cases "f \<in> set (tbl_fields raw)")
      case True
      with cells raw show ?thesis by (simp add: value_ok_def same)
    next
      case False
      with f have t: "rec_table_id r = t" "f = field" by (auto split: if_splits)
      with new keys raw have "bt_get (rec_values r) (fld_id field) = None"
        by (auto simp: bt_get_None_iff)
      moreover have "machines_at checked' (rec_table_id r) (fld_id field) = {}"
        by (rule no_machine_on_optional [OF spec' table' _ optional]) (use t in simp)
      ultimately show ?thesis using optional
        by (simp add: t value_ok_def row_value_def reference_ok_def)
    qed
    with table' sc keys raw show ?thesis by (auto simp: record_ok_def)
  qed
  have "valid_facts checked' (scope_for (with_field d t field)) records"
    using valid row by (simp add: valid_facts_def scope_for_def with_field_def)
  moreover have "app_tables (with_field d t field) \<noteq> []"
    using assms(1) by (cases "app_tables d") (auto simp: draft_valid_def with_field_def)
  ultimately show ?thesis using assms(1) spec' by (auto simp: draft_valid_def)
qed

section \<open>The invariant of a tab\<close>

text \<open>What an event may not change while a save is under way.\<close>

definition same_work :: "builder \<Rightarrow> builder \<Rightarrow> bool" where
  "same_work b b' \<longleftrightarrow> bld_restoration_failed b' = bld_restoration_failed b \<and> bld_persisted b' = bld_persisted b
     \<and> bld_saved b' = bld_saved b \<and> bld_spec b' = bld_spec b \<and> bld_records b' = bld_records b
     \<and> bld_buffers b' = bld_buffers b \<and> bld_app_name b' = bld_app_name b
     \<and> bld_saving b' = bld_saving b \<and> bld_task b' = bld_task b"

text \<open>The draft under way is what the screen shows: the name, the rows and every pending cell.\<close>

definition task_ok :: "builder_env \<Rightarrow> builder \<Rightarrow> save_task \<Rightarrow> bool" where
  "task_ok E b task \<longleftrightarrow> \<not> bld_restoration_failed b
     \<and> svt_expected task = (case bld_persisted b of Some bytes \<Rightarrow> bytes | None \<Rightarrow> [])
     \<and> encode_saved (ben_json E) (ben_snapshot E) (svt_draft task) = Ok (svt_raw task)
     \<and> (\<exists>L rows. candidate (ben_json E) L ((bld_spec b)\<lparr>app_name := bld_app_name b\<rparr>) (bld_records b) (bld_buffers b) = Ok rows
          \<and> next_draft (ben_json E) (bld_saved b) ((bld_spec b)\<lparr>app_name := bld_app_name b\<rparr>) rows = Some (svt_draft task))"

text \<open>A tab whose restoration did not fail holds what it last read or wrote.\<close>

definition restored_ok :: "builder_env \<Rightarrow> builder \<Rightarrow> bool" where
  "restored_ok E b \<longleftrightarrow>
     (case bld_persisted b of
        None \<Rightarrow> bld_saved b = default_snapshot
      | Some raw \<Rightarrow> decode_saved (ben_json E) (ben_snapshot E) raw = Ok (bld_saved b))"

definition tab_ok :: "builder_env \<Rightarrow> builder \<Rightarrow> bool" where
  "tab_ok E b \<longleftrightarrow> draft_valid (ben_json E) (bld_spec b) (bld_records b)
     \<and> draft_valid (ben_json E) (dsn_spec (bld_saved b)) (dsn_records (bld_saved b))
     \<and> (\<not> bld_restoration_failed b \<longrightarrow> restored_ok E b)
     \<and> (case bld_task b of None \<Rightarrow> \<not> bld_saving b | Some task \<Rightarrow> bld_saving b \<and> task_ok E b task)"

lemma same_work_tab_ok: "same_work b b' \<Longrightarrow> tab_ok E b \<Longrightarrow> tab_ok E b'"
  by (simp add: same_work_def tab_ok_def restored_ok_def task_ok_def split: option.splits)

lemma retell_errors_same_work: "same_work b (retell_errors E b)"
  unfolding retell_errors_def by (auto simp: same_work_def split: outcome.split)

lemma retell_import_same_work: "same_work b (retell_import E b)"
  unfolding retell_import_def by (auto simp: same_work_def split: outcome.split)

lemma toggle_locale_same_work: "same_work b (toggle_locale E b)"
  using retell_errors_same_work [of "b\<lparr>bld_vi := \<not> bld_vi b\<rparr>" E]
    retell_import_same_work [of "retell_errors E (b\<lparr>bld_vi := \<not> bld_vi b\<rparr>)" E]
  by (simp add: same_work_def toggle_locale_def)

lemma perform_while_saving:
  assumes "bld_saving b" and "enabled b event"
  shows "same_work b (perform E event b)"
proof (cases "event = ToggleLocale")
  case True
  then show ?thesis by (simp add: toggle_locale_same_work)
next
  case False
  with assms show ?thesis
    by (cases event) (simp_all add: same_work_def add_constraint_def remove_constraint_def add_source_def
        edit_role_def editing_disabled_def save_def)
qed

text \<open>Outside a save, an event that is not \<open>Save\<close> leaves what was read and written alone.\<close>

definition same_storage :: "builder \<Rightarrow> builder \<Rightarrow> bool" where
  "same_storage b b' \<longleftrightarrow> bld_restoration_failed b' = bld_restoration_failed b \<and> bld_persisted b' = bld_persisted b
     \<and> bld_saved b' = bld_saved b \<and> bld_saving b' = bld_saving b \<and> bld_task b' = bld_task b"

lemmas source_edit_defs = add_constraint_def remove_constraint_def add_source_def edit_role_def
  install_source_def install_policy_def

lemmas edit_defs = type_cell_def commit_cells_def escape_cell_def rename_def add_field_def import_rows_def
  cancel_def source_edit_defs

lemma perform_same_storage: "event \<noteq> Save \<Longrightarrow> same_storage b (perform E event b)"
proof (cases "event = ToggleLocale")
  case True
  with toggle_locale_same_work [of b E] show ?thesis by (simp add: same_storage_def same_work_def)
next
  case False
  moreover assume "event \<noteq> Save"
  ultimately show ?thesis
    by (cases event) (auto simp: same_storage_def edit_defs Let_def split: outcome.split option.split)
qed

lemma install_source_draft:
  assumes "draft_valid J (bld_spec b) (bld_records b)" and "app_tables d = app_tables (bld_spec b)"
  shows "draft_valid J (bld_spec (snd (install_source (validate_source J d (bld_records b)) notice b))) (bld_records b)
    \<and> bld_records (snd (install_source (validate_source J d (bld_records b)) notice b)) = bld_records b"
  using assms validated_source_draft [of J d "bld_records b"]
  by (auto simp: install_source_def draft_valid_def [of J "bld_spec b"] split: outcome.split)

lemma install_policy_draft:
  assumes "draft_valid J (bld_spec b) (bld_records b)" and "app_tables d = app_tables (bld_spec b)"
    and "app_constraints d = app_constraints (bld_spec b)" "app_state_machines d = app_state_machines (bld_spec b)"
    and "app_app_id d = app_app_id (bld_spec b)"
  shows "draft_valid J (bld_spec (snd (install_policy J d notice b))) (bld_records b)
    \<and> bld_records (snd (install_policy J d notice b)) = bld_records b"
  using assms same_data_draft [OF assms(1), of d] by (auto simp: install_policy_def split: outcome.split)

lemma perform_draft:
  assumes draft: "draft_valid (ben_json E) (bld_spec b) (bld_records b)"
    and saved: "draft_valid (ben_json E) (dsn_spec (bld_saved b)) (dsn_records (bld_saved b))"
    and "event \<noteq> Save"
  shows "draft_valid (ben_json E) (bld_spec (perform E event b)) (bld_records (perform E event b))"
proof (cases event)
  case CommitCells
  with draft show ?thesis
    by (auto simp: commit_cells_def draft_valid_def [of _ _ "bld_records b"] intro!: candidate_draft split: outcome.split)
next
  case ImportRows
  with draft show ?thesis by (auto simp: import_rows_def intro!: import_draft split: outcome.split)
next
  case Rename
  with draft show ?thesis
    by (auto simp: rename_def Let_def split: outcome.split elim!: same_data_draft)
next
  case AddField
  with draft show ?thesis
    by (auto simp: add_field_def Let_def new_field_def split: outcome.split elim!: with_field_draft)
next
  case (AddConstraint selected kind lower upper)
  with draft install_source_draft [OF draft] show ?thesis
    by (auto simp: add_constraint_def with_constraint_def split: option.split outcome.split)
next
  case (RemoveConstraint i)
  with draft install_source_draft [OF draft] show ?thesis by (auto simp: remove_constraint_def)
next
  case AddSource
  with draft install_policy_draft [OF draft] show ?thesis by (auto simp: add_source_def split: option.split)
next
  case (EditRole submit)
  with draft install_policy_draft [OF draft] show ?thesis by (auto simp: edit_role_def split: option.split)
next
  case ToggleLocale
  with draft toggle_locale_same_work [of b E] show ?thesis by (simp add: same_work_def)
qed (use assms in \<open>simp_all add: type_cell_def escape_cell_def cancel_def Let_def\<close>)

lemma save_tab_ok:
  assumes "tab_ok E b"
  shows "tab_ok E (save E b)"
proof -
  let ?d = "(bld_spec b)\<lparr>app_name := bld_app_name b\<rparr>"
  have core: "draft_valid (ben_json E) (bld_spec b) (bld_records b)"
    "draft_valid (ben_json E) (dsn_spec (bld_saved b)) (dsn_records (bld_saved b))"
    "\<not> bld_restoration_failed b \<longrightarrow> restored_ok E b"
    using assms by (simp_all add: tab_ok_def)
  show ?thesis
  proof (cases "bld_restoration_failed b \<or> bld_paused b \<or> bld_composing b \<or> bld_saving b")
    case False
    with assms have idle: "bld_task b = None" by (auto simp: tab_ok_def split: option.splits)
    have quiet: "tab_ok E b'" if "same_work b b'" for b' using same_work_tab_ok [OF that assms] .
    show ?thesis
    proof (cases "candidate (ben_json E) (language_of E b) ?d (bld_records b) (bld_buffers b)")
      case (Ok rows)
      show ?thesis
      proof (cases "next_draft (ben_json E) (bld_saved b) ?d rows")
        case (Some draft)
        show ?thesis
        proof (cases "encode_saved (ben_json E) (ben_snapshot E) draft")
          case enc: (Ok raw)
          let ?b' = "b\<lparr>bld_saving := True, bld_status := Saving, bld_task := Some \<lparr>svt_draft = draft,
              svt_expected = (case bld_persisted b of Some bytes \<Rightarrow> bytes | None \<Rightarrow> []), svt_raw = raw\<rparr>\<rparr>"
          have "save E b = ?b'" using False Ok Some enc by (simp add: save_def Let_def)
          moreover have "tab_ok E ?b'"
            using core False Ok Some enc by (auto simp: tab_ok_def restored_ok_def task_ok_def cong: option.case_cong)
          ultimately show ?thesis by simp
        qed (use False Ok Some in \<open>auto simp: save_def Let_def same_work_def intro!: quiet\<close>)
      qed (use False Ok in \<open>auto simp: save_def Let_def same_work_def intro!: quiet\<close>)
    qed (use False in \<open>auto simp: save_def Let_def same_work_def show_diagnostics_def intro!: quiet split: option.split\<close>)
  qed (use assms in \<open>simp add: save_def\<close>)
qed

lemma perform_tab_ok:
  assumes "tab_ok E b" and "enabled b event"
  shows "tab_ok E (perform E event b)"
proof (cases "bld_saving b")
  case True
  from same_work_tab_ok [OF perform_while_saving [OF this assms(2)] assms(1)] show ?thesis .
next
  case False
  show ?thesis
  proof (cases "event = Save")
    case True
    with save_tab_ok [OF assms(1)] show ?thesis by simp
  next
    case other: False
    from assms(1) False have task: "bld_task b = None" by (auto simp: tab_ok_def split: option.splits)
    from perform_same_storage [OF other, of b E] perform_draft [OF _ _ other, of E b] assms(1) False task show ?thesis
      by (auto simp: same_storage_def tab_ok_def restored_ok_def cong: option.case_cong)
  qed
qed

lemma finish_save_tab_ok:
  assumes "tab_ok E b" and "bld_task b = Some task" and raw: "\<And>value. result = Ok value \<Longrightarrow> value = svt_raw task"
  shows "tab_ok E (finish_save E result b)"
proof -
  have core: "draft_valid (ben_json E) (bld_spec b) (bld_records b)"
    "draft_valid (ben_json E) (dsn_spec (bld_saved b)) (dsn_records (bld_saved b))"
    "\<not> bld_restoration_failed b \<longrightarrow> restored_ok E b"
    using assms by (simp_all add: tab_ok_def)
  have quiet: "tab_ok E (b\<lparr>bld_status := st, bld_saving := False, bld_task := None\<rparr>)" for st
    using core by (simp add: tab_ok_def restored_ok_def cong: option.case_cong)
  show ?thesis
  proof (cases result)
    case (Ok value')
    note raw = raw [OF Ok]
    show ?thesis
    proof (cases "decode_saved (ben_json E) (ben_snapshot E) value'")
      case rec: (Ok receipt)
      with decoded_draft [OF rec] quiet assms(1,2) Ok raw show ?thesis
        by (auto simp: finish_save_def Let_def tab_ok_def restored_ok_def)
    qed (use quiet assms(1,2) Ok in \<open>auto simp: finish_save_def Let_def\<close>)
  qed (use quiet assms(1,2) in \<open>auto simp: finish_save_def Let_def\<close>)
qed

lemma write_returns_what_it_wrote:
  "write_local_snapshot locks writable storage expected serialized = (storage', Ok value) \<Longrightarrow>
     value = serialized \<and> storage' = Some serialized"
  by (auto simp: write_local_snapshot_def split: if_splits)

definition fixture_ready :: "builder_env \<Rightarrow> bool" where
  "fixture_ready E \<longleftrightarrow> draft_valid (ben_json E) (dsn_spec default_snapshot) (dsn_records default_snapshot)"

lemma start_tab_ok:
  assumes "fixture_ready E"
  shows "tab_ok E (builder_start E stored location_hash)"
  using assms
  by (auto simp: builder_start_def tab_ok_def restored_ok_def fixture_ready_def Let_def
      split: outcome.splits option.splits intro: decoded_draft)

lemma browser_step_tabs_ok:
  assumes "browser_step E w w'" and "fixture_ready E" and "\<forall>b\<in>set (brw_tabs w). tab_ok E b"
  shows "\<forall>b\<in>set (brw_tabs w'). tab_ok E b"
  using assms(1)
proof cases
  case (OpenTab stored reason location_hash)
  with assms start_tab_ok show ?thesis by auto
next
  case (Event i event)
  with assms(3) perform_tab_ok show ?thesis by (auto dest!: set_update_subset_insert [THEN subsetD])
next
  case (Write i task locks writable storage result)
  then have "tab_ok E (finish_save E result (brw_tabs w ! i))"
    using assms(3) by (intro finish_save_tab_ok) (auto dest: write_returns_what_it_wrote)
  with Write assms(3) show ?thesis by (auto dest!: set_update_subset_insert [THEN subsetD])
qed

text \<open>A browser whose tabs are all opened later, whatever its storage holds at first.\<close>

definition reachable_browser :: "builder_env \<Rightarrow> browser \<Rightarrow> bool" where
  "reachable_browser E w \<longleftrightarrow> (\<exists>storage. (browser_step E)\<^sup>*\<^sup>* \<lparr>brw_storage = storage, brw_tabs = []\<rparr> w)"

lemma reachable_tabs_ok:
  assumes "reachable_browser E w" and "fixture_ready E"
  shows "\<forall>b\<in>set (brw_tabs w). tab_ok E b"
proof -
  from assms(1) obtain storage where "(browser_step E)\<^sup>*\<^sup>* \<lparr>brw_storage = storage, brw_tabs = []\<rparr> w"
    by (auto simp: reachable_browser_def)
  then show ?thesis
    by (induction rule: rtranclp_induct) (auto dest: browser_step_tabs_ok [OF _ assms(2)])
qed

section \<open>What the Builder guarantees\<close>

text \<open>
  An event asks for something that would break the draft: cells or rows the batch of the kernel refuses,
  a field without a name, or a definition under which the rows are no valid draft.
\<close>

fun refused :: "builder_env \<Rightarrow> builder_event \<Rightarrow> builder \<Rightarrow> bool" where
  "refused E CommitCells b \<longleftrightarrow> \<not> bld_composing b \<and> entries (bld_buffers b) \<noteq> []
     \<and> (\<exists>d. candidate (ben_json E) (language_of E b) (bld_spec b) (bld_records b) (bld_buffers b) = Err d)"
| "refused E Save b \<longleftrightarrow>
     \<not> (bld_restoration_failed b \<or> bld_paused b \<or> bld_composing b \<or> bld_saving b)
     \<and> (\<exists>d. candidate (ben_json E) (language_of E b) ((bld_spec b)\<lparr>app_name := bld_app_name b\<rparr>) (bld_records b)
            (bld_buffers b) = Err d)"
| "refused E ImportRows b \<longleftrightarrow> (\<exists>d. prepare_import (ben_json E) (language_of E b) (bld_spec b) (bld_records b)
     (bld_table b) (bld_import_source b) = Err d)"
| "refused E Rename b \<longleftrightarrow> \<not> draft_valid (ben_json E) ((bld_spec b)\<lparr>app_name := bld_app_name b\<rparr>) (bld_records b)"
| "refused E AddField b \<longleftrightarrow> (\<exists>t\<in>set (app_tables (bld_spec b)). tbl_id t = bld_table b)
     \<and> (trim (bld_field_name b) = []
        \<or> \<not> draft_valid (ben_json E) (with_field (bld_spec b) (bld_table b)
              (new_field (bld_spec b) (bld_field_name b) (bld_field_type b))) (bld_records b))"
| "refused E (AddConstraint selected kind lower upper) b \<longleftrightarrow> \<not> editing_disabled b
     \<and> (\<exists>field rule. selected_field (bld_spec b) (bld_table b) selected = Some field
          \<and> panel_constraint (fld_type field) kind lower upper = Ok rule
          \<and> \<not> draft_valid (ben_json E) (with_constraint (bld_spec b) (bld_table b) (fld_id field) rule) (bld_records b))"
| "refused E (RemoveConstraint i) b \<longleftrightarrow> \<not> editing_disabled b
     \<and> \<not> draft_valid (ben_json E) ((bld_spec b)\<lparr>app_constraints :=
           filter (\<lambda>rule. fc_constraint_id rule \<noteq> i) (app_constraints (bld_spec b))\<rparr>) (bld_records b)"
| "refused E _ b \<longleftrightarrow> False"

text \<open>The diagnostic an event puts on the screen or returns to its panel.\<close>

fun diagnosed :: "builder_env \<Rightarrow> builder_event \<Rightarrow> builder \<Rightarrow> bool" where
  "diagnosed E ImportRows b \<longleftrightarrow>
     bld_import_errors (perform E ImportRows b) \<noteq> [] \<and> bld_status (perform E ImportRows b) = Invalid"
| "diagnosed E AddField b \<longleftrightarrow> bt_get (bld_errors (perform E AddField b)) ''field'' \<noteq> None"
| "diagnosed E (AddConstraint selected kind lower upper) b \<longleftrightarrow>
     (\<exists>e. fst (add_constraint E selected kind lower upper b) = Some (RuleError e))"
| "diagnosed E (RemoveConstraint i) b \<longleftrightarrow> (\<exists>e. fst (remove_constraint E i b) = Some (RuleError e))"
| "diagnosed E event b \<longleftrightarrow>
     entries (bld_errors (perform E event b)) \<noteq> [] \<and> bld_status (perform E event b) = Invalid"

text \<open>Nothing the user entered is lost, and nothing of the draft or of the saved version is touched.\<close>

definition keeps_work :: "builder \<Rightarrow> builder \<Rightarrow> bool" where
  "keeps_work b b' \<longleftrightarrow> same_work b b' \<and> bld_field_name b' = bld_field_name b
     \<and> bld_field_type b' = bld_field_type b \<and> bld_import_source b' = bld_import_source b"

lemma fold_m_not_Err: "(\<And>acc x e. f acc x \<noteq> Err e) \<Longrightarrow> fold_m f acc xs \<noteq> Err e"
  by (induction xs arbitrary: acc) (auto simp: and_then_Err_iff)

lemma edit_row_not_Err: "edit_row L d checked records buffers acc row \<noteq> Err e"
proof -
  have "edit_cell L checked scope records buffers acc field \<noteq> Err e" for scope acc field e
    by (cases acc) (simp add: edit_cell_def Let_def split: option.split outcome.split)
  then have "fold_m (edit_cell L checked scope records buffers) acc fs \<noteq> Err e" for scope acc fs e
    by (rule fold_m_not_Err)
  then show ?thesis by (cases acc) (auto simp: edit_row_def and_then_Err_iff split: option.splits)
qed

lemma import_row_not_Err: "import_row L checked scope table chosen baseline acc line \<noteq> Err e"
proof -
  have "import_cell L checked scope table baseline index acc cell \<noteq> Err e" for index acc cell e
    by (cases acc; cases cell) (simp add: import_cell_def split: outcome.split)
  then have "fold_m (import_cell L checked scope table baseline index) acc cells \<noteq> Err e" for index acc cells e
    by (rule fold_m_not_Err)
  moreover have "expect_ok r \<noteq> (Err e :: (string list, _) outcome)" for r e by (cases r) simp_all
  ultimately show ?thesis
    by (cases acc; cases line) (auto simp: import_row_def Let_def and_then_Err_iff split: if_splits)
qed

lemma entries_single: "entries (bt_of_list [(k, v)]) \<noteq> []"
  using bt_get_of_list_distinct [of "[(k, v)]" k] by (auto simp: bt_get_def)

lemma candidate_refuses: "candidate J L d records buffers = Err diagnostics \<Longrightarrow> entries diagnostics \<noteq> []"
  using fold_m_not_Err [of "edit_row L d checked records buffers" for checked, OF edit_row_not_Err]
  by (auto simp: candidate_def and_then_Err_iff map_err_Err_iff entries_single split: if_splits)

lemma prepare_import_refuses: "prepare_import J L d records t source = Err diagnostics \<Longrightarrow> diagnostics \<noteq> []"
  using fold_m_not_Err [of "import_row L checked scope table chosen records" for checked scope table chosen,
      OF import_row_not_Err]
  by (auto simp: prepare_import_def Let_def and_then_Err_iff map_err_Err_iff split: option.splits prod.splits if_splits)

lemma install_refuses:
  assumes "\<not> draft_valid J d (bld_records b)" and "app_tables d \<noteq> []"
  shows "\<exists>e. install_source (validate_source J d (bld_records b)) notice b = (Some (RuleError e), b)"
proof (cases "compile J d")
  case (Ok checked)
  have "validate_records J checked (scope_for d) (bld_records b) \<noteq> Ok facts" for facts
    using validated_draft(1) [OF Ok _ assms(2)] assms(1) by blast
  then obtain e where "validate_records J checked (scope_for d) (bld_records b) = Err e"
    by (cases "validate_records J checked (scope_for d) (bld_records b)") auto
  with Ok show ?thesis by (simp add: install_source_def validate_source_def scope_for_compiled [OF Ok])
qed (simp_all add: install_source_def validate_source_def compile_never_panics)

lemma refused_diagnosed:
  assumes draft: "draft_valid (ben_json E) (bld_spec b) (bld_records b)" and "refused E event b"
  shows "diagnosed E event b \<and> keeps_work b (perform E event b)"
proof (cases event)
  case CommitCells
  with assms(2) show ?thesis
    by (auto simp: commit_cells_def keeps_work_def same_work_def dest: candidate_refuses)
next
  case Save
  with assms(2) obtain d where "candidate (ben_json E) (language_of E b) ((bld_spec b)\<lparr>app_name := bld_app_name b\<rparr>)
      (bld_records b) (bld_buffers b) = Err d" and "\<not> (bld_restoration_failed b \<or> bld_paused b \<or> bld_composing b \<or> bld_saving b)"
    by auto
  with Save candidate_refuses show ?thesis
    by (cases "diagnostic_table d") (auto simp: save_def show_diagnostics_def Let_def keeps_work_def same_work_def)
next
  case ImportRows
  with assms(2) show ?thesis
    by (auto simp: import_rows_def keeps_work_def same_work_def dest: prepare_import_refuses)
next
  case Rename
  have "compile (ben_json E) ((bld_spec b)\<lparr>app_name := bld_app_name b\<rparr>) \<noteq> Ok checked" for checked
    using same_data_draft [OF draft, of "(bld_spec b)\<lparr>app_name := bld_app_name b\<rparr>"] assms(2) Rename by auto
  with Rename compile_never_panics show ?thesis
    by (auto simp: rename_def Let_def keeps_work_def same_work_def entries_single split: outcome.split)
next
  case AddField
  let ?next = "with_field (bld_spec b) (bld_table b) (new_field (bld_spec b) (bld_field_name b) (bld_field_type b))"
  have "compile (ben_json E) ?next \<noteq> Ok checked" if "\<not> draft_valid (ben_json E) ?next (bld_records b)" for checked
    using with_field_draft [OF draft] that by (auto simp: new_field_def)
  with AddField assms(2) compile_never_panics show ?thesis
    by (auto simp: add_field_def Let_def list_ex_iff keeps_work_def same_work_def bt_get_of_list split: outcome.split)
next
  case (AddConstraint selected kind lower upper)
  with assms(2) obtain field rule where field: "selected_field (bld_spec b) (bld_table b) selected = Some field"
    and rule: "panel_constraint (fld_type field) kind lower upper = Ok rule" and "\<not> editing_disabled b"
    and bad: "\<not> draft_valid (ben_json E) (with_constraint (bld_spec b) (bld_table b) (fld_id field) rule) (bld_records b)"
    by auto
  moreover have "app_tables (with_constraint (bld_spec b) (bld_table b) (fld_id field) rule) \<noteq> []"
    using draft by (simp add: draft_valid_def with_constraint_def)
  ultimately show ?thesis
    using install_refuses [OF bad, of RuleApplied] AddConstraint
    by (auto simp: add_constraint_def keeps_work_def same_work_def)
next
  case (RemoveConstraint i)
  let ?next = "(bld_spec b)\<lparr>app_constraints := filter (\<lambda>rule. fc_constraint_id rule \<noteq> i) (app_constraints (bld_spec b))\<rparr>"
  from RemoveConstraint assms(2) have bad: "\<not> draft_valid (ben_json E) ?next (bld_records b)" and "\<not> editing_disabled b"
    by simp_all
  moreover have "app_tables ?next \<noteq> []" using draft by (simp add: draft_valid_def)
  ultimately show ?thesis
    using install_refuses [OF bad, of RuleRemoved] RemoveConstraint
    by (auto simp: remove_constraint_def keeps_work_def same_work_def)
qed (use assms(2) in simp_all)

lemma retell_status: "bld_status (toggle_locale E b) = bld_status b"
  by (simp add: toggle_locale_def retell_import_def retell_errors_def split: outcome.split)

lemma invalid_is_refused:
  assumes "bld_status (perform E event b) = Invalid" and "bld_status b \<noteq> Invalid"
  shows "refused E event b"
proof (cases "event = Save \<or> event = ToggleLocale \<or> event = CommitCells \<or> event = ImportRows \<or> event = Rename")
  case True
  with assms show ?thesis
    by (auto simp: save_def show_diagnostics_def Let_def retell_status commit_cells_def import_rows_def rename_def
        draft_valid_def split: outcome.splits option.splits if_splits)
next
  case False
  with assms show ?thesis
    by (cases event) (auto simp: edit_defs Let_def split: outcome.splits option.splits if_splits)
qed

text \<open>
  C16. Whatever is typed, renamed, added, imported, cancelled, saved or reloaded, in however many tabs, the
  draft of every tab stays valid: its definition compiles and its rows satisfy it, with everything the
  tables, constraints and state machines demand. The same holds of the snapshot the tab would go back to.
  An input that would break the draft is refused: cells or rows the kernel's batch does not accept, a field
  without a name, and a name, a field or a change of the data rules that would leave no valid draft. A
  refusal shows a diagnostic and keeps the work: definition, rows, pending cells, the name, the new field,
  the text to import, the saved version and a save under way are as before. The tab's state turns to
  \<open>Invalid\<close> on a refusal only.
\<close>

theorem drafts_stay_valid:
  assumes "reachable_browser E w" and "fixture_ready E" and "b \<in> set (brw_tabs w)"
  shows "draft_valid (ben_json E) (bld_spec b) (bld_records b)
    \<and> draft_valid (ben_json E) (dsn_spec (bld_saved b)) (dsn_records (bld_saved b))
    \<and> (\<forall>event. refused E event b \<longrightarrow> diagnosed E event b \<and> keeps_work b (perform E event b))
    \<and> (\<forall>event. bld_status (perform E event b) = Invalid \<and> bld_status b \<noteq> Invalid \<longrightarrow> refused E event b)"
proof -
  have "tab_ok E b" using reachable_tabs_ok [OF assms(1,2)] assms(3) by blast
  then have "draft_valid (ben_json E) (bld_spec b) (bld_records b)"
    and "draft_valid (ben_json E) (dsn_spec (bld_saved b)) (dsn_records (bld_saved b))" by (simp_all add: tab_ok_def)
  with refused_diagnosed invalid_is_refused show ?thesis by blast
qed

text \<open>The version the storage holds: none stands for the example the Builder starts with.\<close>

definition stored_version :: "builder_env \<Rightarrow> browser \<Rightarrow> draft_snapshot option" where
  "stored_version E w =
     (case brw_storage w of
        None \<Rightarrow> Some default_snapshot
      | Some raw \<Rightarrow> (case decode_saved (ben_json E) (ben_snapshot E) raw of Ok s \<Rightarrow> Some s | _ \<Rightarrow> None))"

text \<open>The JSON library reads the drafts under way as it wrote them, and no document is empty.\<close>

definition codec_ok :: "builder_env \<Rightarrow> browser \<Rightarrow> bool" where
  "codec_ok E w \<longleftrightarrow>
     (\<forall>b\<in>set (brw_tabs w). \<forall>task. bld_task b = Some task \<longrightarrow>
        reads_back (ben_json E) (ben_snapshot E) (svt_draft task))
     \<and> (\<forall>stored. snj_read (ben_snapshot E) [] \<noteq> Ok stored)"

lemma next_draft_step:
  assumes "next_draft J baseline definition rows = Some draft"
  shows "dsn_spec draft = definition \<and> dsn_records draft = rows
    \<and> (unat (dsn_revision draft) = Suc (unat (dsn_revision baseline))
       \<or> dsn_revision draft = dsn_revision baseline \<and> same_content J draft baseline)"
  using assms by (auto simp: next_draft_def Let_def dest: checked_add_u64_one_Some split: if_splits)

lemma same_content_trans: "same_content J a b \<Longrightarrow> same_content J b c \<Longrightarrow> same_content J a c"
  by (auto simp: same_content_def split: outcome.splits)

lemma write_changes_storage:
  assumes "write_local_snapshot locks writable storage expected serialized = (storage', result)" and "storage' \<noteq> storage"
  shows "storage = (if expected = [] then None else Some expected) \<and> storage' = Some serialized"
  using assms by (auto simp: write_local_snapshot_def split: if_splits)

text \<open>The write of a task that changes the storage meets the version the tab last saw.\<close>

lemma task_write:
  assumes ok: "tab_ok E b" and codec: "\<forall>stored. snj_read (ben_snapshot E) [] \<noteq> Ok stored" and task: "bld_task b = Some task"
    and storage: "storage = (if svt_expected task = [] then None else Some (svt_expected task))"
  shows "storage = bld_persisted b \<and> encode_saved (ben_json E) (ben_snapshot E) (svt_draft task) = Ok (svt_raw task)
    \<and> (case storage of None \<Rightarrow> bld_saved b = default_snapshot
       | Some raw \<Rightarrow> decode_saved (ben_json E) (ben_snapshot E) raw = Ok (bld_saved b))"
proof -
  from ok task have t: "task_ok E b task" "restored_ok E b" by (auto simp: tab_ok_def task_ok_def)
  have "decode_saved (ben_json E) (ben_snapshot E) [] \<noteq> Ok s" for s
    using codec by (auto simp: decode_saved_def outcome_simps)
  with t(2) have "bld_persisted b \<noteq> Some []" by (auto simp: restored_ok_def)
  with t storage have "storage = bld_persisted b" by (auto simp: task_ok_def split: option.splits)
  with t show ?thesis by (auto simp: task_ok_def restored_ok_def cong: option.case_cong)
qed

text \<open>
  C17. No save is lost to another tab. However many tabs edit and save, every change of the storage replaces
  a version the writing tab had read by its successor: the stored version was readable, the new one is
  readable, and its revision is the next one, or the same with the same content. A tab whose version is
  out of date, or whose storage could not be read, changes nothing.
\<close>

theorem saves_form_one_history:
  assumes "reachable_browser E w" and "browser_step E w w'" and "brw_storage w' \<noteq> brw_storage w"
    and "fixture_ready E" and "codec_ok E w"
  shows "\<exists>old new. stored_version E w = Some old \<and> stored_version E w' = Some new
    \<and> (unat (dsn_revision new) = Suc (unat (dsn_revision old))
       \<or> dsn_revision new = dsn_revision old \<and> same_content (ben_json E) new old)"
  using assms(2)
proof cases
  case (Write i task locks writable storage result)
  let ?b = "brw_tabs w ! i" and ?J = "ben_json E" and ?N = "ben_snapshot E"
  have ok: "tab_ok E ?b" using reachable_tabs_ok [OF assms(1,4)] Write by simp
  from assms(5) Write(2,3) have codec: "reads_back ?J ?N (svt_draft task)"
    "\<forall>stored. snj_read ?N [] \<noteq> Ok stored" by (auto simp: codec_ok_def)
  from Write assms(3) have "storage \<noteq> brw_storage w" by simp
  from write_changes_storage [OF Write(4) this] have
    before: "brw_storage w = (if svt_expected task = [] then None else Some (svt_expected task))"
    and after: "storage = Some (svt_raw task)" by simp_all
  from task_write [OF ok codec(2) Write(3) before] have
    encoded: "encode_saved ?J ?N (svt_draft task) = Ok (svt_raw task)" and old: "stored_version E w = Some (bld_saved ?b)"
    by (auto simp: stored_version_def split: option.splits)
  from ok Write(3) have "task_ok E ?b task" by (simp add: tab_ok_def)
  then obtain d rows where
    "next_draft ?J (bld_saved ?b) d rows = Some (svt_draft task)"
    and d: "d = (bld_spec ?b)\<lparr>app_name := bld_app_name ?b\<rparr>" by (auto simp: task_ok_def)
  from next_draft_step [OF this(1)] have draft: "dsn_spec (svt_draft task) = d"
    "unat (dsn_revision (svt_draft task)) = Suc (unat (dsn_revision (bld_saved ?b)))
      \<or> dsn_revision (svt_draft task) = dsn_revision (bld_saved ?b) \<and> same_content ?J (svt_draft task) (bld_saved ?b)" by blast+
  have "app_tables (dsn_spec (svt_draft task)) \<noteq> []"
    using ok draft(1) d by (simp add: tab_ok_def draft_valid_def)
  from saved_round_trip [OF encoded codec(1) this] have
    "decode_saved ?J ?N (svt_raw task) = Ok (canonical_snapshot (svt_draft task))"
    "same_content ?J (canonical_snapshot (svt_draft task)) (svt_draft task)" by blast+
  moreover have "dsn_revision (canonical_snapshot s) = dsn_revision s" for s
    by (simp add: canonical_snapshot_def Let_def)
  ultimately have "stored_version E w' = Some (canonical_snapshot (svt_draft task))"
    and "unat (dsn_revision (canonical_snapshot (svt_draft task))) = Suc (unat (dsn_revision (bld_saved ?b)))
      \<or> dsn_revision (canonical_snapshot (svt_draft task)) = dsn_revision (bld_saved ?b)
         \<and> same_content ?J (canonical_snapshot (svt_draft task)) (bld_saved ?b)"
    using draft(2) after Write(1) by (auto simp: stored_version_def intro: same_content_trans)
  with old show ?thesis by blast
qed (use assms(3) in auto)

text \<open>
  C18. A confirmed save is the screen as it was: when a save ends as saved, the storage text it confirms reads
  back as the tab's saved snapshot, the tab shows that snapshot, and it has the same content as the
  draft the name, the rows and all the pending cells on the screen make at that moment. When it ends
  otherwise, the definition, the rows, the pending cells and their diagnostics are all kept, and so is
  what the tab knows to be stored.
\<close>

theorem save_confirms_the_screen:
  assumes "reachable_browser E w" and "fixture_ready E" and "b \<in> set (brw_tabs w)" and "bld_task b = Some task"
    and "write_local_snapshot locks writable (brw_storage w) (svt_expected task) (svt_raw task) = (storage, result)"
    and "b' = finish_save E result b"
  shows "if bld_status b' = Saved
    then storage = bld_persisted b'
      \<and> (\<exists>raw. storage = Some raw \<and> decode_saved (ben_json E) (ben_snapshot E) raw = Ok (bld_saved b'))
      \<and> bld_spec b' = dsn_spec (bld_saved b') \<and> bld_records b' = dsn_records (bld_saved b')
      \<and> (\<exists>L rows draft. candidate (ben_json E) L ((bld_spec b)\<lparr>app_name := bld_app_name b\<rparr>) (bld_records b) (bld_buffers b) = Ok rows
           \<and> dsn_spec draft = (bld_spec b)\<lparr>app_name := bld_app_name b\<rparr> \<and> dsn_records draft = rows
           \<and> same_content (ben_json E) (bld_saved b') draft)
    else bld_spec b' = bld_spec b \<and> bld_records b' = bld_records b \<and> bld_buffers b' = bld_buffers b
      \<and> bld_errors b' = bld_errors b \<and> bld_app_name b' = bld_app_name b
      \<and> bld_persisted b' = bld_persisted b \<and> bld_saved b' = bld_saved b"
proof (cases "bld_status b' = Saved")
  case False
  then show ?thesis using assms(4,6)
    by (auto simp: finish_save_def Let_def split: outcome.splits if_splits)
next
  case True
  with assms(4,6) obtain bytes where result: "result = Ok bytes"
    and receipt: "decode_saved (ben_json E) (ben_snapshot E) bytes = Ok (bld_saved b')"
      "same_content (ben_json E) (bld_saved b') (svt_draft task)"
    and shown: "bld_spec b' = dsn_spec (bld_saved b')" "bld_records b' = dsn_records (bld_saved b')"
      "bld_persisted b' = Some (svt_raw task)"
    by (auto simp: finish_save_def Let_def split: outcome.splits if_splits)
  from write_returns_what_it_wrote [OF assms(5) [unfolded result]] have bytes: "bytes = svt_raw task" "storage = Some (svt_raw task)" by simp_all
  have "tab_ok E b" using reachable_tabs_ok [OF assms(1,2)] assms(3) by blast
  with assms(4) have "task_ok E b task" by (simp add: tab_ok_def)
  then obtain L rows where
    "candidate (ben_json E) L ((bld_spec b)\<lparr>app_name := bld_app_name b\<rparr>) (bld_records b) (bld_buffers b) = Ok rows"
    and "next_draft (ben_json E) (bld_saved b) ((bld_spec b)\<lparr>app_name := bld_app_name b\<rparr>) rows = Some (svt_draft task)"
    by (auto simp: task_ok_def)
  with next_draft_step [OF this(2)] True receipt shown bytes show ?thesis by auto
qed

section \<open>Witnesses\<close>

text \<open>A JSON library that writes and reads the example application with its rows.\<close>

definition demo_json :: snapshot_json where
  "demo_json = draft_json\<lparr>snj_read := (\<lambda>raw. if raw = [] then Err ''EOF'' else snj_read draft_json raw)\<rparr>"

definition demo_env :: builder_env where
  "demo_env = \<lparr>ben_json = draft_serde, ben_snapshot = demo_json, ben_vi_text = (\<lambda>s. s)\<rparr>"

definition demo_tab :: builder where "demo_tab = builder_start demo_env (Ok None) None"

definition demo_task :: save_task where
  "demo_task = \<lparr>svt_draft = \<lparr>dsn_revision = 0, dsn_spec = example_spec, dsn_records = demo_rows\<rparr>,
     svt_expected = [], svt_raw = ''0''\<rparr>"

text \<open>The other stages follow from the encoding of the same application in \<open>draft_start_encodes\<close>.\<close>

lemma demo_content:
  obtains checked rows where "compile draft_serde example_spec = Ok checked"
    and "validate_records draft_serde checked draft_scope draft_rows = Ok rows"
    and "validate_records draft_serde checked draft_scope demo_rows = Ok rows"
    and "spec_encode draft_serde checked = Ok ''{}''" and "checked_records_encode draft_serde rows = Ok ''[]''"
proof -
  obtain checked rows where spec: "compile draft_serde example_spec = Ok checked"
    and checked: "checked = CheckedAppSpec (normalize_definition example_spec)"
    and rows: "validate_records draft_serde checked draft_scope draft_rows = Ok rows"
    and raw: "to_raw rows = normalized checked draft_rows"
    and enc: "spec_encode draft_serde checked = Ok ''{}''" "checked_records_encode draft_serde rows = Ok ''[]''"
    by (rule encode_saved_Ok [OF draft_start_encodes])
      (rule that; simp add: draft_start_def draft_scope_def draft_serde_def plain_serde_def)
  moreover have "validate_records draft_serde checked draft_scope demo_rows = Ok rows"
    using validate_records_facts_ok [OF rows] validate_records_scope [OF rows] raw
    by (simp add: facts_ok_def demo_rows_def checked)
  ultimately show ?thesis by (intro that)
qed

lemma demo_default: "default_snapshot = \<lparr>dsn_revision = 0, dsn_spec = example_spec, dsn_records = draft_rows\<rparr>"
  by (simp add: default_snapshot_def draft_rows_def draft_scope_def)

lemma demo_scope: "scope_for example_spec = draft_scope"
  by (simp add: draft_scope_def)

lemma demo_same: "same_content draft_serde (svt_draft demo_task) default_snapshot"
  by (rule demo_content) (simp add: same_content_def canonical_content_def demo_task_def demo_default demo_scope)

lemma demo_next: "next_draft draft_serde default_snapshot example_spec demo_rows = Some (svt_draft demo_task)"
  using demo_same by (simp add: next_draft_def Let_def demo_task_def demo_default)

lemma demo_encoded: "encode_saved draft_serde demo_json (svt_draft demo_task) = Ok (svt_raw demo_task)"
proof -
  have "show_nat 0 = ''0''" by code_simp
  then show ?thesis
    by (rule_tac demo_content)
      (simp add: encode_saved_def demo_task_def demo_scope from_utf8_def demo_json_def draft_json_def MAX_BYTES_def)
qed

lemma demo_fixture: "fixture_ready demo_env"
proof -
  have "app_tables example_spec \<noteq> []" by (simp add: example_spec_def)
  then show ?thesis
    by (rule_tac demo_content)
      (auto simp: fixture_ready_def demo_env_def demo_default demo_scope intro: validated_draft(1))
qed

lemma demo_start:
  "bld_restoration_failed demo_tab = False" "bld_paused demo_tab = False" "bld_composing demo_tab = False"
  "bld_saving demo_tab = False" "bld_persisted demo_tab = None" "bld_saved demo_tab = default_snapshot"
  "bld_spec demo_tab = example_spec" "bld_records demo_tab = draft_rows" "bld_buffers demo_tab = bt_empty"
  "bld_app_name demo_tab = app_name example_spec" "bld_vi demo_tab = True" "bld_task demo_tab = None"
  by (simp_all add: demo_tab_def builder_start_def demo_default)

lemma demo_saves: "bld_task (save demo_env demo_tab) = Some demo_task"
  using demo_candidate demo_next demo_encoded
  by (simp add: save_def demo_start Let_def language_of_def demo_env_def demo_task_def)

text \<open>One tab is opened, saves, and its write is carried out.\<close>

definition demo_open :: browser where "demo_open = \<lparr>brw_storage = None, brw_tabs = [demo_tab]\<rparr>"

definition demo_saving :: browser where "demo_saving = \<lparr>brw_storage = None, brw_tabs = [save demo_env demo_tab]\<rparr>"

definition demo_written :: browser where
  "demo_written = \<lparr>brw_storage = Some ''0'', brw_tabs = [finish_save demo_env (Ok ''0'') (save demo_env demo_tab)]\<rparr>"

lemma demo_step_open: "browser_step demo_env \<lparr>brw_storage = None, brw_tabs = []\<rparr> demo_open"
  using OpenTab [of "Ok None" "\<lparr>brw_storage = None, brw_tabs = []\<rparr>" undefined demo_env None]
  by (simp add: demo_open_def demo_tab_def)

lemma demo_step_save: "browser_step demo_env demo_open demo_saving"
  using Event [of 0 demo_open Save demo_env] by (simp add: demo_open_def demo_saving_def)

lemma demo_write: "write_local_snapshot True True None (svt_expected demo_task) (svt_raw demo_task) = (Some ''0'', Ok ''0'')"
  by (simp add: write_local_snapshot_def demo_task_def)

lemma demo_step_write: "browser_step demo_env demo_saving demo_written"
  using Write [of 0 demo_saving demo_task True True "Some ''0''" "Ok ''0''" demo_env] demo_saves demo_write
  by (simp add: demo_saving_def demo_written_def)

lemma demo_reachable: "reachable_browser demo_env demo_saving"
  unfolding reachable_browser_def
  by (rule exI, rule rtranclp.rtrancl_into_rtrancl [OF r_into_rtranclp [of "browser_step demo_env", OF demo_step_open] demo_step_save])

lemma demo_open_reachable: "reachable_browser demo_env demo_open"
  unfolding reachable_browser_def using demo_step_open by blast

lemma demo_add_refused: "refused demo_env AddField demo_tab"
proof -
  have "app_tables example_spec \<noteq> []" by (simp add: example_spec_def)
  then have "hd (app_tables example_spec) \<in> set (app_tables example_spec)" by simp
  moreover have "bld_table demo_tab = tbl_id (hd (app_tables example_spec))" and "bld_field_name demo_tab = []"
    by (simp_all add: demo_tab_def builder_start_def demo_default selected_table_def table_from_hash_def)
  moreover have "trim [] = []" by code_simp
  ultimately show ?thesis by (auto simp: demo_start)
qed

theorem drafts_stay_valid_witness:
  "draft_valid (ben_json demo_env) (bld_spec demo_tab) (bld_records demo_tab)
   \<and> diagnosed demo_env AddField demo_tab \<and> keeps_work demo_tab (perform demo_env AddField demo_tab)"
  using drafts_stay_valid [OF demo_open_reachable demo_fixture, of demo_tab] demo_add_refused
  by (simp add: demo_open_def del: refused.simps diagnosed.simps perform.simps)

lemma demo_codec: "reads_back draft_serde demo_json (svt_draft demo_task)"
  by (auto simp: reads_back_def canonical_snapshot_def Let_def draft_serde_def demo_json_def draft_json_def plain_serde_def
      demo_task_def demo_rows_def)

theorem saves_form_one_history_witness:
  "\<exists>old new. stored_version demo_env demo_saving = Some old \<and> stored_version demo_env demo_written = Some new
     \<and> unat (dsn_revision old) \<le> unat (dsn_revision new)"
proof -
  have "brw_storage demo_written \<noteq> brw_storage demo_saving" by (simp add: demo_saving_def demo_written_def)
  moreover have "codec_ok demo_env demo_saving"
    using demo_codec demo_saves by (auto simp: codec_ok_def demo_saving_def) (simp_all add: demo_env_def demo_json_def)
  ultimately show ?thesis
    using saves_form_one_history [OF demo_reachable demo_step_write _ demo_fixture] by fastforce
qed

theorem save_confirms_the_screen_witness:
  "brw_storage demo_written = bld_persisted (finish_save demo_env (Ok ''0'') (save demo_env demo_tab))"
proof -
  let ?b = "save demo_env demo_tab"
  have "app_tables (dsn_spec (svt_draft demo_task)) \<noteq> []" by (simp add: demo_task_def example_spec_def)
  from saved_round_trip [OF demo_encoded demo_codec this] have
    "decode_saved draft_serde demo_json ''0'' = Ok (canonical_snapshot (svt_draft demo_task))"
    "same_content draft_serde (canonical_snapshot (svt_draft demo_task)) (svt_draft demo_task)" by (simp_all add: demo_task_def)
  moreover have "dsn_revision (canonical_snapshot (svt_draft demo_task)) = dsn_revision (svt_draft demo_task)"
    by (simp add: canonical_snapshot_def Let_def)
  ultimately have "bld_status (finish_save demo_env (Ok ''0'') ?b) = Saved"
    using demo_saves by (simp add: finish_save_def demo_env_def)
  with save_confirms_the_screen [OF demo_reachable demo_fixture, of ?b demo_task True True "Some ''0''" "Ok ''0''"] demo_saves demo_write
  show ?thesis by (simp add: demo_saving_def demo_written_def)
qed

end
