(* ===== verification/Runtime_Client.thy ===== *)
theory Runtime_Client
  imports Wire_Totality Draft
begin

text \<open>
  The browser client of a released application (\<open>apps/evobase-builder/src/runtime.rs\<close>): its signals are a
  record, every handler is a function on it, and a request in flight is a task that is answered in a later
  step. The browser's \<open>fetch\<close>, its parser of addresses and \<open>serde_json\<close> are parameters. Rendering is left out.
\<close>

section \<open>Configuration\<close>

text \<open>An address as the browser's \<open>URL\<close> parses it.\<close>

record url_parts =
  url_protocol :: string
  url_hostname :: string
  url_username :: string
  url_password :: string
  url_search :: string
  url_hash :: string
  url_pathname :: string

definition runtime_validate_base :: "(string \<Rightarrow> url_parts option) \<Rightarrow> string \<Rightarrow> bool" where
  "runtime_validate_base parse base \<longleftrightarrow>
     (case parse base of
        None \<Rightarrow> False
      | Some origin \<Rightarrow>
          let local = url_hostname origin \<in> {''localhost'', ''127.0.0.1'', ''[::1]''} in
          (url_protocol origin = ''https:'' \<or> (url_protocol origin = ''http:'' \<and> local))
          \<and> url_username origin = [] \<and> url_password origin = [] \<and> url_search origin = [] \<and> url_hash origin = []
          \<and> (url_pathname origin = ''/'' \<or> url_pathname origin = []))"

record runtime_config =
  cfg_base :: string
  cfg_app :: app_id
  cfg_credential :: string

record http_reply =
  hrp_status :: "16 word"
  hrp_payload :: string

datatype runtime_failure = FailConfiguration | FailTransport | FailProtocol | FailApi error_code_dto

datatype runtime_notice =
    NoticeReady | NoticeLoading | NoticeLive | NoticeSending | NoticeUnknown | NoticeNoReceipt
  | NoticeFailure runtime_failure

record attempt =
  atm_config :: runtime_config
  atm_request :: command_request_dto
  atm_body :: string
  atm_uncertain :: bool

datatype input_issue = IssueRequired | IssueType field_type

section \<open>Requests\<close>

text \<open>
  What the promise of \<open>runtimeHttp\<close> ends with: a rejection (network, timeout, an abort, a body over the
  limit, an address it refuses) or the text of its own envelope.
\<close>

datatype http_outcome = HttpRejected | HttpText string

record runtime_env =
  ren_url :: "string \<Rightarrow> url_parts option"
  ren_reply :: "string \<Rightarrow> http_reply option"
  ren_metadata :: "metadata_response_dto wire_json"
  ren_list :: "list_response_dto wire_json"
  ren_receipt :: "receipt_response_dto wire_json"
  ren_error :: "api_error_dto wire_json"
  ren_request :: "command_request_dto wire_json"

definition decode_metadata where "decode_metadata = wire_decode mrd_api_version validate_metadata"
definition decode_list where "decode_list = wire_decode lrd_api_version validate_list"
definition decode_receipt where "decode_receipt = wire_decode rrd_api_version validate_receipt_response"
definition decode_api_error where "decode_api_error = wire_decode aed_api_version validate_api_error"
definition encode_command_request where
  "encode_command_request = wire_encode crd_api_version validate_command_request"

definition request_result :: "runtime_env \<Rightarrow> http_outcome \<Rightarrow> (runtime_failure, string) outcome" where
  "request_result E result =
     (case result of
        HttpRejected \<Rightarrow> Err FailTransport
      | HttpText text \<Rightarrow>
          (case ren_reply E text of
             None \<Rightarrow> Err FailProtocol
           | Some reply \<Rightarrow>
               if 200 \<le> unat (hrp_status reply) \<and> unat (hrp_status reply) < 300 then Ok (hrp_payload reply)
               else and_then (map_err (\<lambda>_. FailProtocol) (decode_api_error (ren_error E) (hrp_payload reply)))
                 (\<lambda>e. Err (FailApi (aed_code e)))))"

text \<open>A request as it leaves the browser.\<close>

record http_request =
  hrq_base :: string
  hrq_path :: string
  hrq_credential :: string
  hrq_method :: string
  hrq_body :: string

section \<open>State\<close>

text \<open>The tasks in flight: each waits for the answer to one request.\<close>

datatype runtime_task =
    LoadTable runtime_config table_id u64
  | LoadApplication runtime_config u64
  | SendCommand attempt string bool u64

fun task_generation :: "runtime_task \<Rightarrow> u64" where
  "task_generation (LoadTable _ _ generation) = generation"
| "task_generation (LoadApplication _ generation) = generation"
| "task_generation (SendCommand _ _ _ generation) = generation"

fun task_request :: "runtime_task \<Rightarrow> http_request" where
  "task_request (LoadTable config table _) =
     \<lparr>hrq_base = cfg_base config,
      hrq_path = ''/v1/apps/'' @ as_str (cfg_app config) @ ''/tables/'' @ as_str table @ ''?limit=100'',
      hrq_credential = cfg_credential config, hrq_method = ''GET'', hrq_body = []\<rparr>"
| "task_request (LoadApplication config _) =
     \<lparr>hrq_base = cfg_base config, hrq_path = ''/v1/apps/'' @ as_str (cfg_app config) @ ''/runtime-metadata'',
      hrq_credential = cfg_credential config, hrq_method = ''GET'', hrq_body = []\<rparr>"
| "task_request (SendCommand attempt credential recover _) =
     \<lparr>hrq_base = cfg_base (atm_config attempt),
      hrq_path = ''/v1/apps/'' @ as_str (cfg_app (atm_config attempt))
        @ (if recover then ''/receipts/'' @ crd_request_key (atm_request attempt) else ''/commands''),
      hrq_credential = credential, hrq_method = (if recover then ''GET'' else ''POST''),
      hrq_body = (if recover then [] else atm_body attempt)\<rparr>"

text \<open>
  An auxiliary history, which nothing reads: the requests sent, and the points where the client lets go of
  an attempt.
\<close>

datatype history_entry = Sent http_request | Settled attempt

record runtime =
  rtm_base :: string
  rtm_app :: string
  rtm_credential :: string
  rtm_metadata :: "metadata_response_dto option"
  rtm_list :: "list_response_dto option"
  rtm_table :: string
  rtm_record :: string
  rtm_command :: string
  rtm_params :: "(field_id, string) btree_map"
  rtm_errors :: "(field_id, input_issue) btree_map"
  rtm_attempt :: "attempt option"
  rtm_receipt :: "receipt_response_dto option"
  rtm_notice :: runtime_notice
  rtm_busy :: bool
  rtm_generation :: u64
  rtm_tasks :: "runtime_task list"
  rtm_history :: "history_entry list"

definition runtime_start :: runtime where
  "runtime_start = \<lparr>rtm_base = ''http://127.0.0.1:8080'', rtm_app = [], rtm_credential = [], rtm_metadata = None,
     rtm_list = None, rtm_table = [], rtm_record = [], rtm_command = [], rtm_params = bt_empty,
     rtm_errors = bt_empty, rtm_attempt = None, rtm_receipt = None, rtm_notice = NoticeReady, rtm_busy = False,
     rtm_generation = 0, rtm_tasks = [], rtm_history = []\<rparr>"

text \<open>\<open>spawn_local\<close>: the task runs to its first request.\<close>

definition spawn :: "runtime_task \<Rightarrow> runtime \<Rightarrow> runtime" where
  "spawn task w = w\<lparr>rtm_tasks := rtm_tasks w @ [task], rtm_history := rtm_history w @ [Sent (task_request task)]\<rparr>"

definition settle :: "attempt \<Rightarrow> runtime \<Rightarrow> runtime" where
  "settle attempt w = w\<lparr>rtm_attempt := None, rtm_history := rtm_history w @ [Settled attempt]\<rparr>"

section \<open>The methods of the state\<close>

definition select_record :: "string \<Rightarrow> runtime \<Rightarrow> runtime" where
  "select_record i w =
     (if rtm_record w \<noteq> i
      then w\<lparr>rtm_params := bt_empty, rtm_errors := bt_empty, rtm_command := [], rtm_record := i\<rparr> else w)"

definition show_failure :: "runtime_failure \<Rightarrow> runtime \<Rightarrow> runtime" where
  "show_failure e w =
     (let w = (if e = FailApi CodeDenied then w\<lparr>rtm_metadata := None, rtm_list := None, rtm_receipt := None\<rparr> else w) in
      w\<lparr>rtm_notice := NoticeFailure e, rtm_busy := False\<rparr>)"

definition invalidate :: "runtime \<Rightarrow> runtime" where
  "invalidate w =
     (let w = w\<lparr>rtm_generation := rtm_generation w + 1, rtm_metadata := None, rtm_list := None,
               rtm_receipt := None, rtm_busy := False\<rparr> in
      case rtm_attempt w of
        Some attempt \<Rightarrow> w\<lparr>rtm_attempt := Some (attempt\<lparr>atm_uncertain := True\<rparr>), rtm_notice := NoticeUnknown\<rparr>
      | None \<Rightarrow> w\<lparr>rtm_notice := NoticeReady\<rparr>)"

definition selected_command :: "runtime \<Rightarrow> command_metadata_dto option" where
  "selected_command w =
     Option.bind (rtm_metadata w) (\<lambda>metadata.
       let offered = filter (\<lambda>command. as_str (cmd'_table_id command) = rtm_table w
             \<and> list_ex (\<lambda>i. as_str i = rtm_record w) (cmd'_eligible_record_ids command)) (mrd_commands metadata) in
       case List.find (\<lambda>command. cmd'_command_id command = rtm_command w) offered of
         Some command \<Rightarrow> Some command
       | None \<Rightarrow> List.find (\<lambda>_. True) offered)"

section \<open>Answers\<close>

definition load_table_answer ::
  "runtime_env \<Rightarrow> runtime_config \<Rightarrow> table_id \<Rightarrow> u64 \<Rightarrow> http_outcome \<Rightarrow> runtime \<Rightarrow> runtime" where
  "load_table_answer E config table generation result w =
     (if rtm_generation w \<noteq> generation \<or> rtm_table w \<noteq> as_str table then w
      else case and_then (request_result E result) (\<lambda>raw. map_err (\<lambda>_. FailProtocol) (decode_list (ren_list E) raw)) of
        Ok rows \<Rightarrow>
          if lrd_app_id rows = cfg_app config \<and> lrd_table_id rows = table
             \<and> (case rtm_metadata w of Some metadata \<Rightarrow> mrd_release_id metadata = lrd_release_id rows | None \<Rightarrow> False)
          then let w = (if list_ex (\<lambda>r. as_str (rcd_record_id r) = rtm_record w) (lrd_records rows) then w
                 else select_record (case lrd_records rows of [] \<Rightarrow> [] | r # _ \<Rightarrow> as_str (rcd_record_id r)) w) in
               w\<lparr>rtm_list := Some rows, rtm_notice := NoticeLive, rtm_busy := False\<rparr>
          else w\<lparr>rtm_notice := NoticeFailure FailProtocol, rtm_busy := False\<rparr>
      | Err e \<Rightarrow> (show_failure e w)\<lparr>rtm_busy := False\<rparr>
      | Panic \<Rightarrow> w)"

definition receipt_matches :: "receipt_response_dto \<Rightarrow> attempt \<Rightarrow> bool" where
  "receipt_matches receipt attempt \<longleftrightarrow>
     rrd_app_id receipt = cfg_app (atm_config attempt)
     \<and> rrd_command_id receipt = crd_command_id (atm_request attempt)
     \<and> rrd_record_id receipt = crd_record_id (atm_request attempt)
     \<and> rrd_release_id receipt = crd_release_id (atm_request attempt)
     \<and> rrd_request_key receipt = crd_request_key (atm_request attempt)"

text \<open>The selected table where the metadata still has it, else its first one.\<close>

definition current_table :: "string \<Rightarrow> metadata_response_dto \<Rightarrow> table_id option" where
  "current_table selected metadata =
     map_option tmd_table_id
       (case List.find (\<lambda>table. as_str (tmd_table_id table) = selected) (mrd_tables metadata) of
          Some table \<Rightarrow> Some table | None \<Rightarrow> List.find (\<lambda>_. True) (mrd_tables metadata))"

definition load_application_answer ::
  "runtime_env \<Rightarrow> runtime_config \<Rightarrow> u64 \<Rightarrow> http_outcome \<Rightarrow> runtime \<Rightarrow> runtime" where
  "load_application_answer E config generation result w =
     (if rtm_generation w \<noteq> generation then w
      else case and_then (request_result E result)
          (\<lambda>raw. map_err (\<lambda>_. FailProtocol) (decode_metadata (ren_metadata E) raw)) of
        Ok metadata \<Rightarrow>
          if mrd_app_id metadata = cfg_app config \<and> mrd_canonical_appspec metadata = None
          then (case current_table (rtm_table w) metadata of
              Some table \<Rightarrow> spawn (LoadTable config table generation)
                (w\<lparr>rtm_metadata := Some metadata, rtm_table := as_str table\<rparr>)
            | None \<Rightarrow> w\<lparr>rtm_metadata := Some metadata, rtm_busy := False, rtm_notice := NoticeLive\<rparr>)
          else w\<lparr>rtm_notice := NoticeFailure FailProtocol, rtm_busy := False\<rparr>
      | Err e \<Rightarrow> show_failure e w
      | Panic \<Rightarrow> w)"

text \<open>The outcome is unknown: the attempt is kept, marked as such.\<close>

definition keep_unknown :: "attempt \<Rightarrow> runtime \<Rightarrow> runtime" where
  "keep_unknown attempt w =
     w\<lparr>rtm_attempt := Some (attempt\<lparr>atm_uncertain := True\<rparr>), rtm_notice := NoticeUnknown, rtm_busy := False\<rparr>"

definition finish_receipt ::
  "attempt \<Rightarrow> receipt_response_dto \<Rightarrow> u64 \<Rightarrow> string \<Rightarrow> runtime \<Rightarrow> runtime" where
  "finish_receipt attempt receipt generation credential w =
     (if \<not> receipt_matches receipt attempt then keep_unknown attempt w
      else spawn (LoadApplication ((atm_config attempt)\<lparr>cfg_credential := credential\<rparr>) generation)
        (settle attempt (w\<lparr>rtm_receipt := Some receipt, rtm_errors := bt_empty\<rparr>)))"

definition send_answer ::
  "runtime_env \<Rightarrow> attempt \<Rightarrow> string \<Rightarrow> bool \<Rightarrow> u64 \<Rightarrow> http_outcome \<Rightarrow> runtime \<Rightarrow> runtime" where
  "send_answer E attempt credential recover generation result w =
     (if rtm_generation w \<noteq> generation then w
      else case request_result E result of
        Ok raw \<Rightarrow>
          (case decode_receipt (ren_receipt E) raw of
             Ok receipt \<Rightarrow> finish_receipt attempt receipt generation credential w
           | Err _ \<Rightarrow> keep_unknown attempt w
           | Panic \<Rightarrow> w)
      | Err e \<Rightarrow>
          if e = FailApi CodeNotFound \<and> recover then w\<lparr>rtm_notice := NoticeNoReceipt, rtm_busy := False\<rparr>
          else if e \<in> {FailTransport, FailProtocol, FailApi CodeInternal} then keep_unknown attempt w
          else show_failure e (if \<not> recover \<and> \<not> atm_uncertain attempt then settle attempt w else w)
      | Panic \<Rightarrow> w)"

fun answer_task :: "runtime_env \<Rightarrow> runtime_task \<Rightarrow> http_outcome \<Rightarrow> runtime \<Rightarrow> runtime" where
  "answer_task E (LoadTable config table generation) result w = load_table_answer E config table generation result w"
| "answer_task E (LoadApplication config generation) result w = load_application_answer E config generation result w"
| "answer_task E (SendCommand attempt credential recover generation) result w =
     send_answer E attempt credential recover generation result w"

definition drop_task :: "nat \<Rightarrow> runtime \<Rightarrow> runtime" where
  "drop_task i w = w\<lparr>rtm_tasks := take i (rtm_tasks w) @ drop (Suc i) (rtm_tasks w)\<rparr>"

section \<open>Handlers\<close>

definition dispatch :: "attempt \<Rightarrow> string \<Rightarrow> bool \<Rightarrow> runtime \<Rightarrow> runtime" where
  "dispatch attempt credential recover w =
     (if rtm_busy w then w
      else spawn (SendCommand attempt credential recover (rtm_generation w))
        (w\<lparr>rtm_busy := True, rtm_notice := NoticeSending\<rparr>))"

definition config_of :: "runtime_env \<Rightarrow> runtime \<Rightarrow> (runtime_failure, runtime_config) outcome" where
  "config_of E w =
     (if rtm_credential w = [] \<or> length (rtm_credential w) > 4096 \<or> length (rtm_base w) > 2048
         \<or> \<not> runtime_validate_base (ren_url E) (rtm_base w)
      then Err FailConfiguration
      else and_then (map_err (\<lambda>_. FailConfiguration) (app_id_new (rtm_app w))) (\<lambda>app.
        Ok \<lparr>cfg_base = rtm_base w, cfg_app = app, cfg_credential = rtm_credential w\<rparr>))"

definition connect :: "runtime_env \<Rightarrow> runtime \<Rightarrow> runtime" where
  "connect E w =
     (if rtm_busy w then w
      else case config_of E w of
        Err e \<Rightarrow> w\<lparr>rtm_notice := NoticeFailure e\<rparr>
      | Panic \<Rightarrow> w
      | Ok config \<Rightarrow>
          if (case rtm_attempt w of
                Some attempt \<Rightarrow> cfg_base (atm_config attempt) \<noteq> cfg_base config
                  \<or> cfg_app (atm_config attempt) \<noteq> cfg_app config
              | None \<Rightarrow> False)
          then w\<lparr>rtm_notice := NoticeUnknown\<rparr>
          else let w = (invalidate w)\<lparr>rtm_busy := True, rtm_notice := NoticeLoading\<rparr> in
            spawn (LoadApplication config (rtm_generation w)) w)"

definition refresh :: "runtime_env \<Rightarrow> runtime \<Rightarrow> runtime" where
  "refresh E w =
     (if rtm_busy w \<or> rtm_attempt w \<noteq> None then w
      else case config_of E w of
        Ok config \<Rightarrow> spawn (LoadApplication config (rtm_generation w))
          (w\<lparr>rtm_busy := True, rtm_notice := NoticeLoading, rtm_metadata := None, rtm_list := None\<rparr>)
      | _ \<Rightarrow> w)"

text \<open>The typed input of one parameter.\<close>

definition parse_param :: "field_metadata_dto \<Rightarrow> string \<Rightarrow> (unit, value_dto) outcome" where
  "parse_param field input =
     (if input = [] then Ok DtoBlank
      else if input = ''null'' then Ok DtoNull
      else case fmd_field_type field of
        FText \<Rightarrow> Ok (DtoText (case strip_prefix input ''text:'' of Some rest \<Rightarrow> rest | None \<Rightarrow> input))
      | FInteger \<Rightarrow> map_err (\<lambda>_. ()) (and_then (parse_i64 input) (\<lambda>n. Ok (DtoInteger n)))
      | FMoney \<Rightarrow> map_err (\<lambda>_. ()) (and_then (parse_i64 input) (\<lambda>n. Ok (DtoMoney n)))
      | FBool \<Rightarrow> if input = ''true'' then Ok (DtoBool True) else if input = ''false'' then Ok (DtoBool False) else Err ()
      | FRef target \<Rightarrow> map_err (\<lambda>_. ()) (and_then (record_id_new input) (\<lambda>i.
          Ok (DtoRef \<lparr>rfd_table_id = target, rfd_record_id = i\<rparr>))))"

text \<open>The body of the loop over the fields a command takes.\<close>

definition read_param ::
  "(field_id, string) btree_map \<Rightarrow> (field_id, value_dto) btree_map \<times> (field_id, input_issue) btree_map \<Rightarrow>
     field_metadata_dto \<Rightarrow> (field_id, value_dto) btree_map \<times> (field_id, input_issue) btree_map" where
  "read_param typed = (\<lambda>(params, errors) field.
     case bt_get typed (fmd_field_id field) of
       None \<Rightarrow> (params, if fmd_required field then bt_insert (fmd_field_id field) IssueRequired errors else errors)
     | Some input \<Rightarrow>
         (case parse_param field input of
            Ok v \<Rightarrow> if v \<in> {DtoBlank, DtoNull} \<and> fmd_required field
                    then (params, bt_insert (fmd_field_id field) IssueRequired errors)
                    else (bt_insert (fmd_field_id field) v params, errors)
          | _ \<Rightarrow> (params, bt_insert (fmd_field_id field) (IssueType (fmd_field_type field)) errors)))"

definition read_params ::
  "(field_id, string) btree_map \<Rightarrow> field_metadata_dto list \<Rightarrow>
     (field_id, value_dto) btree_map \<times> (field_id, input_issue) btree_map" where
  "read_params typed input_fields = foldl (read_param typed) (bt_empty, bt_empty) input_fields"

text \<open>\<open>submit\<close>; the key is what \<open>runtimeRequestKey\<close> returns, if it returns.\<close>

definition submit :: "runtime_env \<Rightarrow> string option \<Rightarrow> runtime \<Rightarrow> runtime" where
  "submit E key w =
     (if rtm_busy w \<or> rtm_attempt w \<noteq> None then w
      else case (config_of E w, rtm_metadata w, rtm_list w, selected_command w, record_id_new (rtm_record w)) of
        (Ok config, Some metadata, Some rows, Some command, Ok i) \<Rightarrow>
          if \<not> list_ex (\<lambda>r. rcd_record_id r = i) (lrd_records rows) then w
          else let (params, errors) = read_params (rtm_params w) (cmd'_input_fields command);
                   w = w\<lparr>rtm_errors := errors\<rparr> in
            if entries errors \<noteq> [] then w\<lparr>rtm_notice := NoticeFailure (FailApi CodeValidation)\<rparr>
            else (case key of
                None \<Rightarrow> w\<lparr>rtm_notice := NoticeFailure FailConfiguration\<rparr>
              | Some key \<Rightarrow>
                  let request = \<lparr>crd_api_version = API_VERSION, crd_command_id = cmd'_command_id command,
                        crd_record_id = i, crd_params = params, crd_request_key = key,
                        crd_expected_revision = lrd_revision rows, crd_release_id = mrd_release_id metadata\<rparr> in
                  (case encode_command_request (ren_request E) request of
                     Ok body \<Rightarrow>
                       if utf8_valid body
                       then let attempt = \<lparr>atm_config = config\<lparr>cfg_credential := []\<rparr>, atm_request = request,
                              atm_body = body, atm_uncertain = False\<rparr> in
                         dispatch attempt (rtm_credential w) False (w\<lparr>rtm_receipt := None, rtm_attempt := Some attempt\<rparr>)
                       else w\<lparr>rtm_notice := NoticeFailure FailProtocol\<rparr>
                   | Err _ \<Rightarrow> w\<lparr>rtm_notice := NoticeFailure FailProtocol\<rparr>
                   | Panic \<Rightarrow> w))
      | _ \<Rightarrow> w)"

definition forget_inputs :: "runtime \<Rightarrow> runtime" where
  "forget_inputs w = w\<lparr>rtm_params := bt_empty, rtm_errors := bt_empty, rtm_table := [], rtm_command := [],
     rtm_record := []\<rparr>"

definition choose_table :: "runtime_env \<Rightarrow> string \<Rightarrow> runtime \<Rightarrow> runtime" where
  "choose_table E name w =
     (let w = w\<lparr>rtm_table := name, rtm_list := None, rtm_record := [], rtm_command := [], rtm_params := bt_empty,
               rtm_errors := bt_empty\<rparr> in
      case (config_of E w, table_id_new name) of
        (Ok config, Ok table) \<Rightarrow> spawn (LoadTable config table (rtm_generation w))
          (w\<lparr>rtm_busy := True, rtm_notice := NoticeLoading\<rparr>)
      | _ \<Rightarrow> w)"

definition redispatch :: "bool \<Rightarrow> runtime \<Rightarrow> runtime" where
  "redispatch recover w =
     (case rtm_attempt w of None \<Rightarrow> w | Some attempt \<Rightarrow> dispatch attempt (rtm_credential w) recover w)"

section \<open>Steps\<close>

datatype runtime_event =
    TypeServer string
  | TypeApp string
  | TypeCredential string
  | Connect
  | Disconnect
  | RecoverReceipt
  | RetryRequest
  | Refresh
  | ChooseTable string
  | SelectRecord string
  | ChooseCommand string
  | TypeParam field_id string
  | SubmitCommand "string option"

definition locked :: "runtime \<Rightarrow> bool" where
  "locked w \<longleftrightarrow> rtm_busy w \<or> rtm_attempt w \<noteq> None"

text \<open>The controls that are on the screen and not disabled.\<close>

fun offered :: "runtime \<Rightarrow> runtime_event \<Rightarrow> bool" where
  "offered w (TypeServer _) = (rtm_attempt w = None)"
| "offered w (TypeApp _) = (rtm_attempt w = None)"
| "offered w (TypeCredential _) = True"
| "offered w Connect = (\<not> rtm_busy w)"
| "offered w Disconnect = True"
| "offered w RecoverReceipt = (rtm_attempt w \<noteq> None \<and> \<not> rtm_busy w)"
| "offered w RetryRequest = (rtm_attempt w \<noteq> None \<and> \<not> rtm_busy w)"
| "offered w _ = (rtm_metadata w \<noteq> None \<and> \<not> locked w)"

fun handle_event :: "runtime_env \<Rightarrow> runtime_event \<Rightarrow> runtime \<Rightarrow> runtime" where
  "handle_event E (TypeServer text) w = invalidate (forget_inputs (w\<lparr>rtm_base := text\<rparr>))"
| "handle_event E (TypeApp text) w = invalidate (forget_inputs (w\<lparr>rtm_app := text\<rparr>))"
| "handle_event E (TypeCredential text) w = invalidate (w\<lparr>rtm_credential := text\<rparr>)"
| "handle_event E Connect w = connect E w"
| "handle_event E Disconnect w = invalidate (w\<lparr>rtm_credential := []\<rparr>)"
| "handle_event E RecoverReceipt w = redispatch True w"
| "handle_event E RetryRequest w = redispatch False w"
| "handle_event E Refresh w = refresh E w"
| "handle_event E (ChooseTable name) w = choose_table E name w"
| "handle_event E (SelectRecord i) w = select_record i w"
| "handle_event E (ChooseCommand i) w = w\<lparr>rtm_command := i, rtm_params := bt_empty, rtm_errors := bt_empty\<rparr>"
| "handle_event E (TypeParam field text) w = w\<lparr>rtm_params := bt_insert field text (rtm_params w)\<rparr>"
| "handle_event E (SubmitCommand key) w = submit E key w"

definition answer :: "runtime_env \<Rightarrow> nat \<Rightarrow> http_outcome \<Rightarrow> runtime \<Rightarrow> runtime" where
  "answer E i result w = answer_task E (rtm_tasks w ! i) result (drop_task i w)"

text \<open>The states a window reaches in \<open>n\<close> steps: an event, or the answer to any request in flight.\<close>

inductive runtime_reaches :: "runtime_env \<Rightarrow> nat \<Rightarrow> runtime \<Rightarrow> bool" for E where
  Start: "runtime_reaches E 0 runtime_start"
| Act: "runtime_reaches E n w \<Longrightarrow> offered w event \<Longrightarrow> runtime_reaches E (Suc n) (handle_event E event w)"
| Answered: "runtime_reaches E n w \<Longrightarrow> i < length (rtm_tasks w) \<Longrightarrow>
     runtime_reaches E (Suc n) (answer E i result w)"

section \<open>Texts\<close>

definition display_value :: "language \<Rightarrow> value_dto option \<Rightarrow> string" where
  "display_value L v =
     (case v of
        None \<Rightarrow> tr L ''Unavailable''
      | Some DtoBlank \<Rightarrow> tr L ''Blank''
      | Some DtoNull \<Rightarrow> ''null''
      | Some (DtoText s) \<Rightarrow> s
      | Some (DtoInteger n) \<Rightarrow> show_i64 n
      | Some (DtoMoney n) \<Rightarrow> show_i64 n
      | Some (DtoBool b) \<Rightarrow> tr L (if b then ''True'' else ''False'')
      | Some (DtoRef r) \<Rightarrow> as_str (rfd_record_id r))"

definition ellipsis :: string where "ellipsis = [CHR 0xE2, CHR 0x80, CHR 0xA6]"

definition notice_text :: "language \<Rightarrow> runtime_notice \<Rightarrow> string" where
  "notice_text L notice = tr L
     (case notice of
        NoticeReady \<Rightarrow> ''Connect to open a released application.''
      | NoticeLoading \<Rightarrow> ''Loading application'' @ ellipsis
      | NoticeLive \<Rightarrow> ''Server data loaded.''
      | NoticeSending \<Rightarrow> ''Waiting for the server result'' @ ellipsis
      | NoticeUnknown \<Rightarrow> ''The operation outcome is unknown. Recover the receipt or retry the same request; your input is preserved.''
      | NoticeNoReceipt \<Rightarrow> ''No receipt is available for this request. You can retry the retained request.''
      | NoticeFailure FailConfiguration \<Rightarrow> ''Check the server address, application and credential.''
      | NoticeFailure FailTransport \<Rightarrow> ''The server could not be reached. Your input is preserved.''
      | NoticeFailure FailProtocol \<Rightarrow> ''The server returned unsupported data. Your input is preserved.''
      | NoticeFailure (FailApi code) \<Rightarrow>
          (case code of
             CodeDenied \<Rightarrow> ''Denied: the current session or permission does not allow this operation. Your input is preserved.''
           | CodeConflict \<Rightarrow> ''The data changed. Refresh and review it before submitting a new request.''
           | CodeValidation \<Rightarrow> ''The input does not satisfy the application'' @ [CHR 0x27] @ ''s rules. Correct it and retry.''
           | CodeUnsupported \<Rightarrow> ''This operation is not supported by the server.''
           | CodeNotFound \<Rightarrow> ''The permitted content was not found.''
           | CodeInternal \<Rightarrow> ''The server could not complete the operation. Your input is preserved.''))"

definition ascii_upper :: "char \<Rightarrow> char" where
  "ascii_upper c = (if is_ascii_lowercase c then char_of (of_char c - 32 :: nat) else c)"

definition command_label :: "command_metadata_dto \<Rightarrow> string" where
  "command_label command =
     (if cmd'_name command \<noteq> cmd'_command_id command then cmd'_name command
      else let label = map (\<lambda>c. if c = CHR ''_'' then CHR '' '' else c)
             (case strip_prefix (cmd'_command_id command) ''cmd_'' of
                Some rest \<Rightarrow> rest | None \<Rightarrow> cmd'_command_id command) in
        case label of [] \<Rightarrow> [] | c # rest \<Rightarrow> if char_boundary label 1 then ascii_upper c # rest else label)"

section \<open>Generations\<close>

text \<open>The tasks whose answers still count.\<close>

definition current_tasks :: "runtime \<Rightarrow> runtime_task list" where
  "current_tasks w = filter (\<lambda>t. task_generation t = rtm_generation w) (rtm_tasks w)"

text \<open>Tasks never come from a later generation; \<open>n\<close> bounds the generation, so that it has not wrapped.\<close>

definition generations_ok :: "nat \<Rightarrow> runtime \<Rightarrow> bool" where
  "generations_ok n w \<longleftrightarrow> unat (rtm_generation w) \<le> n
     \<and> (\<forall>t\<in>set (rtm_tasks w). task_generation t \<le> rtm_generation w)"

fun task_fits :: "runtime \<Rightarrow> runtime_task \<Rightarrow> bool" where
  "task_fits w (LoadTable config table _) = (rtm_table w = as_str table)"
| "task_fits w (LoadApplication _ _) = True"
| "task_fits w (SendCommand attempt _ _ _) = (rtm_attempt w = Some attempt)"

text \<open>At most one answer counts, and then the window is busy with it.\<close>

definition waiting_ok :: "runtime \<Rightarrow> bool" where
  "waiting_ok w \<longleftrightarrow> current_tasks w = [] \<or> (rtm_busy w \<and> (\<exists>t. current_tasks w = [t] \<and> task_fits w t))"

lemma generations_ok_Suc: "generations_ok n w \<Longrightarrow> generations_ok (Suc n) w"
  by (auto simp: generations_ok_def)

lemma idle_current: "waiting_ok w \<Longrightarrow> \<not> rtm_busy w \<Longrightarrow> current_tasks w = []"
  by (simp add: waiting_ok_def)

lemma spawn_current:
  "current_tasks (spawn t w) = current_tasks w @ (if task_generation t = rtm_generation w then [t] else [])"
  by (simp add: current_tasks_def spawn_def)

lemma spawn_sel [simp]:
  "rtm_busy (spawn t w) = rtm_busy w" "rtm_generation (spawn t w) = rtm_generation w"
  "rtm_tasks (spawn t w) = rtm_tasks w @ [t]" "rtm_attempt (spawn t w) = rtm_attempt w"
  "rtm_history (spawn t w) = rtm_history w @ [Sent (task_request t)]" "rtm_table (spawn t w) = rtm_table w"
  "rtm_metadata (spawn t w) = rtm_metadata w" "rtm_list (spawn t w) = rtm_list w" "rtm_receipt (spawn t w) = rtm_receipt w"
  "rtm_notice (spawn t w) = rtm_notice w" "rtm_credential (spawn t w) = rtm_credential w"
  "rtm_base (spawn t w) = rtm_base w"
  by (simp_all add: spawn_def)

lemma spawn_waiting:
  assumes "current_tasks w = []" and "rtm_busy w" and "task_generation t = rtm_generation w" and "task_fits w t"
  shows "waiting_ok (spawn t w)"
proof -
  have "task_fits (spawn t w) t" using assms(4) by (cases t) simp_all
  with assms show ?thesis by (simp add: waiting_ok_def spawn_current)
qed

lemma invalidate_sel [simp]:
  "rtm_busy (invalidate w) = False" "rtm_generation (invalidate w) = rtm_generation w + 1"
  "rtm_tasks (invalidate w) = rtm_tasks w" "rtm_history (invalidate w) = rtm_history w"
  "rtm_attempt (invalidate w) = map_option (\<lambda>a. a\<lparr>atm_uncertain := True\<rparr>) (rtm_attempt w)"
  "rtm_metadata (invalidate w) = None" "rtm_list (invalidate w) = None" "rtm_receipt (invalidate w) = None"
  "rtm_credential (invalidate w) = rtm_credential w" "rtm_base (invalidate w) = rtm_base w"
  by (simp_all add: invalidate_def Let_def split: option.split)

lemma next_generation: "unat (g :: u64) \<le> n \<Longrightarrow> Suc n < 2 ^ 64 \<Longrightarrow> unat (g + 1) = Suc (unat g)"
  by (simp add: unat_plus_if_size word_size)

lemma invalidate_generations:
  assumes "generations_ok n w" and "Suc n < 2 ^ 64"
  shows "generations_ok (Suc n) (invalidate w)" and "current_tasks (invalidate w) = []"
proof -
  from assms have g: "unat (rtm_generation w) \<le> n"
    and ts: "t \<in> set (rtm_tasks w) \<Longrightarrow> unat (task_generation t) \<le> unat (rtm_generation w)" for t
    by (auto simp: generations_ok_def word_le_nat_alt)
  note new = next_generation [OF g assms(2)]
  have older: "unat (task_generation t) < unat (rtm_generation w + 1)" if "t \<in> set (rtm_tasks w)" for t
    using ts [OF that] new by simp
  show "generations_ok (Suc n) (invalidate w)"
    using older new g by (auto simp: generations_ok_def word_le_nat_alt intro: less_imp_le)
  show "current_tasks (invalidate w) = []"
    using older by (fastforce simp: current_tasks_def filter_empty_conv)
qed

section \<open>Intents\<close>

definition attempt_intent :: "attempt \<Rightarrow> http_request" where
  "attempt_intent a = task_request (SendCommand a [] False 0)"

text \<open>
  The discipline of a history, with the intent that is open: a command is sent only when none is open or
  the open one is sent again, and the client lets go of no other than the open one. A request with the
  method GET changes nothing.
\<close>

fun open_intent :: "http_request option \<Rightarrow> history_entry list \<Rightarrow> http_request option option" where
  "open_intent p [] = Some p"
| "open_intent p (Sent r # h) =
     (if hrq_method r \<noteq> ''POST'' then open_intent p h
      else if p = None \<or> p = Some (r\<lparr>hrq_credential := []\<rparr>) then open_intent (Some (r\<lparr>hrq_credential := []\<rparr>)) h
      else None)"
| "open_intent p (Settled a # h) = (if p = Some (attempt_intent a) then open_intent None h else None)"

lemma open_intent_append:
  "open_intent p (h @ h') = Option.bind (open_intent p h) (\<lambda>p. open_intent p h')"
  by (induction p h rule: open_intent.induct) simp_all

definition attempt_ok :: "runtime_env \<Rightarrow> attempt \<Rightarrow> bool" where
  "attempt_ok E a \<longleftrightarrow> cfg_credential (atm_config a) = []
     \<and> encode_command_request (ren_request E) (atm_request a) = Ok (atm_body a)
     \<and> runtime_validate_base (ren_url E) (cfg_base (atm_config a))"

definition intents_ok :: "runtime_env \<Rightarrow> runtime \<Rightarrow> bool" where
  "intents_ok E w \<longleftrightarrow> (\<forall>a. rtm_attempt w = Some a \<longrightarrow> attempt_ok E a)
     \<and> open_intent None (rtm_history w) = Some (map_option attempt_intent (rtm_attempt w))"

lemma intent_sel [simp]:
  "attempt_intent (a\<lparr>atm_uncertain := u\<rparr>) = attempt_intent a" "attempt_ok E (a\<lparr>atm_uncertain := u\<rparr>) = attempt_ok E a"
  "hrq_method (attempt_intent a) = ''POST''"
  by (simp_all add: attempt_intent_def attempt_ok_def)

lemma intent_of_send:
  "hrq_method (task_request (SendCommand a credential recover g)) = ''POST'' \<longleftrightarrow> \<not> recover"
  "(task_request (SendCommand a credential False g))\<lparr>hrq_credential := []\<rparr> = attempt_intent a"
  by (simp_all add: attempt_intent_def)

lemma invalidate_intents: "intents_ok E w \<Longrightarrow> intents_ok E (invalidate w)"
  by (auto simp: intents_ok_def option.map_comp comp_def)

lemma spawn_get_intents: "hrq_method (task_request t) = ''GET'' \<Longrightarrow> intents_ok E w \<Longrightarrow> intents_ok E (spawn t w)"
  by (simp add: intents_ok_def open_intent_append)

lemma spawn_send_intents:
  assumes "rtm_attempt w = Some a" and "attempt_ok E a"
    and "open_intent None (rtm_history w) \<in> {Some None, Some (Some (attempt_intent a))}"
  shows "intents_ok E (spawn (SendCommand a credential False g) w)"
  using assms by (auto simp: intents_ok_def open_intent_append intent_of_send simp del: task_request.simps)

lemma settle_intents: "rtm_attempt w = Some a \<Longrightarrow> intents_ok E w \<Longrightarrow> intents_ok E (settle a w)"
  by (simp add: intents_ok_def settle_def open_intent_append)

section \<open>The invariant of a window\<close>

definition origins_ok :: "runtime_env \<Rightarrow> runtime \<Rightarrow> bool" where
  "origins_ok E w \<longleftrightarrow> (\<forall>r. Sent r \<in> set (rtm_history w) \<longrightarrow> runtime_validate_base (ren_url E) (hrq_base r))
     \<and> (\<forall>t\<in>set (rtm_tasks w). runtime_validate_base (ren_url E) (hrq_base (task_request t)))"

definition metadata_valid :: "runtime \<Rightarrow> bool" where
  "metadata_valid w \<longleftrightarrow> (\<forall>m. rtm_metadata w = Some m \<longrightarrow> validate_metadata m = Ok ())"

text \<open>All of it but what concerns the tasks that still count.\<close>

definition core_ok :: "runtime_env \<Rightarrow> nat \<Rightarrow> runtime \<Rightarrow> bool" where
  "core_ok E n w \<longleftrightarrow> generations_ok n w \<and> intents_ok E w \<and> origins_ok E w \<and> metadata_valid w"

definition client_ok :: "runtime_env \<Rightarrow> nat \<Rightarrow> runtime \<Rightarrow> bool" where
  "client_ok E n w \<longleftrightarrow> core_ok E n w \<and> waiting_ok w"

lemma core_ok_Suc: "core_ok E n w \<Longrightarrow> core_ok E (Suc n) w"
  by (simp add: core_ok_def generations_ok_Suc)

text \<open>A change that touches neither the exchange with the server nor, unless to clear it, the metadata.\<close>

definition same_exchange :: "runtime \<Rightarrow> runtime \<Rightarrow> bool" where
  "same_exchange w w' \<longleftrightarrow> rtm_generation w' = rtm_generation w \<and> rtm_tasks w' = rtm_tasks w
     \<and> rtm_attempt w' = rtm_attempt w \<and> rtm_history w' = rtm_history w
     \<and> (rtm_metadata w' = rtm_metadata w \<or> rtm_metadata w' = None)"

lemma same_exchange_refl [simp]: "same_exchange w w"
  by (simp add: same_exchange_def)

lemma same_exchange_core: "same_exchange w w' \<Longrightarrow> core_ok E n w \<Longrightarrow> core_ok E n w'"
  by (auto simp: same_exchange_def core_ok_def generations_ok_def intents_ok_def origins_ok_def metadata_valid_def)

lemma same_exchange_current: "same_exchange w w' \<Longrightarrow> current_tasks w' = current_tasks w"
  by (simp add: same_exchange_def current_tasks_def)

lemma same_exchange_idle:
  "same_exchange w w' \<Longrightarrow> current_tasks w = [] \<Longrightarrow> core_ok E n w \<Longrightarrow> client_ok E n w'"
  by (simp add: client_ok_def waiting_ok_def same_exchange_core same_exchange_current)

lemma select_record_exchange: "same_exchange w (select_record i w)"
  by (simp add: same_exchange_def select_record_def)

lemma show_failure_exchange: "same_exchange w (show_failure e w)"
  by (simp add: same_exchange_def show_failure_def Let_def)

lemma spawn_core:
  assumes "core_ok E n w" and "task_generation t = rtm_generation w" and "intents_ok E (spawn t w)"
    and "runtime_validate_base (ren_url E) (hrq_base (task_request t))"
  shows "core_ok E n (spawn t w)"
  using assms by (auto simp: core_ok_def generations_ok_def origins_ok_def metadata_valid_def)

lemma load_spawn_ok:
  assumes "core_ok E n w" and "current_tasks w = []" and "rtm_busy w" and "task_generation t = rtm_generation w"
    and "task_fits w t" and "hrq_method (task_request t) = ''GET''"
    and "runtime_validate_base (ren_url E) (hrq_base (task_request t))"
  shows "client_ok E n (spawn t w)"
  unfolding client_ok_def
proof
  show "core_ok E n (spawn t w)"
    using assms by (intro spawn_core) (auto simp: core_ok_def intro: spawn_get_intents)
  show "waiting_ok (spawn t w)" using assms by (intro spawn_waiting)
qed

lemma dispatch_ok:
  assumes "core_ok E n (w\<lparr>rtm_attempt := old\<rparr>)" and "current_tasks w = []" and "\<not> rtm_busy w"
    and "rtm_attempt w = Some a" and "attempt_ok E a" and "old = Some a \<or> (old = None \<and> \<not> recover)"
  shows "client_ok E n (dispatch a credential recover w)"
proof -
  let ?t = "SendCommand a credential recover (rtm_generation w)"
  let ?w = "w\<lparr>rtm_busy := True, rtm_notice := NoticeSending\<rparr>"
  have rest: "generations_ok n ?w" "origins_ok E ?w" "metadata_valid ?w"
    and history: "open_intent None (rtm_history w) = Some (map_option attempt_intent old)"
    and base: "runtime_validate_base (ren_url E) (cfg_base (atm_config a))"
    using assms(1,5)
    by (simp_all add: core_ok_def generations_ok_def origins_ok_def metadata_valid_def intents_ok_def attempt_ok_def)
  have "intents_ok E (spawn ?t ?w)"
  proof (cases recover)
    case True
    with assms(4-6) history show ?thesis by (intro spawn_get_intents) (auto simp: intents_ok_def)
  next
    case False
    with spawn_send_intents [of ?w a E] assms(4-6) history show ?thesis by auto
  qed
  moreover have "waiting_ok (spawn ?t ?w)"
    by (rule spawn_waiting) (use assms(2,4) in \<open>simp_all add: current_tasks_def\<close>)
  ultimately have "client_ok E n (spawn ?t ?w)"
    using rest base by (auto simp: client_ok_def core_ok_def generations_ok_def origins_ok_def metadata_valid_def)
  with assms(3) show ?thesis by (simp add: dispatch_def)
qed

section \<open>Events\<close>

lemma config_of_Ok:
  "config_of E w = Ok config \<Longrightarrow> cfg_base config = rtm_base w \<and> cfg_credential config = rtm_credential w
     \<and> runtime_validate_base (ren_url E) (rtm_base w)"
  by (auto simp: config_of_def outcome_simps split: if_splits)

lemma invalidate_ok:
  assumes "core_ok E n w" and "Suc n < 2 ^ 64"
  shows "client_ok E (Suc n) (invalidate w)"
  using assms invalidate_generations [OF _ assms(2)] invalidate_intents
  by (auto simp: client_ok_def core_ok_def waiting_ok_def origins_ok_def metadata_valid_def)

lemma connect_ok:
  assumes "client_ok E n w" and "Suc n < 2 ^ 64"
  shows "client_ok E (Suc n) (connect E w)"
proof (cases "rtm_busy w")
  case True
  with assms(1) show ?thesis by (simp add: connect_def client_ok_def core_ok_Suc)
next
  case False
  with assms(1) have idle: "current_tasks w = []" and core: "core_ok E n w"
    by (simp_all add: client_ok_def idle_current)
  have quiet: "client_ok E (Suc n) (w\<lparr>rtm_notice := notice\<rparr>)" for notice
    by (rule same_exchange_idle [OF _ idle core_ok_Suc [OF core]]) (simp add: same_exchange_def)
  have start: "client_ok E (Suc n) (spawn (LoadApplication config (rtm_generation v)) v)"
    if "config_of E w = Ok config" and v: "v = (invalidate w)\<lparr>rtm_busy := True, rtm_notice := NoticeLoading\<rparr>" for config v
  proof (rule load_spawn_ok)
    from invalidate_ok [OF core assms(2)] show "core_ok E (Suc n) v"
      unfolding client_ok_def v by (auto intro: same_exchange_core [rotated] simp: same_exchange_def)
    from invalidate_generations(2) [of n w] core assms(2) show "current_tasks v = []"
      by (simp add: v core_ok_def current_tasks_def)
  qed (use config_of_Ok [OF that(1)] v in simp_all)
  from False quiet start show ?thesis
    using core_ok_Suc [OF core] assms(1)
    by (simp add: connect_def Let_def split: outcome.split option.split) (auto simp: client_ok_def)
qed

lemma refresh_ok:
  assumes "client_ok E n w"
  shows "client_ok E (Suc n) (refresh E w)"
proof -
  have same: "client_ok E (Suc n) w" using assms by (simp add: client_ok_def core_ok_Suc)
  have "client_ok E (Suc n) (spawn (LoadApplication config (rtm_generation w))
      (w\<lparr>rtm_busy := True, rtm_notice := NoticeLoading, rtm_metadata := None, rtm_list := None\<rparr>))"
    if "\<not> rtm_busy w" "config_of E w = Ok config" for config
  proof (rule load_spawn_ok)
    let ?v = "w\<lparr>rtm_busy := True, rtm_notice := NoticeLoading, rtm_metadata := None, rtm_list := None\<rparr>"
    have ex: "same_exchange w ?v" by (simp add: same_exchange_def)
    from same_exchange_core [OF ex] same show "core_ok E (Suc n) ?v" by (simp add: client_ok_def)
    from same_exchange_current [OF ex] idle_current [of w] assms that(1) show "current_tasks ?v = []"
      by (simp add: client_ok_def)
  qed (use config_of_Ok [OF that(2)] in simp_all)
  with same show ?thesis by (simp add: refresh_def split: outcome.split)
qed

lemma choose_table_ok:
  assumes "client_ok E n w" and "\<not> rtm_busy w"
  shows "client_ok E (Suc n) (choose_table E name w)"
proof -
  let ?v = "w\<lparr>rtm_table := name, rtm_list := None, rtm_record := [], rtm_command := [], rtm_params := bt_empty,
      rtm_errors := bt_empty\<rparr>"
  have core: "core_ok E (Suc n) w" and idle: "current_tasks w = []"
    using assms by (simp_all add: client_ok_def core_ok_Suc idle_current)
  have v: "same_exchange w ?v" by (simp add: same_exchange_def)
  have "client_ok E (Suc n) (spawn (LoadTable config table (rtm_generation w)) (?v\<lparr>rtm_busy := True, rtm_notice := NoticeLoading\<rparr>))"
    if "config_of E ?v = Ok config" "table_id_new name = Ok table" for config table
  proof (rule load_spawn_ok)
    have ex: "same_exchange w (?v\<lparr>rtm_busy := True, rtm_notice := NoticeLoading\<rparr>)" by (simp add: same_exchange_def)
    show "core_ok E (Suc n) (?v\<lparr>rtm_busy := True, rtm_notice := NoticeLoading\<rparr>)" by (rule same_exchange_core [OF ex core])
    show "current_tasks (?v\<lparr>rtm_busy := True, rtm_notice := NoticeLoading\<rparr>) = []"
      using same_exchange_current [OF ex] idle by simp
    from that(2) have "as_str table = name" by (auto simp: table_id_new_def ident_new_Ok_iff)
    then show "task_fits (?v\<lparr>rtm_busy := True, rtm_notice := NoticeLoading\<rparr>) (LoadTable config table (rtm_generation w))"
      by simp
  qed (use config_of_Ok [OF that(1)] in simp_all)
  with same_exchange_idle [OF v idle core] show ?thesis
    by (auto simp: choose_table_def Let_def split: outcome.split)
qed

text \<open>What \<open>submit\<close> does when it sends: the attempt it builds and keeps.\<close>

definition builds :: "runtime_env \<Rightarrow> runtime \<Rightarrow> string \<Rightarrow> attempt \<Rightarrow> bool" where
  "builds E w key a \<longleftrightarrow> (\<exists>config metadata rows command i params.
     config_of E w = Ok config \<and> rtm_metadata w = Some metadata \<and> rtm_list w = Some rows
     \<and> selected_command w = Some command \<and> record_id_new (rtm_record w) = Ok i
     \<and> i \<in> rcd_record_id ` set (lrd_records rows)
     \<and> read_params (rtm_params w) (cmd'_input_fields command) = (params, bt_empty)
     \<and> atm_config a = config\<lparr>cfg_credential := []\<rparr> \<and> \<not> atm_uncertain a
     \<and> atm_request a = \<lparr>crd_api_version = API_VERSION, crd_command_id = cmd'_command_id command,
          crd_record_id = i, crd_params = params, crd_request_key = key,
          crd_expected_revision = lrd_revision rows, crd_release_id = mrd_release_id metadata\<rparr>
     \<and> encode_command_request (ren_request E) (atm_request a) = Ok (atm_body a))"

lemma entries_Nil_iff: "entries m = [] \<longleftrightarrow> m = bt_empty"
  by (metis entries_empty entries_inject)

lemma submit_cases:
  obtains "same_exchange w (submit E key w)" and "rtm_receipt (submit E key w) = rtm_receipt w"
  | k a where "\<not> rtm_busy w" "rtm_attempt w = None" "key = Some k" "builds E w k a"
      "submit E key w = dispatch a (rtm_credential w) False
         (w\<lparr>rtm_errors := bt_empty, rtm_receipt := None, rtm_attempt := Some a\<rparr>)"
proof (cases "rtm_busy w \<or> rtm_attempt w \<noteq> None")
  case True
  then show ?thesis by (intro that(1)) (simp_all add: submit_def)
next
  case False
  note idle = this
  show ?thesis
  proof (cases "\<exists>config metadata rows command i. config_of E w = Ok config \<and> rtm_metadata w = Some metadata
      \<and> rtm_list w = Some rows \<and> selected_command w = Some command \<and> record_id_new (rtm_record w) = Ok i
      \<and> i \<in> rcd_record_id ` set (lrd_records rows)")
    case False
    then have "submit E key w = w"
      by (auto simp: submit_def list_ex_iff image_iff split: outcome.split option.split)
    then show ?thesis by (intro that(1)) simp_all
  next
    case True
    then obtain config metadata rows command i where
      known: "config_of E w = Ok config" "rtm_metadata w = Some metadata" "rtm_list w = Some rows"
        "selected_command w = Some command" "record_id_new (rtm_record w) = Ok i"
        "i \<in> rcd_record_id ` set (lrd_records rows)" by blast
    then have listed: "list_ex (\<lambda>r. rcd_record_id r = i) (lrd_records rows)" by (auto simp: list_ex_iff)
    obtain params errors where read: "read_params (rtm_params w) (cmd'_input_fields command) = (params, errors)"
      by (cases "read_params (rtm_params w) (cmd'_input_fields command)")
    define request where "request k = \<lparr>crd_api_version = API_VERSION, crd_command_id = cmd'_command_id command,
       crd_record_id = i, crd_params = params, crd_request_key = k,
       crd_expected_revision = lrd_revision rows, crd_release_id = mrd_release_id metadata\<rparr>" for k
    note facts = idle known(1-5) listed read
    show ?thesis
    proof (cases "\<exists>k body. errors = bt_empty \<and> key = Some k
        \<and> encode_command_request (ren_request E) (request k) = Ok body \<and> utf8_valid body")
      case True
      then obtain k body where sent: "errors = bt_empty" "key = Some k"
        "encode_command_request (ren_request E) (request k) = Ok body" "utf8_valid body" by blast
      define a where "a = \<lparr>atm_config = config\<lparr>cfg_credential := []\<rparr>, atm_request = request k, atm_body = body,
        atm_uncertain = False\<rparr>"
      have "builds E w k a"
        unfolding builds_def using known read sent(1,3) by (auto simp: a_def request_def)
      moreover have "submit E key w = dispatch a (rtm_credential w) False
          (w\<lparr>rtm_errors := bt_empty, rtm_receipt := None, rtm_attempt := Some a\<rparr>)"
        using facts sent by (simp add: submit_def Let_def a_def request_def)
      ultimately show ?thesis using that(2) idle sent(2) by blast
    next
      case False
      then have "same_exchange w (submit E key w) \<and> rtm_receipt (submit E key w) = rtm_receipt w"
        using facts
        by (auto simp: submit_def Let_def request_def same_exchange_def entries_Nil_iff split: option.split outcome.split)
      then show ?thesis using that(1) by blast
    qed
  qed
qed

lemma builds_attempt_ok: "builds E w key a \<Longrightarrow> attempt_ok E a"
  by (auto simp: builds_def attempt_ok_def dest!: config_of_Ok)

lemma submit_ok:
  assumes "client_ok E n w"
  shows "client_ok E (Suc n) (submit E key w)"
proof (cases rule: submit_cases [of w E key])
  case 1
  show ?thesis
  proof (cases "rtm_busy w")
    case True
    with assms show ?thesis by (simp add: submit_def client_ok_def core_ok_Suc)
  next
    case False
    with assms same_exchange_idle [OF 1(1), where E = E and n = "Suc n"] show ?thesis by (simp add: client_ok_def core_ok_Suc idle_current)
  qed
next
  case (2 k a)
  let ?w = "w\<lparr>rtm_errors := bt_empty, rtm_receipt := None, rtm_attempt := Some a\<rparr>"
  have "same_exchange w (?w\<lparr>rtm_attempt := None\<rparr>)" using 2(2) by (simp add: same_exchange_def)
  from same_exchange_core [OF this] assms have "core_ok E (Suc n) (?w\<lparr>rtm_attempt := None\<rparr>)"
    by (simp add: client_ok_def core_ok_Suc)
  then have "client_ok E (Suc n) (dispatch a (rtm_credential w) False ?w)"
    by (rule dispatch_ok)
      (use assms 2 builds_attempt_ok idle_current [of w] in \<open>auto simp: client_ok_def current_tasks_def\<close>)
  with 2(5) show ?thesis by simp
qed

lemma redispatch_ok:
  assumes "client_ok E n w" and "\<not> rtm_busy w"
  shows "client_ok E (Suc n) (redispatch recover w)"
proof (cases "rtm_attempt w")
  case None
  with assms(1) show ?thesis by (simp add: redispatch_def client_ok_def core_ok_Suc)
next
  case (Some a)
  have "client_ok E (Suc n) (dispatch a (rtm_credential w) recover w)"
  proof (rule dispatch_ok [where old = "Some a"])
    have "w\<lparr>rtm_attempt := Some a\<rparr> = w" using Some by simp
    with assms(1) show "core_ok E (Suc n) (w\<lparr>rtm_attempt := Some a\<rparr>)" by (simp add: client_ok_def core_ok_Suc)
    show "attempt_ok E a" using assms(1) Some by (simp add: client_ok_def core_ok_def intents_ok_def)
  qed (use assms Some in \<open>simp_all add: client_ok_def idle_current\<close>)
  with Some show ?thesis by (simp add: redispatch_def)
qed

lemma forget_core:
  "core_ok E n w \<Longrightarrow> core_ok E n (forget_inputs w)" "core_ok E n w \<Longrightarrow> core_ok E n (w\<lparr>rtm_base := s\<rparr>)"
  "core_ok E n w \<Longrightarrow> core_ok E n (w\<lparr>rtm_app := s\<rparr>)" "core_ok E n w \<Longrightarrow> core_ok E n (w\<lparr>rtm_credential := s\<rparr>)"
  by (rule same_exchange_core [rotated], assumption, simp add: same_exchange_def forget_inputs_def)+

lemma event_ok:
  assumes "client_ok E n w" and "offered w event" and "Suc n < 2 ^ 64"
  shows "client_ok E (Suc n) (handle_event E event w)"
proof -
  have core: "core_ok E n w" using assms(1) by (simp add: client_ok_def)
  have input: "client_ok E (Suc n) w'" if "same_exchange w w'" "\<not> locked w" for w'
    using same_exchange_idle [OF that(1), where E = E and n = "Suc n"] assms(1) that(2)
    by (simp add: client_ok_def core_ok_Suc idle_current locked_def)
  show ?thesis
  proof (cases event)
    case (ChooseTable name)
    with assms choose_table_ok show ?thesis by (simp add: locked_def)
  next
    case (SelectRecord i)
    with assms input [OF select_record_exchange] show ?thesis by simp
  next
    case (ChooseCommand i)
    with assms input show ?thesis by (simp add: same_exchange_def)
  next
    case (TypeParam field typed)
    with assms input show ?thesis by (simp add: same_exchange_def)
  qed (use assms core in \<open>simp_all add: invalidate_ok forget_core connect_ok refresh_ok submit_ok redispatch_ok\<close>)
qed

section \<open>Answers and the invariant\<close>

lemma stale_answer: "task_generation t \<noteq> rtm_generation w \<Longrightarrow> answer_task E t result w = w"
  by (cases t) (auto simp: load_table_answer_def load_application_answer_def send_answer_def)

lemma drop_task_core: "core_ok E n w \<Longrightarrow> core_ok E n (drop_task i w)"
  by (auto simp: core_ok_def generations_ok_def intents_ok_def origins_ok_def metadata_valid_def drop_task_def
      dest: in_set_takeD in_set_dropD)

lemma drop_task_current:
  assumes "i < length (rtm_tasks w)"
  shows "task_generation (rtm_tasks w ! i) \<noteq> rtm_generation w \<Longrightarrow> current_tasks (drop_task i w) = current_tasks w"
    and "task_generation (rtm_tasks w ! i) = rtm_generation w \<Longrightarrow> current_tasks w = [t] \<Longrightarrow>
      rtm_tasks w ! i = t \<and> current_tasks (drop_task i w) = []"
proof -
  let ?P = "\<lambda>t. task_generation t = rtm_generation w"
  have split: "filter ?P (rtm_tasks w) = filter ?P (take i (rtm_tasks w))
      @ (if ?P (rtm_tasks w ! i) then [rtm_tasks w ! i] else []) @ filter ?P (drop (Suc i) (rtm_tasks w))"
    by (subst id_take_nth_drop [OF assms]) simp
  then show "\<not> ?P (rtm_tasks w ! i) \<Longrightarrow> current_tasks (drop_task i w) = current_tasks w"
    by (simp add: current_tasks_def drop_task_def)
  show "?P (rtm_tasks w ! i) \<Longrightarrow> current_tasks w = [t] \<Longrightarrow> rtm_tasks w ! i = t \<and> current_tasks (drop_task i w) = []"
    using split by (auto simp: current_tasks_def drop_task_def append_eq_Cons_conv)
qed

lemma decoded_metadata_valid: "decode_metadata W raw = Ok m \<Longrightarrow> validate_metadata m = Ok ()"
  by (auto simp: decode_metadata_def wire_decode_def outcome_simps)

lemma load_table_answer_exchange: "same_exchange w (load_table_answer E config table generation result w)"
proof -
  have "same_exchange w ((show_failure e w)\<lparr>rtm_busy := False\<rparr>)" for e
    using show_failure_exchange [of w e] by (simp add: same_exchange_def)
  moreover have "same_exchange w ((select_record i w)\<lparr>rtm_list := l, rtm_notice := notice, rtm_busy := False\<rparr>)" for i l notice
    using select_record_exchange [of w i] by (simp add: same_exchange_def)
  ultimately show ?thesis
    by (simp add: load_table_answer_def Let_def split: outcome.split) (simp add: same_exchange_def)
qed

lemma load_application_answer_ok:
  assumes "core_ok E n w" and "current_tasks w = []" and "rtm_busy w" and "generation = rtm_generation w"
    and base: "runtime_validate_base (ren_url E) (cfg_base config)"
  shows "client_ok E n (load_application_answer E config generation result w)"
proof -
  have idle: "client_ok E n w'" if "same_exchange w w'" for w'
    by (rule same_exchange_idle [OF that assms(2,1)])
  have installed: "core_ok E n (w\<lparr>rtm_metadata := Some m\<rparr>)" if "decode_metadata (ren_metadata E) raw = Ok m" for raw m
    using assms(1) decoded_metadata_valid [OF that]
    by (simp add: core_ok_def generations_ok_def intents_ok_def origins_ok_def metadata_valid_def)
  have loads: "client_ok E n (spawn (LoadTable config table (rtm_generation w)) (w\<lparr>rtm_metadata := Some m, rtm_table := as_str table\<rparr>))"
    if dec: "decode_metadata (ren_metadata E) raw = Ok m" for raw m table
  proof (rule load_spawn_ok)
    from same_exchange_core [OF _ installed [OF dec]]
    show "core_ok E n (w\<lparr>rtm_metadata := Some m, rtm_table := as_str table\<rparr>)" by (simp add: same_exchange_def)
  qed (use assms in \<open>simp_all add: current_tasks_def\<close>)
  have shows_empty: "client_ok E n (w\<lparr>rtm_metadata := Some m, rtm_busy := False, rtm_notice := NoticeLive\<rparr>)"
    if dec: "decode_metadata (ren_metadata E) raw = Ok m" for raw m
    using same_exchange_idle [OF _ _ installed [OF dec]] assms(2) by (simp add: same_exchange_def current_tasks_def)
  have fails: "client_ok E n (show_failure e w)" "client_ok E n (w\<lparr>rtm_notice := notice, rtm_busy := False\<rparr>)" "client_ok E n w"
    for e notice
    by (rule idle, simp add: show_failure_exchange, rule idle, simp add: same_exchange_def, rule idle, simp)
  show ?thesis
    using assms(4) loads shows_empty fails
    by (auto simp: load_application_answer_def outcome_simps split: outcome.split option.split)
qed

lemma send_answer_ok:
  assumes core: "core_ok E n w" and idle: "current_tasks w = []" and busy: "rtm_busy w"
    and att: "rtm_attempt w = Some a" and gen: "generation = rtm_generation w"
  shows "client_ok E n (send_answer E a credential recover generation result w)"
proof -
  have quiet: "client_ok E n w'" if "same_exchange w w'" for w'
    by (rule same_exchange_idle [OF that idle core])
  from core att have a: "attempt_ok E a" and intents: "intents_ok E w" by (auto simp: core_ok_def intents_ok_def)
  have kept: "client_ok E n (keep_unknown a w)"
    using core idle att a
    by (auto simp: client_ok_def waiting_ok_def core_ok_def generations_ok_def origins_ok_def metadata_valid_def
        intents_ok_def keep_unknown_def current_tasks_def)
  have settled: "core_ok E n (settle a w')" "current_tasks (settle a w') = []" if "same_exchange w w'" for w'
  proof -
    from same_exchange_core [OF that core] have w': "core_ok E n w'" .
    from that att have "rtm_attempt w' = Some a" by (simp add: same_exchange_def)
    with settle_intents w' have "intents_ok E (settle a w')" by (simp add: core_ok_def)
    with w' show "core_ok E n (settle a w')"
      by (auto simp: core_ok_def generations_ok_def origins_ok_def metadata_valid_def settle_def)
    from same_exchange_current [OF that] idle show "current_tasks (settle a w') = []"
      by (simp add: current_tasks_def settle_def)
  qed
  have finished: "client_ok E n (finish_receipt a receipt generation credential w)" for receipt
  proof (cases "receipt_matches receipt a")
    case True
    let ?w = "w\<lparr>rtm_receipt := Some receipt, rtm_errors := bt_empty\<rparr>"
    have ex: "same_exchange w ?w" by (simp add: same_exchange_def)
    have "client_ok E n (spawn (LoadApplication ((atm_config a)\<lparr>cfg_credential := credential\<rparr>) generation) (settle a ?w))"
      by (rule load_spawn_ok [OF settled [OF ex]]) (use a busy gen in \<open>simp_all add: settle_def attempt_ok_def\<close>)
    with True show ?thesis by (simp add: finish_receipt_def)
  qed (simp add: finish_receipt_def kept)
  have refused: "client_ok E n (show_failure e (settle a w))" "client_ok E n (show_failure e w)" for e
    using same_exchange_idle [OF show_failure_exchange settled(2,1)] quiet [OF show_failure_exchange] by simp_all
  have rest: "client_ok E n (w\<lparr>rtm_notice := notice, rtm_busy := False\<rparr>)" "client_ok E n w" for notice
    by (rule quiet, simp add: same_exchange_def, rule quiet, simp)
  show ?thesis
    unfolding send_answer_def using gen kept finished refused rest by (auto split: outcome.split)
qed

lemma answer_ok:
  assumes "client_ok E n w" and "i < length (rtm_tasks w)"
  shows "client_ok E (Suc n) (answer E i result w)"
proof -
  let ?t = "rtm_tasks w ! i"
  let ?v = "drop_task i w"
  have core: "core_ok E (Suc n) ?v" using assms(1) by (simp add: client_ok_def core_ok_Suc drop_task_core)
  show ?thesis
  proof (cases "task_generation ?t = rtm_generation w")
    case False
    have "task_fits ?v t = task_fits w t" for t by (cases t) (simp_all add: drop_task_def)
    then have "waiting_ok ?v"
      using assms(1) drop_task_current(1) [OF assms(2) False] by (simp add: client_ok_def waiting_ok_def) (simp add: drop_task_def)
    moreover have "answer_task E ?t result ?v = ?v" by (rule stale_answer) (use False in \<open>simp add: drop_task_def\<close>)
    ultimately show ?thesis using core by (simp add: answer_def client_ok_def)
  next
    case True
    then have "current_tasks w \<noteq> []" using assms(2) by (auto simp: current_tasks_def filter_empty_conv)
    with assms(1) obtain t where busy: "rtm_busy w" and t: "current_tasks w = [t]" "task_fits w t"
      by (auto simp: client_ok_def waiting_ok_def)
    from drop_task_current(2) [OF assms(2) True t(1)] have ti: "?t = t" and idle: "current_tasks ?v = []" by simp_all
    have base: "runtime_validate_base (ren_url E) (hrq_base (task_request ?t))"
      using assms by (simp add: client_ok_def core_ok_def origins_ok_def)
    have v: "rtm_busy ?v" "rtm_generation ?v = rtm_generation w" "rtm_attempt ?v = rtm_attempt w"
      using busy by (simp_all add: drop_task_def)
    show ?thesis
    proof (cases ?t)
      case (LoadTable config table generation)
      with same_exchange_idle [OF load_table_answer_exchange idle core] show ?thesis by (simp add: answer_def)
    next
      case (LoadApplication config generation)
      with load_application_answer_ok [OF core idle v(1)] True base v(2) show ?thesis by (simp add: answer_def)
    next
      case (SendCommand a credential recover generation)
      then have "rtm_attempt w = Some a" using t(2) ti by auto
      with send_answer_ok [OF core idle v(1)] SendCommand True v show ?thesis by (simp add: answer_def)
    qed
  qed
qed

lemma start_ok: "client_ok E 0 runtime_start"
  by (simp add: client_ok_def core_ok_def generations_ok_def intents_ok_def origins_ok_def metadata_valid_def
      waiting_ok_def current_tasks_def runtime_start_def)

lemma reaches_ok: "runtime_reaches E n w \<Longrightarrow> n < 2 ^ 64 \<Longrightarrow> client_ok E n w"
  by (induction rule: runtime_reaches.induct) (auto simp: start_ok intro: event_ok answer_ok)

section \<open>Intents and origins\<close>

text \<open>
  C10. One intent at a time. In every state a window reaches, the commands it has sent and the attempts it has
  let go of form the discipline of \<open>open_intent\<close>: after a command is sent, no other command is sent before
  the client lets go of that one, and a repetition is the same request, with the same key and body, to the
  same server. The open intent is that of the attempt on the screen, whose body is the encoding of its
  request and which holds no credential. (The generation counter has 64 bits; the bound excludes its wrap.)
\<close>

theorem one_intent_at_a_time:
  assumes "runtime_reaches E n w" and "n < 2 ^ 64"
  shows "open_intent None (rtm_history w) = Some (map_option attempt_intent (rtm_attempt w))
    \<and> (\<forall>a. rtm_attempt w = Some a \<longrightarrow> cfg_credential (atm_config a) = []
         \<and> encode_command_request (ren_request E) (atm_request a) = Ok (atm_body a))"
  using reaches_ok [OF assms] by (simp add: client_ok_def core_ok_def intents_ok_def attempt_ok_def)

text \<open>
  C15. A credential leaves the window only for a checked origin: every request ever sent goes to an address
  that parses, has no user information, no query and no fragment, and is served over \<open>https\<close> or is local.
\<close>

theorem requests_go_to_checked_origins:
  assumes "runtime_reaches E n w" and "n < 2 ^ 64" and "Sent r \<in> set (rtm_history w)"
  shows "\<exists>origin. ren_url E (hrq_base r) = Some origin
    \<and> (url_protocol origin = ''https:''
       \<or> url_protocol origin = ''http:'' \<and> url_hostname origin \<in> {''localhost'', ''127.0.0.1'', ''[::1]''})
    \<and> url_username origin = [] \<and> url_password origin = [] \<and> url_search origin = [] \<and> url_hash origin = []"
proof -
  from reaches_ok [OF assms(1,2)] assms(3) have "runtime_validate_base (ren_url E) (hrq_base r)"
    by (simp add: client_ok_def core_ok_def origins_ok_def)
  then show ?thesis by (auto simp: runtime_validate_base_def Let_def split: option.splits)
qed

section \<open>The end of an attempt\<close>

text \<open>What a step may do to the attempt without letting go of it.\<close>

definition keeps_attempt :: "attempt \<Rightarrow> runtime \<Rightarrow> bool" where
  "keeps_attempt a w \<longleftrightarrow> (\<exists>a'. rtm_attempt w = Some a' \<and> attempt_intent a' = attempt_intent a
     \<and> (atm_uncertain a \<longrightarrow> atm_uncertain a'))"

lemma keeps_same: "rtm_attempt w = Some a \<Longrightarrow> keeps_attempt a w"
  by (auto simp: keeps_attempt_def)

lemma show_failure_sel [simp]:
  "rtm_attempt (show_failure e w) = rtm_attempt w" "rtm_busy (show_failure e w) = False"
  by (simp_all add: show_failure_def Let_def)

lemma event_keeps_attempt:
  assumes "rtm_attempt w = Some a" and "offered w event"
  shows "keeps_attempt a (handle_event E event w)"
proof -
  show ?thesis
  proof (cases event)
    case Connect
    with assms show ?thesis
      by (auto simp: connect_def Let_def keeps_attempt_def split: outcome.split)
  qed (use assms in \<open>auto simp: locked_def redispatch_def dispatch_def forget_inputs_def keeps_attempt_def\<close>)
qed

lemma send_answer_ends:
  fixes E credential recover generation result
  assumes "rtm_attempt w = Some a"
  defines "w' \<equiv> send_answer E a credential recover generation result w"
  shows "keeps_attempt a w' \<or> (rtm_attempt w' = None
    \<and> ((\<exists>r. rtm_receipt w' = Some r \<and> receipt_matches r a)
       \<or> \<not> recover \<and> \<not> atm_uncertain a \<and> (\<exists>code. code \<noteq> CodeInternal \<and> request_result E result = Err (FailApi code))))"
proof (cases "rtm_generation w = generation")
  case True
  have kept: "keeps_attempt a (keep_unknown a w)" by (simp add: keeps_attempt_def keep_unknown_def)
  have quiet: "keeps_attempt a (w\<lparr>rtm_notice := notice, rtm_busy := False\<rparr>)" "keeps_attempt a w"
    "keeps_attempt a (show_failure e w)" for notice e
    using assms(1) by (simp_all add: keeps_same)
  show ?thesis
  proof (cases "request_result E result")
    case (Ok raw)
    show ?thesis
    proof (cases "decode_receipt (ren_receipt E) raw")
      case rec: (Ok receipt)
      with True Ok kept show ?thesis
        by (simp add: w'_def send_answer_def finish_receipt_def settle_def)
    qed (use True Ok kept quiet in \<open>simp_all add: w'_def send_answer_def\<close>)
  next
    case (Err e)
    show ?thesis
    proof (cases "e = FailApi CodeNotFound \<and> recover \<or> e \<in> {FailTransport, FailProtocol, FailApi CodeInternal}
        \<or> recover \<or> atm_uncertain a")
      case a: True
      with True Err kept quiet show ?thesis by (auto simp: w'_def send_answer_def)
    next
      case False
      then obtain code where "e = FailApi code \<or> e = FailConfiguration" by (cases e) auto
      moreover have "e \<noteq> FailConfiguration"
        using Err by (auto simp: request_result_def outcome_simps split: http_outcome.splits option.splits if_splits)
      ultimately show ?thesis using False True Err by (simp add: w'_def send_answer_def settle_def)
    qed
  next
    case Panic
    with True quiet show ?thesis by (simp add: w'_def send_answer_def)
  qed
qed (use assms(1) in \<open>simp add: w'_def send_answer_def keeps_same\<close>)

lemma spawn_keeps [simp]: "keeps_attempt a (spawn t w) = keeps_attempt a w"
  by (simp add: keeps_attempt_def)

lemma answer_ends:
  fixes result
  assumes "client_ok E n w" and "i < length (rtm_tasks w)" and a: "rtm_attempt w = Some a"
  defines "w' \<equiv> answer E i result w"
  shows "keeps_attempt a w' \<or> (rtm_attempt w' = None
    \<and> ((\<exists>r. rtm_receipt w' = Some r \<and> receipt_matches r a)
       \<or> \<not> atm_uncertain a \<and> (\<exists>code. code \<noteq> CodeInternal \<and> request_result E result = Err (FailApi code))))"
proof -
  let ?t = "rtm_tasks w ! i"
  have v: "rtm_attempt (drop_task i w) = Some a" using a by (simp add: drop_task_def)
  show ?thesis
  proof (cases "task_generation ?t = rtm_generation w")
    case False
    then have "answer_task E ?t result (drop_task i w) = drop_task i w"
      by (intro stale_answer) (simp add: drop_task_def)
    with v show ?thesis by (simp add: w'_def answer_def keeps_same)
  next
    case True
    then have "current_tasks w \<noteq> []" using assms(2) by (auto simp: current_tasks_def filter_empty_conv)
    with assms(1) obtain t where "current_tasks w = [t]" "task_fits w t" by (auto simp: client_ok_def waiting_ok_def)
    with drop_task_current(2) [OF assms(2) True] have fits: "task_fits w ?t" by simp
    show ?thesis
    proof (cases ?t)
      case (LoadTable config table generation)
      have "rtm_attempt (load_table_answer E config table generation result (drop_task i w)) = Some a"
        using load_table_answer_exchange [of "drop_task i w" E config table generation result] v by (simp add: same_exchange_def)
      with LoadTable show ?thesis by (simp add: w'_def answer_def keeps_same)
    next
      case (LoadApplication config generation)
      have "rtm_attempt (load_application_answer E config generation result (drop_task i w)) = Some a"
        using v by (simp add: load_application_answer_def split: outcome.split option.split)
      with LoadApplication show ?thesis by (simp add: w'_def answer_def keeps_same)
    next
      case (SendCommand b credential recover generation)
      with fits a have "b = a" by simp
      with send_answer_ends [OF v, of E credential recover generation result] SendCommand show ?thesis by (auto simp: w'_def answer_def)
    qed
  qed
qed

text \<open>
  C11. How an attempt ends. No event lets go of it, and an uncertain attempt stays uncertain. An answer lets
  go of it only for a reason that is definite: a receipt that names its application, command, record,
  release and key, which is then the receipt on the screen; or, when no earlier sending is unresolved, an
  error of the server that is not an internal one. A lost or unreadable answer never does.
\<close>

theorem attempts_end_definitely:
  assumes "runtime_reaches E n w" and "n < 2 ^ 64" and "rtm_attempt w = Some a"
  shows "(\<forall>event. offered w event \<longrightarrow> keeps_attempt a (handle_event E event w))
    \<and> (\<forall>i < length (rtm_tasks w). \<forall>result. let w' = answer E i result w in
         keeps_attempt a w' \<or> (rtm_attempt w' = None
           \<and> ((\<exists>r. rtm_receipt w' = Some r \<and> receipt_matches r a)
              \<or> \<not> atm_uncertain a \<and> (\<exists>code. code \<noteq> CodeInternal \<and> request_result E result = Err (FailApi code)))))"
  using event_keeps_attempt [OF assms(3)] answer_ends [OF reaches_ok [OF assms(1,2)] _ assms(3)]
  by (simp add: Let_def)

section \<open>Disconnecting\<close>

text \<open>Answers that arrive one after another.\<close>

definition late_answers :: "runtime_env \<Rightarrow> (nat \<times> http_outcome) list \<Rightarrow> runtime \<Rightarrow> runtime" where
  "late_answers E rs w = foldl (\<lambda>w (i, result). if i < length (rtm_tasks w) then answer E i result w else w) w rs"

lemma late_answers_stale:
  assumes "current_tasks w = []"
  shows "\<exists>ts. late_answers E rs w = w\<lparr>rtm_tasks := ts\<rparr> \<and> current_tasks (late_answers E rs w) = []"
  using assms
proof (induction rs arbitrary: w)
  case Nil
  then show ?case by (auto simp: late_answers_def intro: exI [of _ "rtm_tasks w"])
next
  case (Cons p rs)
  obtain i result where p: "p = (i, result)" by (cases p)
  show ?case
  proof (cases "i < length (rtm_tasks w)")
    case True
    with Cons.prems have stale: "task_generation (rtm_tasks w ! i) \<noteq> rtm_generation w"
      by (auto simp: current_tasks_def filter_empty_conv)
    then have "answer E i result w = drop_task i w"
      unfolding answer_def by (intro stale_answer) (simp add: drop_task_def)
    moreover have "current_tasks (drop_task i w) = []" using drop_task_current(1) [OF True stale] Cons.prems by simp
    ultimately show ?thesis using Cons.IH [of "drop_task i w"] True by (auto simp: late_answers_def p drop_task_def)
  next
    case False
    with Cons show ?thesis by (simp add: late_answers_def p)
  qed
qed

text \<open>
  C14. Disconnecting is final for what was under way. Whatever answers arrive afterwards, in whatever order,
  the window shows no metadata, no records and no receipt, holds no credential, is not busy and has sent
  nothing more; an attempt is still there, marked uncertain.
\<close>

theorem disconnect_forgets:
  assumes "runtime_reaches E n w" and "Suc n < 2 ^ 64"
  shows "let w' = late_answers E rs (handle_event E Disconnect w) in
    rtm_credential w' = [] \<and> rtm_metadata w' = None \<and> rtm_list w' = None \<and> rtm_receipt w' = None
    \<and> \<not> rtm_busy w' \<and> rtm_history w' = rtm_history w
    \<and> rtm_attempt w' = map_option (\<lambda>a. a\<lparr>atm_uncertain := True\<rparr>) (rtm_attempt w)"
proof -
  let ?v = "handle_event E Disconnect w"
  from reaches_ok [OF assms(1)] assms(2) have "generations_ok n (w\<lparr>rtm_credential := []\<rparr>)"
    by (simp add: client_ok_def core_ok_def generations_ok_def)
  from invalidate_generations(2) [OF this assms(2)] have "current_tasks ?v = []" by simp
  from late_answers_stale [OF this, of E rs] obtain ts where "late_answers E rs ?v = ?v\<lparr>rtm_tasks := ts\<rparr>" by blast
  then show ?thesis by simp
qed

section \<open>Waiting\<close>

text \<open>The readers of \<open>serde_json\<close> return, with a value or an error.\<close>

definition readers_return :: "runtime_env \<Rightarrow> bool" where
  "readers_return E \<longleftrightarrow> (\<forall>raw. wj_reader (ren_metadata E) raw \<noteq> Panic \<and> wj_reader (ren_list E) raw \<noteq> Panic
     \<and> wj_reader (ren_receipt E) raw \<noteq> Panic \<and> wj_reader (ren_error E) raw \<noteq> Panic)"

fun task_stage :: "runtime_task \<Rightarrow> nat" where
  "task_stage (SendCommand _ _ _ _) = 3"
| "task_stage (LoadApplication _ _) = 2"
| "task_stage (LoadTable _ _ _) = 1"

text \<open>How many more answers a busy window can need.\<close>

definition answers_left :: "runtime \<Rightarrow> nat" where
  "answers_left w = (if rtm_busy w then sum_list (map task_stage (current_tasks w)) else 0)"

lemma decoders_return:
  assumes "readers_return E"
  shows "decode_metadata (ren_metadata E) raw \<noteq> Panic" "decode_list (ren_list E) raw \<noteq> Panic"
    "decode_receipt (ren_receipt E) raw \<noteq> Panic" "request_result E result \<noteq> Panic"
  using assms
  by (auto simp: readers_return_def decode_metadata_def decode_list_def decode_receipt_def decode_api_error_def
      request_result_def wire_decode_total and_then_Panic_iff map_err_Panic_iff split: http_outcome.split option.split)

lemma config_of_returns: "config_of E w \<noteq> Panic"
  by (auto simp: config_of_def and_then_Panic_iff map_err_Panic_iff app_id_new_def ident_new_not_Panic)

definition busy_waits :: "runtime \<Rightarrow> bool" where
  "busy_waits w \<longleftrightarrow> (rtm_busy w \<longrightarrow> current_tasks w \<noteq> [])"

lemma spawn_busy_waits: "task_generation t = rtm_generation w \<Longrightarrow> busy_waits (spawn t w)"
  by (simp add: busy_waits_def spawn_current)

lemma event_busy_waits:
  assumes "busy_waits w" and "offered w event"
  shows "busy_waits (handle_event E event w)"
proof -
  have same: "busy_waits w'" if "same_exchange w w'" "rtm_busy w' = rtm_busy w" for w'
    using assms(1) that by (simp add: busy_waits_def same_exchange_current)
  have idle: "busy_waits w'" if "\<not> rtm_busy w'" for w' using that by (simp add: busy_waits_def)
  show ?thesis
  proof (cases event)
    case Connect
    with assms show ?thesis
      by (auto simp: connect_def Let_def intro!: idle spawn_busy_waits split: outcome.split)
  next
    case Refresh
    with assms show ?thesis by (auto simp: refresh_def locked_def intro!: idle spawn_busy_waits split: outcome.split)
  next
    case (ChooseTable name)
    with assms show ?thesis
      by (auto simp: choose_table_def Let_def locked_def intro!: idle spawn_busy_waits split: outcome.split)
  next
    case (SubmitCommand key)
    with assms have free: "\<not> rtm_busy w" by (simp add: locked_def)
    show ?thesis
      unfolding SubmitCommand handle_event.simps submit_def
      using free by (auto simp: Let_def dispatch_def intro!: idle spawn_busy_waits split: outcome.split option.split prod.split)
  next
    case RecoverReceipt
    with assms show ?thesis
      by (auto simp: redispatch_def dispatch_def intro!: spawn_busy_waits split: option.split)
  next
    case RetryRequest
    with assms show ?thesis
      by (auto simp: redispatch_def dispatch_def intro!: spawn_busy_waits split: option.split)
  qed (use assms in \<open>auto simp: locked_def select_record_def intro: idle\<close>)
qed

text \<open>An answer that counts either ends the wait or starts one for a later stage.\<close>

definition moves_on :: "runtime_task \<Rightarrow> runtime \<Rightarrow> bool" where
  "moves_on t w \<longleftrightarrow> \<not> rtm_busy w \<or> (\<exists>t'. current_tasks w = [t'] \<and> task_stage t' < task_stage t)"

lemma answer_task_moves_on:
  assumes "readers_return E" and "current_tasks w = []" and "task_generation t = rtm_generation w" and "task_fits w t"
  shows "moves_on t (answer_task E t result w)"
proof -
  have spawned: "current_tasks (spawn t' w') = [t']"
    if "rtm_tasks w' = rtm_tasks w" "rtm_generation w' = rtm_generation w" "task_generation t' = rtm_generation w" for t' w'
    using assms(2) that by (simp add: spawn_current) (simp add: current_tasks_def)
  show ?thesis
  proof (cases t)
    case (LoadTable config table generation)
    with assms(3,4) have "\<not> rtm_busy (load_table_answer E config table generation result w)"
      using decoders_return [OF assms(1)]
      by (auto simp: load_table_answer_def Let_def and_then_Panic_iff map_err_Panic_iff split: outcome.split)
    with LoadTable show ?thesis by (simp add: moves_on_def)
  next
    case (LoadApplication config generation)
    with assms(3) show ?thesis
      using decoders_return [OF assms(1)]
      by (auto simp: moves_on_def load_application_answer_def and_then_Panic_iff map_err_Panic_iff spawned
          split: outcome.split option.split)
  next
    case (SendCommand a credential recover generation)
    with assms(3) show ?thesis
      using decoders_return [OF assms(1)]
      by (auto simp: moves_on_def send_answer_def finish_receipt_def settle_def keep_unknown_def spawned split: outcome.split)
  qed
qed

lemma reaches_busy_waits:
  assumes "runtime_reaches E n w" and "n < 2 ^ 64" and "readers_return E"
  shows "busy_waits w"
  using assms
proof (induction rule: runtime_reaches.induct)
  case Start
  show ?case by (simp add: busy_waits_def runtime_start_def)
next
  case (Act n w event)
  then show ?case by (intro event_busy_waits) simp_all
next
  case (Answered n w i result)
  note ok = reaches_ok [OF Answered(1)]
  let ?t = "rtm_tasks w ! i"
  have busy: "rtm_busy (drop_task i w) = rtm_busy w" by (simp add: drop_task_def)
  show ?case
  proof (cases "task_generation ?t = rtm_generation w")
    case False
    then have "answer E i result w = drop_task i w"
      unfolding answer_def by (intro stale_answer) (simp add: drop_task_def)
    with Answered drop_task_current(1) [OF Answered(2) False] busy show ?thesis by (simp add: busy_waits_def)
  next
    case True
    then have "current_tasks w \<noteq> []" using Answered(2) by (auto simp: current_tasks_def filter_empty_conv)
    with ok Answered.prems obtain t where t: "current_tasks w = [t]" "task_fits w t" by (auto simp: client_ok_def waiting_ok_def)
    from drop_task_current(2) [OF Answered(2) True t(1)] have ti: "?t = t" and idle: "current_tasks (drop_task i w) = []" by simp_all
    have "task_fits (drop_task i w) t = task_fits w t" by (cases t) (simp_all add: drop_task_def)
    with answer_task_moves_on [OF Answered.prems(2) idle, of t result] True t(2) ti show ?thesis
      by (auto simp: answer_def moves_on_def busy_waits_def drop_task_def)
  qed
qed

text \<open>
  C13. A busy window waits for exactly one answer that counts, and the wait ends: whatever that answer is, a
  receipt, an error, a timeout or nonsense, the window is free again or waits for a later stage, and there
  are at most three stages.
\<close>

theorem waiting_ends:
  assumes "runtime_reaches E n w" and "n < 2 ^ 64" and "readers_return E" and "rtm_busy w"
  shows "\<exists>i < length (rtm_tasks w). current_tasks w = [rtm_tasks w ! i] \<and> answers_left w \<le> 3
    \<and> (\<forall>result. answers_left (answer E i result w) < answers_left w)"
proof -
  from reaches_busy_waits [OF assms(1-3)] assms(4) have "current_tasks w \<noteq> []" by (simp add: busy_waits_def)
  with reaches_ok [OF assms(1,2)] obtain t where t: "current_tasks w = [t]" "task_fits w t"
    by (auto simp: client_ok_def waiting_ok_def)
  then have "t \<in> set (rtm_tasks w)" and gen: "task_generation t = rtm_generation w"
    by (auto simp: current_tasks_def filter_eq_Cons_iff)
  then obtain i where i: "i < length (rtm_tasks w)" "rtm_tasks w ! i = t" by (auto simp: in_set_conv_nth)
  have left: "answers_left w = task_stage t" using assms(4) t(1) by (simp add: answers_left_def)
  have "0 < task_stage t \<and> task_stage t \<le> 3" by (cases t) simp_all
  moreover have "answers_left (answer E i result w) < task_stage t" for result
  proof -
    from drop_task_current(2) [OF i(1) _ t(1)] gen i(2) have idle: "current_tasks (drop_task i w) = []" by simp
    have "task_fits (drop_task i w) t = task_fits w t" by (cases t) (simp_all add: drop_task_def)
    with answer_task_moves_on [OF assms(3) idle, of t result] gen t(2) have "moves_on t (answer E i result w)"
      by (simp add: answer_def i(2)) (simp add: drop_task_def)
    then show ?thesis using \<open>0 < task_stage t \<and> _\<close> by (auto simp: moves_on_def answers_left_def)
  qed
  ultimately show ?thesis using i t(1) left by auto
qed

section \<open>What is submitted\<close>

lemma insert_not_empty [simp]: "bt_insert k v m \<noteq> bt_empty" "bt_empty \<noteq> bt_insert k v m"
  using entries_Nil_iff [of "bt_insert k v m"] by (auto dest: sym)

lemma read_param_errors: "snd (read_param typed st field) = bt_empty \<Longrightarrow> snd st = bt_empty"
  by (auto simp: read_param_def split: prod.splits option.splits outcome.splits if_splits)

text \<open>What the value sent for a field must be.\<close>

definition param_read :: "(field_id, string) btree_map \<Rightarrow> (field_id, value_dto) btree_map \<Rightarrow> field_metadata_dto \<Rightarrow> bool" where
  "param_read typed params field \<longleftrightarrow>
     (case bt_get typed (fmd_field_id field) of
        None \<Rightarrow> \<not> fmd_required field \<and> bt_get params (fmd_field_id field) = None
      | Some input \<Rightarrow> \<exists>v. parse_param field input = Ok v \<and> bt_get params (fmd_field_id field) = Some v
          \<and> (fmd_required field \<longrightarrow> v \<noteq> DtoBlank \<and> v \<noteq> DtoNull))"

lemma read_params_Ok:
  assumes "read_params typed fs = (params, bt_empty)" and "distinct (map fmd_field_id fs)"
  shows "(\<forall>field\<in>set fs. param_read typed params field) \<and> (\<forall>k. k \<notin> fmd_field_id ` set fs \<longrightarrow> bt_get params k = None)"
  using assms
proof (induction fs arbitrary: params rule: rev_induct)
  case Nil
  then show ?case by (auto simp: read_params_def)
next
  case (snoc field fs)
  obtain params' errors' where before: "read_params typed fs = (params', errors')" by (cases "read_params typed fs")
  with snoc.prems(1) have last: "read_param typed (params', errors') field = (params, bt_empty)" by (simp add: read_params_def)
  with read_param_errors [of typed "(params', errors')" field] have "errors' = bt_empty" by simp
  with snoc before have IH: "\<forall>field\<in>set fs. param_read typed params' field"
    "\<forall>k. k \<notin> fmd_field_id ` set fs \<longrightarrow> bt_get params' k = None" by simp_all
  have fresh: "fmd_field_id field \<notin> fmd_field_id ` set fs" using snoc.prems(2) by auto
  have now: "param_read typed params field"
    and others: "\<forall>k. k \<noteq> fmd_field_id field \<longrightarrow> bt_get params k = bt_get params' k"
    using last IH(2) fresh
    by (auto simp: read_param_def param_read_def split: option.splits outcome.splits if_splits)
  have "param_read typed params f" if "f \<in> set fs" for f
  proof -
    have "fmd_field_id f \<noteq> fmd_field_id field" using fresh that by (metis imageI)
    with others have same: "bt_get params (fmd_field_id f) = bt_get params' (fmd_field_id f)" by simp
    from IH(1) that have "param_read typed params' f" by blast
    then show ?thesis unfolding param_read_def same .
  qed
  with now others IH(2) show ?case by auto
qed

lemma validate_metadata_command:
  assumes "validate_metadata m = Ok ()" and "c \<in> set (mrd_commands m)"
  shows "validate_command c = Ok ()"
proof -
  have "unique_loop {} cmd'_command_id (\<lambda>_. WireValidation ''commands'' ''duplicate command identity'')
       validate_command (mrd_commands m) = Ok ()"
    using assms(1) unfolding validate_metadata_def and_then_Ok_iff by (auto simp only: and_then_Ok_iff split: prod.splits)
  with assms(2) show ?thesis by (simp add: unique_loop_Ok_iff)
qed

lemma validate_command_fields: "validate_command c = Ok () \<Longrightarrow> distinct (map fmd_field_id (cmd'_input_fields c))"
  unfolding validate_command_def metadata_fields_def by (auto simp: and_then_Ok_iff unique_loop_Ok_iff)

lemma find_in_set: "List.find P xs = Some x \<Longrightarrow> x \<in> set xs"
  by (auto simp: find_Some_iff)

lemma selected_command_fields:
  assumes "metadata_valid w" and "selected_command w = Some command"
  shows "distinct (map fmd_field_id (cmd'_input_fields command))"
    and "as_str (cmd'_table_id command) = rtm_table w" and "rtm_record w \<in> as_str ` set (cmd'_eligible_record_ids command)"
proof -
  let ?offers = "\<lambda>command. as_str (cmd'_table_id command) = rtm_table w
      \<and> list_ex (\<lambda>i. as_str i = rtm_record w) (cmd'_eligible_record_ids command)"
  let ?chosen = "\<lambda>command. cmd'_command_id command = rtm_command w"
  from assms(2) obtain m where m: "rtm_metadata w = Some m"
    and "(case List.find ?chosen (filter ?offers (mrd_commands m)) of
        Some c \<Rightarrow> Some c | None \<Rightarrow> List.find (\<lambda>_. True) (filter ?offers (mrd_commands m))) = Some command"
    unfolding selected_command_def Let_def by (cases "rtm_metadata w") simp_all
  then have "List.find ?chosen (filter ?offers (mrd_commands m)) = Some command
      \<or> List.find (\<lambda>_. True) (filter ?offers (mrd_commands m)) = Some command"
    by (cases "List.find ?chosen (filter ?offers (mrd_commands m))") simp_all
  then have "command \<in> set (filter ?offers (mrd_commands m))" by (elim disjE) (erule find_in_set)+
  then have c: "command \<in> set (mrd_commands m)" and offered: "as_str (cmd'_table_id command) = rtm_table w"
    "rtm_record w \<in> as_str ` set (cmd'_eligible_record_ids command)"
    by (auto simp: list_ex_iff intro: rev_image_eqI)
  from assms(1) m have "validate_metadata m = Ok ()" by (simp add: metadata_valid_def)
  from validate_command_fields [OF validate_metadata_command [OF this c]]
  show "distinct (map fmd_field_id (cmd'_input_fields command))" .
  from offered show "as_str (cmd'_table_id command) = rtm_table w"
    "rtm_record w \<in> as_str ` set (cmd'_eligible_record_ids command)" .
qed

text \<open>
  C12. A submission says what is on the screen. When the submit button leaves an attempt behind, exactly one
  request was sent for it, a \<open>POST\<close> of its body with the window's credential. The attempt names a command
  the server offers for the selected record, the record is in the list shown, the revision and the release
  are those of the list and the metadata shown, and the parameters are the typed texts: each field's text
  parsed, an untouched field left out, no required field missing or blank, and nothing else.
\<close>

theorem submission_says_what_is_shown:
  assumes "runtime_reaches E n w" and "n < 2 ^ 64" and "offered w (SubmitCommand key)"
    and "rtm_attempt (submit E key w) = Some a"
  shows "\<exists>metadata rows command.
    rtm_metadata w = Some metadata \<and> rtm_list w = Some rows \<and> selected_command w = Some command
    \<and> key = Some (crd_request_key (atm_request a)) \<and> crd_command_id (atm_request a) = cmd'_command_id command
    \<and> as_str (crd_record_id (atm_request a)) = rtm_record w
    \<and> crd_record_id (atm_request a) \<in> rcd_record_id ` set (lrd_records rows)
    \<and> crd_record_id (atm_request a) \<in> set (cmd'_eligible_record_ids command)
    \<and> crd_expected_revision (atm_request a) = lrd_revision rows
    \<and> crd_release_id (atm_request a) = mrd_release_id metadata
    \<and> (\<forall>field\<in>set (cmd'_input_fields command). param_read (rtm_params w) (crd_params (atm_request a)) field)
    \<and> (\<forall>k. k \<notin> fmd_field_id ` set (cmd'_input_fields command) \<longrightarrow> bt_get (crd_params (atm_request a)) k = None)
    \<and> rtm_history (submit E key w) = rtm_history w @
        [Sent ((attempt_intent a)\<lparr>hrq_credential := rtm_credential w\<rparr>)]
    \<and> hrq_body (attempt_intent a) = atm_body a"
proof (cases rule: submit_cases [of w E key])
  case 1
  with assms(3,4) show ?thesis by (simp add: same_exchange_def locked_def)
next
  case (2 k b)
  then have sent: "submit E key w = spawn (SendCommand b (rtm_credential w) False (rtm_generation w))
      (w\<lparr>rtm_errors := bt_empty, rtm_receipt := None, rtm_attempt := Some b, rtm_busy := True, rtm_notice := NoticeSending\<rparr>)"
    by (simp add: dispatch_def)
  with assms(4) have "b = a" by simp
  with 2(4) obtain metadata rows command i params config where
    b: "rtm_metadata w = Some metadata" "rtm_list w = Some rows" "selected_command w = Some command"
      "record_id_new (rtm_record w) = Ok i" "i \<in> rcd_record_id ` set (lrd_records rows)"
      "read_params (rtm_params w) (cmd'_input_fields command) = (params, bt_empty)"
    and request: "atm_request a = \<lparr>crd_api_version = API_VERSION, crd_command_id = cmd'_command_id command,
          crd_record_id = i, crd_params = params, crd_request_key = k,
          crd_expected_revision = lrd_revision rows, crd_release_id = mrd_release_id metadata\<rparr>"
    unfolding builds_def by blast
  have "metadata_valid w" using reaches_ok [OF assms(1,2)] by (simp add: client_ok_def core_ok_def)
  note command = selected_command_fields [OF this b(3)]
  from b(4) have i: "as_str i = rtm_record w" by (auto simp: record_id_new_def ident_new_Ok_iff)
  with command(3) have "i \<in> set (cmd'_eligible_record_ids command)" by (metis imageE ident.expand)
  moreover have "rtm_history (submit E key w) = rtm_history w @ [Sent ((attempt_intent a)\<lparr>hrq_credential := rtm_credential w\<rparr>)]"
    using sent \<open>b = a\<close> by (simp add: attempt_intent_def)
  moreover have "hrq_body (attempt_intent a) = atm_body a" by (simp add: attempt_intent_def)
  ultimately show ?thesis
    using b(1-3,5) request i 2(3) read_params_Ok [OF b(6) command(1)] by auto
qed

section \<open>A window\<close>

text \<open>Runs that can be evaluated.\<close>

datatype runtime_action = Do runtime_event | Reply nat http_outcome

fun runtime_trace :: "runtime_env \<Rightarrow> runtime_action list \<Rightarrow> runtime \<Rightarrow> runtime option" where
  "runtime_trace E [] w = Some w"
| "runtime_trace E (Do event # actions) w =
     (if offered w event then runtime_trace E actions (handle_event E event w) else None)"
| "runtime_trace E (Reply i result # actions) w =
     (if i < length (rtm_tasks w) then runtime_trace E actions (answer E i result w) else None)"

lemma trace_reaches:
  "runtime_reaches E n w \<Longrightarrow> runtime_trace E actions w = Some w' \<Longrightarrow> runtime_reaches E (n + length actions) w'"
proof (induction E actions w arbitrary: n rule: runtime_trace.induct)
  case (2 E event actions w)
  then show ?case using Act [OF 2(2)] by (force split: if_splits)
next
  case (3 E i result actions w)
  then show ?case using Answered [OF 3(2)] by (force split: if_splits)
qed simp

text \<open>A server whose every answer is the same document, and a window that connects, submits and loses the answer.\<close>

definition demo_wire :: "'a \<Rightarrow> 'a wire_json" where
  "demo_wire dto = \<lparr>wj_document = (\<lambda>_. JScalar), wj_trailing = (\<lambda>_. None), wj_reader = (\<lambda>_. Ok dto), wj_writer = (\<lambda>_. [''{}''])\<rparr>"

definition demo_command :: command_metadata_dto where
  "demo_command = \<lparr>cmd'_command_id = ''cmd_start'', cmd'_name = ''Start'', cmd'_table_id = Ident ''tbl_requests'',
     cmd'_input_fields = [\<lparr>fmd_field_id = Ident ''fld_note'', fmd_name = ''Note'', fmd_field_type = FText, fmd_required = True\<rparr>],
     cmd'_eligible_record_ids = [Ident ''rec_1'']\<rparr>"

definition demo_metadata :: metadata_response_dto where
  "demo_metadata = \<lparr>mrd_api_version = 1, mrd_app_id = Ident ''app_support'', mrd_release_id = ''release_1'',
     mrd_revision = RevisionDto 4, mrd_canonical_appspec = None, mrd_supported = [],
     mrd_tables = [\<lparr>tmd_table_id = Ident ''tbl_requests'', tmd_name = ''Requests'', tmd_fields = []\<rparr>],
     mrd_commands = [demo_command]\<rparr>"

definition demo_list :: list_response_dto where
  "demo_list = \<lparr>lrd_api_version = 1, lrd_app_id = Ident ''app_support'', lrd_table_id = Ident ''tbl_requests'',
     lrd_release_id = ''release_1'', lrd_revision = RevisionDto 4,
     lrd_records = [\<lparr>rcd_record_id = Ident ''rec_1'', rcd_values = bt_empty\<rparr>], lrd_has_more = False\<rparr>"

definition demo_intent :: command_request_dto where
  "demo_intent = \<lparr>crd_api_version = 1, crd_command_id = ''cmd_start'', crd_record_id = Ident ''rec_1'',
     crd_params = bt_of_list [(Ident ''fld_note'', DtoText ''now'')], crd_request_key = ''req_1'',
     crd_expected_revision = RevisionDto 4, crd_release_id = ''release_1''\<rparr>"

definition demo_net :: runtime_env where
  "demo_net = \<lparr>ren_url = (\<lambda>_. Some \<lparr>url_protocol = ''http:'', url_hostname = ''127.0.0.1'', url_username = [],
       url_password = [], url_search = [], url_hash = [], url_pathname = ''/''\<rparr>),
     ren_reply = (\<lambda>text. Some \<lparr>hrp_status = 200, hrp_payload = text\<rparr>),
     ren_metadata = demo_wire demo_metadata, ren_list = demo_wire demo_list,
     ren_receipt = demo_wire \<lparr>rrd_api_version = 1, rrd_app_id = Ident ''app_support'', rrd_command_id = ''cmd_start'',
       rrd_record_id = Ident ''rec_1'', rrd_release_id = ''release_1'', rrd_request_key = ''req_1'',
       rrd_revision = RevisionDto 5, rrd_replayed = False\<rparr>,
     ren_error = demo_wire \<lparr>aed_api_version = 1, aed_code = CodeConflict, aed_message = [], aed_field = None\<rparr>,
     ren_request = demo_wire demo_intent\<rparr>"

definition demo_connects :: "runtime_action list" where
  "demo_connects = [Do (TypeApp ''app_support''), Do (TypeCredential ''secret''), Do Connect,
     Reply 0 (HttpText ''{}''), Reply 0 (HttpText ''{}''), Do (TypeParam (Ident ''fld_note'') ''now'')]"

definition demo_after :: "runtime_action list \<Rightarrow> runtime" where
  "demo_after actions = (case runtime_trace demo_net actions runtime_start of Some w \<Rightarrow> w | None \<Rightarrow> runtime_start)"

definition demo_ready :: runtime where "demo_ready = demo_after demo_connects"
definition demo_sent :: runtime where "demo_sent = demo_after (demo_connects @ [Do (SubmitCommand (Some ''req_1''))])"
definition demo_lost :: runtime where
  "demo_lost = demo_after (demo_connects @ [Do (SubmitCommand (Some ''req_1'')), Reply 0 HttpRejected, Do RetryRequest])"

definition demo_attempt :: attempt where
  "demo_attempt = \<lparr>atm_config = \<lparr>cfg_base = ''http://127.0.0.1:8080'', cfg_app = Ident ''app_support'', cfg_credential = []\<rparr>,
     atm_request = demo_intent, atm_body = ''{}'', atm_uncertain = False\<rparr>"

lemma demo_runs:
  "(runtime_trace demo_net demo_connects runtime_start \<noteq> None
    \<and> runtime_trace demo_net (demo_connects @ [Do (SubmitCommand (Some ''req_1''))]) runtime_start \<noteq> None
    \<and> runtime_trace demo_net (demo_connects @ [Do (SubmitCommand (Some ''req_1'')), Reply 0 HttpRejected, Do RetryRequest])
        runtime_start \<noteq> None)
   \<and> (offered demo_ready (SubmitCommand (Some ''req_1''))
      \<and> rtm_attempt (submit demo_net (Some ''req_1'') demo_ready) = Some demo_attempt)
   \<and> (rtm_busy demo_sent \<and> rtm_attempt demo_sent = Some demo_attempt \<and> length (rtm_tasks demo_sent) = 1
      \<and> Sent ((attempt_intent demo_attempt)\<lparr>hrq_credential := ''secret''\<rparr>) \<in> set (rtm_history demo_sent))
   \<and> (rtm_attempt demo_lost = Some (demo_attempt\<lparr>atm_uncertain := True\<rparr>) \<and> length (rtm_history demo_lost) = 4)"
  by code_simp

lemmas demo_traces = demo_runs [THEN conjunct1]
  and demo_ready_facts = demo_runs [THEN conjunct2, THEN conjunct1]
  and demo_sent_facts = demo_runs [THEN conjunct2, THEN conjunct2, THEN conjunct1]
  and demo_lost_facts = demo_runs [THEN conjunct2, THEN conjunct2, THEN conjunct2]

lemma demo_after_reaches:
  assumes "runtime_trace demo_net actions runtime_start \<noteq> None"
  shows "runtime_reaches demo_net (length actions) (demo_after actions)"
proof -
  from assms obtain w where "runtime_trace demo_net actions runtime_start = Some w" by blast
  with trace_reaches [OF Start this] show ?thesis by (simp add: demo_after_def)
qed

lemma demo_length: "length demo_connects = 6" by (simp add: demo_connects_def)

lemma demo_reach:
  "runtime_reaches demo_net 6 demo_ready" "runtime_reaches demo_net 7 demo_sent" "runtime_reaches demo_net 9 demo_lost"
  using demo_after_reaches [OF demo_traces [THEN conjunct1]]
    demo_after_reaches [OF demo_traces [THEN conjunct2, THEN conjunct1]]
    demo_after_reaches [OF demo_traces [THEN conjunct2, THEN conjunct2]]
  by (simp_all add: demo_length demo_ready_def demo_sent_def demo_lost_def)

lemma demo_returns: "readers_return demo_net"
  by (simp add: readers_return_def demo_net_def demo_wire_def)

theorem one_intent_at_a_time_witness:
  "open_intent None (rtm_history demo_lost) = Some (Some (attempt_intent demo_attempt)) \<and> length (rtm_history demo_lost) = 4"
  using one_intent_at_a_time [OF demo_reach(3)] demo_lost_facts by simp

theorem requests_go_to_checked_origins_witness:
  "\<exists>origin. ren_url demo_net (hrq_base ((attempt_intent demo_attempt)\<lparr>hrq_credential := ''secret''\<rparr>)) = Some origin
     \<and> url_password origin = []"
  using requests_go_to_checked_origins [OF demo_reach(2), of "(attempt_intent demo_attempt)\<lparr>hrq_credential := ''secret''\<rparr>"]
    demo_sent_facts by auto

theorem attempts_end_definitely_witness:
  "keeps_attempt demo_attempt (handle_event demo_net Disconnect demo_sent)"
  by (rule attempts_end_definitely [OF demo_reach(2), THEN conjunct1, rule_format]) (use demo_sent_facts in simp_all)

theorem disconnect_forgets_witness:
  "rtm_metadata (late_answers demo_net [(0, HttpText ''{}'')] (handle_event demo_net Disconnect demo_sent)) = None
   \<and> rtm_attempt (late_answers demo_net [(0, HttpText ''{}'')] (handle_event demo_net Disconnect demo_sent))
       = Some (demo_attempt\<lparr>atm_uncertain := True\<rparr>)"
  using disconnect_forgets [OF demo_reach(2), of "[(0, HttpText ''{}'')]"] demo_sent_facts by (simp add: Let_def)

theorem waiting_ends_witness:
  "answers_left (answer demo_net 0 HttpRejected demo_sent) < answers_left demo_sent"
  using waiting_ends [OF demo_reach(2) _ demo_returns] demo_sent_facts by auto

theorem submission_says_what_is_shown_witness:
  "\<exists>command. selected_command demo_ready = Some command \<and> crd_command_id demo_intent = cmd'_command_id command"
  using submission_says_what_is_shown [OF demo_reach(1), of "Some ''req_1''" demo_attempt] demo_ready_facts
  by (auto simp: demo_attempt_def)

end
