(* ===== verification/Spec2Isabelle.thy ===== *)
theory Spec2Isabelle
  imports Prelude Rust_Std Ordered_Maps Identity Spec_Types Codec Constraints Fixtures Facts Cells
    Authority Policy Submit Command_Decls Compile Commands Lifecycle Relations Formulas
    Store Store_Laws Access Wire Host Service
    Rest Postgres Catalog Registry Database_Api Hub Topics Auth
    Draft Builder Wire_Totality Runtime_Client
begin

text \<open>
  EvoBase lets an operator describe an application (tables, references, constraints, policies, state
  machines, commands) as a declarative definition and runs that definition without generated code. This
  library models the crate that gives definitions their meaning, \<open>crates/evobase-appspec\<close>, the embedded
  store that executes commands, \<open>crates/evobase-store\<close>, and the host that serves an application over HTTP,
  \<open>apps/evobase-host\<close> with its messages in \<open>crates/evobase-protocol\<close>, and proves what makes them correct. Beside
  it stands the older server, a gateway over a PostgreSQL database: REST requests turned into SQL, the registry
  of databases, messaging, and accounts with tokens (\<open>crates/evobase-core\<close>, \<open>-gateway\<close>, \<open>-db\<close>, \<open>-messaging\<close>, \<open>-auth\<close>).

  \<^bold>\<open>How the program's parts interact.\<close> A raw definition (\<open>model.rs\<close>) is compiled once: \<open>compile\<close>
  checks limits, references, captures, policies, submit rules, constraints (\<open>constraints.rs\<close>) and
  command declarations (\<open>commands.rs\<close>). Records are validated as a whole against a compiled definition
  (\<open>value.rs\<close>), and every later step starts from validated records. A request carries a credential; the
  host's \<open>SessionVerifier\<close> attests session, membership and binding, and \<open>resolve\<close> turns them into a
  context (\<open>policy.rs\<close>). Under that context \<open>project\<close>, \<open>lookup\<close>, \<open>visible_count\<close> and \<open>visible_sum\<close>
  disclose rows, \<open>decide_submit_order\<close> and \<open>prepare_command\<close>/\<open>decide_command\<close> decide on changes, and
  each decision returns a batch for a store to commit. \<open>RelationStore\<close> (\<open>relations.rs\<close>) applies batches of
  changes with captured prices, lookups and reverse references; named formulas over those relations are
  checked once and evaluated under budgets. \<open>Store\<close> (\<open>evobase-store\<close>) keeps the encoded definition and facts of
  each application and executes a prepared and decided command in one transaction that also writes the
  audit entry, the events and the receipt a retry is answered from. The host reads operator-issued access
  facts for every resolution, and its handlers answer metadata and lists from projections, and commands and
  receipts from the store; \<open>serve\<close> is the composition of all of it, from a request and the tables to a
  response and the tables.

  The gateway shares no state with that. \<open>path_guard\<close> says which credential a route needs, \<open>authenticate\<close> checks it
  against the tokens the account service issues, and the handlers read a request (\<open>parse_select_request\<close> and the
  others), build one SQL statement from it, and run it in one transaction under the user's identity. The catalog of the
  database becomes its documentation, which also names the fields the detail endpoints may look up. The registry
  keeps the storages of all databases; bootstrapping one provisions it on the server and registers the outcome.
  Messages go through the hub, to the connections of a user or into a queue, or through topics.

  The builder (\<open>apps/evobase-builder\<close>) runs in the browser and links the core. Its drafts are a definition and
  records; every edit, import and rule goes through the core's compilation, validation and one checked batch, and a
  draft is saved under a lock all tabs share. Its runtime client talks to the host over HTTP, keeps one intent
  until its outcome is definite, and ignores answers that come too late.

  \<^bold>\<open>Theories.\<close>
  \<^item> \<open>Prelude\<close>: lemmas on lists, options and words; the collections \<open>outcome_simps\<close> and friends.
  \<^item> \<open>Rust_Std\<close>: the Rust vocabulary. A result is \<open>Ok\<close>, \<open>Err\<close> or \<open>Panic\<close>, so that every \<open>expect\<close>,
    \<open>unreachable!\<close> and index of the source is a branch of the model; loops with early return are
    \<open>for_each\<close> and \<open>fold_m\<close>; 64-bit integers are words with checked addition.
  \<^item> \<open>Ordered_Maps\<close>: \<open>BTreeMap\<close> and \<open>BTreeSet\<close> as key-sorted lists, behind the locale \<open>ordered_map\<close>.
  \<^item> \<open>Identity\<close> (\<open>id.rs\<close>): identifiers and scopes. \<open>Spec_Types\<close> (\<open>model.rs\<close>, \<open>error.rs\<close>): the data.
  \<^item> \<open>Codec\<close> (\<open>codec.rs\<close>): the lexical preflight of JSON texts, the bounded writer, unique keys.
  \<^item> \<open>Constraints\<close> (\<open>constraints.rs\<close>), \<open>Facts\<close> and \<open>Cells\<close> (\<open>value.rs\<close>): constraints, validation and
    normalization of records, typed cell input.
  \<^item> \<open>Authority\<close>, \<open>Policy\<close>, \<open>Submit\<close> (\<open>policy.rs\<close>): resolution of authority, projections, order
    submission with replay.
  \<^item> \<open>Command_Decls\<close>, \<open>Commands\<close>, \<open>Lifecycle\<close> (\<open>commands.rs\<close>): declarations; preparation and decision of
    a command, available actions; the reachable states of an application under its commands.
  \<^item> \<open>Compile\<close> (\<open>model.rs\<close>, \<open>lib.rs\<close>): compilation and the compiled form's well-formedness \<open>wf_spec\<close>.
  \<^item> \<open>Relations\<close> (\<open>relations.rs\<close>): output policies behind the locale \<open>attested_policy\<close>, batches, lookups.
  \<^item> \<open>Formulas\<close> (\<open>relations.rs\<close>): numeric formulas, their type checker, authorization and evaluation, with the
    judgement \<open>formula_kind\<close> and the relational semantics \<open>formula_value\<close> they are proved against.
  \<^item> \<open>Store\<close> (\<open>evobase-store/src/lib.rs\<close>, \<open>commands.rs\<close>): the tables, opening, bootstrapping, loading, executing
    and recovering; \<open>Store_Laws\<close>: atomicity, the append-only history, at-most-once execution, recovery of a
    lost answer, and the refinement of \<open>Lifecycle\<close>'s workflow by every history of the store.
  \<^item> \<open>Access\<close> (\<open>evobase-host/src/access.rs\<close>): access facts, their validation, the \<open>SessionVerifier\<close> of the
    host; the locale \<open>total_host\<close>, interpreted on it, is what the core needs to answer every request.
  \<^item> \<open>Wire\<close> (\<open>evobase-protocol/src/appspec.rs\<close>): the messages, their bounds, decoding and encoding.
  \<^item> \<open>Host\<close> (\<open>evobase-host/src/lib.rs\<close>): authorization, the handlers, the middleware, the error
    responses; what lists and metadata disclose and what may change the tables. \<open>Service\<close>: no request
    makes the host panic, and one concrete host on which the theorems are exercised.
  \<^item> \<open>Rest\<close> (\<open>evobase-core/src/error.rs\<close>, \<open>rest.rs\<close>, \<open>evobase-gateway/src/rest.rs\<close>): errors and statuses, identifiers,
    the reading of requests. \<open>Postgres\<close> (\<open>evobase-db/src/postgres.rs\<close>, \<open>handlers/rest.rs\<close>): the statements, the
    transactions, the handlers; every statement is a template of fixed words, checked identifiers and placeholders
    (\<open>statement_safe\<close>) whose text no value reaches. \<open>Catalog\<close>: the documentation built from catalog rows,
    against reference definitions.
  \<^item> \<open>Registry\<close> (\<open>evobase-core/src/database.rs\<close>, provisioning in \<open>postgres.rs\<close>): requests, the registry over time
    (\<open>registry_run\<close>), provisioning call by call. \<open>Database_Api\<close> (\<open>evobase-protocol/src/databases.rs\<close>, \<open>docs.rs\<close>):
    the messages and handlers about databases.
  \<^item> \<open>Hub\<close> (\<open>evobase-messaging/src/hub.rs\<close>): the hub as a step relation (\<open>hub_run\<close>), its invariant, what is sent
    and what waits. \<open>Topics\<close> (\<open>topic_messaging.rs\<close>): bounded queues and broadcast channels.
  \<^item> \<open>Auth\<close> (\<open>evobase-auth/src/service.rs\<close>, \<open>config.rs\<close>, \<open>middleware.rs\<close>, \<open>routes.rs\<close>): accounts over the locale
    \<open>user_accounts\<close>, interpreted on the table of users; tokens; the guards of the routes.
  \<^item> \<open>Draft\<close> (\<open>evobase-builder/src/lib.rs\<close>): pending cells, imports, the checked batch behind both, the saved
    snapshot. \<open>Builder\<close> (\<open>lib.rs\<close>, \<open>constraints.rs\<close>, the editors of \<open>policy.rs\<close>): the signals of a tab, its event
    handlers, and several tabs over one storage (\<open>browser_step\<close>); its invariant \<open>tab_ok\<close>, and the saves as one history.
  \<^item> \<open>Runtime_Client\<close> (\<open>runtime.rs\<close>): the client's handlers and the requests in flight (\<open>runtime_reaches\<close>), its
    invariant \<open>client_ok\<close>, the discipline of its history (\<open>open_intent\<close>). \<open>Wire_Totality\<close>: no message panics.
  \<^item> \<open>Fixtures\<close> (\<open>fixtures.rs\<close>): the synthetic applications, the inputs of the witnesses.

  Definitions keep the names of the code. A Rust struct is a \<open>record\<close> whose selectors carry a short prefix
  (\<open>fld_\<close> for \<open>RawField\<close>, \<open>cmd_\<close> for \<open>RawCommand\<close>), an enum is a \<open>datatype\<close>, and a body that is long in the
  code is split into named stages, composed in the order of the code.

  \<^bold>\<open>What the lemmas show.\<close> Each component has an exact description of its successes (the \<open>_Ok_iff\<close>
  lemmas) and a proof that it does not panic on checked inputs (\<open>_not_Panic\<close>). The properties, marked with
  an identifier C1, C2, ..., rest on them: acceptance criteria of validation and of declarations, what a
  projection discloses and what cannot influence it, what a command, a submission and a batch may write, replay, round trips,
  idempotence, exact sums, and invariants of all reachable states of a workflow.

  \<^bold>\<open>Parameters.\<close> \<open>serde_json\<close> is third-party: a value of type \<open>serde\<close> gives the texts it writes and
  the readers it has. No theorem assumes more of it than that a text it wrote is read back where that is
  said. The host behind \<open>SessionVerifier\<close> is a record of functions. \<open>sha2\<close>, \<open>serde\<close> derives and
  formatting are not modelled beyond that. In the store any call of the database may fail (\<open>db_faults\<close>), the
  host may change between the three moments it is asked (\<open>moment\<close>), and the documents only the store
  writes are a record of functions (\<open>store_json\<close>); \<open>json_reads_back\<close> and \<open>receipts_read_back\<close> name what
  the theorems that need it assume of them. A table of \<open>schema.sql\<close> is a map from its primary key, and an
  insertion fails on a duplicate key or a violated check. Around the host, \<open>host_env\<close> gives the JSON
  library for each message, the decoding of header values, the failures of the database, and at each
  moment a handler asks (\<open>host_moment\<close>) the clock, the digest and the content of the access file;
  \<open>host_env_total\<close> says the readers answer a value or an error. \<open>axum\<close> extracts the route, headers and body.
  In the gateway, the PostgreSQL server is a function from a call and its state to an answer and a state
  (\<open>pg_server\<close>, \<open>admin_server\<close>), so any answer to any call is covered; \<open>form_urlencoded\<close>, the url crate, argon2, the
  JWT crate and the Unicode case tables are functions (\<open>form_parse\<close>, \<open>url_with_path\<close>, \<open>auth_crates\<close>). What theorems
  assume of them is in their statements: a password matches its own hash, a token decodes under its own secret
  only, and does so while it lives. Channels of \<open>tokio\<close> are queues, as its documentation says; the clock of the hub only moves forward.
  In the browser, the location, the answers of the storage and of \<open>fetch\<close>, the URL parser (\<open>runtime_env\<close>), the JSON of a
  snapshot (\<open>snapshot_json\<close>) and the Vietnamese texts (\<open>language\<close>) are parameters; Web Locks make a write atomic.

  \<^bold>\<open>Bounds.\<close> \<open>usize\<close> counters are natural numbers: each counts at most the bytes, rows or nodes of a
  bounded input, far below the width of the type. Stored numbers are 64-bit words with overflow.
  The functions that follow named formulas without a depth check of their own take fuel and panic when it
  is used up; \<open>evaluate\<close> starts them with the \<open>max_depth\<close> the formulas were checked under, and
  \<open>compiled_formula_type_sound\<close> shows that evaluation of a checked formula never panics.

  The hub's clock is in nanoseconds, and a deadline beyond 64-bit seconds panics; the bounds of topics are the code's.
  The generation counter of the runtime client wraps after \<open>2 ^ 64\<close> steps; its theorems speak of shorter runs.

  \<^bold>\<open>Not modelled.\<close> The two panels of the builder that simulate policies and relations, rendering, focus and the
  page history. What PostgreSQL does with a statement, the text of the two catalog
  queries, HTML rendering, process start and the clients are I/O around other systems.
\<close>

end
